(* ===== verification/Wawo_Prelude.thy ===== *)
theory Wawo_Prelude
  imports Main "HOL-Library.Word" "HOL-Library.Monad_Syntax" "HOL-Library.Sublist"
begin

text \<open>
  What every theory of the development shares: the integer types of
  include/wawo/config/compiler.h, the assertion macros as guards of the option monad
  (the value None is a thrown wawo::exception), checked access to raw memory,
  the socket option numbers of Linux and the error codes of include/wawo/constants.h that the modelled code uses, and generic
  lemmas on lists, the option monad and machine words.
\<close>

unbundle bit_operations_syntax

section \<open>Integer types\<close>

text \<open>The typedefs of include/wawo/config/compiler.h. A \<open>byte_t*\<close> with its length is a list.\<close>

type_synonym byte = "8 word"
type_synonym u16 = "16 word"
type_synonym u32 = "32 word"
type_synonym u64 = "64 word"
type_synonym bytes = "byte list"

section \<open>Collections of rules\<close>

named_theorems wdefs \<open>definitions the component proofs unfold\<close>
named_theorems bounds \<open>numeric facts that follow from an invariant\<close>
named_theorems inv_pres \<open>an operation keeps the invariant of its component\<close>

section \<open>Exceptions\<close>

text \<open>
  WAWO_ASSERT throws a wawo::exception in release builds too (macros.h defines
  WAWO_USE_WAWO_ASSERT_FOR_RELEASE), and WAWO_CONDITION_CHECK throws one always. No modelled
  caller resumes after such an exception, so an operation that may throw returns an option:
  None is the exception.
\<close>

definition wawo_assert :: "bool \<Rightarrow> unit option" where
  "wawo_assert b = (if b then Some () else None)"

definition wawo_condition_check :: "bool \<Rightarrow> unit option" where
  "wawo_condition_check b = (if b then Some () else None)"

lemma wawo_assert_simps [simp]:
  "wawo_assert True = Some ()"
  "wawo_assert False = None"
  "b \<Longrightarrow> wawo_assert b = Some ()"
  "(wawo_assert b = Some u) = b"
  "(wawo_assert b = None) = (\<not> b)"
  by (simp_all add: wawo_assert_def)

lemma wawo_condition_check_simps [simp]:
  "wawo_condition_check True = Some ()"
  "wawo_condition_check False = None"
  "b \<Longrightarrow> wawo_condition_check b = Some ()"
  "(wawo_condition_check b = Some u) = b"
  "(wawo_condition_check b = None) = (\<not> b)"
  by (simp_all add: wawo_condition_check_def)

lemma assert_bind [simp]:
  "(wawo_assert b \<bind> f) = (if b then f () else None)"
  by (simp add: wawo_assert_def)

lemma condition_check_bind [simp]:
  "(wawo_condition_check b \<bind> f) = (if b then f () else None)"
  by (simp add: wawo_condition_check_def)

lemma bind_SomeE:
  assumes "Option.bind m f = Some y"
  obtains x where "m = Some x" "f x = Some y"
  using assms by (auto simp: bind_eq_Some_conv)

section \<open>Raw memory\<close>

text \<open>
  A heap block is a list of bytes. memcpy from and to an offset of a block is checked: None when
  the access leaves the block, so that a theorem which says an operation returns Some
  also says that it stays inside its buffers.
\<close>

definition mem_read :: "bytes \<Rightarrow> nat \<Rightarrow> nat \<Rightarrow> bytes option" where
  "mem_read m off n = (if off + n \<le> length m then Some (take n (drop off m)) else None)"

definition mem_write :: "bytes \<Rightarrow> nat \<Rightarrow> bytes \<Rightarrow> bytes option" where
  "mem_write m off src =
     (if off + length src \<le> length m
      then Some (take off m @ src @ drop (off + length src) m) else None)"

text \<open>Memory fresh from malloc holds unspecified bytes: the function \<open>junk\<close> gives them.\<close>

definition fresh_mem :: "(nat \<Rightarrow> byte) \<Rightarrow> nat \<Rightarrow> bytes" where
  "fresh_mem junk n = map junk [0..<n]"

lemma length_fresh_mem [simp]: "length (fresh_mem junk n) = n"
  by (simp add: fresh_mem_def)

lemma mem_read_Some [simp]: "off + n \<le> length m \<Longrightarrow> mem_read m off n = Some (take n (drop off m))"
  by (simp add: mem_read_def)

lemma mem_write_Some [simp]: "off + length src \<le> length m \<Longrightarrow>
    mem_write m off src = Some (take off m @ src @ drop (off + length src) m)"
  by (simp add: mem_write_def)

lemma mem_read_length: "mem_read m off n = Some d \<Longrightarrow> length d = n"
  by (auto simp: mem_read_def split: if_splits)

lemma mem_write_length: "mem_write m off src = Some m' \<Longrightarrow> length m' = length m"
  by (auto simp: mem_write_def split: if_splits)

section \<open>Socket options\<close>

text \<open>The option numbers of Linux that both the sockets and the calls of class \<open>wcp\<close> compare with.\<close>

definition SO_REUSEADDR :: int where "SO_REUSEADDR = 2"
definition SO_SNDBUF :: int where "SO_SNDBUF = 7"
definition SO_RCVBUF :: int where "SO_RCVBUF = 8"
definition SO_REUSEPORT :: int where "SO_REUSEPORT = 15"

section \<open>Error codes\<close>

text \<open>The members of enum ErrorCodes (include/wawo/constants.h) that the models return.\<close>

definition OK :: int where "OK = 0"
definition E_EBADF :: int where "E_EBADF = -9"
definition E_EMFILE :: int where "E_EMFILE = -24"
definition E_EOPNOTSUPP :: int where "E_EOPNOTSUPP = -95"
definition E_EADDRINUSE :: int where "E_EADDRINUSE = -98"
definition E_ECONNABORTED :: int where "E_ECONNABORTED = -103"
definition E_ECONNRESET :: int where "E_ECONNRESET = -104"
definition E_ENOTCONN :: int where "E_ENOTCONN = -107"
definition E_ETIMEOUT :: int where "E_ETIMEOUT = -110"
definition E_EALREADY :: int where "E_EALREADY = -114"
definition E_INVALID_OPERATION :: int where "E_INVALID_OPERATION = -20002"
definition E_INVALID_STATE :: int where "E_INVALID_STATE = -20003"
definition E_SOCKET_SEND_BLOCK :: int where "E_SOCKET_SEND_BLOCK = -30001"
definition E_SOCKET_RECV_BLOCK :: int where "E_SOCKET_RECV_BLOCK = -30004"
definition E_SOCKET_FORCE_CLOSE :: int where "E_SOCKET_FORCE_CLOSE = -30005"
definition E_SOCKET_EMPTY_PACKET :: int where "E_SOCKET_EMPTY_PACKET = -30007"
definition E_TLP_HANDSHAKE_DONE :: int where "E_TLP_HANDSHAKE_DONE = -30015"
definition E_TLP_HANDSHAKING :: int where "E_TLP_HANDSHAKING = -30016"
definition E_TLP_INVALID_PACKET :: int where "E_TLP_INVALID_PACKET = -30017"
definition E_TLP_UNKNOWN_CIPHER :: int where "E_TLP_UNKNOWN_CIPHER = -30018"
definition E_TLP_HANDSHAKE_MESSAGE_CHECK_FAILED :: int
  where "E_TLP_HANDSHAKE_MESSAGE_CHECK_FAILED = -30019"
definition E_TLP_INVALID_STATE :: int where "E_TLP_INVALID_STATE = -30020"
definition E_TLP_SOCKET_BROKEN :: int where "E_TLP_SOCKET_BROKEN = -30021"
definition E_TLP_TRY_AGAIN :: int where "E_TLP_TRY_AGAIN = -30022"
definition E_XXTEA_INVALID_DATA :: int where "E_XXTEA_INVALID_DATA = -20012"
definition E_WCP_INTERNAL_ERROR :: int where "E_WCP_INTERNAL_ERROR = -31000"
definition E_WCP_WPOLL_HANDLE_NOT_EXISTS :: int where "E_WCP_WPOLL_HANDLE_NOT_EXISTS = -31001"
definition E_WCP_WPOLL_INVALID_OP :: int where "E_WCP_WPOLL_INVALID_OP = -31002"

text \<open>Two codes of the platform's errno.h (Linux), positive as the kernel reports them.\<close>

definition EWOULDBLOCK :: int where "EWOULDBLOCK = 11"
definition EINPROGRESS :: int where "EINPROGRESS = 115"

lemmas error_codes =
  OK_def E_EBADF_def E_EMFILE_def E_EOPNOTSUPP_def E_EADDRINUSE_def E_ECONNABORTED_def
  E_ECONNRESET_def E_ENOTCONN_def E_ETIMEOUT_def E_EALREADY_def E_INVALID_OPERATION_def
  E_INVALID_STATE_def E_SOCKET_SEND_BLOCK_def E_SOCKET_RECV_BLOCK_def
  E_SOCKET_FORCE_CLOSE_def E_SOCKET_EMPTY_PACKET_def
  E_TLP_HANDSHAKE_DONE_def E_TLP_HANDSHAKING_def E_TLP_INVALID_PACKET_def
  E_TLP_UNKNOWN_CIPHER_def E_TLP_HANDSHAKE_MESSAGE_CHECK_FAILED_def E_TLP_INVALID_STATE_def
  E_TLP_SOCKET_BROKEN_def E_TLP_TRY_AGAIN_def E_XXTEA_INVALID_DATA_def
  E_WCP_INTERNAL_ERROR_def E_WCP_WPOLL_HANDLE_NOT_EXISTS_def E_WCP_WPOLL_INVALID_OP_def
  EWOULDBLOCK_def EINPROGRESS_def

section \<open>The macros of macros.h\<close>

definition WAWO_MIN :: "'a::linorder \<Rightarrow> 'a \<Rightarrow> 'a" where
  "WAWO_MIN a b = (if a > b then b else a)"

definition WAWO_MAX :: "'a::linorder \<Rightarrow> 'a \<Rightarrow> 'a" where
  "WAWO_MAX a b = (if a > b then a else b)"

definition WAWO_ABS2 :: "'a::{linorder,minus} \<Rightarrow> 'a \<Rightarrow> 'a" where
  "WAWO_ABS2 a b = (if a > b then a - b else b - a)"

definition WAWO_NEGATIVE :: "int \<Rightarrow> int" where
  "WAWO_NEGATIVE a = (if a < 0 then a else - a)"

lemma WAWO_MIN_min [simp]: "WAWO_MIN a b = min a b"
  by (auto simp: WAWO_MIN_def min_def not_less intro: antisym)

lemma WAWO_MAX_max [simp]: "WAWO_MAX a b = max a b"
  by (auto simp: WAWO_MAX_def max_def)

section \<open>Lists\<close>

lemma take_drop_append_window:
  "i + n \<le> length xs \<Longrightarrow> take n (drop i xs) @ drop (i + n) xs = drop i xs"
  by (metis append_take_drop_id drop_drop add.commute)

lemma take_take_drop: "take i xs @ take n (drop i xs) = take (i + n) xs"
  by (simp add: take_add)

section \<open>Words\<close>

lemma unat_less_2p [simp]: "unat (x :: u32) < 4294967296"
  using unsigned_less [of x] by simp

lemma unat_add_nowrap:
  fixes a b :: u32
  shows "unat a + unat b < 2 ^ 32 \<Longrightarrow> unat (a + b) = unat a + unat b"
  by (simp add: unat_word_ariths)

lemma unat_sub_nowrap:
  fixes a b :: "'a::len word"
  shows "unat b \<le> unat a \<Longrightarrow> unat (a - b) = unat a - unat b"
  by (simp add: unat_sub word_le_nat_alt)

lemma unat_of_nat_nowrap: "n < 2 ^ LENGTH('a) \<Longrightarrow> unat (of_nat n :: 'a::len word) = n"
  by (simp add: unsigned_of_nat take_bit_nat_eq_self)

lemma unat_ucast_up:
  fixes x :: "'a::len word"
  assumes "LENGTH('a) \<le> LENGTH('b)"
  shows "unat (ucast x :: 'b::len word) = unat x"
proof -
  have "unat x < 2 ^ LENGTH('a)" by (rule unsigned_less)
  also have "(2 :: nat) ^ LENGTH('a) \<le> 2 ^ LENGTH('b)" using assms by (intro power_increasing) auto
  finally show ?thesis by (simp add: unsigned_ucast_eq take_bit_nat_eq_self)
qed

lemma word_le_unat: "a \<le> b \<longleftrightarrow> unat a \<le> unat (b :: 'a::len word)"
  by (simp add: word_le_nat_alt)

lemma word_less_unat: "a < b \<longleftrightarrow> unat a < unat (b :: 'a::len word)"
  by (simp add: word_less_nat_alt)

lemma word_eq_unat: "a = b \<longleftrightarrow> unat a = unat (b :: 'a::len word)"
  by (simp add: word_unat_eq_iff)

lemmas word_to_nat = word_le_unat word_less_unat word_eq_unat

end
