(* ===== verification/Shared_Mutex.thy ===== *)
theory Shared_Mutex
  imports Wawo_Prelude
begin

text \<open>
  include/wawo/thread/impl/shared_mutex.hpp: a lock that many readers or one writer hold, and that one reader may ask to
  upgrade. The operations run under a mutex, so each stretch between two waits is one step. The threads, and which of them wait on
  which condition, are part of the state.
\<close>

section \<open>The state\<close>

datatype UpgradeState = S_UP_SET | S_UP_UPING | S_UP_NOSET

record state_data =
  sd_shared_count :: u32
  sd_upgrade :: UpgradeState
  sd_exclusive :: bool

definition state_data_new :: state_data where
  "state_data_new = \<lparr> sd_shared_count = 0, sd_upgrade = S_UP_NOSET, sd_exclusive = False \<rparr>"

definition can_lock :: "state_data \<Rightarrow> bool" where
  "can_lock m \<longleftrightarrow> \<not> (sd_shared_count m \<noteq> 0 \<or> sd_exclusive m)"

definition sd_lock :: "state_data \<Rightarrow> state_data" where
  "sd_lock m = m\<lparr> sd_exclusive := True \<rparr>"

definition sd_unlock :: "state_data \<Rightarrow> state_data" where
  "sd_unlock m = m\<lparr> sd_exclusive := False \<rparr>"

definition can_lock_shared :: "state_data \<Rightarrow> bool" where
  "can_lock_shared m \<longleftrightarrow> \<not> (sd_exclusive m \<or> sd_upgrade m \<noteq> S_UP_NOSET)"

definition has_more_shared :: "state_data \<Rightarrow> bool" where
  "has_more_shared m \<longleftrightarrow> sd_shared_count m > 0"

definition sd_lock_shared :: "state_data \<Rightarrow> state_data" where
  "sd_lock_shared m = m\<lparr> sd_shared_count := sd_shared_count m + 1 \<rparr>"

definition sd_unlock_shared :: "state_data \<Rightarrow> state_data option" where
  "sd_unlock_shared m =
     do { wawo_assert (\<not> sd_exclusive m);
          wawo_assert (sd_shared_count m > 0);
          Some (m\<lparr> sd_shared_count := sd_shared_count m - 1 \<rparr>) }"

definition can_lock_upgrade :: "state_data \<Rightarrow> bool" where
  "can_lock_upgrade m \<longleftrightarrow> \<not> (sd_exclusive m \<or> sd_upgrade m \<noteq> S_UP_NOSET)"

definition is_upgrade_set :: "state_data \<Rightarrow> bool" where
  "is_upgrade_set m \<longleftrightarrow> sd_upgrade m = S_UP_SET"

definition sd_lock_upgrade :: "state_data \<Rightarrow> state_data option" where
  "sd_lock_upgrade m =
     do { wawo_assert (\<not> is_upgrade_set m);
          Some (m\<lparr> sd_shared_count := sd_shared_count m + 1, sd_upgrade := S_UP_SET \<rparr>) }"

definition sd_unlock_upgrade :: "state_data \<Rightarrow> state_data option" where
  "sd_unlock_upgrade m =
     do { wawo_assert (sd_upgrade m = S_UP_SET);
          let m = m\<lparr> sd_upgrade := S_UP_NOSET \<rparr>;
          wawo_assert (sd_shared_count m > 0);
          Some (m\<lparr> sd_shared_count := sd_shared_count m - 1 \<rparr>) }"

definition unlock_upgrade_and_up :: "state_data \<Rightarrow> state_data option" where
  "unlock_upgrade_and_up m =
     do { wawo_assert (sd_upgrade m = S_UP_SET);
          let m = m\<lparr> sd_upgrade := S_UP_UPING \<rparr>;
          wawo_assert (sd_shared_count m > 0);
          Some (m\<lparr> sd_shared_count := sd_shared_count m - 1 \<rparr>) }"

definition lock_upgrade_up_done :: "state_data \<Rightarrow> state_data option" where
  "lock_upgrade_up_done m = do { wawo_assert (sd_upgrade m = S_UP_UPING); Some (m\<lparr> sd_upgrade := S_UP_NOSET \<rparr>) }"

section \<open>The operations\<close>

datatype cond = C_shared | C_exclusive | C_upgrade
datatype wake = Notify_one cond | Notify_all cond

definition notify_waiters :: "wake list" where
  "notify_waiters = [Notify_one C_exclusive, Notify_all C_shared]"

text \<open>
  A loop that waits is given by one turn: None in the result stands for another wait. The operations that give something up
  before they wait are a part before the loop and the turn.
\<close>

definition lock_shared_turn :: "state_data \<Rightarrow> state_data option option" where
  "lock_shared_turn m = Some (if \<not> can_lock_shared m then None else Some (sd_lock_shared m))"

definition sm_unlock_shared :: "state_data \<Rightarrow> (state_data \<times> wake list) option" where
  "sm_unlock_shared m =
     do { wawo_assert (has_more_shared m);
          m \<leftarrow> sd_unlock_shared m;
          Some (m, if \<not> has_more_shared m then if is_upgrade_set m then [Notify_one C_upgrade] else notify_waiters else []) }"

definition unlock_shared_and_lock_begin :: "state_data \<Rightarrow> state_data option" where
  "unlock_shared_and_lock_begin m =
     do { wawo_assert (has_more_shared m);
          wawo_assert (sd_exclusive m = False);
          sd_unlock_shared m }"

definition lock_turn :: "state_data \<Rightarrow> state_data option option" where
  "lock_turn m =
     (if has_more_shared m \<or> sd_exclusive m then Some None
      else do {
        wawo_assert (\<not> has_more_shared m);
        wawo_assert (sd_exclusive m = False);
        Some (Some (m\<lparr> sd_exclusive := True \<rparr>)) })"

definition sm_unlock :: "state_data \<Rightarrow> (state_data \<times> wake list) option" where
  "sm_unlock m =
     do { wawo_assert (\<not> has_more_shared m);
          wawo_assert (sd_exclusive m = True);
          Some (m\<lparr> sd_exclusive := False \<rparr>, notify_waiters) }"

definition unlock_and_lock_shared :: "state_data \<Rightarrow> state_data option" where
  "unlock_and_lock_shared m =
     do { wawo_assert (\<not> has_more_shared m);
          wawo_assert (sd_exclusive m = True);
          let m = m\<lparr> sd_exclusive := False \<rparr>;
          wawo_assert (can_lock_shared m);
          Some (sd_lock_shared m) }"

definition try_lock :: "state_data \<Rightarrow> bool \<times> state_data" where
  "try_lock m = (if has_more_shared m \<or> sd_exclusive m then (False, m) else (True, m\<lparr> sd_exclusive := True \<rparr>))"

definition try_lock_shared :: "state_data \<Rightarrow> bool \<times> state_data" where
  "try_lock_shared m = (if \<not> can_lock_shared m then (False, m) else (True, sd_lock_shared m))"

definition lock_upgrade_turn :: "state_data \<Rightarrow> state_data option option" where
  "lock_upgrade_turn m = (if \<not> can_lock_upgrade m then Some None else do { m \<leftarrow> sd_lock_upgrade m; Some (Some m) })"

definition sm_unlock_upgrade :: "state_data \<Rightarrow> (state_data \<times> wake list) option" where
  "sm_unlock_upgrade m =
     do { m \<leftarrow> sd_unlock_upgrade m;
          Some (m, if has_more_shared m then [Notify_all C_shared] else notify_waiters) }"

definition upgrade_turn :: "state_data \<Rightarrow> state_data option option" where
  "upgrade_turn m =
     (if has_more_shared m \<or> sd_exclusive m then Some None
      else do {
        wawo_assert (\<not> has_more_shared m);
        wawo_assert (sd_exclusive m = False);
        m \<leftarrow> lock_upgrade_up_done (m\<lparr> sd_exclusive := True \<rparr>);
        Some (Some m) })"

section \<open>Threads\<close>

datatype hold = H_shared | H_upgrade | H_exclusive
datatype want = W_shared | W_exclusive | W_upgrade | W_up
datatype thread = Idle | Has hold | Waits want | Woken want

fun cond_of :: "want \<Rightarrow> cond" where
  "cond_of W_shared = C_shared" | "cond_of W_exclusive = C_exclusive" | "cond_of W_upgrade = C_shared" | "cond_of W_up = C_upgrade"

fun turn_of :: "want \<Rightarrow> state_data \<Rightarrow> state_data option option" where
  "turn_of W_shared = lock_shared_turn" | "turn_of W_exclusive = lock_turn" | "turn_of W_upgrade = lock_upgrade_turn" | "turn_of W_up = upgrade_turn"

fun hold_of :: "want \<Rightarrow> hold" where
  "hold_of W_shared = H_shared" | "hold_of W_exclusive = H_exclusive" | "hold_of W_upgrade = H_upgrade" | "hold_of W_up = H_exclusive"

type_synonym lock_state = "state_data \<times> thread list"

definition waits_on :: "cond \<Rightarrow> thread \<Rightarrow> bool" where
  "waits_on c t \<longleftrightarrow> (case t of Waits w \<Rightarrow> cond_of w = c | _ \<Rightarrow> False)"

definition wake_up :: "thread \<Rightarrow> thread" where
  "wake_up t = (case t of Waits w \<Rightarrow> Woken w | _ \<Rightarrow> t)"

text \<open>notify_one() wakes any one of the waiting threads.\<close>

fun notified :: "wake \<Rightarrow> thread list \<Rightarrow> thread list \<Rightarrow> bool" where
  "notified (Notify_all c) ts ts' \<longleftrightarrow> ts' = map (\<lambda>t. if waits_on c t then wake_up t else t) ts"
| "notified (Notify_one c) ts ts' \<longleftrightarrow>
     (if list_ex (waits_on c) ts then list_ex (\<lambda>i. waits_on c (ts ! i) \<and> ts' = ts[i := wake_up (ts ! i)]) [0..<length ts] else ts' = ts)"

fun notified_all :: "wake list \<Rightarrow> thread list \<Rightarrow> thread list \<Rightarrow> bool" where
  "notified_all [] ts ts' \<longleftrightarrow> ts' = ts"
| "notified_all (n # ns) ts ts' \<longleftrightarrow> (\<exists>us. notified n ts us \<and> notified_all ns us ts')"

text \<open>What a thread may call: everything that fits what it holds. A thread holds at most one lock at a time.\<close>

inductive lock_step :: "lock_state \<Rightarrow> lock_state \<Rightarrow> bool" where
  wants: "i < length ts \<Longrightarrow> ts ! i = Idle \<Longrightarrow> w \<noteq> W_up \<Longrightarrow> lock_step (m, ts) (m, ts[i := Woken w])"
| waits: "i < length ts \<Longrightarrow> ts ! i = Woken w \<Longrightarrow> turn_of w m = Some None \<Longrightarrow> lock_step (m, ts) (m, ts[i := Waits w])"
| gets: "i < length ts \<Longrightarrow> ts ! i = Woken w \<Longrightarrow> turn_of w m = Some (Some m') \<Longrightarrow> lock_step (m, ts) (m', ts[i := Has (hold_of w)])"
| tries: "i < length ts \<Longrightarrow> ts ! i = Idle \<Longrightarrow> try_lock m = (b, m') \<Longrightarrow> lock_step (m, ts) (m', ts[i := if b then Has H_exclusive else Idle])"
| tries_shared: "i < length ts \<Longrightarrow> ts ! i = Idle \<Longrightarrow> try_lock_shared m = (b, m') \<Longrightarrow> lock_step (m, ts) (m', ts[i := if b then Has H_shared else Idle])"
| unlocks_shared: "i < length ts \<Longrightarrow> ts ! i = Has H_shared \<Longrightarrow> sm_unlock_shared m = Some (m', ns) \<Longrightarrow> notified_all ns (ts[i := Idle]) ts' \<Longrightarrow>
    lock_step (m, ts) (m', ts')"
| unlocks: "i < length ts \<Longrightarrow> ts ! i = Has H_exclusive \<Longrightarrow> sm_unlock m = Some (m', ns) \<Longrightarrow> notified_all ns (ts[i := Idle]) ts' \<Longrightarrow>
    lock_step (m, ts) (m', ts')"
| unlocks_upgrade: "i < length ts \<Longrightarrow> ts ! i = Has H_upgrade \<Longrightarrow> sm_unlock_upgrade m = Some (m', ns) \<Longrightarrow> notified_all ns (ts[i := Idle]) ts' \<Longrightarrow>
    lock_step (m, ts) (m', ts')"
| shared_to_exclusive: "i < length ts \<Longrightarrow> ts ! i = Has H_shared \<Longrightarrow> unlock_shared_and_lock_begin m = Some m' \<Longrightarrow>
    lock_step (m, ts) (m', ts[i := Woken W_exclusive])"
| exclusive_to_shared: "i < length ts \<Longrightarrow> ts ! i = Has H_exclusive \<Longrightarrow> unlock_and_lock_shared m = Some m' \<Longrightarrow>
    lock_step (m, ts) (m', ts[i := Has H_shared])"
| upgrades: "i < length ts \<Longrightarrow> ts ! i = Has H_upgrade \<Longrightarrow> unlock_upgrade_and_up m = Some m' \<Longrightarrow>
    lock_step (m, ts) (m', ts[i := Woken W_up])"

text \<open>Besides the steps of the lock, a condition may wake a waiting thread for no reason.\<close>

inductive lock_reach :: "nat \<Rightarrow> lock_state \<Rightarrow> bool" for n where
  start: "lock_reach n (state_data_new, replicate n Idle)"
| step: "lock_reach n s \<Longrightarrow> lock_step s s' \<Longrightarrow> lock_reach n s'"
| spurious: "lock_reach n (m, ts) \<Longrightarrow> i < length ts \<Longrightarrow> lock_reach n (m, ts[i := wake_up (ts ! i)])"

inductive_cases lock_stepE: "lock_step (m, ts) s'"

section \<open>The invariant\<close>

definition count_th :: "(thread \<Rightarrow> bool) \<Rightarrow> thread list \<Rightarrow> nat" where
  "count_th P ts = length (filter P ts)"

definition is_shared :: "thread \<Rightarrow> bool" where "is_shared t \<longleftrightarrow> t = Has H_shared \<or> t = Has H_upgrade"
definition is_exclusive :: "thread \<Rightarrow> bool" where "is_exclusive t \<longleftrightarrow> t = Has H_exclusive"
definition is_upgrade :: "thread \<Rightarrow> bool" where "is_upgrade t \<longleftrightarrow> t = Has H_upgrade"
definition is_uping :: "thread \<Rightarrow> bool" where "is_uping t \<longleftrightarrow> t = Waits W_up \<or> t = Woken W_up"

lemmas thread_kinds = is_shared_def is_exclusive_def is_upgrade_def is_uping_def

text \<open>The counters of the lock count the threads.\<close>

definition lock_inv :: "nat \<Rightarrow> lock_state \<Rightarrow> bool" where
  "lock_inv n s \<longleftrightarrow> (case s of (m, ts) \<Rightarrow> length ts = n \<and> n < 4294967296 \<and>
     unat (sd_shared_count m) = count_th is_shared ts \<and> count_th is_exclusive ts = of_bool (sd_exclusive m) \<and>
     count_th is_upgrade ts = of_bool (sd_upgrade m = S_UP_SET) \<and> count_th is_uping ts = of_bool (sd_upgrade m = S_UP_UPING) \<and>
     (sd_exclusive m \<longrightarrow> sd_shared_count m = 0))"

lemma count_update:
  "i < length ts \<Longrightarrow> count_th P (ts[i := t]) + of_bool (P (ts ! i)) = count_th P ts + of_bool (P t)"
proof (induction ts arbitrary: i)
  case (Cons u ts)
  then show ?case
  proof (cases i)
    case (Suc j)
    then show ?thesis using Cons.IH [of j] Cons.prems by (simp add: count_th_def)
  qed (simp add: count_th_def)
qed simp

lemma count_pos: "i < length ts \<Longrightarrow> P (ts ! i) \<Longrightarrow> 0 < count_th P ts"
  by (auto simp: count_th_def filter_empty_conv intro: nth_mem)

lemma count_le: "count_th P ts \<le> length ts"
  by (simp add: count_th_def)

lemma count_mono: "(\<And>t. P t \<Longrightarrow> Q t) \<Longrightarrow> count_th P ts \<le> count_th Q ts"
  by (induction ts) (auto simp: count_th_def)

lemma count_all_but_one:
  assumes "i < length ts" "\<not> P (ts ! i)" shows "count_th P ts < length ts"
  using count_update [OF assms(1), of P "ts ! i"] assms length_filter_less [of "ts ! i" ts P] by (auto simp: count_th_def)

lemma wake_up_kinds [simp]:
  "is_shared (wake_up t) = is_shared t" "is_exclusive (wake_up t) = is_exclusive t" "is_upgrade (wake_up t) = is_upgrade t" "is_uping (wake_up t) = is_uping t"
  by (cases t; simp add: thread_kinds wake_up_def)+

text \<open>Waking threads leaves every count alone.\<close>

lemma count_wake_one: "(\<And>t. P (wake_up t) = P t) \<Longrightarrow> count_th P (ts[i := wake_up (ts ! i)]) = count_th P ts"
  by (cases "i < length ts") (use count_update [of i ts P "wake_up (ts ! i)"] in \<open>auto simp: list_update_beyond\<close>)

lemma count_wake_map: "(\<And>t. P (wake_up t) = P t) \<Longrightarrow> count_th P (map (\<lambda>t. if waits_on c t then wake_up t else t) ts) = count_th P ts"
  by (induction ts) (auto simp: count_th_def)

lemma count_notified: "notified w ts ts' \<Longrightarrow> (\<And>t. P (wake_up t) = P t) \<Longrightarrow> count_th P ts' = count_th P ts \<and> length ts' = length ts"
  by (cases w) (auto simp: count_wake_map count_wake_one list_ex_iff split: if_splits)

lemma count_notified_all: "notified_all ws ts ts' \<Longrightarrow> (\<And>t. P (wake_up t) = P t) \<Longrightarrow> count_th P ts' = count_th P ts \<and> length ts' = length ts"
  by (induction ws arbitrary: ts) (auto dest!: count_notified [where P = P])

lemma lock_inv_notified:
  assumes "lock_inv n (m, ts)" "notified_all ws ts ts'" shows "lock_inv n (m, ts')"
  using assms(1) count_notified_all [OF assms(2), of is_shared] count_notified_all [OF assms(2), of is_exclusive]
    count_notified_all [OF assms(2), of is_upgrade] count_notified_all [OF assms(2), of is_uping]
  by (simp add: lock_inv_def)

lemma lock_inv_wake: "lock_inv n (m, ts) \<Longrightarrow> lock_inv n (m, ts[i := wake_up (ts ! i)])"
  by (simp add: lock_inv_def count_wake_one)

text \<open>One thread changes.\<close>

lemma lock_inv_change:
  assumes "lock_inv n (m, ts)" "i < length ts"
    and "unat (sd_shared_count m') + of_bool (is_shared (ts ! i)) = unat (sd_shared_count m) + of_bool (is_shared t)"
    and "of_bool (sd_exclusive m') + of_bool (is_exclusive (ts ! i)) = (of_bool (sd_exclusive m) + of_bool (is_exclusive t) :: nat)"
    and "of_bool (sd_upgrade m' = S_UP_SET) + of_bool (is_upgrade (ts ! i)) = (of_bool (sd_upgrade m = S_UP_SET) + of_bool (is_upgrade t) :: nat)"
    and "of_bool (sd_upgrade m' = S_UP_UPING) + of_bool (is_uping (ts ! i)) = (of_bool (sd_upgrade m = S_UP_UPING) + of_bool (is_uping t) :: nat)"
    and "sd_exclusive m' \<longrightarrow> sd_shared_count m' = 0"
  shows "lock_inv n (m', ts[i := t])"
proof -
  note c = count_update [OF assms(2), of _ t]
  have i: "length ts = n" "n < 4294967296" "unat (sd_shared_count m) = count_th is_shared ts" "count_th is_exclusive ts = of_bool (sd_exclusive m)"
    "count_th is_upgrade ts = of_bool (sd_upgrade m = S_UP_SET)" "count_th is_uping ts = of_bool (sd_upgrade m = S_UP_UPING)"
    using assms(1) by (simp_all add: lock_inv_def)
  have "unat (sd_shared_count m') = count_th is_shared (ts[i := t])" using assms(3) i(3) c [of is_shared] by linarith
  moreover have "count_th is_exclusive (ts[i := t]) = of_bool (sd_exclusive m')" using assms(4) i(4) c [of is_exclusive] by linarith
  moreover have "count_th is_upgrade (ts[i := t]) = of_bool (sd_upgrade m' = S_UP_SET)" using assms(5) i(5) c [of is_upgrade] by linarith
  moreover have "count_th is_uping (ts[i := t]) = of_bool (sd_upgrade m' = S_UP_UPING)" using assms(6) i(6) c [of is_uping] by linarith
  ultimately show ?thesis using i(1,2) assms(7) by (simp add: lock_inv_def)
qed

lemma lock_inv_room:
  assumes "lock_inv n (m, ts)" "i < length ts" "\<not> is_shared (ts ! i)" shows "unat (sd_shared_count m + 1) = unat (sd_shared_count m) + 1"
proof -
  have "unat (sd_shared_count m) + unat (1 :: u32) < 2 ^ 32" using assms(1) count_all_but_one [of i ts is_shared] assms(2,3) by (auto simp: lock_inv_def)
  then show ?thesis using unat_add_nowrap by fastforce
qed

lemma lock_inv_shared:
  assumes "lock_inv n (m, ts)" "i < length ts" "is_shared (ts ! i)"
  shows "sd_shared_count m > 0" "\<not> sd_exclusive m" "unat (sd_shared_count m - 1) + 1 = unat (sd_shared_count m)"
proof -
  show p: "sd_shared_count m > 0" using assms count_pos [of i ts is_shared] by (auto simp: lock_inv_def word_gt_0_no unat_eq_0 word_less_unat)
  then show "\<not> sd_exclusive m" using assms(1) by (auto simp: lock_inv_def)
  show "unat (sd_shared_count m - 1) + 1 = unat (sd_shared_count m)" using p by (simp add: unat_sub_nowrap word_less_unat)
qed

lemma lock_inv_exclusive:
  assumes "lock_inv n (m, ts)" "i < length ts" "ts ! i = Has H_exclusive" shows "sd_exclusive m" "sd_shared_count m = 0"
  using assms count_pos [of i ts is_exclusive] by (auto simp: lock_inv_def is_exclusive_def)

lemma lock_inv_upgrade:
  assumes "lock_inv n (m, ts)" "i < length ts" "ts ! i = Has H_upgrade" shows "sd_upgrade m = S_UP_SET"
  using assms count_pos [of i ts is_upgrade] by (auto simp: lock_inv_def is_upgrade_def)

lemma lock_inv_uping:
  assumes "lock_inv n (m, ts)" "i < length ts" "ts ! i = Woken W_up" shows "sd_upgrade m = S_UP_UPING"
  using assms count_pos [of i ts is_uping] by (auto simp: lock_inv_def is_uping_def)

section \<open>Every step keeps it\<close>

lemmas lock_turns = lock_shared_turn_def lock_turn_def lock_upgrade_turn_def upgrade_turn_def can_lock_shared_def can_lock_upgrade_def has_more_shared_def
  sd_lock_shared_def sd_lock_upgrade_def lock_upgrade_up_done_def is_upgrade_set_def wawo_assert_def

lemma lock_inv_same:
  assumes "lock_inv n (m, ts)" "i < length ts" "is_shared t = is_shared (ts ! i)" "is_exclusive t = is_exclusive (ts ! i)"
    "is_upgrade t = is_upgrade (ts ! i)" "is_uping t = is_uping (ts ! i)"
  shows "lock_inv n (m, ts[i := t])"
  by (rule lock_inv_change [OF assms(1,2)]) (use assms in \<open>auto simp: lock_inv_def\<close>)

lemma lock_inv_get_shared:
  assumes "lock_inv n (m, ts)" "i < length ts" "can_lock_shared m" "\<not> is_shared (ts ! i)" "\<not> is_exclusive (ts ! i)" "\<not> is_uping (ts ! i)"
  shows "lock_inv n (sd_lock_shared m, ts[i := Has H_shared])"
  by (rule lock_inv_change [OF assms(1,2)])
    (use assms(3-6) lock_inv_room [OF assms(1,2,4)] in \<open>auto simp: can_lock_shared_def sd_lock_shared_def thread_kinds\<close>)

lemma lock_inv_get_exclusive:
  assumes "lock_inv n (m, ts)" "i < length ts" "\<not> has_more_shared m" "\<not> sd_exclusive m" "\<not> is_shared (ts ! i)" "\<not> is_exclusive (ts ! i)"
    and u: "sd_upgrade m' = (if is_uping (ts ! i) then S_UP_NOSET else sd_upgrade m)" "sd_shared_count m' = sd_shared_count m" "sd_exclusive m'"
  shows "lock_inv n (m', ts[i := Has H_exclusive])"
proof -
  have "is_uping (ts ! i) \<Longrightarrow> sd_upgrade m = S_UP_UPING" using assms(1,2) count_pos [of i ts is_uping] by (auto simp: lock_inv_def split: if_splits)
  then show ?thesis
    by (intro lock_inv_change [OF assms(1,2)]) (use assms(3-6) u in \<open>auto simp: has_more_shared_def thread_kinds word_gt_0\<close>)
qed

lemma lock_inv_gets:
  assumes "lock_inv n (m, ts)" "i < length ts" "ts ! i = Woken w" "turn_of w m = Some (Some m')"
  shows "lock_inv n (m', ts[i := Has (hold_of w)])"
proof (cases w)
  case W_shared
  then have "can_lock_shared m" "m' = sd_lock_shared m" using assms(4) by (auto simp: lock_shared_turn_def split: if_splits)
  then show ?thesis using W_shared assms(1-3) by (auto intro!: lock_inv_get_shared simp: thread_kinds)
next
  case W_exclusive
  then have "\<not> has_more_shared m" "\<not> sd_exclusive m" "m' = m\<lparr> sd_exclusive := True \<rparr>" using assms(4) by (auto simp: lock_turn_def split: if_splits)
  then show ?thesis using W_exclusive assms(1-3) by (auto intro!: lock_inv_get_exclusive simp: thread_kinds)
next
  case W_upgrade
  then have "\<not> sd_exclusive m" "sd_upgrade m = S_UP_NOSET" "m' = m\<lparr> sd_shared_count := sd_shared_count m + 1, sd_upgrade := S_UP_SET \<rparr>"
    using assms(4) by (auto simp: lock_turns split: if_splits)
  moreover have "unat (sd_shared_count m + 1) = unat (sd_shared_count m) + 1"
    using W_upgrade assms(3) by (intro lock_inv_room [OF assms(1,2)]) (simp add: is_shared_def)
  ultimately show ?thesis using W_upgrade assms(3) by (auto intro!: lock_inv_change [OF assms(1,2)] simp: thread_kinds)
next
  case W_up
  then have "\<not> has_more_shared m" "\<not> sd_exclusive m" "m' = m\<lparr> sd_exclusive := True, sd_upgrade := S_UP_NOSET \<rparr>"
    using assms(4) by (auto simp: upgrade_turn_def lock_upgrade_up_done_def wawo_assert_def split: if_splits)
  then show ?thesis using W_up assms(1-3) by (auto intro!: lock_inv_get_exclusive simp: thread_kinds)
qed

text \<open>Giving a shared or upgradable lock up.\<close>

lemma lock_inv_give_shared:
  assumes "lock_inv n (m, ts)" "i < length ts" "ts ! i = Has H_shared" "t \<in> {Idle, Woken W_exclusive}"
  shows "lock_inv n (m\<lparr> sd_shared_count := sd_shared_count m - 1 \<rparr>, ts[i := t])"
proof -
  have "is_shared (ts ! i)" using assms(3) by (simp add: is_shared_def)
  note s = lock_inv_shared [OF assms(1,2) this]
  show ?thesis by (rule lock_inv_change [OF assms(1,2)]) (use assms(3,4) s in \<open>auto simp: thread_kinds\<close>)
qed

lemma lock_inv_give_upgrade:
  assumes "lock_inv n (m, ts)" "i < length ts" "ts ! i = Has H_upgrade" "(t, u) \<in> {(Idle, S_UP_NOSET), (Woken W_up, S_UP_UPING)}"
  shows "lock_inv n (m\<lparr> sd_upgrade := u, sd_shared_count := sd_shared_count m - 1 \<rparr>, ts[i := t])"
proof -
  have "is_shared (ts ! i)" using assms(3) by (simp add: is_shared_def)
  note s = lock_inv_shared [OF assms(1,2) this] lock_inv_upgrade [OF assms(1-3)]
  show ?thesis by (rule lock_inv_change [OF assms(1,2)]) (use assms(3,4) s in \<open>auto simp: thread_kinds\<close>)
qed

lemma lock_inv_step: "lock_step s s' \<Longrightarrow> lock_inv n s \<Longrightarrow> lock_inv n s'"
proof (induction rule: lock_step.induct)
  case (wants i ts w m)
  then show ?case by (intro lock_inv_same) (auto simp: thread_kinds)
next
  case (waits i ts w m)
  then show ?case by (intro lock_inv_same) (auto simp: thread_kinds)
next
  case (gets i ts w m m')
  then show ?case by (intro lock_inv_gets)
next
  case (tries i ts m b m')
  then show ?case
    by (auto simp: try_lock_def thread_kinds split: if_splits intro!: lock_inv_get_exclusive lock_inv_same [of _ _ _ i Idle])
next
  case (tries_shared i ts m b m')
  then show ?case
    by (auto simp: try_lock_shared_def thread_kinds split: if_splits intro!: lock_inv_get_shared lock_inv_same [of _ _ _ i Idle])
next
  case (unlocks_shared i ts m m' ns ts')
  then have "m' = m\<lparr> sd_shared_count := sd_shared_count m - 1 \<rparr>" by (auto simp: sm_unlock_shared_def sd_unlock_shared_def wawo_assert_def split: if_splits)
  then show ?case using unlocks_shared lock_inv_give_shared [of n m ts i Idle] by (auto intro: lock_inv_notified)
next
  case (unlocks i ts m m' ns ts')
  then have m: "m' = m\<lparr> sd_exclusive := False \<rparr>" by (auto simp: sm_unlock_def wawo_assert_def split: if_splits)
  note e = lock_inv_exclusive [OF unlocks.prems unlocks.hyps(1,2)]
  have "lock_inv n (m', ts[i := Idle])"
    by (rule lock_inv_change [OF unlocks.prems unlocks.hyps(1)]) (use m e unlocks.hyps(2) in \<open>auto simp: thread_kinds\<close>)
  then show ?case by (rule lock_inv_notified [OF _ unlocks.hyps(4)])
next
  case (unlocks_upgrade i ts m m' ns ts')
  then have "m' = m\<lparr> sd_upgrade := S_UP_NOSET, sd_shared_count := sd_shared_count m - 1 \<rparr>"
    by (auto simp: sm_unlock_upgrade_def sd_unlock_upgrade_def wawo_assert_def split: if_splits)
  then show ?case using unlocks_upgrade lock_inv_give_upgrade [of n m ts i Idle S_UP_NOSET] by (auto intro: lock_inv_notified)
next
  case (shared_to_exclusive i ts m m')
  then have "m' = m\<lparr> sd_shared_count := sd_shared_count m - 1 \<rparr>"
    by (auto simp: unlock_shared_and_lock_begin_def sd_unlock_shared_def wawo_assert_def split: if_splits)
  then show ?case using shared_to_exclusive lock_inv_give_shared [of n m ts i "Woken W_exclusive"] by auto
next
  case (exclusive_to_shared i ts m m')
  note e = lock_inv_exclusive [OF exclusive_to_shared.prems exclusive_to_shared.hyps(1,2)]
  have "m' = m\<lparr> sd_exclusive := False, sd_shared_count := 1 \<rparr>"
    using exclusive_to_shared.hyps(3) e by (auto simp: unlock_and_lock_shared_def sd_lock_shared_def wawo_assert_def Let_def split: if_splits)
  then show ?case
    by (intro lock_inv_change [OF exclusive_to_shared.prems exclusive_to_shared.hyps(1)]) (use e exclusive_to_shared.hyps(2) in \<open>auto simp: thread_kinds\<close>)
next
  case (upgrades i ts m m')
  then have "m' = m\<lparr> sd_upgrade := S_UP_UPING, sd_shared_count := sd_shared_count m - 1 \<rparr>"
    by (auto simp: unlock_upgrade_and_up_def wawo_assert_def split: if_splits)
  then show ?case using upgrades lock_inv_give_upgrade [of n m ts i "Woken W_up" S_UP_UPING] by auto
qed

lemma lock_inv_reach: "lock_reach n s \<Longrightarrow> n < 4294967296 \<Longrightarrow> lock_inv n s"
proof (induction rule: lock_reach.induct)
  case start
  then show ?case by (simp add: lock_inv_def state_data_new_def count_th_def thread_kinds)
next
  case (spurious m ts i)
  then show ?case by (simp add: lock_inv_wake)
qed (blast intro: lock_inv_step)

section \<open>What the lock promises\<close>

text \<open>No step notifies the condition that an upgrading thread waits on: a set upgrade flag counts as a shared lock.\<close>

lemma never_notifies_upgrade:
  assumes "lock_inv n (m, ts)" "i < length ts" "ts ! i = Has H_shared" "sm_unlock_shared m = Some (m', ns)"
  shows "Notify_one C_upgrade \<notin> set ns"
proof
  assume "Notify_one C_upgrade \<in> set ns"
  moreover have sh: "is_shared (ts ! i)" using assms(3) by (simp add: is_shared_def)
  moreover have e: "m' = m\<lparr> sd_shared_count := sd_shared_count m - 1 \<rparr>"
    "ns = (if \<not> has_more_shared m' then if is_upgrade_set m' then [Notify_one C_upgrade] else notify_waiters else [])"
    using assms(4) lock_inv_shared(1,2) [OF assms(1,2) sh] by (auto simp: sm_unlock_shared_def sd_unlock_shared_def has_more_shared_def)
  ultimately have "\<not> has_more_shared m'" "is_upgrade_set m'" by (auto simp: notify_waiters_def split: if_splits)
  then have u: "sd_upgrade m = S_UP_SET" "sd_shared_count m - 1 = 0" using e(1) by (simp_all add: has_more_shared_def is_upgrade_set_def word_gt_0)
  have "unat (sd_shared_count m) = 1" using lock_inv_shared(3) [OF assms(1,2) sh] unfolding u(2) by simp
  then have one: "count_th is_shared ts = 1" using assms(1) by (simp add: lock_inv_def)
  have "count_th is_upgrade (ts[i := Idle]) = 1" using u(1) assms(1,3) count_update [OF assms(2), of is_upgrade Idle] by (simp add: lock_inv_def is_upgrade_def)
  moreover have "count_th is_shared (ts[i := Idle]) = 0" using one count_update [OF assms(2), of is_shared Idle] assms(3) by (simp add: is_shared_def)
  ultimately show False using count_mono [of is_upgrade is_shared "ts[i := Idle]"] by (simp add: is_upgrade_def is_shared_def)
qed

lemma notified_keeps_upgrade:
  assumes "notified w ts ts'" "w \<noteq> Notify_one C_upgrade" "w \<noteq> Notify_all C_upgrade" "i < length ts" "ts ! i = Waits W_up"
  shows "ts' ! i = Waits W_up \<and> length ts' = length ts"
proof -
  have "\<not> waits_on c (Waits W_up)" if "c \<noteq> C_upgrade" for c using that by (simp add: waits_on_def)
  then show ?thesis using assms by (cases w) (auto simp: list_ex_iff nth_list_update split: if_splits)
qed

lemma notified_all_keeps_upgrade:
  "notified_all ws ts ts' \<Longrightarrow> Notify_one C_upgrade \<notin> set ws \<Longrightarrow> Notify_all C_upgrade \<notin> set ws \<Longrightarrow> i < length ts \<Longrightarrow> ts ! i = Waits W_up \<Longrightarrow>
    ts' ! i = Waits W_up \<and> length ts' = length ts"
proof (induction ws arbitrary: ts)
  case (Cons w ws)
  then obtain us where u: "notified w ts us" "notified_all ws us ts'" by auto
  then have "us ! i = Waits W_up \<and> length us = length ts" using Cons.prems notified_keeps_upgrade [OF u(1), of i] by auto
  then show ?case using Cons.IH [OF u(2)] Cons.prems by auto
qed simp

lemma upgrade_waiter_stays:
  assumes "lock_step s s'" "lock_inv n s" "i < length (snd s)" "snd s ! i = Waits W_up"
  shows "snd s' ! i = Waits W_up \<and> length (snd s') = length (snd s)"
  using assms
proof (induction rule: lock_step.induct)
  case (unlocks_shared j ts m m' ns ts')
  moreover have "Notify_all C_upgrade \<notin> set ns"
    using unlocks_shared.hyps(3) by (auto simp: sm_unlock_shared_def notify_waiters_def wawo_assert_def split: if_splits Option.bind_splits)
  moreover have "Notify_one C_upgrade \<notin> set ns" using never_notifies_upgrade [OF unlocks_shared.prems(1) unlocks_shared.hyps(1-3)] .
  moreover have "j \<noteq> i" using unlocks_shared by auto
  ultimately show ?case using notified_all_keeps_upgrade [of ns "ts[j := Idle]" ts' i] by simp
next
  case (unlocks j ts m m' ns ts')
  then have "ns = notify_waiters" "j \<noteq> i" by (auto simp: sm_unlock_def wawo_assert_def split: if_splits)
  then show ?case using unlocks notified_all_keeps_upgrade [of ns "ts[j := Idle]" ts' i] by (auto simp: notify_waiters_def)
next
  case (unlocks_upgrade j ts m m' ns ts')
  then have "ns = [Notify_all C_shared] \<or> ns = notify_waiters" "j \<noteq> i" by (auto simp: sm_unlock_upgrade_def split: if_splits Option.bind_splits)
  then show ?case using unlocks_upgrade notified_all_keeps_upgrade [of ns "ts[j := Idle]" ts' i] by (auto simp: notify_waiters_def)
qed (auto simp: nth_list_update)

text \<open>
  C15: whatever the threads, fewer than 2^32, call, in any interleaving and with spurious wake-ups of the conditions: a thread that holds the lock exclusively is the only one
  that holds it, at most one thread holds it for upgrading. The operations by which a holder gives up what it holds do not throw, except one: \<open>unlock_and_lock_shared\<close>,
  called by an exclusive holder, throws exactly when another thread waits to upgrade.
\<close>

theorem shared_mutex_excludes:
  assumes "lock_reach n (m, ts)" "n < 4294967296" "i < length ts" "j < length ts"
  shows "(ts ! i = Has H_exclusive \<and> i \<noteq> j \<longrightarrow> ts ! j \<notin> {Has H_exclusive, Has H_shared, Has H_upgrade}) \<and>
    (ts ! i = Has H_upgrade \<and> ts ! j = Has H_upgrade \<longrightarrow> i = j) \<and>
    (ts ! i = Has H_shared \<longrightarrow> sm_unlock_shared m \<noteq> None \<and> unlock_shared_and_lock_begin m \<noteq> None) \<and>
    (ts ! i = Has H_exclusive \<longrightarrow> sm_unlock m \<noteq> None \<and> (unlock_and_lock_shared m = None \<longleftrightarrow> list_ex is_uping ts)) \<and>
    (ts ! i = Has H_upgrade \<longrightarrow> sm_unlock_upgrade m \<noteq> None \<and> unlock_upgrade_and_up m \<noteq> None) \<and>
    (\<forall>w. ts ! i = Woken w \<longrightarrow> turn_of w m \<noteq> None)"
proof (intro conjI allI impI; (elim conjE)?)
  have inv: "lock_inv n (m, ts)" by (rule lock_inv_reach [OF assms(1,2)])
  have two: "i = j" if "P (ts ! i)" "P (ts ! j)" "count_th P ts \<le> 1" "\<not> P Idle" for P
  proof (rule ccontr)
    assume "i \<noteq> j"
    then have "P (ts[i := Idle] ! j)" using that(2) by simp
    then have "0 < count_th P (ts[i := Idle])" using count_pos [of j "ts[i := Idle]" P] assms(4) by simp
    moreover have "count_th P (ts[i := Idle]) + 1 = count_th P ts" using count_update [OF assms(3), of P Idle] that(1,4) by simp
    ultimately show False using that(3) by simp
  qed
  have one: "count_th is_exclusive ts \<le> 1" "count_th is_upgrade ts \<le> 1" using inv by (simp_all add: lock_inv_def)
  show "ts ! j \<notin> {Has H_exclusive, Has H_shared, Has H_upgrade}" if "ts ! i = Has H_exclusive" "i \<noteq> j"
  proof -
    note e = lock_inv_exclusive [OF inv assms(3) that(1)]
    have "\<not> is_shared (ts ! j)" using lock_inv_shared(2) [OF inv assms(4)] e by blast
    moreover have "\<not> is_exclusive (ts ! j)" using two [of is_exclusive, OF _ _ one(1)] that by (auto simp: is_exclusive_def)
    ultimately show ?thesis by (auto simp: thread_kinds)
  qed
  show "i = j" if "ts ! i = Has H_upgrade" "ts ! j = Has H_upgrade" using two [of is_upgrade, OF _ _ one(2)] that by (auto simp: is_upgrade_def)
  show "sm_unlock_shared m \<noteq> None" "unlock_shared_and_lock_begin m \<noteq> None" if "ts ! i = Has H_shared"
    using lock_inv_shared [OF inv assms(3)] that
    by (auto simp: sm_unlock_shared_def unlock_shared_and_lock_begin_def sd_unlock_shared_def has_more_shared_def is_shared_def)
  show "sm_unlock m \<noteq> None" if "ts ! i = Has H_exclusive"
    using lock_inv_exclusive [OF inv assms(3) that] by (simp add: sm_unlock_def has_more_shared_def)
  show "sm_unlock_upgrade m \<noteq> None" "unlock_upgrade_and_up m \<noteq> None" if "ts ! i = Has H_upgrade"
    using lock_inv_shared [OF inv assms(3)] lock_inv_upgrade [OF inv assms(3) that] that
    by (auto simp: sm_unlock_upgrade_def sd_unlock_upgrade_def unlock_upgrade_and_up_def is_shared_def Let_def)
  show "turn_of w m \<noteq> None" if "ts ! i = Woken w" for w
    using lock_inv_uping [OF inv assms(3)] that by (cases w) (auto simp: lock_turns)
  show "unlock_and_lock_shared m = None \<longleftrightarrow> list_ex is_uping ts" if "ts ! i = Has H_exclusive"
  proof -
    note e = lock_inv_exclusive [OF inv assms(3) that]
    have "count_th is_upgrade ts \<le> count_th is_shared ts" by (rule count_mono) (simp add: thread_kinds)
    then have "sd_upgrade m \<noteq> S_UP_SET" using e inv by (auto simp: lock_inv_def)
    moreover have "list_ex is_uping ts \<longleftrightarrow> 0 < count_th is_uping ts" by (auto simp: count_th_def list_ex_iff filter_empty_conv)
    ultimately show ?thesis using e inv
      by (cases "sd_upgrade m") (auto simp: lock_inv_def unlock_and_lock_shared_def has_more_shared_def can_lock_shared_def Let_def)
  qed
qed

theorem shared_mutex_excludes_witness:
  "\<exists>m. lock_reach 2 (m, [Has H_exclusive, Idle]) \<and> sm_unlock m \<noteq> None \<and> unlock_and_lock_shared m \<noteq> None"
proof -
  let ?m = "state_data_new\<lparr> sd_exclusive := True \<rparr>"
  have "lock_step (state_data_new, [Idle, Idle]) (?m, [Idle, Idle][0 := if True then Has H_exclusive else Idle])"
    by (rule lock_step.tries) (simp_all add: try_lock_def has_more_shared_def state_data_new_def)
  then have r: "lock_reach 2 (?m, [Has H_exclusive, Idle])" using lock_reach.step [OF lock_reach.start [of 2]] by (simp add: numeral_2_eq_2)
  from shared_mutex_excludes [OF r, of 0 1] r show ?thesis by (intro exI [of _ ?m]) (simp add: is_uping_def)
qed

text \<open>
  C32: a thread that upgrades while others hold the lock shared is lost: the condition it waits on is never notified, so it waits for ever (unless the condition wakes
  it for no reason), and from then on no thread gets the lock shared or for upgrading.
\<close>

theorem shared_mutex_loses_upgrade:
  assumes "lock_reach n (m, ts)" "n < 4294967296" "i < length ts" "ts ! i = Waits W_up" "lock_step\<^sup>*\<^sup>* (m, ts) (m', ts')"
  shows "ts' ! i = Waits W_up \<and> \<not> can_lock_shared m' \<and> \<not> can_lock_upgrade m'"
proof -
  have "lock_inv n (m', ts') \<and> snd (m', ts') ! i = Waits W_up \<and> i < length (snd (m', ts'))"
    using assms(5)
  proof (induction rule: rtranclp_induct)
    case base
    then show ?case using assms(3,4) lock_inv_reach [OF assms(1,2)] by simp
  next
    case (step s s')
    then show ?case using lock_inv_step upgrade_waiter_stays by fastforce
  qed
  moreover from this have "0 < count_th is_uping ts'" by (intro count_pos [of i]) (auto simp: is_uping_def)
  ultimately show ?thesis by (auto simp: lock_inv_def can_lock_shared_def can_lock_upgrade_def split: if_splits)
qed

text \<open>One thread holds the lock shared; another gets it for upgrading, upgrades and has to wait.\<close>

lemma sample_upgrade:
  "lock_reach 2 (\<lparr> sd_shared_count = 1, sd_upgrade = S_UP_UPING, sd_exclusive = False \<rparr>, [Waits W_up, Has H_shared])"
proof -
  let ?s = "\<lambda>c u. \<lparr> sd_shared_count = c, sd_upgrade = u, sd_exclusive = False \<rparr>"
  have r0: "lock_reach 2 (?s 0 S_UP_NOSET, [Idle, Idle])" using lock_reach.start [of 2] by (simp add: state_data_new_def numeral_2_eq_2)
  have "lock_step (?s 0 S_UP_NOSET, [Idle, Idle]) (?s 1 S_UP_NOSET, [Idle, Has H_shared])"
    using lock_step.tries_shared [of 1 "[Idle, Idle]" "?s 0 S_UP_NOSET" True "?s 1 S_UP_NOSET"] by (simp add: try_lock_shared_def can_lock_shared_def sd_lock_shared_def)
  note r1 = lock_reach.step [OF r0 this]
  have "lock_step (?s 1 S_UP_NOSET, [Idle, Has H_shared]) (?s 1 S_UP_NOSET, [Woken W_upgrade, Has H_shared])"
    using lock_step.wants [of 0 "[Idle, Has H_shared]" W_upgrade "?s 1 S_UP_NOSET"] by simp
  note r2 = lock_reach.step [OF r1 this]
  have "lock_step (?s 1 S_UP_NOSET, [Woken W_upgrade, Has H_shared]) (?s 2 S_UP_SET, [Has H_upgrade, Has H_shared])"
    using lock_step.gets [of 0 "[Woken W_upgrade, Has H_shared]" W_upgrade "?s 1 S_UP_NOSET" "?s 2 S_UP_SET"] by (simp add: lock_turns)
  note r3 = lock_reach.step [OF r2 this]
  have "lock_step (?s 2 S_UP_SET, [Has H_upgrade, Has H_shared]) (?s 1 S_UP_UPING, [Woken W_up, Has H_shared])"
    using lock_step.upgrades [of 0 "[Has H_upgrade, Has H_shared]" "?s 2 S_UP_SET" "?s 1 S_UP_UPING"] by (simp add: unlock_upgrade_and_up_def)
  note r4 = lock_reach.step [OF r3 this]
  have "lock_step (?s 1 S_UP_UPING, [Woken W_up, Has H_shared]) (?s 1 S_UP_UPING, [Waits W_up, Has H_shared])"
    using lock_step.waits [of 0 "[Woken W_up, Has H_shared]" W_up "?s 1 S_UP_UPING"] by (simp add: lock_turns)
  from lock_reach.step [OF r4 this] show ?thesis .
qed

theorem shared_mutex_loses_upgrade_witness:
  "\<exists>m m' ts'. lock_reach 2 (m, [Waits W_up, Has H_shared]) \<and> lock_step (m, [Waits W_up, Has H_shared]) (m', ts') \<and> sd_shared_count m' = 0 \<and>
    ts' ! 0 = Waits W_up \<and> \<not> can_lock_shared m'"
proof -
  let ?m = "\<lparr> sd_shared_count = 1, sd_upgrade = S_UP_UPING, sd_exclusive = False \<rparr>" and ?ts = "[Waits W_up, Has H_shared]"
  let ?m' = "?m\<lparr> sd_shared_count := 0 \<rparr>"
  have "lock_step (?m, ?ts) (?m', [Waits W_up, Idle])"
    by (rule lock_step.unlocks_shared [of 1 ?ts ?m ?m' notify_waiters])
      (simp_all add: sm_unlock_shared_def sd_unlock_shared_def has_more_shared_def is_upgrade_set_def notify_waiters_def waits_on_def)
  with shared_mutex_loses_upgrade [OF sample_upgrade, of 0 ?m' "[Waits W_up, Idle]"] sample_upgrade show ?thesis by fastforce
qed

end
