(* ===== verification/Bytes_Helper.thy ===== *)
theory Bytes_Helper
  imports Wawo_Prelude
begin

text \<open>
  include/wawo/bytes_helper.hpp: the big-endian codec of integers. The template parameter
  T is the word length: \<open>sizeof(T)\<close> is the number of bytes of the result type. Signed types
  share the bit patterns of the unsigned ones. The lemmas show that the two directions are
  inverse to each other for every integer type of the library, and that neither reads nor writes
  outside the \<open>sizeof(T)\<close> bytes it is given.
\<close>

section \<open>The codec\<close>

definition sizeof :: "'a::len itself \<Rightarrow> nat" where
  "sizeof t = LENGTH('a) div 8"

lemma sizeof_simps [simp]:
  "sizeof TYPE(8) = 1" "sizeof TYPE(16) = 2" "sizeof TYPE(32) = 4" "sizeof TYPE(64) = 8"
  by (simp_all add: sizeof_def)

text \<open>One round of the read loop: \<open>ret <<= 8; ret |= static_cast<u8_t>(*(start + idx++))\<close>.\<close>

definition read_step :: "'a::len word \<Rightarrow> byte \<Rightarrow> 'a word" where
  "read_step ret b = push_bit 8 ret OR ucast b"

definition read_impl :: "bytes \<Rightarrow> ('a::len) word option" where
  "read_impl start =
     do { bs \<leftarrow> mem_read start 0 (sizeof TYPE('a));
          Some (foldl read_step 0 bs) }"

text \<open>The write loop runs \<open>i\<close> from \<open>sizeof(T)-1\<close> down to 0.\<close>

definition write_impl :: "('a::len) word \<Rightarrow> bytes" where
  "write_impl val = map (\<lambda>i. ucast (drop_bit (i * 8) val AND 0xff)) (rev [0..<sizeof TYPE('a)])"

definition read_u16 :: "bytes \<Rightarrow> u16 option" where "read_u16 start = read_impl start"
definition read_u32 :: "bytes \<Rightarrow> u32 option" where "read_u32 start = read_impl start"
definition read_u64 :: "bytes \<Rightarrow> u64 option" where "read_u64 start = read_impl start"
definition write_u16 :: "u16 \<Rightarrow> bytes" where "write_u16 val = write_impl val"
definition write_u32 :: "u32 \<Rightarrow> bytes" where "write_u32 val = write_impl val"
definition write_u64 :: "u64 \<Rightarrow> bytes" where "write_u64 val = write_impl val"

section \<open>Round trips\<close>

lemma length_write_impl [simp]: "length (write_impl (v :: 'a::len word)) = sizeof TYPE('a)"
  by (simp add: write_impl_def)

lemma byte_mask: "(0xff :: 'a::len word) = mask 8"
  by (simp add: mask_eq_exp_minus_1)

lemma bit_and_byte: "bit (x AND 0xff :: 'a::len word) n \<longleftrightarrow> n < 8 \<and> bit x n"
  unfolding byte_mask by (auto simp: bit_and_iff bit_mask_iff simp del: mask_numeral dest: bit_imp_le_length)

lemma bit_ucast_byte: "bit (ucast (x AND 0xff :: 'a::len word) :: byte) n \<longleftrightarrow> n < 8 \<and> bit x n"
  using bit_and_byte [of x n] by (auto simp: bit_ucast_iff)

text \<open>Feeding the next lower byte of a value to the read loop shifts in exactly that byte.\<close>

lemma read_step_byte:
  "read_step (drop_bit (8 * Suc n) v) (ucast (drop_bit (n * 8) v AND 0xff)) = drop_bit (8 * n) v"
proof (rule bit_word_eqI)
  fix m assume "m < LENGTH('a)"
  then show "bit (read_step (drop_bit (8 * Suc n) v) (ucast (drop_bit (n * 8) v AND 0xff))) m
      = bit (drop_bit (8 * n) v) m"
    by (cases "m < 8")
      (auto simp: read_step_def bit_or_iff bit_push_bit_iff bit_ucast_iff bit_and_byte
        bit_drop_bit_eq ac_simps dest: bit_imp_le_length)
qed

lemma foldl_read_bytes:
  "foldl read_step (drop_bit (8 * n) v) (map (\<lambda>i. ucast (drop_bit (i * 8) v AND 0xff)) (rev [0..<n]))
   = v"
proof (induction n)
  case 0
  show ?case by simp
next
  case (Suc n)
  have "rev [0..<Suc n] = n # rev [0..<n]" by simp
  then show ?case by (simp only: list.map foldl.simps read_step_byte Suc.IH)
qed

lemma foldl_write_impl:
  "8 dvd LENGTH('a::len) \<Longrightarrow> foldl read_step 0 (write_impl (v :: 'a word)) = v"
proof -
  assume "8 dvd LENGTH('a)"
  then have "8 * sizeof TYPE('a) = LENGTH('a)" by (simp add: sizeof_def)
  then have "drop_bit (8 * sizeof TYPE('a)) v = 0"
    by (auto intro!: bit_word_eqI simp: bit_drop_bit_eq dest: bit_imp_le_length)
  then show ?thesis
    using foldl_read_bytes [of "sizeof TYPE('a)" v] by (simp add: write_impl_def)
qed

lemma read_write_impl:
  "8 dvd LENGTH('a::len) \<Longrightarrow> read_impl (write_impl (v :: 'a word) @ rest) = Some v"
  by (simp add: read_impl_def foldl_write_impl)

lemma read_write_impl_widths [simp]:
  "read_impl (write_impl (b :: byte) @ rest) = Some b"
  "read_impl (write_impl (h :: u16) @ rest) = Some h"
  "read_impl (write_impl (w :: u32) @ rest) = Some w"
  "read_impl (write_impl (q :: u64) @ rest) = Some q"
  by (rule read_write_impl, simp)+

lemma read_write_impl_widths_exact [simp]:
  "read_impl (write_impl (b :: byte)) = Some b"
  "read_impl (write_impl (h :: u16)) = Some h"
  "read_impl (write_impl (w :: u32)) = Some w"
  "read_impl (write_impl (q :: u64)) = Some q"
  using read_write_impl_widths [where rest = "[]"] by simp_all

lemma read_impl_None: "length bs < sizeof TYPE('a) \<Longrightarrow> (read_impl bs :: ('a::len) word option) = None"
  by (simp add: read_impl_def mem_read_def)

lemma read_impl_Some: "sizeof TYPE('a) \<le> length bs \<Longrightarrow>
    (read_impl bs :: ('a::len) word option) = Some (foldl read_step 0 (take (sizeof TYPE('a)) bs))"
  by (simp add: read_impl_def)

text \<open>Byte \<open>j\<close> of a value read from \<open>bs\<close> is \<open>bs\<close> at \<open>j\<close>: no byte is lost or reordered.\<close>

lemma bit_foldl_read_step:
  "length bs * 8 \<le> LENGTH('a::len) \<Longrightarrow> m < length bs * 8 \<Longrightarrow>
   bit (foldl read_step 0 bs :: 'a word) m \<longleftrightarrow> bit (bs ! (length bs - Suc (m div 8))) (m mod 8)"
proof (induction bs arbitrary: m rule: rev_induct)
  case Nil
  then show ?case by simp
next
  case (snoc b bs)
  let ?r = "foldl read_step 0 bs :: 'a word"
  have fold: "foldl read_step 0 (bs @ [b]) = read_step ?r b" by simp
  show ?case
  proof (cases "m < 8")
    case True
    then have "m < LENGTH('a)" using snoc.prems by simp
    with True show ?thesis
      by (simp add: fold read_step_def bit_or_iff bit_push_bit_iff bit_ucast_iff)
  next
    case False
    then have m: "m - 8 < length bs * 8" "length bs * 8 \<le> LENGTH('a)" using snoc.prems by auto
    have "m < LENGTH('a)" using snoc.prems by simp
    have d: "m div 8 = Suc ((m - 8) div 8)" "m mod 8 = (m - 8) mod 8"
      using False by (simp_all add: le_div_geq le_mod_geq)
    have lt: "(m - 8) div 8 < length bs" using m(1) by (simp add: less_mult_imp_div_less)
    have "bit (foldl read_step 0 (bs @ [b]) :: 'a word) m = bit ?r (m - 8)"
      using False \<open>m < LENGTH('a)\<close>
      by (auto simp: fold read_step_def bit_or_iff bit_push_bit_iff bit_ucast_iff
          dest: bit_imp_le_length)
    also have "\<dots> = bit (bs ! (length bs - Suc ((m - 8) div 8))) ((m - 8) mod 8)"
      using snoc.IH [OF m(2) m(1)] .
    also have "\<dots> = bit ((bs @ [b]) ! (length (bs @ [b]) - Suc (m div 8))) (m mod 8)"
      using d lt by (auto simp: nth_append)
    finally show ?thesis .
  qed
qed

lemma write_foldl_read:
  assumes "8 dvd LENGTH('a::len)" "length bs = sizeof TYPE('a)"
  shows "write_impl (foldl read_step 0 bs :: 'a word) = bs"
proof (rule nth_equalityI)
  let ?v = "foldl read_step 0 bs :: 'a word"
  show "length (write_impl ?v) = length bs" using assms by simp
  fix j assume "j < length (write_impl ?v)"
  then have j: "j < length bs" using assms by simp
  have len: "length bs * 8 = LENGTH('a)" using assms by (simp add: sizeof_def)
  let ?i = "length bs - Suc j"
  have nth: "write_impl ?v ! j = ucast (drop_bit (?i * 8) ?v AND 0xff)"
    using j assms by (simp add: write_impl_def rev_nth)
  show "write_impl ?v ! j = bs ! j"
  proof (rule bit_word_eqI)
    fix n assume "n < LENGTH(8)"
    then have n: "n < 8" by simp
    have lt: "?i * 8 + n < length bs * 8" using j n by linarith
    have dm: "(?i * 8 + n) div 8 = ?i" "(?i * 8 + n) mod 8 = n" using n by simp_all
    have "bit (write_impl ?v ! j) n = bit ?v (?i * 8 + n)"
      using n by (simp add: nth bit_ucast_byte bit_drop_bit_eq)
    also have "\<dots> = bit (bs ! (length bs - Suc ?i)) n"
      using bit_foldl_read_step [where 'a = 'a, of bs "?i * 8 + n"] lt len dm by simp
    also have "length bs - Suc ?i = j" using j by simp
    finally show "bit (write_impl ?v ! j) n = bit (bs ! j) n" .
  qed
qed

lemma write_read_impl:
  "8 dvd LENGTH('a::len) \<Longrightarrow> read_impl bs = Some (v :: 'a word) \<Longrightarrow>
   write_impl v = take (sizeof TYPE('a)) bs"
  by (auto simp: read_impl_def mem_read_def write_foldl_read split: if_splits)

lemma unat_sizeof: "LENGTH('a::len) < 4096 \<Longrightarrow> unat (of_nat (sizeof TYPE('a)) :: u32) = sizeof TYPE('a)"
  by (intro unat_of_nat_nowrap) (simp add: sizeof_def)

section \<open>Properties\<close>

text \<open>
  Writing an integer of 16, 32 or 64 bits and reading it back gives the integer, whatever follows it in the
  buffer; and reading an integer and writing it back gives the bytes it was read from, so that
  every byte sequence is the encoding of exactly one integer.
\<close>

theorem integer_codec_roundtrip:
  "read_u16 (write_u16 h @ rest) = Some h \<and> read_u32 (write_u32 w @ rest) = Some w \<and>
   read_u64 (write_u64 q @ rest) = Some q \<and>
   map_option write_u16 (read_u16 bs) = (if 2 \<le> length bs then Some (take 2 bs) else None) \<and>
   map_option write_u32 (read_u32 bs) = (if 4 \<le> length bs then Some (take 4 bs) else None) \<and>
   map_option write_u64 (read_u64 bs) = (if 8 \<le> length bs then Some (take 8 bs) else None)"
  by (simp add: read_u16_def read_u32_def read_u64_def write_u16_def write_u32_def write_u64_def
      read_impl_Some read_impl_None write_foldl_read)

end
