(* ===== verification/Bytes_Ringbuffer.thy ===== *)
theory Bytes_Ringbuffer
  imports Bytes_Helper
begin

text \<open>
  include/wawo/bytes_ringbuffer.hpp: the circular byte buffer that the wcp control blocks use as
  send and receive buffer. The record has the members of the class, all indices are u32 with
  wrap-around, and every memcpy is checked against the allocated block. The buffer is shown to be
  a bounded queue of bytes (locale \<open>byte_fifo\<close>, interpreted on the model), so that the bytes
  read are the bytes written, in order, whatever the sequence of calls.
\<close>

section \<open>State and operations\<close>

definition MAX_RING_BUFFER_SIZE :: u32 where "MAX_RING_BUFFER_SIZE = 1024 * 1024 * 32"
definition MIN_RING_BUFFER_SIZE :: u32 where "MIN_RING_BUFFER_SIZE = 1024 * 2"

record bytes_ringbuffer =
  rb_m_capacity :: u32
  rb_m_begin :: u32
  rb_m_end :: u32
  rb_m_buffer :: bytes

text \<open>
  The constructor calls reset() with \<open>m_buffer\<close> NULL: the size range is asserted and the block is
  allocated. Every later call of reset() finds the block and only rewinds the indices.
\<close>

definition bytes_ringbuffer_new :: "(nat \<Rightarrow> byte) \<Rightarrow> u32 \<Rightarrow> bytes_ringbuffer option" where
  "bytes_ringbuffer_new junk capacity =
     (let m_capacity = capacity + 1 in
      do { wawo_assert (m_capacity - 1 \<ge> MIN_RING_BUFFER_SIZE \<and> m_capacity - 1 \<le> MAX_RING_BUFFER_SIZE);
           Some \<lparr> rb_m_capacity = m_capacity, rb_m_begin = 0, rb_m_end = 0,
                  rb_m_buffer = fresh_mem junk (unat m_capacity) \<rparr> })"

definition rb_reset :: "bytes_ringbuffer \<Rightarrow> bytes_ringbuffer" where
  "rb_reset rb = rb\<lparr> rb_m_begin := 0, rb_m_end := 0 \<rparr>"

definition rb_is_empty :: "bytes_ringbuffer \<Rightarrow> bool" where
  "rb_is_empty rb \<longleftrightarrow> rb_m_begin rb = rb_m_end rb"

definition rb_is_full :: "bytes_ringbuffer \<Rightarrow> bool" where
  "rb_is_full rb \<longleftrightarrow> (rb_m_end rb + 1) mod rb_m_capacity rb = rb_m_begin rb"

definition rb_capacity :: "bytes_ringbuffer \<Rightarrow> u32" where
  "rb_capacity rb = rb_m_capacity rb - 1"

definition rb_count :: "bytes_ringbuffer \<Rightarrow> u32" where
  "rb_count rb = ((rb_m_end rb - rb_m_begin rb) + rb_m_capacity rb) mod rb_m_capacity rb"

definition rb_left_capacity :: "bytes_ringbuffer \<Rightarrow> u32" where
  "rb_left_capacity rb = rb_capacity rb - rb_count rb"

definition rb_skip :: "bytes_ringbuffer \<Rightarrow> u32 \<Rightarrow> bytes_ringbuffer option" where
  "rb_skip rb s =
     do { wawo_assert (s \<ge> 0 \<and> s \<le> rb_count rb);
          let rb' = rb\<lparr> rb_m_begin := (rb_m_begin rb + s) mod rb_m_capacity rb \<rparr>;
          Some (if rb_is_empty rb' then rb_reset rb' else rb') }"

text \<open>The bytes that read() copies into \<open>target\<close>, by its three memcpy branches.\<close>

definition rb_read_copy :: "bytes_ringbuffer \<Rightarrow> u32 \<Rightarrow> bytes option" where
  "rb_read_copy rb copy_c =
     (if rb_m_end rb > rb_m_begin rb
      then mem_read (rb_m_buffer rb) (unat (rb_m_begin rb)) (unat copy_c)
      else let tail_c = rb_m_capacity rb - rb_m_begin rb in
        if tail_c \<ge> copy_c
        then mem_read (rb_m_buffer rb) (unat (rb_m_begin rb)) (unat copy_c)
        else do { d1 \<leftarrow> mem_read (rb_m_buffer rb) (unat (rb_m_begin rb)) (unat tail_c);
                  d2 \<leftarrow> mem_read (rb_m_buffer rb) 0 (unat (copy_c - tail_c));
                  Some (d1 @ d2) })"

text \<open>read() gives the bytes stored in \<open>target\<close>; the returned count is their number.\<close>

definition rb_read :: "bytes_ringbuffer \<Rightarrow> u32 \<Rightarrow> bool \<Rightarrow> (u32 \<times> bytes \<times> bytes_ringbuffer) option" where
  "rb_read rb s move =
     (let avail_c = rb_count rb in
      if avail_c = 0 then Some (0, [], rb)
      else let copy_c = (if avail_c > s then s else avail_c) in
        do { target \<leftarrow> rb_read_copy rb copy_c;
             rb' \<leftarrow> (if move then rb_skip rb copy_c else Some rb);
             Some (copy_c, target, rb') })"

definition rb_peek :: "bytes_ringbuffer \<Rightarrow> u32 \<Rightarrow> (u32 \<times> bytes \<times> bytes_ringbuffer) option" where
  "rb_peek rb sz = rb_read rb sz False"

definition rb_try_read :: "bytes_ringbuffer \<Rightarrow> u32 \<Rightarrow> (bool \<times> bytes \<times> bytes_ringbuffer) option" where
  "rb_try_read rb sz =
     (if rb_count rb \<ge> sz
      then do { (read_count, target, rb') \<leftarrow> rb_read rb sz True;
                wawo_assert (read_count = sz);
                Some (True, target, rb') }
      else Some (False, [], rb))"

definition rb_read_T :: "bytes_ringbuffer \<Rightarrow> (('a::len) word \<times> bytes_ringbuffer) option" where
  "rb_read_T rb =
     do { wawo_assert (rb_count rb \<ge> of_nat (sizeof TYPE('a)));
          (rnbytes, tmp, rb') \<leftarrow> rb_read rb (of_nat (sizeof TYPE('a))) True;
          wawo_assert (rnbytes = of_nat (sizeof TYPE('a)));
          v \<leftarrow> read_impl tmp;
          Some (v, rb') }"

definition rb_try_read_T :: "bytes_ringbuffer \<Rightarrow> (('a::len) word option \<times> bytes_ringbuffer) option" where
  "rb_try_read_T rb =
     (if rb_count rb < of_nat (sizeof TYPE('a)) then Some (None, rb)
      else do { (t, rb') \<leftarrow> rb_read_T rb; Some (Some t, rb') })"

text \<open>The memcpy branches of write(), after the rewind of an empty buffer.\<close>

definition rb_store :: "bytes_ringbuffer \<Rightarrow> bytes \<Rightarrow> u32 \<Rightarrow> (u32 \<times> bytes_ringbuffer) option" where
  "rb_store rb src to_write_c =
     (if rb_m_end rb \<le> rb_m_begin rb then do {
        d \<leftarrow> mem_read src 0 (unat to_write_c);
        buf \<leftarrow> mem_write (rb_m_buffer rb) (unat (rb_m_end rb)) d;
        Some (to_write_c, rb\<lparr> rb_m_buffer := buf,
                              rb_m_end := (rb_m_end rb + to_write_c) mod rb_m_capacity rb \<rparr>) }
      else let tail_s = rb_m_capacity rb - rb_m_end rb in
        if tail_s \<ge> to_write_c then do {
          d \<leftarrow> mem_read src 0 (unat to_write_c);
          buf \<leftarrow> mem_write (rb_m_buffer rb) (unat (rb_m_end rb)) d;
          Some (to_write_c, rb\<lparr> rb_m_buffer := buf,
                                rb_m_end := (rb_m_end rb + to_write_c) mod rb_m_capacity rb \<rparr>) }
        else do {
          d1 \<leftarrow> mem_read src 0 (unat tail_s);
          buf1 \<leftarrow> mem_write (rb_m_buffer rb) (unat (rb_m_end rb)) d1;
          let m_end = to_write_c - tail_s;
          d2 \<leftarrow> mem_read src (unat tail_s) (unat m_end);
          buf2 \<leftarrow> mem_write buf1 0 d2;
          Some (to_write_c, rb\<lparr> rb_m_buffer := buf2, rb_m_end := m_end \<rparr>) })"

definition rb_write :: "bytes_ringbuffer \<Rightarrow> bytes \<Rightarrow> u32 \<Rightarrow> (u32 \<times> bytes_ringbuffer) option" where
  "rb_write rb src s =
     do { wawo_assert (s \<noteq> 0);
          let avail_s = rb_left_capacity rb;
          if avail_s = 0 then Some (0, rb)
          else rb_store
                 (if rb_m_end rb = rb_m_begin rb then rb\<lparr> rb_m_end := 0, rb_m_begin := 0 \<rparr> else rb)
                 src (if avail_s > s then s else avail_s) }"

section \<open>Invariant and abstraction\<close>

definition rb_inv :: "bytes_ringbuffer \<Rightarrow> bool" where
  "rb_inv rb \<longleftrightarrow>
     MIN_RING_BUFFER_SIZE < rb_m_capacity rb \<and> rb_m_capacity rb \<le> MAX_RING_BUFFER_SIZE + 1 \<and>
     rb_m_begin rb < rb_m_capacity rb \<and> rb_m_end rb < rb_m_capacity rb \<and>
     length (rb_m_buffer rb) = unat (rb_m_capacity rb)"

text \<open>The queued bytes, oldest first.\<close>

definition rb_list :: "bytes_ringbuffer \<Rightarrow> bytes" where
  "rb_list rb =
     (let b = unat (rb_m_begin rb); e = unat (rb_m_end rb) in
      if b \<le> e then take (e - b) (drop b (rb_m_buffer rb))
      else drop b (rb_m_buffer rb) @ take e (rb_m_buffer rb))"

lemma rb_inv_bounds [bounds]:
  assumes "rb_inv rb"
  shows "2048 < unat (rb_m_capacity rb)" "unat (rb_m_capacity rb) \<le> 33554433"
    "unat (rb_m_begin rb) < unat (rb_m_capacity rb)" "unat (rb_m_end rb) < unat (rb_m_capacity rb)"
    "length (rb_m_buffer rb) = unat (rb_m_capacity rb)"
  using assms
  by (simp_all add: rb_inv_def word_to_nat MAX_RING_BUFFER_SIZE_def MIN_RING_BUFFER_SIZE_def)

lemma rb_invI:
  assumes "2048 < unat (rb_m_capacity rb)" "unat (rb_m_capacity rb) \<le> 33554433"
    "unat (rb_m_begin rb) < unat (rb_m_capacity rb)" "unat (rb_m_end rb) < unat (rb_m_capacity rb)"
    "length (rb_m_buffer rb) = unat (rb_m_capacity rb)"
  shows "rb_inv rb"
  using assms
  by (simp add: rb_inv_def word_to_nat MAX_RING_BUFFER_SIZE_def MIN_RING_BUFFER_SIZE_def)

lemma bytes_ringbuffer_new_ok:
  assumes "MIN_RING_BUFFER_SIZE \<le> c" "c \<le> MAX_RING_BUFFER_SIZE"
  obtains rb where "bytes_ringbuffer_new junk c = Some rb" "rb_inv rb" "rb_list rb = []"
    "rb_capacity rb = c"
proof -
  let ?rb = "\<lparr> rb_m_capacity = c + 1, rb_m_begin = 0, rb_m_end = 0,
    rb_m_buffer = fresh_mem junk (unat (c + 1)) \<rparr>"
  have c: "2048 \<le> unat c" "unat c \<le> 33554432"
    using assms by (simp_all add: word_to_nat MAX_RING_BUFFER_SIZE_def MIN_RING_BUFFER_SIZE_def)
  then have "unat (c + 1) = unat c + 1" by (simp add: unat_add_nowrap)
  with c have "rb_inv ?rb" by (intro rb_invI) simp_all
  moreover have "bytes_ringbuffer_new junk c = Some ?rb"
    using assms by (simp add: bytes_ringbuffer_new_def Let_def)
  ultimately show ?thesis using that by (simp add: rb_list_def rb_capacity_def)
qed

lemma bytes_ringbuffer_new_fails:
  "c < MIN_RING_BUFFER_SIZE \<or> MAX_RING_BUFFER_SIZE < c \<Longrightarrow> bytes_ringbuffer_new junk c = None"
  by (auto simp: bytes_ringbuffer_new_def Let_def)

section \<open>Sizes\<close>

lemma rb_count_list:
  assumes inv: "rb_inv rb"
  shows "unat (rb_count rb) = length (rb_list rb)"
proof -
  note b = rb_inv_bounds [OF inv]
  let ?c = "rb_m_capacity rb" and ?b = "rb_m_begin rb" and ?e = "rb_m_end rb"
  show ?thesis
  proof (cases "?b \<le> ?e")
    case True
    then have sub: "unat (?e - ?b) = unat ?e - unat ?b"
      by (simp add: unat_sub_nowrap word_to_nat)
    then have "unat (?e - ?b + ?c) = unat ?e - unat ?b + unat ?c"
      using b by (simp add: unat_add_nowrap)
    then have "unat (rb_count rb) = unat ?e - unat ?b"
      using b by (simp add: rb_count_def unat_mod)
    then show ?thesis using True b by (simp add: rb_list_def Let_def word_to_nat)
  next
    case False
    then have lt: "unat ?e < unat ?b" by (simp add: word_to_nat)
    then have "unat (?b - ?e) = unat ?b - unat ?e" by (simp add: unat_sub_nowrap)
    then have "unat (?c - (?b - ?e)) = unat ?c - (unat ?b - unat ?e)"
      using b by (simp add: unat_sub_nowrap)
    moreover have "rb_count rb = (?c - (?b - ?e)) mod ?c" by (simp add: rb_count_def algebra_simps)
    ultimately have "unat (rb_count rb) = unat ?c - (unat ?b - unat ?e)"
      using b lt by (simp add: unat_mod)
    then show ?thesis using lt b by (simp add: rb_list_def Let_def)
  qed
qed

lemma rb_list_less_capacity: "rb_inv rb \<Longrightarrow> length (rb_list rb) < unat (rb_m_capacity rb)"
  using rb_inv_bounds [of rb] by (auto simp: rb_list_def Let_def)

lemma unat_rb_capacity:
  assumes "rb_inv rb" shows "unat (rb_capacity rb) = unat (rb_m_capacity rb) - 1"
  using rb_inv_bounds [OF assms] by (simp add: rb_capacity_def unat_sub_nowrap)

lemma rb_left_capacity_list:
  assumes "rb_inv rb"
  shows "unat (rb_left_capacity rb) = unat (rb_capacity rb) - length (rb_list rb)"
  using rb_list_less_capacity [OF assms]
  by (simp add: rb_left_capacity_def unat_sub_nowrap rb_count_list assms unat_rb_capacity)

lemma rb_is_empty_list:
  assumes "rb_inv rb" shows "rb_is_empty rb \<longleftrightarrow> rb_list rb = []"
  using rb_inv_bounds [OF assms]
  by (auto simp: rb_is_empty_def rb_list_def Let_def word_to_nat)

lemma rb_is_full_list:
  assumes inv: "rb_inv rb" shows "rb_is_full rb \<longleftrightarrow> length (rb_list rb) = unat (rb_capacity rb)"
proof -
  note b = rb_inv_bounds [OF inv]
  have "unat (rb_m_end rb + 1) = unat (rb_m_end rb) + 1" using b by (simp add: unat_add_nowrap)
  then have "rb_is_full rb \<longleftrightarrow>
      (unat (rb_m_end rb) + 1) mod unat (rb_m_capacity rb) = unat (rb_m_begin rb)"
    by (simp add: rb_is_full_def word_eq_unat unat_mod)
  then show ?thesis
    using b by (cases "unat (rb_m_end rb) + 1 = unat (rb_m_capacity rb)")
      (auto simp: rb_list_def Let_def unat_rb_capacity [OF inv])
qed

section \<open>Reading\<close>

lemma rb_read_copy_ok:
  assumes inv: "rb_inv rb" and n: "unat n \<le> length (rb_list rb)"
  shows "rb_read_copy rb n = Some (take (unat n) (rb_list rb))"
proof -
  note b = rb_inv_bounds [OF inv]
  have tail: "unat (rb_m_capacity rb - rb_m_begin rb) = unat (rb_m_capacity rb) - unat (rb_m_begin rb)"
    using b by (simp add: unat_sub_nowrap)
  have head: "unat (n - (rb_m_capacity rb - rb_m_begin rb)) =
      unat n - (unat (rb_m_capacity rb) - unat (rb_m_begin rb))"
    if "\<not> n \<le> rb_m_capacity rb - rb_m_begin rb"
    using that by (simp add: unat_sub_nowrap tail word_to_nat)
  show ?thesis
  proof (cases "rb_m_begin rb < rb_m_end rb")
    case True
    then show ?thesis
      using b n by (auto simp: rb_read_copy_def rb_list_def Let_def word_to_nat)
  next
    case False
    then show ?thesis
      using b n head
      by (auto simp: rb_read_copy_def rb_list_def Let_def word_to_nat tail split: if_splits)
  qed
qed

lemma rb_reset_ok:
  assumes "rb_inv rb" shows "rb_inv (rb_reset rb) \<and> rb_list (rb_reset rb) = []"
  using rb_inv_bounds [OF assms] by (auto intro!: rb_invI simp: rb_reset_def rb_list_def)

lemma rb_advance_begin:
  assumes inv: "rb_inv rb" and n: "unat n \<le> length (rb_list rb)"
  defines "rb' \<equiv> rb\<lparr> rb_m_begin := (rb_m_begin rb + n) mod rb_m_capacity rb \<rparr>"
  shows "rb_inv rb'" "rb_list rb' = drop (unat n) (rb_list rb)"
proof -
  note b = rb_inv_bounds [OF inv]
  let ?c = "unat (rb_m_capacity rb)" and ?b = "unat (rb_m_begin rb)" and ?e = "unat (rb_m_end rb)"
  have "unat (rb_m_begin rb + n) = ?b + unat n"
    using b n rb_list_less_capacity [OF inv] by (intro unat_add_nowrap) simp
  then have b': "unat (rb_m_begin rb') = (?b + unat n) mod ?c"
    by (simp add: rb'_def unat_mod)
  then show "rb_inv rb'" using b by (intro rb_invI) (simp_all add: rb'_def)
  have m: "(?b + unat n) mod ?c = (if ?b + unat n < ?c then ?b + unat n else ?b + unat n - ?c)"
    using b n rb_list_less_capacity [OF inv] by (simp add: mod_if)
  show "rb_list rb' = drop (unat n) (rb_list rb)"
    using b n unfolding rb_list_def b' m
    by (auto simp: rb'_def Let_def drop_take add.commute split: if_splits)
qed

lemma rb_skip_ok:
  assumes inv: "rb_inv rb" and n: "unat n \<le> length (rb_list rb)"
  obtains rb' where "rb_skip rb n = Some rb'" "rb_inv rb'" "rb_list rb' = drop (unat n) (rb_list rb)"
    "rb_m_capacity rb' = rb_m_capacity rb"
proof -
  let ?rb = "rb\<lparr> rb_m_begin := (rb_m_begin rb + n) mod rb_m_capacity rb \<rparr>"
  have le: "n \<le> rb_count rb" using n by (simp add: word_le_unat rb_count_list inv)
  note adv = rb_advance_begin [OF inv n]
  show ?thesis
    by (rule that [of "if rb_is_empty ?rb then rb_reset ?rb else ?rb"])
      (use le adv rb_reset_ok [OF adv(1)] in \<open>auto simp: rb_skip_def Let_def rb_is_empty_list rb_reset_def\<close>)
qed

lemma rb_skip_fails:
  "rb_inv rb \<Longrightarrow> length (rb_list rb) < unat n \<Longrightarrow> rb_skip rb n = None"
  by (simp add: rb_skip_def word_le_unat rb_count_list)

lemma rb_read_count:
  assumes "rb_inv rb"
  shows "unat (if rb_count rb > n then n else rb_count rb) = min (unat n) (length (rb_list rb))"
  using rb_count_list [OF assms] by (auto simp: word_to_nat)

lemma rb_read_ok:
  assumes inv: "rb_inv rb"
  obtains rb' c where "rb_read rb n mv = Some (c, take (unat n) (rb_list rb), rb')"
    "unat c = min (unat n) (length (rb_list rb))" "rb_inv rb'"
    "rb_list rb' = (if mv then drop (unat n) (rb_list rb) else rb_list rb)"
    "rb_m_capacity rb' = rb_m_capacity rb"
proof (cases "rb_count rb = 0")
  case True
  then have "rb_list rb = []" using rb_count_list [OF inv] by (simp add: word_eq_unat)
  with True inv show ?thesis
    by (intro that [of 0 rb]) (simp_all add: rb_read_def)
next
  case False
  let ?c = "if rb_count rb > n then n else rb_count rb"
  have c: "unat ?c = min (unat n) (length (rb_list rb))" by (rule rb_read_count [OF inv])
  then have le: "unat ?c \<le> length (rb_list rb)" by linarith
  have tk: "take (unat ?c) (rb_list rb) = take (unat n) (rb_list rb)"
    and dr: "drop (unat ?c) (rb_list rb) = drop (unat n) (rb_list rb)"
    unfolding c by (simp_all add: min_def)
  obtain rb' where "rb_skip rb ?c = Some rb'" "rb_inv rb'"
    "rb_list rb' = drop (unat n) (rb_list rb)" "rb_m_capacity rb' = rb_m_capacity rb"
    using rb_skip_ok [OF inv le] dr by metis
  moreover from this have "rb_read rb n mv = Some (?c, take (unat n) (rb_list rb), if mv then rb' else rb)"
    using False rb_read_copy_ok [OF inv le] unfolding tk by (cases mv) (simp_all add: rb_read_def Let_def)
  ultimately show ?thesis
    using inv c by (intro that [of ?c "if mv then rb' else rb"]) simp_all
qed

section \<open>Writing\<close>

text \<open>Storing \<open>d\<close> at the end index, without and with wrap-around, appends it to the queue.\<close>

lemma rb_store_flat:
  assumes inv: "rb_inv rb" and e: "unat (rb_m_end rb) + length d \<le> length (rb_m_buffer rb)"
    and room: "length (rb_list rb) + length d < unat (rb_m_capacity rb)"
    and n: "unat n = length d"
  defines "rb' \<equiv> rb\<lparr> rb_m_buffer := take (unat (rb_m_end rb)) (rb_m_buffer rb) @ d @
                       drop (unat (rb_m_end rb) + length d) (rb_m_buffer rb),
                     rb_m_end := (rb_m_end rb + n) mod rb_m_capacity rb \<rparr>"
  shows "rb_inv rb'" "rb_list rb' = rb_list rb @ d"
proof -
  note b = rb_inv_bounds [OF inv]
  let ?c = "unat (rb_m_capacity rb)" and ?b = "unat (rb_m_begin rb)" and ?e = "unat (rb_m_end rb)"
  have "unat (rb_m_end rb + n) = ?e + length d"
    unfolding n [symmetric] using b e n by (intro unat_add_nowrap) simp
  then have e': "unat (rb_m_end rb') = (?e + length d) mod ?c"
    by (simp add: rb'_def unat_mod)
  show "rb_inv rb'" using b e e' by (intro rb_invI) (simp_all add: rb'_def)
  have m: "(?e + length d) mod ?c = (if ?e + length d < ?c then ?e + length d else 0)"
    using b e by (auto simp: mod_if)
  show "rb_list rb' = rb_list rb @ d"
    using b e room unfolding rb_list_def e' m
    by (auto simp: rb'_def Let_def drop_take split: if_splits)
qed

lemma rb_store_wrap:
  assumes inv: "rb_inv rb" and be: "unat (rb_m_begin rb) < unat (rb_m_end rb)"
    and l1: "length d1 = unat (rb_m_capacity rb) - unat (rb_m_end rb)"
    and room: "length (rb_list rb) + length d1 + length d2 < unat (rb_m_capacity rb)"
    and n: "unat n = length d2"
  defines "rb' \<equiv> rb\<lparr> rb_m_buffer := d2 @ drop (length d2) (take (unat (rb_m_end rb)) (rb_m_buffer rb) @ d1),
                     rb_m_end := n \<rparr>"
  shows "rb_inv rb'" "rb_list rb' = rb_list rb @ d1 @ d2"
proof -
  note b = rb_inv_bounds [OF inv]
  have l: "length (rb_list rb) = unat (rb_m_end rb) - unat (rb_m_begin rb)"
    using be b by (simp add: rb_list_def Let_def)
  have d2: "length d2 < unat (rb_m_begin rb)" using l be b l1 room by linarith
  show "rb_inv rb'" using b d2 n l1 by (intro rb_invI) (simp_all add: rb'_def)
  show "rb_list rb' = rb_list rb @ d1 @ d2"
    using b be d2 n l1 by (simp add: rb'_def rb_list_def Let_def drop_take)
qed

lemma rb_rewind_empty:
  assumes "rb_inv rb"
  defines "rb' \<equiv> (if rb_m_end rb = rb_m_begin rb then rb\<lparr> rb_m_end := 0, rb_m_begin := 0 \<rparr> else rb)"
  shows "rb_inv rb'" "rb_list rb' = rb_list rb" "rb_m_capacity rb' = rb_m_capacity rb"
    "rb_m_end rb' = rb_m_begin rb' \<longrightarrow> rb_m_end rb' = 0"
  using rb_inv_bounds [OF assms(1)] by (auto intro!: rb_invI simp: rb'_def rb_list_def Let_def)

lemma rb_store_ok:
  assumes inv: "rb_inv rb" and n: "unat n \<le> length src"
    and room: "length (rb_list rb) + unat n < unat (rb_m_capacity rb)"
    and empty: "rb_m_end rb = rb_m_begin rb \<longrightarrow> rb_m_end rb = 0"
  obtains rb' where "rb_store rb src n = Some (n, rb')" "rb_inv rb'"
    "rb_list rb' = rb_list rb @ take (unat n) src" "rb_m_capacity rb' = rb_m_capacity rb"
proof -
  note b = rb_inv_bounds [OF inv]
  let ?t = "rb_m_capacity rb - rb_m_end rb"
  have t: "unat ?t = unat (rb_m_capacity rb) - unat (rb_m_end rb)"
    using b by (simp add: unat_sub_nowrap)
  show ?thesis
  proof (cases "rb_m_end rb \<le> rb_m_begin rb \<or> n \<le> ?t")
    case True
    have fit: "unat (rb_m_end rb) + unat n \<le> unat (rb_m_capacity rb)"
    proof (cases "unat (rb_m_end rb) < unat (rb_m_begin rb)")
      case True
      then show ?thesis using b room by (simp add: rb_list_def Let_def)
    next
      case False
      then show ?thesis using True b room t empty
        by (auto simp: word_to_nat)
    qed
    have l: "length (take (unat n) src) = unat n" using n by simp
    have w: "rb_store rb src n = Some (n, rb\<lparr> rb_m_buffer := take (unat (rb_m_end rb)) (rb_m_buffer rb) @
        take (unat n) src @ drop (unat (rb_m_end rb) + length (take (unat n) src)) (rb_m_buffer rb),
        rb_m_end := (rb_m_end rb + n) mod rb_m_capacity rb \<rparr>)"
      using True fit n b by (auto simp: rb_store_def Let_def)
    show ?thesis
      using fit n b room l rb_store_flat [OF inv, of "take (unat n) src" n]
      by (intro that [OF w]) simp_all
  next
    case False
    let ?d1 = "take (unat ?t) src" and ?d2 = "take (unat (n - ?t)) (drop (unat ?t) src)"
    have nt: "unat (n - ?t) = unat n - unat ?t" using False by (simp add: unat_sub_nowrap word_to_nat)
    have lt: "unat ?t < unat n" "unat (rb_m_begin rb) < unat (rb_m_end rb)"
      using False by (auto simp: word_to_nat)
    have len: "length ?d1 = unat ?t" "length ?d2 = unat n - unat ?t" using n lt nt by simp_all
    have split: "?d1 @ ?d2 = take (unat n) src"
      using lt nt by (simp add: take_add [symmetric])
    have r: "length (rb_list rb) + length ?d1 + length ?d2 < unat (rb_m_capacity rb)"
      using room len lt by simp
    have f: "length (rb_list rb) = unat (rb_m_end rb) - unat (rb_m_begin rb)"
      using lt b by (simp add: rb_list_def Let_def)
    have w: "rb_store rb src n = Some (n, rb\<lparr> rb_m_buffer := ?d2 @ drop (length ?d2)
        (take (unat (rb_m_end rb)) (rb_m_buffer rb) @ ?d1), rb_m_end := n - ?t \<rparr>)"
      using False n lt nt len b t r by (simp add: rb_store_def Let_def)
    have l1: "length ?d1 = unat (rb_m_capacity rb) - unat (rb_m_end rb)" using len t by simp
    have l2: "unat (n - ?t) = length ?d2" using len nt by simp
    show ?thesis
      using rb_store_wrap [OF inv lt(2) l1 r l2] split by (intro that [OF w]) simp_all
  qed
qed

lemma rb_write_ok:
  assumes inv: "rb_inv rb" and s: "s \<noteq> 0" and len: "unat s \<le> length src"
  obtains rb' c where "rb_write rb src s = Some (c, rb')" "rb_inv rb'"
    "unat c = min (unat s) (unat (rb_left_capacity rb))"
    "rb_list rb' = rb_list rb @ take (unat c) src"
    "rb_m_capacity rb' = rb_m_capacity rb"
proof (cases "rb_left_capacity rb = 0")
  case True
  with s inv show ?thesis by (intro that [of 0 rb]) (simp_all add: rb_write_def)
next
  case False
  let ?rb = "if rb_m_end rb = rb_m_begin rb then rb\<lparr> rb_m_end := 0, rb_m_begin := 0 \<rparr> else rb"
  let ?c = "if rb_left_capacity rb > s then s else rb_left_capacity rb"
  have c: "unat ?c = min (unat s) (unat (rb_left_capacity rb))" by (auto simp: word_to_nat)
  note rw = rb_rewind_empty [OF inv]
  have room: "length (rb_list ?rb) + unat ?c < unat (rb_m_capacity ?rb)"
    unfolding rw c using rb_left_capacity_list [OF inv] rb_list_less_capacity [OF inv]
      unat_rb_capacity [OF inv] by linarith
  have "unat ?c \<le> length src" using c len by linarith
  from rb_store_ok [OF rw(1) this room rw(4)] obtain rb' where
    "rb_store ?rb src ?c = Some (?c, rb')" "rb_inv rb'"
    "rb_list rb' = rb_list ?rb @ take (unat ?c) src" "rb_m_capacity rb' = rb_m_capacity ?rb" .
  then show ?thesis
    using c s False rw by (intro that [of ?c rb']) (simp_all add: rb_write_def)
qed

section \<open>Typed reads\<close>

lemma rb_try_read_ok:
  assumes inv: "rb_inv rb"
  obtains rb' where "rb_inv rb'"
    "rb_try_read rb n = Some (unat n \<le> length (rb_list rb),
       if unat n \<le> length (rb_list rb) then take (unat n) (rb_list rb) else [], rb')"
    "rb_list rb' = (if unat n \<le> length (rb_list rb) then drop (unat n) (rb_list rb) else rb_list rb)"
proof (cases "unat n \<le> length (rb_list rb)")
  case True
  obtain rb' c where r: "rb_read rb n True = Some (c, take (unat n) (rb_list rb), rb')"
    "unat c = min (unat n) (length (rb_list rb))" "rb_inv rb'" "rb_list rb' = drop (unat n) (rb_list rb)"
    using rb_read_ok [OF inv, of n True] by (metis (full_types))
  moreover have "c = n" using r(2) True by (simp add: word_eq_unat)
  ultimately show ?thesis
    using True that [of rb'] by (simp add: rb_try_read_def word_le_unat rb_count_list inv)
next
  case False
  then show ?thesis
    using inv that [of rb] by (simp add: rb_try_read_def word_le_unat rb_count_list)
qed

lemma rb_read_T_ok:
  assumes inv: "rb_inv rb" and w: "LENGTH('a::len) < 4096"
    and len: "sizeof TYPE('a) \<le> length (rb_list rb)"
  obtains rb' where "rb_inv rb'"
    "rb_read_T rb = Some (foldl read_step 0 (take (sizeof TYPE('a)) (rb_list rb)) :: 'a word, rb')"
    "rb_list rb' = drop (sizeof TYPE('a)) (rb_list rb)" "rb_m_capacity rb' = rb_m_capacity rb"
proof -
  let ?n = "of_nat (sizeof TYPE('a)) :: u32"
  have n: "unat ?n = sizeof TYPE('a)" using w by (rule unat_sizeof)
  obtain rb' c where r: "rb_read rb ?n True = Some (c, take (unat ?n) (rb_list rb), rb')"
    "unat c = min (unat ?n) (length (rb_list rb))" "rb_inv rb'" "rb_list rb' = drop (unat ?n) (rb_list rb)"
    "rb_m_capacity rb' = rb_m_capacity rb"
    using rb_read_ok [OF inv, of ?n True] by (metis (full_types))
  moreover have "c = ?n" using r(2) n len by (simp add: word_eq_unat)
  ultimately show ?thesis
    using that [of rb'] len
    by (simp add: rb_read_T_def word_le_unat rb_count_list inv n read_impl_Some)
qed

lemma rb_read_T_short:
  "rb_inv rb \<Longrightarrow> LENGTH('a::len) < 4096 \<Longrightarrow> length (rb_list rb) < sizeof TYPE('a) \<Longrightarrow>
   (rb_read_T rb :: ('a word \<times> _) option) = None"
  by (simp add: rb_read_T_def word_le_unat rb_count_list unat_sizeof)

section \<open>The buffer is a bounded byte queue\<close>

text \<open>
  The interface its clients rely on: \<open>put\<close> stores a prefix as long as there is room and
  reports its length, \<open>get\<close> removes a prefix of what is stored.
\<close>

datatype fifo_op = Put bytes | Get u32

primrec fifo_valid :: "fifo_op \<Rightarrow> bool" where
  "fifo_valid (Put xs) \<longleftrightarrow> xs \<noteq> [] \<and> length xs < 2 ^ 32"
| "fifo_valid (Get n) \<longleftrightarrow> True"

text \<open>A run of calls, with the bytes that were accepted and the bytes that were handed out.\<close>

fun fifo_run :: "('q \<Rightarrow> bytes \<Rightarrow> u32 \<Rightarrow> (u32 \<times> 'q) option) \<Rightarrow> ('q \<Rightarrow> u32 \<Rightarrow> (bytes \<times> 'q) option) \<Rightarrow>
    fifo_op list \<Rightarrow> 'q \<Rightarrow> (bytes \<times> bytes \<times> 'q) option" where
  "fifo_run put get [] q = Some ([], [], q)"
| "fifo_run put get (Put xs # ops) q =
     do { (n, q1) \<leftarrow> put q xs (of_nat (length xs));
          (ins, outs, q2) \<leftarrow> fifo_run put get ops q1;
          Some (take (unat n) xs @ ins, outs, q2) }"
| "fifo_run put get (Get n # ops) q =
     do { (d, q1) \<leftarrow> get q n;
          (ins, outs, q2) \<leftarrow> fifo_run put get ops q1;
          Some (ins, d @ outs, q2) }"

locale byte_fifo =
  fixes inv :: "'q \<Rightarrow> bool" and content :: "'q \<Rightarrow> bytes" and room :: "'q \<Rightarrow> nat"
    and put :: "'q \<Rightarrow> bytes \<Rightarrow> u32 \<Rightarrow> (u32 \<times> 'q) option" and get :: "'q \<Rightarrow> u32 \<Rightarrow> (bytes \<times> 'q) option"
  assumes put_law: "inv q \<Longrightarrow> n \<noteq> 0 \<Longrightarrow> unat n \<le> length xs \<Longrightarrow>
      \<exists>c q'. put q xs n = Some (c, q') \<and> inv q' \<and> unat c = min (unat n) (room q) \<and>
             content q' = content q @ take (unat c) xs \<and> room q' + unat c = room q"
    and get_law: "inv q \<Longrightarrow>
      \<exists>q'. get q n = Some (take (unat n) (content q), q') \<and> inv q' \<and>
           content q' = drop (unat n) (content q) \<and>
           room q' = room q + min (unat n) (length (content q))"
begin

text \<open>
  No sequence of valid calls throws, and what went in before or was there at the start is
  what came out followed by what is still stored.
\<close>

lemma run_fifo:
  "inv q \<Longrightarrow> list_all fifo_valid ops \<Longrightarrow>
   \<exists>ins outs q'. fifo_run put get ops q = Some (ins, outs, q') \<and> inv q' \<and>
     content q @ ins = outs @ content q' \<and>
     room q' + length (content q') = room q + length (content q)"
proof (induction ops arbitrary: q)
  case Nil
  then show ?case by simp
next
  case (Cons op ops)
  show ?case
  proof (cases op)
    case (Put xs)
    let ?n = "of_nat (length xs) :: u32"
    have xs: "xs \<noteq> []" "length xs < 2 ^ 32" using Cons.prems Put by simp_all
    then have n: "unat ?n = length xs" by (intro unat_of_nat_nowrap) simp
    then have "?n \<noteq> 0" using xs(1) by (simp add: word_eq_unat del: of_nat_eq_0_iff)
    from put_law [OF Cons.prems(1) this, of xs] n obtain c q1 where
      p: "put q xs ?n = Some (c, q1)" "inv q1" "unat c = min (length xs) (room q)"
        "content q1 = content q @ take (unat c) xs" "room q1 + unat c = room q" by auto
    from Cons.IH [OF p(2)] Cons.prems obtain ins outs q2 where
      "fifo_run put get ops q1 = Some (ins, outs, q2)" "inv q2"
      "content q1 @ ins = outs @ content q2"
      "room q2 + length (content q2) = room q1 + length (content q1)" by auto
    with p Put show ?thesis by (simp add: min_def split: if_splits)
  next
    case (Get n)
    from get_law [OF Cons.prems(1), of n] obtain q1 where
      g: "get q n = Some (take (unat n) (content q), q1)" "inv q1"
        "content q1 = drop (unat n) (content q)"
        "room q1 = room q + min (unat n) (length (content q))" by auto
    from Cons.IH [OF g(2)] Cons.prems obtain ins outs q2 where
      "fifo_run put get ops q1 = Some (ins, outs, q2)" "inv q2"
      "content q1 @ ins = outs @ content q2"
      "room q2 + length (content q2) = room q1 + length (content q1)" by auto
    with g Get show ?thesis
      by (auto simp: min_def append_assoc [symmetric] simp del: append_assoc split: if_splits)
        (metis append.assoc append_take_drop_id)+
  qed
qed

end

definition rb_get :: "bytes_ringbuffer \<Rightarrow> u32 \<Rightarrow> (bytes \<times> bytes_ringbuffer) option" where
  "rb_get rb n = do { (c, d, rb') \<leftarrow> rb_read rb n True; Some (d, rb') }"

interpretation rbq: byte_fifo rb_inv rb_list "\<lambda>rb. unat (rb_left_capacity rb)" rb_write rb_get
proof unfold_locales
  fix q :: bytes_ringbuffer and n :: u32 and xs :: bytes
  assume a: "rb_inv q" "n \<noteq> 0" "unat n \<le> length xs"
  then obtain q' c where w: "rb_write q xs n = Some (c, q')" "rb_inv q'"
    "unat c = min (unat n) (unat (rb_left_capacity q))" "rb_list q' = rb_list q @ take (unat c) xs"
    "rb_m_capacity q' = rb_m_capacity q"
    using rb_write_ok by blast
  moreover have "unat (rb_left_capacity q') + unat c = unat (rb_left_capacity q)"
    using w a rb_left_capacity_list [of q] rb_left_capacity_list [of q']
    by (auto simp: rb_capacity_def min_def split: if_splits)
  ultimately show "\<exists>c q'. rb_write q xs n = Some (c, q') \<and> rb_inv q' \<and>
      unat c = min (unat n) (unat (rb_left_capacity q)) \<and> rb_list q' = rb_list q @ take (unat c) xs \<and>
      unat (rb_left_capacity q') + unat c = unat (rb_left_capacity q)" by blast
next
  fix q :: bytes_ringbuffer and n :: u32
  assume a: "rb_inv q"
  obtain c q' where r: "rb_read q n True = Some (c, take (unat n) (rb_list q), q')" "rb_inv q'"
    "rb_list q' = drop (unat n) (rb_list q)" "rb_m_capacity q' = rb_m_capacity q"
    using rb_read_ok [OF a, of n True] by (metis (full_types))
  moreover have "unat (rb_left_capacity q') = unat (rb_left_capacity q) + min (unat n) (length (rb_list q))"
    using r a rb_left_capacity_list [of q] rb_left_capacity_list [of q'] rb_list_less_capacity [of q]
      unat_rb_capacity [of q]
    by (simp add: rb_capacity_def)
  ultimately show "\<exists>q'. rb_get q n = Some (take (unat n) (rb_list q), q') \<and> rb_inv q' \<and>
      rb_list q' = drop (unat n) (rb_list q) \<and>
      unat (rb_left_capacity q') = unat (rb_left_capacity q) + min (unat n) (length (rb_list q))"
    by (auto simp: rb_get_def)
qed

section \<open>Properties\<close>

text \<open>
  C22: A ring buffer of any admissible capacity is a first-in first-out byte queue: for every
  sequence of write() and read() calls no call throws or leaves the block, the bytes accepted by the
  writes are exactly the bytes handed out by the reads followed by those still stored, and the free
  space plus the stored bytes is always the capacity.
\<close>

theorem bytes_ringbuffer_fifo:
  assumes "MIN_RING_BUFFER_SIZE \<le> c" "c \<le> MAX_RING_BUFFER_SIZE" "list_all fifo_valid ops"
  shows "\<exists>rb ins outs rb'. bytes_ringbuffer_new junk c = Some rb \<and>
    fifo_run rb_write rb_get ops rb = Some (ins, outs, rb') \<and> ins = outs @ rb_list rb' \<and>
    unat (rb_left_capacity rb') + length (rb_list rb') = unat c \<and> rb_inv rb'"
proof -
  obtain rb where rb: "bytes_ringbuffer_new junk c = Some rb" "rb_inv rb" "rb_list rb = []"
    "rb_capacity rb = c" using bytes_ringbuffer_new_ok [OF assms(1,2)] by metis
  with rbq.run_fifo [OF rb(2) assms(3)] rb_left_capacity_list [OF rb(2)] show ?thesis by auto
qed

theorem bytes_ringbuffer_fifo_witness:
  "\<exists>rb ins outs rb'. bytes_ringbuffer_new (\<lambda>_. 0) 2048 = Some rb \<and>
    fifo_run rb_write rb_get [Put [1, 2, 3], Get 2, Put [4], Get 7] rb = Some (ins, outs, rb') \<and>
    ins = outs @ rb_list rb' \<and> unat (rb_left_capacity rb') + length (rb_list rb') = 2048 \<and> rb_inv rb'"
  using bytes_ringbuffer_fifo [of 2048 "[Put [1, 2, 3], Get 2, Put [4], Get 7]" "\<lambda>_. 0"]
  by (simp add: MIN_RING_BUFFER_SIZE_def MAX_RING_BUFFER_SIZE_def)

text \<open>
  write() stores as much of its argument as there is room for, reports that number, and
  appends exactly those bytes; it throws only for an empty request.
\<close>

lemma rb_write_stores_prefix:
  assumes "rb_inv rb" "unat s \<le> length src"
  shows "if s = 0 then rb_write rb src s = None
    else \<exists>c rb'. rb_write rb src s = Some (c, rb') \<and> rb_inv rb' \<and>
           unat c = min (unat s) (unat (rb_left_capacity rb)) \<and>
           rb_list rb' = rb_list rb @ take (unat c) src"
proof (cases "s = 0")
  case True
  then show ?thesis by (simp add: rb_write_def)
next
  case False
  then show ?thesis using rb_write_ok [OF assms(1) False assms(2)] by (auto elim!: meta_mp) metis
qed

end
