(* ===== verification/Wcp_Pack.thy ===== *)
theory Wcp_Pack
  imports Bytes_Helper
begin

text \<open>
  The data of the wcp transport (include/wawo/net/address.hpp, the first part of
  include/wawo/net/wcp.hpp and of src/net/wcp.cpp): addresses packed in 48 bits of a u64,
  the constants and flag bits, the 16-byte pack header, and the two macros that turn a pack into a
  UDP message and back. A packet that only carries a payload is the option of its unread bytes
  (None is the NULL pointer); theory Packet shows that this is what a packet is.
\<close>

section \<open>Addresses\<close>

type_synonym address = u64

text \<open>An unsigned short and the low 32 bits of an unsigned long, in network order.\<close>

definition address_of_sockaddr_in :: "u32 \<Rightarrow> u16 \<Rightarrow> address" where
  "address_of_sockaddr_in s_addr sin_port =
     (let m_identity = push_bit 16 (0 OR (ucast s_addr AND 0xFFFFFFFF)) in
      m_identity OR (ucast sin_port AND 0xFFFF))"

definition addr_is_null :: "address \<Rightarrow> bool" where
  "addr_is_null a \<longleftrightarrow> 0 = a"

definition get_netsequence_port :: "address \<Rightarrow> u16" where
  "get_netsequence_port a = ucast (a AND 0xFFFF)"

definition get_netsequence_ulongip :: "address \<Rightarrow> u64" where
  "get_netsequence_ulongip a = drop_bit 16 a AND 0xFFFFFFFF"

definition set_netsequence_ulongip :: "address \<Rightarrow> u64 \<Rightarrow> address" where
  "set_netsequence_ulongip a ulongIp =
     (let port = ucast (a AND 0xFFFF) :: u16 in
      push_bit 16 (0 OR ulongIp) OR ucast port)"

definition set_netsequence_port :: "address \<Rightarrow> u16 \<Rightarrow> address" where
  "set_netsequence_port a port =
     (let current_ip = drop_bit 16 a AND 0xFFFFFFFF in
      push_bit 16 (0 OR current_ip) OR (ucast port AND 0xFFFF))"

text \<open>ntohl and ntohs of a little-endian host reverse the bytes.\<close>

definition ntohl :: "u32 \<Rightarrow> u32" where
  "ntohl x = foldl read_step 0 (rev (write_impl x))"

definition ntohs :: "u16 \<Rightarrow> u16" where
  "ntohs x = foldl read_step 0 (rev (write_impl x))"

definition get_hostsequence_ulongip :: "address \<Rightarrow> u64" where
  "get_hostsequence_ulongip a = ucast (ntohl (ucast (get_netsequence_ulongip a)))"

definition get_hostsequence_port :: "address \<Rightarrow> u16" where
  "get_hostsequence_port a = ntohs (get_netsequence_port a)"

definition four_tuple_hash :: "address \<Rightarrow> address \<Rightarrow> u32" where
  "four_tuple_hash addr1 addr2 =
     (((ucast (get_hostsequence_ulongip addr1) * 59)
       XOR ucast (get_hostsequence_ulongip addr2))
       XOR push_bit 16 (ucast (get_hostsequence_port addr1)))
       XOR ucast (get_hostsequence_port addr2)"

section \<open>Constants and flags\<close>

definition WCP_MTU :: u32 where "WCP_MTU = 1400"
definition WCP_HeaderLen :: u32 where "WCP_HeaderLen = 16"
definition WCP_MDU :: u32 where "WCP_MDU = WCP_MTU - WCP_HeaderLen"

definition WCP_FLAG_SYN :: u16 where "WCP_FLAG_SYN = push_bit 0 1"
definition WCP_FLAG_ACK :: u16 where "WCP_FLAG_ACK = push_bit 1 1"
definition WCP_FLAG_SACK :: u16 where "WCP_FLAG_SACK = push_bit 2 1"
definition WCP_FLAG_FIN :: u16 where "WCP_FLAG_FIN = push_bit 3 1"
definition WCP_FLAG_RST :: u16 where "WCP_FLAG_RST = push_bit 4 1"
definition WCP_FLAG_WND :: u16 where "WCP_FLAG_WND = push_bit 5 1"
definition WCP_FLAG_DAT :: u16 where "WCP_FLAG_DAT = push_bit 6 1"
definition WCP_FLAG_KEEP_ALIVE :: u16 where "WCP_FLAG_KEEP_ALIVE = push_bit 7 1"
definition WCP_FLAG_KEEP_ALIVE_REPLY :: u16 where "WCP_FLAG_KEEP_ALIVE_REPLY = push_bit 8 1"

lemmas WCP_FLAG_defs = WCP_FLAG_SYN_def WCP_FLAG_ACK_def WCP_FLAG_SACK_def WCP_FLAG_FIN_def
  WCP_FLAG_RST_def WCP_FLAG_WND_def WCP_FLAG_DAT_def WCP_FLAG_KEEP_ALIVE_def
  WCP_FLAG_KEEP_ALIVE_REPLY_def

text \<open>The macro WCPPACK_TEST_FLAG and the other tests of a flag word in a condition.\<close>

definition test_flag :: "('a::len) word \<Rightarrow> 'a word \<Rightarrow> bool" where
  "test_flag flags m = (flags AND m \<noteq> 0)"

definition set_flag :: "('a::len) word \<Rightarrow> 'a word \<Rightarrow> 'a word" where
  "set_flag flags m = flags OR m"

definition clear_flag :: "('a::len) word \<Rightarrow> 'a word \<Rightarrow> 'a word" where
  "clear_flag flags m = flags AND NOT m"

section \<open>Packs\<close>

record WCP_Header =
  h_seq :: u32
  h_ack :: u32
  h_wnd :: u32
  h_flag :: u16
  h_dlen :: u16

record WCB_pack =
  wp_header :: WCP_Header
  wp_data :: "bytes option"
  wp_sent_ts :: u64
  wp_sent_times :: u32

record WCB_received_pack =
  rp_header :: WCP_Header
  rp_data :: "bytes option"
  rp_from :: address

text \<open>A pack fresh from \<open>make_shared<WCB_pack>()\<close> is value-initialised.\<close>

definition zero_header :: WCP_Header where
  "zero_header = \<lparr> h_seq = 0, h_ack = 0, h_wnd = 0, h_flag = 0, h_dlen = 0 \<rparr>"

definition new_pack :: "u32 \<Rightarrow> u16 \<Rightarrow> bytes option \<Rightarrow> WCB_pack" where
  "new_pack seq flag data =
     \<lparr> wp_header = zero_header\<lparr> h_seq := seq, h_flag := flag,
         h_dlen := (case data of None \<Rightarrow> 0 | Some d \<Rightarrow> of_nat (length d) AND 0xFFFF) \<rparr>,
       wp_data = data, wp_sent_ts = 0, wp_sent_times = 0 \<rparr>"

definition data_len :: "bytes option \<Rightarrow> nat" where
  "data_len data = (case data of None \<Rightarrow> 0 | Some d \<Rightarrow> length d)"

definition WCPPACK_TO_UDPMESSAGE :: "WCP_Header \<Rightarrow> bytes option \<Rightarrow> u32 \<Rightarrow> bytes option" where
  "WCPPACK_TO_UDPMESSAGE h data sz =
     do { wawo_assert (WCP_HeaderLen \<le> sz);
          wawo_assert (case data of None \<Rightarrow> True | Some d \<Rightarrow> length d \<le> unat WCP_MDU);
          let hd = write_impl (h_seq h) @ write_impl (h_ack h) @ write_impl (h_wnd h) @
                   write_impl (h_flag h);
          if data \<noteq> None \<and> data_len data \<noteq> 0
          then do { wawo_assert (length hd + 2 + data_len data \<le> unat sz);
                    Some (hd @ write_impl (of_nat (data_len data) :: u16) @ the data) }
          else Some (hd @ write_impl (0 :: u16)) }"

definition WCP_RECEIVED_PACK_FROM_UDPMESSAGE :: "bytes \<Rightarrow> (WCP_Header \<times> bytes option) option" where
  "WCP_RECEIVED_PACK_FROM_UDPMESSAGE m =
     do { wawo_assert (unat WCP_HeaderLen \<le> length m);
          seq \<leftarrow> read_u32 m;
          ack \<leftarrow> read_u32 (drop 4 m);
          wnd \<leftarrow> read_u32 (drop 8 m);
          flag \<leftarrow> read_u16 (drop 12 m);
          dlen \<leftarrow> read_u16 (drop 14 m);
          let h = \<lparr> h_seq = seq, h_ack = ack, h_wnd = wnd, h_flag = flag, h_dlen = dlen \<rparr>;
          if dlen \<noteq> 0
          then do { wawo_assert (unat dlen \<le> unat WCP_MDU);
                    wawo_assert (unat dlen = length m - 16);
                    d \<leftarrow> mem_read m 16 (unat dlen);
                    Some (h, Some d) }
          else Some (h, None) }"

section \<open>Lemmas on addresses\<close>

lemma mask32: "(0xFFFFFFFF :: 'a::len word) = mask 32"
  by (simp add: mask_eq_exp_minus_1)

lemma mask16: "(0xFFFF :: 'a::len word) = mask 16"
  by (simp add: mask_eq_exp_minus_1)

lemma bit_and_mask_low:
  "bit (x AND mask k :: 'a::len word) n \<longleftrightarrow> n < k \<and> bit x n"
  by (auto simp: bit_and_iff bit_mask_iff dest: bit_imp_le_length)

lemmas address_defs = address_of_sockaddr_in_def get_netsequence_port_def get_netsequence_ulongip_def
  set_netsequence_ulongip_def set_netsequence_port_def

lemmas address_bits = bit_or_iff bit_push_bit_iff bit_ucast_iff bit_drop_bit_eq bit_and_iff bit_mask_iff

lemma netsequence_port_of_sockaddr [simp]:
  "get_netsequence_port (address_of_sockaddr_in ip port) = port"
  unfolding address_defs Let_def mask16 mask32
  by (rule bit_word_eqI) (auto simp: address_bits simp del: mask_numeral)

lemma netsequence_ip_of_sockaddr [simp]:
  "get_netsequence_ulongip (address_of_sockaddr_in ip port) = ucast ip"
  unfolding address_defs Let_def mask16 mask32
  by (rule bit_word_eqI) (auto simp: address_bits simp del: mask_numeral dest: bit_imp_le_length)

lemma set_port_get [simp]:
  "get_netsequence_port (set_netsequence_port a port) = port"
  "get_netsequence_ulongip (set_netsequence_port a port) = get_netsequence_ulongip a"
  unfolding address_defs Let_def mask16 mask32
  by (rule bit_word_eqI, auto simp: address_bits simp del: mask_numeral dest: bit_imp_le_length)+

lemma set_ip_get:
  "get_netsequence_port (set_netsequence_ulongip a ip) = get_netsequence_port a"
  "get_netsequence_ulongip (set_netsequence_ulongip a ip) = ip AND 0xFFFFFFFF"
  unfolding address_defs Let_def mask16 mask32
  by (rule bit_word_eqI, auto simp: address_bits simp del: mask_numeral dest: bit_imp_le_length)+

lemma ntohl_involutive [simp]: "ntohl (ntohl x) = x"
  by (simp add: ntohl_def write_foldl_read foldl_write_impl)

lemma ntohs_involutive [simp]: "ntohs (ntohs x) = x"
  by (simp add: ntohs_def write_foldl_read foldl_write_impl)

section \<open>Lemmas on flags\<close>

lemma test_flag_zero [simp]: "\<not> test_flag 0 m" "\<not> test_flag f 0"
  by (simp_all add: test_flag_def)

lemma test_set_flag_same [simp]: "m \<noteq> 0 \<Longrightarrow> test_flag (set_flag f m) m"
  by (simp add: test_flag_def set_flag_def word_bw_comms bit.conj_disj_distrib)

lemma test_clear_flag_same [simp]: "\<not> test_flag (clear_flag f m) m"
  by (simp add: test_flag_def clear_flag_def and.assoc)

lemma test_set_flag_other [simp]: "m AND k = 0 \<Longrightarrow> test_flag (set_flag f m) k = test_flag f k"
  by (simp add: test_flag_def set_flag_def bit.conj_disj_distrib2)

lemma test_clear_flag_other [simp]: "m AND k = 0 \<Longrightarrow> test_flag (clear_flag f m) k = test_flag f k"
proof -
  assume "m AND k = 0"
  then have "\<not> (bit m n \<and> bit k n)" for n
    using bit_and_iff [of m k n] by simp
  then have "NOT m AND k = k"
    by (intro bit_word_eqI) (auto simp: bit_and_iff bit_not_iff)
  then show ?thesis by (simp add: test_flag_def clear_flag_def and.assoc)
qed

section \<open>Lemmas on the message codec\<close>

lemma unat_WCP_consts [simp]:
  "unat WCP_MDU = 1384" "unat WCP_HeaderLen = 16" "unat WCP_MTU = 1400"
  by (simp_all add: WCP_MDU_def WCP_MTU_def WCP_HeaderLen_def)

lemma read_u32_write [simp]: "read_u32 (write_impl (w :: u32) @ r) = Some w"
  by (simp add: read_u32_def)

lemma read_u16_write [simp]: "read_u16 (write_impl (w :: u16) @ r) = Some w"
  by (simp add: read_u16_def)

lemma read_u16_write_exact [simp]: "read_u16 (write_impl (w :: u16)) = Some w"
  using read_u16_write [of w "[]"] by simp

lemma wcp_encode:
  assumes "data_len data \<le> 1384"
  shows "WCPPACK_TO_UDPMESSAGE h data WCP_MTU =
    Some (write_impl (h_seq h) @ write_impl (h_ack h) @ write_impl (h_wnd h) @ write_impl (h_flag h) @
      write_impl (of_nat (data_len data) :: u16) @ (case data of None \<Rightarrow> [] | Some d \<Rightarrow> d))"
  using assms
  by (auto simp: WCPPACK_TO_UDPMESSAGE_def data_len_def word_le_unat Let_def split: option.splits)

lemma wcp_encode_fails:
  "1384 < data_len data \<Longrightarrow> WCPPACK_TO_UDPMESSAGE h data sz = None"
  by (auto simp: WCPPACK_TO_UDPMESSAGE_def data_len_def split: option.splits)

lemma drop_write_impl:
  "drop 4 (write_impl (w :: u32) @ r) = r" "drop 2 (write_impl (v :: u16) @ r) = r"
  by simp_all

lemma wcp_decode_fields:
  assumes m: "m = write_impl (h_seq h) @ write_impl (h_ack h) @ write_impl (h_wnd h) @
      write_impl (h_flag h) @ write_impl (h_dlen h) @ d"
    and d: "h_dlen h \<noteq> 0 \<Longrightarrow> length d = unat (h_dlen h)" and le: "unat (h_dlen h) \<le> 1384"
  shows "WCP_RECEIVED_PACK_FROM_UDPMESSAGE m = Some (h, if h_dlen h = 0 then None else Some d)"
proof -
  have "read_u32 m = Some (h_seq h)" "read_u32 (drop 4 m) = Some (h_ack h)"
    "read_u32 (drop 8 m) = Some (h_wnd h)" "read_u16 (drop 12 m) = Some (h_flag h)"
    "read_u16 (drop 14 m) = Some (h_dlen h)" "length m = 16 + length d" "drop 16 m = d"
    by (simp_all add: m)
  then show ?thesis
    using d le by (simp add: WCP_RECEIVED_PACK_FROM_UDPMESSAGE_def)
qed

lemma wcp_decode_SomeD:
  assumes "WCP_RECEIVED_PACK_FROM_UDPMESSAGE m = Some (h, d)"
  shows "16 \<le> length m" "read_u32 m = Some (h_seq h)" "read_u32 (drop 4 m) = Some (h_ack h)"
    "read_u32 (drop 8 m) = Some (h_wnd h)" "read_u16 (drop 12 m) = Some (h_flag h)"
    "read_u16 (drop 14 m) = Some (h_dlen h)" "data_len d = unat (h_dlen h)"
    "unat (h_dlen h) \<le> 1384" "d = (if h_dlen h = 0 then None else Some (drop 16 m))"
  using assms
  by (auto simp: WCP_RECEIVED_PACK_FROM_UDPMESSAGE_def bind_eq_Some_conv Let_def data_len_def
      split: if_splits)

lemma write_read_u32: "read_u32 m = Some w \<Longrightarrow> write_impl w = take 4 m"
  using write_read_impl [of m w] by (simp add: read_u32_def)

lemma write_read_u16: "read_u16 m = Some w \<Longrightarrow> write_impl w = take 2 m"
  using write_read_impl [of m w] by (simp add: read_u16_def)

section \<open>Properties\<close>

text \<open>
  C24: The UDP message of a pack whose payload is at most WCP_MDU bytes fits in WCP_MTU and is decoded by the receiver to the same
  sequence number, acknowledgement, window, flags and payload, with the length field set
  to the payload's length; a longer payload makes the encoder throw.
\<close>

theorem wcp_message_roundtrip:
  "if data_len data \<le> 1384
   then \<exists>m. WCPPACK_TO_UDPMESSAGE h data WCP_MTU = Some m \<and> length m = 16 + data_len data \<and>
          WCP_RECEIVED_PACK_FROM_UDPMESSAGE m =
            Some (h\<lparr> h_dlen := of_nat (data_len data) \<rparr>, if data_len data = 0 then None else data)
   else WCPPACK_TO_UDPMESSAGE h data WCP_MTU = None"
proof (cases "data_len data \<le> 1384")
  case True
  let ?h = "h\<lparr> h_dlen := of_nat (data_len data) \<rparr>"
  let ?d = "case data of None \<Rightarrow> [] | Some d \<Rightarrow> d"
  have n: "unat (of_nat (data_len data) :: u16) = data_len data"
    using True by (intro unat_of_nat_nowrap) simp
  then have z: "(of_nat (data_len data) :: u16) = 0 \<longleftrightarrow> data_len data = 0"
    by (simp add: word_eq_unat)
  have l: "length ?d = data_len data" by (simp add: data_len_def split: option.splits)
  have "WCP_RECEIVED_PACK_FROM_UDPMESSAGE (write_impl (h_seq h) @ write_impl (h_ack h) @
      write_impl (h_wnd h) @ write_impl (h_flag h) @ write_impl (of_nat (data_len data) :: u16) @ ?d)
    = Some (?h, if data_len data = 0 then None else Some ?d)"
    using wcp_decode_fields [of _ ?h ?d] True n z l by simp
  moreover have "(if data_len data = 0 then None else Some ?d) = (if data_len data = 0 then None else data)"
    by (simp add: data_len_def split: option.splits)
  ultimately show ?thesis using True l by (simp add: wcp_encode)
next
  case False
  then show ?thesis by (simp add: wcp_encode_fails)
qed

text \<open>
  Whatever datagram the receiver accepts is the encoding of the pack it makes of it: encoding
  the decoded pack gives back the header and payload bytes of the datagram, so no two
  packs share a datagram. (Bytes after a header that announces no payload are ignored.)
\<close>

theorem wcp_message_decode_encode:
  assumes "WCP_RECEIVED_PACK_FROM_UDPMESSAGE m = Some (h, d)"
  shows "WCPPACK_TO_UDPMESSAGE h d WCP_MTU = Some (take (16 + unat (h_dlen h)) m)"
proof -
  note f = wcp_decode_SomeD [OF assms]
  have w: "write_impl (h_seq h) = take 4 m" "write_impl (h_ack h) = take 4 (drop 4 m)"
    "write_impl (h_wnd h) = take 4 (drop 8 m)" "write_impl (h_flag h) = take 2 (drop 12 m)"
    "write_impl (h_dlen h) = take 2 (drop 14 m)"
    using f by (simp_all add: write_read_u32 write_read_u16)
  have "take 4 m @ take 4 (drop 4 m) @ take 4 (drop 8 m) @ take 2 (drop 12 m) @ take 2 (drop 14 m) = take 16 m"
    using take_add [of 4 4 m] take_add [of 8 4 m] take_add [of 12 2 m] take_add [of 14 2 m] by simp
  moreover have "(case d of None \<Rightarrow> [] | Some x \<Rightarrow> x) = take (unat (h_dlen h)) (drop 16 m)"
    using f(7,9) by (auto simp: data_len_def)
  moreover have "(of_nat (data_len d) :: u16) = h_dlen h" using f(7) by simp
  ultimately show ?thesis
    using f(7,8) by (simp add: wcp_encode w take_add [of 16])
qed

theorem wcp_message_decode_encode_witness:
  "WCPPACK_TO_UDPMESSAGE \<lparr> h_seq = 5, h_ack = 6, h_wnd = 7, h_flag = 64, h_dlen = 2 \<rparr> (Some [8, 9]) WCP_MTU
   = Some [0, 0, 0, 5, 0, 0, 0, 6, 0, 0, 0, 7, 0, 64, 0, 2, 8, 9]"
proof -
  let ?m = "[0, 0, 0, 5, 0, 0, 0, 6, 0, 0, 0, 7, 0, 64, 0, 2, 8, 9] :: bytes"
  have "WCP_RECEIVED_PACK_FROM_UDPMESSAGE ?m =
      Some (\<lparr> h_seq = 5, h_ack = 6, h_wnd = 7, h_flag = 64, h_dlen = 2 \<rparr>, Some [8, 9])"
    by code_simp
  from wcp_message_decode_encode [OF this] show ?thesis by simp
qed

text \<open>
  An address keeps its IP and its port apart: each is read back as it was stored, setting one leaves the
  other as it was, and two addresses with the same IP and port built from socket
  addresses are equal.
\<close>

lemma address_fields_independent:
  "get_netsequence_port (address_of_sockaddr_in ip port) = port \<and>
   get_netsequence_ulongip (address_of_sockaddr_in ip port) = ucast ip \<and>
   get_netsequence_port (set_netsequence_port a port) = port \<and>
   get_netsequence_ulongip (set_netsequence_port a port) = get_netsequence_ulongip a \<and>
   get_netsequence_port (set_netsequence_ulongip a (ucast ip)) = get_netsequence_port a \<and>
   get_netsequence_ulongip (set_netsequence_ulongip a (ucast ip)) = ucast ip \<and>
   (address_of_sockaddr_in ip port = address_of_sockaddr_in ip' port') = (ip = ip' \<and> port = port')"
proof -
  have m: "ucast ip AND 0xFFFFFFFF = (ucast ip :: u64)"
    unfolding mask32
    by (rule bit_word_eqI) (auto simp: address_bits simp del: mask_numeral dest: bit_imp_le_length)
  have i: "ip = ip'" if "ucast ip = (ucast ip' :: u64)"
  proof -
    have "(ucast (ucast x :: u64) :: u32) = x" for x
      by (rule bit_word_eqI) (auto simp: bit_ucast_iff dest: bit_imp_le_length)
    with that show ?thesis by metis
  qed
  have "ip = ip' \<and> port = port'" if e: "address_of_sockaddr_in ip port = address_of_sockaddr_in ip' port'"
    using arg_cong [OF e, of get_netsequence_port] arg_cong [OF e, of get_netsequence_ulongip] i by simp
  then show ?thesis using m by (auto simp: set_ip_get)
qed

end
