(* ===== verification/Socket_Sys.thy ===== *)
theory Socket_Sys
  imports Bytes_Ringbuffer Wcp_Pack
begin

text \<open>
  The system calls a socket makes and their wrappers, namespace standard_socket of src/net/socket_base.cpp. What the
  kernel answers is data: a list of answers for each kind of call, consumed call by call. A list that is used up
  answers EWOULDBLOCK, as a non-blocking descriptor does until it is ready again, and the calls without data succeed.
  The bytes the kernel accepts are recorded. The wrappers retry interrupted calls and send() continues after a partial write.
\<close>

section \<open>Codes\<close>

definition E_TRY_AGAIN :: int where "E_TRY_AGAIN = -20008"
definition E_SOCKET_GRACE_CLOSE :: int where "E_SOCKET_GRACE_CLOSE = -30000"
definition E_SOCKET_SEND_IO_BLOCK_EXPIRED :: int where "E_SOCKET_SEND_IO_BLOCK_EXPIRED = -30002"
definition E_SOCKET_RECV_BUFFER_FULL :: int where "E_SOCKET_RECV_BUFFER_FULL = -30003"
definition E_SOCKET_CONNECTING :: int where "E_SOCKET_CONNECTING = -30006"
definition E_SOCKET_LARGE_PACKET :: int where "E_SOCKET_LARGE_PACKET = -30008"
definition E_SOCKET_RD_SHUTDOWN_ALREADY :: int where "E_SOCKET_RD_SHUTDOWN_ALREADY = -30009"
definition E_SOCKET_WR_SHUTDOWN_ALREADY :: int where "E_SOCKET_WR_SHUTDOWN_ALREADY = -30010"
definition E_SOCKET_PUMP_TRY_AGAIN :: int where "E_SOCKET_PUMP_TRY_AGAIN = -30011"
definition E_SOCKET_INVALID_FAMILY :: int where "E_SOCKET_INVALID_FAMILY = -30012"
definition E_SOCKET_INVALID_TYPE :: int where "E_SOCKET_INVALID_TYPE = -30013"

definition EINTR :: int where "EINTR = 4"

lemmas socket_codes =
  E_TRY_AGAIN_def E_SOCKET_GRACE_CLOSE_def E_SOCKET_SEND_IO_BLOCK_EXPIRED_def E_SOCKET_RECV_BUFFER_FULL_def
  E_SOCKET_CONNECTING_def E_SOCKET_LARGE_PACKET_def E_SOCKET_RD_SHUTDOWN_ALREADY_def E_SOCKET_WR_SHUTDOWN_ALREADY_def
  E_SOCKET_PUMP_TRY_AGAIN_def E_SOCKET_INVALID_FAMILY_def E_SOCKET_INVALID_TYPE_def EINTR_def

text \<open>On Linux EAGAIN and the WSA names of the macros are EWOULDBLOCK.\<close>

definition IS_ERRNO_EQUAL_WOULDBLOCK :: "int \<Rightarrow> bool" where
  "IS_ERRNO_EQUAL_WOULDBLOCK e \<longleftrightarrow> e = EWOULDBLOCK"

definition IS_ERRNO_EQUAL_CONNECTING :: "int \<Rightarrow> bool" where
  "IS_ERRNO_EQUAL_CONNECTING e \<longleftrightarrow> e = EINPROGRESS \<or> e = EWOULDBLOCK"

section \<open>The kernel\<close>

text \<open>
  \<open>Room n\<close>: the kernel takes at most \<open>n\<close> bytes. \<open>Data d\<close>: the bytes \<open>d\<close> have arrived (none: the peer has closed).
\<close>

datatype snd_answer = Room nat | SndFail int
datatype rcv_answer = Data bytes | RcvFail int
datatype dgram_answer = Dgram u32 u16 bytes | DgramFail int
datatype acc_answer = Conn int u32 u16 | AccFail int

record kernel =
  k_ret :: "(int \<times> int) list"
  k_snd :: "snd_answer list"
  k_out :: bytes
  k_rcv :: "rcv_answer list"
  k_dgram :: "dgram_answer list"
  k_dgram_out :: "(u32 \<times> u16 \<times> bytes) list"
  k_acc :: "acc_answer list"

text \<open>A call without data: its result and errno.\<close>

definition sys_call :: "kernel \<Rightarrow> int \<times> int \<times> kernel" where
  "sys_call k = (case k_ret k of [] \<Rightarrow> (0, 0, k) | (r, e) # as \<Rightarrow> (r, e, k\<lparr> k_ret := as \<rparr>))"

definition sys_send :: "bytes \<Rightarrow> kernel \<Rightarrow> int \<times> int \<times> kernel" where
  "sys_send buf k =
     (case k_snd k of
        [] \<Rightarrow> (-1, EWOULDBLOCK, k)
      | Room n # as \<Rightarrow> (int (min n (length buf)), 0, k\<lparr> k_snd := as, k_out := k_out k @ take n buf \<rparr>)
      | SndFail e # as \<Rightarrow> (-1, e, k\<lparr> k_snd := as \<rparr>))"

text \<open>The bytes of a chunk beyond \<open>asize\<close> stay for the next call.\<close>

definition sys_recv :: "nat \<Rightarrow> kernel \<Rightarrow> int \<times> bytes \<times> int \<times> kernel" where
  "sys_recv asize k =
     (case k_rcv k of
        [] \<Rightarrow> (-1, [], EWOULDBLOCK, k)
      | Data d # as \<Rightarrow> (int (min asize (length d)), take asize d, 0,
          k\<lparr> k_rcv := (if asize < length d then Data (drop asize d) # as else as) \<rparr>)
      | RcvFail e # as \<Rightarrow> (-1, [], e, k\<lparr> k_rcv := as \<rparr>))"

definition sys_sendto :: "bytes \<Rightarrow> u32 \<Rightarrow> u16 \<Rightarrow> kernel \<Rightarrow> int \<times> int \<times> kernel" where
  "sys_sendto buf ip port k =
     (case k_snd k of
        [] \<Rightarrow> (-1, EWOULDBLOCK, k)
      | Room n # as \<Rightarrow> (int (min n (length buf)), 0, k\<lparr> k_snd := as, k_dgram_out := k_dgram_out k @ [(ip, port, take n buf)] \<rparr>)
      | SndFail e # as \<Rightarrow> (-1, e, k\<lparr> k_snd := as \<rparr>))"

text \<open>A datagram longer than the buffer is cut off.\<close>

definition sys_recvfrom :: "nat \<Rightarrow> kernel \<Rightarrow> int \<times> bytes \<times> u32 \<times> u16 \<times> int \<times> kernel" where
  "sys_recvfrom asize k =
     (case k_dgram k of
        [] \<Rightarrow> (-1, [], 0, 0, EWOULDBLOCK, k)
      | Dgram ip port d # as \<Rightarrow> (int (min asize (length d)), take asize d, ip, port, 0, k\<lparr> k_dgram := as \<rparr>)
      | DgramFail e # as \<Rightarrow> (-1, [], 0, 0, e, k\<lparr> k_dgram := as \<rparr>))"

definition sys_accept :: "kernel \<Rightarrow> int \<times> u32 \<times> u16 \<times> int \<times> kernel" where
  "sys_accept k =
     (case k_acc k of
        [] \<Rightarrow> (-1, 0, 0, EWOULDBLOCK, k)
      | Conn fd ip port # as \<Rightarrow> (fd, ip, port, 0, k\<lparr> k_acc := as \<rparr>)
      | AccFail e # as \<Rightarrow> (-1, 0, 0, e, k\<lparr> k_acc := as \<rparr>))"

section \<open>The wrappers\<close>

text \<open>socket(): a descriptor is positive.\<close>

definition std_socket :: "kernel \<Rightarrow> int \<times> kernel" where
  "std_socket k = (let (rt, e, k) = sys_call k in (if rt > 0 then rt else WAWO_NEGATIVE e, k))"

text \<open>connect, bind, shutdown, close, listen, getsockopt and setsockopt have the same body.\<close>

definition std_call :: "kernel \<Rightarrow> int \<times> kernel" where
  "std_call k = (let (rt, e, k) = sys_call k in (if rt = 0 then 0 else WAWO_NEGATIVE e, k))"

definition std_accept :: "kernel \<Rightarrow> int \<times> u32 \<times> u16 \<times> kernel" where
  "std_accept k =
     (let (accepted_fd, ip, port, e, k) = sys_accept k in
      (if accepted_fd > 0 then accepted_fd else WAWO_NEGATIVE e, ip, port, k))"

lemma sys_send_consumes: "sys_send buf k = (r, e, k') \<Longrightarrow> k_snd k \<noteq> [] \<Longrightarrow> length (k_snd k') < length (k_snd k)"
  by (cases "k_snd k") (auto simp: sys_send_def split: snd_answer.splits)

lemma sys_send_empty: "sys_send buf k = (r, e, k') \<Longrightarrow> k_snd k = [] \<Longrightarrow> r = -1 \<and> e = EWOULDBLOCK"
  by (auto simp: sys_send_def)

text \<open>send(): the buffer is the list, \<open>len\<close> its length.\<close>

function std_send_loop :: "bytes \<Rightarrow> u32 \<Rightarrow> kernel \<Rightarrow> (u32 \<times> int \<times> kernel) option" where
  "std_send_loop buffer sent_total k =
     (let (sent, ec, k') = sys_send (drop (unat sent_total) buffer) k in
      if sent > 0 then
        let sent_total = sent_total + of_int sent in
        if sent_total = of_nat (length buffer) then Some (sent_total, OK, k')
        else std_send_loop buffer sent_total k'
      else do {
        wawo_assert (sent = -1);
        if IS_ERRNO_EQUAL_WOULDBLOCK ec then Some (sent_total, E_SOCKET_SEND_BLOCK, k')
        else if ec = EINTR then std_send_loop buffer sent_total k'
        else Some (sent_total, WAWO_NEGATIVE ec, k') })"
  by pat_completeness auto

termination
proof (relation "measure (\<lambda>(buffer, sent_total, k). length (k_snd k))", goal_cases)
  case (2 buffer sent_total k x sent y ec k' st)
  then have s: "sys_send (drop (unat sent_total) buffer) k = (sent, ec, k')" by simp
  then have "k_snd k \<noteq> []" using sys_send_empty [OF s] 2 by auto
  with sys_send_consumes [OF s] show ?case by simp
next
  case (3 buffer sent_total k x sent y ec k' u)
  then have s: "sys_send (drop (unat sent_total) buffer) k = (sent, ec, k')" by simp
  then have "k_snd k \<noteq> []" using sys_send_empty [OF s] 3 by (auto simp: EINTR_def EWOULDBLOCK_def)
  with sys_send_consumes [OF s] show ?case by simp
qed auto

declare std_send_loop.simps [simp del]

definition std_send :: "bytes \<Rightarrow> kernel \<Rightarrow> (u32 \<times> int \<times> kernel) option" where
  "std_send buffer k = do { wawo_assert (of_nat (length buffer) > (0 :: u32)); std_send_loop buffer 0 k }"

lemma sys_recv_consumes: "sys_recv asize k = (-1, d, e, k') \<Longrightarrow> k_rcv k \<noteq> [] \<Longrightarrow> length (k_rcv k') < length (k_rcv k)"
  by (cases "k_rcv k") (auto simp: sys_recv_def split: rcv_answer.splits)

lemma sys_recv_empty: "sys_recv asize k = (r, d, e, k') \<Longrightarrow> k_rcv k = [] \<Longrightarrow> r = -1 \<and> e = EWOULDBLOCK"
  by (auto simp: sys_recv_def)

text \<open>recv(): the bytes stored in \<open>buffer_o\<close> (the result is their number) and \<open>ec_o\<close>.\<close>

function std_recv_loop :: "u32 \<Rightarrow> kernel \<Rightarrow> (bytes \<times> int \<times> kernel) option" where
  "std_recv_loop asize k =
     (let (r, d, ec, k') = sys_recv (unat asize) k in
      if r > 0 then Some (d, OK, k')
      else if r = 0 then Some ([], E_SOCKET_GRACE_CLOSE, k')
      else do {
        wawo_assert (r = -1);
        if IS_ERRNO_EQUAL_WOULDBLOCK ec then Some ([], E_SOCKET_RECV_BLOCK, k')
        else if ec = EINTR then std_recv_loop asize k'
        else do { wawo_assert (ec \<noteq> OK); Some ([], WAWO_NEGATIVE ec, k') } })"
  by pat_completeness auto

termination
proof (relation "measure (\<lambda>(asize, k). length (k_rcv k))", goal_cases)
  case (2 asize k x r y d z ec k' u)
  then have s: "sys_recv (unat asize) k = (-1, d, ec, k')" by simp
  then have "k_rcv k \<noteq> []" using sys_recv_empty [OF s] 2 by (auto simp: EINTR_def EWOULDBLOCK_def)
  with sys_recv_consumes [OF s] show ?case by simp
qed auto

declare std_recv_loop.simps [simp del]

definition std_recv :: "u32 \<Rightarrow> kernel \<Rightarrow> (bytes \<times> int \<times> kernel) option" where
  "std_recv asize k = do { wawo_assert (asize > 0); std_recv_loop asize k }"

lemma sys_sendto_consumes: "sys_sendto buf ip port k = (r, e, k') \<Longrightarrow> k_snd k \<noteq> [] \<Longrightarrow> length (k_snd k') < length (k_snd k)"
  by (cases "k_snd k") (auto simp: sys_sendto_def split: snd_answer.splits)

lemma sys_sendto_empty: "sys_sendto buf ip port k = (r, e, k') \<Longrightarrow> k_snd k = [] \<Longrightarrow> r = -1 \<and> e = EWOULDBLOCK"
  by (auto simp: sys_sendto_def)

function std_sendto_loop :: "bytes \<Rightarrow> u32 \<Rightarrow> u16 \<Rightarrow> kernel \<Rightarrow> (u32 \<times> int \<times> kernel) option" where
  "std_sendto_loop buff ip port k =
     (let (sent, send_ec, k') = sys_sendto buff ip port k in
      if sent > 0 then do {
        wawo_assert ((of_int sent :: u32) = of_nat (length buff));
        Some (of_int sent, OK, k') }
      else do {
        wawo_assert (sent = -1);
        if IS_ERRNO_EQUAL_WOULDBLOCK send_ec then Some (0, E_SOCKET_SEND_BLOCK, k')
        else if send_ec = EINTR then std_sendto_loop buff ip port k'
        else Some (0, WAWO_NEGATIVE send_ec, k') })"
  by pat_completeness auto

termination
proof (relation "measure (\<lambda>(buff, ip, port, k). length (k_snd k))", goal_cases)
  case (2 buff ip port k x sent y ec k' u)
  then have s: "sys_sendto buff ip port k = (sent, ec, k')" by simp
  then have "k_snd k \<noteq> []" using sys_sendto_empty [OF s] 2 by (auto simp: EINTR_def EWOULDBLOCK_def)
  with sys_sendto_consumes [OF s] show ?case by simp
qed auto

declare std_sendto_loop.simps [simp del]

text \<open>The address of the datagram: \<open>sin_addr\<close> takes the low 32 bits of the stored IP.\<close>

definition std_sendto :: "bytes \<Rightarrow> address \<Rightarrow> kernel \<Rightarrow> (u32 \<times> int \<times> kernel) option" where
  "std_sendto buff addr k =
     do { wawo_assert (of_nat (length buff) > (0 :: u32));
          wawo_assert (get_netsequence_ulongip addr \<noteq> 0);
          std_sendto_loop buff (ucast (get_netsequence_ulongip addr)) (get_netsequence_port addr) k }"

lemma sys_recvfrom_consumes: "sys_recvfrom asize k = (r, d, ip, port, e, k') \<Longrightarrow> k_dgram k \<noteq> [] \<Longrightarrow> length (k_dgram k') < length (k_dgram k)"
  by (cases "k_dgram k") (auto simp: sys_recvfrom_def split: dgram_answer.splits)

lemma sys_recvfrom_empty: "sys_recvfrom asize k = (r, d, ip, port, e, k') \<Longrightarrow> k_dgram k = [] \<Longrightarrow> r = -1 \<and> e = EWOULDBLOCK"
  by (auto simp: sys_recvfrom_def)

text \<open>recvfrom(): the bytes, the address stored in \<open>addr_o\<close> and \<open>ec_o\<close>.\<close>

function std_recvfrom :: "u32 \<Rightarrow> address \<Rightarrow> kernel \<Rightarrow> (bytes \<times> address \<times> int \<times> kernel) option" where
  "std_recvfrom asize addr_o k =
     (let (nbytes, d, ip, port, ern, k') = sys_recvfrom (unat asize) k in
      if nbytes > 0 then Some (d, set_netsequence_ulongip (set_netsequence_port addr_o port) (ucast ip), OK, k')
      else do {
        wawo_assert (nbytes = -1);
        if IS_ERRNO_EQUAL_WOULDBLOCK ern then Some ([], addr_o, E_SOCKET_RECV_BLOCK, k')
        else if ern = EINTR then std_recvfrom asize addr_o k'
        else Some ([], addr_o, WAWO_NEGATIVE ern, k') })"
  by pat_completeness auto

termination
proof (relation "measure (\<lambda>(asize, addr_o, k). length (k_dgram k))", goal_cases)
  case (2 asize addr_o k x r y d z ip v port w ec k' u)
  then have s: "sys_recvfrom (unat asize) k = (r, d, ip, port, ec, k')" by simp
  then have "k_dgram k \<noteq> []" using sys_recvfrom_empty [OF s] 2 by (auto simp: EINTR_def EWOULDBLOCK_def)
  with sys_recvfrom_consumes [OF s] show ?case by simp
qed auto

declare std_recvfrom.simps [simp del]

section \<open>What a stream promises\<close>

text \<open>
  The documented behaviour of the calls: send() accepts at least one byte or fails, and errno is a positive number
  below 20000 (constants.h reserves that range for the codes of the system).
\<close>

primrec snd_answer_ok :: "snd_answer \<Rightarrow> bool" where
  "snd_answer_ok (Room n) \<longleftrightarrow> n > 0"
| "snd_answer_ok (SndFail e) \<longleftrightarrow> 0 < e \<and> e < 20000"

primrec rcv_answer_ok :: "rcv_answer \<Rightarrow> bool" where
  "rcv_answer_ok (Data d) \<longleftrightarrow> True"
| "rcv_answer_ok (RcvFail e) \<longleftrightarrow> 0 < e \<and> e < 20000"

definition kernel_ok :: "kernel \<Rightarrow> bool" where
  "kernel_ok k \<longleftrightarrow> list_all snd_answer_ok (k_snd k) \<and> list_all rcv_answer_ok (k_rcv k)"

text \<open>A kernel that reports no error: a write is at most refused for now, and the peer does not close.\<close>

primrec snd_smooth :: "snd_answer \<Rightarrow> bool" where
  "snd_smooth (Room n) \<longleftrightarrow> True"
| "snd_smooth (SndFail e) \<longleftrightarrow> e = EWOULDBLOCK \<or> e = EINTR"

primrec rcv_smooth :: "rcv_answer \<Rightarrow> bool" where
  "rcv_smooth (Data d) \<longleftrightarrow> d \<noteq> []"
| "rcv_smooth (RcvFail e) \<longleftrightarrow> e = EINTR"

definition kernel_smooth :: "kernel \<Rightarrow> bool" where
  "kernel_smooth k \<longleftrightarrow> list_all snd_smooth (k_snd k) \<and> list_all rcv_smooth (k_rcv k)"

text \<open>The bytes that have arrived and have not been read.\<close>

primrec answer_bytes :: "rcv_answer \<Rightarrow> bytes" where
  "answer_bytes (Data d) = d"
| "answer_bytes (RcvFail e) = []"

definition k_pending :: "kernel \<Rightarrow> bytes" where
  "k_pending k = concat (map answer_bytes (k_rcv k))"

definition errno_code :: "int \<Rightarrow> bool" where
  "errno_code ec \<longleftrightarrow> -20000 < ec \<and> ec < 0"

lemma sys_send_cases:
  assumes "kernel_ok k" "buf \<noteq> []"
  obtains (block) "sys_send buf k = (-1, EWOULDBLOCK, k)"
  | (room) m as where "sys_send buf k = (int m, 0, k\<lparr> k_snd := as, k_out := k_out k @ take m buf \<rparr>)" "0 < m" "m \<le> length buf"
      "kernel_ok (k\<lparr> k_snd := as, k_out := k_out k @ take m buf \<rparr>)"
      "kernel_smooth k \<longrightarrow> kernel_smooth (k\<lparr> k_snd := as, k_out := k_out k @ take m buf \<rparr>)"
  | (fail) e as where "sys_send buf k = (-1, e, k\<lparr> k_snd := as \<rparr>)" "0 < e" "e < 20000" "kernel_ok (k\<lparr> k_snd := as \<rparr>)"
      "kernel_smooth k \<longrightarrow> kernel_smooth (k\<lparr> k_snd := as \<rparr>) \<and> (e = EWOULDBLOCK \<or> e = EINTR)"
proof (cases "k_snd k")
  case Nil
  then show ?thesis using block by (simp add: sys_send_def)
next
  case (Cons a as)
  show ?thesis
  proof (cases a)
    case (Room n)
    have "take n buf = take (min n (length buf)) buf" by (simp add: min_def)
    then show ?thesis using room [of "min n (length buf)" as] assms Cons Room by (auto simp: sys_send_def kernel_ok_def kernel_smooth_def)
  next
    case (SndFail e)
    then show ?thesis using fail [of e as] assms Cons by (auto simp: sys_send_def kernel_ok_def kernel_smooth_def)
  qed
qed

text \<open>The outcome of a call of send() that had written \<open>st\<close> bytes of the buffer before.\<close>

definition kernel_sent_ok :: "bytes \<Rightarrow> nat \<Rightarrow> kernel \<Rightarrow> (u32 \<times> int \<times> kernel) option \<Rightarrow> bool" where
  "kernel_sent_ok buffer st k r \<longleftrightarrow>
     (\<exists>n ec k'. r = Some (n, ec, k') \<and> st \<le> unat n \<and> unat n \<le> length buffer \<and>
        k_out k' = k_out k @ take (unat n - st) (drop st buffer) \<and> kernel_ok k' \<and> k_rcv k' = k_rcv k \<and>
        (kernel_smooth k \<longrightarrow> kernel_smooth k') \<and>
        (if unat n = length buffer then ec = OK else ec = E_SOCKET_SEND_BLOCK \<or> errno_code ec \<and> \<not> kernel_smooth k))"

lemma kernel_sent_ok_again:
  assumes "kernel_sent_ok buffer (st + m) (k\<lparr> k_snd := as, k_out := k_out k @ take m (drop st buffer) \<rparr>) r" "st + m \<le> length buffer"
    "kernel_smooth k \<longrightarrow> kernel_smooth (k\<lparr> k_snd := as, k_out := k_out k @ take m (drop st buffer) \<rparr>)"
  shows "kernel_sent_ok buffer st k r"
proof -
  obtain n ec k' where n: "r = Some (n, ec, k')" "st + m \<le> unat n" "unat n \<le> length buffer"
    "k_out k' = k_out k @ take m (drop st buffer) @ take (unat n - (st + m)) (drop (st + m) buffer)" "kernel_ok k'" "k_rcv k' = k_rcv k"
    "kernel_smooth k \<longrightarrow> kernel_smooth k'"
    "if unat n = length buffer then ec = OK else ec = E_SOCKET_SEND_BLOCK \<or> errno_code ec \<and> \<not> kernel_smooth k"
    using assms(1,3) by (auto simp: kernel_sent_ok_def split: if_splits)
  have "take m (drop st buffer) @ take (unat n - (st + m)) (drop (st + m) buffer) = take (unat n - st) (drop st buffer)"
    using take_take_drop [of m "drop st buffer" "unat n - (st + m)"] n(2) by (simp add: add.commute)
  then show ?thesis using n by (auto simp: kernel_sent_ok_def)
qed

lemma kernel_sent_ok_retry:
  assumes "kernel_sent_ok buffer st (k\<lparr> k_snd := as \<rparr>) r" "kernel_smooth k \<longrightarrow> kernel_smooth (k\<lparr> k_snd := as \<rparr>)"
  shows "kernel_sent_ok buffer st k r"
  using assms by (fastforce simp: kernel_sent_ok_def split: if_splits)

lemma std_send_loop_ok:
  assumes "kernel_ok k" "unat st < length buffer" "length buffer < 4294967296"
  shows "kernel_sent_ok buffer (unat st) k (std_send_loop buffer st k)"
  using assms
proof (induction buffer st k rule: std_send_loop.induct)
  case (1 buffer st k)
  let ?rest = "drop (unat st) buffer"
  have "?rest \<noteq> []" using 1(4) by simp
  with 1(3) show ?case
  proof (cases rule: sys_send_cases)
    case block
    then show ?thesis using 1(3-)
      by (simp add: std_send_loop.simps [of buffer] IS_ERRNO_EQUAL_WOULDBLOCK_def kernel_sent_ok_def)
  next
    case (room m as)
    let ?st = "st + of_nat m" and ?k = "k\<lparr> k_snd := as, k_out := k_out k @ take m ?rest \<rparr>"
    have m: "unat st + m \<le> length buffer" using room(3) 1(4) by simp
    then have st: "unat ?st = unat st + m"
      using 1(5) by (subst unat_add_nowrap) (auto simp: unat_of_nat_nowrap)
    have last: "?st = of_nat (length buffer) \<longleftrightarrow> unat st + m = length buffer"
      using st 1(5) by (simp add: word_eq_unat unat_of_nat_nowrap)
    show ?thesis
    proof (cases "unat st + m = length buffer")
      case True
      then have "std_send_loop buffer st k = Some (?st, OK, ?k)"
        using room(1,2) last by (simp add: std_send_loop.simps [of buffer])
      then show ?thesis using room(4,5) True st by (simp add: kernel_sent_ok_def)
    next
      case False
      have "kernel_sent_ok buffer (unat ?st) ?k (std_send_loop buffer ?st ?k)"
        using 1(1) [of "(int m, 0, ?k)" "int m" "(0, ?k)" 0 ?k "?st"] room(1,2,4) False last m st 1(5) by simp
      then have "kernel_sent_ok buffer (unat st) k (std_send_loop buffer ?st ?k)" unfolding st using m room(5) by (rule kernel_sent_ok_again)
      then show ?thesis using room(1,2) last False by (simp add: std_send_loop.simps [of buffer st])
    qed
  next
    case (fail e as)
    let ?k = "k\<lparr> k_snd := as \<rparr>"
    show ?thesis
    proof (cases "e = EINTR")
      case True
      then have "kernel_sent_ok buffer (unat st) ?k (std_send_loop buffer st ?k)"
        using 1(2) [of "(-1, e, ?k)" "-1" "(e, ?k)" e ?k "()"] fail 1(4,5)
        by (simp add: IS_ERRNO_EQUAL_WOULDBLOCK_def EINTR_def EWOULDBLOCK_def)
      then have "kernel_sent_ok buffer (unat st) k (std_send_loop buffer st ?k)" by (rule kernel_sent_ok_retry) (use fail in auto)
      then show ?thesis using fail(1) True
        by (simp add: std_send_loop.simps [of buffer st k] IS_ERRNO_EQUAL_WOULDBLOCK_def EINTR_def EWOULDBLOCK_def)
    next
      case False
      then show ?thesis using fail 1(4)
        by (auto simp: std_send_loop.simps [of buffer st k] IS_ERRNO_EQUAL_WOULDBLOCK_def kernel_sent_ok_def errno_code_def WAWO_NEGATIVE_def)
    qed
  qed
qed

lemma std_send_ok:
  assumes "kernel_ok k" "buffer \<noteq> []" "length buffer < 4294967296"
  obtains n ec k' where "std_send buffer k = Some (n, ec, k')" "unat n \<le> length buffer"
    "k_out k' = k_out k @ take (unat n) buffer" "kernel_ok k'" "k_rcv k' = k_rcv k"
    "kernel_smooth k \<longrightarrow> kernel_smooth k'"
    "if unat n = length buffer then ec = OK else ec = E_SOCKET_SEND_BLOCK \<or> errno_code ec \<and> \<not> kernel_smooth k"
proof -
  have "(of_nat (length buffer) :: u32) > 0" using assms(2,3) by (simp add: word_less_unat unat_of_nat_nowrap)
  then show ?thesis using std_send_loop_ok [OF assms(1), of 0 buffer] assms(2,3) that by (auto simp: std_send_def kernel_sent_ok_def)
qed

text \<open>recv(): the bytes come from the front of what has arrived.\<close>

definition received_ok :: "u32 \<Rightarrow> kernel \<Rightarrow> (bytes \<times> int \<times> kernel) option \<Rightarrow> bool" where
  "received_ok asize k r \<longleftrightarrow>
     (\<exists>d ec k'. r = Some (d, ec, k') \<and> length d \<le> unat asize \<and> d @ k_pending k' = k_pending k \<and> kernel_ok k' \<and>
        k_out k' = k_out k \<and> (kernel_smooth k \<longrightarrow> kernel_smooth k') \<and>
        (if d \<noteq> [] then ec = OK
         else ec = E_SOCKET_RECV_BLOCK \<and> (kernel_smooth k \<longrightarrow> k_pending k = []) \<or>
              (ec = E_SOCKET_GRACE_CLOSE \<or> errno_code ec) \<and> \<not> kernel_smooth k))"

lemma sys_recv_cases:
  assumes "kernel_ok k" "asize > 0"
  obtains (block) "sys_recv asize k = (-1, [], EWOULDBLOCK, k)" "k_pending k = []"
  | (data) d k' where "sys_recv asize k = (int (length d), d, 0, k')" "length d \<le> asize" "d @ k_pending k' = k_pending k"
      "kernel_ok k'" "k_out k' = k_out k" "kernel_smooth k \<longrightarrow> kernel_smooth k' \<and> d \<noteq> []"
  | (fail) e as where "sys_recv asize k = (-1, [], e, k\<lparr> k_rcv := as \<rparr>)" "0 < e" "e < 20000" "kernel_ok (k\<lparr> k_rcv := as \<rparr>)"
      "k_pending (k\<lparr> k_rcv := as \<rparr>) = k_pending k" "kernel_smooth k \<longrightarrow> kernel_smooth (k\<lparr> k_rcv := as \<rparr>) \<and> e = EINTR"
proof (cases "k_rcv k")
  case Nil
  then show ?thesis using block by (simp add: sys_recv_def k_pending_def)
next
  case (Cons a as)
  show ?thesis
  proof (cases a)
    case (Data d)
    then show ?thesis
      using data [of "take asize d" "k\<lparr> k_rcv := (if asize < length d then Data (drop asize d) # as else as) \<rparr>"] assms Cons
      by (auto simp: sys_recv_def kernel_ok_def kernel_smooth_def k_pending_def min_def)
  next
    case (RcvFail e)
    then show ?thesis using fail [of e as] assms Cons by (auto simp: sys_recv_def kernel_ok_def kernel_smooth_def k_pending_def)
  qed
qed

lemma received_ok_retry:
  assumes "received_ok asize (k\<lparr> k_rcv := as \<rparr>) r" "kernel_smooth k \<longrightarrow> kernel_smooth (k\<lparr> k_rcv := as \<rparr>)"
    "k_pending (k\<lparr> k_rcv := as \<rparr>) = k_pending k"
  shows "received_ok asize k r"
  using assms by (fastforce simp: received_ok_def split: if_splits)

lemma std_recv_loop_ok:
  assumes "kernel_ok k" "0 < asize"
  shows "received_ok asize k (std_recv_loop asize k)"
  using assms
proof (induction asize k rule: std_recv_loop.induct)
  case (1 asize k)
  have "0 < unat asize" using 1(3) by (simp add: unat_gt_0)
  with 1(2) show ?case
  proof (cases rule: sys_recv_cases)
    case block
    then show ?thesis using 1(2)
      by (simp add: std_recv_loop.simps [of asize] IS_ERRNO_EQUAL_WOULDBLOCK_def received_ok_def)
  next
    case (data d k')
    then show ?thesis by (cases d) (auto simp: std_recv_loop.simps [of asize] received_ok_def)
  next
    case (fail e as)
    let ?k = "k\<lparr> k_rcv := as \<rparr>"
    show ?thesis
    proof (cases "e = EINTR")
      case True
      then have "received_ok asize ?k (std_recv_loop asize ?k)"
        using 1(1) [of "(-1, [], e, ?k)" "-1" "([], e, ?k)" "[]" "(e, ?k)" e ?k "()"] fail 1(3)
        by (simp add: IS_ERRNO_EQUAL_WOULDBLOCK_def EINTR_def EWOULDBLOCK_def)
      then have "received_ok asize k (std_recv_loop asize ?k)" by (rule received_ok_retry) (use fail in auto)
      then show ?thesis using fail True
        by (simp add: std_recv_loop.simps [of asize k] IS_ERRNO_EQUAL_WOULDBLOCK_def EINTR_def EWOULDBLOCK_def)
    next
      case False
      then show ?thesis using fail 
        by (auto simp: std_recv_loop.simps [of asize k] IS_ERRNO_EQUAL_WOULDBLOCK_def received_ok_def errno_code_def WAWO_NEGATIVE_def OK_def)
    qed
  qed
qed

lemma std_recv_ok:
  assumes "kernel_ok k" "0 < asize"
  obtains d ec k' where "std_recv asize k = Some (d, ec, k')" "length d \<le> unat asize" "d @ k_pending k' = k_pending k" "kernel_ok k'"
    "k_out k' = k_out k" "kernel_smooth k \<longrightarrow> kernel_smooth k'"
    "if d \<noteq> [] then ec = OK
     else ec = E_SOCKET_RECV_BLOCK \<and> (kernel_smooth k \<longrightarrow> k_pending k = []) \<or> (ec = E_SOCKET_GRACE_CLOSE \<or> errno_code ec) \<and> \<not> kernel_smooth k"
  using std_recv_loop_ok [OF assms] assms(2) that by (auto simp: std_recv_def received_ok_def)

end
