(* ===== verification/Packet.thy ===== *)
theory Packet
  imports Bytes_Helper
begin

text \<open>
  include/wawo/packet.hpp: the byte buffer that is writeable at both ends and in which every
  protocol layer builds and takes apart its messages. The record has the members of the class; the
  block is a list of bytes whose unwritten part is unspecified (\<open>junk\<close>), realloc keeps the old
  bytes and adds unspecified ones. The extension loops are functions with termination proofs:
  each round raises a capacity that PACK_MAX_LEFT_CAPACITY or PACK_MAX_RIGHT_CAPACITY bounds. The lemmas
  show that a packet is the list of its unread bytes.
\<close>

section \<open>State and construction\<close>

definition PACK_MIN_LEFT_CAPACITY :: u32 where "PACK_MIN_LEFT_CAPACITY = 128"
definition PACK_MAX_LEFT_CAPACITY :: u32 where "PACK_MAX_LEFT_CAPACITY = 1024 * 1024 * 16"
definition PACK_MIN_RIGHT_CAPACITY :: u32 where "PACK_MIN_RIGHT_CAPACITY = 256"
definition PACK_MAX_RIGHT_CAPACITY :: u32 where "PACK_MAX_RIGHT_CAPACITY = 1024 * 1024 * 16"
definition PACK_MALLOC_H_RESERVER :: u32 where "PACK_MALLOC_H_RESERVER = 128"
definition PACK_INIT_LEFT_CAPACITY :: u32 where "PACK_INIT_LEFT_CAPACITY = PACK_MIN_LEFT_CAPACITY"
definition PACK_INIT_RIGHT_CAPACITY :: u32
  where "PACK_INIT_RIGHT_CAPACITY = 1024 * 4 - PACK_MIN_LEFT_CAPACITY - PACK_MALLOC_H_RESERVER"
definition PACK_INCREMENT_LEFT_SIZE :: u32
  where "PACK_INCREMENT_LEFT_SIZE = 1024 * 8 - PACK_MALLOC_H_RESERVER"
definition PACK_INCREMENT_RIGHT_SIZE :: u32
  where "PACK_INCREMENT_RIGHT_SIZE = 1024 * 8 - PACK_MALLOC_H_RESERVER"

lemmas PACK_defs = PACK_MIN_LEFT_CAPACITY_def PACK_MAX_LEFT_CAPACITY_def PACK_MIN_RIGHT_CAPACITY_def
  PACK_MAX_RIGHT_CAPACITY_def PACK_MALLOC_H_RESERVER_def PACK_INIT_LEFT_CAPACITY_def
  PACK_INIT_RIGHT_CAPACITY_def PACK_INCREMENT_LEFT_SIZE_def PACK_INCREMENT_RIGHT_SIZE_def

record packet =
  pk_m_buffer :: bytes
  pk_m_left_capacity :: u32
  pk_m_read_idx :: u32
  pk_m_right_capacity :: u32
  pk_m_write_idx :: u32

definition pk_capacity :: "packet \<Rightarrow> u32" where
  "pk_capacity p = pk_m_left_capacity p + pk_m_right_capacity p"

definition pk_reset :: "packet \<Rightarrow> packet option" where
  "pk_reset p =
     do { wawo_assert (pk_m_left_capacity p > 0);
          wawo_assert (pk_m_left_capacity p < PACK_MAX_LEFT_CAPACITY);
          Some (p\<lparr> pk_m_read_idx := pk_m_left_capacity p, pk_m_write_idx := pk_m_left_capacity p \<rparr>) }"

definition pk_init_buffer :: "(nat \<Rightarrow> byte) \<Rightarrow> packet \<Rightarrow> u32 \<Rightarrow> u32 \<Rightarrow> packet option" where
  "pk_init_buffer junk p left right =
     do { let p = p\<lparr> pk_m_left_capacity := WAWO_MAX left PACK_MIN_LEFT_CAPACITY,
                     pk_m_right_capacity := WAWO_MAX right PACK_MIN_RIGHT_CAPACITY \<rparr>;
          p \<leftarrow> pk_reset p;
          wawo_condition_check (pk_m_left_capacity p \<le> PACK_MAX_LEFT_CAPACITY);
          wawo_condition_check (pk_m_right_capacity p \<le> PACK_MAX_RIGHT_CAPACITY);
          wawo_condition_check (pk_capacity p \<noteq> 0);
          Some (p\<lparr> pk_m_buffer := fresh_mem junk (unat (pk_capacity p)) \<rparr>) }"

definition packet_new :: "(nat \<Rightarrow> byte) \<Rightarrow> u32 \<Rightarrow> u32 \<Rightarrow> packet option" where
  "packet_new junk right_capacity left_capacity =
     pk_init_buffer junk
       \<lparr> pk_m_buffer = [], pk_m_left_capacity = left_capacity, pk_m_read_idx = 0,
         pk_m_right_capacity = right_capacity, pk_m_write_idx = 0 \<rparr> left_capacity right_capacity"

definition packet_default :: "(nat \<Rightarrow> byte) \<Rightarrow> packet option" where
  "packet_default junk = packet_new junk PACK_INIT_RIGHT_CAPACITY PACK_INIT_LEFT_CAPACITY"

section \<open>Operations\<close>

definition pk_left_left_capacity :: "packet \<Rightarrow> u32" where
  "pk_left_left_capacity p = pk_m_read_idx p"

definition pk_left_right_capacity :: "packet \<Rightarrow> u32" where
  "pk_left_right_capacity p = pk_capacity p - pk_m_write_idx p"

definition pk_len :: "packet \<Rightarrow> u32 option" where
  "pk_len p =
     do { wawo_assert (pk_m_write_idx p \<ge> pk_m_read_idx p);
          Some (pk_m_write_idx p - pk_m_read_idx p) }"

text \<open>realloc keeps the old contents; the bytes above them are unspecified.\<close>

definition realloc :: "(nat \<Rightarrow> byte) \<Rightarrow> bytes \<Rightarrow> nat \<Rightarrow> bytes" where
  "realloc junk m n = take n m @ map junk [length m..<n]"

definition pk_extend_leftbuffer_capacity :: "(nat \<Rightarrow> byte) \<Rightarrow> packet \<Rightarrow> packet option" where
  "pk_extend_leftbuffer_capacity junk p =
     do { wawo_condition_check (pk_m_left_capacity p + PACK_INCREMENT_LEFT_SIZE \<le> PACK_MAX_LEFT_CAPACITY);
          let p = p\<lparr> pk_m_left_capacity := pk_m_left_capacity p + PACK_INCREMENT_LEFT_SIZE \<rparr>;
          let p = p\<lparr> pk_m_buffer := realloc junk (pk_m_buffer p) (unat (pk_capacity p)) \<rparr>;
          len \<leftarrow> pk_len p;
          let new_left = pk_m_read_idx p + PACK_INCREMENT_LEFT_SIZE;
          if new_left \<noteq> pk_m_read_idx p \<and> len > 0 then do {
            d \<leftarrow> mem_read (pk_m_buffer p) (unat (pk_m_read_idx p)) (unat len);
            buf \<leftarrow> mem_write (pk_m_buffer p) (unat new_left) d;
            Some (p\<lparr> pk_m_buffer := buf,
                     pk_m_write_idx := pk_m_write_idx p + PACK_INCREMENT_LEFT_SIZE,
                     pk_m_read_idx := new_left \<rparr>) }
          else Some p }"

definition pk_extend_rightbuffer_capacity :: "(nat \<Rightarrow> byte) \<Rightarrow> packet \<Rightarrow> packet option" where
  "pk_extend_rightbuffer_capacity junk p =
     do { wawo_condition_check (pk_m_right_capacity p \<noteq> 0);
          wawo_condition_check (pk_m_right_capacity p + PACK_INCREMENT_RIGHT_SIZE \<le> PACK_MAX_RIGHT_CAPACITY);
          let p = p\<lparr> pk_m_right_capacity := pk_m_right_capacity p + PACK_INCREMENT_RIGHT_SIZE \<rparr>;
          Some (p\<lparr> pk_m_buffer := realloc junk (pk_m_buffer p) (unat (pk_capacity p)) \<rparr>) }"

text \<open>
  The rounds of an extension loop: the capacity after a successful check is at most the
  maximum, and below the maximum it grows.
\<close>

definition extension_measure :: "u32 \<Rightarrow> u32 \<Rightarrow> nat" where
  "extension_measure mx c = (if c > mx then 2 ^ 32 else unat mx - unat c)"

lemma extension_measure_less:
  assumes "c + inc \<le> mx" "0 < inc" "unat mx + unat inc < 2 ^ 32"
  shows "extension_measure mx (c + inc) < extension_measure mx c"
proof (cases "c > mx")
  case True
  have "unat mx - unat (c + inc) < 2 ^ 32" using unsigned_less [of mx] by (simp add: less_imp_diff_less)
  then show ?thesis using True assms by (simp add: extension_measure_def not_less [symmetric])
next
  case False
  then have "unat (c + inc) = unat c + unat inc"
    using assms by (intro unat_add_nowrap) (simp add: word_to_nat not_less)
  then show ?thesis
    using False assms by (auto simp: extension_measure_def word_to_nat)
qed

lemma pk_extend_left_measure:
  assumes "pk_extend_leftbuffer_capacity junk p = Some p'"
  shows "extension_measure PACK_MAX_LEFT_CAPACITY (pk_m_left_capacity p')
    < extension_measure PACK_MAX_LEFT_CAPACITY (pk_m_left_capacity p)"
proof -
  have "pk_m_left_capacity p + PACK_INCREMENT_LEFT_SIZE \<le> PACK_MAX_LEFT_CAPACITY"
    "pk_m_left_capacity p' = pk_m_left_capacity p + PACK_INCREMENT_LEFT_SIZE"
    using assms
    by (auto simp: pk_extend_leftbuffer_capacity_def Let_def bind_eq_Some_conv split: if_splits)
  then show ?thesis
    by (simp add: extension_measure_less PACK_defs)
qed

lemma pk_extend_right_measure:
  assumes "pk_extend_rightbuffer_capacity junk p = Some p'"
  shows "extension_measure PACK_MAX_RIGHT_CAPACITY (pk_m_right_capacity p')
    < extension_measure PACK_MAX_RIGHT_CAPACITY (pk_m_right_capacity p)"
proof -
  have "pk_m_right_capacity p + PACK_INCREMENT_RIGHT_SIZE \<le> PACK_MAX_RIGHT_CAPACITY"
    "pk_m_right_capacity p' = pk_m_right_capacity p + PACK_INCREMENT_RIGHT_SIZE"
    using assms
    by (auto simp: pk_extend_rightbuffer_capacity_def Let_def bind_eq_Some_conv split: if_splits)
  then show ?thesis
    by (simp add: extension_measure_less PACK_defs)
qed

text \<open>The loops \<open>while (length > left_left_capacity()) _extend_leftbuffer_capacity__()\<close> and the one on the right.\<close>

function pk_reserve_left :: "(nat \<Rightarrow> byte) \<Rightarrow> u32 \<Rightarrow> packet \<Rightarrow> packet option" where
  "pk_reserve_left junk n p =
     (if n > pk_left_left_capacity p
      then case pk_extend_leftbuffer_capacity junk p of
             None \<Rightarrow> None
           | Some p' \<Rightarrow> pk_reserve_left junk n p'
      else Some p)"
  by pat_completeness auto

termination pk_reserve_left
  by (relation "measure (\<lambda>(junk, n, p). extension_measure PACK_MAX_LEFT_CAPACITY (pk_m_left_capacity p))")
    (simp_all add: pk_extend_left_measure)

function pk_reserve_right :: "(nat \<Rightarrow> byte) \<Rightarrow> u32 \<Rightarrow> packet \<Rightarrow> packet option" where
  "pk_reserve_right junk n p =
     (if n > pk_left_right_capacity p
      then case pk_extend_rightbuffer_capacity junk p of
             None \<Rightarrow> None
           | Some p' \<Rightarrow> pk_reserve_right junk n p'
      else Some p)"
  by pat_completeness auto

termination pk_reserve_right
  by (relation "measure (\<lambda>(junk, n, p). extension_measure PACK_MAX_RIGHT_CAPACITY (pk_m_right_capacity p))")
    (simp_all add: pk_extend_right_measure)

declare pk_reserve_left.simps [simp del]
declare pk_reserve_right.simps [simp del]

definition pk_write_left :: "(nat \<Rightarrow> byte) \<Rightarrow> packet \<Rightarrow> bytes \<Rightarrow> u32 \<Rightarrow> packet option" where
  "pk_write_left junk p buffer n =
     do { p \<leftarrow> pk_reserve_left junk n p;
          let p = p\<lparr> pk_m_read_idx := pk_m_read_idx p - n \<rparr>;
          d \<leftarrow> mem_read buffer 0 (unat n);
          buf \<leftarrow> mem_write (pk_m_buffer p) (unat (pk_m_read_idx p)) d;
          Some (p\<lparr> pk_m_buffer := buf \<rparr>) }"

definition pk_write_left_T :: "(nat \<Rightarrow> byte) \<Rightarrow> packet \<Rightarrow> ('a::len) word \<Rightarrow> packet option" where
  "pk_write_left_T junk p t =
     do { let to_write_length = of_nat (sizeof TYPE('a));
          p \<leftarrow> pk_reserve_left junk to_write_length p;
          let p = p\<lparr> pk_m_read_idx := pk_m_read_idx p - to_write_length \<rparr>;
          buf \<leftarrow> mem_write (pk_m_buffer p) (unat (pk_m_read_idx p)) (write_impl t);
          Some (p\<lparr> pk_m_buffer := buf \<rparr>) }"

definition pk_write :: "(nat \<Rightarrow> byte) \<Rightarrow> packet \<Rightarrow> bytes \<Rightarrow> u32 \<Rightarrow> packet option" where
  "pk_write junk p buffer n =
     do { p \<leftarrow> pk_reserve_right junk n p;
          d \<leftarrow> mem_read buffer 0 (unat n);
          buf \<leftarrow> mem_write (pk_m_buffer p) (unat (pk_m_write_idx p)) d;
          Some (p\<lparr> pk_m_buffer := buf, pk_m_write_idx := pk_m_write_idx p + n \<rparr>) }"

definition pk_write_T :: "(nat \<Rightarrow> byte) \<Rightarrow> packet \<Rightarrow> ('a::len) word \<Rightarrow> packet option" where
  "pk_write_T junk p t =
     do { let to_write_length = of_nat (sizeof TYPE('a));
          p \<leftarrow> pk_reserve_right junk to_write_length p;
          buf \<leftarrow> mem_write (pk_m_buffer p) (unat (pk_m_write_idx p)) (write_impl t);
          Some (p\<lparr> pk_m_buffer := buf, pk_m_write_idx := pk_m_write_idx p + to_write_length \<rparr>) }"

definition pk_forward_write_index :: "packet \<Rightarrow> u32 \<Rightarrow> packet option" where
  "pk_forward_write_index p n =
     do { wawo_condition_check (pk_capacity p - pk_m_write_idx p \<ge> n);
          Some (p\<lparr> pk_m_write_idx := pk_m_write_idx p + n \<rparr>) }"

definition pk_read_T :: "packet \<Rightarrow> (('a::len) word \<times> packet) option" where
  "pk_read_T p =
     do { len \<leftarrow> pk_len p;
          wawo_assert (of_nat (sizeof TYPE('a)) \<le> len);
          d \<leftarrow> mem_read (pk_m_buffer p) (unat (pk_m_read_idx p)) (sizeof TYPE('a));
          t \<leftarrow> read_impl d;
          Some (t, p\<lparr> pk_m_read_idx := pk_m_read_idx p + of_nat (sizeof TYPE('a)) \<rparr>) }"

definition pk_read :: "packet \<Rightarrow> u32 \<Rightarrow> (bytes \<times> packet) option" where
  "pk_read p n =
     do { len \<leftarrow> pk_len p;
          wawo_assert (n \<le> len \<and> n > 0);
          d \<leftarrow> mem_read (pk_m_buffer p) (unat (pk_m_read_idx p)) (unat n);
          Some (d, p\<lparr> pk_m_read_idx := pk_m_read_idx p + n \<rparr>) }"

definition pk_skip :: "packet \<Rightarrow> u32 \<Rightarrow> packet option" where
  "pk_skip p n =
     do { len \<leftarrow> pk_len p;
          wawo_assert (n \<le> len);
          Some (p\<lparr> pk_m_read_idx := pk_m_read_idx p + n \<rparr>) }"

definition pk_peek_T :: "packet \<Rightarrow> ('a::len) word option" where
  "pk_peek_T p =
     do { len \<leftarrow> pk_len p;
          wawo_assert (of_nat (sizeof TYPE('a)) \<le> len);
          d \<leftarrow> mem_read (pk_m_buffer p) (unat (pk_m_read_idx p)) (sizeof TYPE('a));
          read_impl d }"

definition pk_peek :: "packet \<Rightarrow> u32 \<Rightarrow> bytes option" where
  "pk_peek p n =
     do { len \<leftarrow> pk_len p;
          mem_read (pk_m_buffer p) (unat (pk_m_read_idx p)) (unat (if n \<ge> len then len else n)) }"

text \<open>The copy constructor: a second block with the same bytes. Assignment is copy and swap.\<close>

definition packet_copy :: "packet \<Rightarrow> packet option" where
  "packet_copy c =
     do { buf \<leftarrow> mem_read (pk_m_buffer c) 0 (unat (pk_capacity c));
          Some \<lparr> pk_m_buffer = buf, pk_m_left_capacity = pk_m_left_capacity c,
                 pk_m_read_idx = pk_m_read_idx c, pk_m_right_capacity = pk_m_right_capacity c,
                 pk_m_write_idx = pk_m_write_idx c \<rparr> }"

definition pk_swap :: "packet \<Rightarrow> packet \<Rightarrow> packet \<times> packet" where
  "pk_swap this other = (other, this)"

section \<open>Invariant and abstraction\<close>

definition pk_inv :: "packet \<Rightarrow> bool" where
  "pk_inv p \<longleftrightarrow>
     0 < pk_m_left_capacity p \<and> pk_m_left_capacity p \<le> PACK_MAX_LEFT_CAPACITY \<and>
     0 < pk_m_right_capacity p \<and> pk_m_right_capacity p \<le> PACK_MAX_RIGHT_CAPACITY \<and>
     pk_m_read_idx p \<le> pk_m_write_idx p \<and> pk_m_write_idx p \<le> pk_capacity p \<and>
     length (pk_m_buffer p) = unat (pk_capacity p)"

text \<open>The unread bytes.\<close>

definition pk_bytes :: "packet \<Rightarrow> bytes" where
  "pk_bytes p = take (unat (pk_m_write_idx p) - unat (pk_m_read_idx p))
                  (drop (unat (pk_m_read_idx p)) (pk_m_buffer p))"

lemma pk_capacity_nowrap:
  "unat (pk_m_left_capacity p) \<le> 16777216 \<Longrightarrow> unat (pk_m_right_capacity p) \<le> 16777216 \<Longrightarrow>
   unat (pk_capacity p) = unat (pk_m_left_capacity p) + unat (pk_m_right_capacity p)"
  unfolding pk_capacity_def by (rule unat_add_nowrap) simp

lemma pk_inv_bounds [bounds]:
  assumes "pk_inv p"
  shows "0 < unat (pk_m_left_capacity p)" "unat (pk_m_left_capacity p) \<le> 16777216"
    "0 < unat (pk_m_right_capacity p)" "unat (pk_m_right_capacity p) \<le> 16777216"
    "unat (pk_m_read_idx p) \<le> unat (pk_m_write_idx p)"
    "unat (pk_m_write_idx p) \<le> unat (pk_m_left_capacity p) + unat (pk_m_right_capacity p)"
    "length (pk_m_buffer p) = unat (pk_m_left_capacity p) + unat (pk_m_right_capacity p)"
    "unat (pk_capacity p) = unat (pk_m_left_capacity p) + unat (pk_m_right_capacity p)"
proof -
  have "unat (pk_m_left_capacity p) \<le> 16777216" "unat (pk_m_right_capacity p) \<le> 16777216"
    using assms by (simp_all add: pk_inv_def word_to_nat PACK_defs)
  with assms pk_capacity_nowrap [OF this] show "0 < unat (pk_m_left_capacity p)"
    "unat (pk_m_left_capacity p) \<le> 16777216"
    "0 < unat (pk_m_right_capacity p)" "unat (pk_m_right_capacity p) \<le> 16777216"
    "unat (pk_m_read_idx p) \<le> unat (pk_m_write_idx p)"
    "unat (pk_m_write_idx p) \<le> unat (pk_m_left_capacity p) + unat (pk_m_right_capacity p)"
    "length (pk_m_buffer p) = unat (pk_m_left_capacity p) + unat (pk_m_right_capacity p)"
    "unat (pk_capacity p) = unat (pk_m_left_capacity p) + unat (pk_m_right_capacity p)"
    by (simp_all add: pk_inv_def word_to_nat)
qed

lemma pk_invI:
  assumes "0 < unat (pk_m_left_capacity p)" "unat (pk_m_left_capacity p) \<le> 16777216"
    "0 < unat (pk_m_right_capacity p)" "unat (pk_m_right_capacity p) \<le> 16777216"
    "unat (pk_m_read_idx p) \<le> unat (pk_m_write_idx p)"
    "unat (pk_m_write_idx p) \<le> unat (pk_m_left_capacity p) + unat (pk_m_right_capacity p)"
    "length (pk_m_buffer p) = unat (pk_m_left_capacity p) + unat (pk_m_right_capacity p)"
  shows "pk_inv p"
  using assms pk_capacity_nowrap [OF assms(2,4)] by (simp add: pk_inv_def word_to_nat PACK_defs)

lemma pk_length:
  "pk_inv p \<Longrightarrow> length (pk_bytes p) = unat (pk_m_write_idx p) - unat (pk_m_read_idx p)"
  using pk_inv_bounds [of p] by (simp add: pk_bytes_def)

lemma pk_len_ok:
  assumes "pk_inv p"
  shows "pk_len p = Some (pk_m_write_idx p - pk_m_read_idx p)"
    "unat (pk_m_write_idx p - pk_m_read_idx p) = length (pk_bytes p)"
  using pk_inv_bounds [OF assms] pk_length [OF assms]
  by (simp_all add: pk_len_def word_to_nat unat_sub_nowrap)

lemma packet_new_ok:
  assumes "left < PACK_MAX_LEFT_CAPACITY" "right \<le> PACK_MAX_RIGHT_CAPACITY"
  obtains p where "packet_new junk right left = Some p" "pk_inv p" "pk_bytes p = []"
    "pk_m_left_capacity p = max left PACK_MIN_LEFT_CAPACITY" "pk_m_read_idx p = pk_m_left_capacity p"
    "pk_m_write_idx p = pk_m_left_capacity p"
    "pk_m_right_capacity p = max right PACK_MIN_RIGHT_CAPACITY"
proof -
  let ?l = "max left PACK_MIN_LEFT_CAPACITY" and ?r = "max right PACK_MIN_RIGHT_CAPACITY"
  let ?p = "\<lparr> pk_m_buffer = fresh_mem junk (unat (?l + ?r)), pk_m_left_capacity = ?l,
    pk_m_read_idx = ?l, pk_m_right_capacity = ?r, pk_m_write_idx = ?l \<rparr>"
  have b: "0 < unat ?l" "unat ?l < 16777216" "0 < unat ?r" "unat ?r \<le> 16777216"
    using assms by (auto simp: max_def word_to_nat PACK_defs)
  then have sum: "unat (?l + ?r) = unat ?l + unat ?r" by (intro unat_add_nowrap) simp
  have "?l + ?r \<noteq> 0" using sum b by (metis add_is_0 less_numeral_extra(3) unat_0)
  then have new: "packet_new junk right left = Some ?p"
    using b by (simp add: packet_new_def pk_init_buffer_def pk_reset_def Let_def word_to_nat
        pk_capacity_def) (simp add: PACK_defs)
  have "pk_inv ?p" using b sum by (intro pk_invI) simp_all
  with new show ?thesis using that [of ?p] by (simp add: pk_bytes_def)
qed

section \<open>Extension\<close>

lemma length_realloc [simp]: "length m \<le> n \<Longrightarrow> length (realloc junk m n) = n"
  by (simp add: realloc_def)

lemma realloc_window:
  "i + k \<le> length m \<Longrightarrow> length m \<le> n \<Longrightarrow> take k (drop i (realloc junk m n)) = take k (drop i m)"
  by (simp add: realloc_def)

lemma PACK_increments [simp]:
  "unat PACK_INCREMENT_LEFT_SIZE = 8064" "unat PACK_INCREMENT_RIGHT_SIZE = 8064"
  "unat PACK_MAX_LEFT_CAPACITY = 16777216" "unat PACK_MAX_RIGHT_CAPACITY = 16777216"
  by (simp_all add: PACK_defs)

lemma pk_extend_left_ok:
  assumes inv: "pk_inv p" and c: "unat (pk_m_left_capacity p) + 8064 \<le> 16777216"
  obtains p' where "pk_extend_leftbuffer_capacity junk p = Some p'" "pk_inv p'"
    "pk_bytes p' = pk_bytes p"
    "unat (pk_m_left_capacity p') = unat (pk_m_left_capacity p) + 8064"
    "pk_m_right_capacity p' = pk_m_right_capacity p"
    "unat (pk_m_read_idx p') = unat (pk_m_read_idx p) + (if pk_bytes p = [] then 0 else 8064)"
    "unat (pk_capacity p') - unat (pk_m_write_idx p') =
       unat (pk_capacity p) - unat (pk_m_write_idx p) + (if pk_bytes p = [] then 8064 else 0)"
proof -
  note b = pk_inv_bounds [OF inv]
  let ?I = PACK_INCREMENT_LEFT_SIZE
  let ?l = "pk_m_left_capacity p + ?I" and ?cap = "pk_m_left_capacity p + ?I + pk_m_right_capacity p"
  have l: "unat ?l = unat (pk_m_left_capacity p) + 8064"
    using c by (subst unat_add_nowrap) simp_all
  have cap: "unat ?cap = unat (pk_m_left_capacity p) + 8064 + unat (pk_m_right_capacity p)"
    using b c l by (subst unat_add_nowrap) simp_all
  let ?m = "realloc junk (pk_m_buffer p) (unat ?cap)"
  let ?p1 = "p\<lparr> pk_m_left_capacity := ?l, pk_m_buffer := ?m \<rparr>"
  let ?len = "pk_m_write_idx p - pk_m_read_idx p"
  have n: "unat ?len = unat (pk_m_write_idx p) - unat (pk_m_read_idx p)"
    using b by (simp add: unat_sub_nowrap)
  have r: "unat (pk_m_read_idx p + ?I) = unat (pk_m_read_idx p) + 8064"
    and w: "unat (pk_m_write_idx p + ?I) = unat (pk_m_write_idx p) + 8064"
    using b by (subst unat_add_nowrap; simp)+
  have win: "take (unat ?len) (drop (unat (pk_m_read_idx p)) ?m) = pk_bytes p"
    using b cap n by (simp add: realloc_window pk_bytes_def)
  have ne: "pk_bytes p = [] \<longleftrightarrow> ?len = 0"
    using pk_length [OF inv] n by (metis length_0_conv unat_0 unat_eq_0)
  have le: "?l \<le> PACK_MAX_LEFT_CAPACITY" using l c by (simp add: word_le_unat)
  show ?thesis
  proof (cases "pk_bytes p = []")
    case True
    then have e: "pk_extend_leftbuffer_capacity junk p = Some ?p1"
      using le ne b by (simp add: pk_extend_leftbuffer_capacity_def Let_def pk_capacity_def pk_len_def
          word_to_nat)
    moreover have "pk_inv ?p1" using b l cap c by (intro pk_invI) (simp_all add: pk_capacity_def)
    moreover have "pk_bytes ?p1 = []" using win True n by (simp add: pk_bytes_def)
    ultimately show ?thesis
      using that [of ?p1] l cap b True by (simp add: pk_capacity_def)
  next
    case False
    let ?p2 = "?p1\<lparr> pk_m_buffer := take (unat (pk_m_read_idx p + ?I)) ?m @ pk_bytes p @
        drop (unat (pk_m_read_idx p + ?I) + length (pk_bytes p)) ?m,
        pk_m_write_idx := pk_m_write_idx p + ?I, pk_m_read_idx := pk_m_read_idx p + ?I \<rparr>"
    have "0 < ?len" using False ne using word_neq_0_conv [of ?len] by simp
    then have e: "pk_extend_leftbuffer_capacity junk p = Some ?p2"
      using le ne b cap n r win pk_length [OF inv]
      by (simp add: pk_extend_leftbuffer_capacity_def Let_def pk_capacity_def pk_len_def word_le_unat
          PACK_defs del: unat_eq_0)
    moreover have "pk_inv ?p2"
      using b l cap c r w pk_length [OF inv] by (intro pk_invI) simp_all
    moreover have "pk_bytes ?p2 = pk_bytes p"
      using b cap r w pk_length [OF inv] by (simp add: pk_bytes_def)
    ultimately show ?thesis
      using that [of ?p2] l cap b r w False by (simp add: pk_capacity_def)
  qed
qed

lemma pk_extend_left_fails:
  assumes "pk_inv p" "16777216 < unat (pk_m_left_capacity p) + 8064"
  shows "pk_extend_leftbuffer_capacity junk p = None"
proof -
  have "unat (pk_m_left_capacity p + PACK_INCREMENT_LEFT_SIZE) = unat (pk_m_left_capacity p) + 8064"
    using pk_inv_bounds [OF assms(1)] by (subst unat_add_nowrap) simp_all
  then show ?thesis
    using assms(2) by (simp add: pk_extend_leftbuffer_capacity_def word_le_unat)
qed

lemma pk_extend_right_ok:
  assumes inv: "pk_inv p" and c: "unat (pk_m_right_capacity p) + 8064 \<le> 16777216"
  obtains p' where "pk_extend_rightbuffer_capacity junk p = Some p'" "pk_inv p'"
    "pk_bytes p' = pk_bytes p"
    "unat (pk_m_right_capacity p') = unat (pk_m_right_capacity p) + 8064"
    "pk_m_left_capacity p' = pk_m_left_capacity p" "pk_m_read_idx p' = pk_m_read_idx p"
    "pk_m_write_idx p' = pk_m_write_idx p"
proof -
  note b = pk_inv_bounds [OF inv]
  let ?r = "pk_m_right_capacity p + PACK_INCREMENT_RIGHT_SIZE"
  have r: "unat ?r = unat (pk_m_right_capacity p) + 8064"
    using c by (subst unat_add_nowrap) simp_all
  have cap: "unat (pk_m_left_capacity p + ?r) = unat (pk_m_left_capacity p) + 8064 + unat (pk_m_right_capacity p)"
    using b c r by (subst unat_add_nowrap) simp_all
  let ?m = "realloc junk (pk_m_buffer p) (unat (pk_m_left_capacity p + ?r))"
  let ?p = "p\<lparr> pk_m_right_capacity := ?r, pk_m_buffer := ?m \<rparr>"
  have "?r \<le> PACK_MAX_RIGHT_CAPACITY" "pk_m_right_capacity p \<noteq> 0"
    using r c b by (auto simp: word_le_unat)
  then have "pk_extend_rightbuffer_capacity junk p = Some ?p"
    by (simp add: pk_extend_rightbuffer_capacity_def Let_def pk_capacity_def)
  moreover have "pk_inv ?p" using b r cap c by (intro pk_invI) simp_all
  moreover have "pk_bytes ?p = pk_bytes p" using b cap by (simp add: pk_bytes_def realloc_window)
  ultimately show ?thesis using that [of ?p] r by simp
qed

lemma pk_extend_right_fails:
  assumes "pk_inv p" "16777216 < unat (pk_m_right_capacity p) + 8064"
  shows "pk_extend_rightbuffer_capacity junk p = None"
proof -
  have "unat (pk_m_right_capacity p + PACK_INCREMENT_RIGHT_SIZE) = unat (pk_m_right_capacity p) + 8064"
    using pk_inv_bounds [OF assms(1)] by (subst unat_add_nowrap) simp_all
  then show ?thesis
    using assms(2) by (simp add: pk_extend_rightbuffer_capacity_def word_le_unat)
qed

text \<open>How many bytes a write on the left or on the right can still take, extensions included.\<close>

definition pk_left_room :: "packet \<Rightarrow> nat" where
  "pk_left_room p = unat (pk_m_read_idx p) +
     (if pk_bytes p = [] then 0 else 16777216 - 8064 - unat (pk_m_left_capacity p))"

definition pk_right_room :: "packet \<Rightarrow> nat" where
  "pk_right_room p = (unat (pk_capacity p) - unat (pk_m_write_idx p)) +
     (16777216 - 8064 - unat (pk_m_right_capacity p))"

lemma pk_reserve_left_ok:
  assumes "pk_inv p" "unat n \<le> pk_left_room p"
  shows "\<exists>p'. pk_reserve_left junk n p = Some p' \<and> pk_inv p' \<and> pk_bytes p' = pk_bytes p \<and>
     unat n \<le> unat (pk_m_read_idx p') \<and> pk_left_room p \<le> pk_left_room p' \<and>
     pk_right_room p \<le> pk_right_room p'"
  using assms
proof (induction junk n p rule: pk_reserve_left.induct)
  case (1 junk n p)
  show ?case
  proof (cases "n > pk_left_left_capacity p")
    case False
    then show ?thesis using 1
      by (auto simp: pk_reserve_left.simps [of junk n p] pk_left_left_capacity_def word_to_nat)
  next
    case True
    then have lt: "unat (pk_m_read_idx p) < unat n"
      by (simp add: pk_left_left_capacity_def word_to_nat)
    then have ne: "pk_bytes p \<noteq> []" and c: "unat (pk_m_left_capacity p) + 8064 \<le> 16777216"
      using 1(3) by (auto simp: pk_left_room_def split: if_splits)
    obtain p1 where p1:
      "pk_extend_leftbuffer_capacity junk p = Some p1" "pk_inv p1" "pk_bytes p1 = pk_bytes p"
      "unat (pk_m_left_capacity p1) = unat (pk_m_left_capacity p) + 8064"
      "pk_m_right_capacity p1 = pk_m_right_capacity p"
      "unat (pk_m_read_idx p1) = unat (pk_m_read_idx p) + (if pk_bytes p = [] then 0 else 8064)"
      "unat (pk_capacity p1) - unat (pk_m_write_idx p1) =
         unat (pk_capacity p) - unat (pk_m_write_idx p) + (if pk_bytes p = [] then 8064 else 0)"
      by (rule pk_extend_left_ok [OF 1(2) c, of junk])
    have room: "pk_left_room p \<le> pk_left_room p1" "pk_right_room p \<le> pk_right_room p1"
      using p1 ne c by (auto simp: pk_left_room_def pk_right_room_def)
    show ?thesis
      using 1(1) [OF True p1(1) p1(2)] 1(3) room p1 True
      by (auto simp: pk_reserve_left.simps [of junk n p] intro: order_trans)
  qed
qed

lemma pk_reserve_right_ok:
  assumes "pk_inv p" "unat n \<le> pk_right_room p"
  shows "\<exists>p'. pk_reserve_right junk n p = Some p' \<and> pk_inv p' \<and> pk_bytes p' = pk_bytes p \<and>
     unat n \<le> unat (pk_capacity p') - unat (pk_m_write_idx p') \<and>
     pk_m_read_idx p' = pk_m_read_idx p \<and> pk_m_left_capacity p' = pk_m_left_capacity p \<and>
     pk_m_write_idx p' = pk_m_write_idx p \<and> pk_right_room p \<le> pk_right_room p'"
  using assms
proof (induction junk n p rule: pk_reserve_right.induct)
  case (1 junk n p)
  note b = pk_inv_bounds [OF 1(2)]
  have left: "unat (pk_left_right_capacity p) = unat (pk_capacity p) - unat (pk_m_write_idx p)"
    using b by (simp add: pk_left_right_capacity_def unat_sub_nowrap)
  show ?case
  proof (cases "n > pk_left_right_capacity p")
    case False
    then show ?thesis using 1(2) left
      by (auto simp: pk_reserve_right.simps [of junk n p] word_to_nat)
  next
    case True
    then have "unat (pk_capacity p) - unat (pk_m_write_idx p) < unat n"
      using left by (simp add: word_to_nat)
    then have c: "unat (pk_m_right_capacity p) + 8064 \<le> 16777216"
      using 1(3) by (auto simp: pk_right_room_def)
    obtain p1 where p1:
      "pk_extend_rightbuffer_capacity junk p = Some p1" "pk_inv p1" "pk_bytes p1 = pk_bytes p"
      "unat (pk_m_right_capacity p1) = unat (pk_m_right_capacity p) + 8064"
      "pk_m_left_capacity p1 = pk_m_left_capacity p" "pk_m_read_idx p1 = pk_m_read_idx p"
      "pk_m_write_idx p1 = pk_m_write_idx p" by (rule pk_extend_right_ok [OF 1(2) c, of junk])
    have room: "pk_right_room p \<le> pk_right_room p1"
      using p1 c b pk_inv_bounds [OF p1(2)] by (auto simp: pk_right_room_def)
    show ?thesis
      using 1(1) [OF True p1(1) p1(2)] 1(3) room p1 True
      by (auto simp: pk_reserve_right.simps [of junk n p] intro: order_trans)
  qed
qed

section \<open>Writing and reading\<close>

lemma pk_write_left_ok:
  assumes inv: "pk_inv p" and n: "unat n \<le> pk_left_room p" "unat n \<le> length d"
  shows "\<exists>p'. pk_write_left junk p d n = Some p' \<and> pk_inv p' \<and>
     pk_bytes p' = take (unat n) d @ pk_bytes p \<and> pk_right_room p \<le> pk_right_room p' \<and>
     pk_left_room p \<le> pk_left_room p' + unat n"
proof -
  obtain q where q: "pk_reserve_left junk n p = Some q" "pk_inv q" "pk_bytes q = pk_bytes p"
    "unat n \<le> unat (pk_m_read_idx q)" "pk_left_room p \<le> pk_left_room q" "pk_right_room p \<le> pk_right_room q"
    using pk_reserve_left_ok [OF inv n(1), of junk] by auto
  note b = pk_inv_bounds [OF q(2)]
  let ?i = "pk_m_read_idx q - n"
  have i: "unat ?i = unat (pk_m_read_idx q) - unat n" using q(4) by (simp add: unat_sub_nowrap)
  let ?p' = "q\<lparr> pk_m_read_idx := ?i, pk_m_buffer := take (unat ?i) (pk_m_buffer q) @ take (unat n) d @
      drop (unat ?i + unat n) (pk_m_buffer q) \<rparr>"
  have "pk_write_left junk p d n = Some ?p'"
    using q b i n by (simp add: pk_write_left_def Let_def min_def)
  moreover have "pk_inv ?p'" using b i q(4) n by (intro pk_invI) simp_all
  moreover have bytes: "pk_bytes ?p' = take (unat n) d @ pk_bytes p"
  proof -
    have "unat (pk_m_write_idx q) - unat ?i = unat n + (unat (pk_m_write_idx q) - unat (pk_m_read_idx q))"
      "unat ?i + unat n = unat (pk_m_read_idx q)" using b i q(4) by auto
    then show ?thesis using b i n(2) unfolding q(3) [symmetric] by (simp add: pk_bytes_def)
  qed
  moreover have "pk_right_room p \<le> pk_right_room ?p'"
    using q(6) by (simp add: pk_right_room_def pk_capacity_def)
  moreover have "pk_left_room p \<le> pk_left_room ?p' + unat n"
  proof -
    have "pk_left_room q \<le> pk_left_room ?p' + unat n"
      using i q(3,4) bytes by (auto simp: pk_left_room_def)
    then show ?thesis using q(5) by simp
  qed
  ultimately show ?thesis by blast
qed

lemma pk_write_ok:
  assumes inv: "pk_inv p" and n: "unat n \<le> pk_right_room p" "unat n \<le> length d"
  shows "\<exists>p'. pk_write junk p d n = Some p' \<and> pk_inv p' \<and>
     pk_bytes p' = pk_bytes p @ take (unat n) d \<and> pk_right_room p \<le> pk_right_room p' + unat n \<and>
     pk_left_room p \<le> pk_left_room p'"
proof -
  obtain q where q: "pk_reserve_right junk n p = Some q" "pk_inv q" "pk_bytes q = pk_bytes p"
    "unat n \<le> unat (pk_capacity q) - unat (pk_m_write_idx q)" "pk_m_read_idx q = pk_m_read_idx p"
    "pk_m_left_capacity q = pk_m_left_capacity p" "pk_m_write_idx q = pk_m_write_idx p"
    "pk_right_room p \<le> pk_right_room q"
    using pk_reserve_right_ok [OF inv n(1), of junk] by auto
  note b = pk_inv_bounds [OF q(2)]
  let ?w = "pk_m_write_idx q + n"
  have w: "unat ?w = unat (pk_m_write_idx q) + unat n"
    using b q(4) by (subst unat_add_nowrap) simp_all
  let ?p' = "q\<lparr> pk_m_buffer := take (unat (pk_m_write_idx q)) (pk_m_buffer q) @ take (unat n) d @
      drop (unat (pk_m_write_idx q) + unat n) (pk_m_buffer q), pk_m_write_idx := ?w \<rparr>"
  have fit: "unat (pk_m_write_idx q) + unat n \<le> length (pk_m_buffer q)" using b q(4) by simp
  then have "pk_write junk p d n = Some ?p'"
    using q(1) n by (simp add: pk_write_def min_def)
  moreover have "pk_inv ?p'" using b w fit n by (intro pk_invI) simp_all
  moreover have bytes: "pk_bytes ?p' = pk_bytes p @ take (unat n) d"
    using b w fit n(2) unfolding q(3) [symmetric] by (simp add: pk_bytes_def drop_take)
  moreover have "pk_right_room p \<le> pk_right_room ?p' + unat n"
    using q(4,8) w by (simp add: pk_right_room_def pk_capacity_def)
  moreover have "pk_left_room p \<le> pk_left_room ?p'"
    using q(3,5,6) bytes by (auto simp: pk_left_room_def)
  ultimately show ?thesis by blast
qed

lemma pk_read_ok:
  assumes inv: "pk_inv p" and n: "0 < n" "unat n \<le> length (pk_bytes p)"
  shows "\<exists>p'. pk_read p n = Some (take (unat n) (pk_bytes p), p') \<and> pk_inv p' \<and>
     pk_bytes p' = drop (unat n) (pk_bytes p) \<and> pk_right_room p' = pk_right_room p"
proof -
  note b = pk_inv_bounds [OF inv]
  note l = pk_len_ok [OF inv] pk_length [OF inv]
  have r: "unat (pk_m_read_idx p + n) = unat (pk_m_read_idx p) + unat n"
    using b n l by (subst unat_add_nowrap) simp_all
  let ?p' = "p\<lparr> pk_m_read_idx := pk_m_read_idx p + n \<rparr>"
  have "pk_read p n = Some (take (unat n) (pk_bytes p), ?p')"
    using b n l by (simp add: pk_read_def word_le_unat pk_bytes_def)
  moreover have "pk_inv ?p'" using b r n l by (intro pk_invI) simp_all
  moreover have "pk_bytes ?p' = drop (unat n) (pk_bytes p)"
    using r by (simp add: pk_bytes_def drop_take add.commute)
  ultimately show ?thesis by (auto simp: pk_right_room_def pk_capacity_def)
qed

lemma pk_read_fails:
  assumes "pk_inv p" "n = 0 \<or> length (pk_bytes p) < unat n" shows "pk_read p n = None"
  using assms pk_len_ok [OF assms(1)] by (auto simp: pk_read_def word_le_unat)

lemma pk_skip_ok:
  assumes inv: "pk_inv p" and n: "unat n \<le> length (pk_bytes p)"
  shows "\<exists>p'. pk_skip p n = Some p' \<and> pk_inv p' \<and> pk_bytes p' = drop (unat n) (pk_bytes p)"
proof (cases "n = 0")
  case True
  then show ?thesis using inv pk_len_ok [OF inv] by (auto simp: pk_skip_def)
next
  case False
  then have "0 < n" by (simp add: word_neq_0_conv)
  from pk_read_ok [OF inv this n] show ?thesis
    by (fastforce simp: pk_skip_def pk_read_def bind_eq_Some_conv split: if_splits)
qed

lemma pk_peek_ok:
  assumes inv: "pk_inv p"
  shows "pk_peek p n = Some (take (unat n) (pk_bytes p))"
proof -
  note b = pk_inv_bounds [OF inv]
  note l = pk_len_ok [OF inv] pk_length [OF inv]
  show ?thesis using b l by (auto simp: pk_peek_def word_le_unat pk_bytes_def)
qed

lemma packet_copy_ok:
  assumes "pk_inv p" shows "packet_copy p = Some p"
  using pk_inv_bounds [OF assms] by (simp add: packet_copy_def)

lemma pk_forward_write_index_ok:
  assumes inv: "pk_inv p" and n: "unat n \<le> unat (pk_capacity p) - unat (pk_m_write_idx p)"
  shows "\<exists>p'. pk_forward_write_index p n = Some p' \<and> pk_inv p' \<and> prefix (pk_bytes p) (pk_bytes p') \<and>
     length (pk_bytes p') = length (pk_bytes p) + unat n"
proof -
  note b = pk_inv_bounds [OF inv]
  let ?p' = "p\<lparr> pk_m_write_idx := pk_m_write_idx p + n \<rparr>"
  have w: "unat (pk_m_write_idx p + n) = unat (pk_m_write_idx p) + unat n"
    using b n by (subst unat_add_nowrap) simp_all
  have "unat (pk_capacity p - pk_m_write_idx p) = unat (pk_capacity p) - unat (pk_m_write_idx p)"
    using b by (simp add: unat_sub_nowrap)
  then have "pk_forward_write_index p n = Some ?p'"
    using n by (simp add: pk_forward_write_index_def word_le_unat)
  moreover have inv': "pk_inv ?p'" using b w n by (intro pk_invI) simp_all
  moreover have "pk_bytes ?p' = pk_bytes p @ take (unat n) (drop (unat (pk_m_write_idx p)) (pk_m_buffer p))"
  proof -
    have e: "unat (pk_m_write_idx p) + unat n - unat (pk_m_read_idx p) =
        (unat (pk_m_write_idx p) - unat (pk_m_read_idx p)) + unat n" using b by simp
    have "pk_bytes ?p' = take (unat (pk_m_write_idx p) + unat n - unat (pk_m_read_idx p))
        (drop (unat (pk_m_read_idx p)) (pk_m_buffer p))" by (simp add: pk_bytes_def w)
    then show ?thesis
      unfolding e take_add by (simp add: pk_bytes_def b(5))
  qed
  moreover have "length (pk_bytes ?p') = length (pk_bytes p) + unat n"
    using pk_length [OF inv] pk_length [OF inv'] w b by simp
  ultimately show ?thesis by auto
qed

text \<open>The typed writes and reads are the untyped ones on the big-endian bytes.\<close>

lemma pk_write_T_bytes:
  "LENGTH('a::len) < 4096 \<Longrightarrow>
   pk_write_T junk p (t :: 'a word) = pk_write junk p (write_impl t) (of_nat (sizeof TYPE('a)))"
  by (simp add: pk_write_T_def pk_write_def Let_def unat_sizeof)

lemma pk_write_left_T_bytes:
  "LENGTH('a::len) < 4096 \<Longrightarrow>
   pk_write_left_T junk p (t :: 'a word) = pk_write_left junk p (write_impl t) (of_nat (sizeof TYPE('a)))"
  by (simp add: pk_write_left_T_def pk_write_left_def Let_def unat_sizeof)

lemma pk_read_T_bytes:
  assumes "LENGTH('a::len) < 4096" "0 < sizeof TYPE('a)"
  shows "(pk_read_T p :: ('a word \<times> packet) option) =
    do { (d, p') \<leftarrow> pk_read p (of_nat (sizeof TYPE('a))); v \<leftarrow> read_impl d; Some (v, p') }"
proof -
  have "(of_nat (sizeof TYPE('a)) :: u32) \<noteq> 0"
    using unat_sizeof [OF assms(1)] assms(2) by (metis less_irrefl unat_0)
  then show ?thesis
    using unat_sizeof [OF assms(1)]
    by (cases "pk_len p") (simp_all add: pk_read_T_def pk_read_def word_neq_0_conv [symmetric])
qed

text \<open>
  write_left on a packet without unread bytes cannot make room: the extension does not move
  the read index, so the loop extends until the maximum is reached and throws.
\<close>

lemma pk_reserve_left_empty_throws:
  assumes "pk_inv p" "pk_bytes p = []" "pk_m_read_idx p < n"
  shows "pk_reserve_left junk n p = None"
  using assms
proof (induction junk n p rule: pk_reserve_left.induct)
  case (1 junk n p)
  then have gt: "n > pk_left_left_capacity p" by (simp add: pk_left_left_capacity_def)
  show ?case
  proof (cases "unat (pk_m_left_capacity p) + 8064 \<le> 16777216")
    case False
    then show ?thesis
      using gt 1(2) by (simp add: pk_reserve_left.simps [of junk n p] pk_extend_left_fails)
  next
    case True
    obtain p1 where p1: "pk_extend_leftbuffer_capacity junk p = Some p1" "pk_inv p1"
      "pk_bytes p1 = pk_bytes p"
      "unat (pk_m_read_idx p1) = unat (pk_m_read_idx p) + (if pk_bytes p = [] then 0 else 8064)"
      using pk_extend_left_ok [OF 1(2) True, of junk] by metis
    then have "pk_m_read_idx p1 = pk_m_read_idx p" using 1(3) by (simp add: word_eq_unat)
    then show ?thesis
      using 1(1) [OF gt p1(1)] 1(3,4) p1 gt by (simp add: pk_reserve_left.simps [of junk n p])
  qed
qed

section \<open>A packet as a byte buffer\<close>

text \<open>
  What the protocol layers rely on: bytes appended on the right or prepended on the left come
  out at the front, as long as the packet has room.
\<close>

fun append_all :: "('p \<Rightarrow> bytes \<Rightarrow> u32 \<Rightarrow> 'p option) \<Rightarrow> bytes list \<Rightarrow> 'p \<Rightarrow> 'p option" where
  "append_all app [] p = Some p"
| "append_all app (d # ds) p = do { p' \<leftarrow> app p d (of_nat (length d)); append_all app ds p' }"

fun take_all :: "('p \<Rightarrow> u32 \<Rightarrow> (bytes \<times> 'p) option) \<Rightarrow> nat list \<Rightarrow> 'p \<Rightarrow> (bytes list \<times> 'p) option" where
  "take_all tk [] p = Some ([], p)"
| "take_all tk (n # ns) p =
     do { (d, p') \<leftarrow> tk p (of_nat n); (ds, p'') \<leftarrow> take_all tk ns p'; Some (d # ds, p'') }"

locale byte_buffer =
  fixes inv :: "'p \<Rightarrow> bool" and content :: "'p \<Rightarrow> bytes" and lroom rroom :: "'p \<Rightarrow> nat"
    and app :: "'p \<Rightarrow> bytes \<Rightarrow> u32 \<Rightarrow> 'p option" and pre :: "'p \<Rightarrow> bytes \<Rightarrow> u32 \<Rightarrow> 'p option"
    and tk :: "'p \<Rightarrow> u32 \<Rightarrow> (bytes \<times> 'p) option"
  assumes app_law: "inv p \<Longrightarrow> unat n \<le> rroom p \<Longrightarrow> unat n \<le> length d \<Longrightarrow>
      \<exists>p'. app p d n = Some p' \<and> inv p' \<and> content p' = content p @ take (unat n) d \<and>
           rroom p \<le> rroom p' + unat n \<and> lroom p \<le> lroom p'"
    and pre_law: "inv p \<Longrightarrow> unat n \<le> lroom p \<Longrightarrow> unat n \<le> length d \<Longrightarrow>
      \<exists>p'. pre p d n = Some p' \<and> inv p' \<and> content p' = take (unat n) d @ content p \<and>
           rroom p \<le> rroom p' \<and> lroom p \<le> lroom p' + unat n"
    and tk_law: "inv p \<Longrightarrow> 0 < n \<Longrightarrow> unat n \<le> length (content p) \<Longrightarrow>
      \<exists>p'. tk p n = Some (take (unat n) (content p), p') \<and> inv p' \<and>
           content p' = drop (unat n) (content p)"
begin

lemma append_all_ok:
  "inv p \<Longrightarrow> length (concat ds) \<le> rroom p \<Longrightarrow> length (concat ds) < 2 ^ 32 \<Longrightarrow>
   \<exists>p'. append_all app ds p = Some p' \<and> inv p' \<and> content p' = content p @ concat ds \<and>
        lroom p \<le> lroom p' \<and> rroom p \<le> rroom p' + length (concat ds)"
proof (induction ds arbitrary: p)
  case Nil
  then show ?case by simp
next
  case (Cons d ds)
  have n: "unat (of_nat (length d) :: u32) = length d"
    using Cons.prems by (intro unat_of_nat_nowrap) simp
  obtain p1 where p1: "app p d (of_nat (length d)) = Some p1" "inv p1" "content p1 = content p @ d"
    "rroom p \<le> rroom p1 + length d" "lroom p \<le> lroom p1"
    using app_law [OF Cons.prems(1), of "of_nat (length d)" d] n Cons.prems by auto
  then show ?case
    using Cons.IH [OF p1(2)] Cons.prems by fastforce
qed

lemma take_all_ok:
  "inv p \<Longrightarrow> [] \<notin> set ds \<Longrightarrow> content p = concat ds @ rest \<Longrightarrow> length (concat ds) < 2 ^ 32 \<Longrightarrow>
   \<exists>p'. take_all tk (map length ds) p = Some (ds, p') \<and> inv p' \<and> content p' = rest"
proof (induction ds arbitrary: p)
  case Nil
  then show ?case by simp
next
  case (Cons d ds)
  have n: "unat (of_nat (length d) :: u32) = length d"
    using Cons.prems by (intro unat_of_nat_nowrap) simp
  then have "0 < (of_nat (length d) :: u32)"
    using Cons.prems(2) by (auto simp: word_less_unat)
  then obtain p1 where p1: "tk p (of_nat (length d)) = Some (d, p1)" "inv p1"
    "content p1 = concat ds @ rest"
    using tk_law [OF Cons.prems(1), of "of_nat (length d)"] n Cons.prems by auto
  then show ?case using Cons.IH [OF p1(2)] Cons.prems by auto
qed

text \<open>A message built field by field is taken apart field by field.\<close>

lemma append_take_all:
  assumes "inv p" "content p = []" "[] \<notin> set ds" "length (concat ds) \<le> rroom p"
    "length (concat ds) < 2 ^ 32"
  shows "\<exists>p' p''. append_all app ds p = Some p' \<and> content p' = concat ds \<and>
    take_all tk (map length ds) p' = Some (ds, p'') \<and> content p'' = []"
proof -
  obtain p' where p': "append_all app ds p = Some p'" "inv p'" "content p' = concat ds"
    using append_all_ok [OF assms(1,4,5)] assms(2) by auto
  with take_all_ok [OF p'(2) assms(3), of "[]"] assms(5) show ?thesis by auto
qed

end

interpretation pkb: byte_buffer pk_inv pk_bytes pk_left_room pk_right_room
  "pk_write junk" "pk_write_left junk" pk_read for junk
  by unfold_locales
    (use pk_write_ok pk_write_left_ok pk_read_ok in blast)+

section \<open>Properties\<close>

text \<open>
  C23: In a fresh packet of any admissible capacities, fields written on the right one after another,
  with a header prepended by write_left into the reserved space, are read back in the order header,
  fields; no write throws or leaves the block, and nothing is left over. The hypotheses bound the sizes
  by what the capacities allow before PACK_MAX_RIGHT_CAPACITY makes write() throw.
\<close>

theorem packet_message_roundtrip:
  assumes "left < PACK_MAX_LEFT_CAPACITY" "right \<le> PACK_MAX_RIGHT_CAPACITY"
    and "[] \<notin> set (h # ds)" "length h \<le> 128" "length (concat ds) \<le> 16769152"
  shows "\<exists>p p1 p2 p3. packet_new junk right left = Some p \<and>
    append_all (pk_write junk) ds p = Some p1 \<and>
    pk_write_left junk p1 h (of_nat (length h)) = Some p2 \<and> pk_bytes p2 = h @ concat ds \<and>
    take_all pk_read (map length (h # ds)) p2 = Some (h # ds, p3) \<and> pk_bytes p3 = []"
proof -
  obtain p where p: "packet_new junk right left = Some p" "pk_inv p" "pk_bytes p = []"
    "pk_m_left_capacity p = max left PACK_MIN_LEFT_CAPACITY" "pk_m_read_idx p = pk_m_left_capacity p"
    "pk_m_write_idx p = pk_m_left_capacity p"
    using packet_new_ok [OF assms(1,2)] by metis
  have "128 \<le> unat (pk_m_left_capacity p)" using p(4) by (simp add: max_def word_to_nat PACK_defs)
  then have lroom: "length h \<le> pk_left_room p" using p assms(4) by (simp add: pk_left_room_def)
  have rroom: "length (concat ds) \<le> pk_right_room p"
    using p assms(5) pk_inv_bounds [OF p(2)] by (simp add: pk_right_room_def)
  obtain p1 where p1: "append_all (pk_write junk) ds p = Some p1" "pk_inv p1" "pk_bytes p1 = concat ds"
    "length h \<le> pk_left_room p1"
    using pkb.append_all_ok [OF p(2) rroom, of junk] assms(5) p(3) lroom by auto
  have n: "unat (of_nat (length h) :: u32) = length h"
    using assms(4) by (intro unat_of_nat_nowrap) simp
  obtain p2 where p2: "pk_write_left junk p1 h (of_nat (length h)) = Some p2" "pk_inv p2"
    "pk_bytes p2 = h @ concat ds"
    using pkb.pre_law [OF p1(2), of "of_nat (length h)" h junk] n p1 by auto
  obtain p3 where "take_all pk_read (map length (h # ds)) p2 = Some (h # ds, p3)" "pk_bytes p3 = []"
    using pkb.take_all_ok [OF p2(2) assms(3), of "[]"] p2(3) assms(4,5) by auto
  with p p1 p2 show ?thesis by blast
qed

theorem packet_message_roundtrip_witness:
  "\<exists>p p1 p2 p3. packet_new (\<lambda>_. 0) 256 128 = Some p \<and>
    append_all (pk_write (\<lambda>_. 0)) [[1, 2], [3]] p = Some p1 \<and>
    pk_write_left (\<lambda>_. 0) p1 [9, 8] 2 = Some p2 \<and> pk_bytes p2 = [9, 8, 1, 2, 3] \<and>
    take_all pk_read [2, 2, 1] p2 = Some ([[9, 8], [1, 2], [3]], p3) \<and> pk_bytes p3 = []"
  using packet_message_roundtrip [of 128 256 "[9, 8]" "[[1, 2], [3]]" "\<lambda>_. 0"]
  by (simp add: PACK_defs)

text \<open>
  C33: write_left on a packet with no unread bytes throws whenever the header does not fit in front of
  the read index: the extension leaves the read index where it is when \<open>len()\<close> is 0, so the
  loop runs into PACK_MAX_LEFT_CAPACITY although memory was added each time.
\<close>

theorem write_left_empty_packet_throws:
  assumes "pk_inv p" "pk_bytes p = []" "pk_m_read_idx p < n"
  shows "pk_write_left junk p d n = None"
  using pk_reserve_left_empty_throws [OF assms] by (simp add: pk_write_left_def)

theorem write_left_empty_packet_throws_witness:
  "\<exists>p. packet_new (\<lambda>_. 0) 256 128 = Some p \<and> pk_write_left (\<lambda>_. 0) p (replicate 200 7) 200 = None"
proof -
  obtain p where p: "packet_new (\<lambda>_. 0) 256 128 = Some p" "pk_inv p" "pk_bytes p = []"
    "pk_m_left_capacity p = max 128 PACK_MIN_LEFT_CAPACITY" "pk_m_read_idx p = pk_m_left_capacity p"
    by (rule packet_new_ok [of 128 256 "\<lambda>_. 0"]) (simp_all add: PACK_defs)
  then have "pk_m_read_idx p < 200" by (simp add: PACK_defs)
  from write_left_empty_packet_throws [OF p(2,3) this] p(1) show ?thesis by blast
qed

end
