(* ===== verification/Socket_Base.thy ===== *)
theory Socket_Base
  imports Socket_Sys Packet
begin

text \<open>
  include/wawo/net/socket_base.hpp and src/net/socket_base.cpp: the state of a socket and the calls that change it
  (open, bind, listen, connect, options, shutdown, close), the flags that record which events are watched, and the
  unbuffered send and receive calls. The function pointers of the class are a record of functions on the state \<open>'k\<close>
  of the layer below. Requests to the observer and tasks given to the scheduler are appended
  to a log, in order.
\<close>

section \<open>Enumerations\<close>

datatype family = F_UNKNOWN | F_PF_INET | F_AF_INET | F_AF_INET6 | F_AF_UNIX | F_PF_UNIX | F_AF_UNSPEC | F_AF_NETBIOS
datatype sock_type = ST_UNKNOWN | ST_STREAM | ST_DGRAM | ST_RAW | ST_RDM | ST_SEQPACKET
datatype protocol_type = P_UNKNOWN | P_TCP | P_UDP | P_ICMP | P_IGMP | P_L2TP | P_SCTP | P_RAW | P_WCP
datatype socket_mode = SM_NONE | SM_ACTIVE | SM_PASSIVE | SM_LISTENER
datatype socket_state = S_CLOSED | S_OPENED | S_BINDED | S_LISTEN | S_CONNECTING | S_CONNECTED

definition OPTION_BROADCAST :: u32 where "OPTION_BROADCAST = 0x01"
definition OPTION_REUSEADDR :: u32 where "OPTION_REUSEADDR = 0x02"
definition OPTION_REUSEPORT :: u32 where "OPTION_REUSEPORT = 0x04"
definition OPTION_NON_BLOCKING :: u32 where "OPTION_NON_BLOCKING = 0x08"
definition OPTION_NODELAY :: u32 where "OPTION_NODELAY = 0x10"

definition SHUTDOWN_RD :: byte where "SHUTDOWN_RD = 1"
definition SHUTDOWN_WR :: byte where "SHUTDOWN_WR = 2"
definition SHUTDOWN_RDWR :: byte where "SHUTDOWN_RDWR = 3"
definition WATCH_READ :: byte where "WATCH_READ = 4"
definition WATCH_WRITE :: byte where "WATCH_WRITE = 8"
definition WATCH_OPTION_INFINITE :: byte where "WATCH_OPTION_INFINITE = 16"
definition WATCH_OPTION_POST_READ_EVENT_AFTER_WATCH :: byte where "WATCH_OPTION_POST_READ_EVENT_AFTER_WATCH = 32"

definition IOE_READ :: byte where "IOE_READ = 1"
definition IOE_WRITE :: byte where "IOE_WRITE = 2"
definition IOE_INFINITE_WATCH_READ :: byte where "IOE_INFINITE_WATCH_READ = 4"
definition IOE_INFINITE_WATCH_WRITE :: byte where "IOE_INFINITE_WATCH_WRITE = 8"

definition SOCK_MAX_SIZE :: u32 where "SOCK_MAX_SIZE = 1024 * 1024 * 2"
definition SOCK_MIN_SIZE :: u32 where "SOCK_MIN_SIZE = 1024 * 4"

lemmas watch_defs = SHUTDOWN_RD_def SHUTDOWN_WR_def SHUTDOWN_RDWR_def WATCH_READ_def WATCH_WRITE_def WATCH_OPTION_INFINITE_def
  WATCH_OPTION_POST_READ_EVENT_AFTER_WATCH_def IOE_READ_def IOE_WRITE_def IOE_INFINITE_WATCH_READ_def IOE_INFINITE_WATCH_WRITE_def
lemmas option_defs = OPTION_BROADCAST_def OPTION_REUSEADDR_def OPTION_REUSEPORT_def OPTION_NON_BLOCKING_def OPTION_NODELAY_def

text \<open>A flag of an integer is set.\<close>

definition has_flag :: "'a::len word \<Rightarrow> 'a word \<Rightarrow> bool" where
  "has_flag w f \<longleftrightarrow> w AND f \<noteq> 0"

text \<open>Flags bit by bit.\<close>

lemma has_flag_join: "has_flag w (f OR g) \<longleftrightarrow> has_flag w f \<or> has_flag w g"
  by (auto simp: has_flag_def bit_eq_iff bit_and_iff bit_or_iff)

lemma has_flag_exp: "has_flag w (2 ^ n) \<longleftrightarrow> bit w n"
  by (simp add: has_flag_def and_exp_eq_0_iff_not_bit)

lemma word_and_zero: "a AND b = 0 \<longleftrightarrow> (\<forall>n. \<not> (bit a n \<and> bit b n))" for a :: "'a::len word"
  by (auto simp: bit_eq_iff bit_and_iff dest: bit_imp_le_length)

lemma byte_zero: "b = 0 \<longleftrightarrow> (\<forall>n. \<not> bit b n)" for b :: byte
  using word_and_zero [of b b] by simp

lemma bit_clear:
  "bit (a AND NOT b) n \<longleftrightarrow> bit a n \<and> \<not> bit b n"
  "bit (a AND (NOT b AND NOT c)) n \<longleftrightarrow> bit a n \<and> \<not> bit b n \<and> \<not> bit c n"
  for a :: "'a::len word"
  by (auto simp: bit_and_iff bit_not_iff possible_bit_word dest: bit_imp_le_length)

lemma has_flag_bit: "has_flag w f \<longleftrightarrow> (\<exists>n. bit w n \<and> bit f n)" for w :: "'a::len word"
  by (simp add: has_flag_def word_and_zero)

section \<open>The layer below\<close>

text \<open>
  The members \<open>m_fn_socket\<close> to \<open>m_fn_setsockopt\<close>, and fcntl with F_GETFL and F_SETFL, which \<open>_set_options\<close> calls by protocol.
  The pointers that fill in an address or a buffer are results.
\<close>

type_synonym sockaddr = "int \<times> u16 \<times> u32"

record 'k socket_fns =
  m_fn_socket :: "int \<Rightarrow> int \<Rightarrow> int \<Rightarrow> 'k \<Rightarrow> (int \<times> 'k) option"
  m_fn_connect :: "int \<Rightarrow> sockaddr \<Rightarrow> 'k \<Rightarrow> (int \<times> 'k) option"
  m_fn_bind :: "int \<Rightarrow> sockaddr \<Rightarrow> 'k \<Rightarrow> (int \<times> 'k) option"
  m_fn_shutdown :: "int \<Rightarrow> int \<Rightarrow> 'k \<Rightarrow> (int \<times> 'k) option"
  m_fn_close :: "int \<Rightarrow> 'k \<Rightarrow> (int \<times> 'k) option"
  m_fn_listen :: "int \<Rightarrow> int \<Rightarrow> 'k \<Rightarrow> (int \<times> 'k) option"
  m_fn_accept :: "int \<Rightarrow> 'k \<Rightarrow> (int \<times> u32 \<times> u16 \<times> 'k) option"
  m_fn_send :: "int \<Rightarrow> bytes \<Rightarrow> u32 \<Rightarrow> 'k \<Rightarrow> (u32 \<times> int \<times> 'k) option"
  m_fn_recv :: "int \<Rightarrow> u32 \<Rightarrow> u32 \<Rightarrow> 'k \<Rightarrow> (bytes \<times> int \<times> 'k) option"
  m_fn_sendto :: "int \<Rightarrow> bytes \<Rightarrow> address \<Rightarrow> u32 \<Rightarrow> 'k \<Rightarrow> (u32 \<times> int \<times> 'k) option"
  m_fn_recvfrom :: "int \<Rightarrow> u32 \<Rightarrow> address \<Rightarrow> u32 \<Rightarrow> 'k \<Rightarrow> (bytes \<times> address \<times> int \<times> 'k) option"
  m_fn_setsockopt :: "int \<Rightarrow> int \<Rightarrow> int \<Rightarrow> int \<Rightarrow> 'k \<Rightarrow> (int \<times> 'k) option"
  fn_getfl :: "int \<Rightarrow> 'k \<Rightarrow> (int \<times> 'k) option"
  fn_setfl :: "int \<Rightarrow> int \<Rightarrow> 'k \<Rightarrow> (int \<times> 'k) option"

definition standard_fns :: "kernel socket_fns" where
  "standard_fns = \<lparr>
     m_fn_socket = (\<lambda>_ _ _ k. Some (std_socket k)),
     m_fn_connect = (\<lambda>_ _ k. Some (std_call k)),
     m_fn_bind = (\<lambda>_ _ k. Some (std_call k)),
     m_fn_shutdown = (\<lambda>_ _ k. Some (std_call k)),
     m_fn_close = (\<lambda>_ k. Some (std_call k)),
     m_fn_listen = (\<lambda>_ _ k. Some (std_call k)),
     m_fn_accept = (\<lambda>_ k. Some (std_accept k)),
     m_fn_send = (\<lambda>_ buffer _ k. std_send buffer k),
     m_fn_recv = (\<lambda>_ asize _ k. std_recv asize k),
     m_fn_sendto = (\<lambda>_ buff addr _ k. std_sendto buff addr k),
     m_fn_recvfrom = (\<lambda>_ asize addr_o _ k. std_recvfrom asize addr_o k),
     m_fn_setsockopt = (\<lambda>_ _ _ _ k. Some (std_call k)),
     fn_getfl = (\<lambda>_ k. let (r, e, k) = sys_call k in Some (r, k)),
     fn_setfl = (\<lambda>_ _ k. let (r, e, k) = sys_call k in Some (r, k)) \<rparr>"

section \<open>The state\<close>

text \<open>The callbacks given to the observer, and what has been asked of the observer and the scheduler.\<close>

datatype io_fn = Async_connected | Async_handshake | Async_read | Async_write | User_fn nat

datatype effect =
    Watch bool byte int io_fn
  | Unwatch bool byte int
  | Schedule_error io_fn int
  | Schedule_call io_fn
  | Schedule_success
  | Schedule_event byte int
  | Schedule_shutdown byte int
  | Schedule_close byte int
  | Trigger_event byte int
  | Trigger_packet packet
  | Call_success
  | Call_error int

record socket_base =
  sk_m_sm :: socket_mode
  sk_m_family :: family
  sk_m_type :: sock_type
  sk_m_protocol :: protocol_type
  sk_m_option :: u32
  sk_m_addr :: address
  sk_m_bind_addr :: address
  sk_m_fd :: int
  sk_rcv_size :: u32
  sk_snd_size :: u32
  sk_m_state :: socket_state
  sk_m_rflag :: byte
  sk_m_wflag :: byte
  sk_log :: "effect list"

definition sb_note :: "effect \<Rightarrow> 'a socket_base_scheme \<Rightarrow> 'a socket_base_scheme" where
  "sb_note e s = s\<lparr> sk_log := sk_log s @ [e] \<rparr>"

definition sbc_ok :: "u32 \<Rightarrow> u32 \<Rightarrow> bool" where
  "sbc_ok rcv_sz snd_sz \<longleftrightarrow> rcv_sz \<le> SOCK_MAX_SIZE \<and> rcv_sz \<ge> SOCK_MIN_SIZE \<and> snd_sz \<le> SOCK_MAX_SIZE \<and> snd_sz \<ge> SOCK_MIN_SIZE"

text \<open>The constructor for a connected descriptor, and the one for a socket that is not open.\<close>

definition socket_base_fd ::
    "int \<Rightarrow> address \<Rightarrow> socket_mode \<Rightarrow> u32 \<Rightarrow> u32 \<Rightarrow> family \<Rightarrow> sock_type \<Rightarrow> protocol_type \<Rightarrow> u32 \<Rightarrow> socket_base option" where
  "socket_base_fd fd addr sm rcv_sz snd_sz family sockt proto option =
     do { wawo_assert (fd > 0);
          wawo_assert (sbc_ok rcv_sz snd_sz);
          Some \<lparr> sk_m_sm = sm, sk_m_family = family, sk_m_type = sockt, sk_m_protocol = proto, sk_m_option = option, sk_m_addr = addr,
                 sk_m_bind_addr = 0, sk_m_fd = fd, sk_rcv_size = rcv_sz, sk_snd_size = snd_sz, sk_m_state = S_CONNECTED,
                 sk_m_rflag = 0, sk_m_wflag = 0, sk_log = [] \<rparr> }"

definition socket_base_new :: "u32 \<Rightarrow> u32 \<Rightarrow> family \<Rightarrow> sock_type \<Rightarrow> protocol_type \<Rightarrow> u32 \<Rightarrow> socket_base option" where
  "socket_base_new rcv_sz snd_sz family sockt proto option =
     do { wawo_assert (sbc_ok rcv_sz snd_sz);
          Some \<lparr> sk_m_sm = SM_NONE, sk_m_family = family, sk_m_type = sockt, sk_m_protocol = proto, sk_m_option = option, sk_m_addr = 0,
                 sk_m_bind_addr = 0, sk_m_fd = -1, sk_rcv_size = rcv_sz, sk_snd_size = snd_sz, sk_m_state = S_CLOSED,
                 sk_m_rflag = SHUTDOWN_RD, sk_m_wflag = SHUTDOWN_WR, sk_log = [] \<rparr> }"

definition is_wcp :: "'a socket_base_scheme \<Rightarrow> bool" where "is_wcp s \<longleftrightarrow> sk_m_protocol s = P_WCP"
definition is_data_socket :: "'a socket_base_scheme \<Rightarrow> bool" where "is_data_socket s \<longleftrightarrow> sk_m_sm s \<noteq> SM_LISTENER"
definition is_listener :: "'a socket_base_scheme \<Rightarrow> bool" where "is_listener s \<longleftrightarrow> sk_m_sm s = SM_LISTENER"
definition is_nonblocking :: "'a socket_base_scheme \<Rightarrow> bool" where "is_nonblocking s \<longleftrightarrow> has_flag (sk_m_option s) OPTION_NON_BLOCKING"
definition is_read_shutdowned :: "'a socket_base_scheme \<Rightarrow> bool" where "is_read_shutdowned s \<longleftrightarrow> has_flag (sk_m_rflag s) SHUTDOWN_RD"
definition is_write_shutdowned :: "'a socket_base_scheme \<Rightarrow> bool" where "is_write_shutdowned s \<longleftrightarrow> has_flag (sk_m_wflag s) SHUTDOWN_WR"
definition is_readwrite_shutdowned :: "'a socket_base_scheme \<Rightarrow> bool" where
  "is_readwrite_shutdowned s \<longleftrightarrow> (sk_m_rflag s OR sk_m_wflag s) AND SHUTDOWN_RDWR = SHUTDOWN_RDWR"

lemmas sb_query_defs = is_wcp_def is_data_socket_def is_listener_def is_nonblocking_def is_read_shutdowned_def
  is_write_shutdowned_def is_readwrite_shutdowned_def

section \<open>Watching events\<close>

text \<open>watch() and unwatch() of the observer reject a descriptor that is not positive.\<close>

definition sb_watch :: "byte \<Rightarrow> io_fn \<Rightarrow> 'a socket_base_scheme \<Rightarrow> 'a socket_base_scheme option" where
  "sb_watch flag fn s = do { wawo_assert (sk_m_fd s > 0); Some (sb_note (Watch (is_wcp s) flag (sk_m_fd s) fn) s) }"

definition sb_unwatch :: "byte \<Rightarrow> 'a socket_base_scheme \<Rightarrow> 'a socket_base_scheme option" where
  "sb_unwatch flag s = do { wawo_assert (sk_m_fd s > 0); Some (sb_note (Unwatch (is_wcp s) flag (sk_m_fd s)) s) }"

definition end_async_read :: "'a socket_base_scheme \<Rightarrow> 'a socket_base_scheme option" where
  "end_async_read s =
     (if has_flag (sk_m_rflag s) WATCH_READ \<and> is_nonblocking s
      then sb_unwatch IOE_READ (s\<lparr> sk_m_rflag := sk_m_rflag s AND NOT (WATCH_READ OR WATCH_OPTION_INFINITE) \<rparr>)
      else Some s)"

definition end_async_write :: "'a socket_base_scheme \<Rightarrow> 'a socket_base_scheme option" where
  "end_async_write s =
     (if has_flag (sk_m_wflag s) WATCH_WRITE \<and> is_nonblocking s
      then sb_unwatch IOE_WRITE (s\<lparr> sk_m_wflag := sk_m_wflag s AND NOT (WATCH_WRITE OR WATCH_OPTION_INFINITE) \<rparr>)
      else Some s)"

definition begin_async_connect :: "'a socket_base_scheme \<Rightarrow> 'a socket_base_scheme option" where
  "begin_async_connect s =
     do { wawo_assert (sk_m_state s = S_CONNECTED \<or> sk_m_state s = S_CONNECTING);
          wawo_assert (is_nonblocking s);
          wawo_assert (\<not> has_flag (sk_m_wflag s) SHUTDOWN_WR);
          wawo_assert (\<not> has_flag (sk_m_wflag s) WATCH_WRITE);
          sb_watch IOE_WRITE Async_connected (s\<lparr> sk_m_wflag := sk_m_wflag s OR WATCH_WRITE \<rparr>) }"

definition begin_async_handshake :: "'a socket_base_scheme \<Rightarrow> 'a socket_base_scheme option" where
  "begin_async_handshake s =
     do { wawo_assert (is_nonblocking s);
          if has_flag (sk_m_rflag s) SHUTDOWN_RD then Some (sb_note (Schedule_error Async_handshake E_INVALID_STATE) s)
          else do {
            wawo_assert (\<not> has_flag (sk_m_rflag s) WATCH_READ);
            sb_watch (IOE_READ OR IOE_INFINITE_WATCH_READ) Async_handshake (s\<lparr> sk_m_rflag := sk_m_rflag s OR WATCH_READ \<rparr>) } }"

definition begin_async_read :: "byte \<Rightarrow> io_fn \<Rightarrow> 'a socket_base_scheme \<Rightarrow> 'a socket_base_scheme option" where
  "begin_async_read async_flag fn s =
     do { wawo_assert (is_nonblocking s);
          if has_flag (sk_m_rflag s) SHUTDOWN_RD then Some (sb_note (Schedule_error fn E_INVALID_STATE) s)
          else if has_flag (sk_m_rflag s) WATCH_READ then Some s
          else do {
            s \<leftarrow> sb_watch (if has_flag async_flag WATCH_OPTION_INFINITE then IOE_READ OR IOE_INFINITE_WATCH_READ else IOE_READ) fn
                   (s\<lparr> sk_m_rflag := sk_m_rflag s OR (WATCH_READ OR async_flag) \<rparr>);
            Some (if has_flag async_flag WATCH_OPTION_POST_READ_EVENT_AFTER_WATCH then sb_note (Schedule_call fn) s else s) } }"

definition begin_async_write :: "byte \<Rightarrow> io_fn \<Rightarrow> 'a socket_base_scheme \<Rightarrow> 'a socket_base_scheme option" where
  "begin_async_write async_flag fn s =
     do { wawo_assert (sk_m_state s = S_CONNECTED \<or> sk_m_state s = S_CONNECTING);
          wawo_assert (is_nonblocking s);
          if has_flag (sk_m_wflag s) SHUTDOWN_WR then Some (sb_note (Schedule_error fn E_INVALID_STATE) s)
          else if has_flag (sk_m_wflag s) WATCH_WRITE then Some s
          else sb_watch (if has_flag async_flag WATCH_OPTION_INFINITE then IOE_WRITE OR IOE_INFINITE_WATCH_WRITE else IOE_WRITE) fn
                 (s\<lparr> sk_m_wflag := sk_m_wflag s OR (WATCH_WRITE OR async_flag) \<rparr>) }"

definition handle_async_connected :: "'a socket_base_scheme \<Rightarrow> 'a socket_base_scheme option" where
  "handle_async_connected s =
     do { wawo_assert (sk_m_fd s > 0);
          wawo_assert (sk_m_sm s = SM_ACTIVE);
          wawo_assert (is_nonblocking s);
          wawo_assert (sk_m_state s = S_CONNECTING);
          Some (s\<lparr> sk_m_state := S_CONNECTED \<rparr>) }"

section \<open>Options\<close>

definition SOL_SOCKET :: int where "SOL_SOCKET = 1"
definition SO_BROADCAST :: int where "SO_BROADCAST = 6"
definition SO_KEEPALIVE :: int where "SO_KEEPALIVE = 9"
definition IPPROTO_TCP :: int where "IPPROTO_TCP = 6"
definition TCP_NODELAY :: int where "TCP_NODELAY = 1"
definition O_NONBLOCK :: int where "O_NONBLOCK = 2048"
definition WCP_O_NONBLOCK_int :: int where "WCP_O_NONBLOCK_int = 1"

definition should_set :: "u32 \<Rightarrow> u32 \<Rightarrow> u32 \<Rightarrow> bool" where
  "should_set opt cur options \<longleftrightarrow>
     (cur AND opt \<noteq> 0 \<and> options AND opt = 0) \<or> (cur AND opt = 0 \<and> options AND opt \<noteq> 0)"

definition optval_of :: "u32 \<Rightarrow> u32 \<Rightarrow> int" where
  "optval_of opt options = (if options AND opt \<noteq> 0 then 1 else 0)"

definition note_option :: "u32 \<Rightarrow> int \<Rightarrow> 'a socket_base_scheme \<Rightarrow> 'a socket_base_scheme" where
  "note_option opt optval s =
     s\<lparr> sk_m_option := (if optval = 1 then sk_m_option s OR opt else sk_m_option s AND NOT opt) \<rparr>"

text \<open>
  One block of \<open>_set_options\<close> that goes through setsockopt; \<open>opened\<close> marks those that assert S_OPENED. The
  result is OK when the next block is reached.
\<close>

definition set_by_sockopt ::
    "'k socket_fns \<Rightarrow> bool \<Rightarrow> int \<Rightarrow> int \<Rightarrow> u32 \<Rightarrow> u32 \<Rightarrow> 'a socket_base_scheme \<Rightarrow> 'k \<Rightarrow> (int \<times> 'a socket_base_scheme \<times> 'k) option" where
  "set_by_sockopt F opened level name opt options s k =
     (if should_set opt (sk_m_option s) options then do {
        wawo_assert (opened \<longrightarrow> sk_m_state s = S_OPENED);
        let optval = optval_of opt options;
        (ret, k) \<leftarrow> m_fn_setsockopt F (sk_m_fd s) level name optval k;
        if ret = 0 then Some (OK, note_option opt optval s, k) else Some (ret, s, k) }
      else Some (OK, s, k))"

text \<open>The non-blocking block: fcntl of wcp and of the system, with the masks the code writes.\<close>

definition set_nonblocking ::
    "'k socket_fns \<Rightarrow> u32 \<Rightarrow> 'a socket_base_scheme \<Rightarrow> 'k \<Rightarrow> (int \<times> 'a socket_base_scheme \<times> 'k) option" where
  "set_nonblocking F options s k =
     (if should_set OPTION_NON_BLOCKING (sk_m_option s) options then do {
        let optval = optval_of OPTION_NON_BLOCKING options;
        (mode, k) \<leftarrow> fn_getfl F (sk_m_fd s) k;
        let mode = (if sk_m_protocol s = P_WCP
                    then (if optval = 1 then mode OR WCP_O_NONBLOCK_int else mode AND WCP_O_NONBLOCK_int)
                    else (if optval = 1 then mode OR O_NONBLOCK else mode AND NOT O_NONBLOCK));
        (ret, k) \<leftarrow> fn_setfl F (sk_m_fd s) mode k;
        if ret = 0 then Some (OK, note_option OPTION_NON_BLOCKING optval s, k) else Some (ret, s, k) }
      else Some (OK, s, k))"

text \<open>The blocks in sequence: each returns from the function when it fails.\<close>

definition and_then ::
    "(int \<times> 's \<times> 'k) option \<Rightarrow> ('s \<Rightarrow> 'k \<Rightarrow> (int \<times> 's \<times> 'k) option) \<Rightarrow> (int \<times> 's \<times> 'k) option" where
  "and_then r f = do { (ret, s, k) \<leftarrow> r; if ret \<noteq> OK then Some (ret, s, k) else f s k }"

definition set_options :: "'k socket_fns \<Rightarrow> u32 \<Rightarrow> 'a socket_base_scheme \<Rightarrow> 'k \<Rightarrow> (int \<times> 'a socket_base_scheme \<times> 'k) option" where
  "set_options F options s k =
     (if sk_m_fd s < 0 then Some (E_INVALID_STATE, s, k)
      else and_then (and_then (and_then (and_then
        (if sk_m_type s = ST_DGRAM then set_by_sockopt F False SOL_SOCKET SO_BROADCAST OPTION_BROADCAST options s k else Some (OK, s, k))
        (set_by_sockopt F True SOL_SOCKET SO_REUSEADDR OPTION_REUSEADDR options))
        (set_by_sockopt F True SOL_SOCKET SO_REUSEPORT OPTION_REUSEPORT options))
        (set_nonblocking F options))
        (\<lambda>s k. if sk_m_type s = ST_STREAM then set_by_sockopt F False IPPROTO_TCP TCP_NODELAY OPTION_NODELAY options s k else Some (OK, s, k)))"

definition turnoff_nodelay :: "'k socket_fns \<Rightarrow> 'a socket_base_scheme \<Rightarrow> 'k \<Rightarrow> (int \<times> 'a socket_base_scheme \<times> 'k) option" where
  "turnoff_nodelay F s k =
     (if sk_m_option s AND OPTION_NODELAY = 0 then Some (OK, s, k) else set_options F (sk_m_option s AND NOT OPTION_NODELAY) s k)"

definition turnon_nodelay :: "'k socket_fns \<Rightarrow> 'a socket_base_scheme \<Rightarrow> 'k \<Rightarrow> (int \<times> 'a socket_base_scheme \<times> 'k) option" where
  "turnon_nodelay F s k =
     (if sk_m_option s AND OPTION_NODELAY \<noteq> 0 then Some (OK, s, k) else set_options F (sk_m_option s OR OPTION_NODELAY) s k)"

definition turnon_nonblocking :: "'k socket_fns \<Rightarrow> 'a socket_base_scheme \<Rightarrow> 'k \<Rightarrow> (int \<times> 'a socket_base_scheme \<times> 'k) option" where
  "turnon_nonblocking F s k =
     (if sk_m_option s AND OPTION_NON_BLOCKING \<noteq> 0 then Some (OK, s, k) else set_options F (sk_m_option s OR OPTION_NON_BLOCKING) s k)"

text \<open>The early return is \<open>true\<close>, converted to int.\<close>

definition turnoff_nonblocking :: "'k socket_fns \<Rightarrow> 'a socket_base_scheme \<Rightarrow> 'k \<Rightarrow> (int \<times> 'a socket_base_scheme \<times> 'k) option" where
  "turnoff_nonblocking F s k =
     (if sk_m_option s AND OPTION_NON_BLOCKING = 0 then Some (1, s, k)
      else set_options F (sk_m_option s AND NOT OPTION_NON_BLOCKING) s k)"

definition reuse_addr :: "'k socket_fns \<Rightarrow> 'a socket_base_scheme \<Rightarrow> 'k \<Rightarrow> (int \<times> 'a socket_base_scheme \<times> 'k) option" where
  "reuse_addr F s k = set_options F (sk_m_option s OR OPTION_REUSEADDR) s k"

definition reuse_port :: "'k socket_fns \<Rightarrow> 'a socket_base_scheme \<Rightarrow> 'k \<Rightarrow> (int \<times> 'a socket_base_scheme \<times> 'k) option" where
  "reuse_port F s k = set_options F (sk_m_option s OR OPTION_REUSEPORT) s k"

definition sb_set_snd_buffer_size :: "'k socket_fns \<Rightarrow> u32 \<Rightarrow> 'a socket_base_scheme \<Rightarrow> 'k \<Rightarrow> (int \<times> 'k) option" where
  "sb_set_snd_buffer_size F sz s k =
     do { wawo_assert (sz \<ge> SOCK_MIN_SIZE \<and> sz \<le> SOCK_MAX_SIZE);
          wawo_assert (sk_m_fd s > 0);
          m_fn_setsockopt F (sk_m_fd s) SOL_SOCKET SO_SNDBUF (uint sz) k }"

definition sb_set_rcv_buffer_size :: "'k socket_fns \<Rightarrow> u32 \<Rightarrow> 'a socket_base_scheme \<Rightarrow> 'k \<Rightarrow> (int \<times> 'k) option" where
  "sb_set_rcv_buffer_size F sz s k =
     do { wawo_assert (sz \<ge> SOCK_MIN_SIZE \<and> sz \<le> SOCK_MAX_SIZE);
          wawo_assert (sk_m_fd s > 0);
          m_fn_setsockopt F (sk_m_fd s) SOL_SOCKET SO_RCVBUF (uint sz) k }"

definition turnon_keep_alive :: "'k socket_fns \<Rightarrow> 'a socket_base_scheme \<Rightarrow> 'k \<Rightarrow> (int \<times> 'k) option" where
  "turnon_keep_alive F s k = m_fn_setsockopt F (sk_m_fd s) SOL_SOCKET SO_KEEPALIVE 1 k"

definition turnoff_keep_alive :: "'k socket_fns \<Rightarrow> 'a socket_base_scheme \<Rightarrow> 'k \<Rightarrow> (int \<times> 'k) option" where
  "turnoff_keep_alive F s k = m_fn_setsockopt F (sk_m_fd s) SOL_SOCKET SO_KEEPALIVE 0 k"

section \<open>The life of a socket\<close>

definition so_family :: "family \<Rightarrow> int option" where
  "so_family f = (case f of F_PF_INET \<Rightarrow> Some 2 | F_AF_INET \<Rightarrow> Some 2 | F_AF_UNIX \<Rightarrow> Some 1 | _ \<Rightarrow> None)"

definition so_type :: "sock_type \<Rightarrow> int option" where
  "so_type t = (case t of ST_STREAM \<Rightarrow> Some 1 | ST_DGRAM \<Rightarrow> Some 2 | ST_RAW \<Rightarrow> Some 3 | _ \<Rightarrow> None)"

definition so_protocol :: "protocol_type \<Rightarrow> int option" where
  "so_protocol p = (case p of P_TCP \<Rightarrow> Some 6 | P_UDP \<Rightarrow> Some 17 | P_WCP \<Rightarrow> Some 17 | P_ICMP \<Rightarrow> Some 1 | _ \<Rightarrow> None)"

text \<open>open(): a type or protocol that is not supported throws, a family that is not is reported.\<close>

definition sb_open :: "'k socket_fns \<Rightarrow> 'a socket_base_scheme \<Rightarrow> 'k \<Rightarrow> (int \<times> 'a socket_base_scheme \<times> 'k) option" where
  "sb_open F s k =
     do { wawo_assert (sk_m_state s = S_CLOSED);
          wawo_assert (sk_m_fd s = -1);
          case so_family (sk_m_family s) of
            None \<Rightarrow> Some (E_SOCKET_INVALID_FAMILY, s, k)
          | Some soFamily \<Rightarrow> do {
              soType \<leftarrow> so_type (sk_m_type s);
              soProtocol \<leftarrow> so_protocol (sk_m_protocol s);
              (fd, k) \<leftarrow> m_fn_socket F soFamily soType soProtocol k;
              if fd < 0 then Some (fd, s, k)
              else do {
                wawo_assert (fd > 0);
                (rt, s, k) \<leftarrow> set_options F (sk_m_option s) (s\<lparr> sk_m_fd := fd, sk_m_rflag := 0, sk_m_wflag := 0 \<rparr>) k;
                if rt \<noteq> OK then Some (rt, s, k)
                else let s = s\<lparr> sk_m_state := S_OPENED \<rparr> in
                if sk_m_protocol s = P_UDP then Some (OK, s, k)
                else do {
                  (rt, k) \<leftarrow> sb_set_snd_buffer_size F (sk_snd_size s) s k;
                  if rt \<noteq> OK then Some (rt, s, k)
                  else do {
                    (rt, k) \<leftarrow> sb_set_rcv_buffer_size F (sk_rcv_size s) s k;
                    Some (if rt \<noteq> OK then rt else OK, s, k) } } } } }"

definition do_close :: "'k socket_fns \<Rightarrow> 'a socket_base_scheme \<Rightarrow> 'k \<Rightarrow> (int \<times> 'a socket_base_scheme \<times> 'k) option" where
  "do_close F s k =
     (if sk_m_state s = S_CLOSED then Some (E_INVALID_OPERATION, s, k)
      else do {
        (close_rt, k) \<leftarrow> m_fn_close F (sk_m_fd s) k;
        wawo_assert (close_rt = OK);
        Some (close_rt, s\<lparr> sk_m_state := S_CLOSED \<rparr>, k) })"

definition sb_close :: "'k socket_fns \<Rightarrow> 'a socket_base_scheme \<Rightarrow> 'k \<Rightarrow> (int \<times> 'a socket_base_scheme \<times> 'k) option" where
  "sb_close F s k =
     do { let s = s\<lparr> sk_m_rflag := sk_m_rflag s OR SHUTDOWN_RD \<rparr>;
          s \<leftarrow> (if is_nonblocking s then end_async_read s else Some s);
          let s = s\<lparr> sk_m_wflag := sk_m_wflag s OR SHUTDOWN_WR \<rparr>;
          s \<leftarrow> (if is_nonblocking s then end_async_write s else Some s);
          do_close F s k }"

text \<open>The two halves of \<open>_shutdown\<close>: the flag that was newly set.\<close>

definition shut_read :: "bool \<Rightarrow> 'a socket_base_scheme \<Rightarrow> (byte \<times> 'a socket_base_scheme) option" where
  "shut_read wanted s =
     (if wanted \<and> \<not> has_flag (sk_m_rflag s) SHUTDOWN_RD then do {
        let s = s\<lparr> sk_m_rflag := sk_m_rflag s OR SHUTDOWN_RD \<rparr>;
        s \<leftarrow> (if is_nonblocking s then end_async_read s else Some s);
        Some (SHUTDOWN_RD, s) }
      else Some (0, s))"

definition shut_write :: "bool \<Rightarrow> 'a socket_base_scheme \<Rightarrow> (byte \<times> 'a socket_base_scheme) option" where
  "shut_write wanted s =
     (if wanted \<and> \<not> has_flag (sk_m_wflag s) SHUTDOWN_WR then do {
        let s = s\<lparr> sk_m_wflag := sk_m_wflag s OR SHUTDOWN_WR \<rparr>;
        s \<leftarrow> (if is_nonblocking s then end_async_write s else Some s);
        Some (SHUTDOWN_WR, s) }
      else Some (0, s))"

definition SHUT_RD :: int where "SHUT_RD = 0"
definition SHUT_WR :: int where "SHUT_WR = 1"
definition SHUT_RDWR :: int where "SHUT_RDWR = 2"

text \<open>The return code and \<open>sflag\<close>.\<close>

definition do_shutdown :: "'k socket_fns \<Rightarrow> byte \<Rightarrow> 'a socket_base_scheme \<Rightarrow> 'k \<Rightarrow> (int \<times> byte \<times> 'a socket_base_scheme \<times> 'k) option" where
  "do_shutdown F flag s k =
     do { wawo_assert (is_data_socket s);
          wawo_assert (flag = SHUTDOWN_RD \<or> flag = SHUTDOWN_WR \<or> flag = SHUTDOWN_RDWR);
          (rd, s) \<leftarrow> shut_read (has_flag flag SHUTDOWN_RD) s;
          (wr, s) \<leftarrow> shut_write (has_flag flag SHUTDOWN_WR) s;
          let sflag = rd OR wr;
          if sflag = 0 then Some (E_INVALID_OPERATION, sflag, s, k)
          else do {
            (shutrt, k) \<leftarrow> m_fn_shutdown F (sk_m_fd s)
              (if sflag = SHUTDOWN_RD then SHUT_RD else if sflag = SHUTDOWN_WR then SHUT_WR else SHUT_RDWR) k;
            Some (shutrt, sflag, s, k) } }"

definition sb_shutdown :: "'k socket_fns \<Rightarrow> byte \<Rightarrow> 'a socket_base_scheme \<Rightarrow> 'k \<Rightarrow> (int \<times> 'a socket_base_scheme \<times> 'k) option" where
  "sb_shutdown F flag s k = do { (shutrt, sflag, s, k) \<leftarrow> do_shutdown F flag s k; Some (shutrt, s, k) }"

text \<open>\<open>sin_addr\<close> takes the low 32 bits.\<close>

definition sockaddr_of :: "int \<Rightarrow> address \<Rightarrow> sockaddr" where
  "sockaddr_of soFamily addr = (soFamily, get_netsequence_port addr, ucast (get_netsequence_ulongip addr))"

definition sb_bind :: "'k socket_fns \<Rightarrow> address \<Rightarrow> 'a socket_base_scheme \<Rightarrow> 'k \<Rightarrow> (int \<times> 'a socket_base_scheme \<times> 'k) option" where
  "sb_bind F addr s k =
     do { wawo_assert (sk_m_state s = S_OPENED);
          wawo_assert (sk_m_sm s = SM_NONE);
          wawo_assert (addr_is_null (sk_m_bind_addr s));
          case so_family (sk_m_family s) of
            None \<Rightarrow> Some (E_SOCKET_INVALID_FAMILY, s, k)
          | Some soFamily \<Rightarrow> do {
              (bindrt, k) \<leftarrow> m_fn_bind F (sk_m_fd s) (sockaddr_of soFamily addr) k;
              if bindrt = 0 then Some (OK, s\<lparr> sk_m_bind_addr := addr, sk_m_state := S_BINDED \<rparr>, k)
              else do { wawo_assert (bindrt < 0); Some (bindrt, s, k) } } }"

definition sb_listen :: "'k socket_fns \<Rightarrow> int \<Rightarrow> 'a socket_base_scheme \<Rightarrow> 'k \<Rightarrow> (int \<times> 'a socket_base_scheme \<times> 'k) option" where
  "sb_listen F backlog s k =
     do { wawo_assert (sk_m_sm s = SM_NONE);
          wawo_assert (sk_m_state s = S_BINDED);
          wawo_assert (sk_m_fd s > 0);
          (listenrt, k) \<leftarrow> (if sk_m_protocol s = P_UDP then Some (OK, k) else m_fn_listen F (sk_m_fd s) backlog k);
          if listenrt = 0 then Some (OK, s\<lparr> sk_m_sm := SM_LISTENER, sk_m_state := S_LISTEN \<rparr>, k)
          else Some (listenrt, s, k) }"

text \<open>The loop of accept(), for the constructor \<open>mk\<close> of the accepted sockets. \<open>continue\<close> goes to the test of the loop.\<close>

partial_function (option) accept_loop ::
    "'k socket_fns \<Rightarrow> (int \<Rightarrow> address \<Rightarrow> 'x option) \<Rightarrow> int \<Rightarrow> u32 \<Rightarrow> 'x list \<Rightarrow> int \<Rightarrow> 'k \<Rightarrow> ('x list \<times> int \<times> 'k) option" where
  "accept_loop F mk m_fd asize sockets ec_o k =
     do { (fd, ip, port, k) \<leftarrow> m_fn_accept F m_fd k;
          if fd < 0 then
            (if \<bar>fd\<bar> = EINTR then
               (if of_nat (length sockets) < asize then accept_loop F mk m_fd asize sockets ec_o k else Some (sockets, ec_o, k))
             else Some (sockets, if IS_ERRNO_EQUAL_WOULDBLOCK \<bar>fd\<bar> then ec_o else fd, k))
          else do {
            so \<leftarrow> mk fd (set_netsequence_ulongip (set_netsequence_port 0 port) (ucast ip));
            let sockets = sockets @ [so];
            if of_nat (length sockets) < asize then accept_loop F mk m_fd asize sockets ec_o k else Some (sockets, ec_o, k) } }"

definition sb_accept ::
    "'k socket_fns \<Rightarrow> (int \<Rightarrow> address \<Rightarrow> 'x option) \<Rightarrow> u32 \<Rightarrow> 'a socket_base_scheme \<Rightarrow> 'k \<Rightarrow> ('x list \<times> int \<times> 'k) option" where
  "sb_accept F mk asize s k =
     do { wawo_assert (sk_m_sm s = SM_LISTENER);
          if sk_m_state s \<noteq> S_LISTEN then Some ([], E_INVALID_STATE, k)
          else do {
            (sockets, ec_o, k) \<leftarrow> accept_loop F mk (sk_m_fd s) asize [] OK k;
            Some (sockets, if of_nat (length sockets) = asize then E_TRY_AGAIN else ec_o, k) } }"

definition do_connect :: "'k socket_fns \<Rightarrow> address \<Rightarrow> 'a socket_base_scheme \<Rightarrow> 'k \<Rightarrow> (int \<times> 'a socket_base_scheme \<times> 'k) option" where
  "do_connect F addr s k =
     do { wawo_assert (sk_m_state s = S_OPENED \<or> sk_m_state s = S_BINDED);
          wawo_assert (sk_m_sm s = SM_NONE);
          wawo_assert (addr_is_null (sk_m_addr s));
          case so_family (sk_m_family s) of
            None \<Rightarrow> Some (E_SOCKET_INVALID_FAMILY, s, k)
          | Some soFamily \<Rightarrow> do {
              let s = s\<lparr> sk_m_sm := SM_ACTIVE \<rparr>;
              (connrt, k) \<leftarrow> m_fn_connect F (sk_m_fd s) (sockaddr_of soFamily addr) k;
              if connrt = 0 then Some (OK, s\<lparr> sk_m_addr := addr, sk_m_state := S_CONNECTED \<rparr>, k)
              else do {
                wawo_assert (connrt < 0);
                if is_nonblocking s \<and> IS_ERRNO_EQUAL_CONNECTING \<bar>connrt\<bar>
                then Some (E_SOCKET_CONNECTING, s\<lparr> sk_m_state := S_CONNECTING, sk_m_addr := addr \<rparr>, k)
                else Some (connrt, s, k) } } }"

definition sb_connect :: "'k socket_fns \<Rightarrow> address \<Rightarrow> 'a socket_base_scheme \<Rightarrow> 'k \<Rightarrow> (int \<times> 'a socket_base_scheme \<times> 'k) option" where
  "sb_connect F addr s k =
     (if \<not> (sk_m_state s = S_OPENED \<or> sk_m_state s = S_BINDED) then Some (E_INVALID_STATE, s, k) else do_connect F addr s k)"

definition async_connect :: "'k socket_fns \<Rightarrow> address \<Rightarrow> 'a socket_base_scheme \<Rightarrow> 'k \<Rightarrow> (int \<times> 'a socket_base_scheme \<times> 'k) option" where
  "async_connect F addr s k =
     do { (rt, s, k) \<leftarrow> turnon_nonblocking F s k;
          if rt \<noteq> OK then Some (rt, s, k)
          else do {
            (rt, s, k) \<leftarrow> sb_connect F addr s k;
            if rt = OK then Some (OK, sb_note Schedule_success s, k)
            else if rt = E_SOCKET_CONNECTING then do { s \<leftarrow> begin_async_connect s; Some (OK, s, k) }
            else Some (rt, s, k) } }"

section \<open>Sending and receiving\<close>

definition sb_send :: "'k socket_fns \<Rightarrow> bytes \<Rightarrow> u32 \<Rightarrow> 'a socket_base_scheme \<Rightarrow> 'k \<Rightarrow> (u32 \<times> int \<times> 'k) option" where
  "sb_send F buffer flag s k =
     do { wawo_assert (of_nat (length buffer) > (0 :: u32));
          if has_flag (sk_m_wflag s) SHUTDOWN_WR then Some (0, E_SOCKET_WR_SHUTDOWN_ALREADY, k)
          else m_fn_send F (sk_m_fd s) buffer flag k }"

definition sb_recv :: "'k socket_fns \<Rightarrow> u32 \<Rightarrow> u32 \<Rightarrow> 'a socket_base_scheme \<Rightarrow> 'k \<Rightarrow> (bytes \<times> int \<times> 'k) option" where
  "sb_recv F asize flag s k =
     do { wawo_assert (asize > 0);
          if has_flag (sk_m_rflag s) SHUTDOWN_RD then Some ([], E_SOCKET_RD_SHUTDOWN_ALREADY, k)
          else m_fn_recv F (sk_m_fd s) asize flag k }"

definition sb_sendto :: "'k socket_fns \<Rightarrow> bytes \<Rightarrow> address \<Rightarrow> u32 \<Rightarrow> 'a socket_base_scheme \<Rightarrow> 'k \<Rightarrow> (u32 \<times> int \<times> 'k) option" where
  "sb_sendto F buffer addr flag s k =
     do { wawo_assert (of_nat (length buffer) > (0 :: u32));
          if has_flag (sk_m_wflag s) SHUTDOWN_WR then Some (0, E_SOCKET_WR_SHUTDOWN_ALREADY, k)
          else if sk_m_state s = S_CONNECTED then m_fn_send F (sk_m_fd s) buffer flag k
          else m_fn_sendto F (sk_m_fd s) buffer addr flag k }"

definition sb_recvfrom :: "'k socket_fns \<Rightarrow> u32 \<Rightarrow> address \<Rightarrow> 'a socket_base_scheme \<Rightarrow> 'k \<Rightarrow> (bytes \<times> address \<times> int \<times> 'k) option" where
  "sb_recvfrom F asize addr_o s k =
     (if has_flag (sk_m_rflag s) SHUTDOWN_RD then Some ([], addr_o, E_SOCKET_RD_SHUTDOWN_ALREADY, k)
      else if sk_m_state s = S_CONNECTED then do {
        (d, ec_o, k) \<leftarrow> m_fn_recv F (sk_m_fd s) asize 0 k;
        Some (d, sk_m_addr s, ec_o, k) }
      else m_fn_recvfrom F (sk_m_fd s) asize addr_o 0 k)"

end
