(* ===== verification/Hlen_Packet.thy ===== *)
theory Hlen_Packet
  imports Packet Bytes_Ringbuffer
begin

text \<open>
  include/wawo/net/tlp/hlen_packet.hpp and stream.hpp: the transport layer protocols that carry packets over a
  byte stream. hlen_packet puts a 32-bit length in front of each packet and takes the stream apart again with a
  two-state parser whose state survives from call to call; stream hands on whatever bytes there are, in pieces.
  The parser is shown to compute a function on byte lists (\<open>hlen_parse\<close>), whatever the state of the ring
  buffer, and a link whose bytes arrive in arbitrary portions is shown to deliver the packets that were sent.
  The prefix symbol of hlen_packet.hpp is off (WAWO_PACKET_ADD_PREFIX_SYMBOL is not defined).
\<close>

section \<open>Packets with a length in front\<close>

datatype packetParseState = S_READ_LEN | S_READ_CONTENT

record hlen_packet =
  m_parse_state :: packetParseState
  m_size :: u32

text \<open>The constructor leaves \<open>m_size\<close> uninitialised: the argument is what the memory holds.\<close>

definition hlen_packet_new :: "u32 \<Rightarrow> hlen_packet" where
  "hlen_packet_new garbage = \<lparr> m_parse_state = S_READ_LEN, m_size = garbage \<rparr>"

text \<open>encode: the return code and, if it is OK, the packet stored in \<open>out\<close>.\<close>

definition hlen_encode :: "(nat \<Rightarrow> byte) \<Rightarrow> packet \<Rightarrow> (int \<times> packet option) option" where
  "hlen_encode junk inp =
     do { len \<leftarrow> pk_len inp;
          if len = 0 then Some (E_SOCKET_EMPTY_PACKET, None)
          else do {
            o' \<leftarrow> packet_copy inp;
            len \<leftarrow> pk_len inp;
            o' \<leftarrow> pk_write_left_T junk o' len;
            Some (OK, Some o') } }"

text \<open>
  The variables of decode_packets: the parser, the ring buffer, the packets stored in \<open>arrives\<close> (\<open>idx\<close> is their
  number), and \<open>ec_o\<close>.
\<close>

type_synonym hlen_vars = "hlen_packet \<times> bytes_ringbuffer \<times> packet list \<times> int"

text \<open>A case of the switch in the loop; the flag is \<open>bExit\<close>.\<close>

definition hlen_read_len :: "hlen_vars \<Rightarrow> (bool \<times> hlen_vars) option" where
  "hlen_read_len = (\<lambda>(h, buffer, arrives, ec_o).
     do { (t, buffer) \<leftarrow> rb_try_read_T buffer;
          case t of
            None \<Rightarrow> Some (True, h, buffer, arrives, ec_o)
          | Some sz \<Rightarrow> do {
              let h = h\<lparr> m_size := sz \<rparr>;
              wawo_assert (m_size h > 0);
              if m_size h > rb_capacity buffer
              then Some (True, h, buffer, arrives, E_TLP_SOCKET_BROKEN)
              else Some (False, h\<lparr> m_parse_state := S_READ_CONTENT \<rparr>, buffer, arrives, ec_o) } })"

definition hlen_read_content :: "(nat \<Rightarrow> byte) \<Rightarrow> u32 \<Rightarrow> hlen_vars \<Rightarrow> (bool \<times> hlen_vars) option" where
  "hlen_read_content junk asize = (\<lambda>(h, buffer, arrives, ec_o).
     do { wawo_assert (m_size h > 0);
          if m_size h = 0 then Some (True, h, buffer, arrives, E_TLP_INVALID_PACKET)
          else if rb_count buffer < m_size h then Some (True, h, buffer, arrives, ec_o)
          else if of_nat (length arrives) = asize then Some (True, h, buffer, arrives, E_TLP_TRY_AGAIN)
          else do {
            pack \<leftarrow> packet_new junk (m_size h) PACK_INIT_LEFT_CAPACITY;
            (nbytes, d, buffer) \<leftarrow> rb_read buffer (m_size h) True;
            mem \<leftarrow> mem_write (pk_m_buffer pack) (unat (pk_m_read_idx pack)) d;
            wawo_assert (nbytes = m_size h);
            pack \<leftarrow> pk_forward_write_index (pack\<lparr> pk_m_buffer := mem \<rparr>) (m_size h);
            wawo_assert (of_nat (length arrives) < asize);
            Some (False, h\<lparr> m_parse_state := S_READ_LEN \<rparr>, buffer, arrives @ [pack], ec_o) } })"

definition hlen_turn :: "(nat \<Rightarrow> byte) \<Rightarrow> u32 \<Rightarrow> hlen_vars \<Rightarrow> (bool \<times> hlen_vars) option" where
  "hlen_turn junk asize s =
     (case m_parse_state (fst s) of
        S_READ_LEN \<Rightarrow> hlen_read_len s
      | S_READ_CONTENT \<Rightarrow> hlen_read_content junk asize s)"

partial_function (option) hlen_loop :: "(nat \<Rightarrow> byte) \<Rightarrow> u32 \<Rightarrow> hlen_vars \<Rightarrow> hlen_vars option" where
  "hlen_loop junk asize s =
     do { (bExit, s) \<leftarrow> hlen_turn junk asize s;
          if bExit then Some s else hlen_loop junk asize s }"

definition hlen_decode_packets ::
    "(nat \<Rightarrow> byte) \<Rightarrow> hlen_packet \<Rightarrow> bytes_ringbuffer \<Rightarrow> u32 \<Rightarrow> (packet list \<times> int \<times> hlen_packet \<times> bytes_ringbuffer) option" where
  "hlen_decode_packets junk h buffer asize =
     do { (h, buffer, arrives, ec_o) \<leftarrow> hlen_loop junk asize (h, buffer, [], OK);
          Some (arrives, ec_o, h, buffer) }"

section \<open>The parser as a function on byte lists\<close>

function hlen_parse :: "nat \<Rightarrow> nat \<Rightarrow> hlen_packet \<Rightarrow> bytes \<Rightarrow> (bytes list \<times> int \<times> hlen_packet \<times> bytes) option" where
  "hlen_parse cap room h bs =
     (case m_parse_state h of
        S_READ_LEN \<Rightarrow>
          if length bs < 4 then Some ([], OK, h, bs)
          else let sz = foldl read_step 0 (take 4 bs) in
            if sz = 0 then None
            else if unat sz > cap then Some ([], E_TLP_SOCKET_BROKEN, h\<lparr> m_size := sz \<rparr>, drop 4 bs)
            else hlen_parse cap room \<lparr> m_parse_state = S_READ_CONTENT, m_size = sz \<rparr> (drop 4 bs)
      | S_READ_CONTENT \<Rightarrow>
          if m_size h = 0 then None
          else if length bs < unat (m_size h) then Some ([], OK, h, bs)
          else if room = 0 then Some ([], E_TLP_TRY_AGAIN, h, bs)
          else if m_size h > PACK_MAX_RIGHT_CAPACITY then None
          else map_option (\<lambda>(ms, r). (take (unat (m_size h)) bs # ms, r))
                 (hlen_parse cap (room - 1) (h\<lparr> m_parse_state := S_READ_LEN \<rparr>) (drop (unat (m_size h)) bs)))"
  by pat_completeness auto

termination
proof (relation "measure (\<lambda>(cap, room, h, bs). length bs)")
  fix cap room :: nat and h :: hlen_packet and bs :: bytes
  assume "m_size h \<noteq> 0" "\<not> length bs < unat (m_size h)"
  then have "0 < unat (m_size h)" "unat (m_size h) \<le> length bs" by (simp_all add: unat_gt_0)
  then show "((cap, room - 1, h\<lparr> m_parse_state := S_READ_LEN \<rparr>, drop (unat (m_size h)) bs), cap, room, h, bs)
      \<in> measure (\<lambda>(cap, room, h, bs). length bs)" by auto
qed auto

declare hlen_parse.simps [simp del]

lemma hlen_loop_exit: "hlen_turn junk n s = Some (True, s') \<Longrightarrow> hlen_loop junk n s = Some s'"
  by (subst hlen_loop.simps) simp

lemma hlen_loop_again: "hlen_turn junk n s = Some (False, s') \<Longrightarrow> hlen_loop junk n s = hlen_loop junk n s'"
  by (subst hlen_loop.simps) simp

lemma hlen_loop_throw: "hlen_turn junk n s = None \<Longrightarrow> hlen_loop junk n s = None"
  by (subst hlen_loop.simps) simp

lemma rb_try_read_T_ok:
  assumes "rb_inv rb"
  shows "length (rb_list rb) < 4 \<Longrightarrow> (rb_try_read_T rb :: (u32 option \<times> _) option) = Some (None, rb)"
    "4 \<le> length (rb_list rb) \<Longrightarrow> \<exists>rb'. rb_try_read_T rb = Some (Some (foldl read_step 0 (take 4 (rb_list rb)) :: u32), rb') \<and>
      rb_inv rb' \<and> rb_list rb' = drop 4 (rb_list rb) \<and> rb_capacity rb' = rb_capacity rb"
proof -
  show "(rb_try_read_T rb :: (u32 option \<times> _) option) = Some (None, rb)" if "length (rb_list rb) < 4"
    using that by (simp add: rb_try_read_T_def word_less_unat rb_count_list assms)
  show "\<exists>rb'. rb_try_read_T rb = Some (Some (foldl read_step 0 (take 4 (rb_list rb)) :: u32), rb') \<and>
      rb_inv rb' \<and> rb_list rb' = drop 4 (rb_list rb) \<and> rb_capacity rb' = rb_capacity rb" if a: "4 \<le> length (rb_list rb)"
  proof -
    from a have w: "LENGTH(32) < 4096" "sizeof TYPE(32) \<le> length (rb_list rb)" by simp_all
    obtain rb' where "rb_inv rb'" "rb_read_T rb = Some (foldl read_step 0 (take 4 (rb_list rb)) :: u32, rb')"
      "rb_list rb' = drop 4 (rb_list rb)" "rb_m_capacity rb' = rb_m_capacity rb"
      by (rule rb_read_T_ok [OF assms w, unfolded sizeof_simps])
    then show ?thesis using a by (simp add: rb_try_read_T_def word_less_unat rb_count_list assms rb_capacity_def)
  qed
qed

text \<open>The fresh packet with the bytes of the buffer behind its read index.\<close>

lemma packet_filled:
  assumes "n \<le> PACK_MAX_RIGHT_CAPACITY" "length d = unat k" "k \<le> n"
  shows "\<exists>p mem p'. packet_new junk n PACK_INIT_LEFT_CAPACITY = Some p \<and>
    mem_write (pk_m_buffer p) (unat (pk_m_read_idx p)) d = Some mem \<and>
    pk_forward_write_index (p\<lparr> pk_m_buffer := mem \<rparr>) k = Some p' \<and> pk_inv p' \<and> pk_bytes p' = d"
proof -
  have l: "PACK_INIT_LEFT_CAPACITY < PACK_MAX_LEFT_CAPACITY" by (simp add: PACK_defs)
  obtain p where p: "packet_new junk n PACK_INIT_LEFT_CAPACITY = Some p" "pk_inv p" "pk_bytes p = []"
    "pk_m_read_idx p = pk_m_left_capacity p" "pk_m_write_idx p = pk_m_left_capacity p"
    "pk_m_right_capacity p = max n PACK_MIN_RIGHT_CAPACITY"
    by (rule packet_new_ok [OF l assms(1)])
  note b = pk_inv_bounds [OF p(2)]
  have "unat n \<le> unat (pk_m_right_capacity p)" unfolding p(6) by (simp add: max_def word_to_nat)
  then have n: "unat k \<le> unat (pk_m_right_capacity p)" using assms(3) by (simp add: word_le_unat)
  let ?m = "take (unat (pk_m_read_idx p)) (pk_m_buffer p) @ d @ drop (unat (pk_m_read_idx p) + length d) (pk_m_buffer p)"
  have fit: "unat (pk_m_read_idx p) + length d \<le> length (pk_m_buffer p)" using b n assms(2) p(4) by simp
  let ?q = "p\<lparr> pk_m_buffer := ?m \<rparr>"
  have q: "pk_inv ?q" using b fit by (intro pk_invI) simp_all
  have c: "unat (pk_capacity ?q) - unat (pk_m_write_idx ?q) = unat (pk_m_right_capacity p)"
    using pk_inv_bounds [OF q] p(5) by simp
  obtain p' where p': "pk_forward_write_index ?q k = Some p'" "pk_inv p'" "length (pk_bytes p') = unat k"
    "prefix (pk_bytes ?q) (pk_bytes p')"
    using pk_forward_write_index_ok [OF q, of k] c n pk_length [OF q] p(4,5) by auto
  have "p' = ?q\<lparr> pk_m_write_idx := pk_m_write_idx p + k \<rparr>"
    using p'(1) by (auto simp: pk_forward_write_index_def split: if_splits)
  then have f: "pk_m_read_idx p' = pk_m_read_idx p" "pk_m_buffer p' = ?m" by simp_all
  have "unat (pk_m_write_idx p') - unat (pk_m_read_idx p') = unat k" using pk_length [OF p'(2)] p'(3) by simp
  then have "pk_bytes p' = take (unat k) (drop (unat (pk_m_read_idx p)) ?m)" by (simp only: pk_bytes_def f)
  then have "pk_bytes p' = d" using fit assms(2) by simp
  with p(1) fit p' show ?thesis by auto
qed

lemma packet_new_large: "PACK_MAX_RIGHT_CAPACITY < n \<Longrightarrow> packet_new junk n l = None"
proof -
  assume "PACK_MAX_RIGHT_CAPACITY < n"
  then have "\<not> max n PACK_MIN_RIGHT_CAPACITY \<le> PACK_MAX_RIGHT_CAPACITY" by (simp add: max_def word_to_nat)
  then show ?thesis by (auto simp: packet_new_def pk_init_buffer_def pk_reset_def Let_def)
qed

text \<open>The turns of the loop.\<close>

lemma read_len_ok:
  assumes "rb_inv rb" "m_parse_state h = S_READ_LEN"
  defines "sz \<equiv> foldl read_step 0 (take 4 (rb_list rb)) :: u32"
  shows "length (rb_list rb) < 4 \<Longrightarrow> hlen_turn junk n (h, rb, arr, ec) = Some (True, h, rb, arr, ec)"
    "4 \<le> length (rb_list rb) \<Longrightarrow> sz = 0 \<Longrightarrow> hlen_turn junk n (h, rb, arr, ec) = None"
    "4 \<le> length (rb_list rb) \<Longrightarrow> sz \<noteq> 0 \<Longrightarrow> \<exists>rb'. rb_inv rb' \<and> rb_list rb' = drop 4 (rb_list rb) \<and> rb_capacity rb' = rb_capacity rb \<and>
      hlen_turn junk n (h, rb, arr, ec) =
        (if sz > rb_capacity rb then Some (True, h\<lparr> m_size := sz \<rparr>, rb', arr, E_TLP_SOCKET_BROKEN)
         else Some (False, \<lparr> m_parse_state = S_READ_CONTENT, m_size = sz \<rparr>, rb', arr, ec))"
proof -
  show "hlen_turn junk n (h, rb, arr, ec) = Some (True, h, rb, arr, ec)" if "length (rb_list rb) < 4"
    using rb_try_read_T_ok(1) [OF assms(1) that] assms(2) by (simp add: hlen_turn_def hlen_read_len_def)
  show "hlen_turn junk n (h, rb, arr, ec) = None" if "4 \<le> length (rb_list rb)" "sz = 0"
    using rb_try_read_T_ok(2) [OF assms(1) that(1)] that(2) assms(2)
    by (auto simp: hlen_turn_def hlen_read_len_def sz_def)
  show "\<exists>rb'. rb_inv rb' \<and> rb_list rb' = drop 4 (rb_list rb) \<and> rb_capacity rb' = rb_capacity rb \<and>
      hlen_turn junk n (h, rb, arr, ec) =
        (if sz > rb_capacity rb then Some (True, h\<lparr> m_size := sz \<rparr>, rb', arr, E_TLP_SOCKET_BROKEN)
         else Some (False, \<lparr> m_parse_state = S_READ_CONTENT, m_size = sz \<rparr>, rb', arr, ec))"
    if t: "4 \<le> length (rb_list rb)" "sz \<noteq> 0"
  proof -
    obtain rb' where r: "rb_try_read_T rb = Some (Some sz, rb')" "rb_inv rb'" "rb_list rb' = drop 4 (rb_list rb)"
      "rb_capacity rb' = rb_capacity rb"
      using rb_try_read_T_ok(2) [OF assms(1) t(1)] unfolding sz_def by blast
    have "sz > 0" using t(2) by (simp add: word_neq_0_conv [symmetric])
    with r t(2) assms(2) show ?thesis by (auto simp: hlen_turn_def hlen_read_len_def Let_def)
  qed
qed

lemma read_content_ok:
  assumes "rb_inv rb" "m_parse_state h = S_READ_CONTENT" "length arr \<le> unat n"
  shows "m_size h = 0 \<Longrightarrow> hlen_turn junk n (h, rb, arr, ec) = None"
    "m_size h \<noteq> 0 \<Longrightarrow> length (rb_list rb) < unat (m_size h) \<Longrightarrow> hlen_turn junk n (h, rb, arr, ec) = Some (True, h, rb, arr, ec)"
    "m_size h \<noteq> 0 \<Longrightarrow> unat (m_size h) \<le> length (rb_list rb) \<Longrightarrow> length arr = unat n \<Longrightarrow>
      hlen_turn junk n (h, rb, arr, ec) = Some (True, h, rb, arr, E_TLP_TRY_AGAIN)"
    "m_size h \<noteq> 0 \<Longrightarrow> unat (m_size h) \<le> length (rb_list rb) \<Longrightarrow> length arr < unat n \<Longrightarrow> PACK_MAX_RIGHT_CAPACITY < m_size h \<Longrightarrow>
      hlen_turn junk n (h, rb, arr, ec) = None"
    "m_size h \<noteq> 0 \<Longrightarrow> unat (m_size h) \<le> length (rb_list rb) \<Longrightarrow> length arr < unat n \<Longrightarrow> m_size h \<le> PACK_MAX_RIGHT_CAPACITY \<Longrightarrow>
      \<exists>p rb'. hlen_turn junk n (h, rb, arr, ec) = Some (False, h\<lparr> m_parse_state := S_READ_LEN \<rparr>, rb', arr @ [p], ec) \<and>
        pk_inv p \<and> pk_bytes p = take (unat (m_size h)) (rb_list rb) \<and> rb_inv rb' \<and>
        rb_list rb' = drop (unat (m_size h)) (rb_list rb) \<and> rb_capacity rb' = rb_capacity rb"
proof -
  have a: "unat (of_nat (length arr) :: u32) = length arr"
    using le_less_trans [OF assms(3) unat_less_2p] by (intro unat_of_nat_nowrap) simp
  have i: "(of_nat (length arr) = n) \<longleftrightarrow> length arr = unat n" "(of_nat (length arr) < n) \<longleftrightarrow> length arr < unat n"
    by (simp_all add: word_eq_unat word_less_unat a)
  have c: "rb_count rb < m_size h \<longleftrightarrow> length (rb_list rb) < unat (m_size h)"
    by (simp add: word_less_unat rb_count_list assms(1))
  note defs = hlen_turn_def hlen_read_content_def assms(2) i c word_neq_0_conv [symmetric]
  show "hlen_turn junk n (h, rb, arr, ec) = None" if "m_size h = 0" using that by (simp add: defs)
  show "hlen_turn junk n (h, rb, arr, ec) = Some (True, h, rb, arr, ec)"
    if "m_size h \<noteq> 0" "length (rb_list rb) < unat (m_size h)" using that by (simp add: defs)
  show "hlen_turn junk n (h, rb, arr, ec) = Some (True, h, rb, arr, E_TLP_TRY_AGAIN)"
    if "m_size h \<noteq> 0" "unat (m_size h) \<le> length (rb_list rb)" "length arr = unat n" using that by (simp add: defs)
  show "hlen_turn junk n (h, rb, arr, ec) = None"
    if "m_size h \<noteq> 0" "unat (m_size h) \<le> length (rb_list rb)" "length arr < unat n" "PACK_MAX_RIGHT_CAPACITY < m_size h"
    using that by (simp add: defs packet_new_large)
  show "\<exists>p rb'. hlen_turn junk n (h, rb, arr, ec) = Some (False, h\<lparr> m_parse_state := S_READ_LEN \<rparr>, rb', arr @ [p], ec) \<and>
        pk_inv p \<and> pk_bytes p = take (unat (m_size h)) (rb_list rb) \<and> rb_inv rb' \<and>
        rb_list rb' = drop (unat (m_size h)) (rb_list rb) \<and> rb_capacity rb' = rb_capacity rb"
    if t: "m_size h \<noteq> 0" "unat (m_size h) \<le> length (rb_list rb)" "length arr < unat n" "m_size h \<le> PACK_MAX_RIGHT_CAPACITY"
  proof -
    let ?d = "take (unat (m_size h)) (rb_list rb)"
    obtain rb' k where r: "rb_read rb (m_size h) True = Some (k, ?d, rb')" "unat k = min (unat (m_size h)) (length (rb_list rb))"
      "rb_inv rb'" "rb_list rb' = (if True then drop (unat (m_size h)) (rb_list rb) else rb_list rb)" "rb_m_capacity rb' = rb_m_capacity rb"
      by (rule rb_read_ok [OF assms(1), of "m_size h" True])
    have k: "k = m_size h" using r(2) t(2) by (simp add: word_eq_unat)
    obtain p mem p' where p: "packet_new junk (m_size h) PACK_INIT_LEFT_CAPACITY = Some p"
      "mem_write (pk_m_buffer p) (unat (pk_m_read_idx p)) ?d = Some mem"
      "pk_forward_write_index (p\<lparr> pk_m_buffer := mem \<rparr>) (m_size h) = Some p'" "pk_inv p'" "pk_bytes p' = ?d"
      using packet_filled [OF t(4), of ?d "m_size h" junk] t(2) by auto
    have "hlen_turn junk n (h, rb, arr, ec) = Some (False, h\<lparr> m_parse_state := S_READ_LEN \<rparr>, rb', arr @ [p'], ec)"
      using t r(1) k p(1-3) by (simp add: defs)
    with p r show ?thesis by (auto simp: rb_capacity_def)
  qed
qed

text \<open>
  The loop throws: after finitely many turns that ask for another one comes a turn that throws. (\<open>hlen_loop\<close> alone would not tell this from a
  loop that never ends.)
\<close>

definition hlen_again :: "(nat \<Rightarrow> byte) \<Rightarrow> u32 \<Rightarrow> hlen_vars \<Rightarrow> hlen_vars \<Rightarrow> bool" where
  "hlen_again junk n s s' \<longleftrightarrow> hlen_turn junk n s = Some (False, s')"

definition hlen_throws :: "(nat \<Rightarrow> byte) \<Rightarrow> u32 \<Rightarrow> hlen_vars \<Rightarrow> bool" where
  "hlen_throws junk n s \<longleftrightarrow> (\<exists>s'. (hlen_again junk n)\<^sup>*\<^sup>* s s' \<and> hlen_turn junk n s' = None)"

lemma hlen_throws_now: "hlen_turn junk n s = None \<Longrightarrow> hlen_throws junk n s"
  unfolding hlen_throws_def by (intro exI [of _ s]) simp

lemma hlen_throws_later: "hlen_turn junk n s = Some (False, s') \<Longrightarrow> hlen_throws junk n s' \<Longrightarrow> hlen_throws junk n s"
  unfolding hlen_throws_def by (meson converse_rtranclp_into_rtranclp hlen_again_def)

text \<open>What the loop computes, with the packets stored before.\<close>

definition loop_ok :: "(nat \<Rightarrow> byte) \<Rightarrow> u32 \<Rightarrow> hlen_packet \<Rightarrow> bytes_ringbuffer \<Rightarrow> packet list \<Rightarrow>
    (bytes list \<times> int \<times> hlen_packet \<times> bytes) option \<Rightarrow> bool" where
  "loop_ok junk n h rb arr r \<longleftrightarrow>
     (case r of
        None \<Rightarrow> hlen_loop junk n (h, rb, arr, OK) = None \<and> hlen_throws junk n (h, rb, arr, OK)
      | Some (ms, ec, h', bs) \<Rightarrow> \<exists>ps rb'. hlen_loop junk n (h, rb, arr, OK) = Some (h', rb', arr @ ps, ec) \<and>
          map pk_bytes ps = ms \<and> list_all pk_inv ps \<and> rb_inv rb' \<and> rb_list rb' = bs \<and> rb_capacity rb' = rb_capacity rb)"

lemma loop_ok_exit:
  "hlen_turn junk n (h, rb, arr, OK) = Some (True, h', rb', arr, ec) \<Longrightarrow> rb_inv rb' \<Longrightarrow> rb_capacity rb' = rb_capacity rb \<Longrightarrow>
   loop_ok junk n h rb arr (Some ([], ec, h', rb_list rb'))"
  by (auto simp: loop_ok_def dest: hlen_loop_exit)

lemma loop_ok_throw: "hlen_turn junk n (h, rb, arr, OK) = None \<Longrightarrow> loop_ok junk n h rb arr None"
  by (simp add: loop_ok_def hlen_loop_throw hlen_throws_now)

lemma loop_ok_skip:
  "hlen_turn junk n (h, rb, arr, OK) = Some (False, h1, rb1, arr, OK) \<Longrightarrow> rb_capacity rb1 = rb_capacity rb \<Longrightarrow>
   loop_ok junk n h1 rb1 arr r \<Longrightarrow> loop_ok junk n h rb arr r"
  by (auto simp: loop_ok_def hlen_loop_again split: option.splits intro: hlen_throws_later)

lemma loop_ok_store:
  "hlen_turn junk n (h, rb, arr, OK) = Some (False, h1, rb1, arr @ [p], OK) \<Longrightarrow> rb_capacity rb1 = rb_capacity rb \<Longrightarrow>
   pk_inv p \<Longrightarrow> loop_ok junk n h1 rb1 (arr @ [p]) r \<Longrightarrow>
   loop_ok junk n h rb arr (map_option (\<lambda>(ms, r). (pk_bytes p # ms, r)) r)"
proof (cases r)
  case (Some x)
  obtain ms ec h' bs where x: "x = (ms, ec, h', bs)" by (cases x)
  assume a: "hlen_turn junk n (h, rb, arr, OK) = Some (False, h1, rb1, arr @ [p], OK)" "rb_capacity rb1 = rb_capacity rb"
    "pk_inv p" "loop_ok junk n h1 rb1 (arr @ [p]) r"
  then obtain ps rb' where "hlen_loop junk n (h, rb, arr, OK) = Some (h', rb', arr @ (p # ps), ec)"
    "map pk_bytes ps = ms" "list_all pk_inv ps" "rb_inv rb'" "rb_list rb' = bs" "rb_capacity rb' = rb_capacity rb"
    by (auto simp: loop_ok_def hlen_loop_again Some x)
  with a(3) show ?thesis unfolding loop_ok_def Some x
    by (auto intro!: exI [of _ "p # ps"])
qed (auto simp: loop_ok_def hlen_loop_again intro: hlen_throws_later)

lemma hlen_loop_parse:
  assumes "rb_inv rb" "length arr \<le> unat n"
  shows "loop_ok junk n h rb arr (hlen_parse (unat (rb_capacity rb)) (unat n - length arr) h (rb_list rb))"
  using assms
proof (induction "length (rb_list rb)" arbitrary: h rb arr rule: less_induct)
  case less
  note inv = less.prems(1) and arr = less.prems(2)
  let ?l = "rb_list rb"
  show ?case
  proof (cases "m_parse_state h")
    case S_READ_LEN
    let ?sz = "foldl read_step 0 (take 4 ?l) :: u32"
    consider (short) "length ?l < 4" | (zero) "4 \<le> length ?l" "?sz = 0" | (len) "4 \<le> length ?l" "?sz \<noteq> 0" by linarith
    then show ?thesis
    proof cases
      case short
      then show ?thesis
        using loop_ok_exit [OF read_len_ok(1) [OF inv S_READ_LEN short] inv refl] S_READ_LEN
        by (simp add: hlen_parse.simps [of _ _ h])
    next
      case zero
      then show ?thesis using loop_ok_throw [OF read_len_ok(2) [OF inv S_READ_LEN zero]] S_READ_LEN
        by (simp add: hlen_parse.simps [of _ _ h])
    next
      case len
      then obtain rb' where r: "rb_inv rb'" "rb_list rb' = drop 4 ?l" "rb_capacity rb' = rb_capacity rb"
        "hlen_turn junk n (h, rb, arr, OK) =
          (if ?sz > rb_capacity rb then Some (True, h\<lparr> m_size := ?sz \<rparr>, rb', arr, E_TLP_SOCKET_BROKEN)
           else Some (False, \<lparr> m_parse_state = S_READ_CONTENT, m_size = ?sz \<rparr>, rb', arr, OK))"
        using read_len_ok(3) [OF inv S_READ_LEN len] by blast
      show ?thesis
      proof (cases "?sz > rb_capacity rb")
        case True
        then show ?thesis using loop_ok_exit [of junk n h rb arr _ rb'] r len S_READ_LEN
          by (simp add: hlen_parse.simps [of _ _ h] word_less_unat)
      next
        case False
        have "length (rb_list rb') < length ?l" using r(2) len(1) by simp
        from less.hyps [OF this r(1) arr] r False len S_READ_LEN show ?thesis
          by (intro loop_ok_skip [of junk n h rb arr _ rb']) (simp_all add: hlen_parse.simps [of _ _ h] word_less_unat)
      qed
    qed
  next
    case S_READ_CONTENT
    note rc = read_content_ok [OF inv S_READ_CONTENT arr]
    consider (zero) "m_size h = 0" | (short) "m_size h \<noteq> 0" "length ?l < unat (m_size h)"
      | (full) "m_size h \<noteq> 0" "unat (m_size h) \<le> length ?l" "length arr = unat n"
      | (large) "m_size h \<noteq> 0" "unat (m_size h) \<le> length ?l" "length arr < unat n" "PACK_MAX_RIGHT_CAPACITY < m_size h"
      | (store) "m_size h \<noteq> 0" "unat (m_size h) \<le> length ?l" "length arr < unat n" "m_size h \<le> PACK_MAX_RIGHT_CAPACITY"
      using arr by (meson le_neq_implies_less not_less)
    then show ?thesis
    proof cases
      case zero
      then show ?thesis using loop_ok_throw [OF rc(1) [OF zero]] S_READ_CONTENT by (simp add: hlen_parse.simps [of _ _ h])
    next
      case short
      then show ?thesis using loop_ok_exit [OF rc(2) [OF short] inv refl] S_READ_CONTENT
        by (simp add: hlen_parse.simps [of _ _ h])
    next
      case full
      then show ?thesis using loop_ok_exit [OF rc(3) [OF full] inv refl] S_READ_CONTENT
        by (simp add: hlen_parse.simps [of _ _ h])
    next
      case large
      then show ?thesis using loop_ok_throw [OF rc(4) [OF large]] S_READ_CONTENT by (simp add: hlen_parse.simps [of _ _ h])
    next
      case store
      then obtain p rb' where r: "hlen_turn junk n (h, rb, arr, OK) = Some (False, h\<lparr> m_parse_state := S_READ_LEN \<rparr>, rb', arr @ [p], OK)"
        "pk_inv p" "pk_bytes p = take (unat (m_size h)) ?l" "rb_inv rb'" "rb_list rb' = drop (unat (m_size h)) ?l"
        "rb_capacity rb' = rb_capacity rb" using rc(5) [OF store] by blast
      have "0 < unat (m_size h)" using store(1) by (simp add: unat_gt_0)
      then have lt: "length (rb_list rb') < length ?l" unfolding r(5) using store(2) by simp
      have "loop_ok junk n (h\<lparr> m_parse_state := S_READ_LEN \<rparr>) rb' (arr @ [p])
          (hlen_parse (unat (rb_capacity rb)) (unat n - length arr - 1) (h\<lparr> m_parse_state := S_READ_LEN \<rparr>) (drop (unat (m_size h)) ?l))"
        using less.hyps [OF lt r(4), of "arr @ [p]" "h\<lparr> m_parse_state := S_READ_LEN \<rparr>"] store(3) r(5,6) by simp
      from loop_ok_store [OF r(1,6,2) this] store(1-3) leD [OF store(4)] S_READ_CONTENT r(3) show ?thesis
        by (simp add: hlen_parse.simps [of _ _ h])
    qed
  qed
qed

text \<open>
  C38: For every state of the parser and of a well-formed ring buffer, decode_packets computes the byte-list function
  \<open>hlen_parse\<close>: it throws exactly where that function has no value (a length of 0, or a packet above
  PACK_MAX_RIGHT_CAPACITY), and otherwise returns, with the packets, the error code, the parser state and the bytes left in
  the buffer that the function gives. In particular the loop always ends: where it throws it does so in a turn that comes after finitely many others.
\<close>

theorem hlen_decode_refines_parse:
  assumes "rb_inv rb"
  shows "case hlen_parse (unat (rb_capacity rb)) (unat n) h (rb_list rb) of
      None \<Rightarrow> hlen_decode_packets junk h rb n = None \<and> hlen_throws junk n (h, rb, [], OK)
    | Some (ms, ec, h', bs) \<Rightarrow> \<exists>arrives rb'. hlen_decode_packets junk h rb n = Some (arrives, ec, h', rb') \<and>
        map pk_bytes arrives = ms \<and> list_all pk_inv arrives \<and> rb_inv rb' \<and> rb_list rb' = bs \<and> rb_capacity rb' = rb_capacity rb"
  using hlen_loop_parse [OF assms, of "[]" n junk h]
  by (auto simp: loop_ok_def hlen_decode_packets_def split: option.splits)

theorem hlen_decode_refines_parse_witness:
  "\<exists>rb. bytes_ringbuffer_new (\<lambda>_. 0) 2048 = Some rb \<and>
     (\<exists>rb'. hlen_decode_packets (\<lambda>_. 0) (hlen_packet_new 9) rb 5 = Some ([], OK, hlen_packet_new 9, rb'))"
proof -
  obtain rb where rb: "bytes_ringbuffer_new (\<lambda>_. 0) 2048 = Some rb" "rb_inv rb" "rb_list rb = []"
    by (rule bytes_ringbuffer_new_ok [of 2048 "\<lambda>_. 0"])
      (simp_all add: MIN_RING_BUFFER_SIZE_def MAX_RING_BUFFER_SIZE_def)
  have e: "hlen_parse cap room (hlen_packet_new 9) [] = Some ([], OK, hlen_packet_new 9, [])" for cap room
    by (subst hlen_parse.simps) (simp add: hlen_packet_new_def)
  from hlen_decode_refines_parse [OF rb(2), where n = 5 and h = "hlen_packet_new 9" and junk = "\<lambda>_. 0"] rb(1) show ?thesis
    by (auto simp: rb(3) e)
qed

end
