(* ===== verification/Hlen_Link.thy ===== *)
theory Hlen_Link
  imports Hlen_Packet
begin

text \<open>
  A sender and a receiver of length-prefixed packets joined by a byte stream that may deliver its bytes in any portions:
  what hlen_packet.hpp promises its users. The receiver's ring buffer takes what fits and the parser is called at arbitrary moments.
\<close>

section \<open>The encoding\<close>

definition hl_frame :: "bytes \<Rightarrow> bytes" where
  "hl_frame m = write_impl (of_nat (length m) :: u32) @ m"

lemma pk_length_bound: "pk_inv p \<Longrightarrow> length (pk_bytes p) \<le> 33554432"
  using pk_inv_bounds [of p] pk_length [of p] by auto

lemma unat_of_nat_length: "pk_inv p \<Longrightarrow> unat (of_nat (length (pk_bytes p)) :: u32) = length (pk_bytes p)"
  using pk_length_bound [of p] by (intro unat_of_nat_nowrap) simp

lemma pk_len_of_nat: "pk_inv p \<Longrightarrow> pk_len p = Some (of_nat (length (pk_bytes p)))"
  using pk_len_ok [of p] by (simp add: word_eq_unat unat_of_nat_length)

lemma of_nat_length_0: "pk_inv p \<Longrightarrow> (of_nat (length (pk_bytes p)) :: u32) = 0 \<longleftrightarrow> pk_bytes p = []"
  by (metis length_0_conv unat_eq_0 unat_of_nat_length)

lemma hlen_encode_ok:
  assumes "pk_inv p" "pk_bytes p \<noteq> []" "4 \<le> pk_left_room p"
  shows "\<exists>out. hlen_encode junk p = Some (OK, Some out) \<and> pk_inv out \<and> pk_bytes out = hl_frame (pk_bytes p) \<and>
    pk_right_room p \<le> pk_right_room out"
proof -
  let ?n = "of_nat (length (pk_bytes p)) :: u32"
  obtain out where w: "pk_write_left junk p (write_impl ?n) 4 = Some out" "pk_inv out"
    "pk_bytes out = take (unat (4 :: u32)) (write_impl ?n) @ pk_bytes p" "pk_right_room p \<le> pk_right_room out"
    using pk_write_left_ok [OF assms(1), of 4 "write_impl ?n" junk] assms(3) by auto
  have "hlen_encode junk p = Some (OK, Some out)"
    using assms(2) w(1)
    by (simp add: hlen_encode_def pk_len_of_nat packet_copy_ok assms(1) of_nat_length_0 pk_write_left_T_bytes)
  with w show ?thesis by (simp add: hl_frame_def)
qed

lemma hlen_encode_empty: "pk_inv p \<Longrightarrow> pk_bytes p = [] \<Longrightarrow> hlen_encode junk p = Some (E_SOCKET_EMPTY_PACKET, None)"
  by (simp add: hlen_encode_def pk_len_of_nat)

section \<open>The parser on a stream of frames\<close>

text \<open>The bytes a parser in state \<open>h\<close> has to see to produce \<open>ms\<close>.\<close>

definition hl_wire :: "hlen_packet \<Rightarrow> bytes list \<Rightarrow> bytes" where
  "hl_wire h ms = (case m_parse_state h of
     S_READ_LEN \<Rightarrow> concat (map hl_frame ms)
   | S_READ_CONTENT \<Rightarrow> hd ms @ concat (map hl_frame (tl ms)))"

definition hl_fits :: "hlen_packet \<Rightarrow> bytes list \<Rightarrow> bool" where
  "hl_fits h ms \<longleftrightarrow> (m_parse_state h = S_READ_CONTENT \<longrightarrow> ms \<noteq> [] \<and> unat (m_size h) = length (hd ms))"

definition msgs_ok :: "nat \<Rightarrow> bytes list \<Rightarrow> bool" where
  "msgs_ok cap ms \<longleftrightarrow> (\<forall>m \<in> set ms. m \<noteq> [] \<and> length m \<le> cap \<and> length m \<le> 16777216)"

lemma msgs_ok_simps [simp]:
  "msgs_ok cap []"
  "msgs_ok cap (m # ms) \<longleftrightarrow> m \<noteq> [] \<and> length m \<le> cap \<and> length m \<le> 16777216 \<and> msgs_ok cap ms"
  "msgs_ok cap (ms @ ns) \<longleftrightarrow> msgs_ok cap ms \<and> msgs_ok cap ns"
  by (auto simp: msgs_ok_def)

text \<open>The parts of a split concatenation, when the first part is long enough.\<close>

lemma split_front:
  assumes "bs @ rest = xs @ ys" "length xs \<le> length bs"
  shows "take (length xs) bs = xs" "drop (length xs) bs @ rest = ys"
proof -
  obtain zs where "bs = xs @ zs" "ys = zs @ rest" using assms by (metis append_eq_append_conv_if append_take_drop_id append_eq_conv_conj)
  then show "take (length xs) bs = xs" "drop (length xs) bs @ rest = ys" by simp_all
qed

definition parse_fine :: "nat \<Rightarrow> bytes \<Rightarrow> bytes list \<Rightarrow> (bytes list \<times> int \<times> hlen_packet \<times> bytes) option \<Rightarrow> bool" where
  "parse_fine room rest ms r \<longleftrightarrow>
     (\<exists>ms1 ms2 ec h bs. r = Some (ms1, ec, h, bs) \<and> ms = ms1 @ ms2 \<and> bs @ rest = hl_wire h ms2 \<and> hl_fits h ms2 \<and> length ms1 \<le> room \<and>
        (ec = OK \<and> (rest = [] \<longrightarrow> ms2 = []) \<or> ec = E_TLP_TRY_AGAIN \<and> length ms1 = room))"

lemma parse_fine_store:
  assumes "parse_fine room rest ms r"
  shows "parse_fine (Suc room) rest (m # ms) (map_option (\<lambda>(ms, r). (m # ms, r)) r)"
  using assms by (force simp: parse_fine_def)

lemma parse_wire:
  assumes "bs @ rest = hl_wire h ms" "hl_fits h ms" "msgs_ok cap ms"
  shows "parse_fine room rest ms (hlen_parse cap room h bs)"
  using assms
proof (induction cap room h bs arbitrary: ms rule: hlen_parse.induct)
  case (1 cap room h bs)
  show ?case
  proof (cases "m_parse_state h")
    case S_READ_LEN
    show ?thesis
    proof (cases "length bs < 4")
      case True
      have "ms = []" if "rest = []" using 1(3) True that S_READ_LEN
        by (cases ms) (auto simp: hl_wire_def hl_frame_def)
      then show ?thesis using 1(3,4) True S_READ_LEN by (auto simp: hlen_parse.simps [of _ _ h] parse_fine_def)
    next
      case False
      then obtain m ms' where ms: "ms = m # ms'" using 1(3) S_READ_LEN by (cases ms) (auto simp: hl_wire_def)
      let ?n = "of_nat (length m) :: u32"
      have n: "unat ?n = length m" using 1(5) ms by (intro unat_of_nat_nowrap) simp
      then have n0: "?n \<noteq> 0" using 1(5) ms by (metis length_0_conv msgs_ok_simps(2) unat_0)
      have sp: "bs @ rest = write_impl ?n @ (m @ concat (map hl_frame ms'))"
        using 1(3) S_READ_LEN ms by (simp add: hl_wire_def hl_frame_def)
      note f = split_front [OF sp, simplified, OF False [unfolded not_less]]
      let ?h = "\<lparr> m_parse_state = S_READ_CONTENT, m_size = ?n \<rparr>"
      have d: "foldl read_step 0 (take 4 bs) = ?n" unfolding f(1) by (simp add: foldl_write_impl)
      have "parse_fine room rest ms (hlen_parse cap room ?h (drop 4 bs))"
        using 1(1) [OF S_READ_LEN False refl, where ms = ms] 1(5) f(2) n n0 ms by (simp add: d hl_wire_def hl_fits_def)
      then show ?thesis using S_READ_LEN False 1(5) ms n n0 by (simp add: hlen_parse.simps [of _ _ h] d Let_def)
    qed
  next
    case S_READ_CONTENT
    then obtain m ms' where ms: "ms = m # ms'" "unat (m_size h) = length m" using 1(4) by (cases ms) (auto simp: hl_fits_def)
    have z: "m_size h \<noteq> 0" using ms 1(5) by (metis length_0_conv msgs_ok_simps(2) unat_0)
    have le: "\<not> PACK_MAX_RIGHT_CAPACITY < m_size h" using ms 1(5) by (simp add: word_less_unat)
    have sp: "bs @ rest = m @ concat (map hl_frame ms')" using 1(3) S_READ_CONTENT ms by (simp add: hl_wire_def)
    consider (short) "length bs < length m" | (full) "length m \<le> length bs" "room = 0" | (store) "length m \<le> length bs" "room \<noteq> 0"
      by linarith
    then show ?thesis
    proof cases
      case short
      then have "rest \<noteq> []" using sp by auto
      then show ?thesis using short S_READ_CONTENT ms z 1(3,4) by (auto simp: hlen_parse.simps [of _ _ h] parse_fine_def)
    next
      case full
      then show ?thesis using S_READ_CONTENT ms z 1(3,4) by (auto simp: hlen_parse.simps [of _ _ h] parse_fine_def)
    next
      case store
      note f = split_front [OF sp store(1)]
      let ?h = "h\<lparr> m_parse_state := S_READ_LEN \<rparr>"
      have "parse_fine (room - 1) rest ms' (hlen_parse cap (room - 1) ?h (drop (unat (m_size h)) bs))"
        using 1(2) [OF S_READ_CONTENT z] store ms le f(2) 1(5) by (simp add: hl_wire_def hl_fits_def)
      from parse_fine_store [OF this, of m] show ?thesis
        using S_READ_CONTENT z le store ms f(1) by (simp add: hlen_parse.simps [of _ _ h])
    qed
  qed
qed

section \<open>The link\<close>

text \<open>
  The packets sent, the bytes on their way, the receiver and the contents of the packets it has handed on. encode()
  is given packets with room for the length (or bytes that can be moved to make room) whose contents the receiver's buffer
  can hold; \<open>arrive\<close> offers bytes to the buffer, which takes what fits.
\<close>

record hlen_link =
  lk_sent :: "bytes list"
  lk_in_flight :: bytes
  lk_rb :: bytes_ringbuffer
  lk_hl :: hlen_packet
  lk_delivered :: "bytes list"

inductive hlen_link_reach :: "(nat \<Rightarrow> byte) \<Rightarrow> u32 \<Rightarrow> hlen_link \<Rightarrow> bool" for junk c where
  init: "bytes_ringbuffer_new junk c = Some rb \<Longrightarrow>
    hlen_link_reach junk c \<lparr> lk_sent = [], lk_in_flight = [], lk_rb = rb, lk_hl = hlen_packet_new g, lk_delivered = [] \<rparr>"
| encode: "hlen_link_reach junk c s \<Longrightarrow> pk_inv p \<Longrightarrow> 4 \<le> pk_left_room p \<Longrightarrow> length (pk_bytes p) \<le> unat c \<Longrightarrow>
    length (pk_bytes p) \<le> 16777216 \<Longrightarrow> hlen_encode junk p = Some (ec, Some out) \<Longrightarrow>
    hlen_link_reach junk c (s\<lparr> lk_sent := lk_sent s @ [pk_bytes p], lk_in_flight := lk_in_flight s @ pk_bytes out \<rparr>)"
| arrive: "hlen_link_reach junk c s \<Longrightarrow> n \<noteq> 0 \<Longrightarrow> unat n \<le> length (lk_in_flight s) \<Longrightarrow>
    rb_write (lk_rb s) (lk_in_flight s) n = Some (k, rb) \<Longrightarrow>
    hlen_link_reach junk c (s\<lparr> lk_rb := rb, lk_in_flight := drop (unat k) (lk_in_flight s) \<rparr>)"
| decode: "hlen_link_reach junk c s \<Longrightarrow> hlen_decode_packets junk (lk_hl s) (lk_rb s) n = Some (arrives, ec, h, rb) \<Longrightarrow>
    hlen_link_reach junk c (s\<lparr> lk_hl := h, lk_rb := rb, lk_delivered := lk_delivered s @ map pk_bytes arrives \<rparr>)"

definition link_pending :: "u32 \<Rightarrow> hlen_link \<Rightarrow> bytes list \<Rightarrow> bool" where
  "link_pending c s ms \<longleftrightarrow> rb_inv (lk_rb s) \<and> rb_capacity (lk_rb s) = c \<and> lk_sent s = lk_delivered s @ ms \<and>
     rb_list (lk_rb s) @ lk_in_flight s = hl_wire (lk_hl s) ms \<and> hl_fits (lk_hl s) ms \<and> msgs_ok (unat c) ms"

lemma hl_wire_snoc: "hl_fits h ms \<Longrightarrow> hl_wire h (ms @ [m]) = hl_wire h ms @ hl_frame m \<and> hl_fits h (ms @ [m])"
  by (cases "m_parse_state h"; cases ms) (auto simp: hl_wire_def hl_fits_def)

text \<open>The state after decode_packets has been called on a state with the packets \<open>ms\<close> outstanding.\<close>

lemma link_decode:
  assumes "link_pending c s ms"
  shows "\<exists>arrives ec h rb ms'. hlen_decode_packets junk (lk_hl s) (lk_rb s) n = Some (arrives, ec, h, rb) \<and>
    ms = map pk_bytes arrives @ ms' \<and>
    link_pending c (s\<lparr> lk_hl := h, lk_rb := rb, lk_delivered := lk_delivered s @ map pk_bytes arrives \<rparr>) ms' \<and>
    (ec = OK \<and> (lk_in_flight s = [] \<longrightarrow> ms' = []) \<or> ec = E_TLP_TRY_AGAIN \<and> length arrives = unat n)"
proof -
  have p: "rb_inv (lk_rb s)" "rb_capacity (lk_rb s) = c" "lk_sent s = lk_delivered s @ ms"
    "rb_list (lk_rb s) @ lk_in_flight s = hl_wire (lk_hl s) ms" "hl_fits (lk_hl s) ms" "msgs_ok (unat c) ms"
    using assms by (simp_all add: link_pending_def)
  obtain ms1 ms2 ec h bs where f: "hlen_parse (unat c) (unat n) (lk_hl s) (rb_list (lk_rb s)) = Some (ms1, ec, h, bs)"
    "ms = ms1 @ ms2" "bs @ lk_in_flight s = hl_wire h ms2" "hl_fits h ms2"
    "ec = OK \<and> (lk_in_flight s = [] \<longrightarrow> ms2 = []) \<or> ec = E_TLP_TRY_AGAIN \<and> length ms1 = unat n"
    using parse_wire [OF p(4,5,6), of "unat n"] unfolding parse_fine_def by blast
  obtain ps rb' where r: "hlen_loop junk n (lk_hl s, lk_rb s, [], OK) = Some (h, rb', ps, ec)"
    "map pk_bytes ps = ms1" "rb_inv rb'" "rb_list rb' = bs" "rb_capacity rb' = c"
    using hlen_loop_parse [OF p(1), of "[]" n junk "lk_hl s"] f(1) p(2) by (auto simp: loop_ok_def)
  have "link_pending c (s\<lparr> lk_hl := h, lk_rb := rb', lk_delivered := lk_delivered s @ map pk_bytes ps \<rparr>) ms2"
    using p f r by (simp add: link_pending_def)
  moreover have "length ps = length ms1" using r(2) by (metis length_map)
  ultimately show ?thesis using r(1,2) f(2,5) by (auto simp: hlen_decode_packets_def)
qed

lemma link_reach_pending:
  assumes "hlen_link_reach junk c s"
  shows "\<exists>ms. link_pending c s ms"
  using assms
proof induction
  case (init rb g)
  have "MIN_RING_BUFFER_SIZE \<le> c" "c \<le> MAX_RING_BUFFER_SIZE"
    using init bytes_ringbuffer_new_fails [of c junk] by (metis not_less option.discI)+
  then obtain rb' where "bytes_ringbuffer_new junk c = Some rb'" "rb_inv rb'" "rb_list rb' = []" "rb_capacity rb' = c"
    by (rule bytes_ringbuffer_new_ok)
  with init have "link_pending c \<lparr> lk_sent = [], lk_in_flight = [], lk_rb = rb, lk_hl = hlen_packet_new g, lk_delivered = [] \<rparr> []"
    by (simp add: link_pending_def hl_wire_def hl_fits_def hlen_packet_new_def)
  then show ?case ..
next
  case (encode s p ec out)
  then obtain ms where m: "link_pending c s ms" by blast
  have ne: "pk_bytes p \<noteq> []" using encode.hyps hlen_encode_empty by fastforce
  then have o': "pk_bytes out = hl_frame (pk_bytes p)" using hlen_encode_ok [of p junk] encode.hyps by auto
  have "link_pending c (s\<lparr> lk_sent := lk_sent s @ [pk_bytes p], lk_in_flight := lk_in_flight s @ pk_bytes out \<rparr>) (ms @ [pk_bytes p])"
    using m hl_wire_snoc [of "lk_hl s" ms "pk_bytes p"] encode.hyps ne unfolding link_pending_def by (simp add: o')
  then show ?case ..
next
  case (arrive s n k rb)
  then obtain ms where m: "link_pending c s ms" by blast
  then have inv: "rb_inv (lk_rb s)" by (simp add: link_pending_def)
  obtain rb' k' where "rb_write (lk_rb s) (lk_in_flight s) n = Some (k', rb')" "rb_inv rb'"
    "unat k' = min (unat n) (unat (rb_left_capacity (lk_rb s)))" "rb_list rb' = rb_list (lk_rb s) @ take (unat k') (lk_in_flight s)"
    "rb_m_capacity rb' = rb_m_capacity (lk_rb s)" by (rule rb_write_ok [OF inv arrive.hyps(2,3)])
  with m arrive.hyps(4) have "link_pending c (s\<lparr> lk_rb := rb, lk_in_flight := drop (unat k) (lk_in_flight s) \<rparr>) ms"
    by (simp add: link_pending_def rb_capacity_def)
  then show ?case ..
next
  case (decode s n arrives ec h rb)
  then obtain ms where "link_pending c s ms" by blast
  from link_decode [OF this, of junk n] decode.hyps(2) show ?case by auto
qed

text \<open>
  C20: Whatever packets are encoded, however their bytes are cut into portions and whenever the parser is called: the packets
  handed on are, in order, the first of those sent, with the same contents. Every call of decode_packets returns OK or, when its
  array is full, E_TLP_TRY_AGAIN, and once all bytes have arrived a call that returns OK completes the delivery.
\<close>

theorem hlen_link_delivers:
  assumes "hlen_link_reach junk c s"
  shows "\<exists>arrives ec h rb. hlen_decode_packets junk (lk_hl s) (lk_rb s) n = Some (arrives, ec, h, rb) \<and>
    prefix (lk_delivered s @ map pk_bytes arrives) (lk_sent s) \<and>
    (ec = OK \<or> ec = E_TLP_TRY_AGAIN \<and> length arrives = unat n) \<and>
    (ec = OK \<and> lk_in_flight s = [] \<longrightarrow> lk_delivered s @ map pk_bytes arrives = lk_sent s)"
proof -
  obtain ms where m: "link_pending c s ms" using link_reach_pending [OF assms] ..
  obtain arrives ec h rb ms' where d: "hlen_decode_packets junk (lk_hl s) (lk_rb s) n = Some (arrives, ec, h, rb)"
    "ms = map pk_bytes arrives @ ms'"
    "ec = OK \<and> (lk_in_flight s = [] \<longrightarrow> ms' = []) \<or> ec = E_TLP_TRY_AGAIN \<and> length arrives = unat n"
    using link_decode [OF m, of junk n] by blast
  have "lk_sent s = lk_delivered s @ map pk_bytes arrives @ ms'" using m d(2) by (simp add: link_pending_def)
  moreover have "OK \<noteq> E_TLP_TRY_AGAIN" by (simp add: error_codes)
  ultimately show ?thesis using d(1,3) by (auto simp: prefix_def)
qed

lemma sample_packet:
  obtains p where "pk_inv p" "pk_bytes p = [7, 8]" "4 \<le> pk_left_room p"
proof -
  have l: "(256 :: u32) \<le> PACK_MAX_RIGHT_CAPACITY" and a: "(128 :: u32) < PACK_MAX_LEFT_CAPACITY" by (simp_all add: PACK_defs)
  obtain q where q: "pk_inv q" "pk_bytes q = []" "pk_m_left_capacity q = max 128 PACK_MIN_LEFT_CAPACITY"
    "pk_m_read_idx q = pk_m_left_capacity q" "pk_m_write_idx q = pk_m_left_capacity q"
    by (rule packet_new_ok [OF a l, of "\<lambda>_. 0"])
  have "4 \<le> pk_left_room q" using q by (simp add: pk_left_room_def PACK_defs)
  moreover have "2 \<le> pk_right_room q" using pk_inv_bounds [OF q(1)] q(5) by (simp add: pk_right_room_def)
  ultimately show ?thesis using pk_write_ok [OF q(1), of 2 "[7, 8]" "\<lambda>_. 0"] q(2) that by fastforce
qed

text \<open>A link over which one packet has been sent.\<close>

lemma sample_link:
  "\<exists>s. hlen_link_reach (\<lambda>_. 0) 2048 s \<and> lk_sent s = [[7, 8]] \<and> lk_in_flight s \<noteq> []"
proof -
  obtain rb where rb: "bytes_ringbuffer_new (\<lambda>_. 0) 2048 = Some rb"
    by (rule bytes_ringbuffer_new_ok [of 2048 "\<lambda>_. 0"]) (simp_all add: MIN_RING_BUFFER_SIZE_def MAX_RING_BUFFER_SIZE_def)
  obtain p where p: "pk_inv p" "pk_bytes p = [7, 8]" "4 \<le> pk_left_room p" by (rule sample_packet)
  obtain out where o': "hlen_encode (\<lambda>_. 0) p = Some (OK, Some out)" "pk_bytes out = hl_frame (pk_bytes p)"
    using hlen_encode_ok [OF p(1), of "\<lambda>_. 0"] p by auto
  let ?i = "\<lparr> lk_sent = [], lk_in_flight = [], lk_rb = rb, lk_hl = hlen_packet_new 0, lk_delivered = [] \<rparr>"
  have "hlen_link_reach (\<lambda>_. 0) 2048 (?i\<lparr> lk_sent := lk_sent ?i @ [pk_bytes p], lk_in_flight := lk_in_flight ?i @ pk_bytes out \<rparr>)"
    using p o' by (intro hlen_link_reach.encode [OF hlen_link_reach.init [OF rb]]) simp_all
  then show ?thesis using p(2) o'(2) by (intro exI conjI) (auto simp: hl_frame_def)
qed

theorem hlen_link_delivers_witness:
  "\<exists>s. hlen_link_reach (\<lambda>_. 0) 2048 s \<and> lk_sent s = [[7, 8]] \<and>
    (\<exists>arrives ec h rb. hlen_decode_packets (\<lambda>_. 0) (lk_hl s) (lk_rb s) 5 = Some (arrives, ec, h, rb) \<and>
       prefix (lk_delivered s @ map pk_bytes arrives) (lk_sent s))"
proof -
  obtain s where s: "hlen_link_reach (\<lambda>_. 0) 2048 s" "lk_sent s = [[7, 8]]" using sample_link by blast
  from hlen_link_delivers [OF s(1), of 5] s show ?thesis by blast
qed

end
