(* ===== verification/Xxtea.thy ===== *)
theory Xxtea
  imports Wawo_Prelude
begin

text \<open>
  The block cipher of include/wawo/security/xxtea.hpp: the rounds on arrays of 32-bit words, the conversion
  between bytes and words, and encryption and decryption of a byte string under a 16-byte key.
  Allocation succeeds; an access outside an array and a division by zero are the result None.
\<close>

section \<open>Rounds\<close>

definition WAWO_XXTEA_DELTA :: u32 where "WAWO_XXTEA_DELTA = 0x9e3779b9"

definition WAWO_XXTEA_MX :: "u32 \<Rightarrow> u32 \<Rightarrow> u32 \<Rightarrow> u32 list \<Rightarrow> nat \<Rightarrow> u32 \<Rightarrow> u32" where
  "WAWO_XXTEA_MX z y acc key p e =
     ((drop_bit 5 z XOR push_bit 2 y) + (drop_bit 3 y XOR push_bit 4 z)) XOR
     ((acc XOR y) + (key ! unat ((of_nat p AND 3) XOR e) XOR z))"

definition round_e :: "u32 \<Rightarrow> u32" where
  "round_e acc = drop_bit 2 acc AND 3"

text \<open>One turn of the inner for loop, with the variable z and the array.\<close>

definition encrypt_body :: "u32 list \<Rightarrow> u32 \<Rightarrow> nat \<Rightarrow> u32 \<times> u32 list \<Rightarrow> u32 \<times> u32 list" where
  "encrypt_body key acc p = (\<lambda>(z, v).
     let y = v ! (p + 1);
         z = v ! p + WAWO_XXTEA_MX z y acc key p (round_e acc) in
     (z, v[p := z]))"

definition encrypt_round :: "u32 list \<Rightarrow> nat \<Rightarrow> u32 \<times> u32 \<times> u32 list \<Rightarrow> u32 \<times> u32 \<times> u32 list" where
  "encrypt_round key n = (\<lambda>(acc, z, v).
     let acc = acc + WAWO_XXTEA_DELTA;
         (z, v) = fold (encrypt_body key acc) [0..<n - 1] (z, v);
         y = v ! 0;
         z = v ! (n - 1) + WAWO_XXTEA_MX z y acc key (n - 1) (round_e acc) in
     (acc, z, v[n - 1 := z]))"

definition wikipedia_btea_encrypt :: "u32 list \<Rightarrow> nat \<Rightarrow> u32 list \<Rightarrow> u32 list option" where
  "wikipedia_btea_encrypt v n key =
     (if n = 0 \<or> length v < n then None
      else let rounds = 6 + 52 div n in
           Some (snd (snd ((encrypt_round key n ^^ rounds) (0, v ! (n - 1), v)))))"

definition decrypt_body :: "u32 list \<Rightarrow> u32 \<Rightarrow> nat \<Rightarrow> u32 \<times> u32 list \<Rightarrow> u32 \<times> u32 list" where
  "decrypt_body key acc p = (\<lambda>(y, v).
     let z = v ! (p - 1);
         y = v ! p - WAWO_XXTEA_MX z y acc key p (round_e acc) in
     (y, v[p := y]))"

definition decrypt_round :: "u32 list \<Rightarrow> nat \<Rightarrow> u32 \<times> u32 \<times> u32 list \<Rightarrow> u32 \<times> u32 \<times> u32 list" where
  "decrypt_round key n = (\<lambda>(acc, y, v).
     let (y, v) = fold (decrypt_body key acc) (rev [1..<n]) (y, v);
         z = v ! (n - 1);
         y = v ! 0 - WAWO_XXTEA_MX z y acc key 0 (round_e acc) in
     (acc - WAWO_XXTEA_DELTA, y, v[0 := y]))"

definition wikipedia_btea_decrypt :: "u32 list \<Rightarrow> nat \<Rightarrow> u32 list \<Rightarrow> u32 list option" where
  "wikipedia_btea_decrypt v n key =
     (if n = 0 \<or> length v < n then None
      else let rounds = 6 + 52 div n in
           Some (snd (snd ((decrypt_round key n ^^ rounds) (of_nat rounds * WAWO_XXTEA_DELTA, v ! 0, v)))))"

section \<open>Bytes and words\<close>

text \<open>The bytes of an array of words in the memory of a little-endian machine.\<close>

definition word_byte :: "u32 \<Rightarrow> nat \<Rightarrow> byte" where
  "word_byte w i = ucast (drop_bit (8 * i) w)"

definition le_bytes :: "u32 list \<Rightarrow> bytes" where
  "le_bytes ws = concat (map (\<lambda>w. map (word_byte w) [0..<4]) ws)"

fun le_words :: "bytes \<Rightarrow> u32 list" where
  "le_words (a # b # c # d # bs) =
     (ucast a OR push_bit 8 (ucast b) OR push_bit 16 (ucast c) OR push_bit 24 (ucast d)) # le_words bs"
| "le_words _ = []"

text \<open>
  \<open>le\<close> is is_little_endian(); \<open>dlen\<close> is what the assertion compares with, not the length of the array, and reading beyond the array is
  None. The loop of the other case ors a byte into its word.
\<close>

definition xxtea_to_bytes_array :: "bool \<Rightarrow> nat \<Rightarrow> u32 list \<Rightarrow> nat \<Rightarrow> bytes option" where
  "xxtea_to_bytes_array le alength data dlen =
     do { wawo_assert (dlen div 4 \<le> alength);
          if 4 * length data < alength then None
          else if le then Some (take alength (le_bytes data))
          else Some (map (\<lambda>i. ucast (drop_bit ((i mod 4) * 8) (data ! (i div 4)))) [0..<alength]) }"

definition or_byte :: "bytes \<Rightarrow> nat \<Rightarrow> u32 list \<Rightarrow> u32 list" where
  "or_byte data i arr = arr[i div 4 := arr ! (i div 4) OR push_bit ((i mod 4) * 8) (ucast (data ! i))]"

definition xxtea_to_uint32_array :: "bool \<Rightarrow> u32 list \<Rightarrow> bytes \<Rightarrow> u32 list option" where
  "xxtea_to_uint32_array le arr data =
     (if 4 * length arr < length data then None
      else if le then Some (le_words (data @ drop (length data) (le_bytes arr)))
      else Some (fold (or_byte data) [0..<length data] arr))"

section \<open>Encryption of a byte string\<close>

definition xxtea_key :: "bool \<Rightarrow> bytes \<Rightarrow> u32 list option" where
  "xxtea_key le key = (let tmp = take 16 key @ replicate (16 - length key) 0 in
     xxtea_to_uint32_array le (replicate 4 0) tmp)"

text \<open>
  A result is the error code, or the bytes of the context. Lengths are 32-bit: \<open>u32len + 1\<close> words fit, but their number of bytes is
  shifted as a 32-bit number. A C++ caller cannot pass 2^32 bytes or more.
\<close>

definition xxtea_encrypt :: "bool \<Rightarrow> bytes \<Rightarrow> bytes \<Rightarrow> (int + bytes) option" where
  "xxtea_encrypt le data key =
     do { wawo_assert (length key > 0);
          u32k \<leftarrow> xxtea_key le key;
          let u32len = (if length data mod 4 = 0 then length data div 4 else length data div 4 + 1);
          u32data \<leftarrow> xxtea_to_uint32_array le (replicate u32len 0) data;
          u32data \<leftarrow> wikipedia_btea_encrypt (u32data @ [of_nat (length data)]) (u32len + 1) u32k;
          let encrypted_data_length = unat (push_bit 2 (of_nat (u32len + 1)) :: u32);
          out \<leftarrow> xxtea_to_bytes_array le encrypted_data_length u32data u32len;
          Some (Inr out) }"

definition xxtea_decrypt :: "bool \<Rightarrow> bytes \<Rightarrow> bytes \<Rightarrow> (int + bytes) option" where
  "xxtea_decrypt le data key =
     do { wawo_assert (length key > 0);
          if length data mod 4 \<noteq> 0 then Some (Inl E_XXTEA_INVALID_DATA)
          else do {
            u32k \<leftarrow> xxtea_key le key;
            let u32len = length data div 4;
            u32data \<leftarrow> xxtea_to_uint32_array le (replicate u32len 0) data;
            u32data \<leftarrow> wikipedia_btea_decrypt u32data u32len u32k;
            let n = unat (u32data ! (u32len - 1));
            if n > length data then Some (Inl E_XXTEA_INVALID_DATA)
            else do { out \<leftarrow> xxtea_to_bytes_array le n u32data (u32len - 1); Some (Inr out) } } }"

section \<open>The class\<close>

text \<open>The member m_key; a key of more than 16 bytes is written past its end.\<close>

definition set_key :: "bytes \<Rightarrow> bytes option" where
  "set_key k = do { wawo_assert (length k > 0);
     if length k > 16 then None else Some (k @ replicate (16 - length k) (of_nat (of_char CHR ''z''))) }"

section \<open>The rounds are inverse to each other\<close>

text \<open>The change of one word, in terms of its neighbours on the ring of \<open>n\<close> words.\<close>

definition ring_mx :: "u32 list \<Rightarrow> u32 \<Rightarrow> nat \<Rightarrow> nat \<Rightarrow> u32 list \<Rightarrow> u32" where
  "ring_mx key s n p v = WAWO_XXTEA_MX (v ! ((p + n - 1) mod n)) (v ! ((p + 1) mod n)) s key p (round_e s)"

definition enc_step :: "u32 list \<Rightarrow> u32 \<Rightarrow> nat \<Rightarrow> nat \<Rightarrow> u32 list \<Rightarrow> u32 list" where
  "enc_step key s n p v = v[p := v ! p + ring_mx key s n p v]"

definition dec_step :: "u32 list \<Rightarrow> u32 \<Rightarrow> nat \<Rightarrow> nat \<Rightarrow> u32 list \<Rightarrow> u32 list" where
  "dec_step key s n p v = v[p := v ! p - ring_mx key s n p v]"

lemma step_length [simp]: "length (enc_step key s n p v) = length v" "length (dec_step key s n p v) = length v"
  by (simp_all add: enc_step_def dec_step_def)

lemma fold_step_length [simp]:
  "length (fold (enc_step key s n) ps v) = length v" "length (fold (dec_step key s n) ps v) = length v"
  by (induction ps arbitrary: v) simp_all

lemma ring_neighbours:
  fixes n p :: nat
  assumes "2 \<le> n" "p < n"
  shows "(p + n - 1) mod n \<noteq> p" "(p + 1) mod n \<noteq> p"
  using assms by (auto simp: mod_if)

lemma step_inverse: "2 \<le> n \<Longrightarrow> p < n \<Longrightarrow> length v = n \<Longrightarrow> dec_step key s n p (enc_step key s n p v) = v"
  using ring_neighbours [of n p] by (simp add: enc_step_def dec_step_def ring_mx_def)

lemma fold_steps_inverse:
  "2 \<le> n \<Longrightarrow> \<forall>p \<in> set ps. p < n \<Longrightarrow> length v = n \<Longrightarrow>
   fold (dec_step key s n) (rev ps) (fold (enc_step key s n) ps v) = v"
  by (induction ps arbitrary: v) (simp_all add: step_inverse)

lemma encrypt_body_step:
  assumes "length v = n" "p + 1 < n" "z = v ! ((p + n - 1) mod n)"
  shows "encrypt_body key s p (z, v) = (enc_step key s n p v ! p, enc_step key s n p v)"
  using assms by (simp add: encrypt_body_def enc_step_def ring_mx_def Let_def)

lemma encrypt_for:
  assumes "length v = n" "k < n"
  shows "fold (encrypt_body key s) [0..<k] (v ! (n - 1), v) =
    (fold (enc_step key s n) [0..<k] v ! ((k + n - 1) mod n), fold (enc_step key s n) [0..<k] v)"
  using assms(2)
proof (induction k)
  case 0
  then show ?case using assms by simp
next
  case (Suc k)
  define w where "w = fold (enc_step key s n) [0..<k] v"
  have "length w = n" using assms(1) by (simp add: w_def)
  moreover have "(Suc k + n - 1) mod n = k" using Suc.prems by simp
  ultimately show ?case
    using Suc encrypt_body_step [of w n k _ key s] by (simp add: w_def [symmetric])
qed

lemma encrypt_round_steps:
  assumes "length v = n" "0 < n"
  shows "encrypt_round key n (s, v ! (n - 1), v) =
    (let v' = fold (enc_step key (s + WAWO_XXTEA_DELTA) n) [0..<n] v in (s + WAWO_XXTEA_DELTA, v' ! (n - 1), v'))"
proof -
  define t where "t = s + WAWO_XXTEA_DELTA"
  define w where "w = fold (enc_step key t n) [0..<n - 1] v"
  have "[0..<n] = [0..<n - 1] @ [n - 1]" using assms(2) by (metis Suc_pred' upt_Suc_append zero_le)
  then have f: "fold (enc_step key t n) [0..<n] v = enc_step key t n (n - 1) w" by (simp add: w_def)
  have l: "length w = n" using assms(1) by (simp add: w_def)
  have i: "(n - 1 + 1) mod n = 0" using assms(2) by simp
  have "fold (encrypt_body key t) [0..<n - 1] (v ! (n - 1), v) = (w ! ((n - 1 + n - 1) mod n), w)"
    using encrypt_for [OF assms(1), of "n - 1" key t] assms(2) by (simp add: w_def)
  then have "encrypt_round key n (s, v ! (n - 1), v) = (t, enc_step key t n (n - 1) w ! (n - 1), enc_step key t n (n - 1) w)"
    using l i assms(2) unfolding encrypt_round_def t_def [symmetric] by (simp add: enc_step_def ring_mx_def t_def [symmetric] Let_def)
  then show ?thesis unfolding t_def [symmetric] f Let_def .
qed

lemma decrypt_body_step:
  assumes "length v = n" "0 < p" "p < n" "y = v ! ((p + 1) mod n)"
  shows "decrypt_body key s p (y, v) = (dec_step key s n p v ! p, dec_step key s n p v)"
proof -
  have "(p + n - 1) mod n = p - 1" using assms(2,3) by (simp add: mod_if)
  with assms show ?thesis by (simp add: decrypt_body_def dec_step_def ring_mx_def Let_def)
qed

lemma decrypt_for:
  assumes "length v = n" "k < n"
  shows "fold (decrypt_body key s) (rev [n - k..<n]) (v ! 0, v) =
    (fold (dec_step key s n) (rev [n - k..<n]) v ! ((n - k) mod n), fold (dec_step key s n) (rev [n - k..<n]) v)"
  using assms(2)
proof (induction k)
  case 0
  then show ?case by simp
next
  case (Suc k)
  define w where "w = fold (dec_step key s n) (rev [n - k..<n]) v"
  have l: "length w = n" using assms(1) by (simp add: w_def)
  have p: "n - Suc k + 1 = n - k" "0 < n - Suc k" "n - Suc k < n" using Suc.prems by auto
  have up: "[n - Suc k..<n] = (n - Suc k) # [n - k..<n]" using p by (metis Suc_eq_plus1 upt_conv_Cons)
  show ?case
    using Suc decrypt_body_step [OF l p(2,3) refl, of key s] p by (simp add: up w_def [symmetric])
qed

lemma decrypt_round_steps:
  assumes "length v = n" "0 < n"
  shows "decrypt_round key n (s, v ! 0, v) =
    (let v' = fold (dec_step key s n) (rev [0..<n]) v in (s - WAWO_XXTEA_DELTA, v' ! 0, v'))"
proof -
  define w where "w = fold (dec_step key s n) (rev [1..<n]) v"
  have "[0..<n] = 0 # [1..<n]" using assms(2) by (simp add: upt_conv_Cons)
  then have f: "fold (dec_step key s n) (rev [0..<n]) v = dec_step key s n 0 w" by (simp add: w_def)
  have l: "length w = n" using assms(1) by (simp add: w_def)
  have n: "n - (n - 1) = 1" "(0 + n - 1) mod n = n - 1" using assms(2) by auto
  have "fold (decrypt_body key s) (rev [1..<n]) (v ! 0, v) = (w ! (1 mod n), w)"
    using decrypt_for [OF assms(1), of "n - 1" key s] assms(2) unfolding n(1) w_def by simp
  then have "decrypt_round key n (s, v ! 0, v) = (s - WAWO_XXTEA_DELTA, dec_step key s n 0 w ! 0, dec_step key s n 0 w)"
    using l n assms(2) unfolding decrypt_round_def by (simp add: dec_step_def ring_mx_def Let_def)
  then show ?thesis unfolding f Let_def .
qed

lemma rounds_inverse:
  assumes "2 \<le> n" "length v = n"
  shows "\<exists>w. length w = n \<and> (encrypt_round key n ^^ r) (s, v ! (n - 1), v) = (s + of_nat r * WAWO_XXTEA_DELTA, w ! (n - 1), w) \<and>
    (decrypt_round key n ^^ r) (s + of_nat r * WAWO_XXTEA_DELTA, w ! 0, w) = (s, v ! 0, v)"
proof (induction r)
  case 0
  then show ?case using assms by simp
next
  case (Suc r)
  then obtain w where w: "length w = n" "(encrypt_round key n ^^ r) (s, v ! (n - 1), v) = (s + of_nat r * WAWO_XXTEA_DELTA, w ! (n - 1), w)"
    "(decrypt_round key n ^^ r) (s + of_nat r * WAWO_XXTEA_DELTA, w ! 0, w) = (s, v ! 0, v)" by blast
  let ?t = "s + of_nat r * WAWO_XXTEA_DELTA + WAWO_XXTEA_DELTA"
  let ?w = "fold (enc_step key ?t n) [0..<n] w"
  have t: "s + of_nat (Suc r) * WAWO_XXTEA_DELTA = ?t" by (simp add: algebra_simps)
  have n: "0 < n" and l: "length ?w = n" using assms(1) w(1) by simp_all
  have "(encrypt_round key n ^^ Suc r) (s, v ! (n - 1), v) = (?t, ?w ! (n - 1), ?w)"
    using w(2) encrypt_round_steps [OF w(1) n, of key] by (simp add: Let_def)
  moreover have "decrypt_round key n (?t, ?w ! 0, ?w) = (s + of_nat r * WAWO_XXTEA_DELTA, w ! 0, w)"
    using decrypt_round_steps [OF l n, of key ?t] fold_steps_inverse [OF assms(1) _ w(1), of "[0..<n]" key ?t] by (simp add: Let_def)
  then have "(decrypt_round key n ^^ Suc r) (?t, ?w ! 0, ?w) = (s, v ! 0, v)"
    using w(3) by (simp add: funpow_Suc_right del: funpow.simps)
  ultimately show ?case using l unfolding t by blast
qed

lemma btea_inverse:
  assumes "2 \<le> n" "length v = n"
  shows "\<exists>w. wikipedia_btea_encrypt v n key = Some w \<and> length w = n \<and> wikipedia_btea_decrypt w n key = Some v"
  using rounds_inverse [OF assms, where key = key and r = "6 + 52 div n" and s = 0] assms
  by (auto simp: wikipedia_btea_encrypt_def wikipedia_btea_decrypt_def Let_def)

section \<open>The conversions do not depend on the machine\<close>

abbreviation le_word :: "byte \<Rightarrow> byte \<Rightarrow> byte \<Rightarrow> byte \<Rightarrow> u32" where
  "le_word a b c d \<equiv> ucast a OR push_bit 8 (ucast b) OR push_bit 16 (ucast c) OR push_bit 24 (ucast d)"

lemma length_le_bytes [simp]: "length (le_bytes ws) = 4 * length ws"
  by (induction ws) (simp_all add: le_bytes_def)

lemma upt4: "[0..<4] = [0, 1, 2, 3 :: nat]"
  by (simp add: upt_rec)

lemma le_bytes_simps [simp]:
  "le_bytes [] = []" "le_bytes (w # ws) = word_byte w 0 # word_byte w 1 # word_byte w 2 # word_byte w 3 # le_bytes ws"
  "le_bytes (us @ ws) = le_bytes us @ le_bytes ws"
  by (simp_all add: le_bytes_def upt4)

lemma bit_word_byte: "bit (word_byte w i) j = (j < 8 \<and> bit w (8 * i + j))"
  by (simp add: word_byte_def bit_ucast_iff bit_drop_bit_eq)

lemma bit_byte: "bit (x :: byte) n \<Longrightarrow> n < 8"
  using bit_imp_le_length [of x n] by simp

lemma bit_le_word:
  "bit (le_word a b c d) n \<longleftrightarrow> bit a n \<or> 8 \<le> n \<and> bit b (n - 8) \<or> 16 \<le> n \<and> bit c (n - 16) \<or> 24 \<le> n \<and> bit d (n - 24)"
  (is "_ = ?r")
proof -
  have "bit (le_word a b c d) n \<longleftrightarrow> n < 32 \<and> ?r"
    by (auto simp: bit_or_iff bit_push_bit_iff bit_ucast_iff)
  moreover have "?r \<Longrightarrow> n < 32" by (auto dest!: bit_byte)
  ultimately show ?thesis by blast
qed

lemma le_word_bytes: "le_word (word_byte w 0) (word_byte w 1) (word_byte w 2) (word_byte w 3) = w"
proof (rule bit_word_eqI)
  fix n assume "n < LENGTH(32)"
  then consider "n < 8" | "8 \<le> n" "n < 16" | "16 \<le> n" "n < 24" | "24 \<le> n" "n < 32" by force
  then show "bit (le_word (word_byte w 0) (word_byte w 1) (word_byte w 2) (word_byte w 3)) n = bit w n"
    unfolding bit_le_word by cases (auto simp: bit_word_byte)
qed

lemma word_byte_le_word:
  "word_byte (le_word a b c d) 0 = a" "word_byte (le_word a b c d) 1 = b"
  "word_byte (le_word a b c d) 2 = c" "word_byte (le_word a b c d) 3 = d"
  by (rule bit_word_eqI; auto simp only: bit_word_byte bit_le_word; auto dest: bit_byte)+

lemma le_words_bytes [simp]: "le_words (le_bytes ws) = ws"
  by (induction ws) (simp_all add: le_word_bytes [simplified])

lemma length_le_words [simp]: "length (le_words bs) = length bs div 4"
  by (induction bs rule: le_words.induct) auto

lemma le_bytes_words: "4 dvd length bs \<Longrightarrow> le_bytes (le_words bs) = bs"
proof (induction bs rule: le_words.induct)
  case (1 a b c d bs)
  then have "4 dvd length bs" by (auto simp: dvd_def) presburger
  with 1 show ?case by (simp add: word_byte_le_word [simplified])
qed (auto dest: dvd_imp_le)

lemma le_bytes_zero: "le_bytes (replicate k 0) = replicate (4 * k) 0"
  by (induction k) (simp_all add: word_byte_def replicate_add numeral_eq_Suc)

lemma nth_le_bytes: "i < 4 * length ws \<Longrightarrow> le_bytes ws ! i = word_byte (ws ! (i div 4)) (i mod 4)"
proof (induction ws arbitrary: i)
  case (Cons w ws)
  show ?case
  proof (cases "i < 4")
    case True
    then have "i = 0 \<or> i = 1 \<or> i = 2 \<or> i = 3" by auto
    then show ?thesis by auto
  next
    case False
    then obtain j where j: "i = j + 4" by (metis add.commute le_Suc_ex not_less)
    then have "le_bytes (w # ws) ! i = le_bytes ws ! j" by (simp add: numeral_eq_Suc)
    moreover have "i div 4 = Suc (j div 4)" using j by simp
    ultimately show ?thesis using Cons j by simp
  qed
qed simp

lemma to_bytes_any_endian:
  assumes "alength \<le> 4 * length data" "dlen div 4 \<le> alength"
  shows "xxtea_to_bytes_array le alength data dlen = Some (take alength (le_bytes data))"
proof (cases le)
  case False
  have "map (\<lambda>i. ucast (drop_bit ((i mod 4) * 8) (data ! (i div 4)))) [0..<alength] = take alength (le_bytes data)"
    using assms by (intro nth_equalityI) (simp_all add: nth_le_bytes word_byte_def mult.commute)
  with False assms show ?thesis by (simp add: xxtea_to_bytes_array_def)
qed (use assms in \<open>simp add: xxtea_to_bytes_array_def\<close>)

lemma nth_le_words:
  "j < length bs div 4 \<Longrightarrow> le_words bs ! j = le_word (bs ! (4 * j)) (bs ! (4 * j + 1)) (bs ! (4 * j + 2)) (bs ! (4 * j + 3))"
proof (induction bs arbitrary: j rule: le_words.induct)
  case (1 a b c d bs)
  show ?case
  proof (cases j)
    case (Suc k)
    with 1 have "le_words bs ! k = le_word (bs ! (4 * k)) (bs ! (4 * k + 1)) (bs ! (4 * k + 2)) (bs ! (4 * k + 3))" by simp
    moreover have "4 * j = Suc (Suc (Suc (Suc (4 * k))))" using Suc by simp
    ultimately show ?thesis using Suc by (simp add: numeral_eq_Suc)
  qed (simp add: numeral_eq_Suc)
qed auto

text \<open>Storing the byte number \<open>k\<close> where there was a zero is or-ing it into its word.\<close>

lemma le_words_update:
  assumes "length bs = 4 * n" "k < 4 * n" "bs ! k = 0"
  shows "le_words (bs[k := x]) = (le_words bs)[k div 4 := le_words bs ! (k div 4) OR push_bit ((k mod 4) * 8) (ucast x)]"
proof (rule nth_equalityI)
  fix j assume "j < length (le_words (bs[k := x]))"
  then have j: "j < n" using assms(1) by simp
  show "le_words (bs[k := x]) ! j = (le_words bs)[k div 4 := le_words bs ! (k div 4) OR push_bit ((k mod 4) * 8) (ucast x)] ! j"
  proof (cases "j = k div 4")
    case False
    then have "k \<noteq> 4 * j" "k \<noteq> 4 * j + 1" "k \<noteq> 4 * j + 2" "k \<noteq> 4 * j + 3" by auto
    with False j assms show ?thesis by (simp add: nth_le_words)
  next
    case True
    define r where "r = k mod 4"
    have k: "k = 4 * j + r" "r < 4" using True by (simp_all add: r_def)
    have z: "bs ! (4 * j + r) = 0" "4 * j + r < 4 * n" using assms(2,3) k(1) by simp_all
    have "le_words (bs[4 * j + r := x]) ! j = le_words bs ! j OR push_bit (r * 8) (ucast x)"
    proof -
      consider "r = 0" | "r = 1" | "r = 2" | "r = 3" using k(2) by linarith
      then show ?thesis using z j assms(1) by cases (simp_all add: nth_le_words or.assoc or.commute or.left_commute)
    qed
    then have "le_words (bs[k := x]) ! j = le_words bs ! j OR push_bit ((k mod 4) * 8) (ucast x)"
      unfolding r_def [symmetric] k(1) [symmetric] .
    then show ?thesis using j assms(1) unfolding True [symmetric] by simp
  qed
qed (use assms in simp)

lemma or_bytes_prefix:
  assumes "k \<le> length data" "length data \<le> 4 * n"
  shows "fold (or_byte data) [0..<k] (replicate n 0) = le_words (take k data @ replicate (4 * n - k) 0)"
  using assms(1)
proof (induction k)
  case 0
  have "le_words (replicate (4 * n) 0) = replicate n 0" using le_words_bytes [of "replicate n 0"] by (simp add: le_bytes_zero)
  then show ?case by simp
next
  case (Suc k)
  let ?b = "take k data @ replicate (4 * n - k) 0"
  have l: "length ?b = 4 * n" "k < 4 * n" "?b ! k = 0" using Suc.prems assms(2) by (simp_all add: nth_append)
  have "replicate (4 * n - k) (0 :: byte) = 0 # replicate (4 * n - Suc k) 0"
    using l(2) by (metis Suc_diff_Suc replicate_Suc)
  then have "?b[k := data ! k] = take (Suc k) data @ replicate (4 * n - Suc k) 0"
    using Suc.prems by (simp add: list_update_append take_Suc_conv_app_nth)
  with le_words_update [OF l, of "data ! k"] Suc show ?case by (simp add: or_byte_def)
qed

lemma to_words_any_endian:
  assumes "length data \<le> 4 * n"
  shows "xxtea_to_uint32_array le (replicate n 0) data = Some (le_words (data @ replicate (4 * n - length data) 0))"
  using assms or_bytes_prefix [OF le_refl assms] by (simp add: xxtea_to_uint32_array_def le_bytes_zero)

section \<open>Properties\<close>

lemma xxtea_key_any_endian: "xxtea_key le key = Some (le_words (take 16 key @ replicate (16 - length key) 0))"
  using to_words_any_endian [of "take 16 key @ replicate (16 - length key) 0" 4 le] by (simp add: xxtea_key_def Let_def)

text \<open>The number of words, and of bytes of the result: from 2^32 - 7 bytes on it does not fit into 32 bits.\<close>

lemma xxtea_words: "(if k mod 4 = 0 then k div 4 else k div 4 + 1) = (k + 3) div 4" for k :: nat
  by (auto simp: mod_eq_0_iff_dvd elim!: dvdE) presburger

lemma xxtea_bytes:
  fixes n :: nat
  shows "unat (push_bit 2 (of_nat (n + 1)) :: u32) = (4 * (n + 1)) mod 2 ^ 32"
proof -
  have "push_bit 2 (of_nat (n + 1)) = (of_nat (4 * (n + 1)) :: u32)" by (simp add: push_bit_eq_mult)
  then show ?thesis by (simp only: unat_of_nat) simp
qed

lemma xxtea_roundtrip:
  assumes "data \<noteq> []" "length data < 2 ^ 32 - 7" "key \<noteq> []"
  shows "\<exists>out. xxtea_encrypt le data key = Some (Inr out) \<and> length out = 4 * ((length data + 3) div 4 + 1) \<and>
    xxtea_decrypt le' out key = Some (Inr data)"
proof -
  define n where "n = (length data + 3) div 4"
  have n: "(if length data mod 4 = 0 then length data div 4 else length data div 4 + 1) = n"
    unfolding n_def by (rule xxtea_words)
  have le: "length data \<le> 4 * n" "n \<le> length data" unfolding n_def using assms(1) by (presburger, cases data) auto
  have "length data < 4294967289" using assms(2) by simp
  then have "4 * (n + 1) < 4294967296" unfolding n_def by presburger
  then have sz: "unat (push_bit 2 (1 + of_nat n) :: u32) = 4 * (n + 1)" using xxtea_bytes [of n] by simp
  have n2: "2 \<le> n + 1" using assms(1) by (simp add: n_def Suc_le_eq div_greater_zero_iff)
  define k where "k = le_words (take 16 key @ replicate (16 - length key) 0)"
  define d where "d = data @ replicate (4 * n - length data) 0"
  have d: "length d = 4 * n" using le by (simp add: d_def)
  have ld: "length (le_words d @ [of_nat (length data)]) = n + 1" using d by simp
  obtain w where w: "wikipedia_btea_encrypt (le_words d @ [of_nat (length data)]) (n + 1) k = Some w" "length w = n + 1"
    "wikipedia_btea_decrypt w (n + 1) k = Some (le_words d @ [of_nat (length data)])"
    using btea_inverse [OF n2 ld, of k] by blast
  have t: "xxtea_to_bytes_array le (4 * (n + 1)) w n = Some (le_bytes w)" for le using to_bytes_any_endian [of "4 * (n + 1)" w n le] w(2) by simp
  have e: "xxtea_encrypt le data key = Some (Inr (le_bytes w))"
    using assms(3) w(1) t to_words_any_endian [OF le(1), of le]
    by (simp add: xxtea_encrypt_def xxtea_key_any_endian n k_def [symmetric] d_def [symmetric] sz Let_def)
  have u: "xxtea_to_uint32_array le (replicate (Suc n) 0) (le_bytes w) = Some w" for le
    using to_words_any_endian [of "le_bytes w" "n + 1" le] w(2) by simp
  have m: "unat (of_nat (length data) :: u32) = length data" using assms(2) by (intro unat_of_nat_nowrap) simp
  have "take (length data) (le_bytes (le_words d)) = data" using d by (simp add: le_bytes_words d_def)
  then have o: "xxtea_to_bytes_array le' (length data) (le_words d @ [of_nat (length data)]) n = Some data"
    using to_bytes_any_endian [of "length data" "le_words d @ [of_nat (length data)]" n le'] le d by simp
  have "xxtea_decrypt le' (le_bytes w) key = Some (Inr data)"
    using assms(3) w(2,3) le d
    by (simp add: xxtea_decrypt_def xxtea_key_any_endian k_def [symmetric] u [simplified] Let_def nth_append m o)
  with e w(2) show ?thesis by (simp add: n_def)
qed

lemma xxtea_overflow:
  assumes "2 ^ 32 - 7 \<le> length data" "length data < 2 ^ 32"
  shows "xxtea_encrypt le data key = None"
proof -
  define n where "n = (length data + 3) div 4"
  have n: "(if length data mod 4 = 0 then length data div 4 else length data div 4 + 1) = n"
    unfolding n_def by (rule xxtea_words)
  have l: "4294967289 \<le> length data" "length data < 4294967296" using assms by simp_all
  have b: "1073741823 \<le> n" "n \<le> 1073741824" unfolding n_def using l by presburger+
  then have "n = 1073741823 \<or> n = 1073741824" by linarith
  then have "(4 * (n + 1)) mod 2 ^ 32 \<le> 4" by auto
  with b have "\<not> n div 4 \<le> unat (push_bit 2 (of_nat (n + 1)) :: u32)" unfolding xxtea_bytes by linarith
  then have "xxtea_to_bytes_array le (unat (push_bit 2 (of_nat (Suc n)) :: u32)) w n = None" for w by (simp add: xxtea_to_bytes_array_def)
  then show ?thesis by (auto simp: xxtea_encrypt_def n Let_def split: Option.bind_splits)
qed

text \<open>
  C37: Decryption undoes encryption for every non-empty byte string of fewer than 2^32 - 7 bytes and every key, and the two
  machines need not have the same byte order. For longer ones the length of the result wraps around and encryption throws.
\<close>

theorem xxtea_decrypts_any_endian:
  assumes "data \<noteq> []" "length data < 2 ^ 32" "key \<noteq> []"
  shows "if length data < 2 ^ 32 - 7
    then \<exists>out. xxtea_encrypt le data key = Some (Inr out) \<and> xxtea_decrypt le' out key = Some (Inr data)
    else xxtea_encrypt le data key = None"
  using xxtea_roundtrip [OF assms(1) _ assms(3), of le le'] xxtea_overflow [OF _ assms(2), of le key] by (auto simp: not_less)

theorem xxtea_decrypts_any_endian_witness:
  "\<exists>out. xxtea_encrypt True [1, 2, 3] [9] = Some (Inr out) \<and> xxtea_decrypt False out [9] = Some (Inr [1, 2, 3])"
  using xxtea_decrypts_any_endian [of "[1, 2, 3]" "[9]" True False] by simp

end
