(* ===== verification/Symmetric_Encrypt.thy ===== *)
theory Symmetric_Encrypt
  imports Hlen_Link Xxtea
begin

text \<open>
  The class xxtea of include/wawo/security/xxtea.hpp, which encrypts and decrypts packets, and include/wawo/net/tlp/symmetric_encrypt.hpp,
  the length-prefixed packets whose contents are encrypted. The interface cipher_abstract is the locale \<open>packet_cipher\<close>: what the protocol
  relies on is that decryption undoes encryption; xxtea provides it.
\<close>

section \<open>The class xxtea\<close>

definition E_XXTEA_DECRYPT_FAILED :: int where "E_XXTEA_DECRYPT_FAILED = -20013"
definition E_XXTEA_ENCRYPT_FAILED :: int where "E_XXTEA_ENCRYPT_FAILED = -20014"

record xxtea =
  xx_m_key :: bytes

definition xxtea_new :: "xxtea option" where
  "xxtea_new = do { k \<leftarrow> set_key (replicate 16 0); Some \<lparr> xx_m_key = k \<rparr> }"

definition xx_set_key :: "xxtea \<Rightarrow> bytes \<Rightarrow> xxtea option" where
  "xx_set_key c k = do { k \<leftarrow> set_key k; Some (c\<lparr> xx_m_key := k \<rparr>) }"

text \<open>The bytes at \<open>begin()\<close>, \<open>len()\<close> of them.\<close>

definition pk_content :: "packet \<Rightarrow> bytes option" where
  "pk_content p = do { len \<leftarrow> pk_len p; mem_read (pk_m_buffer p) (unat (pk_m_read_idx p)) (unat len) }"

text \<open>A packet with room for the bytes, and the bytes written into it.\<close>

definition packet_of :: "(nat \<Rightarrow> byte) \<Rightarrow> bytes \<Rightarrow> packet option" where
  "packet_of junk d =
     do { p \<leftarrow> packet_new junk (of_nat (length d)) PACK_INIT_LEFT_CAPACITY;
          pk_write junk p d (of_nat (length d)) }"

definition xx_encrypt :: "bool \<Rightarrow> (nat \<Rightarrow> byte) \<Rightarrow> xxtea \<Rightarrow> packet \<Rightarrow> (int \<times> packet option) option" where
  "xx_encrypt le junk c inp =
     do { d \<leftarrow> pk_content inp;
          tea \<leftarrow> xxtea_encrypt le d (xx_m_key c);
          case tea of
            Inl ec \<Rightarrow> do { wawo_assert (ec = OK); Some (E_XXTEA_ENCRYPT_FAILED, None) }
          | Inr encrypted_data \<Rightarrow> do { encrypted \<leftarrow> packet_of junk encrypted_data; Some (OK, Some encrypted) } }"

definition xx_decrypt :: "bool \<Rightarrow> (nat \<Rightarrow> byte) \<Rightarrow> xxtea \<Rightarrow> packet \<Rightarrow> (int \<times> packet option) option" where
  "xx_decrypt le junk c inp =
     do { d \<leftarrow> pk_content inp;
          tea \<leftarrow> xxtea_decrypt le d (xx_m_key c);
          case tea of
            Inl ec \<Rightarrow> do { wawo_assert (ec = OK); Some (E_XXTEA_DECRYPT_FAILED, None) }
          | Inr decrypted_data \<Rightarrow> do { decrypted \<leftarrow> packet_of junk decrypted_data; Some (OK, Some decrypted) } }"

section \<open>The protocol\<close>

record symmetric_encrypt =
  se_hlen :: hlen_packet
  se_m_cipher :: "xxtea option"

definition symmetric_encrypt_new :: "u32 \<Rightarrow> symmetric_encrypt" where
  "symmetric_encrypt_new garbage = \<lparr> se_hlen = hlen_packet_new garbage, se_m_cipher = None \<rparr>"

definition set_cipher :: "xxtea option \<Rightarrow> symmetric_encrypt \<Rightarrow> symmetric_encrypt" where
  "set_cipher c s = s\<lparr> se_m_cipher := c \<rparr>"

definition sym_encode :: "bool \<Rightarrow> (nat \<Rightarrow> byte) \<Rightarrow> symmetric_encrypt \<Rightarrow> packet \<Rightarrow> (int \<times> packet option) option" where
  "sym_encode le junk s inp =
     (case se_m_cipher s of
        None \<Rightarrow> None
      | Some c \<Rightarrow> do {
          (rt, encrypted) \<leftarrow> xx_encrypt le junk c inp;
          if rt \<noteq> OK then Some (rt, None)
          else do { e \<leftarrow> encrypted; hlen_encode junk e } })"

text \<open>The loop over the \<open>decodert\<close> packets: those decrypted so far are the elements below \<open>pcount\<close>.\<close>

primrec sym_decrypt_loop :: "bool \<Rightarrow> (nat \<Rightarrow> byte) \<Rightarrow> xxtea \<Rightarrow> u32 \<Rightarrow> packet list \<Rightarrow> packet list \<Rightarrow> int \<Rightarrow> (packet list \<times> int) option" where
  "sym_decrypt_loop le junk c asize [] done ec_o = Some (done, ec_o)"
| "sym_decrypt_loop le junk c asize (p # ps) done ec_o =
     do { (decryptrt, decrypted) \<leftarrow> xx_decrypt le junk c p;
          if decryptrt \<noteq> OK then Some (done, decryptrt)
          else do {
            wawo_assert (of_nat (length done) < asize);
            d \<leftarrow> decrypted;
            sym_decrypt_loop le junk c asize ps (done @ [d]) ec_o } }"

definition sym_decode_packets ::
    "bool \<Rightarrow> (nat \<Rightarrow> byte) \<Rightarrow> symmetric_encrypt \<Rightarrow> bytes_ringbuffer \<Rightarrow> u32 \<Rightarrow>
     (packet list \<times> int \<times> symmetric_encrypt \<times> bytes_ringbuffer) option" where
  "sym_decode_packets le junk s buffer asize =
     (case se_m_cipher s of
        None \<Rightarrow> None
      | Some c \<Rightarrow> do {
          (outs, ec_o, h, buffer) \<leftarrow> hlen_decode_packets junk (se_hlen s) buffer asize;
          (outs, ec_o) \<leftarrow> sym_decrypt_loop le junk c asize outs [] ec_o;
          Some (outs, ec_o, s\<lparr> se_hlen := h \<rparr>, buffer) })"

section \<open>Encryption of packets\<close>

lemma pk_content_ok: "pk_inv p \<Longrightarrow> pk_content p = Some (pk_bytes p)"
  using pk_inv_bounds [of p] pk_len_ok [of p] pk_length [of p]
  by (auto simp: pk_content_def pk_bytes_def)

lemma packet_of_ok:
  assumes "length d \<le> 16769152"
  shows "\<exists>p. packet_of junk d = Some p \<and> pk_inv p \<and> pk_bytes p = d \<and> 128 \<le> pk_left_room p \<and> 16769152 - length d \<le> pk_right_room p"
proof -
  let ?n = "of_nat (length d) :: u32"
  have n: "unat ?n = length d" using assms by (intro unat_of_nat_nowrap) simp
  have c: "PACK_INIT_LEFT_CAPACITY < PACK_MAX_LEFT_CAPACITY" "?n \<le> PACK_MAX_RIGHT_CAPACITY"
    using assms n by (simp_all add: PACK_defs word_le_unat)
  obtain p where p: "packet_new junk ?n PACK_INIT_LEFT_CAPACITY = Some p" "pk_inv p" "pk_bytes p = []"
    "pk_m_left_capacity p = max PACK_INIT_LEFT_CAPACITY PACK_MIN_LEFT_CAPACITY" "pk_m_read_idx p = pk_m_left_capacity p"
    "pk_m_write_idx p = pk_m_left_capacity p" by (rule packet_new_ok [OF c])
  have l: "128 \<le> pk_left_room p" using p(3-5) by (simp add: pk_left_room_def PACK_defs)
  have r: "16769152 \<le> pk_right_room p" using pk_inv_bounds [OF p(2)] p(6) by (simp add: pk_right_room_def)
  obtain q where "pk_write junk p d ?n = Some q" "pk_inv q" "pk_bytes q = pk_bytes p @ take (unat ?n) d"
    "pk_right_room p \<le> pk_right_room q + unat ?n" "pk_left_room p \<le> pk_left_room q"
    using pk_write_ok [OF p(2), of ?n d junk] r n assms by auto
  with p(1,3) l r n show ?thesis by (auto simp: packet_of_def)
qed

text \<open>
  What a user of cipher_abstract relies on; encryption and decryption may run on different machines. The length of
  the result is bounded because packets are.
\<close>

locale packet_cipher =
  fixes valid :: "'k \<Rightarrow> bool"
    and encrypt decrypt :: "'k \<Rightarrow> packet \<Rightarrow> (int \<times> packet option) option"
    and limit :: nat
  assumes cipher_law: "valid k \<Longrightarrow> pk_inv p \<Longrightarrow> pk_bytes p \<noteq> [] \<Longrightarrow> length (pk_bytes p) \<le> limit \<Longrightarrow>
    \<exists>q. encrypt k p = Some (OK, Some q) \<and> pk_inv q \<and> pk_bytes q \<noteq> [] \<and> length (pk_bytes q) \<le> length (pk_bytes p) + 7 \<and> 128 \<le> pk_left_room q \<and>
      (\<forall>q'. pk_inv q' \<and> pk_bytes q' = pk_bytes q \<longrightarrow> (\<exists>r. decrypt k q' = Some (OK, Some r) \<and> pk_inv r \<and> pk_bytes r = pk_bytes p))"
begin

lemma decrypt_encrypted:
  assumes "valid k" "pk_inv p" "pk_bytes p \<noteq> []" "length (pk_bytes p) \<le> limit" "encrypt k p = Some (rt, Some q)"
    "pk_inv q'" "pk_bytes q' = pk_bytes q"
  shows "rt = OK \<and> pk_inv q \<and> pk_bytes q \<noteq> [] \<and> 128 \<le> pk_left_room q \<and> length (pk_bytes q) \<le> length (pk_bytes p) + 7 \<and>
    (\<exists>r. decrypt k q' = Some (OK, Some r) \<and> pk_inv r \<and> pk_bytes r = pk_bytes p)"
  using cipher_law [OF assms(1-4)] assms(5-7) by auto

end

lemma xx_cipher_law:
  assumes "xx_m_key c \<noteq> []" "pk_inv p" "pk_bytes p \<noteq> []" "length (pk_bytes p) \<le> 16769144"
  shows "\<exists>q. xx_encrypt le junk c p = Some (OK, Some q) \<and> pk_inv q \<and> pk_bytes q \<noteq> [] \<and>
      length (pk_bytes q) \<le> length (pk_bytes p) + 7 \<and> 128 \<le> pk_left_room q \<and>
      (\<forall>q'. pk_inv q' \<and> pk_bytes q' = pk_bytes q \<longrightarrow>
         (\<exists>r. xx_decrypt le' junk' c q' = Some (OK, Some r) \<and> pk_inv r \<and> pk_bytes r = pk_bytes p))"
proof -
  let ?d = "pk_bytes p"
  have "length ?d < 2 ^ 32 - 7" using assms(4) by simp
  then obtain out where x: "xxtea_encrypt le ?d (xx_m_key c) = Some (Inr out)" "length out = 4 * ((length ?d + 3) div 4 + 1)"
    "xxtea_decrypt le' out (xx_m_key c) = Some (Inr ?d)"
    using xxtea_roundtrip [OF assms(3) _ assms(1)] by blast
  have len: "length out \<le> length ?d + 7" "out \<noteq> []" using x(2) by auto
  then obtain q where q: "packet_of junk out = Some q" "pk_inv q" "pk_bytes q = out" "128 \<le> pk_left_room q"
    using packet_of_ok [of out junk] assms(4) by auto
  obtain r where r: "packet_of junk' ?d = Some r" "pk_inv r" "pk_bytes r = ?d"
    using packet_of_ok [of ?d junk'] assms(4) by auto
  show ?thesis
    using x q r len assms(2) by (intro exI [of _ q]) (auto simp: xx_encrypt_def xx_decrypt_def pk_content_ok)
qed

interpretation xxc: packet_cipher "\<lambda>c. xx_m_key c \<noteq> []" "xx_encrypt le junk" "xx_decrypt le' junk'" 16769144 for le le' junk junk'
  by unfold_locales (use xx_cipher_law in blast)

section \<open>Round trip\<close>

lemma sym_decrypt_loop_ok:
  assumes "list_all2 (\<lambda>q p. \<exists>r. xx_decrypt le junk c q = Some (OK, Some r) \<and> pk_inv r \<and> pk_bytes r = pk_bytes p) qs ps"
    "length dn + length qs \<le> unat n"
  shows "\<exists>rs. sym_decrypt_loop le junk c n qs dn ec = Some (dn @ rs, ec) \<and> map pk_bytes rs = map pk_bytes ps \<and> list_all pk_inv rs"
  using assms
proof (induction arbitrary: dn rule: list_all2_induct)
  case (Cons q qs p ps)
  then obtain r where r: "xx_decrypt le junk c q = Some (OK, Some r)" "pk_inv r" "pk_bytes r = pk_bytes p" by blast
  have "length dn < unat n" using Cons.prems by simp
  moreover have "unat (of_nat (length dn) :: u32) = length dn"
    using less_trans [OF \<open>length dn < unat n\<close> unat_less_2p] by (intro unat_of_nat_nowrap) simp
  ultimately have "(of_nat (length dn) :: u32) < n" by (simp add: word_less_unat)
  moreover obtain rs where "sym_decrypt_loop le junk c n qs (dn @ [r]) ec = Some ((dn @ [r]) @ rs, ec)" "map pk_bytes rs = map pk_bytes ps"
    "list_all pk_inv rs" using Cons.IH [of "dn @ [r]"] Cons.prems by auto
  ultimately show ?case using r by (intro exI [of _ "r # rs"]) simp
qed simp

text \<open>The encrypted packet inside a frame.\<close>

lemma sym_encodeE:
  assumes "sym_encode le junk s p = Some (OK, Some out)" "se_m_cipher s = Some c" "xx_m_key c \<noteq> []"
    "pk_inv p" "pk_bytes p \<noteq> []" "length (pk_bytes p) \<le> 16769144"
  shows "\<exists>q. pk_bytes out = hl_frame (pk_bytes q) \<and> pk_bytes q \<noteq> [] \<and> length (pk_bytes q) \<le> length (pk_bytes p) + 7 \<and>
    (\<forall>q'. pk_inv q' \<and> pk_bytes q' = pk_bytes q \<longrightarrow>
      (\<exists>r. xx_decrypt le' junk' c q' = Some (OK, Some r) \<and> pk_inv r \<and> pk_bytes r = pk_bytes p))"
proof -
  obtain q where q: "xx_encrypt le junk c p = Some (OK, Some q)" "pk_inv q" "pk_bytes q \<noteq> []" "length (pk_bytes q) \<le> length (pk_bytes p) + 7"
    "128 \<le> pk_left_room q" "\<forall>q'. pk_inv q' \<and> pk_bytes q' = pk_bytes q \<longrightarrow>
      (\<exists>r. xx_decrypt le' junk' c q' = Some (OK, Some r) \<and> pk_inv r \<and> pk_bytes r = pk_bytes p)"
    using xxc.cipher_law [OF assms(3-6)] by blast
  have "hlen_encode junk q = Some (OK, Some out)" using assms(1,2) q(1) by (simp add: sym_encode_def)
  then have "pk_bytes out = hl_frame (pk_bytes q)" using hlen_encode_ok [OF q(2,3), of junk] q(5) by auto
  with q show ?thesis by blast
qed

lemma sym_wire:
  assumes "list_all2 (\<lambda>p out. sym_encode le junk s p = Some (OK, Some out)) ps outs" "se_m_cipher s = Some c" "xx_m_key c \<noteq> []"
    "list_all (\<lambda>p. pk_inv p \<and> pk_bytes p \<noteq> [] \<and> length (pk_bytes p) \<le> 16769144 \<and> length (pk_bytes p) + 7 \<le> cap) ps"
  shows "\<exists>ms. concat (map pk_bytes outs) = concat (map hl_frame ms) \<and> msgs_ok cap ms \<and>
    list_all2 (\<lambda>m p. \<forall>q. pk_inv q \<and> pk_bytes q = m \<longrightarrow>
      (\<exists>r. xx_decrypt le' junk' c q = Some (OK, Some r) \<and> pk_inv r \<and> pk_bytes r = pk_bytes p)) ms ps"
  using assms(1,4)
proof (induction rule: list_all2_induct)
  case (Cons p ps out outs)
  have p: "pk_inv p" "pk_bytes p \<noteq> []" "length (pk_bytes p) \<le> 16769144" "length (pk_bytes p) + 7 \<le> cap" using Cons.prems by simp_all
  obtain q where q: "pk_bytes out = hl_frame (pk_bytes q)" "pk_bytes q \<noteq> []" "length (pk_bytes q) \<le> length (pk_bytes p) + 7"
    "\<forall>q'. pk_inv q' \<and> pk_bytes q' = pk_bytes q \<longrightarrow>
      (\<exists>r. xx_decrypt le' junk' c q' = Some (OK, Some r) \<and> pk_inv r \<and> pk_bytes r = pk_bytes p)"
    using sym_encodeE [OF Cons.hyps(1) assms(2,3) p(1-3)] by blast
  obtain ms where ms: "concat (map pk_bytes outs) = concat (map hl_frame ms)" "msgs_ok cap ms"
    "list_all2 (\<lambda>m p. \<forall>q. pk_inv q \<and> pk_bytes q = m \<longrightarrow>
      (\<exists>r. xx_decrypt le' junk' c q = Some (OK, Some r) \<and> pk_inv r \<and> pk_bytes r = pk_bytes p)) ms ps"
    using Cons.IH Cons.prems by auto
  have "msgs_ok cap (pk_bytes q # ms)" using ms(2) q(2,3) p(3,4) by simp
  then show ?case using ms(1,3) q(1,4) by (intro exI [of _ "pk_bytes q # ms"]) simp
qed simp

lemma sym_decode_ok:
  assumes "se_m_cipher s' = Some c" "rb_inv rb" "rb_list rb @ rest = hl_wire (se_hlen s') ms" "hl_fits (se_hlen s') ms"
    "msgs_ok (unat (rb_capacity rb)) ms"
    "list_all2 (\<lambda>m p. \<forall>q. pk_inv q \<and> pk_bytes q = m \<longrightarrow>
      (\<exists>r. xx_decrypt le' junk' c q = Some (OK, Some r) \<and> pk_inv r \<and> pk_bytes r = pk_bytes p)) ms ps"
  shows "\<exists>arr ec s'' rb'. sym_decode_packets le' junk' s' rb n = Some (arr, ec, s'', rb') \<and>
    map pk_bytes arr = take (length arr) (map pk_bytes ps) \<and> length arr \<le> length ps \<and>
    (ec = OK \<and> (rest = [] \<longrightarrow> length arr = length ps) \<or> ec = E_TLP_TRY_AGAIN \<and> length arr = unat n)"
proof -
  obtain ms1 ms2 ec h bs where f: "hlen_parse (unat (rb_capacity rb)) (unat n) (se_hlen s') (rb_list rb) = Some (ms1, ec, h, bs)"
    "ms = ms1 @ ms2" "length ms1 \<le> unat n"
    "ec = OK \<and> (rest = [] \<longrightarrow> ms2 = []) \<or> ec = E_TLP_TRY_AGAIN \<and> length ms1 = unat n"
    using parse_wire [OF assms(3-5), of "unat n"] unfolding parse_fine_def by blast
  obtain qs rb' where r: "hlen_loop junk' n (se_hlen s', rb, [], OK) = Some (h, rb', qs, ec)" "map pk_bytes qs = ms1" "list_all pk_inv qs"
    using hlen_loop_parse [OF assms(2), of "[]" n junk' "se_hlen s'"] f(1) by (auto simp: loop_ok_def)
  have len: "length qs = length ms1" using r(2) by (metis length_map)
  have lps: "length ms = length ps" using assms(6) by (rule list_all2_lengthD)
  let ?ps = "take (length ms1) ps"
  have "list_all2 (\<lambda>q p. \<exists>r. xx_decrypt le' junk' c q = Some (OK, Some r) \<and> pk_inv r \<and> pk_bytes r = pk_bytes p) qs ?ps"
    unfolding list_all2_conv_all_nth
  proof (intro conjI allI impI)
    show "length qs = length ?ps" using len lps f(2) by simp
    fix i assume i: "i < length qs"
    then have "pk_inv (qs ! i)" using r(3) by (simp add: list_all_length)
    moreover have "pk_bytes (qs ! i) = ms ! i" using i len arg_cong [OF r(2), of "\<lambda>l. l ! i"] by (simp only: f(2) nth_append nth_map if_True)
    moreover have "i < length ms" using i len f(2) by simp
    ultimately show "\<exists>r. xx_decrypt le' junk' c (qs ! i) = Some (OK, Some r) \<and> pk_inv r \<and> pk_bytes r = pk_bytes (?ps ! i)"
      using list_all2_nthD [OF assms(6)] i len by simp
  qed
  then obtain rs where rs: "sym_decrypt_loop le' junk' c n qs [] ec = Some (rs, ec)" "map pk_bytes rs = map pk_bytes ?ps"
    using sym_decrypt_loop_ok [of le' junk' c qs ?ps "[]" n ec] len f(3) by auto
  have lr: "length rs = length ms1" using arg_cong [OF rs(2), of length] lps f(2) by simp
  have "sym_decode_packets le' junk' s' rb n = Some (rs, ec, s'\<lparr> se_hlen := h \<rparr>, rb')"
    using assms(1) r(1) rs(1) by (simp add: sym_decode_packets_def hlen_decode_packets_def)
  moreover have "map pk_bytes rs = take (length rs) (map pk_bytes ps)" "length rs \<le> length ps"
    using rs(2) lr f(2) lps by (simp_all add: take_map)
  moreover have "ec = OK \<and> (rest = [] \<longrightarrow> length rs = length ps) \<or> ec = E_TLP_TRY_AGAIN \<and> length rs = unat n"
    using f(2,4) lr lps by auto
  ultimately show ?thesis by blast
qed

text \<open>
  C21: Two endpoints with the same key understand each other, also when their machines differ in byte order: of the packets one endpoint encoded,
  the other decodes, from the bytes that have arrived so far, the first ones unchanged, and all of them when everything has arrived and its
  array has room.
\<close>

theorem symmetric_encrypt_roundtrip:
  assumes "se_m_cipher s = Some c" "se_m_cipher s' = Some c" "xx_m_key c \<noteq> []" "m_parse_state (se_hlen s') = S_READ_LEN" "rb_inv rb"
    "list_all2 (\<lambda>p out. sym_encode le junk s p = Some (OK, Some out)) ps outs"
    "list_all (\<lambda>p. pk_inv p \<and> pk_bytes p \<noteq> [] \<and> length (pk_bytes p) \<le> 16769144 \<and> length (pk_bytes p) + 7 \<le> unat (rb_capacity rb)) ps"
    "rb_list rb @ rest = concat (map pk_bytes outs)"
  shows "\<exists>arr ec s'' rb'. sym_decode_packets le' junk' s' rb n = Some (arr, ec, s'', rb') \<and>
    map pk_bytes arr = take (length arr) (map pk_bytes ps) \<and> length arr \<le> length ps \<and>
    (ec = OK \<and> (rest = [] \<longrightarrow> length arr = length ps) \<or> ec = E_TLP_TRY_AGAIN \<and> length arr = unat n)"
proof -
  obtain ms where ms: "concat (map pk_bytes outs) = concat (map hl_frame ms)" "msgs_ok (unat (rb_capacity rb)) ms"
    "list_all2 (\<lambda>m p. \<forall>q. pk_inv q \<and> pk_bytes q = m \<longrightarrow>
      (\<exists>r. xx_decrypt le' junk' c q = Some (OK, Some r) \<and> pk_inv r \<and> pk_bytes r = pk_bytes p)) ms ps"
    using sym_wire [OF assms(6,1,3,7)] by blast
  have "rb_list rb @ rest = hl_wire (se_hlen s') ms" "hl_fits (se_hlen s') ms"
    using assms(4,8) ms(1) by (simp_all add: hl_wire_def hl_fits_def)
  from sym_decode_ok [OF assms(2,5) this ms(2,3), of n] show ?thesis .
qed

text \<open>A ring buffer with given contents, and an encoded packet.\<close>

lemma filled_buffer:
  assumes "length d \<le> 2048"
  shows "\<exists>rb. rb_inv rb \<and> rb_list rb = d \<and> rb_capacity rb = 2048"
proof -
  have n: "unat (of_nat (length d) :: u32) = length d" using assms by (intro unat_of_nat_nowrap) simp
  obtain rb where rb: "bytes_ringbuffer_new (\<lambda>_. 0) 2048 = Some rb" "rb_inv rb" "rb_list rb = []" "rb_capacity rb = 2048"
    by (rule bytes_ringbuffer_new_ok [of 2048 "\<lambda>_. 0"]) (simp_all add: MIN_RING_BUFFER_SIZE_def MAX_RING_BUFFER_SIZE_def)
  show ?thesis
  proof (cases "d = []")
    case False
    then have z: "(of_nat (length d) :: u32) \<noteq> 0" using n by (metis length_0_conv unat_0)
    have le: "unat (of_nat (length d) :: u32) \<le> length d" using n by simp
    obtain rb' k where "rb_write rb d (of_nat (length d)) = Some (k, rb')" "rb_inv rb'"
      "unat k = min (unat (of_nat (length d) :: u32)) (unat (rb_left_capacity rb))" "rb_list rb' = rb_list rb @ take (unat k) d"
      "rb_m_capacity rb' = rb_m_capacity rb" by (rule rb_write_ok [OF rb(2) z le])
    then show ?thesis using rb assms n rb_left_capacity_list [OF rb(2)] by (auto simp: rb_capacity_def)
  qed (use rb in blast)
qed

lemma sym_encode_ok:
  assumes "se_m_cipher s = Some c" "xx_m_key c \<noteq> []" "pk_inv p" "pk_bytes p \<noteq> []" "length (pk_bytes p) \<le> 16769144"
  shows "\<exists>out. sym_encode le junk s p = Some (OK, Some out) \<and> length (pk_bytes out) \<le> length (pk_bytes p) + 11"
proof -
  obtain q where q: "xx_encrypt le junk c p = Some (OK, Some q)" "pk_inv q" "pk_bytes q \<noteq> []" "length (pk_bytes q) \<le> length (pk_bytes p) + 7"
    "128 \<le> pk_left_room q" using xxc.cipher_law [OF assms(2-5)] by blast
  then obtain out where "hlen_encode junk q = Some (OK, Some out)" "pk_bytes out = hl_frame (pk_bytes q)"
    using hlen_encode_ok [OF q(2,3), of junk] by auto
  with q assms(1) show ?thesis by (auto simp: sym_encode_def hl_frame_def)
qed

theorem symmetric_encrypt_roundtrip_witness:
  "\<exists>p out rb arr ec s'' rb'. pk_bytes p = [5, 6] \<and>
     sym_encode True (\<lambda>_. 0) \<lparr> se_hlen = hlen_packet_new 0, se_m_cipher = Some \<lparr> xx_m_key = [1, 2] \<rparr> \<rparr> p = Some (OK, Some out) \<and>
     rb_list rb = pk_bytes out \<and>
     sym_decode_packets False (\<lambda>_. 1) \<lparr> se_hlen = hlen_packet_new 7, se_m_cipher = Some \<lparr> xx_m_key = [1, 2] \<rparr> \<rparr> rb 5 =
       Some (arr, ec, s'', rb') \<and> map pk_bytes arr = [[5, 6]]"
proof -
  let ?c = "\<lparr> xx_m_key = [1, 2] \<rparr>"
  let ?s = "\<lparr> se_hlen = hlen_packet_new 0, se_m_cipher = Some ?c \<rparr>" and ?s' = "\<lparr> se_hlen = hlen_packet_new 7, se_m_cipher = Some ?c \<rparr>"
  obtain p where p: "pk_inv p" "pk_bytes p = [5, 6]" using packet_of_ok [of "[5, 6]" "\<lambda>_. 0"] by auto
  obtain out where o': "sym_encode True (\<lambda>_. 0) ?s p = Some (OK, Some out)" "length (pk_bytes out) \<le> 13"
    using sym_encode_ok [of ?s ?c p True "\<lambda>_. 0"] p by auto
  obtain rb where rb: "rb_inv rb" "rb_list rb = pk_bytes out" "rb_capacity rb = 2048" using filled_buffer [of "pk_bytes out"] o'(2) by auto
  have "\<exists>arr ec s'' rb'. sym_decode_packets False (\<lambda>_. 1) ?s' rb 5 = Some (arr, ec, s'', rb') \<and>
    map pk_bytes arr = take (length arr) (map pk_bytes [p]) \<and> length arr \<le> length [p] \<and>
    (ec = OK \<and> ([] = [] \<longrightarrow> length arr = length [p]) \<or> ec = E_TLP_TRY_AGAIN \<and> length arr = unat (5 :: u32))"
    using symmetric_encrypt_roundtrip [where s = ?s and s' = ?s' and c = ?c and rb = rb and ps = "[p]" and outs = "[out]"
        and le = True and junk = "\<lambda>_. 0" and rest = "[]" and le' = False and junk' = "\<lambda>_. 1" and n = 5] p o' rb
    by (simp add: hlen_packet_new_def)
  then show ?thesis using p o' rb(2) by fastforce
qed

end
