(* ===== verification/Wcb.thy ===== *)
theory Wcb
  imports Wcp_Pack Bytes_Ringbuffer
begin

text \<open>
  The wcp control block of include/wawo/net/wcp.hpp: its members, the constants of the
  congestion control, and the operations that the header defines inline. The locks and condition
  variables of the block are left out: every function below is what one thread does while it
  holds them, and notify_all() has no effect on the state. The world outside the block is the
  record \<open>wcb_env\<close>: what the kernel answers to the k-th sendto() and connect() of the UDP socket,
  the datagrams that wait in it, the messages sent so far, and the readings of the clock. All of
  them are arbitrary.
\<close>

section \<open>Constants\<close>

definition WCP_RCV_BUFFER_MAX :: int where "WCP_RCV_BUFFER_MAX = 1024 * 1024"
definition WCP_RCV_BUFFER_MIN :: u32 where "WCP_RCV_BUFFER_MIN = WCP_MDU * 4"
definition WCP_RCV_WND_DEFAULT :: u32 where "WCP_RCV_WND_DEFAULT = 64 * 1024"
definition WCP_SND_BUFFER_MAX :: int where "WCP_SND_BUFFER_MAX = 1024 * 1024"
definition WCP_SND_BUFFER_MIN :: u32 where "WCP_SND_BUFFER_MIN = WCP_MDU * 4"
definition WCP_SND_WND_DEFAULT :: u32 where "WCP_SND_WND_DEFAULT = 64 * 1024"
definition WCP_SND_SSTHRESH_MAX :: u32 where "WCP_SND_SSTHRESH_MAX = 1024 * 1024 * 2"
definition WCP_SND_SSTHRESH_MIN :: u32 where "WCP_SND_SSTHRESH_MIN = 4 * WCP_MTU"
definition WCP_SND_SSTHRESH_DEFAULT :: u32 where "WCP_SND_SSTHRESH_DEFAULT = WCP_SND_SSTHRESH_MAX"
definition WCP_SND_CWND_MAX :: u32 where "WCP_SND_CWND_MAX = WCP_SND_SSTHRESH_MAX * 4"
definition WCP_SND_SACK_DUP_COUNT :: nat where "WCP_SND_SACK_DUP_COUNT = 1"
definition WCP_RWND_CHECK_GRANULARITY :: u64 where "WCP_RWND_CHECK_GRANULARITY = 1000"

text \<open>The two smoothing factors are quotients of integer literals.\<close>

definition WCP_SRTT_ALPHA :: u32 where "WCP_SRTT_ALPHA = 1 div 8"
definition WCP_RTTVAR_BETA :: u32 where "WCP_RTTVAR_BETA = 1 div 4"
definition WCP_RTO_CLOCK_GRANULARITY :: u32 where "WCP_RTO_CLOCK_GRANULARITY = 5"
definition WCP_RTO_INIT :: u32 where "WCP_RTO_INIT = 1000"
definition WCP_RTO_MIN :: u32 where "WCP_RTO_MIN = 100"
definition WCP_RTO_MAX :: u32 where "WCP_RTO_MAX = 60 * 1000"
definition WCP_LOST_THRESHOLD :: u32 where "WCP_LOST_THRESHOLD = 3"
definition WCP_SYN_MAX_TIME :: u64 where "WCP_SYN_MAX_TIME = 30 * 1000"
definition WCP_FIN_MAX_TIME :: u64 where "WCP_FIN_MAX_TIME = 2 * 60 * 1000"
definition WCP_TIMEWAIT_MAX_TIME :: u64 where "WCP_TIMEWAIT_MAX_TIME = 2 * 60 * 1000"
definition WCP_LAST_ACK_MAX_TIME :: u64 where "WCP_LAST_ACK_MAX_TIME = 30 * 1000"
definition WCP_IW :: u32 where "WCP_IW = 10"
definition WCP_LW :: u32 where "WCP_LW = 5"

definition SND_BIGGEST_SACK_UPDATE :: u16 where "SND_BIGGEST_SACK_UPDATE = push_bit 1 1"
definition SND_UNA_UPDATE :: u16 where "SND_UNA_UPDATE = push_bit 2 1"
definition SND_FAST_RECOVERED :: u16 where "SND_FAST_RECOVERED = push_bit 3 1"
definition SND_CWND_SLOW_START :: u16 where "SND_CWND_SLOW_START = push_bit 4 1"
definition SND_CWND_CONGEST_AVOIDANCE :: u16 where "SND_CWND_CONGEST_AVOIDANCE = push_bit 5 1"
definition SND_LOST_DETECTED :: u16 where "SND_LOST_DETECTED = push_bit 6 1"
definition WCB_FLAG_IS_LISTENER :: u16 where "WCB_FLAG_IS_LISTENER = push_bit 7 1"
definition WCB_FLAG_IS_PASSIVE_OPEN :: u16 where "WCB_FLAG_IS_PASSIVE_OPEN = push_bit 8 1"
definition WCB_FLAG_FIRST_RTT_DONE :: u16 where "WCB_FLAG_FIRST_RTT_DONE = push_bit 10 1"
definition WCB_FLAG_CLOSED_CALLED :: u16 where "WCB_FLAG_CLOSED_CALLED = push_bit 11 1"

definition WCP_O_NONBLOCK :: u32 where "WCP_O_NONBLOCK = push_bit 0 1"

definition READ_RWND_LESS_THAN_MTU :: byte where "READ_RWND_LESS_THAN_MTU = 1"
definition READ_RWND_MORE_THAN_MTU :: byte where "READ_RWND_MORE_THAN_MTU = push_bit 1 1"
definition READ_REMOTE_FIN_RECEIVED :: byte where "READ_REMOTE_FIN_RECEIVED = push_bit 2 1"
definition READ_REMOTE_FIN_READ_BY_USER :: byte where "READ_REMOTE_FIN_READ_BY_USER = push_bit 3 1"
definition READ_LOCAL_READ_SHUTDOWNED :: byte where "READ_LOCAL_READ_SHUTDOWNED = push_bit 4 1"
definition READ_RECV_ERROR :: byte where "READ_RECV_ERROR = push_bit 5 1"

definition WRITE_LOCAL_FIN_SENT :: byte where "WRITE_LOCAL_FIN_SENT = 1"
definition WRITE_LOCAL_WRITE_SHUTDOWNED :: byte where "WRITE_LOCAL_WRITE_SHUTDOWNED = push_bit 1 1"
definition WRITE_SEND_ERROR :: byte where "WRITE_SEND_ERROR = push_bit 2 1"

lemmas WCP_const_defs = WCP_RCV_BUFFER_MAX_def WCP_RCV_BUFFER_MIN_def WCP_RCV_WND_DEFAULT_def
  WCP_SND_BUFFER_MAX_def WCP_SND_BUFFER_MIN_def WCP_SND_WND_DEFAULT_def WCP_SND_SSTHRESH_MAX_def
  WCP_SND_SSTHRESH_MIN_def WCP_SND_SSTHRESH_DEFAULT_def WCP_SND_CWND_MAX_def
  WCP_RWND_CHECK_GRANULARITY_def WCP_SRTT_ALPHA_def WCP_RTTVAR_BETA_def
  WCP_RTO_CLOCK_GRANULARITY_def WCP_RTO_INIT_def WCP_RTO_MIN_def WCP_RTO_MAX_def
  WCP_LOST_THRESHOLD_def WCP_SYN_MAX_TIME_def WCP_FIN_MAX_TIME_def WCP_TIMEWAIT_MAX_TIME_def
  WCP_LAST_ACK_MAX_TIME_def WCP_IW_def WCP_LW_def WCP_MTU_def WCP_MDU_def WCP_HeaderLen_def

lemmas WCB_flag_defs = SND_BIGGEST_SACK_UPDATE_def SND_UNA_UPDATE_def SND_FAST_RECOVERED_def
  SND_CWND_SLOW_START_def SND_CWND_CONGEST_AVOIDANCE_def SND_LOST_DETECTED_def
  WCB_FLAG_IS_LISTENER_def WCB_FLAG_IS_PASSIVE_OPEN_def WCB_FLAG_FIRST_RTT_DONE_def
  WCB_FLAG_CLOSED_CALLED_def WCP_O_NONBLOCK_def READ_RWND_LESS_THAN_MTU_def
  READ_RWND_MORE_THAN_MTU_def READ_REMOTE_FIN_RECEIVED_def READ_REMOTE_FIN_READ_BY_USER_def
  READ_LOCAL_READ_SHUTDOWNED_def READ_RECV_ERROR_def WRITE_LOCAL_FIN_SENT_def
  WRITE_LOCAL_WRITE_SHUTDOWNED_def WRITE_SEND_ERROR_def

section \<open>State\<close>

datatype WCB_State = WCB_CLOSED | WCB_LISTEN | WCB_SYNING | WCB_SYN_SENT | WCB_SYN_RECEIVED
  | WCB_FIN_WAIT_1 | WCB_CLOSING | WCB_FIN_WAIT_2 | WCB_ESTABLISHED | WCB_CLOSE_WAIT
  | WCB_TIME_WAIT | WCB_LAST_ACK | WCB_RECYCLE

record WCB_SndInfo =
  si_dsn :: u32
  si_next :: u32
  si_una :: u32
  si_ssthresh :: u32
  si_cwnd :: u32
  si_rwnd :: u32

record WCB_RcvInfo =
  ri_wnd :: u32
  ri_next :: u32

record WCB_keepalive_vals =
  ka_idle :: u16
  ka_interval :: u16
  ka_probes :: u16

record wcb_env =
  env_send_rt :: "nat \<Rightarrow> int"
  env_sent :: "(address \<times> bytes) list"
  env_connect_rt :: "nat \<Rightarrow> int"
  env_nconnect :: nat
  env_inbox :: "(address \<times> bytes) list"
  env_recv_rt :: int
  env_clock :: "nat \<Rightarrow> u64"
  env_ticks :: nat

text \<open>
  SACK() pushes one pack object into s_sending_ignore_seq_space several times in a row, and
  check_send() changes the object at the front. An entry \<open>(pack, n)\<close> stands for \<open>n\<close> slots that hold
  the same object. The WCBs that a listener holds are references: \<open>wref\<close> numbers the objects.
\<close>

type_synonym wref = nat

record WCB =
  w_env :: wcb_env
  w_fd :: int
  w_four_tuple_hash_id :: u32
  w_state :: WCB_State
  w_timer_state :: u64
  w_wcb_errno :: int
  w_wcb_option :: u32
  w_wcb_flag :: u16
  w_r_flag :: byte
  w_s_flag :: byte
  w_local_addr :: address
  w_remote_addr :: address
  w_rto :: u32
  w_srtt :: u32
  w_rttvar :: u32
  w_received_vec :: "WCB_received_pack list"
  w_received_vec_standby :: "WCB_received_pack list"
  w_rcv_info :: WCB_RcvInfo
  w_rcv_received :: "WCB_received_pack list"
  w_rb :: bytes_ringbuffer
  w_rb_standby :: bytes_ringbuffer
  w_r_timer_last_rwnd_update :: u64
  w_backloglist_pending :: "wref list"
  w_backlogq :: "wref list"
  w_backlog_size :: u32
  w_snd_biggest_ack :: u32
  w_snd_lost_detected_timer :: u64
  w_snd_lost_biggest_seq :: u32
  w_snd_lost_cwnd_compensation :: u32
  w_snd_lost_bigger_than_lost_seq_time :: byte
  w_snd_timer_cwnd_congest_avoidance :: u64
  w_snd_info :: WCB_SndInfo
  w_snd_sending :: "WCB_pack list"
  w_snd_nflight_bytes :: u32
  w_snd_nflight_bytes_max :: u32
  w_snd_flights :: "WCB_pack list"
  w_snd_last_rto_timer :: u64
  w_snd_sacked_pack_tmp :: bytes
  w_sb :: bytes_ringbuffer
  w_s_sending_standby :: "WCB_pack list"
  w_s_sending_ignore_seq_space :: "(WCB_pack \<times> nat) list"
  w_keepalive_timer_last_received_pack :: u64
  w_keepalive_vals :: WCB_keepalive_vals
  w_keepalive_probes_sent :: byte

text \<open>
  \<open>w_snd_sacked_pack_tmp\<close> is the list of the bytes in the packet snd_sacked_pack_tmp. The packet holds 16 MB, the list is not bounded: the model is that of ticks which
  receive fewer than 4 million packs.
\<close>

section \<open>The environment\<close>

definition curr_milliseconds :: "WCB \<Rightarrow> u64 \<times> WCB" where
  "curr_milliseconds w =
     (env_clock (w_env w) (env_ticks (w_env w)),
      w\<lparr> w_env := (w_env w)\<lparr> env_ticks := env_ticks (w_env w) + 1 \<rparr> \<rparr>)"

text \<open>
  \<open>inject_to_address\<close> of src/net/wcp.cpp: the pack is encoded and handed to sendto(); whether
  the byte count matches or not, the error code of sendto() is returned.
\<close>

definition inject_to_address :: "wcb_env \<Rightarrow> WCB_pack \<Rightarrow> address \<Rightarrow> (int \<times> wcb_env) option" where
  "inject_to_address env opack dest =
     do { wawo_assert (\<not> addr_is_null dest);
          buffer \<leftarrow> WCPPACK_TO_UDPMESSAGE (wp_header opack) (wp_data opack) WCP_MTU;
          let ec = env_send_rt env (length (env_sent env));
          Some (ec, env\<lparr> env_sent := env_sent env @ [(dest, buffer)] \<rparr>) }"

definition reply_rst_to_address :: "wcb_env \<Rightarrow> u32 \<Rightarrow> address \<Rightarrow> (int \<times> wcb_env) option" where
  "reply_rst_to_address env seq dest = inject_to_address env (new_pack seq WCP_FLAG_RST None) dest"

definition env_connect :: "wcb_env \<Rightarrow> int \<times> wcb_env" where
  "env_connect env = (env_connect_rt env (env_nconnect env), env\<lparr> env_nconnect := env_nconnect env + 1 \<rparr>)"

section \<open>Construction and buffer sizes\<close>

text \<open>
  init() on a new object \<open>w0\<close>. The members it does not mention (srtt, rttvar, fd and others)
  keep the unspecified values they have in \<open>w0\<close>.
\<close>

definition wcb_init :: "(nat \<Rightarrow> byte) \<Rightarrow> WCB \<Rightarrow> WCB option" where
  "wcb_init junk w0 =
     do { rb \<leftarrow> bytes_ringbuffer_new junk WCP_RCV_WND_DEFAULT;
          rb_standby \<leftarrow> bytes_ringbuffer_new junk WCP_RCV_WND_DEFAULT;
          sb \<leftarrow> bytes_ringbuffer_new junk WCP_SND_WND_DEFAULT;
          let (cur, w) = curr_milliseconds w0;
          Some (w\<lparr> w_timer_state := 0, w_state := WCB_CLOSED, w_wcb_option := 0, w_wcb_errno := 0,
                   w_rto := WCP_RTO_INIT, w_received_vec := [], w_received_vec_standby := [],
                   w_rcv_info := \<lparr> ri_wnd = WCP_RCV_WND_DEFAULT, ri_next = 0 \<rparr>,
                   w_rcv_received := [],
                   w_r_flag := 0, w_s_flag := 0, w_r_timer_last_rwnd_update := 0,
                   w_snd_biggest_ack := 0, w_wcb_flag := SND_CWND_SLOW_START,
                   w_snd_lost_detected_timer := 0, w_snd_lost_biggest_seq := 0,
                   w_snd_info := \<lparr> si_dsn = 0, si_next = 0, si_una = 0,
                     si_ssthresh = WCP_SND_SSTHRESH_DEFAULT, si_cwnd = WCP_IW * WCP_MTU,
                     si_rwnd = WCP_RCV_WND_DEFAULT \<rparr>,
                   w_snd_timer_cwnd_congest_avoidance := 0, w_snd_nflight_bytes := 0,
                   w_snd_nflight_bytes_max := 0, w_snd_last_rto_timer := 0,
                   w_snd_sacked_pack_tmp := [], w_rb := rb, w_rb_standby := rb_standby, w_sb := sb,
                   w_snd_sending := [], w_snd_flights := [], w_s_sending_standby := [],
                   w_s_sending_ignore_seq_space := [], w_backloglist_pending := [], w_backlogq := [],
                   w_local_addr := 0, w_remote_addr := 0,
                   w_backlog_size := 128, w_keepalive_timer_last_received_pack := cur,
                   w_keepalive_vals := \<lparr> ka_idle = 60, ka_interval = 60, ka_probes = 5 \<rparr>,
                   w_keepalive_probes_sent := 0 \<rparr>) }"

definition get_rcv_buffer_size :: "WCB \<Rightarrow> int" where
  "get_rcv_buffer_size w = uint (drop_bit 1 (rb_capacity (w_rb w)))"

definition set_rcv_buffer_size :: "(nat \<Rightarrow> byte) \<Rightarrow> WCB \<Rightarrow> int \<Rightarrow> (int \<times> WCB) option" where
  "set_rcv_buffer_size junk w sz =
     (if w_state w \<noteq> WCB_CLOSED then Some (E_INVALID_OPERATION, w)
      else do {
        let size0 = (word_of_int (WAWO_MIN sz WCP_RCV_BUFFER_MAX) :: u32);
        let size0 = WAWO_MAX size0 WCP_RCV_BUFFER_MIN;
        wawo_assert (rb_count (w_rb w) = 0);
        rb \<leftarrow> bytes_ringbuffer_new junk (push_bit 1 size0);
        wawo_assert (rb_count (w_rb_standby w) = 0);
        rb_standby \<leftarrow> bytes_ringbuffer_new junk (push_bit 1 size0);
        Some (OK, w\<lparr> w_rb := rb, w_rb_standby := rb_standby,
                     w_rcv_info := (w_rcv_info w)\<lparr> ri_wnd := rb_capacity rb \<rparr> \<rparr>) })"

definition get_snd_buffer_size :: "WCB \<Rightarrow> int" where
  "get_snd_buffer_size w = uint (drop_bit 1 (rb_capacity (w_sb w)))"

definition set_snd_buffer_size :: "(nat \<Rightarrow> byte) \<Rightarrow> WCB \<Rightarrow> int \<Rightarrow> (int \<times> WCB) option" where
  "set_snd_buffer_size junk w sz =
     (if w_state w \<noteq> WCB_CLOSED then Some (E_INVALID_OPERATION, w)
      else do {
        let size0 = (word_of_int (WAWO_MIN sz WCP_SND_BUFFER_MAX) :: u32);
        let size0 = WAWO_MAX size0 WCP_SND_BUFFER_MIN;
        wawo_assert (rb_count (w_sb w) = 0);
        sb \<leftarrow> bytes_ringbuffer_new junk (push_bit 1 size0);
        Some (OK, w\<lparr> w_sb := sb \<rparr>) })"

section \<open>Control packs\<close>

text \<open>A pack that takes a sequence number, and one that does not.\<close>

definition push_standby :: "u16 \<Rightarrow> WCB \<Rightarrow> WCB" where
  "push_standby flag w =
     w\<lparr> w_s_sending_standby := w_s_sending_standby w @ [new_pack (si_dsn (w_snd_info w)) flag None],
        w_snd_info := (w_snd_info w)\<lparr> si_dsn := si_dsn (w_snd_info w) + 1 \<rparr> \<rparr>"

definition push_ignore :: "u16 \<Rightarrow> bytes option \<Rightarrow> nat \<Rightarrow> WCB \<Rightarrow> WCB" where
  "push_ignore flag data n w =
     w\<lparr> w_s_sending_ignore_seq_space :=
          w_s_sending_ignore_seq_space w @ [(new_pack (si_dsn (w_snd_info w)) flag data, n)] \<rparr>"

definition SYN :: "WCB \<Rightarrow> WCB option" where
  "SYN w = do { wawo_assert (w_state w = WCB_CLOSED); Some (push_standby WCP_FLAG_SYN w) }"

definition SYNACK :: "WCB \<Rightarrow> WCB" where
  "SYNACK w = push_standby WCP_FLAG_ACK w"

definition SYNSYNACK :: "WCB \<Rightarrow> WCB" where
  "SYNSYNACK w = push_standby (WCP_FLAG_SYN OR WCP_FLAG_ACK) w"

definition FIN :: "WCB \<Rightarrow> WCB" where
  "FIN w = push_standby WCP_FLAG_FIN w"

definition FINACK :: "WCB \<Rightarrow> WCB" where
  "FINACK w = push_standby WCP_FLAG_ACK w"

definition pack_acked_max_bytes :: nat where
  "pack_acked_max_bytes = (unat WCP_MDU div 4) * 4"

function SACK :: "bytes \<Rightarrow> WCB \<Rightarrow> WCB" where
  "SACK sacked w =
     (if length sacked \<noteq> 0
      then let wlen = (if length sacked \<ge> pack_acked_max_bytes then pack_acked_max_bytes
                       else length sacked) in
           SACK (drop wlen sacked)
             (push_ignore WCP_FLAG_SACK (Some (take wlen sacked)) (1 + WCP_SND_SACK_DUP_COUNT) w)
      else w)"
  by pat_completeness auto

termination SACK
  by (relation "measure (\<lambda>(sacked, w). length sacked)") (auto simp: pack_acked_max_bytes_def)

declare SACK.simps [simp del]

definition keepalive :: "WCB \<Rightarrow> WCB" where
  "keepalive w = push_ignore WCP_FLAG_KEEP_ALIVE None 1 w"

definition keepalive_reply :: "WCB \<Rightarrow> WCB" where
  "keepalive_reply w = push_ignore WCP_FLAG_KEEP_ALIVE_REPLY None 1 w"

definition update_rwnd :: "WCB \<Rightarrow> WCB" where
  "update_rwnd w = push_ignore WCP_FLAG_WND None 1 w"

definition SYN_RCVD :: "WCB_received_pack \<Rightarrow> WCB \<Rightarrow> WCB option" where
  "SYN_RCVD synpack w =
     do { wawo_assert (w_state w = WCB_CLOSED);
          Some (w\<lparr> w_received_vec_standby := w_received_vec_standby w @ [synpack],
                   w_state := WCB_SYN_RECEIVED \<rparr>) }"

section \<open>Congestion window and retransmission timeout\<close>

definition check_cwnd :: "u32 \<Rightarrow> WCB \<Rightarrow> WCB" where
  "check_cwnd check_size w =
     (let w = (if test_flag (w_wcb_flag w) SND_CWND_SLOW_START
               then let cwnd = si_cwnd (w_snd_info w) + check_size;
                        w = w\<lparr> w_snd_info := (w_snd_info w)\<lparr> si_cwnd := cwnd \<rparr> \<rparr> in
                    if cwnd \<ge> si_ssthresh (w_snd_info w)
                    then w\<lparr> w_wcb_flag := clear_flag (set_flag (w_wcb_flag w) SND_CWND_CONGEST_AVOIDANCE)
                                            SND_CWND_SLOW_START \<rparr>
                    else w
               else if test_flag (w_wcb_flag w) SND_CWND_CONGEST_AVOIDANCE
               then let (now, w) = curr_milliseconds w in
                    if now - w_snd_timer_cwnd_congest_avoidance w \<ge> ucast (w_srtt w)
                    then w\<lparr> w_snd_info := (w_snd_info w)\<lparr> si_cwnd := si_cwnd (w_snd_info w) + WCP_MTU \<rparr>,
                            w_snd_timer_cwnd_congest_avoidance := now \<rparr>
                    else w
               else w) in
      w\<lparr> w_snd_info := (w_snd_info w)\<lparr> si_cwnd := WAWO_MIN (si_cwnd (w_snd_info w)) WCP_SND_CWND_MAX \<rparr> \<rparr>)"

text \<open>The round-trip sample of a pack that was sent once.\<close>

definition rtt_sample :: "u32 \<Rightarrow> WCB \<Rightarrow> WCB" where
  "rtt_sample rtt w =
     (let w = (if \<not> test_flag (w_wcb_flag w) WCB_FLAG_FIRST_RTT_DONE
               then w\<lparr> w_wcb_flag := set_flag (w_wcb_flag w) WCB_FLAG_FIRST_RTT_DONE, w_srtt := rtt,
                       w_rttvar := drop_bit 1 rtt,
                       w_rto := rtt + WAWO_MAX WCP_RTO_CLOCK_GRANULARITY (2 * drop_bit 1 rtt) \<rparr>
               else let rttvar = (1 - WCP_RTTVAR_BETA) * w_rttvar w
                                   + WCP_RTTVAR_BETA * WAWO_ABS2 (w_srtt w) rtt;
                        srtt = (1 - WCP_SRTT_ALPHA) * w_srtt w + WCP_SRTT_ALPHA * rtt in
                    w\<lparr> w_rttvar := rttvar, w_srtt := srtt,
                       w_rto := srtt + WAWO_MAX WCP_RTO_CLOCK_GRANULARITY (2 * rttvar) \<rparr>) in
      if w_rto w > WCP_RTO_MAX then w\<lparr> w_rto := WCP_RTO_MAX \<rparr>
      else if w_rto w < WCP_RTO_MIN then w\<lparr> w_rto := WCP_RTO_MIN \<rparr>
      else w)"

definition pack_total_bytes :: "WCB_pack \<Rightarrow> u32" where
  "pack_total_bytes p = ucast (h_dlen (wp_header p)) + WCP_HeaderLen"

definition handle_pack_acked :: "WCB_pack \<Rightarrow> u64 \<Rightarrow> WCB \<Rightarrow> WCB option" where
  "handle_pack_acked otf now w =
     do { let w = (if wp_sent_times otf = 1 then rtt_sample (ucast (now - wp_sent_ts otf)) w else w);
          let ntotal_bytes = pack_total_bytes otf;
          wawo_assert (w_snd_nflight_bytes w \<ge> ntotal_bytes);
          let w = w\<lparr> w_snd_nflight_bytes := w_snd_nflight_bytes w - ntotal_bytes \<rparr>;
          Some (check_cwnd ntotal_bytes w) }"

end
