(* ===== verification/Wcb_Recv.thy ===== *)
theory Wcb_Recv
  imports Wcb
begin

text \<open>
  \<open>WCB::check_recv\<close>, \<open>WCB::pump_packs\<close> and \<open>WCB::recv_pack\<close> of src/net/wcp.cpp: taking datagrams
  off the socket, acknowledging and sorting the packs of one tick, applying selective
  acknowledgements to the packs in flight, and delivering the packs that are in sequence to the
  receive buffer and the state machine. The loops of check_recv are the recursive functions below,
  in the order of the code.
\<close>

section \<open>Taking datagrams off the socket\<close>

text \<open>The do loop of pump_packs runs once per waiting datagram and ends on the error code of recvfrom().\<close>

primrec pump_datagrams :: "(address \<times> bytes) list \<Rightarrow> WCB_received_pack list option" where
  "pump_datagrams [] = Some []"
| "pump_datagrams (fm # ms) =
     do { wawo_assert (length (snd fm) \<ge> unat WCP_HeaderLen);
          (h, d) \<leftarrow> WCP_RECEIVED_PACK_FROM_UDPMESSAGE (snd fm);
          ps \<leftarrow> pump_datagrams ms;
          Some (\<lparr> rp_header = h, rp_data = d, rp_from = fst fm \<rparr> # ps) }"

definition pump_packs :: "WCB \<Rightarrow> WCB option" where
  "pump_packs w =
     do { inpacks \<leftarrow> pump_datagrams (env_inbox (w_env w));
          let recvfrom_ec = env_recv_rt (w_env w);
          let w = w\<lparr> w_received_vec_standby := w_received_vec_standby w @ inpacks,
                     w_env := (w_env w)\<lparr> env_inbox := [] \<rparr> \<rparr>;
          Some (if recvfrom_ec \<noteq> OK \<and> recvfrom_ec \<noteq> E_SOCKET_RECV_BLOCK
                then w\<lparr> w_wcb_errno := recvfrom_ec, w_r_flag := set_flag (w_r_flag w) READ_RECV_ERROR \<rparr>
                else w) }"

definition recv_pack :: "WCB \<Rightarrow> (int \<times> WCB_received_pack option \<times> WCB) option" where
  "recv_pack w =
     (case env_inbox (w_env w) of
        [] \<Rightarrow> Some (env_recv_rt (w_env w), None, w)
      | fm # ms \<Rightarrow>
          do { wawo_assert (length (snd fm) \<ge> unat WCP_HeaderLen);
               (h, d) \<leftarrow> WCP_RECEIVED_PACK_FROM_UDPMESSAGE (snd fm);
               Some (OK, Some \<lparr> rp_header = h, rp_data = d, rp_from = fst fm \<rparr>,
                     w\<lparr> w_env := (w_env w)\<lparr> env_inbox := ms \<rparr> \<rparr>) })"

section \<open>One tick of received packs\<close>

abbreviation rp_seq :: "WCB_received_pack \<Rightarrow> u32" where
  "rp_seq p \<equiv> h_seq (rp_header p)"

abbreviation rp_flag :: "WCB_received_pack \<Rightarrow> u16" where
  "rp_flag p \<equiv> h_flag (rp_header p)"

definition recv_swap :: "WCB \<Rightarrow> WCB" where
  "recv_swap w =
     (if w_received_vec_standby w \<noteq> []
      then w\<lparr> w_received_vec := w_received_vec_standby w, w_received_vec_standby := [] \<rparr>
      else w\<lparr> w_received_vec := [] \<rparr>)"

text \<open>Nothing arrived: probe the peer, or give up after the configured number of probes.\<close>

definition recv_idle :: "u64 \<Rightarrow> WCB \<Rightarrow> WCB" where
  "recv_idle now w =
     (let timediff = (now - w_keepalive_timer_last_received_pack w) div 1000;
          vals = w_keepalive_vals w in
      if ucast (w_keepalive_probes_sent w) \<ge> ka_probes vals
      then w\<lparr> w_r_flag := set_flag (w_r_flag w) READ_RECV_ERROR, w_wcb_errno := E_ETIMEOUT \<rparr>
      else if timediff \<ge> ucast (ka_idle vals) + ucast (ka_interval vals) * ucast (w_keepalive_probes_sent w)
      then let w = keepalive w in
           w\<lparr> w_keepalive_probes_sent := w_keepalive_probes_sent w + 1 \<rparr>
      else w)"

text \<open>
  Inserting into rcv_received from its end: \<open>insert_rev\<close> works on the reversed list, like the
  reverse iterator of the code, and gives None for a duplicate.
\<close>

fun insert_rev :: "WCB_received_pack \<Rightarrow> WCB_received_pack list \<Rightarrow> WCB_received_pack list option" where
  "insert_rev pack [] = Some [pack]"
| "insert_rev pack (q # qs) =
     (if rp_seq q = rp_seq pack then None
      else if rp_seq pack < rp_seq q then (case insert_rev pack qs of None \<Rightarrow> None | Some qs' \<Rightarrow> Some (q # qs'))
      else Some (pack # q # qs))"

definition rcv_insert :: "WCB_received_pack \<Rightarrow> WCB_received_pack list \<Rightarrow> WCB_received_pack list" where
  "rcv_insert pack xs = (case insert_rev pack (rev xs) of None \<Rightarrow> xs | Some ys \<Rightarrow> rev ys)"

text \<open>The sequence numbers in the payload of a SACK pack; a trailing partial number makes read throw.\<close>

function read_sacks :: "bytes \<Rightarrow> u32 list option" where
  "read_sacks d =
     (if length d = 0 then Some []
      else do { s \<leftarrow> read_u32 d; ss \<leftarrow> read_sacks (drop 4 d); Some (s # ss) })"
  by pat_completeness auto

termination read_sacks
  by (relation "measure length") auto

declare read_sacks.simps [simp del]

definition recv_one :: "WCB_received_pack \<Rightarrow> WCB \<times> u32 list \<Rightarrow> (WCB \<times> u32 list) option" where
  "recv_one pack = (\<lambda>(w, acked_queue).
     let w = (if si_una (w_snd_info w) < h_ack (rp_header pack)
              then w\<lparr> w_snd_info := (w_snd_info w)\<lparr> si_una := h_ack (rp_header pack),
                                                     si_rwnd := h_wnd (rp_header pack) \<rparr>,
                      w_wcb_flag := set_flag (w_wcb_flag w) SND_UNA_UPDATE \<rparr>
              else w);
         w = (if test_flag (rp_flag pack) WCP_FLAG_WND
              then w\<lparr> w_snd_info := (w_snd_info w)\<lparr> si_rwnd := h_wnd (rp_header pack) \<rparr> \<rparr>
              else w) in
     if test_flag (rp_flag pack) WCP_FLAG_SACK
     then do { wawo_assert (rp_data pack \<noteq> None \<and> data_len (rp_data pack) \<noteq> 0);
               sacks \<leftarrow> read_sacks (the (rp_data pack));
               Some (w, acked_queue @ sacks) }
     else if test_flag (rp_flag pack) WCP_FLAG_KEEP_ALIVE then Some (keepalive_reply w, acked_queue)
     else if test_flag (rp_flag pack) WCP_FLAG_KEEP_ALIVE_REPLY then Some (w, acked_queue)
     else let w = w\<lparr> w_snd_sacked_pack_tmp := w_snd_sacked_pack_tmp w @ write_impl (rp_seq pack) \<rparr> in
          if rp_seq pack < ri_next (w_rcv_info w) then Some (w, acked_queue)
          else Some (w\<lparr> w_rcv_received := rcv_insert pack (w_rcv_received w) \<rparr>, acked_queue))"

primrec recv_all :: "WCB_received_pack list \<Rightarrow> WCB \<times> u32 list \<Rightarrow> (WCB \<times> u32 list) option" where
  "recv_all [] s = Some s"
| "recv_all (p # ps) s = do { s' \<leftarrow> recv_one p s; recv_all ps s' }"

section \<open>Selective acknowledgements\<close>

abbreviation wp_seq :: "WCB_pack \<Rightarrow> u32" where
  "wp_seq p \<equiv> h_seq (wp_header p)"

definition find_flight :: "u32 \<Rightarrow> WCB_pack list \<Rightarrow> WCB_pack option" where
  "find_flight ack flights = find (\<lambda>p. wp_seq p = ack) flights"

fun erase_flight :: "u32 \<Rightarrow> WCB_pack list \<Rightarrow> WCB_pack list" where
  "erase_flight ack [] = []"
| "erase_flight ack (p # ps) = (if wp_seq p = ack then ps else p # erase_flight ack ps)"

definition fast_recovery_check :: "u32 \<Rightarrow> WCB \<Rightarrow> WCB" where
  "fast_recovery_check ack w =
     (if test_flag (w_wcb_flag w) SND_LOST_DETECTED \<and> ack > w_snd_lost_biggest_seq w
      then let w = w\<lparr> w_snd_lost_bigger_than_lost_seq_time := w_snd_lost_bigger_than_lost_seq_time w + 1 \<rparr> in
        if w_snd_lost_bigger_than_lost_seq_time w \<ge> 1 \<and> si_una (w_snd_info w) > w_snd_lost_biggest_seq w
        then let cwnd = WAWO_MIN (si_cwnd (w_snd_info w) + w_snd_lost_cwnd_compensation w) WCP_SND_CWND_MAX;
                 new_ssthresh = WAWO_MIN cwnd WCP_SND_SSTHRESH_MAX in
             w\<lparr> w_snd_info := (w_snd_info w)\<lparr> si_cwnd := cwnd,
                  si_ssthresh := WAWO_MAX new_ssthresh (si_ssthresh (w_snd_info w)) \<rparr>,
                w_snd_lost_cwnd_compensation := 0,
                w_wcb_flag := clear_flag (set_flag (w_wcb_flag w) SND_FAST_RECOVERED) SND_LOST_DETECTED \<rparr>
        else w
      else w)"

definition ack_one :: "u64 \<Rightarrow> u32 \<Rightarrow> WCB \<Rightarrow> WCB option" where
  "ack_one now ack w =
     (if ack < si_una (w_snd_info w) then Some w
      else do {
        let w = (if ack > w_snd_biggest_ack w
                 then w\<lparr> w_snd_biggest_ack := ack,
                         w_wcb_flag := set_flag (w_wcb_flag w) SND_BIGGEST_SACK_UPDATE \<rparr>
                 else w);
        w \<leftarrow> (case find_flight ack (w_snd_flights w) of
                None \<Rightarrow> Some w
              | Some otf \<Rightarrow>
                  do { w \<leftarrow> handle_pack_acked otf now w;
                       Some (w\<lparr> w_snd_flights := erase_flight ack (w_snd_flights w) \<rparr>) });
        Some (fast_recovery_check ack w) })"

primrec ack_all :: "u64 \<Rightarrow> u32 list \<Rightarrow> WCB \<Rightarrow> WCB option" where
  "ack_all now [] w = Some w"
| "ack_all now (a # as) w = do { w' \<leftarrow> ack_one now a w; ack_all now as w' }"

section \<open>Delivery in sequence\<close>

text \<open>How the loop over rcv_received goes on after a pack: \<open>break\<close> with the pack kept or erased, or the next pack.\<close>

datatype deliver_result = Break_keep | Break_erase | Next_pack

definition set_rst :: "WCB_received_pack \<Rightarrow> WCB \<Rightarrow> WCB option" where
  "set_rst inpack w =
     do { (rt, env) \<leftarrow> reply_rst_to_address (w_env w) (h_ack (rp_header inpack)) (rp_from inpack);
          Some (w\<lparr> w_env := env, w_state := WCB_CLOSED, w_wcb_errno := E_ECONNABORTED \<rparr>) }"

text \<open>The payload: None in the first component means that delivery goes on.\<close>

definition deliver_data :: "WCB_received_pack \<Rightarrow> WCB \<Rightarrow> (deliver_result option \<times> WCB) option" where
  "deliver_data inpack w =
     (if h_dlen (rp_header inpack) > 0
      then do {
        wawo_assert (test_flag (rp_flag inpack) WCP_FLAG_DAT);
        wawo_assert (\<not> test_flag (rp_flag inpack) (WCP_FLAG_SYN OR WCP_FLAG_FIN));
        if rp_from inpack \<noteq> w_remote_addr w
        then do { w \<leftarrow> set_rst inpack w; Some (Some Break_erase, w) }
        else if rb_left_capacity (w_rb_standby w) < ucast (h_dlen (rp_header inpack))
        then Some (Some Break_keep, w\<lparr> w_r_flag := set_flag (w_r_flag w) READ_RWND_LESS_THAN_MTU \<rparr>)
        else do {
          d \<leftarrow> rp_data inpack;
          (n, rb) \<leftarrow> rb_write (w_rb_standby w) d (ucast (h_dlen (rp_header inpack)));
          let w = w\<lparr> w_rb_standby := rb,
                     w_rcv_info := (w_rcv_info w)\<lparr> ri_wnd := rb_left_capacity rb \<rparr> \<rparr>;
          Some (None,
            if ri_wnd (w_rcv_info w) \<le> WCP_MTU
            then w\<lparr> w_r_flag := set_flag (w_r_flag w) READ_RWND_LESS_THAN_MTU \<rparr>
            else w\<lparr> w_r_flag := clear_flag (w_r_flag w)
                                  (READ_RWND_LESS_THAN_MTU OR READ_RWND_MORE_THAN_MTU) \<rparr>) } }
      else Some (None, w))"

text \<open>An acknowledgement in sequence drives the connection's state machine.\<close>

definition deliver_ack :: "u64 \<Rightarrow> WCB_received_pack \<Rightarrow> WCB \<Rightarrow> WCB option" where
  "deliver_ack now inpack w =
     (case w_state w of
        WCB_SYN_SENT \<Rightarrow>
          do { wawo_assert (\<not> addr_is_null (w_remote_addr w));
               wawo_assert (w_remote_addr w = rp_from inpack);
               let (connrt, env) = env_connect (w_env w);
               let w = w\<lparr> w_env := env \<rparr>;
               Some (if connrt = OK then w\<lparr> w_state := WCB_ESTABLISHED \<rparr>
                     else w\<lparr> w_wcb_errno := connrt, w_state := WCB_CLOSED \<rparr>) }
      | WCB_SYN_RECEIVED \<Rightarrow> Some (w\<lparr> w_state := WCB_ESTABLISHED \<rparr>)
      | WCB_FIN_WAIT_1 \<Rightarrow> Some (w\<lparr> w_state := WCB_FIN_WAIT_2 \<rparr>)
      | WCB_LAST_ACK \<Rightarrow> Some (w\<lparr> w_state := WCB_CLOSED \<rparr>)
      | WCB_CLOSING \<Rightarrow> Some (w\<lparr> w_timer_state := now, w_state := WCB_TIME_WAIT \<rparr>)
      | WCB_ESTABLISHED \<Rightarrow> Some w
      | WCB_FIN_WAIT_2 \<Rightarrow> Some w
      | WCB_CLOSE_WAIT \<Rightarrow> Some w
      | WCB_TIME_WAIT \<Rightarrow> Some w
      | _ \<Rightarrow> None)"

definition deliver_fin :: "u64 \<Rightarrow> WCB_received_pack \<Rightarrow> WCB \<Rightarrow> WCB option" where
  "deliver_fin now inpack w =
     do { w \<leftarrow> (case w_state w of
                  WCB_ESTABLISHED \<Rightarrow>
                    Some (w\<lparr> w_state := WCB_CLOSE_WAIT,
                             w_r_flag := clear_flag (set_flag (w_r_flag w) READ_REMOTE_FIN_RECEIVED)
                                           READ_REMOTE_FIN_READ_BY_USER \<rparr>)
                | WCB_FIN_WAIT_1 \<Rightarrow> Some (w\<lparr> w_state := WCB_CLOSING \<rparr>)
                | WCB_FIN_WAIT_2 \<Rightarrow> Some (w\<lparr> w_timer_state := now, w_state := WCB_TIME_WAIT \<rparr>)
                | _ \<Rightarrow> set_rst inpack w);
          Some (FINACK w) }"

definition deliver_syn :: "WCB_received_pack \<Rightarrow> WCB \<Rightarrow> (deliver_result option \<times> WCB) option" where
  "deliver_syn inpack w =
     (if w_state w = WCB_SYN_RECEIVED then Some (None, SYNSYNACK w)
      else if w_state w = WCB_SYN_SENT
      then Some (None, SYNACK (w\<lparr> w_remote_addr := rp_from inpack \<rparr>))
      else do { w \<leftarrow> set_rst inpack w; Some (Some Break_erase, w) })"

definition deliver_one :: "u64 \<Rightarrow> WCB_received_pack \<Rightarrow> WCB \<Rightarrow> (deliver_result \<times> WCB) option" where
  "deliver_one now inpack w =
     do { (r, w) \<leftarrow> deliver_data inpack w;
          case r of Some b \<Rightarrow> Some (b, w)
          | None \<Rightarrow> do {
              let w = w\<lparr> w_rcv_info := (w_rcv_info w)\<lparr> ri_next := ri_next (w_rcv_info w) + 1 \<rparr> \<rparr>;
              if test_flag (rp_flag inpack) WCP_FLAG_RST
              then Some (Break_keep, w\<lparr> w_wcb_errno := E_ECONNRESET, w_state := WCB_CLOSED \<rparr>)
              else do {
                (r, w) \<leftarrow> (if test_flag (rp_flag inpack) WCP_FLAG_SYN then deliver_syn inpack w
                            else Some (None, w));
                case r of Some b \<Rightarrow> Some (b, w)
                | None \<Rightarrow> do {
                    w \<leftarrow> (if test_flag (rp_flag inpack) WCP_FLAG_ACK then deliver_ack now inpack w
                           else Some w);
                    w \<leftarrow> (if test_flag (rp_flag inpack) WCP_FLAG_FIN then deliver_fin now inpack w
                           else Some w);
                    Some (Next_pack, w) } } } }"

text \<open>The loop over rcv_received: the second component is what is left of the list.\<close>

fun deliver_all :: "u64 \<Rightarrow> WCB_received_pack list \<Rightarrow> WCB \<Rightarrow> (WCB_received_pack list \<times> WCB) option" where
  "deliver_all now [] w = Some ([], w)"
| "deliver_all now (p # ps) w =
     do { wawo_assert (rp_seq p \<ge> ri_next (w_rcv_info w));
          if rp_seq p \<noteq> ri_next (w_rcv_info w) then Some (p # ps, w)
          else do {
            (r, w) \<leftarrow> deliver_one now p w;
            case r of
              Break_keep \<Rightarrow> Some (p # ps, w)
            | Break_erase \<Rightarrow> Some (ps, w)
            | Next_pack \<Rightarrow> deliver_all now ps w } }"

text \<open>The user's buffer is empty and data was delivered: exchange the two buffers.\<close>

definition recv_swap_buffers :: "WCB \<Rightarrow> WCB" where
  "recv_swap_buffers w =
     (if rb_count (w_rb w) = 0 \<and> rb_count (w_rb_standby w) \<noteq> 0
      then let w = w\<lparr> w_rb := w_rb_standby w, w_rb_standby := w_rb w \<rparr> in
           if test_flag (w_r_flag w) READ_RWND_LESS_THAN_MTU
           then w\<lparr> w_r_flag := set_flag (w_r_flag w) READ_RWND_MORE_THAN_MTU,
                   w_rcv_info := (w_rcv_info w)\<lparr> ri_wnd := rb_left_capacity (w_rb_standby w) \<rparr> \<rparr>
           else w
      else w)"

definition recv_busy :: "u64 \<Rightarrow> WCB \<Rightarrow> WCB option" where
  "recv_busy now w =
     do { let w = w\<lparr> w_keepalive_timer_last_received_pack := now, w_keepalive_probes_sent := 0 \<rparr>;
          (w, acked_queue) \<leftarrow> recv_all (w_received_vec w) (w, []);
          let w = (if length (w_snd_sacked_pack_tmp w) \<noteq> 0
                   then (SACK (w_snd_sacked_pack_tmp w) w)\<lparr> w_snd_sacked_pack_tmp := [] \<rparr> else w);
          w \<leftarrow> ack_all now acked_queue w;
          (rest, w) \<leftarrow> deliver_all now (w_rcv_received w) w;
          Some (w\<lparr> w_rcv_received := rest \<rparr>) }"

definition check_recv :: "u64 \<Rightarrow> WCB \<Rightarrow> WCB option" where
  "check_recv now w =
     do { let w = recv_swap w;
          w \<leftarrow> (if w_received_vec w = [] then Some (recv_idle now w) else recv_busy now w);
          Some (recv_swap_buffers w) }"

end
