(* ===== verification/Wcb_Send.thy ===== *)
theory Wcb_Send
  imports Wcb_Recv
begin

text \<open>
  \<open>WCB::send_pack\<close>, \<open>WCB::check_flights\<close> and \<open>WCB::check_send\<close> of src/net/wcp.cpp: transmission,
  retransmission with loss detection, and the paced sending of control packs, queued packs and user
  data. The jump back to _begin_send and the loop that cuts the send buffer into packs carry
  fuel; theory Wcb_Send_Props shows that the fuel check_send() passes is always enough.
\<close>

section \<open>Transmission\<close>

definition send_pack :: "WCB_pack \<Rightarrow> WCB \<Rightarrow> (int \<times> WCB_pack \<times> WCB) option" where
  "send_pack pack w =
     do { wawo_assert (\<not> addr_is_null (w_remote_addr w));
          let pack = pack\<lparr> wp_header := (wp_header pack)\<lparr> h_ack := ri_next (w_rcv_info w),
                                                           h_wnd := ri_wnd (w_rcv_info w) \<rparr> \<rparr>;
          (rt, env) \<leftarrow> inject_to_address (w_env w) pack (w_remote_addr w);
          Some (rt, pack, w\<lparr> w_env := env \<rparr>) }"

definition set_send_error :: "int \<Rightarrow> WCB \<Rightarrow> WCB" where
  "set_send_error sndrt w =
     (if sndrt \<noteq> E_SOCKET_SEND_BLOCK
      then w\<lparr> w_wcb_errno := sndrt, w_s_flag := set_flag (w_s_flag w) WRITE_SEND_ERROR \<rparr> else w)"

section \<open>Retransmission\<close>

text \<open>The reason to retransmit a pack in flight: 0 none, 1 skipped by an ack, 2 fast recovery, 3 timeout.\<close>

definition retransmit_reason :: "u64 \<Rightarrow> WCB_pack \<Rightarrow> WCB \<Rightarrow> nat" where
  "retransmit_reason now p w =
     (let timediff = ucast (now - wp_sent_ts p) :: u32;
          skip = sint (w_snd_biggest_ack w - wp_seq p) in
      if skip \<ge> 1 \<and> timediff \<ge> w_srtt w + drop_bit 2 (w_rttvar w) then 1
      else if test_flag (w_wcb_flag w) SND_FAST_RECOVERED \<and> timediff \<ge> w_srtt w + drop_bit 2 (w_rttvar w) then 2
      else if timediff \<ge> w_rto w then 3 else 0)"

fun flights_loop :: "u64 \<Rightarrow> WCB_pack list \<Rightarrow> WCB \<Rightarrow> u32 \<Rightarrow> u32 \<Rightarrow>
    (WCB_pack list \<times> WCB \<times> u32 \<times> u32) option" where
  "flights_loop now [] w lost_count max_sent_time = Some ([], w, lost_count, max_sent_time)"
| "flights_loop now (p # ps) w lost_count max_sent_time =
     (if test_flag (w_wcb_flag w) SND_UNA_UPDATE \<and> wp_seq p < si_una (w_snd_info w)
      then do { w \<leftarrow> handle_pack_acked p now w; flights_loop now ps w lost_count max_sent_time }
      else let r = retransmit_reason now p w;
               lost_count = (if r = 3 then lost_count + 1 else lost_count);
               w = (if r = 3 \<and> \<not> test_flag (w_wcb_flag w) SND_LOST_DETECTED \<and> wp_seq p > w_snd_lost_biggest_seq w
                    then w\<lparr> w_snd_lost_biggest_seq := wp_seq p \<rparr> else w);
               max_sent_time = (if r = 3 \<and> wp_sent_times p > max_sent_time then wp_sent_times p
                                else max_sent_time) in
        if r > 0
        then do { (sndrt, p, w) \<leftarrow> send_pack p w;
                  if sndrt \<noteq> OK
                  then Some (p # ps, set_send_error sndrt w, lost_count, max_sent_time)
                  else do {
                    (qs, w, l, m) \<leftarrow> flights_loop now ps w lost_count max_sent_time;
                    Some (p\<lparr> wp_sent_ts := now, wp_sent_times := wp_sent_times p + 1 \<rparr> # qs, w, l, m) } }
        else do { (qs, w, l, m) \<leftarrow> flights_loop now ps w lost_count max_sent_time;
                  Some (p # qs, w, l, m) })"

text \<open>Back off, and in an established connection halve the threshold and restart the window.\<close>

definition lost_detected :: "u64 \<Rightarrow> WCB \<Rightarrow> WCB option" where
  "lost_detected now w =
     do { wawo_assert (w_rto w \<ge> WCP_RTO_MIN);
          let w = w\<lparr> w_rto := WAWO_MIN (drop_bit 1 (w_rto w) + w_rto w) WCP_RTO_MAX \<rparr>;
          if w_state w = WCB_ESTABLISHED \<and> now - w_snd_lost_detected_timer w \<ge> ucast (WAWO_MAX (w_srtt w) 30)
          then do {
            let half_flight_max = drop_bit 1 (w_snd_nflight_bytes_max w);
            let new_ssthresh = WAWO_MAX half_flight_max WCP_SND_SSTHRESH_MIN;
            wawo_assert (w_snd_nflight_bytes_max w \<ge> w_snd_nflight_bytes w);
            Some (w\<lparr> w_snd_lost_detected_timer := now,
                     w_snd_lost_bigger_than_lost_seq_time := 0,
                     w_snd_lost_cwnd_compensation := new_ssthresh - drop_bit 1 (w_snd_nflight_bytes w),
                     w_snd_nflight_bytes_max := WAWO_MAX half_flight_max (w_snd_nflight_bytes w),
                     w_wcb_flag := clear_flag (set_flag (w_wcb_flag w) (SND_CWND_SLOW_START OR SND_LOST_DETECTED))
                                     SND_CWND_CONGEST_AVOIDANCE,
                     w_snd_info := (w_snd_info w)\<lparr> si_ssthresh := WAWO_MIN new_ssthresh (si_ssthresh (w_snd_info w)),
                                                    si_cwnd := WCP_LW * WCP_MTU \<rparr> \<rparr>) }
          else Some w }"

definition check_flights :: "u64 \<Rightarrow> WCB \<Rightarrow> WCB option" where
  "check_flights now w =
     (if \<not> test_flag (w_wcb_flag w) (SND_UNA_UPDATE OR SND_FAST_RECOVERED OR SND_BIGGEST_SACK_UPDATE)
         \<and> now < w_snd_last_rto_timer w + ucast WCP_RTO_CLOCK_GRANULARITY
      then Some w
      else do {
        let w = w\<lparr> w_snd_last_rto_timer := now \<rparr>;
        (flights, w, lost_count, max_sent_time) \<leftarrow> flights_loop now (w_snd_flights w) w 0 0;
        let w = w\<lparr> w_snd_flights := flights,
                   w_wcb_flag := clear_flag (w_wcb_flag w)
                     (SND_BIGGEST_SACK_UPDATE OR SND_UNA_UPDATE OR SND_FAST_RECOVERED) \<rparr>;
        if lost_count \<ge> WCP_LOST_THRESHOLD \<or> max_sent_time \<ge> 5 then lost_detected now w else Some w })"

section \<open>Sending\<close>

text \<open>The packs outside the sequence space; the slots that hold one object are sent one after another.\<close>

fun send_slots :: "nat \<Rightarrow> WCB_pack \<Rightarrow> WCB \<Rightarrow> (nat \<times> WCB_pack \<times> bool \<times> WCB) option" where
  "send_slots 0 p w = Some (0, p, True, w)"
| "send_slots (Suc n) p w =
     do { (sndrt, p, w) \<leftarrow> send_pack p w;
          if sndrt \<noteq> OK then Some (Suc n, p, False, set_send_error sndrt w)
          else send_slots n p w }"

fun send_ignore :: "(WCB_pack \<times> nat) list \<Rightarrow> WCB \<Rightarrow> ((WCB_pack \<times> nat) list \<times> bool \<times> WCB) option" where
  "send_ignore [] w = Some ([], True, w)"
| "send_ignore ((p, n) # es) w =
     do { (n, p, ok, w) \<leftarrow> send_slots n p w;
          if ok then send_ignore es w else Some ((p, n) # es, False, w) }"

definition force_rwnd_update :: "u64 \<Rightarrow> WCB \<Rightarrow> WCB" where
  "force_rwnd_update now w =
     (if test_flag (w_r_flag w) READ_RWND_MORE_THAN_MTU
         \<and> now - w_r_timer_last_rwnd_update w > WCP_RWND_CHECK_GRANULARITY
      then let w = (case w_s_sending_ignore_seq_space w of
                      [] \<Rightarrow> update_rwnd w
                    | (p, n) # es \<Rightarrow>
                        w\<lparr> w_s_sending_ignore_seq_space :=
                             (p\<lparr> wp_header := (wp_header p)\<lparr> h_flag := set_flag (h_flag (wp_header p)) WCP_FLAG_WND \<rparr> \<rparr>, n) # es \<rparr>) in
           w\<lparr> w_r_timer_last_rwnd_update := now \<rparr>
      else w)"

datatype send_result = Send_return | Send_break | Send_done

text \<open>What check_send() does with a pack that sendto() accepted, up to the flag tests.\<close>

definition put_in_flight :: "u64 \<Rightarrow> WCB_pack \<Rightarrow> WCB \<Rightarrow> WCB" where
  "put_in_flight now p w =
     (let nflight = w_snd_nflight_bytes w + pack_total_bytes p in
      w\<lparr> w_snd_flights := w_snd_flights w @ [p\<lparr> wp_sent_ts := now, wp_sent_times := 1 \<rparr>],
         w_snd_nflight_bytes := nflight,
         w_snd_nflight_bytes_max := (if nflight > w_snd_nflight_bytes_max w then nflight
                                     else w_snd_nflight_bytes_max w),
         w_snd_info := (w_snd_info w)\<lparr> si_next := si_next (w_snd_info w) + 1 \<rparr> \<rparr>)"

definition fin_sent :: "u64 \<Rightarrow> WCB \<Rightarrow> WCB option" where
  "fin_sent now w =
     (case w_state w of
        WCB_ESTABLISHED \<Rightarrow> Some (w\<lparr> w_timer_state := now, w_state := WCB_FIN_WAIT_1,
                                  w_s_flag := set_flag (w_s_flag w) WRITE_LOCAL_FIN_SENT \<rparr>)
      | WCB_CLOSE_WAIT \<Rightarrow> Some (w\<lparr> w_state := WCB_LAST_ACK, w_timer_state := now \<rparr>)
      | _ \<Rightarrow> None)"

definition syn_sent :: "WCB \<Rightarrow> WCB option" where
  "syn_sent w =
     do { wawo_assert (w_state w = WCB_SYNING \<or> w_state w = WCB_SYN_RECEIVED);
          Some (if w_state w = WCB_SYNING then w\<lparr> w_state := WCB_SYN_SENT \<rparr> else w) }"

definition congested :: "WCB_pack \<Rightarrow> WCB \<Rightarrow> bool" where
  "congested p w \<longleftrightarrow>
     pack_total_bytes p + w_snd_nflight_bytes w \<ge> WAWO_MIN (si_cwnd (w_snd_info w)) (si_rwnd (w_snd_info w))"

fun send_sending :: "u64 \<Rightarrow> WCB_pack list \<Rightarrow> WCB \<Rightarrow> (send_result \<times> WCB_pack list \<times> WCB) option" where
  "send_sending now [] w = Some (Send_done, [], w)"
| "send_sending now (p # ps) w =
     (if congested p w then Some (Send_return, p # ps, w)
      else do {
        wawo_assert (wp_seq p = si_next (w_snd_info w));
        wawo_assert (wp_seq p \<ge> si_una (w_snd_info w));
        (sndrt, p, w) \<leftarrow> send_pack p w;
        if sndrt \<noteq> OK then Some (Send_return, p # ps, set_send_error sndrt w)
        else do {
          wawo_assert (\<not> test_flag (h_flag (wp_header p))
            (WCP_FLAG_SACK OR WCP_FLAG_KEEP_ALIVE OR WCP_FLAG_KEEP_ALIVE_REPLY));
          let w = put_in_flight now p w;
          if test_flag (h_flag (wp_header p)) WCP_FLAG_FIN
          then do { w \<leftarrow> fin_sent now w; Some (Send_break, p # ps, w) }
          else do {
            w \<leftarrow> (if test_flag (h_flag (wp_header p)) WCP_FLAG_SYN then syn_sent w else Some w);
            send_sending now ps w } } })"

definition flush_standby :: "WCB \<Rightarrow> WCB" where
  "flush_standby w = w\<lparr> w_snd_sending := w_snd_sending w @ w_s_sending_standby w, w_s_sending_standby := [] \<rparr>"

text \<open>Cutting the send buffer into packs of at most WCP_MDU bytes.\<close>

fun send_fill :: "nat \<Rightarrow> u32 \<Rightarrow> WCB \<Rightarrow> WCB option" where
  "send_fill fuel nmax_try_bytes w =
     (if rb_count (w_sb w) > 0 \<and> nmax_try_bytes > 0
      then (case fuel of
              0 \<Rightarrow> None
            | Suc fuel' \<Rightarrow>
                do { (nread, data, sb) \<leftarrow> rb_read (w_sb w) WCP_MDU True;
                     let w = w\<lparr> w_sb := sb,
                                w_snd_sending := w_snd_sending w @
                                  [new_pack (si_dsn (w_snd_info w)) (WCP_FLAG_DAT OR WCP_FLAG_ACK) (Some data)],
                                w_snd_info := (w_snd_info w)\<lparr> si_dsn := si_dsn (w_snd_info w) + 1 \<rparr> \<rparr>;
                     send_fill fuel' (nmax_try_bytes - nread) w })
      else Some w)"

declare send_fill.simps [simp del]

fun send_passes :: "nat \<Rightarrow> u64 \<Rightarrow> WCB \<Rightarrow> WCB option" where
  "send_passes 0 now w = None"
| "send_passes (Suc fuel) now w =
     do { (r, rest, w) \<leftarrow> send_sending now (w_snd_sending w) w;
          let w = w\<lparr> w_snd_sending := rest \<rparr>;
          if r = Send_return then Some w
          else do {
            let w = flush_standby w;
            let nmax_try_bytes = si_cwnd (w_snd_info w) - w_snd_nflight_bytes w;
            w \<leftarrow> (if \<not> test_flag (w_s_flag w) WRITE_LOCAL_FIN_SENT \<and> nmax_try_bytes > WCP_MTU
                   then send_fill (unat (rb_count (w_sb w))) nmax_try_bytes w else Some w);
            if w_snd_sending w \<noteq> [] then send_passes fuel now w else Some w } }"

definition send_fuel :: "WCB \<Rightarrow> nat" where
  "send_fuel w = 2 * unat (rb_count (w_sb w)) + 2 * length (w_s_sending_standby w) +
                 length (w_snd_sending w) + 3"

definition check_send :: "u64 \<Rightarrow> WCB \<Rightarrow> WCB option" where
  "check_send now w =
     (if test_flag (w_s_flag w) WRITE_SEND_ERROR then Some w
      else do {
        let w = force_rwnd_update now w;
        (es, ok, w) \<leftarrow> send_ignore (w_s_sending_ignore_seq_space w) w;
        let w = w\<lparr> w_s_sending_ignore_seq_space := es \<rparr>;
        if \<not> ok then Some w else send_passes (send_fuel w) now w })"

end
