(* ===== verification/Wcb_Update.thy ===== *)
theory Wcb_Update
  imports Wcb_Send
begin

text \<open>
  The life of a control block: \<open>WCB::update\<close>, which the ticker calls for every block, and the calls
  \<open>WCB::connect\<close>, \<open>WCB::shutdown\<close>, \<open>WCB::close\<close> and \<open>WCB::listen\<close> of src/net/wcp.cpp. The part of update()
  that handles a listener needs the blocks a listener holds and is in theory Wcp_Manager.

  A call of set_last_errno() is part of the result: \<open>Some e\<close> when errno becomes \<open>e\<close>. A call that may
  wait on a condition variable returns \<open>Block\<close> when it starts to wait; the code after the wait is a
  function of its own, run again on every wake-up.
\<close>

datatype 'a blocking = Ret 'a | Block

section \<open>One tick\<close>

definition tick_all :: "u64 \<Rightarrow> WCB \<Rightarrow> WCB option" where
  "tick_all now w = do { w \<leftarrow> check_recv now w; w \<leftarrow> check_flights now w; check_send now w }"

text \<open>
  update() for every state but LISTEN. Blocks that wait in a listener's backlog are ticked with
  it: they are created in SYN_RECEIVED, and no transition leads to LISTEN.
\<close>

definition wcb_update :: "u64 \<Rightarrow> WCB \<Rightarrow> WCB option" where
  "wcb_update now w =
     (case w_state w of
        WCB_CLOSED \<Rightarrow>
          Some (if test_flag (w_r_flag w) READ_LOCAL_READ_SHUTDOWNED
                   \<and> test_flag (w_s_flag w) WRITE_LOCAL_WRITE_SHUTDOWNED
                   \<and> test_flag (w_wcb_flag w) WCB_FLAG_CLOSED_CALLED
                then w\<lparr> w_state := WCB_RECYCLE \<rparr> else w)
      | WCB_LISTEN \<Rightarrow> None
      | WCB_SYNING \<Rightarrow> do { w \<leftarrow> check_flights now w; check_send now w }
      | WCB_SYN_SENT \<Rightarrow>
          if now - w_timer_state w \<ge> WCP_SYN_MAX_TIME
          then Some (w\<lparr> w_state := WCB_CLOSED, w_wcb_errno := E_ETIMEOUT \<rparr>)
          else tick_all now w
      | WCB_SYN_RECEIVED \<Rightarrow>
          if w_wcb_errno w \<noteq> 0 then Some (w\<lparr> w_state := WCB_CLOSED \<rparr>) else tick_all now w
      | WCB_ESTABLISHED \<Rightarrow>
          if w_wcb_errno w \<noteq> 0 then Some (w\<lparr> w_state := WCB_CLOSED \<rparr>) else tick_all now w
      | WCB_CLOSE_WAIT \<Rightarrow>
          if w_wcb_errno w \<noteq> 0 then Some (w\<lparr> w_state := WCB_CLOSED \<rparr>) else tick_all now w
      | WCB_FIN_WAIT_1 \<Rightarrow>
          if w_wcb_errno w \<noteq> 0 \<or> now - w_timer_state w \<ge> WCP_FIN_MAX_TIME
          then Some (w\<lparr> w_state := WCB_CLOSED \<rparr>) else tick_all now w
      | WCB_CLOSING \<Rightarrow>
          if w_wcb_errno w \<noteq> 0 \<or> now - w_timer_state w \<ge> WCP_FIN_MAX_TIME
          then Some (w\<lparr> w_state := WCB_CLOSED \<rparr>) else tick_all now w
      | WCB_FIN_WAIT_2 \<Rightarrow>
          if w_wcb_errno w \<noteq> 0 \<or> now - w_timer_state w \<ge> WCP_FIN_MAX_TIME
          then Some (w\<lparr> w_state := WCB_CLOSED \<rparr>) else tick_all now w
      | WCB_LAST_ACK \<Rightarrow>
          do { w \<leftarrow> tick_all now w;
               Some (if w_wcb_errno w \<noteq> 0 \<or> now - w_timer_state w \<ge> WCP_LAST_ACK_MAX_TIME
                     then w\<lparr> w_state := WCB_CLOSED \<rparr> else w) }
      | WCB_TIME_WAIT \<Rightarrow>
          Some (if now - w_timer_state w \<ge> WCP_TIMEWAIT_MAX_TIME then w\<lparr> w_state := WCB_CLOSED \<rparr> else w)
      | WCB_RECYCLE \<Rightarrow> Some w)"

section \<open>Calls of the user\<close>

text \<open>The loop of connect() around the condition variable, run at the first test and after each wake-up.\<close>

definition connect_wait :: "WCB \<Rightarrow> int blocking option" where
  "connect_wait w =
     (if w_wcb_errno w = 0 \<and> w_state w \<noteq> WCB_ESTABLISHED then Some Block
      else do { wawo_assert (if w_state w = WCB_ESTABLISHED then w_wcb_errno w = 0 else True);
                Some (Ret (w_wcb_errno w)) })"

definition wcb_connect :: "address \<Rightarrow> WCB \<Rightarrow> (int blocking \<times> int option \<times> WCB) option" where
  "wcb_connect addr w =
     do { wawo_assert (addr_is_null (w_remote_addr w));
          let w = w\<lparr> w_remote_addr := addr \<rparr>;
          wawo_assert (w_state w = WCB_CLOSED);
          w \<leftarrow> SYN w;
          let (cur, w) = curr_milliseconds (w\<lparr> w_state := WCB_SYNING \<rparr>);
          let w = w\<lparr> w_timer_state := cur \<rparr>;
          if test_flag (w_wcb_option w) WCP_O_NONBLOCK
          then Some (Ret (WAWO_NEGATIVE EINPROGRESS), Some (WAWO_NEGATIVE EINPROGRESS), w)
          else do { r \<leftarrow> connect_wait w; Some (r, None, w) } }"

definition WCB_SHUT_RD :: int where "WCB_SHUT_RD = 0"
definition WCB_SHUT_WR :: int where "WCB_SHUT_WR = 1"
definition WCB_SHUT_RDWR :: int where "WCB_SHUT_RDWR = 2"

definition wcb_shutdown :: "int \<Rightarrow> WCB \<Rightarrow> (int \<times> int option \<times> WCB) option" where
  "wcb_shutdown shutdown_flag w =
     do { wawo_assert (shutdown_flag = WCB_SHUT_RD \<or> shutdown_flag = WCB_SHUT_WR \<or>
                       shutdown_flag = WCB_SHUT_RDWR);
          let ec = E_ENOTCONN;
          let (ec, w) =
            (if (shutdown_flag = WCB_SHUT_WR \<or> shutdown_flag = WCB_SHUT_RDWR)
                \<and> \<not> test_flag (w_s_flag w) WRITE_LOCAL_WRITE_SHUTDOWNED
             then let w = FIN w in
                  (OK, w\<lparr> w_s_flag := set_flag (w_s_flag w) WRITE_LOCAL_WRITE_SHUTDOWNED \<rparr>)
             else (ec, w));
          let (ec, w) =
            (if (shutdown_flag = WCB_SHUT_RD \<or> shutdown_flag = WCB_SHUT_RDWR)
                \<and> \<not> test_flag (w_r_flag w) READ_LOCAL_READ_SHUTDOWNED
             then (OK, w\<lparr> w_r_flag := set_flag (w_r_flag w) READ_LOCAL_READ_SHUTDOWNED \<rparr>)
             else (ec, w));
          Some (if ec \<noteq> OK then (-1, Some ec, w) else (OK, None, w)) }"

text \<open>
  The second condition of close() ends in the bare enumerator WCB_SYN_RECEIVED, which is true when its
  value is not 0. The enumerators have the values 0, 1, 2 and so on.
\<close>

fun wcb_state_value :: "WCB_State \<Rightarrow> nat" where
  "wcb_state_value WCB_CLOSED = 0"
| "wcb_state_value WCB_LISTEN = 1"
| "wcb_state_value WCB_SYNING = 2"
| "wcb_state_value WCB_SYN_SENT = 3"
| "wcb_state_value WCB_SYN_RECEIVED = 4"
| "wcb_state_value WCB_FIN_WAIT_1 = 5"
| "wcb_state_value WCB_CLOSING = 6"
| "wcb_state_value WCB_FIN_WAIT_2 = 7"
| "wcb_state_value WCB_ESTABLISHED = 8"
| "wcb_state_value WCB_CLOSE_WAIT = 9"
| "wcb_state_value WCB_TIME_WAIT = 10"
| "wcb_state_value WCB_LAST_ACK = 11"
| "wcb_state_value WCB_RECYCLE = 12"

definition wcb_close :: "WCB \<Rightarrow> (int \<times> int option \<times> WCB) option" where
  "wcb_close w =
     (if test_flag (w_wcb_flag w) WCB_FLAG_CLOSED_CALLED then Some (E_EALREADY, Some E_EALREADY, w)
      else
        let w = w\<lparr> w_wcb_flag := set_flag (w_wcb_flag w) WCB_FLAG_CLOSED_CALLED \<rparr>;
            w = (if w_state w = WCB_LISTEN then w\<lparr> w_state := WCB_CLOSED \<rparr> else w);
            w = (if w_state w = WCB_SYN_SENT \<or> w_state w = WCB_SYNING \<or> wcb_state_value WCB_SYN_RECEIVED \<noteq> 0
                 then let w = w\<lparr> w_state := WCB_CLOSED \<rparr> in
                      if w_wcb_errno w = OK then w\<lparr> w_wcb_errno := E_ECONNABORTED \<rparr> else w
                 else w) in
        if w_state w = WCB_CLOSED
        then Some (OK, None,
               w\<lparr> w_s_flag := set_flag (w_s_flag w) WRITE_LOCAL_WRITE_SHUTDOWNED,
                  w_r_flag := set_flag (w_r_flag w) READ_LOCAL_READ_SHUTDOWNED \<rparr>)
        else if w_state w = WCB_ESTABLISHED \<or> w_state w = WCB_CLOSE_WAIT
        then let w = (if \<not> test_flag (w_s_flag w) WRITE_LOCAL_WRITE_SHUTDOWNED
                      then let w = FIN w in
                           w\<lparr> w_s_flag := set_flag (w_s_flag w) WRITE_LOCAL_WRITE_SHUTDOWNED \<rparr>
                      else w) in
             Some (OK, None,
               if \<not> test_flag (w_r_flag w) READ_LOCAL_READ_SHUTDOWNED
               then w\<lparr> w_r_flag := set_flag (w_r_flag w) READ_LOCAL_READ_SHUTDOWNED \<rparr> else w)
        else None)"

definition wcb_listen :: "int \<Rightarrow> WCB \<Rightarrow> (int \<times> int option \<times> WCB) option" where
  "wcb_listen backlog w =
     (if addr_is_null (w_local_addr w) then Some (E_EOPNOTSUPP, Some E_EOPNOTSUPP, w)
      else do { wawo_assert (w_state w = WCB_CLOSED);
                Some (OK, None, w\<lparr> w_state := WCB_LISTEN, w_backlog_size := word_of_int backlog,
                                   w_wcb_flag := set_flag (w_wcb_flag w) WCB_FLAG_IS_LISTENER \<rparr>) })"

end
