(* ===== verification/Socket.thy ===== *)
theory Socket
  imports Socket_Base Symmetric_Encrypt Wcb_Update
begin

text \<open>
  include/wawo/net/socket.hpp and src/net/socket.cpp: a socket with a buffer for each direction that runs a
  transport layer protocol. Bytes the layer below does not take at once are kept in \<open>m_sb\<close> and written when
  the observer reports the descriptor writeable; bytes that arrive go into \<open>m_rb\<close>, from which the protocol takes
  its packets. Clocks are arguments. A wait that has not ended when the given clock readings are used up is \<open>Block\<close>.
\<close>

section \<open>The interface tlp_abstract\<close>

text \<open>The virtual functions as a record on the state of the protocol. \<open>tl_decode\<close>: the packets, \<open>ec_o\<close> and \<open>out\<close>.\<close>

record 't tlp_abstract =
  tl_make_hello :: "'t \<Rightarrow> (int \<times> packet option \<times> 't) option"
  tl_handshaking :: "'t \<Rightarrow> bool"
  tl_done :: "'t \<Rightarrow> bool"
  tl_encode :: "'t \<Rightarrow> packet \<Rightarrow> (int \<times> packet option \<times> 't) option"
  tl_decode :: "'t \<Rightarrow> bytes_ringbuffer \<Rightarrow> u32 \<Rightarrow> (packet list \<times> int \<times> packet option \<times> 't \<times> bytes_ringbuffer) option"

text \<open>hlen_packet inherits the functions of the handshake.\<close>

definition hlen_tlp :: "(nat \<Rightarrow> byte) \<Rightarrow> hlen_packet tlp_abstract" where
  "hlen_tlp junk = \<lparr>
     tl_make_hello = (\<lambda>h. Some (E_TLP_HANDSHAKE_DONE, None, h)),
     tl_handshaking = (\<lambda>_. False),
     tl_done = (\<lambda>_. True),
     tl_encode = (\<lambda>h p. do { (rt, out) \<leftarrow> hlen_encode junk p; Some (rt, out, h) }),
     tl_decode = (\<lambda>h rb n. do { (arrives, ec_o, h, rb) \<leftarrow> hlen_decode_packets junk h rb n; Some (arrives, ec_o, None, h, rb) }) \<rparr>"

section \<open>The state\<close>

record 't socket = socket_base +
  sk_m_sb :: bytes_ringbuffer
  sk_m_rb :: bytes_ringbuffer
  sk_m_tsb :: bytes
  sk_m_trb :: bytes
  sk_m_delay_wp :: u64
  sk_m_async_wt :: u64
  sk_m_rps_q :: "packet list"
  sk_m_rps_q_standby :: "packet list"
  sk_m_tlp :: "'t option"

definition WAWO_MAX_ASYNC_WRITE_PERIOD :: u64 where "WAWO_MAX_ASYNC_WRITE_PERIOD = 90000"

definition F_RCV_ALWAYS_PUMP :: u32 where "F_RCV_ALWAYS_PUMP = 0x1000000"
definition F_RCV_BLOCK_UNTIL_PACKET_ARRIVE :: u32 where "F_RCV_BLOCK_UNTIL_PACKET_ARRIVE = 0x2000000"
definition F_SEND_USE_SND_BUFFER :: u32 where "F_SEND_USE_SND_BUFFER = 0x4000000"

definition E_RD_SHUTDOWN :: byte where "E_RD_SHUTDOWN = 1"
definition E_WR_SHUTDOWN :: byte where "E_WR_SHUTDOWN = 2"
definition E_CLOSE :: byte where "E_CLOSE = 3"
definition E_WR_BLOCK :: byte where "E_WR_BLOCK = 5"
definition E_WR_UNBLOCK :: byte where "E_WR_UNBLOCK = 6"
definition E_ERROR :: byte where "E_ERROR = 7"

text \<open>The constructors: those of socket_base followed by \<open>_init\<close>.\<close>

definition socket_init :: "(nat \<Rightarrow> byte) \<Rightarrow> socket_base \<Rightarrow> 't socket option" where
  "socket_init junk b =
     do { wawo_assert (sk_snd_size b \<le> SOCK_MAX_SIZE \<and> sk_snd_size b \<ge> SOCK_MIN_SIZE);
          wawo_assert (sk_rcv_size b \<le> SOCK_MAX_SIZE \<and> sk_rcv_size b \<ge> SOCK_MIN_SIZE);
          rb \<leftarrow> bytes_ringbuffer_new junk (sk_rcv_size b);
          sb \<leftarrow> bytes_ringbuffer_new junk (sk_snd_size b);
          Some (socket_base.extend b (socket.fields sb rb (fresh_mem junk (unat (sk_snd_size b))) (fresh_mem junk (unat (sk_rcv_size b)))
                  WAWO_MAX_ASYNC_WRITE_PERIOD 0 [] [] None)) }"

definition socket_fd ::
    "(nat \<Rightarrow> byte) \<Rightarrow> int \<Rightarrow> address \<Rightarrow> socket_mode \<Rightarrow> u32 \<Rightarrow> u32 \<Rightarrow> family \<Rightarrow> sock_type \<Rightarrow> protocol_type \<Rightarrow> u32 \<Rightarrow> 't socket option" where
  "socket_fd junk fd addr sm rcv_sz snd_sz family sockt proto option =
     do { b \<leftarrow> socket_base_fd fd addr sm rcv_sz snd_sz family sockt proto option; socket_init junk b }"

definition socket_new ::
    "(nat \<Rightarrow> byte) \<Rightarrow> u32 \<Rightarrow> u32 \<Rightarrow> family \<Rightarrow> sock_type \<Rightarrow> protocol_type \<Rightarrow> u32 \<Rightarrow> 't socket option" where
  "socket_new junk rcv_sz snd_sz family sockt proto option =
     do { b \<leftarrow> socket_base_new rcv_sz snd_sz family sockt proto option; socket_init junk b }"

definition set_tlp :: "'t \<Rightarrow> 't socket \<Rightarrow> 't socket option" where
  "set_tlp t s = do { wawo_assert (sk_m_tlp s = None); Some (s\<lparr> sk_m_tlp := Some t \<rparr>) }"

definition is_flush_timer_expired :: "u64 \<Rightarrow> 't socket \<Rightarrow> bool" where
  "is_flush_timer_expired now s \<longleftrightarrow>
     sk_m_async_wt s \<noteq> 0 \<and> rb_count (sk_m_sb s) > 0 \<and> now > sk_m_async_wt s + sk_m_delay_wp s"

definition so_accept :: "'k socket_fns \<Rightarrow> (nat \<Rightarrow> byte) \<Rightarrow> u32 \<Rightarrow> 't socket \<Rightarrow> 'k \<Rightarrow> ('t socket list \<times> int \<times> 'k) option" where
  "so_accept F junk asize s k =
     sb_accept F (\<lambda>fd addr. socket_fd junk fd addr SM_PASSIVE (sk_rcv_size s) (sk_snd_size s) (sk_m_family s) (sk_m_type s) (sk_m_protocol s) 0)
       asize s k"

section \<open>Sending\<close>

text \<open>\<open>ec_o\<close> is returned as it came in when the bytes only go to the buffer.\<close>

definition so_send :: "'k socket_fns \<Rightarrow> u64 \<Rightarrow> bytes \<Rightarrow> int \<Rightarrow> u32 \<Rightarrow> 't socket \<Rightarrow> 'k \<Rightarrow> (u32 \<times> int \<times> 't socket \<times> 'k) option" where
  "so_send F now buffer ec_o flag s k =
     do { let sz = of_nat (length buffer);
          wawo_assert (sz > 0);
          wawo_assert (sz \<le> rb_capacity (sk_m_sb s));
          if has_flag (sk_m_wflag s) SHUTDOWN_WR then Some (0, E_SOCKET_WR_SHUTDOWN_ALREADY, s, k)
          else if sz > sk_snd_size s then Some (0, E_SOCKET_LARGE_PACKET, s, k)
          else if is_nonblocking s \<and> rb_count (sk_m_sb s) > 0 then
            if has_flag flag F_SEND_USE_SND_BUFFER \<and> rb_left_capacity (sk_m_sb s) > sz then do {
              (wcount, sb) \<leftarrow> rb_write (sk_m_sb s) buffer sz;
              wawo_assert (wcount = sz);
              Some (wcount, ec_o, s\<lparr> sk_m_sb := sb \<rparr>, k) }
            else Some (0, E_SOCKET_SEND_BLOCK, s, k)
          else do {
            (sent, ec_o, k) \<leftarrow> sb_send F buffer (flag AND NOT F_SEND_USE_SND_BUFFER) s k;
            if sent < sz \<and> ec_o = E_SOCKET_SEND_BLOCK then do {
              wawo_assert (is_nonblocking s);
              let to_buffer_c = sz - sent;
              wawo_assert (rb_left_capacity (sk_m_sb s) \<ge> to_buffer_c);
              (write_c, sb) \<leftarrow> rb_write (sk_m_sb s) (drop (unat sent) buffer) to_buffer_c;
              wawo_assert (to_buffer_c = write_c);
              s \<leftarrow> begin_async_write 0 Async_write (sb_note (Schedule_event E_WR_BLOCK 1) (s\<lparr> sk_m_sb := sb, sk_m_async_wt := now \<rparr>));
              Some (sent + write_c, ec_o, s, k) }
            else Some (sent, ec_o, s, k) } }"

text \<open>\<open>_flush\<close>: the bytes flushed, \<open>left\<close> and \<open>ec_o\<close>.\<close>

partial_function (option) flush_loop :: "'k socket_fns \<Rightarrow> u32 \<Rightarrow> int \<Rightarrow> 't socket \<Rightarrow> 'k \<Rightarrow> (u32 \<times> u32 \<times> int \<times> 't socket \<times> 'k) option" where
  "flush_loop F flushed ec_o s k =
     (let left = rb_count (sk_m_sb s) in
      if left \<noteq> 0 \<and> ec_o = OK then do {
        (to_send, d, sb) \<leftarrow> rb_peek (sk_m_sb s) (sk_snd_size s);
        tsb \<leftarrow> mem_write (sk_m_tsb s) 0 d;
        buf \<leftarrow> mem_read tsb 0 (unat to_send);
        (sent, ec_o, k) \<leftarrow> sb_send F buf 0 s k;
        sb \<leftarrow> (if sent > 0 then rb_skip sb sent else Some sb);
        flush_loop F (flushed + sent) ec_o (s\<lparr> sk_m_tsb := tsb, sk_m_sb := sb \<rparr>) k }
      else Some (flushed, left, ec_o, s, k))"

definition do_flush :: "'k socket_fns \<Rightarrow> 't socket \<Rightarrow> 'k \<Rightarrow> (u32 \<times> u32 \<times> int \<times> 't socket \<times> 'k) option" where
  "do_flush F s k =
     do { wawo_assert (is_data_socket s); wawo_assert (is_nonblocking s); flush_loop F 0 OK s k }"

text \<open>flush(): \<open>clock\<close> are the readings of the clock in microseconds, one for each round of the loop that does not end it.\<close>

fun flush_wait :: "'k socket_fns \<Rightarrow> int \<Rightarrow> u64 \<Rightarrow> u64 list \<Rightarrow> 't socket \<Rightarrow> 'k \<Rightarrow> ((u32 \<times> int) blocking \<times> 't socket \<times> 'k) option" where
  "flush_wait F block_time begin_time clock s k =
     do { (flushed, left, ec_o, s, k) \<leftarrow> do_flush F s k;
          if left = 0 \<or> block_time = 0 \<or> ec_o \<noteq> E_SOCKET_SEND_BLOCK then Some (Ret (left, ec_o), s, k)
          else case clock of
            [] \<Rightarrow> Some (Block, s, k)
          | now # clock \<Rightarrow>
              let begin_time = (if begin_time = 0 then now else begin_time) in
              if block_time \<noteq> -1 \<and> begin_time - now > ucast (of_int block_time :: u32) then Some (Ret (left, ec_o), s, k)
              else flush_wait F block_time begin_time clock s k }"

declare flush_wait.simps [simp del]

definition so_flush :: "'k socket_fns \<Rightarrow> int \<Rightarrow> u64 list \<Rightarrow> u32 \<Rightarrow> 't socket \<Rightarrow> 'k \<Rightarrow> ((u32 \<times> int) blocking \<times> 't socket \<times> 'k) option" where
  "so_flush F block_time clock left s k =
     (if \<not> is_nonblocking s then Some (Ret (left, E_INVALID_OPERATION), s, k)
      else do {
        (r, s, k) \<leftarrow> flush_wait F block_time 0 clock s k;
        case r of
          Block \<Rightarrow> Some (Block, s, k)
        | Ret (left, ec_o) \<Rightarrow> Some (Ret (left, ec_o), if left = 0 then s\<lparr> sk_m_async_wt := 0 \<rparr> else s, k) })"

partial_function (option) async_write_loop :: "'k socket_fns \<Rightarrow> u32 \<Rightarrow> 't socket \<Rightarrow> 'k \<Rightarrow> (u32 \<times> u32 \<times> int \<times> 't socket \<times> 'k) option" where
  "async_write_loop F flushed_total s k =
     do { (flushed, left, ec_o, s, k) \<leftarrow> do_flush F s k;
          let flushed_total = flushed_total + flushed;
          if left = 0 \<or> ec_o \<noteq> OK then Some (flushed_total, left, ec_o, s, k)
          else async_write_loop F flushed_total s k }"

definition handle_async_write :: "'k socket_fns \<Rightarrow> u64 \<Rightarrow> 't socket \<Rightarrow> 'k \<Rightarrow> (int \<times> 't socket \<times> 'k) option" where
  "handle_async_write F now s k =
     do { wawo_assert (is_nonblocking s);
          s \<leftarrow> (if \<not> has_flag (sk_m_wflag s) WATCH_OPTION_INFINITE then end_async_write s else Some s);
          (flushed_total, left, ec_o, s, k) \<leftarrow> async_write_loop F 0 s k;
          if left = 0 then do {
            wawo_assert (ec_o = OK);
            if flushed_total \<noteq> 0 then do {
              s \<leftarrow> end_async_write s;
              Some (ec_o, sb_note (Schedule_event E_WR_UNBLOCK 0) (s\<lparr> sk_m_async_wt := 0 \<rparr>), k) }
            else Some (ec_o, s, k) }
          else do {
            wawo_assert (sk_m_async_wt s \<noteq> 0);
            if ec_o = E_SOCKET_SEND_BLOCK then
              if flushed_total = 0 \<and> now > sk_m_async_wt s + sk_m_delay_wp s then Some (E_SOCKET_SEND_IO_BLOCK_EXPIRED, s, k)
              else do {
                s \<leftarrow> begin_async_write 0 Async_write (if flushed_total > 0 then s\<lparr> sk_m_async_wt := now \<rparr> else s);
                Some (ec_o, s, k) }
            else Some (ec_o, s, k) } }"

text \<open>The packet is dereferenced when encode() reports OK; \<open>ec_o\<close> is the uninitialised \<open>send_ec\<close>.\<close>

definition send_packet ::
    "'k socket_fns \<Rightarrow> 't tlp_abstract \<Rightarrow> u64 \<Rightarrow> packet \<Rightarrow> int \<Rightarrow> u32 \<Rightarrow> 't socket \<Rightarrow> 'k \<Rightarrow> (int \<times> 't socket \<times> 'k) option" where
  "send_packet F T now p ec_o flag s k =
     do { t \<leftarrow> sk_m_tlp s;
          (rt, out, t) \<leftarrow> tl_encode T t p;
          let s = s\<lparr> sk_m_tlp := Some t \<rparr>;
          if rt \<noteq> OK then Some (rt, s, k)
          else do {
            out \<leftarrow> out;
            d \<leftarrow> pk_content out;
            (n, send_ec, s, k) \<leftarrow> so_send F now d ec_o flag s k;
            Some (if n = of_nat (length d) then OK else send_ec, s, k) } }"

section \<open>Receiving\<close>

definition so_pump :: "'k socket_fns \<Rightarrow> u32 \<Rightarrow> 't socket \<Rightarrow> 'k \<Rightarrow> (int \<times> 't socket \<times> 'k) option" where
  "so_pump F flag s k =
     do { wawo_assert (is_data_socket s);
          let left_space = rb_left_capacity (sk_m_rb s);
          if left_space = 0 then Some (E_SOCKET_RECV_BUFFER_FULL, s, k)
          else do {
            (d, ec_o, k) \<leftarrow> sb_recv F (if sk_rcv_size s \<le> left_space then sk_rcv_size s else left_space) flag s k;
            trb \<leftarrow> mem_write (sk_m_trb s) 0 d;
            let recv_BC = of_nat (length d);
            if recv_BC > 0 then do {
              (rb_WBC, rb) \<leftarrow> rb_write (sk_m_rb s) trb recv_BC;
              wawo_assert (recv_BC = rb_WBC);
              Some (ec_o, s\<lparr> sk_m_trb := trb, sk_m_rb := rb \<rparr>, k) }
            else Some (ec_o, s\<lparr> sk_m_trb := trb \<rparr>, k) } }"

text \<open>
  \<open>_receive_packets\<close>: a packet that the protocol answers with (\<open>out\<close>) is sent at once, and the label force_pump is the
  recursive call. \<open>now\<close> is the clock of that send().
\<close>

definition pump_step :: "'k socket_fns \<Rightarrow> u32 \<Rightarrow> bool \<Rightarrow> 't socket \<Rightarrow> 'k \<Rightarrow> (bool \<times> int \<times> 't socket \<times> 'k) option" where
  "pump_step F flag force s k =
     (if force \<or> has_flag flag F_RCV_ALWAYS_PUMP then do {
        (pump_ec, s, k) \<leftarrow> so_pump F (flag AND NOT (F_RCV_BLOCK_UNTIL_PACKET_ARRIVE OR F_RCV_ALWAYS_PUMP)) s k;
        if \<not> (pump_ec = OK \<or> pump_ec = E_SOCKET_RECV_BLOCK \<or> pump_ec = E_SOCKET_RECV_BUFFER_FULL) then Some (False, pump_ec, s, k)
        else if rb_count (sk_m_rb s) = 0 then do {
          wawo_assert (is_nonblocking s \<longrightarrow> pump_ec = E_SOCKET_RECV_BLOCK);
          wawo_assert (\<not> is_nonblocking s \<longrightarrow> pump_ec \<noteq> OK);
          Some (False, pump_ec, s, k) }
        else Some (True, pump_ec, s, k) }
      else Some (True, OK, s, k))"

definition answer_step :: "'k socket_fns \<Rightarrow> u64 \<Rightarrow> packet option \<Rightarrow> int \<Rightarrow> 't socket \<Rightarrow> 'k \<Rightarrow> (int \<times> 't socket \<times> 'k) option" where
  "answer_step F now out ec_o s k =
     (case out of
        None \<Rightarrow> Some (ec_o, s, k)
      | Some p \<Rightarrow> do {
          len \<leftarrow> pk_len p;
          if len = 0 then Some (ec_o, s, k)
          else do {
            d \<leftarrow> pk_content p;
            (snd_bytes, sndec, s, k) \<leftarrow> so_send F now d 0 0 s k;
            wawo_assert (sndec = OK \<longrightarrow> snd_bytes = len);
            Some (if sndec \<noteq> OK then sndec else ec_o, s, k) } })"

partial_function (option) receive_loop ::
    "'k socket_fns \<Rightarrow> 't tlp_abstract \<Rightarrow> u64 \<Rightarrow> u32 \<Rightarrow> u32 \<Rightarrow> bool \<Rightarrow> 't socket \<Rightarrow> 'k \<Rightarrow> (packet list \<times> int \<times> 't socket \<times> 'k) option" where
  "receive_loop F T now asize flag force s k =
     do { (go_on, pump_ec, s, k) \<leftarrow> pump_step F flag force s k;
          if \<not> go_on then Some ([], pump_ec, s, k)
          else do {
            t \<leftarrow> sk_m_tlp s;
            (arrives, tlp_state, out, t, rb) \<leftarrow> tl_decode T t (sk_m_rb s) asize;
            let s = s\<lparr> sk_m_tlp := Some t, sk_m_rb := rb \<rparr>;
            if \<not> (tlp_state = OK \<or> tlp_state = E_TLP_HANDSHAKING \<or> tlp_state = E_TLP_HANDSHAKE_DONE \<or> tlp_state = E_TLP_TRY_AGAIN)
            then Some (arrives, tlp_state, s, k)
            else do {
              (ec_o, s, k) \<leftarrow> answer_step F now out tlp_state s k;
              if has_flag flag F_RCV_BLOCK_UNTIL_PACKET_ARRIVE \<and> arrives = [] \<and> asize > 0 then receive_loop F T now asize flag True s k
              else do {
                let ec_o = (if (pump_ec = OK \<or> pump_ec = E_SOCKET_RECV_BUFFER_FULL) \<and> is_nonblocking s then E_SOCKET_PUMP_TRY_AGAIN else ec_o);
                let ec_o = (if of_nat (length arrives) = asize \<and> rb_count (sk_m_rb s) \<noteq> 0 then E_TLP_TRY_AGAIN else ec_o);
                Some (arrives, ec_o, s, k) } } } }"

definition receive_packets ::
    "'k socket_fns \<Rightarrow> 't tlp_abstract \<Rightarrow> u64 \<Rightarrow> u32 \<Rightarrow> u32 \<Rightarrow> 't socket \<Rightarrow> 'k \<Rightarrow> (packet list \<times> int \<times> 't socket \<times> 'k) option" where
  "receive_packets F T now asize flag s k = receive_loop F T now asize flag (rb_count (sk_m_rb s) = 0) s k"

text \<open>The loop of \<open>handle_async_read\<close>: the packets go to the standby queue; the flag is \<open>has_new_arrives\<close>.\<close>

partial_function (option) async_read_loop ::
    "'k socket_fns \<Rightarrow> 't tlp_abstract \<Rightarrow> u64 \<Rightarrow> u32 \<Rightarrow> bool \<Rightarrow> 't socket \<Rightarrow> 'k \<Rightarrow> (bool \<times> int \<times> 't socket \<times> 'k) option" where
  "async_read_loop F T now flag has_new_arrives s k =
     do { (arrives, ec_o, s, k) \<leftarrow> receive_packets F T now 5 flag s k;
          let has_new_arrives = (has_new_arrives \<or> arrives \<noteq> []);
          let s = s\<lparr> sk_m_rps_q_standby := sk_m_rps_q_standby s @ arrives \<rparr>;
          if ec_o = E_TLP_TRY_AGAIN \<or> ec_o = E_SOCKET_PUMP_TRY_AGAIN
          then async_read_loop F T now (if ec_o = E_SOCKET_PUMP_TRY_AGAIN then F_RCV_ALWAYS_PUMP else 0) has_new_arrives s k
          else Some (has_new_arrives, ec_o, s, k) }"

text \<open>The packets of \<open>m_rps_q\<close> are given to the listeners, from the front.\<close>

primrec trigger_packets :: "packet list \<Rightarrow> 't socket \<Rightarrow> 't socket" where
  "trigger_packets [] s = s"
| "trigger_packets (p # ps) s = trigger_packets ps ((sb_note (Trigger_packet p) s)\<lparr> sk_m_rps_q := ps \<rparr>)"

text \<open>
  A thread that finds \<open>m_rps_q\<close> in use waits until it is empty, which the code asserts next. The test of \<open>m_wflag\<close> is the code's.
\<close>

definition deliver_packets :: "'t socket \<Rightarrow> 't socket option" where
  "deliver_packets s =
     do { wawo_assert (sk_m_rps_q s = []);
          let s = (if sk_m_rps_q_standby s \<noteq> [] then s\<lparr> sk_m_rps_q := sk_m_rps_q_standby s, sk_m_rps_q_standby := sk_m_rps_q s \<rparr> else s);
          Some (trigger_packets (sk_m_rps_q s) s) }"

definition handle_async_read :: "'k socket_fns \<Rightarrow> 't tlp_abstract \<Rightarrow> u64 \<Rightarrow> 't socket \<Rightarrow> 'k \<Rightarrow> (int \<times> 't socket \<times> 'k) option" where
  "handle_async_read F T now s k =
     do { wawo_assert (is_data_socket s);
          wawo_assert (is_nonblocking s);
          let is_one_time_async_read = (\<not> has_flag (sk_m_wflag s) WATCH_OPTION_INFINITE);
          s \<leftarrow> (if is_one_time_async_read then end_async_read s else Some s);
          (has_new_arrives, ec_o, s, k) \<leftarrow> async_read_loop F T now F_RCV_ALWAYS_PUMP False s k;
          s \<leftarrow> (if is_one_time_async_read \<and> \<not> has_new_arrives then begin_async_read 0 Async_read s else Some s);
          s \<leftarrow> (if has_new_arrives then deliver_packets s else Some s);
          Some (ec_o, s, k) }"

end
