(* ===== verification/Socket_Life.thy ===== *)
theory Socket_Life
  imports Socket
begin

text \<open>
  The rest of src/net/socket.cpp: close and shutdown with the events they schedule, the handshake of the protocol, and the
  callbacks the observer runs when a descriptor is ready. The readings of the clock during a flush are an argument.
\<close>

section \<open>Close and shutdown\<close>

definition FLUSH_BLOCK_TIME_INFINITE :: int where "FLUSH_BLOCK_TIME_INFINITE = -1"
definition FLUSH_DEFAULT_BLOCK_TIME :: int where "FLUSH_DEFAULT_BLOCK_TIME = 5 * 1000"

text \<open>Both flush first, unless the write half is closed already.\<close>

definition flush_first :: "'k socket_fns \<Rightarrow> int \<Rightarrow> u64 list \<Rightarrow> 't socket \<Rightarrow> 'k \<Rightarrow> ((u32 \<times> int) blocking \<times> 't socket \<times> 'k) option" where
  "flush_first F block_time clock s k =
     (if is_nonblocking s \<and> is_data_socket s \<and> \<not> is_write_shutdowned s then so_flush F block_time clock 0 s k
      else Some (Ret (0, OK), s, k))"

definition mark_closed :: "'t socket \<Rightarrow> (byte \<times> 't socket) option" where
  "mark_closed s =
     do { let rd = (if has_flag (sk_m_rflag s) SHUTDOWN_RD then 0 else SHUTDOWN_RD);
          let s = s\<lparr> sk_m_rflag := sk_m_rflag s OR rd \<rparr>;
          s \<leftarrow> (if is_nonblocking s then end_async_read s else Some s);
          let wr = (if has_flag (sk_m_wflag s) SHUTDOWN_WR then 0 else SHUTDOWN_WR);
          let s = s\<lparr> sk_m_wflag := sk_m_wflag s OR wr \<rparr>;
          s \<leftarrow> (if is_nonblocking s then end_async_write s else Some s);
          Some (rd OR wr, s) }"

definition so_close :: "'k socket_fns \<Rightarrow> u64 list \<Rightarrow> int \<Rightarrow> 't socket \<Rightarrow> 'k \<Rightarrow> (int blocking \<times> 't socket \<times> 'k) option" where
  "so_close F clock ec s k =
     (if sk_m_state s = S_CLOSED then Some (Ret E_INVALID_STATE, s, k)
      else do {
        (r, s, k) \<leftarrow> flush_first F (if ec = OK then FLUSH_BLOCK_TIME_INFINITE else FLUSH_DEFAULT_BLOCK_TIME) clock s k;
        if r = Block then Some (Block, s, k)
        else do {
          (sflag, s) \<leftarrow> mark_closed s;
          let old_state = sk_m_state s;
          (closert, s, k) \<leftarrow> do_close F s k;
          if \<not> is_nonblocking s then Some (Ret closert, s, k)
          else if is_listener s then Some (Ret closert, sb_note (Schedule_event E_CLOSE ec) s, k)
          else if old_state \<noteq> S_CONNECTED then do {
            wawo_assert (ec \<noteq> 0);
            Some (Ret closert, sb_note (Schedule_event E_ERROR ec) s, k) }
          else Some (Ret closert, sb_note (Schedule_close sflag ec) s, k) } })"

definition so_shutdown :: "'k socket_fns \<Rightarrow> u64 list \<Rightarrow> byte \<Rightarrow> int \<Rightarrow> 't socket \<Rightarrow> 'k \<Rightarrow> (int blocking \<times> 't socket \<times> 'k) option" where
  "so_shutdown F clock flag ec s k =
     do { wawo_assert (flag = SHUTDOWN_RD \<or> flag = SHUTDOWN_WR \<or> flag = SHUTDOWN_RDWR);
          (r, s, k) \<leftarrow> flush_first F FLUSH_DEFAULT_BLOCK_TIME clock s k;
          if r = Block then Some (Block, s, k)
          else do {
            (shutrt, sflag, s, k) \<leftarrow> do_shutdown F flag s k;
            if sflag = 0 then do {
              wawo_assert (shutrt = E_INVALID_OPERATION);
              Some (Ret E_INVALID_OPERATION, s, k) }
            else if \<not> is_nonblocking s then Some (Ret shutrt, s, k)
            else Some (Ret shutrt, sb_note (Schedule_shutdown sflag ec) s, k) } }"

text \<open>The lambdas that close() and shutdown() give to the scheduler.\<close>

definition trigger_shut :: "byte \<Rightarrow> int \<Rightarrow> 't socket \<Rightarrow> 't socket" where
  "trigger_shut sflag ec s =
     (let s = (if has_flag sflag SHUTDOWN_RD then sb_note (Trigger_event E_RD_SHUTDOWN ec) s else s) in
      if has_flag sflag SHUTDOWN_WR then sb_note (Trigger_event E_WR_SHUTDOWN ec) s else s)"

definition run_close :: "byte \<Rightarrow> int \<Rightarrow> 't socket \<Rightarrow> 't socket" where
  "run_close sflag ec s = sb_note (Trigger_event E_CLOSE ec) (trigger_shut sflag ec s)"

definition rdwr_check :: "'k socket_fns \<Rightarrow> u64 list \<Rightarrow> int \<Rightarrow> 't socket \<Rightarrow> 'k \<Rightarrow> (unit blocking \<times> 't socket \<times> 'k) option" where
  "rdwr_check F clock ec s k =
     (let nflag = (if has_flag (sk_m_rflag s) SHUTDOWN_RD then SHUTDOWN_RD else 0) OR (if has_flag (sk_m_wflag s) SHUTDOWN_WR then SHUTDOWN_WR else 0) in
      if nflag = SHUTDOWN_RDWR then do {
        (r, s, k) \<leftarrow> so_close F clock ec s k;
        Some (case r of Block \<Rightarrow> Block | Ret _ \<Rightarrow> Ret (), s, k) }
      else Some (Ret (), s, k))"

definition run_shutdown :: "'k socket_fns \<Rightarrow> u64 list \<Rightarrow> byte \<Rightarrow> int \<Rightarrow> 't socket \<Rightarrow> 'k \<Rightarrow> (unit blocking \<times> 't socket \<times> 'k) option" where
  "run_shutdown F clock sflag ec s k = rdwr_check F clock ec (trigger_shut sflag ec s) k"

section \<open>The handshake\<close>

partial_function (option) handshake_loop ::
    "'k socket_fns \<Rightarrow> 't tlp_abstract \<Rightarrow> u64 \<Rightarrow> u32 \<Rightarrow> 't socket \<Rightarrow> 'k \<Rightarrow> (int \<times> 't socket \<times> 'k) option" where
  "handshake_loop F T now flag s k =
     do { (arrives, ec_o, s, k) \<leftarrow> receive_packets F T now 0 flag s k;
          wawo_assert (arrives = []);
          t \<leftarrow> sk_m_tlp s;
          if (ec_o = E_TLP_TRY_AGAIN \<or> ec_o = E_SOCKET_PUMP_TRY_AGAIN) \<and> tl_handshaking T t
          then handshake_loop F T now (if ec_o = E_SOCKET_PUMP_TRY_AGAIN then F_RCV_ALWAYS_PUMP else 0) s k
          else Some (ec_o, s, k) }"

definition handle_async_handshake :: "'k socket_fns \<Rightarrow> 't tlp_abstract \<Rightarrow> u64 \<Rightarrow> 't socket \<Rightarrow> 'k \<Rightarrow> (int \<times> 't socket \<times> 'k) option" where
  "handle_async_handshake F T now s k =
     do { wawo_assert (is_data_socket s);
          wawo_assert (is_nonblocking s);
          t \<leftarrow> sk_m_tlp s;
          if tl_done T t then Some (OK, s, k)
          else do {
            (ec_o, s, k) \<leftarrow> handshake_loop F T now F_RCV_ALWAYS_PUMP s k;
            t \<leftarrow> sk_m_tlp s;
            Some (if tl_done T t \<and> (ec_o = OK \<or> ec_o = E_TLP_TRY_AGAIN \<or> ec_o = E_SOCKET_PUMP_TRY_AGAIN \<or> ec_o = E_SOCKET_RECV_BLOCK)
                  then E_TLP_HANDSHAKE_DONE else ec_o, s, k) } }"

text \<open>The waiting branch of \<open>tlp_handshake\<close>.\<close>

partial_function (option) handshake_wait ::
    "'k socket_fns \<Rightarrow> 't tlp_abstract \<Rightarrow> u64 \<Rightarrow> int \<Rightarrow> 't socket \<Rightarrow> 'k \<Rightarrow> (int \<times> 't socket \<times> 'k) option" where
  "handshake_wait F T now handshake_state s k =
     do { t \<leftarrow> sk_m_tlp s;
          if \<not> tl_handshaking T t then Some (handshake_state, s, k)
          else do {
            (arrives, handshake_state, s, k) \<leftarrow> receive_packets F T now 0 F_RCV_BLOCK_UNTIL_PACKET_ARRIVE s k;
            wawo_assert (arrives = []);
            if handshake_state \<noteq> E_TLP_TRY_AGAIN \<and> handshake_state \<noteq> E_TLP_HANDSHAKING \<and> handshake_state \<noteq> OK \<and>
               handshake_state \<noteq> E_SOCKET_PUMP_TRY_AGAIN \<and> handshake_state \<noteq> E_SOCKET_RECV_BLOCK
            then Some (handshake_state, s, k)
            else handshake_wait F T now handshake_state s k } }"

text \<open>\<open>async\<close>: a cookie and both callbacks are given.\<close>

definition tlp_handshake :: "'k socket_fns \<Rightarrow> 't tlp_abstract \<Rightarrow> u64 \<Rightarrow> bool \<Rightarrow> 't socket \<Rightarrow> 'k \<Rightarrow> (int \<times> 't socket \<times> 'k) option" where
  "tlp_handshake F T now async s k =
     do { t \<leftarrow> sk_m_tlp s;
          (handshake_state, hello, t) \<leftarrow> tl_make_hello T t;
          let s = s\<lparr> sk_m_tlp := Some t \<rparr>;
          if handshake_state = E_TLP_HANDSHAKE_DONE then Some (E_TLP_HANDSHAKE_DONE, s, k)
          else do {
            hello \<leftarrow> hello;
            d \<leftarrow> pk_content hello;
            (sndrt, handshake_state, k) \<leftarrow> sb_send F d 0 s k;
            if handshake_state \<noteq> OK then Some (handshake_state, s, k)
            else if async then do { s \<leftarrow> begin_async_handshake s; Some (E_TLP_HANDSHAKING, s, k) }
            else do {
              (handshake_state, s, k) \<leftarrow> handshake_wait F T now handshake_state s k;
              t \<leftarrow> sk_m_tlp s;
              Some (if tl_done T t then E_TLP_HANDSHAKE_DONE else handshake_state, s, k) } } }"

section \<open>The callbacks\<close>

text \<open>The user's \<open>success\<close> and \<open>error\<close> functions are effects. A callback that has to close may have to wait for the flush.\<close>

definition async_connected :: "'k socket_fns \<Rightarrow> 't tlp_abstract \<Rightarrow> u64 \<Rightarrow> 't socket \<Rightarrow> 'k \<Rightarrow> ('t socket \<times> 'k) option" where
  "async_connected F T now s k =
     do { wawo_assert (sk_m_sm s = SM_ACTIVE);
          s \<leftarrow> end_async_write s;
          s \<leftarrow> handle_async_connected s;
          (rt, s, k) \<leftarrow> tlp_handshake F T now True s k;
          Some (if rt = E_TLP_HANDSHAKE_DONE then sb_note Call_success s
                else if rt \<noteq> E_TLP_HANDSHAKING then sb_note (Call_error rt) s else s, k) }"

definition async_connect_error :: "int \<Rightarrow> 't socket \<Rightarrow> 't socket option" where
  "async_connect_error code s =
     do { s \<leftarrow> end_async_write s; wawo_assert (sk_m_sm s = SM_ACTIVE); Some (sb_note (Call_error code) s) }"

definition async_handshake :: "'k socket_fns \<Rightarrow> 't tlp_abstract \<Rightarrow> u64 \<Rightarrow> 't socket \<Rightarrow> 'k \<Rightarrow> ('t socket \<times> 'k) option" where
  "async_handshake F T now s k =
     do { (ec, s, k) \<leftarrow> handle_async_handshake F T now s k;
          if ec = E_TLP_HANDSHAKING then Some (s, k)
          else if ec = OK \<or> ec = E_SOCKET_RECV_BLOCK \<or> ec = E_SOCKET_PUMP_TRY_AGAIN \<or> ec = E_TLP_TRY_AGAIN then do {
            t \<leftarrow> sk_m_tlp s; wawo_assert (tl_done T t); Some (s, k) }
          else do {
            s \<leftarrow> end_async_read s;
            Some (if ec = E_TLP_HANDSHAKE_DONE then sb_note Call_success s else sb_note (Call_error ec) s, k) } }"

definition async_handshake_error :: "int \<Rightarrow> 't socket \<Rightarrow> 't socket" where
  "async_handshake_error code s = sb_note (Call_error code) s"

definition forget :: "('a blocking \<times> 's \<times> 'k) option \<Rightarrow> (unit blocking \<times> 's \<times> 'k) option" where
  "forget r = do { (b, s, k) \<leftarrow> r; Some (case b of Block \<Rightarrow> Block | Ret _ \<Rightarrow> Ret (), s, k) }"

definition async_read :: "'k socket_fns \<Rightarrow> 't tlp_abstract \<Rightarrow> u64 \<Rightarrow> u64 list \<Rightarrow> 't socket \<Rightarrow> 'k \<Rightarrow> (unit blocking \<times> 't socket \<times> 'k) option" where
  "async_read F T now clock s k =
     do { (ec, s, k) \<leftarrow> handle_async_read F T now s k;
          if ec = OK \<or> ec = E_SOCKET_RECV_BLOCK \<or> ec = E_TLP_HANDSHAKE_DONE \<or> ec = E_TLP_HANDSHAKING then Some (Ret (), s, k)
          else if ec = E_SOCKET_GRACE_CLOSE then forget (so_shutdown F clock SHUTDOWN_RD 0 s k)
          else if ec = E_SOCKET_RD_SHUTDOWN_ALREADY then Some (Ret (), s, k)
          else if ec = E_SOCKET_RECV_BUFFER_FULL then None
          else forget (so_close F clock ec s k) }"

text \<open>Before an error closes the socket, what has arrived is delivered.\<close>

partial_function (option) drain_loop :: "'k socket_fns \<Rightarrow> 't tlp_abstract \<Rightarrow> u64 \<Rightarrow> 't socket \<Rightarrow> 'k \<Rightarrow> ('t socket \<times> 'k) option" where
  "drain_loop F T now s k =
     do { (arrives, recv_ec, s, k) \<leftarrow> receive_packets F T now 5 F_RCV_ALWAYS_PUMP s k;
          let s = s\<lparr> sk_log := sk_log s @ map Trigger_packet arrives \<rparr>;
          if recv_ec = E_SOCKET_PUMP_TRY_AGAIN then drain_loop F T now s k else Some (s, k) }"

definition async_write :: "'k socket_fns \<Rightarrow> 't tlp_abstract \<Rightarrow> u64 \<Rightarrow> u64 list \<Rightarrow> 't socket \<Rightarrow> 'k \<Rightarrow> (unit blocking \<times> 't socket \<times> 'k) option" where
  "async_write F T now clock s k =
     do { (ec, s, k) \<leftarrow> handle_async_write F now s k;
          if ec = E_SOCKET_SEND_BLOCK \<or> ec = OK \<or> ec = E_SOCKET_WR_SHUTDOWN_ALREADY then Some (Ret (), s, k)
          else do {
            (s, k) \<leftarrow> drain_loop F T now s k;
            forget (so_close F clock ec s k) } }"

definition async_error :: "'k socket_fns \<Rightarrow> u64 list \<Rightarrow> int \<Rightarrow> 't socket \<Rightarrow> 'k \<Rightarrow> (unit blocking \<times> 't socket \<times> 'k) option" where
  "async_error F clock code s k = forget (so_close F clock code s k)"

end
