(* ===== verification/Sorted_Table.thy ===== *)
theory Sorted_Table
  imports Wawo_Prelude
begin

text \<open>
  A std::map is the list of its entries in the order of the keys: insert() keeps an entry that is already
  there, and iteration follows the keys. The interface \<open>table\<close> says what the code relies on, and the
  lemmas about properties of all entries are proved from it.
\<close>

type_synonym ('k, 'v) smap = "('k \<times> 'v) list"

fun smap_insert :: "'k::linorder \<Rightarrow> 'v \<Rightarrow> ('k, 'v) smap \<Rightarrow> ('k, 'v) smap" where
  "smap_insert k v [] = [(k, v)]"
| "smap_insert k v ((k', v') # m) =
     (if k < k' then (k, v) # (k', v') # m
      else if k = k' then (k', v') # m
      else (k', v') # smap_insert k v m)"

definition smap_erase :: "'k \<Rightarrow> ('k, 'v) smap \<Rightarrow> ('k, 'v) smap" where
  "smap_erase k m = filter (\<lambda>e. fst e \<noteq> k) m"

definition smap_ok :: "('k::linorder, 'v) smap \<Rightarrow> bool" where
  "smap_ok m \<longleftrightarrow> sorted_wrt (<) (map fst m)"

section \<open>The interface\<close>

locale table =
  fixes look :: "'t \<Rightarrow> 'k \<Rightarrow> 'v option"
    and ins :: "'k \<Rightarrow> 'v \<Rightarrow> 't \<Rightarrow> 't"
    and del :: "'k \<Rightarrow> 't \<Rightarrow> 't"
    and ok :: "'t \<Rightarrow> bool"
  assumes look_ins: "ok t \<Longrightarrow> look (ins k v t) = (if look t k = None then (look t)(k \<mapsto> v) else look t)"
    and look_del: "ok t \<Longrightarrow> look (del k t) = (look t)(k := None)"
    and ok_ins: "ok t \<Longrightarrow> ok (ins k v t)"
    and ok_del: "ok t \<Longrightarrow> ok (del k t)"
begin

text \<open>Every entry satisfies \<open>P\<close>.\<close>

definition entries :: "('k \<Rightarrow> 'v \<Rightarrow> bool) \<Rightarrow> 't \<Rightarrow> bool" where
  "entries P t \<longleftrightarrow> ok t \<and> (\<forall>k v. look t k = Some v \<longrightarrow> P k v)"

lemma entries_ins: "entries P t \<Longrightarrow> P k v \<Longrightarrow> entries P (ins k v t)"
  by (auto simp: entries_def look_ins ok_ins split: if_splits)

lemma entries_del: "entries P t \<Longrightarrow> entries P (del k t)"
  by (auto simp: entries_def look_del ok_del split: if_splits)

lemma entries_del_key: "entries P t \<Longrightarrow> entries (\<lambda>k' v. P k' v \<and> k' \<noteq> k) (del k t)"
  by (auto simp: entries_def look_del ok_del split: if_splits)

lemma entries_mono: "entries P t \<Longrightarrow> (\<And>k v. look t k = Some v \<Longrightarrow> P k v \<Longrightarrow> Q k v) \<Longrightarrow> entries Q t"
  by (auto simp: entries_def)

lemma entries_look: "entries P t \<Longrightarrow> look t k = Some v \<Longrightarrow> P k v"
  by (simp add: entries_def)

lemma ins_keeps_old: "ok t \<Longrightarrow> look t k = Some v \<Longrightarrow> look (ins k v' t) = look t"
  by (simp add: look_ins)

end

section \<open>Sorted lists implement it\<close>

lemma smap_insert_keys: "set (map fst (smap_insert k v m)) = insert k (set (map fst m))"
  by (induction k v m rule: smap_insert.induct) auto

lemma smap_insert_look:
  "smap_ok m \<Longrightarrow> map_of (smap_insert k v m) = (if map_of m k = None then (map_of m)(k \<mapsto> v) else map_of m)"
proof (induction m)
  case (Cons e m)
  have "k < k' \<Longrightarrow> \<forall>x \<in> set (map fst m). k' < x \<Longrightarrow> map_of m k = None" for k'
    by (metis map_of_eq_None_iff order_less_trans order_less_irrefl list.set_map)
  with Cons show ?case by (cases e) (auto simp: smap_ok_def fun_eq_iff)
qed simp

lemma smap_insert_ok: "smap_ok m \<Longrightarrow> smap_ok (smap_insert k v m)"
proof (induction k v m rule: smap_insert.induct)
  case (2 k v k' v' m)
  then show ?case using smap_insert_keys [of k v m] by (auto simp: smap_ok_def)
qed (simp add: smap_ok_def)

lemma smap_erase_look: "map_of (smap_erase k m) = (map_of m)(k := None)"
  by (induction m) (auto simp: smap_erase_def fun_eq_iff)

lemma smap_erase_ok: "smap_ok m \<Longrightarrow> smap_ok (smap_erase k m)"
  by (induction m) (auto simp: smap_erase_def smap_ok_def)

interpretation smap: table map_of smap_insert smap_erase smap_ok
  by unfold_locales (simp_all add: smap_insert_look smap_insert_ok smap_erase_look smap_erase_ok)

lemma smap_entries_set: "smap.entries P m \<Longrightarrow> (k, v) \<in> set m \<Longrightarrow> P k v"
proof -
  assume e: "smap.entries P m" and m: "(k, v) \<in> set m"
  have "distinct (map fst m)"
    using e by (auto simp: smap.entries_def smap_ok_def strict_sorted_iff)
  with m have "map_of m k = Some v" by simp
  then show "P k v" by (rule smap.entries_look [OF e])
qed

end
