(* ===== verification/Mux_Stream.thy ===== *)
theory Mux_Stream
  imports Socket_Life Sorted_Table
begin

text \<open>
  include/wawo/net/peer/message/mux_cargo.hpp and src/net/peer/message/mux_cargo.cpp: a stream of the multiplexing peer. Each stream has a buffer
  for each direction and a window: the sender spends it on data, the receiver gives it back with T_UWND messages when the user
  has read. The socket below is a record of the operations the peer calls, on its state \<open>'k\<close>.
\<close>

section \<open>Constants\<close>

definition E_MUX_STREAM_CARGO_STREAM_EXISTS :: int where "E_MUX_STREAM_CARGO_STREAM_EXISTS = -43001"
definition E_MUX_STREAM_CARGO_STREAM_NOT_FOUND :: int where "E_MUX_STREAM_CARGO_STREAM_NOT_FOUND = -43002"
definition E_MUX_STREAM_CARGO_STREAM_READ_SHUTDOWNED_ALREADY :: int where "E_MUX_STREAM_CARGO_STREAM_READ_SHUTDOWNED_ALREADY = -43003"
definition E_MUX_STREAM_CARGO_STREAM_WRITE_SHUTDOWNED_ALREADY :: int where "E_MUX_STREAM_CARGO_STREAM_WRITE_SHUTDOWNED_ALREADY = -43004"
definition E_MUX_STREAM_CARGO_STREAM_CLOSED_ALREADY :: int where "E_MUX_STREAM_CARGO_STREAM_CLOSED_ALREADY = -43005"
definition E_MUX_STREAM_WRITE_BLOCK :: int where "E_MUX_STREAM_WRITE_BLOCK = -43006"

definition STREAM_READ_SHUTDOWN_CALLED :: byte where "STREAM_READ_SHUTDOWN_CALLED = 1"
definition STREAM_READ_SHUTDOWN :: byte where "STREAM_READ_SHUTDOWN = 2"
definition STREAM_WRITE_SHUTDOWN_CALLED :: byte where "STREAM_WRITE_SHUTDOWN_CALLED = 4"
definition STREAM_WRITE_SHUTDOWN :: byte where "STREAM_WRITE_SHUTDOWN = 8"
definition STREAM_PLAN_FIN :: byte where "STREAM_PLAN_FIN = 16"
definition STREAM_PLAN_SYN :: byte where "STREAM_PLAN_SYN = 32"
definition STREAM_BUFFER_DETERMINED :: byte where "STREAM_BUFFER_DETERMINED = 64"

definition STREAM_WRITE_BLOCKED :: byte where "STREAM_WRITE_BLOCKED = 1"
definition STREAM_WRITE_UNBLOCKED :: byte where "STREAM_WRITE_UNBLOCKED = 2"

definition MUX_STREAM_WND_SIZE :: u32 where "MUX_STREAM_WND_SIZE = 256 * 1024"

definition T_SYN :: u16 where "T_SYN = 1"
definition T_DATA :: u16 where "T_DATA = 2"
definition T_UWND :: u16 where "T_UWND = 4"
definition T_RST :: u16 where "T_RST = 8"
definition T_FIN :: u16 where "T_FIN = 16"
definition T_ACCEPTED :: u16 where "T_ACCEPTED = 32"
definition T_CLOSED :: u16 where "T_CLOSED = 64"
definition T_WRITE_BLOCK :: u16 where "T_WRITE_BLOCK = 128"
definition T_WRITE_UNBLOCK :: u16 where "T_WRITE_UNBLOCK = 256"
definition T_MUX_STREAM_MESSAGE_TYPE_MAX :: u16 where "T_MUX_STREAM_MESSAGE_TYPE_MAX = T_WRITE_UNBLOCK + 1"

lemmas stream_flags = STREAM_READ_SHUTDOWN_CALLED_def STREAM_READ_SHUTDOWN_def STREAM_WRITE_SHUTDOWN_CALLED_def STREAM_WRITE_SHUTDOWN_def
  STREAM_PLAN_FIN_def STREAM_PLAN_SYN_def STREAM_BUFFER_DETERMINED_def
lemmas mux_types = T_SYN_def T_DATA_def T_UWND_def T_RST_def T_FIN_def T_ACCEPTED_def T_CLOSED_def T_WRITE_BLOCK_def T_WRITE_UNBLOCK_def
  T_MUX_STREAM_MESSAGE_TYPE_MAX_def

section \<open>The state\<close>

datatype stream_state = SS_CLOSED | SS_ESTABLISHED | SS_RECYCLE

type_synonym stream_id_t = u32

record mux_stream =
  ms_ctx :: "nat option"
  ms_state :: stream_state
  ms_flag :: byte
  ms_id :: stream_id_t
  ms_rb :: bytes_ringbuffer
  ms_rb_incre :: u32
  ms_wb :: bytes_ringbuffer
  ms_wb_wnd :: u32
  ms_write_flag :: byte

text \<open>The constructor and init(), which every caller runs before the stream is used.\<close>

definition stream_init :: "(nat \<Rightarrow> byte) \<Rightarrow> mux_stream option" where
  "stream_init junk =
     do { rb \<leftarrow> bytes_ringbuffer_new junk MUX_STREAM_WND_SIZE;
          wb \<leftarrow> bytes_ringbuffer_new junk MUX_STREAM_WND_SIZE;
          Some \<lparr> ms_ctx = None, ms_state = SS_CLOSED, ms_flag = 0, ms_id = 0, ms_rb = rb, ms_rb_incre = 0, ms_wb = wb,
                 ms_wb_wnd = MUX_STREAM_WND_SIZE, ms_write_flag = 0 \<rparr> }"

text \<open>What the peer calls of its socket.\<close>

record 'k mux_so =
  mo_send :: "packet \<Rightarrow> 'k \<Rightarrow> (int \<times> 'k) option"
  mo_close :: "int \<Rightarrow> 'k \<Rightarrow> (int \<times> 'k) option"
  mo_begin_read :: "'k \<Rightarrow> 'k option"
  mo_snd_size :: "'k \<Rightarrow> u32"
  mo_connected :: "'k \<Rightarrow> bool"

section \<open>Calls of the user\<close>

definition snd_fin :: "mux_stream \<Rightarrow> mux_stream option" where
  "snd_fin s =
     do { wawo_assert (ms_state s = SS_ESTABLISHED);
          wawo_assert (ms_id s \<noteq> 0);
          wawo_assert (\<not> has_flag (ms_flag s) STREAM_WRITE_SHUTDOWN_CALLED);
          wawo_assert (\<not> has_flag (ms_flag s) STREAM_PLAN_FIN);
          Some (s\<lparr> ms_flag := ms_flag s OR STREAM_PLAN_FIN \<rparr>) }"

definition snd_syn :: "mux_stream \<Rightarrow> mux_stream option" where
  "snd_syn s = do { wawo_assert (\<not> has_flag (ms_flag s) STREAM_PLAN_SYN); Some (s\<lparr> ms_flag := ms_flag s OR STREAM_PLAN_SYN \<rparr>) }"

definition force_close :: "mux_stream \<Rightarrow> mux_stream" where
  "force_close s = s\<lparr> ms_flag := ms_flag s OR (STREAM_READ_SHUTDOWN_CALLED OR STREAM_READ_SHUTDOWN) OR (STREAM_WRITE_SHUTDOWN_CALLED OR STREAM_WRITE_SHUTDOWN),
                      ms_state := SS_CLOSED \<rparr>"

definition stream_open :: "stream_id_t \<Rightarrow> nat option \<Rightarrow> mux_stream \<Rightarrow> (int \<times> mux_stream) option" where
  "stream_open new_id ctx s =
     do { wawo_assert (ms_id s = 0);
          wawo_assert (ms_state s = SS_CLOSED);
          s \<leftarrow> snd_syn (s\<lparr> ms_id := new_id, ms_state := SS_ESTABLISHED, ms_ctx := ctx \<rparr>);
          Some (OK, s) }"

text \<open>An empty packet is rejected by the assertion of the buffer.\<close>

definition stream_write :: "packet \<Rightarrow> mux_stream \<Rightarrow> (int \<times> mux_stream) option" where
  "stream_write opack s =
     (if has_flag (ms_flag s) (STREAM_WRITE_SHUTDOWN_CALLED OR STREAM_WRITE_SHUTDOWN) then Some (E_MUX_STREAM_CARGO_STREAM_WRITE_SHUTDOWNED_ALREADY, s)
      else do {
        len \<leftarrow> pk_len opack;
        if rb_left_capacity (ms_wb s) < len
        then Some (E_MUX_STREAM_WRITE_BLOCK, s\<lparr> ms_write_flag := ms_write_flag s OR STREAM_WRITE_BLOCKED \<rparr>)
        else do {
          d \<leftarrow> pk_content opack;
          (nwrites, wb) \<leftarrow> rb_write (ms_wb s) d len;
          wawo_assert (nwrites = len);
          Some (OK, s\<lparr> ms_wb := wb \<rparr>) } })"

definition stream_read :: "(nat \<Rightarrow> byte) \<Rightarrow> u32 \<Rightarrow> mux_stream \<Rightarrow> (u32 \<times> packet option \<times> mux_stream) option" where
  "stream_read junk mx s =
     (if rb_count (ms_rb s) = 0 then Some (0, None, s)
      else do {
        let try_max = (if mx \<noteq> 0 \<and> rb_count (ms_rb s) > mx then mx else rb_count (ms_rb s));
        pack \<leftarrow> packet_new junk try_max PACK_INIT_LEFT_CAPACITY;
        (rcount, d, rb) \<leftarrow> rb_read (ms_rb s) try_max True;
        mem \<leftarrow> mem_write (pk_m_buffer pack) (unat (pk_m_read_idx pack)) d;
        pack \<leftarrow> pk_forward_write_index (pack\<lparr> pk_m_buffer := mem \<rparr>) rcount;
        Some (rcount, Some pack, s\<lparr> ms_rb := rb, ms_rb_incre := ms_rb_incre s + rcount \<rparr>) })"

definition shut_stream_read :: "mux_stream \<Rightarrow> mux_stream" where
  "shut_stream_read s =
     (let s = s\<lparr> ms_flag := ms_flag s OR (STREAM_READ_SHUTDOWN_CALLED OR STREAM_READ_SHUTDOWN) \<rparr> in
      if rb_count (ms_rb s) \<noteq> 0 then s\<lparr> ms_rb_incre := ms_rb_incre s + rb_count (ms_rb s) \<rparr> else s)"

definition shut_stream_write :: "mux_stream \<Rightarrow> mux_stream option" where
  "shut_stream_write s = do { s \<leftarrow> snd_fin s; Some (s\<lparr> ms_flag := ms_flag s OR STREAM_WRITE_SHUTDOWN_CALLED \<rparr>) }"

definition close_read :: "mux_stream \<Rightarrow> int \<times> mux_stream" where
  "close_read s =
     (if has_flag (ms_flag s) STREAM_READ_SHUTDOWN_CALLED then (E_MUX_STREAM_CARGO_STREAM_READ_SHUTDOWNED_ALREADY, s)
      else (OK, shut_stream_read s))"

definition close_write :: "mux_stream \<Rightarrow> (int \<times> mux_stream) option" where
  "close_write s =
     (if has_flag (ms_flag s) STREAM_WRITE_SHUTDOWN_CALLED then Some (E_MUX_STREAM_CARGO_STREAM_WRITE_SHUTDOWNED_ALREADY, s)
      else do { s \<leftarrow> shut_stream_write s; Some (OK, s) })"

definition is_read_write_closed :: "mux_stream \<Rightarrow> bool" where
  "is_read_write_closed s \<longleftrightarrow>
     ms_flag s AND (STREAM_READ_SHUTDOWN OR STREAM_PLAN_FIN) = STREAM_READ_SHUTDOWN OR STREAM_PLAN_FIN \<or>
     ms_flag s AND (STREAM_READ_SHUTDOWN OR STREAM_WRITE_SHUTDOWN) = STREAM_READ_SHUTDOWN OR STREAM_WRITE_SHUTDOWN"

definition stream_close :: "mux_stream \<Rightarrow> (int \<times> mux_stream) option" where
  "stream_close s =
     (if has_flag (ms_flag s) STREAM_READ_SHUTDOWN_CALLED \<and> has_flag (ms_flag s) STREAM_WRITE_SHUTDOWN_CALLED
      then Some (E_MUX_STREAM_CARGO_STREAM_CLOSED_ALREADY, s)
      else do {
        let s = (if \<not> has_flag (ms_flag s) STREAM_READ_SHUTDOWN_CALLED then shut_stream_read s else s);
        s \<leftarrow> (if \<not> has_flag (ms_flag s) STREAM_WRITE_SHUTDOWN_CALLED then shut_stream_write s else Some s);
        Some (OK, s) })"

section \<open>Messages\<close>

text \<open>encode(): the type and the id in front of the data, or of an empty packet.\<close>

definition mux_encode :: "(nat \<Rightarrow> byte) \<Rightarrow> stream_id_t \<Rightarrow> u16 \<Rightarrow> packet option \<Rightarrow> (int \<times> packet) option" where
  "mux_encode junk sid t data =
     do { p \<leftarrow> (case data of Some d \<Rightarrow> packet_copy d | None \<Rightarrow> packet_default junk);
          p \<leftarrow> pk_write_left_T junk p t;
          p \<leftarrow> pk_write_left_T junk p sid;
          Some (OK, p) }"

definition send_message :: "'k mux_so \<Rightarrow> (nat \<Rightarrow> byte) \<Rightarrow> stream_id_t \<Rightarrow> u16 \<Rightarrow> packet option \<Rightarrow> 'k \<Rightarrow> (int \<times> 'k) option" where
  "send_message so junk sid t data k =
     do { (encrt, mpack) \<leftarrow> mux_encode junk sid t data;
          wawo_assert (encrt = OK);
          mo_send so mpack k }"

section \<open>Flushing\<close>

text \<open>The update of the peer's window: \<open>ec_o\<close>.\<close>

definition flush_wnd :: "'k mux_so \<Rightarrow> (nat \<Rightarrow> byte) \<Rightarrow> mux_stream \<Rightarrow> 'k \<Rightarrow> (int \<times> mux_stream \<times> 'k) option" where
  "flush_wnd so junk s k =
     (if ms_rb_incre s > 0 then do {
        opack \<leftarrow> packet_default junk;
        opack \<leftarrow> pk_write_T junk opack (ms_rb_incre s);
        (ec_o, k) \<leftarrow> send_message so junk (ms_id s) T_UWND (Some opack) k;
        Some (ec_o, if ec_o \<noteq> OK then s else s\<lparr> ms_rb_incre := 0 \<rparr>, k) }
      else Some (OK, s, k))"

definition flush_fin :: "'k mux_so \<Rightarrow> (nat \<Rightarrow> byte) \<Rightarrow> mux_stream \<Rightarrow> 'k \<Rightarrow> (int \<times> mux_stream \<times> 'k) option" where
  "flush_fin so junk s k =
     (if has_flag (ms_flag s) STREAM_PLAN_FIN then do {
        (ec_o, k) \<leftarrow> send_message so junk (ms_id s) T_FIN None k;
        Some (ec_o, if ec_o = OK then s\<lparr> ms_flag := (ms_flag s AND NOT STREAM_PLAN_FIN) OR STREAM_WRITE_SHUTDOWN \<rparr> else s, k) }
      else Some (OK, s, k))"

text \<open>The first flush replaces the write buffer by one that fits the buffer of the socket.\<close>

partial_function (option) move_bytes :: "bytes_ringbuffer \<Rightarrow> bytes_ringbuffer \<Rightarrow> (bytes_ringbuffer \<times> bytes_ringbuffer) option" where
  "move_bytes wb sb_new =
     (if rb_count wb \<noteq> 0 then do {
        (nbytes, tmp, wb) \<leftarrow> rb_read wb 8192 True;
        (n, sb_new) \<leftarrow> rb_write sb_new tmp nbytes;
        move_bytes wb sb_new }
      else Some (wb, sb_new))"

definition determine_buffer :: "'k mux_so \<Rightarrow> (nat \<Rightarrow> byte) \<Rightarrow> mux_stream \<Rightarrow> 'k \<Rightarrow> mux_stream option" where
  "determine_buffer so junk s k =
     (if \<not> has_flag (ms_flag s) STREAM_BUFFER_DETERMINED then do {
        let s = s\<lparr> ms_flag := ms_flag s OR STREAM_BUFFER_DETERMINED \<rparr>;
        let try_size = mo_snd_size so k - 1024;
        let sz = WAWO_MIN try_size (rb_capacity (ms_wb s));
        if sz \<noteq> rb_capacity (ms_wb s) then do {
          sb_new \<leftarrow> bytes_ringbuffer_new junk sz;
          (wb, sb_new) \<leftarrow> move_bytes (ms_wb s) sb_new;
          wawo_assert (rb_count wb = 0);
          Some (s\<lparr> ms_wb := sb_new \<rparr>) }
        else Some s }
      else Some s)"

definition flush_syn :: "'k mux_so \<Rightarrow> (nat \<Rightarrow> byte) \<Rightarrow> mux_stream \<Rightarrow> 'k \<Rightarrow> (int \<times> mux_stream \<times> 'k) option" where
  "flush_syn so junk s k =
     (if has_flag (ms_flag s) STREAM_PLAN_SYN then do {
        (ec_o, k) \<leftarrow> send_message so junk (ms_id s) T_SYN None k;
        Some (ec_o, if ec_o \<noteq> OK then s else s\<lparr> ms_flag := ms_flag s AND NOT STREAM_PLAN_SYN \<rparr>, k) }
      else Some (OK, s, k))"

text \<open>The loop that cuts the write buffer into T_DATA messages: \<open>flushed\<close> and \<open>ec_o\<close>.\<close>

partial_function (option) flush_data ::
    "'k mux_so \<Rightarrow> (nat \<Rightarrow> byte) \<Rightarrow> u32 \<Rightarrow> int \<Rightarrow> mux_stream \<Rightarrow> 'k \<Rightarrow> (u32 \<times> int \<times> mux_stream \<times> 'k) option" where
  "flush_data so junk flushed ec_o s k =
     (if rb_count (ms_wb s) \<noteq> 0 \<and> flushed < MUX_STREAM_WND_SIZE \<and> ms_wb_wnd s > 0 then do {
        let can_send_max = MUX_STREAM_WND_SIZE - flushed;
        let can_send_max = (if can_send_max > ms_wb_wnd s then ms_wb_wnd s else can_send_max);
        opack \<leftarrow> packet_new junk can_send_max PACK_INIT_LEFT_CAPACITY;
        (nbytes, d, wb) \<leftarrow> rb_peek (ms_wb s) can_send_max;
        mem \<leftarrow> mem_write (pk_m_buffer opack) (unat (pk_m_read_idx opack)) d;
        wawo_assert (nbytes > 0 \<and> nbytes \<le> can_send_max);
        opack \<leftarrow> pk_forward_write_index (opack\<lparr> pk_m_buffer := mem \<rparr>) nbytes;
        (ec_o, k) \<leftarrow> send_message so junk (ms_id s) T_DATA (Some opack) k;
        if ec_o \<noteq> OK then Some (flushed, ec_o, s, k)
        else do {
          wb \<leftarrow> rb_skip (ms_wb s) nbytes;
          wawo_assert (ms_wb_wnd s \<ge> nbytes);
          flush_data so junk (flushed + nbytes) ec_o (s\<lparr> ms_wb := wb, ms_wb_wnd := ms_wb_wnd s - nbytes \<rparr>) k } }
      else Some (flushed, ec_o, s, k))"

text \<open>\<open>_flush\<close>: \<open>ec_o\<close> and \<open>wflag\<close>.\<close>

definition stream_flush :: "'k mux_so \<Rightarrow> (nat \<Rightarrow> byte) \<Rightarrow> mux_stream \<Rightarrow> 'k \<Rightarrow> (int \<times> byte \<times> mux_stream \<times> 'k) option" where
  "stream_flush so junk s k =
     do { (ec_o, s, k) \<leftarrow> flush_wnd so junk s k;
          if ec_o \<noteq> OK then Some (ec_o, 0, s, k)
          else if ms_rb_incre s = 0 \<and> has_flag (ms_flag s) STREAM_WRITE_SHUTDOWN \<and> has_flag (ms_flag s) STREAM_READ_SHUTDOWN
          then Some (OK, 0, s\<lparr> ms_state := SS_CLOSED \<rparr>, k)
          else if has_flag (ms_flag s) STREAM_WRITE_SHUTDOWN then Some (OK, 0, s, k)
          else if rb_count (ms_wb s) = 0 then do {
            (ec_o, s, k) \<leftarrow> flush_fin so junk s k;
            Some (ec_o, 0, s, k) }
          else do {
            s \<leftarrow> determine_buffer so junk s k;
            (ec_o, s, k) \<leftarrow> flush_syn so junk s k;
            if ec_o \<noteq> OK then Some (ec_o, 0, s, k)
            else do {
              (flushed, ec_o, s, k) \<leftarrow> flush_data so junk 0 ec_o s k;
              if flushed > 0 \<and> has_flag (ms_write_flag s) STREAM_WRITE_BLOCKED
              then Some (ec_o, STREAM_WRITE_UNBLOCKED OR STREAM_WRITE_BLOCKED, s\<lparr> ms_write_flag := ms_write_flag s AND NOT STREAM_WRITE_BLOCKED \<rparr>, k)
              else Some (ec_o, 0, s, k) } } }"

text \<open>update(): \<open>wflag\<close> starts as 0 in every call.\<close>

definition stream_update :: "'k mux_so \<Rightarrow> (nat \<Rightarrow> byte) \<Rightarrow> mux_stream \<Rightarrow> 'k \<Rightarrow> (byte \<times> mux_stream \<times> 'k) option" where
  "stream_update so junk s k =
     (case ms_state s of
        SS_ESTABLISHED \<Rightarrow> do {
          (ec_o, wflag, s, k) \<leftarrow> stream_flush so junk s k;
          if ec_o = OK then Some (wflag, s, k)
          else if ec_o = E_SOCKET_SEND_BLOCK then Some (wflag OR STREAM_WRITE_BLOCKED, s, k)
          else do { (closert, k) \<leftarrow> mo_close so ec_o k; Some (wflag, force_close s, k) } }
      | SS_CLOSED \<Rightarrow>
          Some (0, if has_flag (ms_flag s) STREAM_READ_SHUTDOWN \<and> has_flag (ms_flag s) STREAM_WRITE_SHUTDOWN then s\<lparr> ms_state := SS_RECYCLE \<rparr> else s, k)
      | SS_RECYCLE \<Rightarrow> Some (0, s, k))"

end
