(* ===== verification/Packet_Typed.thy ===== *)
theory Packet_Typed
  imports Hlen_Packet
begin

text \<open>
  The typed writes and reads of packet.hpp as operations on the unread bytes, and packets filled in one go. The
  protocols that build messages from integers share these lemmas.
\<close>

lemma write_impl_byte [simp]: "write_impl (x :: byte) = [x]"
proof -
  have "x AND 0xff = x" by (rule bit_word_eqI) (simp add: bit_and_byte)
  then show ?thesis by (simp add: write_impl_def)
qed

lemma pk_write_T_ok:
  assumes "pk_inv p" "sizeof TYPE('a::len) \<le> pk_right_room p" "LENGTH('a) < 4096"
  shows "\<exists>p'. pk_write_T junk p (t :: 'a word) = Some p' \<and> pk_inv p' \<and> pk_bytes p' = pk_bytes p @ write_impl t \<and>
    pk_right_room p \<le> pk_right_room p' + sizeof TYPE('a) \<and> pk_left_room p \<le> pk_left_room p'"
  using pk_write_ok [OF assms(1), of "of_nat (sizeof TYPE('a))" "write_impl t" junk] assms(2,3)
  by (auto simp: pk_write_T_bytes unat_sizeof)

lemma pk_read_T_ok:
  assumes "pk_inv p" "pk_bytes p = write_impl (t :: 'a::len word) @ rest" "LENGTH('a) < 4096" "8 dvd LENGTH('a)"
  shows "\<exists>p'. pk_read_T p = Some (t, p') \<and> pk_inv p' \<and> pk_bytes p' = rest"
proof -
  have s: "0 < sizeof TYPE('a)" using assms(4) len_gt_0 [where 'a = 'a] by (auto simp: sizeof_def elim!: dvdE intro: gr0I)
  have n: "unat (of_nat (sizeof TYPE('a)) :: u32) = sizeof TYPE('a)" using assms(3) by (rule unat_sizeof)
  then have "0 < (of_nat (sizeof TYPE('a)) :: u32)" using s by (simp add: word_less_unat)
  moreover have "read_impl (write_impl t) = Some t" using read_write_impl [OF assms(4), of t "[]"] by simp
  ultimately show ?thesis
    using pk_read_ok [OF assms(1), of "of_nat (sizeof TYPE('a))"] assms(2) n by (auto simp: pk_read_T_bytes [OF assms(3) s])
qed

lemma pk_write_left_T_ok:
  assumes "pk_inv p" "sizeof TYPE('a::len) \<le> pk_left_room p" "LENGTH('a) < 4096"
  shows "\<exists>p'. pk_write_left_T junk p (t :: 'a word) = Some p' \<and> pk_inv p' \<and> pk_bytes p' = write_impl t @ pk_bytes p \<and>
    pk_left_room p \<le> pk_left_room p' + sizeof TYPE('a) \<and> pk_right_room p \<le> pk_right_room p'"
  using pk_write_left_ok [OF assms(1), of "of_nat (sizeof TYPE('a))" "write_impl t" junk] assms(2,3)
  by (auto simp: pk_write_left_T_bytes unat_sizeof)

lemma packet_default_ok:
  "\<exists>p. packet_default junk = Some p \<and> pk_inv p \<and> pk_bytes p = [] \<and> 16769152 \<le> pk_right_room p \<and> 128 \<le> pk_left_room p"
proof -
  have c: "PACK_INIT_LEFT_CAPACITY < PACK_MAX_LEFT_CAPACITY" "PACK_INIT_RIGHT_CAPACITY \<le> PACK_MAX_RIGHT_CAPACITY" by (simp_all add: PACK_defs)
  obtain p where p: "packet_new junk PACK_INIT_RIGHT_CAPACITY PACK_INIT_LEFT_CAPACITY = Some p" "pk_inv p" "pk_bytes p = []"
    "pk_m_left_capacity p = max PACK_INIT_LEFT_CAPACITY PACK_MIN_LEFT_CAPACITY" "pk_m_read_idx p = pk_m_left_capacity p"
    "pk_m_write_idx p = pk_m_left_capacity p" by (rule packet_new_ok [OF c])
  then show ?thesis using pk_inv_bounds [OF p(2)] p(6)
    by (auto simp: packet_default_def pk_left_room_def pk_right_room_def PACK_defs)
qed
lemma word_of_unat: "unat (w :: u32) = n \<Longrightarrow> w = of_nat n"
  by (metis of_nat_unat ucast_id)

lemma packet_filled_room:
  assumes "n \<le> PACK_MAX_RIGHT_CAPACITY" "length d = unat k" "k \<le> n"
  shows "\<exists>p mem p'. packet_new junk n PACK_INIT_LEFT_CAPACITY = Some p \<and>
    mem_write (pk_m_buffer p) (unat (pk_m_read_idx p)) d = Some mem \<and>
    pk_forward_write_index (p\<lparr> pk_m_buffer := mem \<rparr>) k = Some p' \<and> pk_inv p' \<and> pk_bytes p' = d \<and> 128 \<le> pk_left_room p'"
proof -
  obtain p mem p' where p: "packet_new junk n PACK_INIT_LEFT_CAPACITY = Some p" "mem_write (pk_m_buffer p) (unat (pk_m_read_idx p)) d = Some mem"
    "pk_forward_write_index (p\<lparr> pk_m_buffer := mem \<rparr>) k = Some p'" "pk_inv p'" "pk_bytes p' = d"
    using packet_filled [OF assms] by blast
  have l: "PACK_INIT_LEFT_CAPACITY < PACK_MAX_LEFT_CAPACITY" by (simp add: PACK_defs)
  obtain q where "packet_new junk n PACK_INIT_LEFT_CAPACITY = Some q" "pk_m_left_capacity q = max PACK_INIT_LEFT_CAPACITY PACK_MIN_LEFT_CAPACITY"
    "pk_m_read_idx q = pk_m_left_capacity q" by (rule packet_new_ok [OF l assms(1)])
  moreover have "pk_m_read_idx p' = pk_m_read_idx p" using p(3) by (auto simp: pk_forward_write_index_def split: if_splits)
  ultimately have "128 \<le> pk_left_room p'" using p(1) by (simp add: pk_left_room_def PACK_defs)
  with p show ?thesis by blast
qed

end
