(* ===== verification/Ros.thy ===== *)
theory Ros
  imports Mux_Stream Packet_Typed
begin

text \<open>
  include/wawo/net/peer/message/ros.hpp and include/wawo/net/peer/ros.hpp: the peer for requests and responses. A message has an id and a type in
  front of its data; the peer keeps the requests it has sent until a response with their id arrives, their time is over or the
  socket is detached. The socket is the record of operations of \<open>Mux_Stream\<close>; callbacks and events are appended to a log. Each
  call is one step: request() puts the request into the pool, sends and takes it out again on failure under three locks, and what another thread does in between is
  not modelled.
\<close>

section \<open>Messages\<close>

definition E_PEER_NO_SOCKET_ATTACHED :: int where "E_PEER_NO_SOCKET_ATTACHED = -42001"
definition E_PEER_MESSAGE_REQUEST_TIMEOUT :: int where "E_PEER_MESSAGE_REQUEST_TIMEOUT = -42007"

definition T_NONE :: byte where "T_NONE = 0"
definition T_RESPONSE :: byte where "T_RESPONSE = 1"
definition T_REQUEST :: byte where "T_REQUEST = 2"
definition T_SEND :: byte where "T_SEND = 3"
definition T_KEEP_ALIVE :: byte where "T_KEEP_ALIVE = 4"
definition T_MAX :: byte where "T_MAX = 5"

lemmas ros_types = T_NONE_def T_RESPONSE_def T_REQUEST_def T_SEND_def T_KEEP_ALIVE_def T_MAX_def

type_synonym net_id_t = u32

record ros_message =
  rm_net_id :: net_id_t
  rm_type :: byte
  rm_data :: "packet option"

text \<open>The counter of ids, and the two constructors.\<close>

definition make_ros_net_id :: "u32 \<Rightarrow> net_id_t \<times> u32" where
  "make_ros_net_id s_ai_ros_nid = (s_ai_ros_nid, s_ai_ros_nid + 1)"

definition ros_message_new :: "packet option \<Rightarrow> u32 \<Rightarrow> ros_message \<times> u32" where
  "ros_message_new data nid = (let (i, nid) = make_ros_net_id nid in (\<lparr> rm_net_id = i, rm_type = T_NONE, rm_data = data \<rparr>, nid))"

definition ros_message_of :: "net_id_t \<Rightarrow> byte \<Rightarrow> packet \<Rightarrow> ros_message option" where
  "ros_message_of i t pack = do { wawo_assert (t \<noteq> T_NONE); Some \<lparr> rm_net_id = i, rm_type = t, rm_data = Some pack \<rparr> }"

definition ros_encode :: "(nat \<Rightarrow> byte) \<Rightarrow> ros_message \<Rightarrow> (int \<times> packet) option" where
  "ros_encode junk m =
     do { wawo_assert (rm_type m \<noteq> T_NONE);
          wawo_assert (rm_type m < T_MAX);
          data \<leftarrow> rm_data m;
          len \<leftarrow> pk_len data;
          wawo_assert (len > 0);
          ooo \<leftarrow> packet_new junk len PACK_INIT_LEFT_CAPACITY;
          ooo \<leftarrow> pk_write_left_T junk ooo (rm_type m);
          ooo \<leftarrow> pk_write_left_T junk ooo (rm_net_id m);
          d \<leftarrow> pk_content data;
          ooo \<leftarrow> pk_write junk ooo d len;
          l \<leftarrow> pk_len ooo;
          ooo \<leftarrow> pk_write_left_T junk ooo l;
          Some (OK, ooo) }"

section \<open>The peer\<close>

record requested_message =
  rq_ref :: nat
  rq_message :: ros_message
  rq_cb :: nat
  rq_ts_request :: u64
  rq_timeout :: u32

datatype ros_event =
    Ros_respond nat net_id_t "packet option"
  | Ros_error nat net_id_t int
  | Ros_message ros_message
  | Ros_socket_event byte

record ros =
  rs_requested :: "requested_message list"
  rs_so :: bool
  rs_log :: "ros_event list"

definition ros_new :: ros where
  "ros_new = \<lparr> rs_requested = [], rs_so = False, rs_log = [] \<rparr>"

definition ros_note :: "ros_event list \<Rightarrow> ros \<Rightarrow> ros" where
  "ros_note es s = s\<lparr> rs_log := rs_log s @ es \<rparr>"

definition ros_attach_socket :: "ros \<Rightarrow> ros option" where
  "ros_attach_socket s = do { wawo_assert (\<not> rs_so s); Some (s\<lparr> rs_so := True \<rparr>) }"

definition request_error :: "int \<Rightarrow> requested_message \<Rightarrow> ros_event" where
  "request_error ec req = Ros_error (rq_cb req) (rm_net_id (rq_message req)) ec"

definition cancel_all_request :: "int \<Rightarrow> ros \<Rightarrow> ros" where
  "cancel_all_request ec s = (ros_note (map (request_error ec) (rs_requested s)) s)\<lparr> rs_requested := [] \<rparr>"

definition request_over :: "u64 \<Rightarrow> requested_message \<Rightarrow> bool" where
  "request_over now req \<longleftrightarrow> now \<ge> rq_ts_request req + ucast (rq_timeout req)"

definition check_requested_message :: "u64 \<Rightarrow> ros \<Rightarrow> ros" where
  "check_requested_message now s =
     (ros_note (map (request_error E_PEER_MESSAGE_REQUEST_TIMEOUT) (filter (request_over now) (rs_requested s))) s)
       \<lparr> rs_requested := filter (\<lambda>req. \<not> request_over now req) (rs_requested s) \<rparr>"

definition ros_detach_socket :: "ros \<Rightarrow> ros" where
  "ros_detach_socket s = cancel_all_request E_PEER_NO_SOCKET_ATTACHED (s\<lparr> rs_so := False \<rparr>)"

definition ros_tick :: "u64 \<Rightarrow> ros \<Rightarrow> ros" where
  "ros_tick now s = check_requested_message (now div 1000) s"

definition do_send_message :: "'k mux_so \<Rightarrow> (nat \<Rightarrow> byte) \<Rightarrow> ros_message \<Rightarrow> ros \<Rightarrow> 'k \<Rightarrow> (int \<times> 'k) option" where
  "do_send_message so junk m s k =
     (if \<not> rs_so s then Some (E_PEER_NO_SOCKET_ATTACHED, k)
      else do {
        (encode_ec, packet_mo) \<leftarrow> ros_encode junk m;
        if encode_ec \<noteq> OK then Some (encode_ec, k) else mo_send so packet_mo k })"

text \<open>The calls set the type of the message they are given: it is part of the result.\<close>

definition ros_send :: "'k mux_so \<Rightarrow> (nat \<Rightarrow> byte) \<Rightarrow> ros_message \<Rightarrow> ros \<Rightarrow> 'k \<Rightarrow> (int \<times> ros_message \<times> 'k) option" where
  "ros_send so junk m s k =
     do { wawo_assert (rm_type m = T_NONE);
          let m = m\<lparr> rm_type := T_SEND \<rparr>;
          (rt, k) \<leftarrow> do_send_message so junk m s k;
          Some (rt, m, k) }"

fun erase_first :: "('a \<Rightarrow> bool) \<Rightarrow> 'a list \<Rightarrow> ('a \<times> 'a list) option" where
  "erase_first P [] = None"
| "erase_first P (x # xs) = (if P x then Some (x, xs) else do { (y, ys) \<leftarrow> erase_first P xs; Some (y, x # ys) })"

definition ros_request ::
    "'k mux_so \<Rightarrow> (nat \<Rightarrow> byte) \<Rightarrow> u64 \<Rightarrow> nat \<Rightarrow> ros_message \<Rightarrow> nat \<Rightarrow> u32 \<Rightarrow> ros \<Rightarrow> 'k \<Rightarrow> (int \<times> ros_message \<times> ros \<times> 'k) option" where
  "ros_request so junk now ref m cb timeout s k =
     do { wawo_assert (rm_type m = T_NONE);
          let m = m\<lparr> rm_type := T_REQUEST \<rparr>;
          let requested = \<lparr> rq_ref = ref, rq_message = m, rq_cb = cb, rq_ts_request = now, rq_timeout = timeout \<rparr>;
          let s = s\<lparr> rs_requested := rs_requested s @ [requested] \<rparr>;
          (msndrt, k) \<leftarrow> do_send_message so junk m s k;
          if msndrt = OK then Some (msndrt, m, s, k)
          else do {
            (_, rest) \<leftarrow> erase_first (\<lambda>req. rq_ref req = ref) (rs_requested s);
            Some (msndrt, m, s\<lparr> rs_requested := rest \<rparr>, k) } }"

definition ros_respond :: "'k mux_so \<Rightarrow> (nat \<Rightarrow> byte) \<Rightarrow> ros_message \<Rightarrow> ros_message \<Rightarrow> ros \<Rightarrow> 'k \<Rightarrow> (int \<times> ros_message \<times> 'k) option" where
  "ros_respond so junk response incoming s k =
     do { wawo_assert (rm_type response = T_NONE);
          wawo_assert (rm_type incoming = T_REQUEST);
          let response = response\<lparr> rm_type := T_RESPONSE, rm_net_id := rm_net_id incoming \<rparr>;
          (rt, k) \<leftarrow> do_send_message so junk response s k;
          Some (rt, response, k) }"

section \<open>Arriving messages\<close>

text \<open>
  \<open>_decode_message_from_packet\<close> finds at most one message. When the length is not that of the rest of the packet, the assertion
  on a string literal passes and the loop takes the next four bytes for a length.
\<close>

partial_function (option) decode_message_from_packet :: "packet \<Rightarrow> (ros_message list \<times> packet) option" where
  "decode_message_from_packet inpack =
     do { (mlength, inpack) \<leftarrow> pk_read_T inpack;
          len \<leftarrow> pk_len inpack;
          wawo_assert (len \<ge> (mlength :: u32));
          if mlength = len then do {
            (net_id, inpack) \<leftarrow> pk_read_T inpack;
            (t, inpack) \<leftarrow> pk_read_T inpack;
            m \<leftarrow> ros_message_of net_id t inpack;
            Some ([m], inpack) }
          else if len \<noteq> 0 then decode_message_from_packet inpack
          else Some ([], inpack) }"

text \<open>The handlers of a message return (\<open>Inr\<close>) or throw (\<open>Inl\<close>); a request that has been found is out of the pool in both cases.\<close>

definition handle_resp_message :: "ros_message \<Rightarrow> ros \<Rightarrow> ros + ros" where
  "handle_resp_message resp s =
     (if rm_type resp \<noteq> T_RESPONSE then Inl s
      else case erase_first (\<lambda>req. rm_net_id (rq_message req) = rm_net_id resp) (rs_requested s) of
        None \<Rightarrow> Inr s
      | Some (rm, rest) \<Rightarrow>
          let s = s\<lparr> rs_requested := rest \<rparr> in
          if rm_net_id (rq_message rm) \<noteq> rm_net_id resp \<or> rm_type (rq_message rm) \<noteq> T_REQUEST then Inl s
          else Inr (ros_note [Ros_respond (rq_cb rm) (rm_net_id (rq_message rm)) (rm_data resp)] s))"

definition handle_incoming_message :: "ros_message \<Rightarrow> ros \<Rightarrow> ros + ros" where
  "handle_incoming_message m s =
     (if rm_type m = T_SEND \<or> rm_type m = T_REQUEST then Inr (ros_note [Ros_message m] s)
      else if rm_type m = T_RESPONSE then handle_resp_message m s
      else Inl s)"

definition handle_arrives :: "packet \<Rightarrow> ros \<Rightarrow> ros + ros" where
  "handle_arrives inpack s =
     (case decode_message_from_packet inpack of
        None \<Rightarrow> Inl s
      | Some (arrives, inpack) \<Rightarrow> (case arrives of [] \<Rightarrow> Inr s | m # _ \<Rightarrow> handle_incoming_message m s))"

text \<open>An exception while a packet is handled closes the socket; \<open>ecode\<close> is the code of the exception.\<close>

definition ros_on_event :: "'k mux_so \<Rightarrow> int \<Rightarrow> byte \<Rightarrow> packet option \<Rightarrow> ros \<Rightarrow> 'k \<Rightarrow> (ros \<times> 'k) option" where
  "ros_on_event so ecode evt data s k =
     do { wawo_assert (rs_so s);
          if evt = 0 then do {
            k \<leftarrow> mo_begin_read so k;
            inpack \<leftarrow> data;
            case handle_arrives inpack s of
              Inr s \<Rightarrow> Some (s, k)
            | Inl s \<Rightarrow> do { (rt, k) \<leftarrow> mo_close so ecode k; Some (s, k) } }
          else if evt = E_RD_SHUTDOWN \<or> evt = E_WR_SHUTDOWN \<or> evt = E_WR_BLOCK \<or> evt = E_WR_UNBLOCK \<or> evt = E_CLOSE \<or> evt = E_ERROR
          then Some (ros_note [Ros_socket_event evt] s, k)
          else None }"

section \<open>Blocking receive\<close>

text \<open>\<open>recv\<close> is \<open>receive_packets\<close> of the socket for one packet.\<close>

partial_function (option) receive_one :: "('k \<Rightarrow> (packet list \<times> int \<times> 'k) option) \<Rightarrow> 'k \<Rightarrow> (packet list \<times> int \<times> 'k) option" where
  "receive_one recv k =
     do { (arrives, ec, k) \<leftarrow> recv k;
          if (ec = OK \<or> ec = E_SOCKET_RECV_BLOCK) \<and> arrives = [] then receive_one recv k else Some (arrives, ec, k) }"

text \<open>When the socket reports an error its code is returned as the number of messages.\<close>

definition do_receive_messages ::
    "('k \<Rightarrow> (packet list \<times> int \<times> 'k) option) \<Rightarrow> u32 \<Rightarrow> int \<Rightarrow> ros \<Rightarrow> 'k \<Rightarrow> (u32 \<times> ros_message list \<times> int \<times> ros \<times> 'k) option" where
  "do_receive_messages recv asize ec s k =
     (if \<not> rs_so s then Some (0, [], E_PEER_NO_SOCKET_ATTACHED, s, k)
      else do {
        (arrives, ec, k) \<leftarrow> receive_one recv k;
        if ec \<noteq> OK then Some (word_of_int ec, [], ec, s, k)
        else do {
          wawo_assert (length arrives = 1);
          len \<leftarrow> pk_len (hd arrives);
          wawo_assert (len > 0);
          (ms, inpack) \<leftarrow> decode_message_from_packet (hd arrives);
          wawo_assert (of_nat (length ms) \<le> asize);
          case ms of
            [] \<Rightarrow> Some (0, [], ec, s, k)
          | m # _ \<Rightarrow>
              if rm_type m = T_RESPONSE then (case handle_resp_message m s of Inl s \<Rightarrow> None | Inr s \<Rightarrow> Some (0, [], ec, s, k))
              else Some (1, [m], ec, s, k) } })"

end
