(* ===== verification/Mux_Cargo.thy ===== *)
theory Mux_Cargo
  imports Mux_Stream
begin

text \<open>
  include/wawo/net/peer/mux_cargo.hpp: the peer that carries many streams over one socket. It finds the stream of an arriving
  packet, answers for unknown ones with T_RST, and updates all streams in a tick. The streams live in the map; the events
  for the listeners are appended to a log (\<open>Mux_schedule\<close> for those given to the scheduler). The registration of the
  peer as a listener of the socket is left out, but for its assertion.
\<close>

datatype mux_state = SOCKET_ATTACHED | SOCKET_DEATTACHED | SOCKET_CLOSED

datatype mux_event =
    Mux_schedule u16 stream_id_t "nat option"
  | Mux_trigger u16 stream_id_t "nat option"
  | Mux_socket_event byte

record mux_cargo =
  mx_stream_map :: "(stream_id_t, mux_stream) smap"
  mx_mux_state :: mux_state
  mx_outps :: "packet list"
  mx_so :: bool
  mx_log :: "mux_event list"

definition mux_new :: mux_cargo where
  "mux_new = \<lparr> mx_stream_map = [], mx_mux_state = SOCKET_DEATTACHED, mx_outps = [], mx_so = False, mx_log = [] \<rparr>"

definition attach_socket :: "mux_cargo \<Rightarrow> mux_cargo option" where
  "attach_socket m = do { wawo_assert (\<not> mx_so m); Some (m\<lparr> mx_so := True, mx_mux_state := SOCKET_ATTACHED \<rparr>) }"

definition detach_socket :: "mux_cargo \<Rightarrow> mux_cargo" where
  "detach_socket m = m\<lparr> mx_so := False, mx_mux_state := SOCKET_DEATTACHED \<rparr>"

definition mux_note :: "mux_event \<Rightarrow> mux_cargo \<Rightarrow> mux_cargo" where
  "mux_note e m = m\<lparr> mx_log := mx_log m @ [e] \<rparr>"

text \<open>The object an entry of the map leads to has changed.\<close>

definition mux_put :: "stream_id_t \<Rightarrow> mux_stream \<Rightarrow> mux_cargo \<Rightarrow> mux_cargo" where
  "mux_put i s m = m\<lparr> mx_stream_map := map (\<lambda>(j, t). if j = i then (j, s) else (j, t)) (mx_stream_map m) \<rparr>"

section \<open>Opening and closing streams\<close>

definition mux_stream_open ::
    "(nat \<Rightarrow> byte) \<Rightarrow> stream_id_t \<Rightarrow> nat option \<Rightarrow> mux_cargo \<Rightarrow> (mux_stream option \<times> int \<times> mux_cargo) option" where
  "mux_stream_open junk i ctx m =
     (if mx_mux_state m \<noteq> SOCKET_ATTACHED then Some (None, E_INVALID_STATE, m)
      else if map_of (mx_stream_map m) i \<noteq> None then Some (None, E_MUX_STREAM_CARGO_STREAM_EXISTS, m)
      else do {
        s \<leftarrow> stream_init junk;
        (openrt, s) \<leftarrow> stream_open i ctx s;
        if openrt \<noteq> OK then Some (None, openrt, m)
        else Some (Some s, OK, m\<lparr> mx_stream_map := smap_insert i s (mx_stream_map m) \<rparr>) })"

definition mux_stream_close :: "stream_id_t \<Rightarrow> mux_cargo \<Rightarrow> (int \<times> mux_cargo) option" where
  "mux_stream_close i m =
     (case map_of (mx_stream_map m) i of
        None \<Rightarrow> Some (E_MUX_STREAM_CARGO_STREAM_NOT_FOUND, m)
      | Some s \<Rightarrow> do { (rt, s) \<leftarrow> stream_close s; Some (rt, mux_put i s m) })"

definition stream_snd_rst :: "'k mux_so \<Rightarrow> (nat \<Rightarrow> byte) \<Rightarrow> stream_id_t \<Rightarrow> mux_cargo \<Rightarrow> 'k \<Rightarrow> (mux_cargo \<times> 'k) option" where
  "stream_snd_rst so junk i m k =
     do { wawo_assert (mx_mux_state m = SOCKET_ATTACHED);
          wawo_assert (mx_so m);
          outp \<leftarrow> packet_default junk;
          outp \<leftarrow> pk_write_left_T junk outp T_RST;
          outp \<leftarrow> pk_write_left_T junk outp i;
          (sndrt, k) \<leftarrow> mo_send so outp k;
          Some (if sndrt = E_SOCKET_SEND_BLOCK then m\<lparr> mx_outps := mx_outps m @ [outp] \<rparr> else m, k) }"

section \<open>The tick\<close>

text \<open>Packets that could not be sent before; the flag says that all are gone. Without a socket the call is on a null pointer.\<close>

primrec send_outps :: "'k mux_so \<Rightarrow> bool \<Rightarrow> packet list \<Rightarrow> 'k \<Rightarrow> (packet list \<times> 'k) option" where
  "send_outps so attached [] k = Some ([], k)"
| "send_outps so attached (outp # ps) k =
     do { wawo_assert attached;
          (sndrt, k) \<leftarrow> mo_send so outp k;
          if sndrt = E_SOCKET_SEND_BLOCK then Some (outp # ps, k) else send_outps so attached ps k }"

definition tick_events :: "byte \<Rightarrow> mux_stream \<Rightarrow> mux_event list" where
  "tick_events wflag s =
     (if ms_state s = SS_RECYCLE then [Mux_schedule T_CLOSED (ms_id s) (ms_ctx s)]
      else (if has_flag wflag STREAM_WRITE_BLOCKED then [Mux_schedule T_WRITE_BLOCK (ms_id s) (ms_ctx s)] else []) @
           (if has_flag wflag STREAM_WRITE_UNBLOCKED then [Mux_schedule T_WRITE_UNBLOCK (ms_id s) (ms_ctx s)] else []))"

primrec tick_streams ::
    "'k mux_so \<Rightarrow> (nat \<Rightarrow> byte) \<Rightarrow> bool \<Rightarrow> (stream_id_t, mux_stream) smap \<Rightarrow> 'k \<Rightarrow> ((stream_id_t, mux_stream) smap \<times> mux_event list \<times> 'k) option" where
  "tick_streams so junk disconnected [] k = Some ([], [], k)"
| "tick_streams so junk disconnected (e # es) k =
     do { let s = (if disconnected then force_close (snd e) else snd e);
          (wflag, s, k) \<leftarrow> stream_update so junk s k;
          (m, log, k) \<leftarrow> tick_streams so junk disconnected es k;
          Some (if ms_state s = SS_RECYCLE then m else (fst e, s) # m, tick_events wflag s @ log, k) }"

definition do_tick :: "'k mux_so \<Rightarrow> (nat \<Rightarrow> byte) \<Rightarrow> mux_cargo \<Rightarrow> 'k \<Rightarrow> (mux_cargo \<times> 'k) option" where
  "do_tick so junk m k =
     do { (outps, k) \<leftarrow> send_outps so (mx_so m) (mx_outps m) k;
          let m = m\<lparr> mx_outps := outps \<rparr>;
          if outps \<noteq> [] then Some (m, k)
          else do {
            (sm, log, k) \<leftarrow> tick_streams so junk (\<not> mx_so m \<or> \<not> mo_connected so k) (mx_stream_map m) k;
            Some (m\<lparr> mx_stream_map := sm, mx_log := mx_log m @ log \<rparr>, k) } }"

section \<open>Closing the peer\<close>

primrec close_streams :: "(stream_id_t, mux_stream) smap \<Rightarrow> (stream_id_t, mux_stream) smap option" where
  "close_streams [] = Some []"
| "close_streams (e # es) = do { (rt, s) \<leftarrow> stream_close (snd e); es \<leftarrow> close_streams es; Some ((fst e, s) # es) }"

text \<open>The loop that ticks until no stream is left.\<close>

partial_function (option) drain_streams :: "'k mux_so \<Rightarrow> (nat \<Rightarrow> byte) \<Rightarrow> mux_cargo \<Rightarrow> 'k \<Rightarrow> (mux_cargo \<times> 'k) option" where
  "drain_streams so junk m k =
     (if mx_stream_map m = [] then Some (m, k)
      else do { (m, k) \<leftarrow> do_tick so junk m k; drain_streams so junk m k })"

definition shut_streams :: "'k mux_so \<Rightarrow> (nat \<Rightarrow> byte) \<Rightarrow> mux_cargo \<Rightarrow> 'k \<Rightarrow> (mux_cargo \<times> 'k) option" where
  "shut_streams so junk m k =
     do { sm \<leftarrow> close_streams (mx_stream_map m);
          drain_streams so junk (m\<lparr> mx_mux_state := SOCKET_CLOSED, mx_stream_map := sm \<rparr>) k }"

definition mux_close :: "'k mux_so \<Rightarrow> (nat \<Rightarrow> byte) \<Rightarrow> int \<Rightarrow> mux_cargo \<Rightarrow> 'k \<Rightarrow> (int \<times> mux_cargo \<times> 'k) option" where
  "mux_close so junk code m k =
     do { (m, k) \<leftarrow> shut_streams so junk m k;
          if mx_so m then do { (rt, k) \<leftarrow> mo_close so code k; Some (rt, m, k) }
          else Some (OK, m, k) }"

section \<open>Events of the socket\<close>

definition arrive_syn :: "'k mux_so \<Rightarrow> (nat \<Rightarrow> byte) \<Rightarrow> stream_id_t \<Rightarrow> packet \<Rightarrow> mux_cargo \<Rightarrow> 'k \<Rightarrow> (mux_cargo \<times> 'k) option" where
  "arrive_syn so junk i inpack m k =
     do { len \<leftarrow> pk_len inpack;
          wawo_assert (len = 0);
          if map_of (mx_stream_map m) i \<noteq> None then stream_snd_rst so junk i m k
          else do {
            s \<leftarrow> stream_init junk;
            let s = s\<lparr> ms_state := SS_ESTABLISHED, ms_id := i \<rparr>;
            Some (mux_note (Mux_trigger T_ACCEPTED i (ms_ctx s)) (m\<lparr> mx_stream_map := smap_insert i s (mx_stream_map m) \<rparr>), k) } }"

definition arrive_data ::
    "'k mux_so \<Rightarrow> (nat \<Rightarrow> byte) \<Rightarrow> stream_id_t \<Rightarrow> packet \<Rightarrow> mux_stream \<Rightarrow> mux_cargo \<Rightarrow> 'k \<Rightarrow> (mux_cargo \<times> 'k) option" where
  "arrive_data so junk i inpack s m k =
     (if has_flag (ms_flag s) STREAM_READ_SHUTDOWN then stream_snd_rst so junk i m k
      else do {
        len \<leftarrow> pk_len inpack;
        wawo_assert (len \<le> rb_left_capacity (ms_rb s));
        d \<leftarrow> pk_content inpack;
        (n, rb) \<leftarrow> rb_write (ms_rb s) d len;
        Some (mux_note (Mux_trigger T_DATA i (ms_ctx s)) (mux_put i (s\<lparr> ms_rb := rb \<rparr>) m), k) })"

definition arrive_uwnd :: "stream_id_t \<Rightarrow> packet \<Rightarrow> mux_stream \<Rightarrow> mux_cargo \<Rightarrow> mux_cargo option" where
  "arrive_uwnd i inpack s m =
     do { len \<leftarrow> pk_len inpack;
          wawo_assert (len = 4);
          (wnd_incre, inpack) \<leftarrow> pk_read_T inpack;
          Some (mux_put i (s\<lparr> ms_wb_wnd := WAWO_MIN MUX_STREAM_WND_SIZE (ms_wb_wnd s + wnd_incre) \<rparr>) m) }"

text \<open>E_PACKET_ARRIVE.\<close>

definition packet_arrive :: "'k mux_so \<Rightarrow> (nat \<Rightarrow> byte) \<Rightarrow> packet \<Rightarrow> mux_cargo \<Rightarrow> 'k \<Rightarrow> (mux_cargo \<times> 'k) option" where
  "packet_arrive so junk inpack m k =
     do { k \<leftarrow> mo_begin_read so k;
          if mx_mux_state m \<noteq> SOCKET_ATTACHED then Some (m, k)
          else do {
            len \<leftarrow> pk_len inpack;
            wawo_assert (len \<ge> 6);
            (i, inpack) \<leftarrow> pk_read_T inpack;
            wawo_assert (i \<noteq> 0);
            (t, inpack) \<leftarrow> pk_read_T inpack;
            if t \<ge> T_MUX_STREAM_MESSAGE_TYPE_MAX then Some (m, k)
            else if t = T_SYN then arrive_syn so junk i inpack m k
            else case map_of (mx_stream_map m) i of
              None \<Rightarrow> if t = T_RST then Some (m, k) else stream_snd_rst so junk i m k
            | Some s \<Rightarrow>
                if t = T_DATA then arrive_data so junk i inpack s m k
                else if t = T_FIN then do {
                  wawo_assert (ms_ctx s \<noteq> None);
                  Some (mux_note (Mux_trigger T_FIN i (ms_ctx s)) m, k) }
                else if t = T_RST then Some (mux_put i (force_close s) m, k)
                else if t = T_UWND then do { m \<leftarrow> arrive_uwnd i inpack s m; Some (m, k) }
                else Some (m, k) } }"

text \<open>The other events: E_CLOSE closes all streams first; an event that is not known throws.\<close>

definition mux_on_event :: "'k mux_so \<Rightarrow> (nat \<Rightarrow> byte) \<Rightarrow> byte \<Rightarrow> packet option \<Rightarrow> mux_cargo \<Rightarrow> 'k \<Rightarrow> (mux_cargo \<times> 'k) option" where
  "mux_on_event so junk evt data m k =
     (if evt = 0 then do { inpack \<leftarrow> data; packet_arrive so junk inpack m k }
      else if evt = E_CLOSE then do {
        wawo_assert (mx_so m);
        (m, k) \<leftarrow> shut_streams so junk m k;
        Some (mux_note (Mux_socket_event E_CLOSE) m, k) }
      else if evt = E_RD_SHUTDOWN \<or> evt = E_WR_SHUTDOWN \<or> evt = E_WR_BLOCK \<or> evt = E_WR_UNBLOCK \<or> evt = E_ERROR
      then Some (mux_note (Mux_socket_event evt) m, k)
      else None)"

end
