(* ===== verification/Mux_Flow.thy ===== *)
theory Mux_Flow
  imports Mux_Cargo Packet_Typed
begin

text \<open>
  What a stream of the multiplexing peer sends. The socket is an interface: a channel that takes a packet whole or
  reports E_SOCKET_SEND_BLOCK. A flush moves the bytes of the write buffer into T_DATA frames in order, never beyond the
  window, and the counted read bytes into T_UWND frames.
\<close>

section \<open>Frames\<close>

definition mux_frame :: "stream_id_t \<Rightarrow> u16 \<Rightarrow> bytes \<Rightarrow> bytes" where
  "mux_frame i t d = write_impl i @ write_impl t @ d"

definition frame_id :: "bytes \<Rightarrow> stream_id_t" where "frame_id m = the (read_impl (take 4 m))"
definition frame_type :: "bytes \<Rightarrow> u16" where "frame_type m = the (read_impl (take 2 (drop 4 m)))"
definition frame_body :: "bytes \<Rightarrow> bytes" where "frame_body m = drop 6 m"

lemma length_write_impl_sizes [simp]: "length (write_impl (x :: u32)) = 4" "length (write_impl (y :: u16)) = 2"
  by (simp_all add: sizeof_simps)

lemma frame_parts [simp]:
  "frame_id (mux_frame i t d) = i" "frame_type (mux_frame i t d) = t" "frame_body (mux_frame i t d) = d" "length (mux_frame i t d) = 6 + length d"
  by (simp_all add: frame_id_def frame_type_def frame_body_def mux_frame_def)

lemma mux_frame_inject [simp]: "mux_frame i t d = mux_frame j u e \<longleftrightarrow> i = j \<and> t = u \<and> d = e"
  by (metis frame_parts(1-3))

lemma mux_frame_nonempty [simp]: "mux_frame i t d \<noteq> []"
  by (metis add_is_0 frame_parts(4) list.size(3) zero_neq_numeral)

text \<open>The frames of a connection on which nobody closes a stream.\<close>

definition wnd_of :: "bytes \<Rightarrow> nat" where "wnd_of d = unat (the (read_impl d) :: u32)"

definition frame_ok :: "bytes \<Rightarrow> bool" where
  "frame_ok m \<longleftrightarrow> (\<exists>i t d. m = mux_frame i t d \<and> i \<noteq> 0 \<and> length d \<le> 262144 \<and>
     (t = T_SYN \<and> d = [] \<or> t = T_DATA \<and> d \<noteq> [] \<or> t = T_UWND \<and> (\<exists>w :: u32. d = write_impl w)))"

definition frames_of :: "stream_id_t \<Rightarrow> bytes list \<Rightarrow> bytes list" where
  "frames_of i ms = filter (\<lambda>m. frame_id m = i) ms"

definition frames_data :: "bytes list \<Rightarrow> bytes" where
  "frames_data ms = concat (map frame_body (filter (\<lambda>m. frame_type m = T_DATA) ms))"

definition frames_wnd :: "bytes list \<Rightarrow> nat" where
  "frames_wnd ms = sum_list (map (wnd_of \<circ> frame_body) (filter (\<lambda>m. frame_type m = T_UWND) ms))"

definition no_syn :: "bytes list \<Rightarrow> bool" where
  "no_syn ms \<longleftrightarrow> list_all (\<lambda>m. frame_type m \<noteq> T_SYN) ms"

lemma wnd_of_write [simp]: "wnd_of (write_impl (w :: u32)) = unat w"
  by (simp add: wnd_of_def)

lemma type_values [simp]: "T_DATA \<noteq> T_SYN" "T_SYN \<noteq> T_DATA" "T_UWND \<noteq> T_SYN" "T_SYN \<noteq> T_UWND" "T_DATA \<noteq> T_UWND" "T_UWND \<noteq> T_DATA"
  by (simp_all add: mux_types)

lemma frames_simps [simp]:
  "frames_of i [] = []" "frames_of i (ms @ ms') = frames_of i ms @ frames_of i ms'"
  "frames_of i (m # ms) = (if frame_id m = i then m # frames_of i ms else frames_of i ms)"
  "frames_data [] = []" "frames_data (ms @ ms') = frames_data ms @ frames_data ms'"
  "frames_data (m # ms) = (if frame_type m = T_DATA then frame_body m else []) @ frames_data ms"
  "frames_wnd [] = 0" "frames_wnd (ms @ ms') = frames_wnd ms + frames_wnd ms'"
  "frames_wnd (m # ms) = (if frame_type m = T_UWND then wnd_of (frame_body m) else 0) + frames_wnd ms"
  "no_syn []" "no_syn (ms @ ms') \<longleftrightarrow> no_syn ms \<and> no_syn ms'" "no_syn (m # ms) \<longleftrightarrow> frame_type m \<noteq> T_SYN \<and> no_syn ms"
  by (simp_all add: frames_of_def frames_data_def frames_wnd_def no_syn_def)

lemma frame_okI:
  assumes "i \<noteq> 0"
  shows "frame_ok (mux_frame i T_SYN [])" "frame_ok (mux_frame i T_UWND (write_impl (w :: u32)))"
    "d \<noteq> [] \<Longrightarrow> length d \<le> 262144 \<Longrightarrow> frame_ok (mux_frame i T_DATA d)"
proof -
  have "frame_ok (mux_frame i t d)" if "length d \<le> 262144"
    "t = T_SYN \<and> d = [] \<or> t = T_DATA \<and> d \<noteq> [] \<or> t = T_UWND \<and> (\<exists>w :: u32. d = write_impl w)" for t d
    using that assms unfolding frame_ok_def by blast
  note i = this
  show "frame_ok (mux_frame i T_SYN [])" by (rule i) simp_all
  show "frame_ok (mux_frame i T_UWND (write_impl (w :: u32)))" by (rule i) auto
  show "d \<noteq> [] \<Longrightarrow> length d \<le> 262144 \<Longrightarrow> frame_ok (mux_frame i T_DATA d)" by (rule i) simp_all
qed

lemma frame_ok_cases:
  assumes "frame_ok m"
  obtains (syn) i where "m = mux_frame i T_SYN []" "i \<noteq> 0"
  | (data) i d where "m = mux_frame i T_DATA d" "i \<noteq> 0" "d \<noteq> []" "length d \<le> 262144"
  | (uwnd) i w where "m = mux_frame i T_UWND (write_impl (w :: u32))" "i \<noteq> 0"
  using assms by (auto simp: frame_ok_def)

lemma frames_of_same: "\<forall>m \<in> set ms. frame_id m = i \<Longrightarrow> frames_of i ms = ms"
  by (simp add: frames_of_def filter_id_conv)

lemma frames_of_other: "\<forall>m \<in> set ms. frame_id m \<noteq> i \<Longrightarrow> frames_of i ms = []"
  by (simp add: frames_of_def)

section \<open>Streams that nobody has closed\<close>

text \<open>The buffer for writing is the one of init() until the first flush, then one of \<open>lim\<close> bytes.\<close>

definition stream_ok :: "nat \<Rightarrow> stream_id_t \<Rightarrow> mux_stream \<Rightarrow> bool" where
  "stream_ok lim i s \<longleftrightarrow> ms_id s = i \<and> i \<noteq> 0 \<and> ms_state s = SS_ESTABLISHED \<and> ms_flag s \<in> {0, 32, 64, 96} \<and>
     rb_inv (ms_rb s) \<and> rb_capacity (ms_rb s) = MUX_STREAM_WND_SIZE \<and> rb_inv (ms_wb s) \<and> length (rb_list (ms_wb s)) \<le> lim \<and>
     unat (rb_capacity (ms_wb s)) = (if has_flag (ms_flag s) STREAM_BUFFER_DETERMINED then lim else 262144) \<and> unat (ms_wb_wnd s) \<le> 262144"

abbreviation plan_syn :: "mux_stream \<Rightarrow> bool" where "plan_syn s \<equiv> has_flag (ms_flag s) STREAM_PLAN_SYN"

lemma stream_ok_flags:
  assumes "stream_ok lim i s"
  shows "\<not> has_flag (ms_flag s) STREAM_READ_SHUTDOWN" "\<not> has_flag (ms_flag s) STREAM_WRITE_SHUTDOWN" "\<not> has_flag (ms_flag s) STREAM_PLAN_FIN"
    "\<not> has_flag (ms_flag s) (STREAM_WRITE_SHUTDOWN_CALLED OR STREAM_WRITE_SHUTDOWN)"
  using assms by (auto simp: stream_ok_def has_flag_def stream_flags)

lemma stream_ok_determined:
  assumes "stream_ok lim i s" "rb_inv b" "unat (rb_capacity b) = lim" "length (rb_list b) \<le> lim"
  shows "stream_ok lim i (s\<lparr> ms_flag := ms_flag s OR STREAM_BUFFER_DETERMINED, ms_wb := b \<rparr>)"
    "has_flag (ms_flag s OR STREAM_BUFFER_DETERMINED) STREAM_PLAN_SYN = plan_syn s"
  using assms by (auto simp: stream_ok_def has_flag_def stream_flags)

lemma stream_ok_syn_sent:
  assumes "stream_ok lim i s" shows "stream_ok lim i (s\<lparr> ms_flag := ms_flag s AND NOT STREAM_PLAN_SYN \<rparr>)"
    "\<not> has_flag (ms_flag s AND NOT STREAM_PLAN_SYN) STREAM_PLAN_SYN"
  using assms by (auto simp: stream_ok_def has_flag_def stream_flags)

lemma stream_ok_fields:
  "stream_ok lim i s \<Longrightarrow> stream_ok lim i (s\<lparr> ms_rb_incre := x \<rparr>)"
  "stream_ok lim i s \<Longrightarrow> rb_inv b \<Longrightarrow> rb_capacity b = MUX_STREAM_WND_SIZE \<Longrightarrow> stream_ok lim i (s\<lparr> ms_rb := b \<rparr>)"
  "stream_ok lim i s \<Longrightarrow> rb_inv b \<Longrightarrow> rb_capacity b = rb_capacity (ms_wb s) \<Longrightarrow> length (rb_list b) \<le> lim \<Longrightarrow> stream_ok lim i (s\<lparr> ms_wb := b \<rparr>)"
  "stream_ok lim i s \<Longrightarrow> stream_ok lim i (s\<lparr> ms_write_flag := f \<rparr>)"
  "stream_ok lim i s \<Longrightarrow> unat w \<le> 262144 \<Longrightarrow> stream_ok lim i (s\<lparr> ms_wb_wnd := w \<rparr>)"
  by (auto simp: stream_ok_def)

text \<open>The frames \<open>ms\<close> carry what the stream has given up between \<open>s\<close> and \<open>s'\<close>. SYN goes out before everything else.\<close>

definition stream_flushed :: "nat \<Rightarrow> stream_id_t \<Rightarrow> mux_stream \<Rightarrow> bytes list \<Rightarrow> mux_stream \<Rightarrow> bool" where
  "stream_flushed lim i s ms s' \<longleftrightarrow> stream_ok lim i s' \<and> list_all frame_ok ms \<and> (\<forall>m \<in> set ms. frame_id m = i) \<and> ms_rb s' = ms_rb s \<and> ms_ctx s' = ms_ctx s \<and>
     rb_list (ms_wb s) = frames_data ms @ rb_list (ms_wb s') \<and> unat (ms_wb_wnd s) = unat (ms_wb_wnd s') + length (frames_data ms) \<and>
     unat (ms_rb_incre s) = unat (ms_rb_incre s') + frames_wnd ms \<and>
     (\<not> plan_syn s \<longrightarrow> \<not> plan_syn s' \<and> no_syn ms) \<and>
     (plan_syn s \<and> ms_rb_incre s = 0 \<longrightarrow> (if plan_syn s' then ms = [] else \<exists>r. ms = mux_frame i T_SYN [] # r \<and> no_syn r))"

lemma stream_flushed_refl: "stream_ok lim i s \<Longrightarrow> stream_flushed lim i s [] s"
  by (simp add: stream_flushed_def)

lemma stream_flushed_trans:
  assumes "stream_flushed lim i s ms s'" "stream_flushed lim i s' ms' s''" shows "stream_flushed lim i s (ms @ ms') s''"
proof -
  have z: "ms_rb_incre s = 0 \<longrightarrow> ms_rb_incre s' = 0" using assms(1) by (auto simp: stream_flushed_def unat_eq_0)
  show ?thesis
  proof (cases "plan_syn s \<and> ms_rb_incre s = 0")
    case True
    then show ?thesis using assms z by (cases "plan_syn s'") (auto simp: stream_flushed_def)
  next
    case False
    then show ?thesis using assms by (auto simp: stream_flushed_def)
  qed
qed

section \<open>The buffer of the first flush\<close>

lemma move_bytes_ok:
  assumes "rb_inv wb" "rb_inv nb"
  shows "\<exists>wb' nb'. move_bytes wb nb = Some (wb', nb') \<and> rb_count wb' = 0 \<and> rb_inv nb' \<and> rb_capacity nb' = rb_capacity nb \<and>
    rb_list nb' = take (unat (rb_capacity nb)) (rb_list nb @ rb_list wb)"
  using assms
proof (induction "length (rb_list wb)" arbitrary: wb nb rule: less_induct)
  case less
  have cap: "length (rb_list nb) \<le> unat (rb_capacity nb)"
    using rb_list_less_capacity [OF less.prems(2)] unat_rb_capacity [OF less.prems(2)] by simp
  show ?case
  proof (cases "rb_count wb = 0")
    case True
    then have "rb_list wb = []" using rb_count_list [OF less.prems(1)] by simp
    then show ?thesis using True less.prems(2) cap by (subst move_bytes.simps) simp
  next
    case False
    obtain wb1 c where r: "rb_read wb 8192 True = Some (c, take (unat (8192 :: u32)) (rb_list wb), wb1)" "unat c = min (unat (8192 :: u32)) (length (rb_list wb))" "rb_inv wb1"
      "rb_list wb1 = (if True then drop (unat (8192 :: u32)) (rb_list wb) else rb_list wb)" by (rule rb_read_ok [OF less.prems(1)])
    have ne: "rb_list wb \<noteq> []" using False rb_count_list [OF less.prems(1)] by (auto simp: unat_eq_0)
    then have c: "c \<noteq> 0" "unat c \<le> length (take 8192 (rb_list wb))" using r(2) by (auto simp: min_def split: if_splits)
    obtain nb1 n where w: "rb_write nb (take 8192 (rb_list wb)) c = Some (n, nb1)" "rb_inv nb1" "unat n = min (unat c) (unat (rb_left_capacity nb))"
      "rb_list nb1 = rb_list nb @ take (unat n) (take 8192 (rb_list wb))" "rb_m_capacity nb1 = rb_m_capacity nb"
      by (rule rb_write_ok [OF less.prems(2) c])
    have step: "move_bytes wb nb = move_bytes wb1 nb1" using False r(1) w(1) by (subst move_bytes.simps) simp
    have cap1: "rb_capacity nb1 = rb_capacity nb" using w(5) by (simp add: rb_capacity_def)
    have less1: "length (rb_list wb1) < length (rb_list wb)" using r(4) ne by (cases "rb_list wb") auto
    obtain wb2 nb2 where g: "move_bytes wb1 nb1 = Some (wb2, nb2)" "rb_count wb2 = 0" "rb_inv nb2" "rb_capacity nb2 = rb_capacity nb1"
      "rb_list nb2 = take (unat (rb_capacity nb1)) (rb_list nb1 @ rb_list wb1)"
      using less.hyps [OF less1 r(3) w(2)] by blast
    have "take (unat (rb_capacity nb)) (rb_list nb1 @ rb_list wb1) = take (unat (rb_capacity nb)) (rb_list nb @ rb_list wb)"
    proof (cases "unat n = unat c")
      case True
      then have "rb_list nb1 @ rb_list wb1 = rb_list nb @ rb_list wb" using w(4) r(2,4) by (simp add: min_def)
      then show ?thesis by simp
    next
      case False
      then have n: "unat n = unat (rb_capacity nb) - length (rb_list nb)" "unat n \<le> 8192" "unat n \<le> length (rb_list wb)"
        using w(3) r(2) rb_left_capacity_list [OF less.prems(2)] by (auto simp: min_def split: if_splits)
      then have l: "rb_list nb1 = rb_list nb @ take (unat n) (rb_list wb)" using w(4) by (simp add: min_absorb1)
      then have "length (rb_list nb1) = unat (rb_capacity nb)" using n(1,3) cap by simp
      then show ?thesis using l n(1) by simp
    qed
    then show ?thesis using step g cap1 by auto
  qed
qed

text \<open>What the first flush does to a write buffer with the bytes of the user: only what fits the new buffer is kept.\<close>

lemma determine_buffer_first:
  assumes "\<not> has_flag (ms_flag s) STREAM_BUFFER_DETERMINED" "rb_inv (ms_wb s)"
    and sz: "sz = WAWO_MIN (mo_snd_size so k - 1024) (rb_capacity (ms_wb s))" "2048 \<le> unat sz"
  obtains nb where "determine_buffer so junk s k = Some (s\<lparr> ms_flag := ms_flag s OR STREAM_BUFFER_DETERMINED, ms_wb := nb \<rparr>)"
    "rb_inv nb" "rb_capacity nb = sz" "rb_list nb = take (unat sz) (rb_list (ms_wb s))"
proof (cases "sz = rb_capacity (ms_wb s)")
  case True
  have "length (rb_list (ms_wb s)) \<le> unat sz"
    using rb_list_less_capacity [OF assms(2)] unat_rb_capacity [OF assms(2)] True by simp
  moreover have "WAWO_MIN (mo_snd_size so k - 1024) (rb_capacity (ms_wb s)) = rb_capacity (ms_wb s)" by (rule trans [OF sz(1) [symmetric] True])
  then have "determine_buffer so junk s k = Some (s\<lparr> ms_flag := ms_flag s OR STREAM_BUFFER_DETERMINED, ms_wb := ms_wb s \<rparr>)"
    using assms(1) by (simp add: determine_buffer_def)
  ultimately show ?thesis using that [of "ms_wb s"] True assms(2) by (metis take_all)
next
  case False
  have "sz \<le> rb_capacity (ms_wb s)" using sz(1) by (auto simp: WAWO_MIN_def)
  moreover have "unat (rb_capacity (ms_wb s)) \<le> 33554432" using rb_inv_bounds [OF assms(2)] unat_rb_capacity [OF assms(2)] by simp
  ultimately have c: "MIN_RING_BUFFER_SIZE \<le> sz" "sz \<le> MAX_RING_BUFFER_SIZE"
    using sz(2) by (simp_all add: word_le_unat MIN_RING_BUFFER_SIZE_def MAX_RING_BUFFER_SIZE_def)
  obtain nb where nb: "bytes_ringbuffer_new junk sz = Some nb" "rb_inv nb" "rb_list nb = []" "rb_capacity nb = sz"
    by (rule bytes_ringbuffer_new_ok [OF c])
  obtain wb' nb' where m: "move_bytes (ms_wb s) nb = Some (wb', nb')" "rb_count wb' = 0" "rb_inv nb'" "rb_capacity nb' = sz"
    "rb_list nb' = take (unat sz) (rb_list (ms_wb s))" using move_bytes_ok [OF assms(2) nb(2)] nb(3,4) by auto
  then have "determine_buffer so junk s k = Some (s\<lparr> ms_flag := ms_flag s OR STREAM_BUFFER_DETERMINED, ms_wb := nb' \<rparr>)"
    using False assms(1) nb(1) sz(1) unfolding determine_buffer_def by (simp only: Let_def) simp
  then show ?thesis using that m by blast
qed

section \<open>The channel below\<close>

text \<open>
  \<open>hist k\<close> is the list of the packets the channel has taken, \<open>lim\<close> the size of the write buffer that the first flush makes for it.
\<close>

locale packet_channel =
  fixes so :: "'k mux_so" and chan :: "'k \<Rightarrow> bool" and hist :: "'k \<Rightarrow> bytes list" and lim :: nat
  assumes send_law: "chan k \<Longrightarrow> pk_inv p \<Longrightarrow> pk_bytes p \<noteq> [] \<Longrightarrow> 4 \<le> pk_left_room p \<Longrightarrow> length (pk_bytes p) \<le> lim + 6 \<Longrightarrow>
      \<exists>rt k'. mo_send so p k = Some (rt, k') \<and> chan k' \<and> (rt = OK \<and> hist k' = hist k @ [pk_bytes p] \<or> rt = E_SOCKET_SEND_BLOCK \<and> hist k' = hist k)"
    and size_law: "chan k \<Longrightarrow> 2048 \<le> lim \<and> lim + 1024 \<le> unat (mo_snd_size so k) \<and> lim = min 262144 (unat (mo_snd_size so k) - 1024)"
    and read_law: "chan k \<Longrightarrow> \<exists>k'. mo_begin_read so k = Some k' \<and> chan k' \<and> hist k' = hist k"
    and connected_law: "chan k \<Longrightarrow> mo_connected so k"
begin

lemma send_message_ok:
  assumes "chan k" "case data of None \<Rightarrow> d = [] | Some p \<Rightarrow> pk_inv p \<and> 128 \<le> pk_left_room p \<and> d = pk_bytes p" "length d \<le> lim"
  obtains rt k' where "send_message so junk i t data k = Some (rt, k')" "chan k'"
    "rt = OK \<and> hist k' = hist k @ [mux_frame i t d] \<or> rt = E_SOCKET_SEND_BLOCK \<and> hist k' = hist k"
proof -
  obtain p where p: "(case data of Some d \<Rightarrow> packet_copy d | None \<Rightarrow> packet_default junk) = Some p" "pk_inv p" "pk_bytes p = d" "128 \<le> pk_left_room p"
    using assms(2) packet_default_ok [of junk] by (cases data) (auto simp: packet_copy_ok)
  obtain q where q: "pk_write_left_T junk p t = Some q" "pk_inv q" "pk_bytes q = write_impl t @ d" "126 \<le> pk_left_room q"
    using pk_write_left_T_ok [OF p(2), where t = t and junk = junk] p(3,4) by (auto simp: sizeof_simps)
  obtain r where r: "pk_write_left_T junk q i = Some r" "pk_inv r" "pk_bytes r = mux_frame i t d" "122 \<le> pk_left_room r"
    using pk_write_left_T_ok [OF q(2), where t = i and junk = junk] q(3,4) by (auto simp: sizeof_simps mux_frame_def)
  have "mux_encode junk i t data = Some (OK, r)" unfolding mux_encode_def by (simp add: p(1) q(1) r(1))
  then have "send_message so junk i t data k = mo_send so r k" by (simp add: send_message_def)
  with send_law [OF assms(1) r(2)] r(3,4) assms(3) that show ?thesis by auto
qed

lemma codes: "E_SOCKET_SEND_BLOCK \<noteq> OK" by (simp add: error_codes)

lemma flush_wnd_ok:
  assumes "stream_ok lim i s" "chan k"
  shows "\<exists>rt s' k' ms. flush_wnd so junk s k = Some (rt, s', k') \<and> chan k' \<and> hist k' = hist k @ ms \<and> stream_flushed lim i s ms s' \<and>
    (rt = OK \<and> ms_rb_incre s' = 0 \<or> rt = E_SOCKET_SEND_BLOCK)"
proof (cases "ms_rb_incre s > 0")
  case True
  obtain p where p: "packet_default junk = Some p" "pk_inv p" "pk_bytes p = []" "16769152 \<le> pk_right_room p" "128 \<le> pk_left_room p"
    using packet_default_ok [of junk] by blast
  obtain q where q: "pk_write_T junk p (ms_rb_incre s) = Some q" "pk_inv q" "pk_bytes q = write_impl (ms_rb_incre s)" "128 \<le> pk_left_room q"
    using pk_write_T_ok [OF p(2), where t = "ms_rb_incre s" and junk = junk] p(3-5) by (auto simp: sizeof_simps)
  let ?d = "write_impl (ms_rb_incre s)"
  obtain rt k' where r: "send_message so junk (ms_id s) T_UWND (Some q) k = Some (rt, k')" "chan k'"
    "rt = OK \<and> hist k' = hist k @ [mux_frame (ms_id s) T_UWND ?d] \<or> rt = E_SOCKET_SEND_BLOCK \<and> hist k' = hist k"
    by (rule send_message_ok [OF assms(2), where data = "Some q" and d = ?d]) (use q size_law [OF assms(2)] in auto)
  have i: "ms_id s = i" "i \<noteq> 0" using assms(1) by (simp_all add: stream_ok_def)
  have f: "frame_ok (mux_frame i T_UWND ?d)" by (rule frame_okI [OF i(2)])
  have e: "flush_wnd so junk s k = Some (rt, if rt \<noteq> OK then s else s\<lparr> ms_rb_incre := 0 \<rparr>, k')"
    using True p(1) q(1) r(1) by (simp add: flush_wnd_def)
  show ?thesis
  proof (cases "rt = OK")
    case ok: True
    have "stream_flushed lim i s [mux_frame i T_UWND ?d] (s\<lparr> ms_rb_incre := 0 \<rparr>)"
      using f i assms(1) True by (auto simp: stream_flushed_def intro: stream_ok_fields)
    then show ?thesis using e r i ok codes by auto
  next
    case False
    then show ?thesis using e r stream_flushed_refl [OF assms(1)] by auto
  qed
next
  case False
  then show ?thesis using assms stream_flushed_refl [OF assms(1)] by (auto simp: flush_wnd_def word_gt_0)
qed

lemma flush_syn_ok:
  assumes "stream_ok lim i s" "chan k"
  shows "\<exists>rt s' k' ms. flush_syn so junk s k = Some (rt, s', k') \<and> chan k' \<and> hist k' = hist k @ ms \<and> stream_flushed lim i s ms s' \<and> (rt = OK \<or> rt = E_SOCKET_SEND_BLOCK) \<and>
    (rt = OK \<longrightarrow> \<not> plan_syn s')"
proof (cases "plan_syn s")
  case True
  obtain rt k' where r: "send_message so junk (ms_id s) T_SYN None k = Some (rt, k')" "chan k'"
    "rt = OK \<and> hist k' = hist k @ [mux_frame (ms_id s) T_SYN []] \<or> rt = E_SOCKET_SEND_BLOCK \<and> hist k' = hist k"
    by (rule send_message_ok [OF assms(2), where data = None and d = "[]"]) simp_all
  have i: "ms_id s = i" "i \<noteq> 0" using assms(1) by (simp_all add: stream_ok_def)
  let ?s = "s\<lparr> ms_flag := ms_flag s AND NOT STREAM_PLAN_SYN \<rparr>"
  have e: "flush_syn so junk s k = Some (rt, if rt \<noteq> OK then s else ?s, k')"
    using True r(1) by (simp add: flush_syn_def)
  show ?thesis
  proof (cases "rt = OK")
    case ok: True
    have "frame_ok (mux_frame i T_SYN [])" by (rule frame_okI [OF i(2)])
    then have "stream_flushed lim i s [mux_frame i T_SYN []] ?s"
      using True stream_ok_syn_sent [OF assms(1)] by (simp add: stream_flushed_def)
    then show ?thesis using e r i ok codes stream_ok_syn_sent [OF assms(1)] by auto
  next
    case False
    then show ?thesis using e r stream_flushed_refl [OF assms(1)] by auto
  qed
next
  case False
  then show ?thesis using assms stream_flushed_refl [OF assms(1)] by (auto simp: flush_syn_def)
qed

lemma flush_data_step:
  assumes s: "stream_ok lim i s" "chan k" and n: "unat fl < 262144" "rb_list (ms_wb s) \<noteq> []" "ms_wb_wnd s > 0" "\<not> plan_syn s"
  obtains nb rt wb k' where "flush_data so junk fl ec s k =
      (if rt \<noteq> OK then Some (fl, rt, s, k')
       else flush_data so junk (fl + nb) rt (s\<lparr> ms_wb := wb, ms_wb_wnd := ms_wb_wnd s - nb \<rparr>) k')"
    "chan k'" "0 < unat nb" "unat fl + unat nb \<le> 262144"
    "rt = OK \<and> hist k' = hist k @ [mux_frame i T_DATA (take (unat nb) (rb_list (ms_wb s)))] \<or> rt = E_SOCKET_SEND_BLOCK \<and> hist k' = hist k"
    "stream_flushed lim i s [mux_frame i T_DATA (take (unat nb) (rb_list (ms_wb s)))] (s\<lparr> ms_wb := wb, ms_wb_wnd := ms_wb_wnd s - nb \<rparr>)"
    "length (rb_list wb) < length (rb_list (ms_wb s))"
proof -
  have inv: "rb_inv (ms_wb s)" and i: "ms_id s = i" "i \<noteq> 0" and ll: "length (rb_list (ms_wb s)) \<le> lim"
    using s(1) by (simp_all add: stream_ok_def)
  let ?c = "(if MUX_STREAM_WND_SIZE - fl > ms_wb_wnd s then ms_wb_wnd s else MUX_STREAM_WND_SIZE - fl)"
  have m: "unat (MUX_STREAM_WND_SIZE - fl) = 262144 - unat fl" using n(1) by (simp add: MUX_STREAM_WND_SIZE_def unat_sub_nowrap)
  have c: "0 < unat ?c" "unat ?c \<le> unat (ms_wb_wnd s)" "unat ?c \<le> 262144 - unat fl"
    using n(1,3) m by (auto simp: word_to_nat)
  obtain rb' nb where r: "rb_read (ms_wb s) ?c False = Some (nb, take (unat ?c) (rb_list (ms_wb s)), rb')"
    "unat nb = min (unat ?c) (length (rb_list (ms_wb s)))" by (rule rb_read_ok [OF inv])
  let ?d = "take (unat nb) (rb_list (ms_wb s))"
  have d: "take (unat ?c) (rb_list (ms_wb s)) = ?d" "length ?d = unat nb" using r(2) by (simp_all add: take_all_iff min_def)
  have nb: "0 < unat nb" "unat nb \<le> unat ?c" using r(2) c(1) n(2) by auto
  have pc: "?c \<le> PACK_MAX_RIGHT_CAPACITY" "nb \<le> ?c" "nb > 0"
    using c(3) nb by (simp_all only: word_to_nat PACK_defs) simp_all
  obtain p mem q where p: "packet_new junk ?c PACK_INIT_LEFT_CAPACITY = Some p" "mem_write (pk_m_buffer p) (unat (pk_m_read_idx p)) ?d = Some mem"
    "pk_forward_write_index (p\<lparr> pk_m_buffer := mem \<rparr>) nb = Some q" "pk_inv q" "pk_bytes q = ?d" "128 \<le> pk_left_room q"
    using packet_filled_room [OF pc(1) d(2) pc(2), of junk] by blast
  have le: "length ?d \<le> 262144" "?d \<noteq> []" "length ?d \<le> lim" using nb c(3) d(2) ll by auto
  obtain rt k' where k: "send_message so junk (ms_id s) T_DATA (Some q) k = Some (rt, k')" "chan k'"
    "rt = OK \<and> hist k' = hist k @ [mux_frame (ms_id s) T_DATA ?d] \<or> rt = E_SOCKET_SEND_BLOCK \<and> hist k' = hist k"
    by (rule send_message_ok [OF s(2), where data = "Some q" and d = ?d]) (use p le in simp_all)
  have nl: "unat nb \<le> length (rb_list (ms_wb s))" using r(2) by simp
  obtain wb where w: "rb_skip (ms_wb s) nb = Some wb" "rb_inv wb" "rb_list wb = drop (unat nb) (rb_list (ms_wb s))" "rb_m_capacity wb = rb_m_capacity (ms_wb s)"
    by (rule rb_skip_ok [OF inv nl])
  have wl: "nb \<le> ms_wb_wnd s" "unat (ms_wb_wnd s - nb) = unat (ms_wb_wnd s) - unat nb" "unat nb \<le> unat (ms_wb_wnd s)"
    using nb c(2) by (simp_all add: word_le_unat unat_sub_nowrap)
  have cw: "rb_capacity wb = rb_capacity (ms_wb s)" using w(4) by (simp add: rb_capacity_def)
  let ?s = "s\<lparr> ms_wb := wb, ms_wb_wnd := ms_wb_wnd s - nb \<rparr>"
  have cnt: "rb_count (ms_wb s) \<noteq> 0" using rb_count_list [OF inv] n(2) by auto
  have lt: "fl < MUX_STREAM_WND_SIZE" using n(1) by (simp add: MUX_STREAM_WND_SIZE_def word_less_unat)
  have "flush_data so junk fl ec s k = (if rt \<noteq> OK then Some (fl, rt, s, k') else flush_data so junk (fl + nb) rt ?s k')"
    by (subst flush_data.simps) (use cnt lt n(3) p(1-3) r(1) d(1) pc k(1) w(1) wl(1) in \<open>simp add: Let_def rb_peek_def\<close>)
  moreover have "stream_ok lim i ?s" using s(1) w(2,3) cw wl by (auto simp: stream_ok_def)
  then have "stream_flushed lim i s [mux_frame i T_DATA ?d] ?s"
    using frame_okI(3) [OF i(2) le(2,1)] wl w(3) d(2) n(4) by (auto simp: stream_flushed_def min_def)
  moreover have "length (rb_list wb) < length (rb_list (ms_wb s))" using w(3) nb n(2) by simp
  moreover have "unat fl + unat nb \<le> 262144" using nb(2) c(3) n(1) by linarith
  ultimately show ?thesis using that k(2,3) i(1) nb(1) by blast
qed

lemma flush_data_ok:
  assumes "stream_ok lim i s" "chan k" "unat fl \<le> 262144" "ec = OK" "\<not> plan_syn s"
  shows "\<exists>fl' rt s' k' ms. flush_data so junk fl ec s k = Some (fl', rt, s', k') \<and> chan k' \<and> hist k' = hist k @ ms \<and>
    stream_flushed lim i s ms s' \<and> (rt = OK \<or> rt = E_SOCKET_SEND_BLOCK)"
  using assms
proof (induction "length (rb_list (ms_wb s))" arbitrary: fl ec s k rule: less_induct)
  case less
  have inv: "rb_inv (ms_wb s)" using less.prems(1) by (simp add: stream_ok_def)
  show ?case
  proof (cases "unat fl < 262144 \<and> rb_list (ms_wb s) \<noteq> [] \<and> ms_wb_wnd s > 0")
    case False
    then have "\<not> (rb_count (ms_wb s) \<noteq> 0 \<and> fl < MUX_STREAM_WND_SIZE \<and> ms_wb_wnd s > 0)"
      using rb_count_list [OF inv] by (auto simp: MUX_STREAM_WND_SIZE_def word_less_unat unat_eq_0)
    then have "flush_data so junk fl ec s k = Some (fl, ec, s, k)" by (subst flush_data.simps) auto
    then show ?thesis using less.prems stream_flushed_refl [OF less.prems(1)] by auto
  next
    case True
    obtain nb rt wb k' where f: "flush_data so junk fl ec s k =
      (if rt \<noteq> OK then Some (fl, rt, s, k')
       else flush_data so junk (fl + nb) rt (s\<lparr> ms_wb := wb, ms_wb_wnd := ms_wb_wnd s - nb \<rparr>) k')"
      "chan k'" "0 < unat nb" "unat fl + unat nb \<le> 262144"
      "rt = OK \<and> hist k' = hist k @ [mux_frame i T_DATA (take (unat nb) (rb_list (ms_wb s)))] \<or> rt = E_SOCKET_SEND_BLOCK \<and> hist k' = hist k"
      "stream_flushed lim i s [mux_frame i T_DATA (take (unat nb) (rb_list (ms_wb s)))] (s\<lparr> ms_wb := wb, ms_wb_wnd := ms_wb_wnd s - nb \<rparr>)"
      "length (rb_list wb) < length (rb_list (ms_wb s))"
      by (rule flush_data_step [OF less.prems(1,2), of fl junk ec]) (use True less.prems(5) in simp_all)
    let ?s = "s\<lparr> ms_wb := wb, ms_wb_wnd := ms_wb_wnd s - nb \<rparr>" and ?m = "mux_frame i T_DATA (take (unat nb) (rb_list (ms_wb s)))"
    show ?thesis
    proof (cases "rt = OK")
      case False
      then show ?thesis using f(1,2,5) stream_flushed_refl [OF less.prems(1)] by auto
    next
      case ok: True
      have "stream_ok lim i ?s" using f(6) by (simp add: stream_flushed_def)
      moreover have "unat (fl + nb) \<le> 262144" using f(4) by (simp add: unat_add_nowrap)
      ultimately obtain fl' rt' s' k2 ms where g: "flush_data so junk (fl + nb) rt ?s k' = Some (fl', rt', s', k2)" "chan k2" "hist k2 = hist k' @ ms"
        "stream_flushed lim i ?s ms s'" "rt' = OK \<or> rt' = E_SOCKET_SEND_BLOCK"
        using less.hyps [of ?s k' "fl + nb" rt] f(2,7) ok less.prems(5) by auto
      then show ?thesis using f(1,5) ok codes stream_flushed_trans [OF f(6) g(4)] by auto
    qed
  qed
qed

lemma determine_buffer_ok:
  assumes "stream_ok lim i s" "chan k"
  shows "\<exists>s'. determine_buffer so junk s k = Some s' \<and> stream_flushed lim i s [] s' \<and> ms_rb_incre s' = ms_rb_incre s"
proof (cases "has_flag (ms_flag s) STREAM_BUFFER_DETERMINED")
  case True
  then show ?thesis using stream_flushed_refl [OF assms(1)] by (simp add: determine_buffer_def)
next
  case False
  have c: "rb_inv (ms_wb s)" "unat (rb_capacity (ms_wb s)) = 262144" "length (rb_list (ms_wb s)) \<le> lim" using assms(1) False by (auto simp: stream_ok_def)
  let ?sz = "WAWO_MIN (mo_snd_size so k - 1024) (rb_capacity (ms_wb s))"
  note l = size_law [OF assms(2)]
  have "unat (mo_snd_size so k - 1024) = unat (mo_snd_size so k) - 1024" using l by (simp add: unat_sub_nowrap)
  then have sz: "unat ?sz = lim" using l c(2) by (auto simp: WAWO_MIN_def word_to_nat min_def)
  have "2048 \<le> unat ?sz" unfolding sz using l by blast
  then obtain nb where n: "determine_buffer so junk s k = Some (s\<lparr> ms_flag := ms_flag s OR STREAM_BUFFER_DETERMINED, ms_wb := nb \<rparr>)"
    "rb_inv nb" "rb_capacity nb = ?sz" "rb_list nb = take (unat ?sz) (rb_list (ms_wb s))"
    by (rule determine_buffer_first [OF False c(1) refl])
  have "rb_list nb = rb_list (ms_wb s)" using n(4) sz c(3) by simp
  then show ?thesis
    using n(1-3) sz c(3) stream_ok_determined [OF assms(1) n(2)] by (simp add: stream_flushed_def)
qed

lemma stream_flush_ok:
  assumes s: "stream_ok lim i s" "chan k"
  shows "\<exists>rt wf s' k' ms. stream_flush so junk s k = Some (rt, wf, s', k') \<and> chan k' \<and> hist k' = hist k @ ms \<and>
    stream_flushed lim i s ms s' \<and> (rt = OK \<or> rt = E_SOCKET_SEND_BLOCK)"
proof -
  obtain rt s1 k1 m1 where f1: "flush_wnd so junk s k = Some (rt, s1, k1)" "chan k1" "hist k1 = hist k @ m1" "stream_flushed lim i s m1 s1"
    "rt = OK \<and> ms_rb_incre s1 = 0 \<or> rt = E_SOCKET_SEND_BLOCK"
    using flush_wnd_ok [OF s, of junk] by blast
  have ok1: "stream_ok lim i s1" using f1(4) by (simp add: stream_flushed_def)
  note fl = stream_ok_flags [OF ok1]
  show ?thesis
  proof (cases "rt = OK \<and> rb_count (ms_wb s1) \<noteq> 0")
    case False
    then consider "rt \<noteq> OK" | "rt = OK" "rb_count (ms_wb s1) = 0" by blast
    then have "stream_flush so junk s k = Some (rt, 0, s1, k1)"
      by cases (use f1(1) fl in \<open>simp_all add: stream_flush_def flush_fin_def\<close>)
    then show ?thesis using f1 by blast
  next
    case True
    obtain s2 where f2: "determine_buffer so junk s1 k1 = Some s2" "stream_flushed lim i s1 [] s2" "ms_rb_incre s2 = ms_rb_incre s1"
      using determine_buffer_ok [OF ok1 f1(2), of junk] by blast
    have ok2: "stream_ok lim i s2" using f2(2) by (simp add: stream_flushed_def)
    obtain rt3 s3 k3 m3 where f3: "flush_syn so junk s2 k1 = Some (rt3, s3, k3)" "chan k3" "hist k3 = hist k1 @ m3" "stream_flushed lim i s2 m3 s3"
      "rt3 = OK \<or> rt3 = E_SOCKET_SEND_BLOCK" "rt3 = OK \<longrightarrow> \<not> plan_syn s3"
      using flush_syn_ok [OF ok2 f1(2), of junk] by blast
    have t: "stream_flushed lim i s (m1 @ m3) s3" using stream_flushed_trans [OF f1(4) stream_flushed_trans [OF f2(2) f3(4)]] by simp
    have start: "stream_flush so junk s k =
        (if rt3 \<noteq> OK then Some (rt3, 0, s3, k3)
         else do {
           (flushed, ec_o, s, k) \<leftarrow> flush_data so junk 0 rt3 s3 k3;
           if flushed > 0 \<and> has_flag (ms_write_flag s) STREAM_WRITE_BLOCKED
           then Some (ec_o, STREAM_WRITE_UNBLOCKED OR STREAM_WRITE_BLOCKED, s\<lparr> ms_write_flag := ms_write_flag s AND NOT STREAM_WRITE_BLOCKED \<rparr>, k)
           else Some (ec_o, 0, s, k) })"
      using f1(1) True fl f2(1) f3(1) by (simp add: stream_flush_def)
    show ?thesis
    proof (cases "rt3 = OK")
      case False
      then show ?thesis using start f1(3) f3 t by auto
    next
      case ok: True
      have ok3: "stream_ok lim i s3" using t by (simp add: stream_flushed_def)
      obtain fl4 rt4 s4 k4 m4 where f4: "flush_data so junk 0 rt3 s3 k3 = Some (fl4, rt4, s4, k4)" "chan k4" "hist k4 = hist k3 @ m4" "stream_flushed lim i s3 m4 s4"
        "rt4 = OK \<or> rt4 = E_SOCKET_SEND_BLOCK"
        using flush_data_ok [OF ok3 f3(2), of 0 rt3 junk] ok f3(6) by auto
      have t4: "stream_flushed lim i s (m1 @ m3 @ m4) s4" using stream_flushed_trans [OF t f4(4)] by simp
      then have "stream_flushed lim i s (m1 @ m3 @ m4) (s4\<lparr> ms_write_flag := w \<rparr>)" for w by (auto simp: stream_flushed_def stream_ok_fields)
      then show ?thesis using start ok f4 t4 f1(3) f3(3) by simp
    qed
  qed
qed

lemma stream_update_ok:
  assumes s: "stream_ok lim i s" "chan k"
  shows "\<exists>wf s' k' ms. stream_update so junk s k = Some (wf, s', k') \<and> chan k' \<and> hist k' = hist k @ ms \<and> stream_flushed lim i s ms s'"
proof -
  obtain rt wf s' k' ms where f: "stream_flush so junk s k = Some (rt, wf, s', k')" "chan k'" "hist k' = hist k @ ms" "stream_flushed lim i s ms s'"
    "rt = OK \<or> rt = E_SOCKET_SEND_BLOCK" using stream_flush_ok [OF s, of junk] by blast
  moreover have "ms_state s = SS_ESTABLISHED" using s(1) by (simp add: stream_ok_def)
  ultimately show ?thesis by (auto simp: stream_update_def)
qed

end

end
