(* ===== verification/Socket_Send_Props.thy ===== *)
theory Socket_Send_Props
  imports Socket_Life
begin

text \<open>
  The output side of a socket: what the layer below has accepted followed by what waits in \<open>m_sb\<close> is
  exactly what the callers were told was sent. The layer below is the locale \<open>byte_transport\<close>, interpreted on the system
  calls.
\<close>

section \<open>The layer below\<close>

text \<open>
  \<open>ok\<close>: the layer keeps its contract. \<open>outb\<close>: the bytes it has accepted. \<open>pend\<close>: the bytes it can still deliver.
  \<open>smooth\<close>: it reports no error.
\<close>

locale byte_transport =
  fixes F :: "'k socket_fns" and ok :: "'k \<Rightarrow> bool" and smooth :: "'k \<Rightarrow> bool" and outb :: "'k \<Rightarrow> bytes" and pend :: "'k \<Rightarrow> bytes"
  assumes fn_send: "ok k \<Longrightarrow> d \<noteq> [] \<Longrightarrow> length d < 4294967296 \<Longrightarrow>
      \<exists>n ec k'. m_fn_send F fd d flag k = Some (n, ec, k') \<and> unat n \<le> length d \<and> outb k' = outb k @ take (unat n) d \<and> ok k' \<and> pend k' = pend k \<and>
        (smooth k \<longrightarrow> smooth k') \<and> (if unat n = length d then ec = OK else ec = E_SOCKET_SEND_BLOCK \<or> errno_code ec \<and> \<not> smooth k)"
    and fn_recv: "ok k \<Longrightarrow> n > 0 \<Longrightarrow>
      \<exists>d ec k'. m_fn_recv F fd n flag k = Some (d, ec, k') \<and> length d \<le> unat n \<and> d @ pend k' = pend k \<and> ok k' \<and> outb k' = outb k \<and>
        (smooth k \<longrightarrow> smooth k') \<and>
        (if d \<noteq> [] then ec = OK
         else ec = E_SOCKET_RECV_BLOCK \<and> (smooth k \<longrightarrow> pend k = []) \<or> (ec = E_SOCKET_GRACE_CLOSE \<or> errno_code ec) \<and> \<not> smooth k)"

interpretation tcp: byte_transport standard_fns kernel_ok kernel_smooth k_out k_pending
proof
  fix k :: kernel and d :: bytes and fd :: int and flag :: u32
  assume "kernel_ok k" "d \<noteq> []" "length d < 4294967296"
  then obtain n ec k' where "std_send d k = Some (n, ec, k')" "unat n \<le> length d" "k_out k' = k_out k @ take (unat n) d"
    "kernel_ok k'" "k_rcv k' = k_rcv k" "kernel_smooth k \<longrightarrow> kernel_smooth k'"
    "if unat n = length d then ec = OK else ec = E_SOCKET_SEND_BLOCK \<or> errno_code ec \<and> \<not> kernel_smooth k" by (rule std_send_ok)
  then show "\<exists>n ec k'. m_fn_send standard_fns fd d flag k = Some (n, ec, k') \<and> unat n \<le> length d \<and> k_out k' = k_out k @ take (unat n) d \<and>
      kernel_ok k' \<and> k_pending k' = k_pending k \<and> (kernel_smooth k \<longrightarrow> kernel_smooth k') \<and>
      (if unat n = length d then ec = OK else ec = E_SOCKET_SEND_BLOCK \<or> errno_code ec \<and> \<not> kernel_smooth k)"
    by (simp add: standard_fns_def k_pending_def)
next
  fix k :: kernel and n :: u32 and fd :: int and flag :: u32
  assume "kernel_ok k" "n > 0"
  then obtain d ec k' where "std_recv n k = Some (d, ec, k')" "length d \<le> unat n" "d @ k_pending k' = k_pending k" "kernel_ok k'"
    "k_out k' = k_out k" "kernel_smooth k \<longrightarrow> kernel_smooth k'"
    "if d \<noteq> [] then ec = OK
     else ec = E_SOCKET_RECV_BLOCK \<and> (kernel_smooth k \<longrightarrow> k_pending k = []) \<or> (ec = E_SOCKET_GRACE_CLOSE \<or> errno_code ec) \<and> \<not> kernel_smooth k"
    by (rule std_recv_ok)
  then show "\<exists>d ec k'. m_fn_recv standard_fns fd n flag k = Some (d, ec, k') \<and> length d \<le> unat n \<and> d @ k_pending k' = k_pending k \<and>
      kernel_ok k' \<and> k_out k' = k_out k \<and> (kernel_smooth k \<longrightarrow> kernel_smooth k') \<and>
      (if d \<noteq> [] then ec = OK
       else ec = E_SOCKET_RECV_BLOCK \<and> (kernel_smooth k \<longrightarrow> k_pending k = []) \<or> (ec = E_SOCKET_GRACE_CLOSE \<or> errno_code ec) \<and> \<not> kernel_smooth k)"
    by (simp add: standard_fns_def)
qed

section \<open>Flags\<close>

lemma disjoint_bits: "f AND g = (0 :: 'a::len word) \<Longrightarrow> \<not> (bit f n \<and> bit g n)"
  by (metis bit_and_iff bit_0_eq bot_fun_def bot_bool_def)

lemma has_flag_clear: "f AND g = 0 \<Longrightarrow> has_flag (w AND NOT g) f = has_flag w f"
proof -
  assume d: "f AND g = 0"
  have "(w AND NOT g) AND f = w AND f"
    by (rule bit_word_eqI) (use disjoint_bits [OF d] in \<open>auto simp: bit_and_iff bit_not_iff\<close>)
  then show ?thesis by (simp add: has_flag_def)
qed

lemma has_flag_clear_self: "f AND g = f \<Longrightarrow> \<not> has_flag (w AND NOT g) f"
proof -
  assume d: "f AND g = f"
  have "bit f n \<Longrightarrow> bit g n" for n using d by (metis bit_and_iff)
  then have "(w AND NOT g) AND f = 0"
    by (intro bit_word_eqI) (auto simp: bit_and_iff bit_not_iff)
  then show ?thesis by (simp add: has_flag_def)
qed

lemma has_flag_or: "f AND g = 0 \<Longrightarrow> has_flag (w OR g) f = has_flag w f"
proof -
  assume d: "f AND g = 0"
  have "(w OR g) AND f = w AND f"
    by (rule bit_word_eqI) (use disjoint_bits [OF d] in \<open>auto simp: bit_and_iff bit_or_iff\<close>)
  then show ?thesis by (simp add: has_flag_def)
qed

lemma has_flag_or_self: "f AND g \<noteq> 0 \<Longrightarrow> has_flag (w OR g) f"
proof -
  assume ne: "f AND g \<noteq> 0"
  have "f AND g = 0" if "(w OR g) AND f = 0"
    by (rule bit_word_eqI) (use disjoint_bits [OF that] in \<open>auto simp: bit_and_iff bit_or_iff\<close>)
  with ne show ?thesis by (auto simp: has_flag_def)
qed

section \<open>The buffers\<close>

lemma rb_write_all:
  assumes inv: "rb_inv rb" and n: "0 < n" "n \<le> length src" "length (rb_list rb) + n \<le> unat (rb_capacity rb)"
  obtains rb' where "rb_write rb src (of_nat n) = Some (of_nat n, rb')" "rb_inv rb'" "rb_list rb' = rb_list rb @ take n src"
    "rb_capacity rb' = rb_capacity rb"
proof -
  have "n < 4294967296" using n(3) unat_less_2p [of "rb_capacity rb"] by linarith
  then have u: "unat (of_nat n :: u32) = n" by (simp add: unat_of_nat_nowrap)
  then have nz: "(of_nat n :: u32) \<noteq> 0" using n(1) by (metis less_numeral_extra(3) unat_0)
  have le: "unat (of_nat n :: u32) \<le> length src" using u n(2) by simp
  obtain rb' c where w: "rb_write rb src (of_nat n) = Some (c, rb')" "rb_inv rb'"
    "unat c = min (unat (of_nat n :: u32)) (unat (rb_left_capacity rb))" "rb_list rb' = rb_list rb @ take (unat c) src"
    "rb_m_capacity rb' = rb_m_capacity rb" by (rule rb_write_ok [OF inv nz le])
  have c: "unat c = n" using w(3) u n(3) rb_left_capacity_list [OF inv] by simp
  then have "c = of_nat n" using u by (simp add: word_eq_unat)
  then show ?thesis using w c that [of rb'] by (simp add: rb_capacity_def)
qed

definition so_inv :: "'t socket \<Rightarrow> bool" where
  "so_inv s \<longleftrightarrow> rb_inv (sk_m_sb s) \<and> rb_inv (sk_m_rb s) \<and> rb_capacity (sk_m_sb s) = sk_snd_size s \<and> rb_capacity (sk_m_rb s) = sk_rcv_size s \<and>
     length (sk_m_tsb s) = unat (sk_snd_size s) \<and> length (sk_m_trb s) = unat (sk_rcv_size s) \<and> sbc_ok (sk_rcv_size s) (sk_snd_size s) \<and>
     (rb_list (sk_m_sb s) \<noteq> [] \<longrightarrow> sk_m_async_wt s \<noteq> 0)"

text \<open>A connected non-blocking socket that can still write.\<close>

definition so_live :: "'t socket \<Rightarrow> bool" where
  "so_live s \<longleftrightarrow> so_inv s \<and> is_nonblocking s \<and> is_data_socket s \<and> sk_m_fd s > 0 \<and>
     (sk_m_state s = S_CONNECTED \<or> sk_m_state s = S_CONNECTING) \<and> \<not> has_flag (sk_m_wflag s) SHUTDOWN_WR"

definition triggered :: "effect list \<Rightarrow> packet list" where
  "triggered es = concat (map (\<lambda>e. case e of Trigger_packet p \<Rightarrow> [p] | _ \<Rightarrow> []) es)"

lemma triggered_simps [simp]:
  "triggered [] = []" "triggered (es @ es') = triggered es @ triggered es'" "triggered (Trigger_packet p # es) = p # triggered es"
  "triggered (Watch b fl fd fn # es) = triggered es" "triggered (Unwatch b fl fd # es) = triggered es"
  "triggered (Schedule_error fn c # es) = triggered es" "triggered (Schedule_event ev c # es) = triggered es"
  by (simp_all add: triggered_def)

text \<open>The output side of the socket has changed, nothing else.\<close>

definition out_only :: "'t socket \<Rightarrow> 't socket \<Rightarrow> bool" where
  "out_only s s' \<longleftrightarrow>
     (\<exists>sb tsb wt wfl es. s' = s\<lparr> sk_m_wflag := wfl, sk_log := sk_log s @ es, sk_m_sb := sb, sk_m_tsb := tsb, sk_m_async_wt := wt \<rparr> \<and> triggered es = [])"

lemma out_onlyI:
  "s' = s\<lparr> sk_m_wflag := wfl, sk_log := sk_log s @ es, sk_m_sb := sb, sk_m_tsb := tsb, sk_m_async_wt := wt \<rparr> \<Longrightarrow> triggered es = [] \<Longrightarrow> out_only s s'"
  unfolding out_only_def by blast

lemma out_only_refl [simp]: "out_only s s"
  by (rule out_onlyI [where es = "[]" and wfl = "sk_m_wflag s" and sb = "sk_m_sb s" and tsb = "sk_m_tsb s" and wt = "sk_m_async_wt s"]) simp_all

lemma out_only_trans: "out_only s s' \<Longrightarrow> out_only s' s'' \<Longrightarrow> out_only s s''"
  unfolding out_only_def by force

lemma out_only_same:
  assumes "out_only s s'"
  shows "sk_m_rb s' = sk_m_rb s" "sk_m_trb s' = sk_m_trb s" "sk_m_rflag s' = sk_m_rflag s" "sk_m_tlp s' = sk_m_tlp s"
    "sk_m_rps_q s' = sk_m_rps_q s" "sk_m_rps_q_standby s' = sk_m_rps_q_standby s" "sk_snd_size s' = sk_snd_size s" "sk_rcv_size s' = sk_rcv_size s"
    "sk_m_fd s' = sk_m_fd s" "sk_m_state s' = sk_m_state s" "is_nonblocking s' = is_nonblocking s" "is_data_socket s' = is_data_socket s"
    "triggered (sk_log s') = triggered (sk_log s)"
  using assms by (auto simp: out_only_def sb_query_defs)

lemma so_live_step:
  "so_live s \<Longrightarrow> out_only s s' \<Longrightarrow> so_inv s' \<Longrightarrow> has_flag (sk_m_wflag s') SHUTDOWN_WR = has_flag (sk_m_wflag s) SHUTDOWN_WR \<Longrightarrow> so_live s'"
  by (simp add: so_live_def out_only_same)

lemma so_live_bounds:
  assumes "so_live s"
  shows "rb_inv (sk_m_sb s)" "rb_inv (sk_m_rb s)" "rb_capacity (sk_m_sb s) = sk_snd_size s" "rb_capacity (sk_m_rb s) = sk_rcv_size s"
    "unat (sk_snd_size s) \<le> 2097152" "4096 \<le> unat (sk_snd_size s)" "unat (sk_rcv_size s) \<le> 2097152" "4096 \<le> unat (sk_rcv_size s)"
    "length (sk_m_tsb s) = unat (sk_snd_size s)" "length (sk_m_trb s) = unat (sk_rcv_size s)"
  using assms by (auto simp: so_live_def so_inv_def sbc_ok_def SOCK_MAX_SIZE_def SOCK_MIN_SIZE_def word_le_unat)

section \<open>The watch of the descriptor\<close>

lemma write_flags:
  "has_flag (w AND NOT (WATCH_WRITE OR WATCH_OPTION_INFINITE)) SHUTDOWN_WR = has_flag w SHUTDOWN_WR"
  "has_flag (w OR (WATCH_WRITE OR 0)) SHUTDOWN_WR = has_flag w SHUTDOWN_WR"
  by (rule has_flag_clear, simp add: watch_defs) (rule has_flag_or, simp add: watch_defs)

lemma end_async_write_ok:
  assumes "sk_m_fd s > 0"
  obtains wfl es where "end_async_write s = Some (s\<lparr> sk_m_wflag := wfl, sk_log := sk_log s @ es \<rparr>)" "triggered es = []"
    "has_flag wfl SHUTDOWN_WR = has_flag (sk_m_wflag s) SHUTDOWN_WR"
proof (cases "has_flag (sk_m_wflag s) WATCH_WRITE \<and> is_nonblocking s")
  case True
  show ?thesis
    by (rule that [where wfl = "sk_m_wflag s AND NOT (WATCH_WRITE OR WATCH_OPTION_INFINITE)" and es = "[Unwatch (is_wcp s) IOE_WRITE (sk_m_fd s)]"])
      (use True assms write_flags(1) [of "sk_m_wflag s"] in \<open>simp_all add: end_async_write_def sb_unwatch_def sb_note_def is_wcp_def\<close>)
next
  case False
  then show ?thesis using that [where wfl = "sk_m_wflag s" and es = "[]"] by (auto simp: end_async_write_def)
qed

lemma begin_async_write_ok:
  assumes "sk_m_fd s > 0" "is_nonblocking s" "sk_m_state s = S_CONNECTED \<or> sk_m_state s = S_CONNECTING"
  obtains wfl es where "begin_async_write 0 fn s = Some (s\<lparr> sk_m_wflag := wfl, sk_log := sk_log s @ es \<rparr>)" "triggered es = []"
    "has_flag wfl SHUTDOWN_WR = has_flag (sk_m_wflag s) SHUTDOWN_WR"
proof -
  consider (shut) "has_flag (sk_m_wflag s) SHUTDOWN_WR" | (watched) "\<not> has_flag (sk_m_wflag s) SHUTDOWN_WR" "has_flag (sk_m_wflag s) WATCH_WRITE"
    | (fresh) "\<not> has_flag (sk_m_wflag s) SHUTDOWN_WR" "\<not> has_flag (sk_m_wflag s) WATCH_WRITE" by blast
  then show ?thesis
  proof cases
    case shut
    then show ?thesis using assms that [where wfl = "sk_m_wflag s" and es = "[Schedule_error fn E_INVALID_STATE]"]
      by (simp add: begin_async_write_def sb_note_def)
  next
    case watched
    then show ?thesis using assms that [where wfl = "sk_m_wflag s" and es = "[]"] by (simp add: begin_async_write_def)
  next
    case fresh
    have "\<not> has_flag (0 :: byte) WATCH_OPTION_INFINITE" by (simp add: has_flag_def)
    then show ?thesis
      using assms fresh that [where wfl = "sk_m_wflag s OR (WATCH_WRITE OR 0)" and es = "[Watch (is_wcp s) IOE_WRITE (sk_m_fd s) fn]"] write_flags(2) [of "sk_m_wflag s"]
      by (simp add: begin_async_write_def sb_watch_def sb_note_def is_wcp_def)
  qed
qed

section \<open>send()\<close>

context byte_transport
begin

text \<open>What an operation that hands \<open>d\<close> to the socket does: \<open>d\<close> joins the output stream, and only the output side changes.\<close>

definition puts :: "bytes \<Rightarrow> 't socket \<Rightarrow> 'k \<Rightarrow> 't socket \<Rightarrow> 'k \<Rightarrow> bool" where
  "puts d s k s' k' \<longleftrightarrow> so_live s' \<and> out_only s s' \<and> ok k' \<and> pend k' = pend k \<and> (smooth k \<longrightarrow> smooth k') \<and>
     outb k' @ rb_list (sk_m_sb s') = outb k @ rb_list (sk_m_sb s) @ d \<and> prefix (outb k) (outb k')"

lemma puts_out: "puts d s k s' k' \<Longrightarrow> \<exists>e. outb k' = outb k @ e"
  by (simp add: puts_def prefix_def)

lemma puts_refl: "so_live s \<Longrightarrow> ok k \<Longrightarrow> puts [] s k s k"
  by (simp add: puts_def)

lemma puts_trans: "puts d s k s' k' \<Longrightarrow> puts e s' k' s'' k'' \<Longrightarrow> puts (d @ e) s k s'' k''"
  unfolding puts_def by (auto intro: out_only_trans prefix_order.trans)

lemma send_buffered:
  assumes live: "so_live s" and "ok k" and d: "buffer \<noteq> []" "length buffer \<le> unat (sk_snd_size s)" and ne: "rb_list (sk_m_sb s) \<noteq> []"
  shows "\<exists>n ec s' k'. so_send F now buffer ec0 flag s k = Some (n, ec, s', k') \<and> puts (take (unat n) buffer) s k s' k' \<and>
    (n = 0 \<and> ec = E_SOCKET_SEND_BLOCK \<or> unat n = length buffer)"
proof -
  note b = so_live_bounds [OF live]
  have u: "unat (of_nat (length buffer) :: u32) = length buffer" using d(2) b(5) by (intro unat_of_nat_nowrap) simp
  have z: "(0 :: u32) < of_nat (length buffer)" using u d(1) by (simp add: word_less_unat)
  have c: "rb_count (sk_m_sb s) > 0" using ne by (simp add: word_less_unat rb_count_list b)
  have sz: "(of_nat (length buffer) :: u32) \<le> sk_snd_size s" using u d(2) by (simp add: word_le_unat)
  then have big: "(sk_snd_size s < of_nat (length buffer)) = False" by simp
  show ?thesis
  proof (cases "has_flag flag F_SEND_USE_SND_BUFFER \<and> rb_left_capacity (sk_m_sb s) > of_nat (length buffer)")
    case True
    then have room: "length (rb_list (sk_m_sb s)) + length buffer \<le> unat (rb_capacity (sk_m_sb s))"
      using u rb_left_capacity_list [OF b(1)] by (auto simp: word_less_unat)
    have pos: "0 < length buffer" using d(1) by simp
    obtain sb where w: "rb_write (sk_m_sb s) buffer (of_nat (length buffer)) = Some (of_nat (length buffer), sb)" "rb_inv sb"
      "rb_list sb = rb_list (sk_m_sb s) @ take (length buffer) buffer" "rb_capacity sb = rb_capacity (sk_m_sb s)"
      by (rule rb_write_all [OF b(1) pos order_refl room])
    let ?s = "s\<lparr> sk_m_sb := sb \<rparr>"
    have o': "out_only s ?s" by (rule out_onlyI [where es = "[]" and wfl = "sk_m_wflag s" and tsb = "sk_m_tsb s" and wt = "sk_m_async_wt s"]) simp_all
    have "so_inv ?s" using live w ne by (simp add: so_live_def so_inv_def)
    with live o' have "so_live ?s" by (rule so_live_step) simp
    then have "puts buffer s k ?s k" using o' w assms(2) by (simp add: puts_def)
    moreover have "so_send F now buffer ec0 flag s k = Some (of_nat (length buffer), ec0, ?s, k)"
      using True w z c sz live b(3) by (simp add: so_send_def so_live_def Let_def big)
    ultimately show ?thesis using u by auto
  next
    case False
    then have "so_send F now buffer ec0 flag s k = Some (0, E_SOCKET_SEND_BLOCK, s, k)"
      using z c sz live b(3) by (auto simp: so_send_def so_live_def Let_def not_less)
    then show ?thesis using puts_refl [OF live assms(2)] by auto
  qed
qed

lemma send_direct:
  assumes live: "so_live s" and k: "ok k" and d: "buffer \<noteq> []" "length buffer \<le> unat (sk_snd_size s)" and now: "now \<noteq> 0"
    and nil: "rb_list (sk_m_sb s) = []"
  shows "\<exists>n ec s' k'. so_send F now buffer ec0 flag s k = Some (n, ec, s', k') \<and> puts (take (unat n) buffer) s k s' k' \<and>
    unat n \<le> length buffer \<and> (unat n < length buffer \<longrightarrow> errno_code ec \<and> \<not> smooth k)"
proof -
  note b = so_live_bounds [OF live]
  let ?n = "of_nat (length buffer) :: u32" and ?fl = "flag AND NOT F_SEND_USE_SND_BUFFER"
  have u: "unat ?n = length buffer" using d(2) b(5) by (intro unat_of_nat_nowrap) simp
  have z: "0 < ?n" using u d(1) by (simp add: word_less_unat)
  have c: "rb_count (sk_m_sb s) = 0" using nil by (simp add: word_eq_unat rb_count_list b)
  have sz: "?n \<le> sk_snd_size s" using u d(2) by (simp add: word_le_unat)
  have big: "(sk_snd_size s < ?n) = False" using sz by simp
  have l: "length buffer < 4294967296" using d(2) b(5) by simp
  have shut: "\<not> has_flag (sk_m_wflag s) SHUTDOWN_WR" using live by (simp add: so_live_def)
  obtain sent ec k' where f: "m_fn_send F (sk_m_fd s) buffer ?fl k = Some (sent, ec, k')" "unat sent \<le> length buffer"
    "outb k' = outb k @ take (unat sent) buffer" "ok k'" "pend k' = pend k" "smooth k \<longrightarrow> smooth k'"
    "if unat sent = length buffer then ec = OK else ec = E_SOCKET_SEND_BLOCK \<or> errno_code ec \<and> \<not> smooth k"
    using fn_send [OF k d(1) l, of "sk_m_fd s" ?fl] by blast
  have sb: "sb_send F buffer ?fl s k = Some (sent, ec, k')" using f(1) z shut by (simp add: sb_send_def)
  have lt: "sent < ?n \<longleftrightarrow> unat sent < length buffer" using u by (simp add: word_less_unat)
  have start: "so_send F now buffer ec0 flag s k =
      (if sent < ?n \<and> ec = E_SOCKET_SEND_BLOCK then do {
         wawo_assert (rb_left_capacity (sk_m_sb s) \<ge> ?n - sent);
         (write_c, sb) \<leftarrow> rb_write (sk_m_sb s) (drop (unat sent) buffer) (?n - sent);
         wawo_assert (?n - sent = write_c);
         s \<leftarrow> begin_async_write 0 Async_write (sb_note (Schedule_event E_WR_BLOCK 1) (s\<lparr> sk_m_sb := sb, sk_m_async_wt := now \<rparr>));
         Some (sent + write_c, ec, s, k') }
       else Some (sent, ec, s, k'))"
    using z sz c shut live b(3) sb by (simp add: so_send_def so_live_def Let_def big)
  show ?thesis
  proof (cases "sent < ?n \<and> ec = E_SOCKET_SEND_BLOCK")
    case False
    then have "unat sent < length buffer \<longrightarrow> errno_code ec \<and> \<not> smooth k" using f(2,7) lt by (auto split: if_splits)
    moreover have "puts (take (unat sent) buffer) s k s k'" using live f nil by (simp add: puts_def)
    ultimately show ?thesis using start False f(2) by auto
  next
    case True
    let ?r = "length buffer - unat sent"
    have r: "0 < ?r" using True lt by simp
    have le: "?r \<le> length (drop (unat sent) buffer)" by simp
    have un: "unat (?n - sent) = ?r" using True u by (simp add: unat_sub_nowrap word_less_unat)
    have cn: "?n - sent = of_nat ?r" using un l by (simp add: word_eq_unat unat_of_nat_nowrap)
    have room: "length (rb_list (sk_m_sb s)) + ?r \<le> unat (rb_capacity (sk_m_sb s))" using nil d(2) b(3) by simp
    obtain sb where w: "rb_write (sk_m_sb s) (drop (unat sent) buffer) (of_nat ?r) = Some (of_nat ?r, sb)" "rb_inv sb"
      "rb_list sb = rb_list (sk_m_sb s) @ take ?r (drop (unat sent) buffer)" "rb_capacity sb = rb_capacity (sk_m_sb s)"
      by (rule rb_write_all [OF b(1) r le room])
    let ?s = "sb_note (Schedule_event E_WR_BLOCK 1) (s\<lparr> sk_m_sb := sb, sk_m_async_wt := now \<rparr>)"
    obtain wfl es where g: "begin_async_write 0 Async_write ?s = Some (?s\<lparr> sk_m_wflag := wfl, sk_log := sk_log ?s @ es \<rparr>)"
      "triggered es = []" "has_flag wfl SHUTDOWN_WR = has_flag (sk_m_wflag ?s) SHUTDOWN_WR"
      by (rule begin_async_write_ok [of ?s Async_write]) (use live in \<open>auto simp: so_live_def sb_note_def is_nonblocking_def\<close>)
    let ?s' = "?s\<lparr> sk_m_wflag := wfl, sk_log := sk_log ?s @ es \<rparr>"
    have o': "out_only s ?s'"
      by (rule out_onlyI [where es = "Schedule_event E_WR_BLOCK 1 # es" and wfl = wfl and sb = sb and tsb = "sk_m_tsb s" and wt = now])
        (use g(2) in \<open>simp_all add: sb_note_def\<close>)
    have "so_inv ?s'" using live w now by (simp add: so_live_def so_inv_def sb_note_def)
    with live o' have "so_live ?s'" by (rule so_live_step) (use g(3) in \<open>simp add: sb_note_def\<close>)
    then have p: "puts buffer s k ?s' k'" using o' f w nil by (simp add: puts_def sb_note_def)
    have "rb_left_capacity (sk_m_sb s) \<ge> ?n - sent"
      using un room nil rb_left_capacity_list [OF b(1)] by (simp add: word_le_unat)
    then have "so_send F now buffer ec0 flag s k = Some (sent + of_nat ?r, ec, ?s', k')"
      using start True w(1) cn g(1) by simp
    moreover have "unat (sent + of_nat ?r) = length buffer" using cn u by (metis add_diff_cancel_left' add_diff_eq)
    ultimately show ?thesis using p by auto
  qed
qed

lemma send_ok:
  assumes "so_live s" "ok k" "buffer \<noteq> []" "length buffer \<le> unat (sk_snd_size s)" "now \<noteq> 0"
  shows "\<exists>n ec s' k'. so_send F now buffer ec0 flag s k = Some (n, ec, s', k') \<and> puts (take (unat n) buffer) s k s' k' \<and>
    unat n \<le> length buffer \<and>
    (unat n < length buffer \<longrightarrow> n = 0 \<and> ec = E_SOCKET_SEND_BLOCK \<and> rb_list (sk_m_sb s) \<noteq> [] \<or> errno_code ec \<and> \<not> smooth k)"
proof (cases "rb_list (sk_m_sb s) = []")
  case True
  then show ?thesis using send_direct [OF assms] by blast
next
  case False
  show ?thesis using send_buffered [OF assms(1-4) False, of now ec0 flag] False by force
qed

text \<open>
  The loop of \<open>_flush\<close> makes at most one pass: the buffer fits the temporary one, and a send that does not take everything reports why.
\<close>

definition flushed :: "'t socket \<Rightarrow> 'k \<Rightarrow> (u32 \<times> u32 \<times> int \<times> 't socket \<times> 'k) option \<Rightarrow> bool" where
  "flushed s k r \<longleftrightarrow>
     (\<exists>n left ec s' k'. r = Some (n, left, ec, s', k') \<and> puts [] s k s' k' \<and> unat left = length (rb_list (sk_m_sb s')) \<and>
        unat n + unat left = length (rb_list (sk_m_sb s)) \<and> sk_m_async_wt s' = sk_m_async_wt s \<and>
        (if left = 0 then ec = OK else ec = E_SOCKET_SEND_BLOCK \<or> errno_code ec \<and> \<not> smooth k))"

lemma flush_loop_done:
  "ec \<noteq> OK \<or> rb_count (sk_m_sb s) = 0 \<Longrightarrow> flush_loop F n ec s k = Some (n, rb_count (sk_m_sb s), ec, s, k)"
  by (subst flush_loop.simps) auto

lemma flush_ok:
  assumes live: "so_live s" and k: "ok k"
  shows "flushed s k (do_flush F s k)"
proof (cases "rb_list (sk_m_sb s) = []")
  case True
  then have "rb_count (sk_m_sb s) = 0" using so_live_bounds(1) [OF live] by (simp add: word_eq_unat rb_count_list)
  then have "do_flush F s k = Some (0, 0, OK, s, k)" using live by (simp add: do_flush_def so_live_def flush_loop_done)
  then show ?thesis using True puts_refl [OF live k] by (simp add: flushed_def)
next
  case False
  note b = so_live_bounds [OF live]
  let ?d = "rb_list (sk_m_sb s)"
  have len: "length ?d \<le> unat (sk_snd_size s)"
    using rb_list_less_capacity [OF b(1)] unat_rb_capacity [OF b(1)] b(3) by simp
  have cnt: "rb_count (sk_m_sb s) \<noteq> 0" using False by (simp add: word_eq_unat rb_count_list b)
  obtain sb0 c where r: "rb_read (sk_m_sb s) (sk_snd_size s) False = Some (c, take (unat (sk_snd_size s)) ?d, sb0)"
    "unat c = min (unat (sk_snd_size s)) (length ?d)" "rb_inv sb0" "rb_list sb0 = (if False then drop (unat (sk_snd_size s)) ?d else ?d)"
    "rb_m_capacity sb0 = rb_m_capacity (sk_m_sb s)" by (rule rb_read_ok [OF b(1), of "sk_snd_size s" False])
  have pk: "rb_peek (sk_m_sb s) (sk_snd_size s) = Some (c, ?d, sb0)" "unat c = length ?d" "rb_list sb0 = ?d" "rb_capacity sb0 = sk_snd_size s"
    using r len b(3) by (simp_all add: rb_peek_def rb_capacity_def)
  let ?tsb = "take 0 (sk_m_tsb s) @ ?d @ drop (0 + length ?d) (sk_m_tsb s)"
  have tsb: "mem_write (sk_m_tsb s) 0 ?d = Some ?tsb" "mem_read ?tsb 0 (unat c) = Some ?d" "length ?tsb = unat (sk_snd_size s)"
    using len b(9) pk(2) by (simp_all add: mem_write_def mem_read_def)
  have l: "length ?d < 4294967296" using len b(5) by simp
  obtain sent ec k' where f: "m_fn_send F (sk_m_fd s) ?d 0 k = Some (sent, ec, k')" "unat sent \<le> length ?d"
    "outb k' = outb k @ take (unat sent) ?d" "ok k'" "pend k' = pend k" "smooth k \<longrightarrow> smooth k'"
    "if unat sent = length ?d then ec = OK else ec = E_SOCKET_SEND_BLOCK \<or> errno_code ec \<and> \<not> smooth k"
    using fn_send [OF k False l, of "sk_m_fd s" 0] by blast
  have z: "(0 :: u32) < of_nat (length ?d)" using False l by (simp add: word_less_unat unat_of_nat_nowrap)
  have snd: "sb_send F ?d 0 s k = Some (sent, ec, k')" using f(1) z live by (simp add: sb_send_def so_live_def)
  obtain sb where sk: "rb_skip sb0 sent = Some sb" "rb_inv sb" "rb_list sb = drop (unat sent) (rb_list sb0)" "rb_m_capacity sb = rb_m_capacity sb0"
    by (rule rb_skip_ok [OF r(3), of sent]) (use f(2) pk(3) in simp_all)
  then have "\<exists>sb. (if sent > 0 then rb_skip sb0 sent else Some sb0) = Some sb \<and> rb_inv sb \<and> rb_list sb = drop (unat sent) ?d \<and>
      rb_capacity sb = sk_snd_size s"
    using r(3) pk(3,4) by (auto simp: rb_capacity_def word_less_unat)
  then obtain sb where sk0: "(if sent > 0 then rb_skip sb0 sent else Some sb0) = Some sb"
    and sb: "rb_inv sb" "rb_list sb = drop (unat sent) ?d" "rb_capacity sb = sk_snd_size s" by blast
  let ?s = "s\<lparr> sk_m_tsb := ?tsb, sk_m_sb := sb \<rparr>"
  have o': "out_only s ?s" by (rule out_onlyI [where es = "[]" and wfl = "sk_m_wflag s" and sb = sb and tsb = ?tsb and wt = "sk_m_async_wt s"]) simp_all
  have "so_inv ?s" using live sb tsb(3) False by (simp add: so_live_def so_inv_def)
  with live o' have lv: "so_live ?s" by (rule so_live_step) simp
  then have p: "puts [] s k ?s k'" using o' f sb by (simp add: puts_def)
  have left: "unat (rb_count sb) = length ?d - unat sent" using rb_count_list [OF sb(1)] sb(2) by simp
  have fin: "ec \<noteq> OK \<or> rb_count (sk_m_sb ?s) = 0" using f(7) left by (auto simp: word_eq_unat error_codes errno_code_def split: if_splits)
  have "do_flush F s k = flush_loop F sent ec ?s k'"
    using live cnt pk tsb snd sk0 by (simp add: do_flush_def so_live_def flush_loop.simps [of F 0] Let_def)
  also have "\<dots> = Some (sent, rb_count sb, ec, ?s, k')" using flush_loop_done [OF fin] by simp
  finally have eq: "do_flush F s k = Some (sent, rb_count sb, ec, ?s, k')" .
  have "rb_count sb = 0 \<longleftrightarrow> unat sent = length ?d" using left f(2) by (auto simp: word_eq_unat)
  then show ?thesis using p left f(2,7) sb(2) by (simp add: flushed_def eq)
qed


lemma flush_wait_ok:
  assumes "so_live s" "ok k"
  shows "\<exists>r s' k'. flush_wait F block_time begin_time clock s k = Some (r, s', k') \<and> puts [] s k s' k' \<and>
    (\<forall>left ec. r = Ret (left, ec) \<longrightarrow> unat left = length (rb_list (sk_m_sb s')))"
  using assms
proof (induction clock arbitrary: s k begin_time)
  case Nil
  obtain n left ec s' k' where "do_flush F s k = Some (n, left, ec, s', k')" "puts [] s k s' k'" "unat left = length (rb_list (sk_m_sb s'))"
    using flush_ok [OF Nil] unfolding flushed_def by blast
  then show ?case by (simp add: flush_wait.simps [of F])
next
  case (Cons now clock)
  obtain n left ec s' k' where f: "do_flush F s k = Some (n, left, ec, s', k')" "puts [] s k s' k'" "unat left = length (rb_list (sk_m_sb s'))"
    using flush_ok [OF Cons.prems] unfolding flushed_def by blast
  have "so_live s'" "ok k'" using f(2) by (simp_all add: puts_def)
  then obtain r s'' k'' where g: "flush_wait F block_time (if begin_time = 0 then now else begin_time) clock s' k' = Some (r, s'', k'')"
    "puts [] s' k' s'' k''" "\<forall>left ec. r = Ret (left, ec) \<longrightarrow> unat left = length (rb_list (sk_m_sb s''))"
    using Cons.IH [of s' k' "if begin_time = 0 then now else begin_time"] by blast
  show ?case using f g puts_trans [OF f(2) g(2)]
    by (subst flush_wait.simps) (simp add: Let_def)
qed

lemma async_wt_puts:
  assumes "puts d s k s' k'" "now \<noteq> 0 \<or> rb_list (sk_m_sb s') = []"
  shows "puts d s k (s'\<lparr> sk_m_async_wt := now \<rparr>) k'"
proof -
  have p: "so_live s'" "out_only s s'" using assms(1) by (simp_all add: puts_def)
  have o': "out_only s' (s'\<lparr> sk_m_async_wt := now \<rparr>)"
    by (rule out_onlyI [where es = "[]" and wfl = "sk_m_wflag s'" and sb = "sk_m_sb s'" and tsb = "sk_m_tsb s'" and wt = now]) simp_all
  have "so_inv (s'\<lparr> sk_m_async_wt := now \<rparr>)" using p(1) assms(2) by (auto simp: so_live_def so_inv_def)
  with p(1) o' have "so_live (s'\<lparr> sk_m_async_wt := now \<rparr>)" by (rule so_live_step) simp
  then show ?thesis using assms(1) out_only_trans [OF p(2) o'] by (simp add: puts_def)
qed

lemma wflag_puts:
  assumes "puts d s k s' k'" "triggered es = []" "has_flag wfl SHUTDOWN_WR = has_flag (sk_m_wflag s') SHUTDOWN_WR"
  shows "puts d s k (s'\<lparr> sk_m_wflag := wfl, sk_log := sk_log s' @ es \<rparr>) k'"
proof -
  let ?s = "s'\<lparr> sk_m_wflag := wfl, sk_log := sk_log s' @ es \<rparr>"
  have p: "so_live s'" "out_only s s'" using assms(1) by (simp_all add: puts_def)
  have o': "out_only s' ?s"
    by (rule out_onlyI [where es = es and wfl = wfl and sb = "sk_m_sb s'" and tsb = "sk_m_tsb s'" and wt = "sk_m_async_wt s'"]) (use assms in simp_all)
  have "so_inv ?s" using p(1) by (auto simp: so_live_def so_inv_def)
  with p(1) o' have "so_live ?s" by (rule so_live_step) (use assms(3) in simp)
  then show ?thesis using assms(1) out_only_trans [OF p(2) o'] by (simp add: puts_def)
qed

lemma so_flush_ok:
  assumes "so_live s" "ok k"
  shows "\<exists>r s' k'. so_flush F block_time clock l s k = Some (r, s', k') \<and> puts [] s k s' k'"
proof -
  obtain r s' k' where f: "flush_wait F block_time 0 clock s k = Some (r, s', k')" "puts [] s k s' k'"
    "\<forall>left ec. r = Ret (left, ec) \<longrightarrow> unat left = length (rb_list (sk_m_sb s'))" using flush_wait_ok [OF assms] by blast
  have nb: "is_nonblocking s" using assms(1) by (simp add: so_live_def)
  show ?thesis
  proof (cases r)
    case Block
    then show ?thesis using f nb by (simp add: so_flush_def)
  next
    case (Ret x)
    obtain left ec where x: "x = (left, ec)" by (cases x)
    then have "left = 0 \<Longrightarrow> rb_list (sk_m_sb s') = []" using f(3) Ret by auto
    then show ?thesis using f nb Ret x async_wt_puts [OF f(2), of 0] by (simp add: so_flush_def)
  qed
qed

lemma end_async_write_puts:
  assumes "puts d s k s' k'"
  obtains s'' where "end_async_write s' = Some s''" "puts d s k s'' k'" "sk_m_sb s'' = sk_m_sb s'" "sk_m_async_wt s'' = sk_m_async_wt s'"
proof -
  have "sk_m_fd s' > 0" using assms by (simp add: puts_def so_live_def)
  then obtain wfl es where e: "end_async_write s' = Some (s'\<lparr> sk_m_wflag := wfl, sk_log := sk_log s' @ es \<rparr>)" "triggered es = []"
    "has_flag wfl SHUTDOWN_WR = has_flag (sk_m_wflag s') SHUTDOWN_WR" by (rule end_async_write_ok)
  from that [OF e(1) wflag_puts [OF assms e(2,3)]] show ?thesis by simp
qed

lemma handle_async_write_ok:
  assumes live: "so_live s" and k: "ok k" and now: "now \<noteq> 0"
  shows "\<exists>ec s' k'. handle_async_write F now s k = Some (ec, s', k') \<and> puts [] s k s' k' \<and>
    (rb_list (sk_m_sb s') = [] \<and> ec = OK \<or> ec = E_SOCKET_SEND_BLOCK \<or> ec = E_SOCKET_SEND_IO_BLOCK_EXPIRED \<or> errno_code ec \<and> \<not> smooth k)"
proof -
  obtain s1 where s1: "(if \<not> has_flag (sk_m_wflag s) WATCH_OPTION_INFINITE then end_async_write s else Some s) = Some s1" "puts [] s k s1 k"
    using end_async_write_puts [OF puts_refl [OF live k]] puts_refl [OF live k] by metis
  have l1: "so_live s1" using s1(2) by (simp add: puts_def)
  obtain n left ec s2 k2 where f: "do_flush F s1 k = Some (n, left, ec, s2, k2)" "puts [] s1 k s2 k2" "unat left = length (rb_list (sk_m_sb s2))"
    "sk_m_async_wt s2 = sk_m_async_wt s1" "if left = 0 then ec = OK else ec = E_SOCKET_SEND_BLOCK \<or> errno_code ec \<and> \<not> smooth k"
    using flush_ok [OF l1 k] unfolding flushed_def by blast
  have p: "puts [] s k s2 k2" using puts_trans [OF s1(2) f(2)] by simp
  have l2: "so_live s2" using f(2) by (simp add: puts_def)
  have stop: "left = 0 \<or> ec \<noteq> OK" using f(5) by (auto simp: error_codes errno_code_def split: if_splits)
  have loop: "async_write_loop F 0 s1 k = Some (n, left, ec, s2, k2)"
    using f(1) stop by (subst async_write_loop.simps) simp
  have start: "handle_async_write F now s k = (if left = 0 then do {
            wawo_assert (ec = OK);
            if n \<noteq> 0 then do {
              s \<leftarrow> end_async_write s2;
              Some (ec, sb_note (Schedule_event E_WR_UNBLOCK 0) (s\<lparr> sk_m_async_wt := 0 \<rparr>), k2) }
            else Some (ec, s2, k2) }
          else do {
            wawo_assert (sk_m_async_wt s2 \<noteq> 0);
            if ec = E_SOCKET_SEND_BLOCK then
              if n = 0 \<and> now > sk_m_async_wt s2 + sk_m_delay_wp s2 then Some (E_SOCKET_SEND_IO_BLOCK_EXPIRED, s2, k2)
              else do {
                s \<leftarrow> begin_async_write 0 Async_write (if n > 0 then s2\<lparr> sk_m_async_wt := now \<rparr> else s2);
                Some (ec, s, k2) }
            else Some (ec, s2, k2) })"
    using live s1(1) loop by (simp add: handle_async_write_def so_live_def)
  show ?thesis
  proof (cases "left = 0")
    case True
    then have nil: "rb_list (sk_m_sb s2) = []" and eo: "ec = OK" using f(3,5) by auto
    show ?thesis
    proof (cases "n = 0")
      case True
      then show ?thesis using start \<open>left = 0\<close> p nil eo by simp
    next
      case False
      obtain s3 where e: "end_async_write s2 = Some s3" "puts [] s k s3 k2" "sk_m_sb s3 = sk_m_sb s2" by (rule end_async_write_puts [OF p])
      have "puts [] s k (s3\<lparr> sk_m_async_wt := 0 \<rparr>) k2" using async_wt_puts [OF e(2), of 0] e(3) nil by simp
      from wflag_puts [OF this, of "[Schedule_event E_WR_UNBLOCK 0]" "sk_m_wflag s3"]
      have "puts [] s k (sb_note (Schedule_event E_WR_UNBLOCK 0) (s3\<lparr> sk_m_async_wt := 0 \<rparr>)) k2" by (simp add: sb_note_def)
      then show ?thesis using start True False e eo nil by (simp add: sb_note_def)
    qed
  next
    case False
    then have "rb_list (sk_m_sb s2) \<noteq> []" using f(3) by (auto simp: word_eq_unat)
    then have wt: "sk_m_async_wt s2 \<noteq> 0" using l2 by (simp add: so_live_def so_inv_def)
    let ?s3 = "if n > 0 then s2\<lparr> sk_m_async_wt := now \<rparr> else s2"
    have p3: "puts [] s k ?s3 k2" using p async_wt_puts [OF p, of now] now by simp
    have "sk_m_fd ?s3 > 0" "is_nonblocking ?s3" "sk_m_state ?s3 = S_CONNECTED \<or> sk_m_state ?s3 = S_CONNECTING"
      using p3 by (simp_all add: puts_def so_live_def)
    then obtain wfl es where g: "begin_async_write 0 Async_write ?s3 = Some (?s3\<lparr> sk_m_wflag := wfl, sk_log := sk_log ?s3 @ es \<rparr>)"
      "triggered es = []" "has_flag wfl SHUTDOWN_WR = has_flag (sk_m_wflag ?s3) SHUTDOWN_WR" by (rule begin_async_write_ok)
    note p4 = wflag_puts [OF p3 g(2,3)]
    consider (expired) "ec = E_SOCKET_SEND_BLOCK" "n = 0 \<and> now > sk_m_async_wt s2 + sk_m_delay_wp s2"
      | (wait) "ec = E_SOCKET_SEND_BLOCK" "\<not> (n = 0 \<and> now > sk_m_async_wt s2 + sk_m_delay_wp s2)" | (err) "ec \<noteq> E_SOCKET_SEND_BLOCK" by blast
    then show ?thesis
    proof cases
      case expired
      then have "handle_async_write F now s k = Some (E_SOCKET_SEND_IO_BLOCK_EXPIRED, s2, k2)" using start False wt by simp
      then show ?thesis using p by blast
    next
      case wait
      then have "handle_async_write F now s k = Some (ec, ?s3\<lparr> sk_m_wflag := wfl, sk_log := sk_log ?s3 @ es \<rparr>, k2)"
        using start False wt g(1) by (simp only: if_False assert_bind if_True bind.bind_lunit) simp
      then show ?thesis using p4 wait(1) by blast
    next
      case err
      then have "handle_async_write F now s k = Some (ec, s2, k2)" using start False wt by simp
      then show ?thesis using p f(5) False err by auto
    qed
  qed
qed

end

end
