(* ===== verification/Mux_Pair.thy ===== *)
theory Mux_Pair
  imports Mux_Flow Socket_Send_Props
begin

text \<open>
  Two multiplexing peers joined by a pair of channels. The users open streams on either side, write and read; the
  peers tick at any time; the packets of a channel arrive in order, which is what the socket pair promises. The invariant
  is a statement about each stream alone: no stream sees anything of another.
\<close>

section \<open>The pair\<close>

record 'k mux_end =
  me_mux :: mux_cargo
  me_so :: 'k
  me_in :: nat
  me_wrote :: "stream_id_t \<Rightarrow> bytes"
  me_read :: "stream_id_t \<Rightarrow> bytes"

text \<open>A peer with its socket attached.\<close>

definition mux_start :: mux_cargo where
  "mux_start = mux_new\<lparr> mx_so := True, mx_mux_state := SOCKET_ATTACHED \<rparr>"

lemma mux_start_attached: "attach_socket mux_new = Some mux_start"
  by (simp add: attach_socket_def mux_start_def mux_new_def)

abbreviation me_look :: "'k mux_end \<Rightarrow> stream_id_t \<Rightarrow> mux_stream option" where
  "me_look a i \<equiv> map_of (mx_stream_map (me_mux a)) i"

definition new_mux_end :: "'k \<Rightarrow> 'k mux_end" where
  "new_mux_end k = \<lparr> me_mux = mux_start, me_so = k, me_in = 0, me_wrote = (\<lambda>_. []), me_read = (\<lambda>_. []) \<rparr>"

text \<open>
  \<open>me_in\<close> counts the packets of the other side that have arrived. The two users choose different ids: a stream is opened where
  the other side has none of that id. A user leaves at most \<open>lim\<close> bytes
  unsent, the size of the buffer that the first flush makes (the buffer itself sees to it from then on). In \<open>other\<close> the channel changes
  without taking packets of this peer.
\<close>

inductive mux_reach :: "'k mux_so \<Rightarrow> ('k \<Rightarrow> bool) \<Rightarrow> ('k \<Rightarrow> bytes list) \<Rightarrow> nat \<Rightarrow> 'k mux_end \<Rightarrow> 'k mux_end \<Rightarrow> bool" for so chan hist lim where
  start: "chan k \<Longrightarrow> chan k' \<Longrightarrow> hist k = [] \<Longrightarrow> hist k' = [] \<Longrightarrow> mux_reach so chan hist lim (new_mux_end k) (new_mux_end k')"
| swap: "mux_reach so chan hist lim a b \<Longrightarrow> mux_reach so chan hist lim b a"
| opened: "mux_reach so chan hist lim a b \<Longrightarrow> i \<noteq> 0 \<Longrightarrow> me_look b i = None \<Longrightarrow> mux_stream_open junk i ctx (me_mux a) = Some (st, rt, m) \<Longrightarrow>
    mux_reach so chan hist lim (a\<lparr> me_mux := m \<rparr>) b"
| wrote: "mux_reach so chan hist lim a b \<Longrightarrow> me_look a i = Some s \<Longrightarrow> pk_inv p \<Longrightarrow> length (rb_list (ms_wb s)) + length (pk_bytes p) \<le> lim \<Longrightarrow>
    stream_write p s = Some (rt, s') \<Longrightarrow>
    mux_reach so chan hist lim (a\<lparr> me_mux := mux_put i s' (me_mux a), me_wrote := (me_wrote a)(i := me_wrote a i @ (if rt = OK then pk_bytes p else [])) \<rparr>) b"
| reads: "mux_reach so chan hist lim a b \<Longrightarrow> me_look a i = Some s \<Longrightarrow> stream_read junk mx s = Some (n, p, s') \<Longrightarrow>
    mux_reach so chan hist lim (a\<lparr> me_mux := mux_put i s' (me_mux a), me_read := (me_read a)(i := me_read a i @ (case p of None \<Rightarrow> [] | Some p \<Rightarrow> pk_bytes p)) \<rparr>) b"
| tick: "mux_reach so chan hist lim a b \<Longrightarrow> do_tick so junk (me_mux a) (me_so a) = Some (m, k) \<Longrightarrow>
    mux_reach so chan hist lim (a\<lparr> me_mux := m, me_so := k \<rparr>) b"
| arrive: "mux_reach so chan hist lim a b \<Longrightarrow> me_in a < length (hist (me_so b)) \<Longrightarrow> pk_inv p \<Longrightarrow> pk_bytes p = hist (me_so b) ! me_in a \<Longrightarrow>
    packet_arrive so junk p (me_mux a) (me_so a) = Some (m, k) \<Longrightarrow>
    mux_reach so chan hist lim (a\<lparr> me_mux := m, me_so := k, me_in := Suc (me_in a) \<rparr>) b"
| other: "mux_reach so chan hist lim a b \<Longrightarrow> chan k \<Longrightarrow> hist k = hist (me_so a) \<Longrightarrow> mux_reach so chan hist lim (a\<lparr> me_so := k \<rparr>) b"

section \<open>One stream\<close>

text \<open>The parts of a stream that one side has; a side without the stream counts as one with a fresh stream.\<close>

definition unread :: "mux_stream option \<Rightarrow> bytes" where
  "unread so = (case so of None \<Rightarrow> [] | Some s \<Rightarrow> rb_list (ms_rb s))"

definition unsent :: "mux_stream option \<Rightarrow> bytes" where
  "unsent so = (case so of None \<Rightarrow> [] | Some s \<Rightarrow> rb_list (ms_wb s))"

definition window :: "mux_stream option \<Rightarrow> nat" where
  "window so = (case so of None \<Rightarrow> 262144 | Some s \<Rightarrow> unat (ms_wb_wnd s))"

definition owed :: "mux_stream option \<Rightarrow> nat" where
  "owed so = (case so of None \<Rightarrow> 0 | Some s \<Rightarrow> unat (ms_rb_incre s))"

lemmas parts = unread_def unsent_def window_def owed_def

lemma parts_simps [simp]:
  "unread None = []" "unsent None = []" "window None = 262144" "owed None = 0"
  "unread (Some s) = rb_list (ms_rb s)" "unsent (Some s) = rb_list (ms_wb s)" "window (Some s) = unat (ms_wb_wnd s)" "owed (Some s) = unat (ms_rb_incre s)"
  by (simp_all add: parts)

text \<open>From the side of \<open>sa\<close> to that of \<open>sb\<close>; \<open>qa\<close> are the frames of this stream under way, \<open>qb\<close> those of the way back.\<close>

definition one_way :: "mux_stream option \<Rightarrow> bytes \<Rightarrow> bytes list \<Rightarrow> mux_stream option \<Rightarrow> bytes \<Rightarrow> bytes list \<Rightarrow> bool" where
  "one_way sa wrote qa sb rd qb \<longleftrightarrow> wrote = rd @ unread sb @ frames_data qa @ unsent sa \<and>
     window sa + length (frames_data qa) + length (unread sb) + owed sb + frames_wnd qb = 262144"

definition shaken :: "mux_stream option \<Rightarrow> bytes list \<Rightarrow> mux_stream option \<Rightarrow> bool" where
  "shaken sa qa sb \<longleftrightarrow> (case sa of None \<Rightarrow> qa = [] | Some s \<Rightarrow>
     (case sb of None \<Rightarrow> if plan_syn s then qa = [] else \<exists>r. qa = mux_frame (ms_id s) T_SYN [] # r \<and> no_syn r
      | Some _ \<Rightarrow> \<not> plan_syn s \<and> no_syn qa))"

lemma shaken_simps [simp]:
  "shaken None qa sb \<longleftrightarrow> qa = []"
  "shaken (Some s) qa None \<longleftrightarrow> (if plan_syn s then qa = [] else \<exists>r. qa = mux_frame (ms_id s) T_SYN [] # r \<and> no_syn r)"
  "shaken (Some s) qa (Some t) \<longleftrightarrow> \<not> plan_syn s \<and> no_syn qa"
  by (simp_all add: shaken_def)

definition joined :: "mux_stream option \<Rightarrow> bytes \<Rightarrow> bytes \<Rightarrow> bytes list \<Rightarrow> mux_stream option \<Rightarrow> bytes \<Rightarrow> bytes \<Rightarrow> bytes list \<Rightarrow> bool" where
  "joined sa wa ra qa sb wb rb qb \<longleftrightarrow> one_way sa wa qa sb rb qb \<and> one_way sb wb qb sa ra qa \<and> shaken sa qa sb \<and> shaken sb qb sa"

lemma joined_swap: "joined sa wa ra qa sb wb rb qb \<Longrightarrow> joined sb wb rb qb sa wa ra qa"
  by (simp add: joined_def)

lemma joined_flush:
  assumes "stream_flushed lim i s ms s'" "stream_ok lim i s" "joined (Some s) wa ra qa sb wb rb qb"
  shows "joined (Some s') wa ra (qa @ ms) sb wb rb qb"
proof -
  have f: "rb_list (ms_wb s) = frames_data ms @ rb_list (ms_wb s')" "unat (ms_wb_wnd s) = unat (ms_wb_wnd s') + length (frames_data ms)"
    "unat (ms_rb_incre s) = unat (ms_rb_incre s') + frames_wnd ms" "ms_rb s' = ms_rb s" "ms_id s' = i" "ms_id s = i"
    using assms(1,2) by (simp_all add: stream_flushed_def stream_ok_def)
  have w: "one_way (Some s') wa (qa @ ms) sb rb qb" "one_way sb wb qb (Some s') ra (qa @ ms)"
    using assms(3) f by (auto simp: joined_def one_way_def)
  have "shaken (Some s') (qa @ ms) sb \<and> shaken sb qb (Some s')"
  proof (cases sb)
    case None
    then have "plan_syn s \<longrightarrow> qa = []" "qb = []" using assms(3) by (auto simp: joined_def)
    moreover have "ms_rb_incre s = 0" using assms(3) None by (auto simp: joined_def one_way_def unat_eq_0)
    ultimately show ?thesis using None assms(1,3) f(5,6) by (cases "plan_syn s") (auto simp: joined_def stream_flushed_def)
  next
    case (Some t)
    then show ?thesis using assms(1,3) by (auto simp: joined_def stream_flushed_def)
  qed
  with w show ?thesis by (simp add: joined_def)
qed

text \<open>The calls of the user.\<close>

lemma stream_write_ok:
  assumes "stream_ok lim i s" "pk_inv p" "stream_write p s = Some (rt, s')" "length (rb_list (ms_wb s)) + length (pk_bytes p) \<le> lim"
  obtains wb fl where "s' = s\<lparr> ms_wb := wb, ms_write_flag := fl \<rparr>" "stream_ok lim i s'"
    "rb_list wb = rb_list (ms_wb s) @ (if rt = OK then pk_bytes p else [])"
proof -
  let ?len = "pk_m_write_idx p - pk_m_read_idx p"
  note pl = pk_len_ok [OF assms(2)] and fl = stream_ok_flags [OF assms(1)]
  have inv: "rb_inv (ms_wb s)" using assms(1) by (simp add: stream_ok_def)
  show ?thesis
  proof (cases "rb_left_capacity (ms_wb s) < ?len")
    case True
    then have "s' = s\<lparr> ms_wb := ms_wb s, ms_write_flag := ms_write_flag s OR STREAM_WRITE_BLOCKED \<rparr>" "rt = E_MUX_STREAM_WRITE_BLOCK"
      using assms(3) pl(1) fl(4) by (simp_all add: stream_write_def)
    moreover have "E_MUX_STREAM_WRITE_BLOCK \<noteq> OK" by (simp add: E_MUX_STREAM_WRITE_BLOCK_def OK_def)
    ultimately show ?thesis
      using that [where wb = "ms_wb s" and fl = "ms_write_flag s OR STREAM_WRITE_BLOCKED"] stream_ok_fields(4) [OF assms(1)] by simp
  next
    case False
    then have w: "(do { (n, wb) \<leftarrow> rb_write (ms_wb s) (pk_bytes p) ?len; wawo_assert (n = ?len); Some (OK, s\<lparr> ms_wb := wb \<rparr>) }) = Some (rt, s')"
      using assms(2,3) pl(1) fl(4) by (simp add: stream_write_def pk_content_ok)
    then have nz: "?len \<noteq> 0" by (auto simp: rb_write_def)
    obtain wb c where b: "rb_write (ms_wb s) (pk_bytes p) ?len = Some (c, wb)" "rb_inv wb" "unat c = min (unat ?len) (unat (rb_left_capacity (ms_wb s)))"
      "rb_list wb = rb_list (ms_wb s) @ take (unat c) (pk_bytes p)" "rb_m_capacity wb = rb_m_capacity (ms_wb s)"
      by (rule rb_write_ok [OF inv nz, of "pk_bytes p"]) (use pl(2) in simp_all)
    have "c = ?len" using b(3) False by (simp add: word_to_nat)
    then have e: "rt = OK" "s' = s\<lparr> ms_wb := wb \<rparr>" using w b(1) by simp_all
    have "rb_capacity wb = rb_capacity (ms_wb s)" "length (rb_list wb) \<le> lim" using b(4,5) assms(4) by (simp_all add: rb_capacity_def)
    then have "stream_ok lim i s'" unfolding e by (rule stream_ok_fields(3) [OF assms(1) b(2)])
    then show ?thesis using that [where wb = wb and fl = "ms_write_flag s"] e b(4) pl(2) \<open>c = ?len\<close> by simp
  qed
qed

lemma stream_write_fits:
  assumes s: "stream_ok lim i s" "length (rb_list (ms_wb s)) + length (pk_bytes p) \<le> unat (rb_capacity (ms_wb s))" and p: "pk_inv p" "pk_bytes p \<noteq> []"
  obtains wb where "stream_write p s = Some (OK, s\<lparr> ms_wb := wb \<rparr>)" "rb_inv wb" "rb_list wb = rb_list (ms_wb s) @ pk_bytes p" "rb_capacity wb = rb_capacity (ms_wb s)"
proof -
  let ?len = "pk_m_write_idx p - pk_m_read_idx p"
  note pl = pk_len_ok [OF p(1)]
  have inv: "rb_inv (ms_wb s)" using s(1) by (simp add: stream_ok_def)
  have n: "?len = of_nat (length (pk_bytes p))" by (rule word_of_unat [OF pl(2)])
  have fit: "\<not> rb_left_capacity (ms_wb s) < ?len" using rb_left_capacity_list [OF inv] s(2) pl(2) by (simp add: word_less_unat)
  obtain wb where w: "rb_write (ms_wb s) (pk_bytes p) (of_nat (length (pk_bytes p))) = Some (of_nat (length (pk_bytes p)), wb)" "rb_inv wb"
    "rb_list wb = rb_list (ms_wb s) @ pk_bytes p" "rb_capacity wb = rb_capacity (ms_wb s)"
    by (rule rb_write_all [OF inv, of "length (pk_bytes p)" "pk_bytes p"]) (use p(2) s(2) in simp_all)
  have "stream_write p s = Some (OK, s\<lparr> ms_wb := wb \<rparr>)"
    using fit w(1) pl(1) pk_content_ok [OF p(1)] stream_ok_flags(4) [OF s(1)] unfolding stream_write_def n [symmetric] by simp
  then show ?thesis using that w by blast
qed

lemma stream_read_ok:
  assumes "stream_ok lim i s"
  obtains n p d rb where "stream_read junk mx s = Some (n, p, s\<lparr> ms_rb := rb, ms_rb_incre := ms_rb_incre s + n \<rparr>)"
    "d = (case p of None \<Rightarrow> [] | Some p \<Rightarrow> pk_bytes p)" "rb_list (ms_rb s) = d @ rb_list rb" "unat n = length d" "stream_ok lim i (s\<lparr> ms_rb := rb \<rparr>)"
proof (cases "rb_count (ms_rb s) = 0")
  case True
  then have "stream_read junk mx s = Some (0, None, s)" by (simp add: stream_read_def)
  with that [of 0 None "ms_rb s" "[]"] assms show ?thesis by simp
next
  case False
  have inv: "rb_inv (ms_rb s)" and cap: "rb_capacity (ms_rb s) = MUX_STREAM_WND_SIZE" using assms by (simp_all add: stream_ok_def)
  let ?t = "if mx \<noteq> 0 \<and> rb_count (ms_rb s) > mx then mx else rb_count (ms_rb s)"
  have cnt: "unat (rb_count (ms_rb s)) = length (rb_list (ms_rb s))" by (rule rb_count_list [OF inv])
  have "length (rb_list (ms_rb s)) \<le> 262144"
    using rb_list_less_capacity [OF inv] unat_rb_capacity [OF inv] cap by (simp add: MUX_STREAM_WND_SIZE_def)
  then have t: "?t \<le> PACK_MAX_RIGHT_CAPACITY" "unat ?t \<le> length (rb_list (ms_rb s))" using cnt by (auto simp: word_to_nat PACK_defs)
  obtain rb c where r: "rb_read (ms_rb s) ?t True = Some (c, take (unat ?t) (rb_list (ms_rb s)), rb)" "unat c = min (unat ?t) (length (rb_list (ms_rb s)))"
    "rb_inv rb" "rb_list rb = drop (unat ?t) (rb_list (ms_rb s))" "rb_m_capacity rb = rb_m_capacity (ms_rb s)"
    using rb_read_ok [OF inv, of ?t True] by metis
  let ?d = "take (unat ?t) (rb_list (ms_rb s))"
  have c: "length ?d = unat c" "c \<le> ?t" using r(2) by (simp_all only: length_take word_le_unat)
  obtain p mem q where p: "packet_new junk ?t PACK_INIT_LEFT_CAPACITY = Some p" "mem_write (pk_m_buffer p) (unat (pk_m_read_idx p)) ?d = Some mem"
    "pk_forward_write_index (p\<lparr> pk_m_buffer := mem \<rparr>) c = Some q" "pk_inv q" "pk_bytes q = ?d"
    using packet_filled [OF t(1) c, of junk] by blast
  have "rb_capacity rb = MUX_STREAM_WND_SIZE" using r(5) cap by (simp add: rb_capacity_def)
  then have "stream_ok lim i (s\<lparr> ms_rb := rb \<rparr>)" by (rule stream_ok_fields(2) [OF assms r(3)])
  moreover have "stream_read junk mx s = Some (c, Some q, s\<lparr> ms_rb := rb, ms_rb_incre := ms_rb_incre s + c \<rparr>)"
    unfolding stream_read_def using False p(1-3) r(1) by (simp only: Let_def if_False bind.bind_lunit prod.case)
  ultimately show ?thesis using that [of c "Some q" rb ?d] p(5) r(4) c(1) by simp
qed

lemma joined_write:
  assumes "joined (Some s) wa ra qa sb wb rb qb" "rb_list b = rb_list (ms_wb s) @ d"
  shows "joined (Some (s\<lparr> ms_wb := b, ms_write_flag := fl \<rparr>)) (wa @ d) ra qa sb wb rb qb"
  using assms by (cases sb) (auto simp: joined_def one_way_def)

lemma joined_read:
  assumes "joined (Some s) wa ra qa sb wb rb qb" "rb_list (ms_rb s) = d @ rb_list b" "unat n = length d"
  shows "joined (Some (s\<lparr> ms_rb := b, ms_rb_incre := ms_rb_incre s + n \<rparr>)) wa (ra @ d) qa sb wb rb qb"
proof -
  have "unat (ms_rb_incre s) + unat n \<le> 262144" using assms by (auto simp: joined_def one_way_def)
  then have "unat (ms_rb_incre s + n) = unat (ms_rb_incre s) + unat n" by (simp add: unat_add_nowrap)
  then show ?thesis using assms by (cases sb) (auto simp: joined_def one_way_def)
qed

section \<open>Frames that arrive\<close>

text \<open>A stream fresh from init().\<close>

definition fresh_stream :: "mux_stream \<Rightarrow> bool" where
  "fresh_stream s \<longleftrightarrow> rb_list (ms_rb s) = [] \<and> rb_list (ms_wb s) = [] \<and> ms_rb_incre s = 0 \<and> ms_wb_wnd s = MUX_STREAM_WND_SIZE"

lemma fresh_parts [simp]:
  "fresh_stream s \<Longrightarrow> rb_list (ms_rb s) = []" "fresh_stream s \<Longrightarrow> rb_list (ms_wb s) = []" "fresh_stream s \<Longrightarrow> ms_rb_incre s = 0"
  "fresh_stream s \<Longrightarrow> unat (ms_wb_wnd s) = 262144"
  by (simp_all add: fresh_stream_def MUX_STREAM_WND_SIZE_def)

lemma stream_init_ok:
  obtains s where "stream_init junk = Some s" "ms_flag s = 0" "ms_ctx s = None" "ms_state s = SS_CLOSED" "ms_id s = 0" "fresh_stream s"
    "\<forall>i c f. i \<noteq> 0 \<and> f \<in> {0, 32} \<longrightarrow> stream_ok lim i (s\<lparr> ms_id := i, ms_state := SS_ESTABLISHED, ms_ctx := c, ms_flag := f \<rparr>)"
proof -
  obtain rb where rb: "bytes_ringbuffer_new junk MUX_STREAM_WND_SIZE = Some rb" "rb_inv rb" "rb_list rb = []" "rb_capacity rb = MUX_STREAM_WND_SIZE"
    by (rule bytes_ringbuffer_new_ok [of MUX_STREAM_WND_SIZE junk])
      (simp_all add: MUX_STREAM_WND_SIZE_def MIN_RING_BUFFER_SIZE_def MAX_RING_BUFFER_SIZE_def)
  let ?s = "\<lparr> ms_ctx = None, ms_state = SS_CLOSED, ms_flag = 0, ms_id = 0, ms_rb = rb, ms_rb_incre = 0, ms_wb = rb,
                 ms_wb_wnd = MUX_STREAM_WND_SIZE, ms_write_flag = 0 \<rparr>"
  have "stream_init junk = Some ?s" using rb(1) by (simp add: stream_init_def)
  moreover have "stream_ok lim i (?s\<lparr> ms_id := i, ms_state := SS_ESTABLISHED, ms_ctx := c, ms_flag := f \<rparr>)" if "i \<noteq> 0" "f \<in> {0, 32}" for i c f
    using that rb by (auto simp: stream_ok_def MUX_STREAM_WND_SIZE_def has_flag_def stream_flags)
  ultimately show ?thesis using rb(3) by (intro that [of ?s]) (auto simp: fresh_stream_def)
qed

lemma mux_stream_open_fresh:
  assumes "i \<noteq> 0"
  obtains t s where "stream_init junk = Some t" "stream_open i ctx t = Some (OK, s)"
    "mux_stream_open junk i ctx mux_start = Some (Some s, OK, mux_start\<lparr> mx_stream_map := [(i, s)] \<rparr>)"
    "stream_ok lim i s" "fresh_stream s" "ms_flag s = STREAM_PLAN_SYN" "ms_id s = i" "ms_ctx s = ctx"
proof -
  obtain t where t: "stream_init junk = Some t" "ms_flag t = 0" "ms_ctx t = None" "ms_state t = SS_CLOSED" "ms_id t = 0" "fresh_stream t"
    "\<forall>i c f. i \<noteq> 0 \<and> f \<in> {0, 32} \<longrightarrow> stream_ok lim i (t\<lparr> ms_id := i, ms_state := SS_ESTABLISHED, ms_ctx := c, ms_flag := f \<rparr>)"
    by (rule stream_init_ok [of junk])
  let ?s = "t\<lparr> ms_id := i, ms_state := SS_ESTABLISHED, ms_ctx := ctx, ms_flag := STREAM_PLAN_SYN \<rparr>"
  have "stream_open i ctx t = Some (OK, ?s)" using t(2-5) by (simp add: stream_open_def snd_syn_def has_flag_def)
  moreover from this have "mux_stream_open junk i ctx mux_start = Some (Some ?s, OK, mux_start\<lparr> mx_stream_map := [(i, ?s)] \<rparr>)"
    using t(1) by (simp add: mux_stream_open_def mux_start_def mux_new_def)
  moreover have "stream_ok lim i ?s" using t(7) assms by (simp add: STREAM_PLAN_SYN_def)
  moreover have "fresh_stream ?s" using t(6) by (simp add: fresh_stream_def del: fresh_parts)
  ultimately show ?thesis by (intro that [of t ?s] t(1)) simp_all
qed

lemma joined_open:
  assumes "joined None wa ra qa None wb rb qb" "fresh_stream s" "plan_syn s"
  shows "joined (Some s) wa ra qa None wb rb qb"
  using assms by (auto simp: joined_def one_way_def)

lemma joined_arrive:
  assumes "joined sa wa ra qa sb wb rb (m # qb)" shows "sb \<noteq> None" "sa = None \<longleftrightarrow> frame_type m = T_SYN"
  using assms by (cases sa; cases sb; auto simp: joined_def split: if_splits)+

lemma joined_syn:
  assumes "joined None wa ra qa sb wb rb (m # qb)" "fresh_stream s" "\<not> plan_syn s"
  shows "joined (Some s) wa ra qa sb wb rb qb"
  using assms by (cases sb; auto simp: joined_def one_way_def split: if_splits)+

lemma joined_data:
  assumes "joined (Some s) wa ra qa sb wb rb (mux_frame i T_DATA d # qb)"
  shows "length (rb_list (ms_rb s)) + length d \<le> 262144"
    "rb_list b = rb_list (ms_rb s) @ d \<Longrightarrow> joined (Some (s\<lparr> ms_rb := b \<rparr>)) wa ra qa sb wb rb qb"
  using assms by (cases sb; auto simp: joined_def one_way_def split: if_splits)+

lemma joined_uwnd:
  assumes "joined (Some s) wa ra qa sb wb rb (mux_frame i T_UWND (write_impl w) # qb)"
  shows "unat (WAWO_MIN MUX_STREAM_WND_SIZE (ms_wb_wnd s + w)) = unat (ms_wb_wnd s) + unat w" "unat (ms_wb_wnd s) + unat w \<le> 262144"
    "joined (Some (s\<lparr> ms_wb_wnd := WAWO_MIN MUX_STREAM_WND_SIZE (ms_wb_wnd s + w) \<rparr>)) wa ra qa sb wb rb qb"
proof -
  show le: "unat (ms_wb_wnd s) + unat w \<le> 262144" using assms by (auto simp: joined_def one_way_def)
  then have "unat (ms_wb_wnd s + w) = unat (ms_wb_wnd s) + unat w" by (simp add: unat_add_nowrap)
  then show u: "unat (WAWO_MIN MUX_STREAM_WND_SIZE (ms_wb_wnd s + w)) = unat (ms_wb_wnd s) + unat w"
    using le by (auto simp: WAWO_MIN_def MUX_STREAM_WND_SIZE_def word_to_nat)
  show "joined (Some (s\<lparr> ms_wb_wnd := WAWO_MIN MUX_STREAM_WND_SIZE (ms_wb_wnd s + w) \<rparr>)) wa ra qa sb wb rb qb"
    using assms u by (cases sb) (auto simp: joined_def one_way_def)
qed

text \<open>What a frame does to the table of the peer it arrives at.\<close>

definition takes :: "bytes \<Rightarrow> mux_stream option \<Rightarrow> mux_stream \<Rightarrow> bool" where
  "takes m sa s' \<longleftrightarrow> (case sa of
     None \<Rightarrow> frame_type m = T_SYN \<and> fresh_stream s' \<and> \<not> plan_syn s'
   | Some s \<Rightarrow> frame_type m = T_DATA \<and> (\<exists>b. s' = s\<lparr> ms_rb := b \<rparr> \<and> rb_list b = rb_list (ms_rb s) @ frame_body m) \<or>
       (\<exists>w. m = mux_frame (frame_id m) T_UWND (write_impl w) \<and> s' = s\<lparr> ms_wb_wnd := WAWO_MIN MUX_STREAM_WND_SIZE (ms_wb_wnd s + w) \<rparr>))"

lemma joined_takes:
  assumes "joined sa wa ra qa sb wb rb (m # qb)" "takes m sa s'" "frame_ok m"
  shows "joined (Some s') wa ra qa sb wb rb qb"
proof (cases sa)
  case None
  then show ?thesis using assms by (auto simp: takes_def intro: joined_syn)
next
  case (Some s)
  show ?thesis
    using assms(3)
  proof (cases rule: frame_ok_cases)
    case (data i d)
    then obtain b where "s' = s\<lparr> ms_rb := b \<rparr>" "rb_list b = rb_list (ms_rb s) @ d"
      using assms(2) Some by (auto simp: takes_def)
    then show ?thesis using assms(1) Some data(1) joined_data(2) by simp
  next
    case (uwnd i w)
    then obtain w' where "m = mux_frame i T_UWND (write_impl w')" "s' = s\<lparr> ms_wb_wnd := WAWO_MIN MUX_STREAM_WND_SIZE (ms_wb_wnd s + w') \<rparr>"
      using assms(2) Some by (auto simp: takes_def)
    then show ?thesis using assms(1) Some joined_uwnd(3) by simp
  qed (use joined_arrive(2) [OF assms(1)] Some in simp)
qed

section \<open>The table of streams\<close>

lemma mux_put_look [simp]:
  "map_of (mx_stream_map m) i \<noteq> None \<Longrightarrow> map_of (mx_stream_map (mux_put i s m)) = (map_of (mx_stream_map m))(i \<mapsto> s)"
proof -
  have "map_of (map (\<lambda>(j, t). if j = i then (j, s) else (j, t)) es) j = (if j = i then map_option (\<lambda>_. s) (map_of es i) else map_of es j)" for es :: "(stream_id_t, mux_stream) smap" and j
    by (induction es) auto
  then show "map_of (mx_stream_map m) i \<noteq> None \<Longrightarrow> ?thesis" by (auto simp: mux_put_def fun_eq_iff)
qed

lemma mux_put_keys: "map fst (mx_stream_map (mux_put i s m)) = map fst (mx_stream_map m)"
  by (auto simp: mux_put_def)

lemma mux_put_fields [simp]:
  "mx_mux_state (mux_put i s m) = mx_mux_state m" "mx_so (mux_put i s m) = mx_so m" "mx_outps (mux_put i s m) = mx_outps m"
  by (simp_all add: mux_put_def)

lemma mux_note_fields [simp]:
  "mx_mux_state (mux_note e m) = mx_mux_state m" "mx_so (mux_note e m) = mx_so m" "mx_outps (mux_note e m) = mx_outps m"
  "mx_stream_map (mux_note e m) = mx_stream_map m"
  by (simp_all add: mux_note_def)

definition mux_ok :: "nat \<Rightarrow> mux_cargo \<Rightarrow> bool" where
  "mux_ok lim m \<longleftrightarrow> mx_mux_state m = SOCKET_ATTACHED \<and> mx_so m \<and> mx_outps m = [] \<and> smap_ok (mx_stream_map m) \<and>
     (\<forall>i s. map_of (mx_stream_map m) i = Some s \<longrightarrow> stream_ok lim i s)"

lemma mux_ok_put: "mux_ok lim m \<Longrightarrow> map_of (mx_stream_map m) i \<noteq> None \<Longrightarrow> stream_ok lim i s \<Longrightarrow> mux_ok lim (mux_put i s m)"
  by (auto simp: mux_ok_def smap_ok_def mux_put_keys)

lemma mux_ok_insert:
  "mux_ok lim m \<Longrightarrow> map_of (mx_stream_map m) i = None \<Longrightarrow> stream_ok lim i s \<Longrightarrow> mux_ok lim (m\<lparr> mx_stream_map := smap_insert i s (mx_stream_map m) \<rparr>)"
  by (auto simp: mux_ok_def smap_insert_ok smap_insert_look)

context packet_channel
begin

lemma tick_streams_ok:
  assumes "chan k" "\<forall>i s. map_of es i = Some s \<longrightarrow> stream_ok lim i s" "distinct (map fst es)"
  shows "\<exists>es' log k' ms. tick_streams so junk False es k = Some (es', log, k') \<and> chan k' \<and> hist k' = hist k @ ms \<and> map fst es' = map fst es \<and>
    list_all frame_ok ms \<and> (\<forall>m \<in> set ms. frame_id m \<in> fst ` set es) \<and>
    (\<forall>i s. map_of es i = Some s \<longrightarrow> (\<exists>s'. map_of es' i = Some s' \<and> stream_flushed lim i s (frames_of i ms) s'))"
  using assms
proof (induction es arbitrary: k)
  case (Cons e es)
  obtain i s where e: "e = (i, s)" by fastforce
  have s: "stream_ok lim i s" using Cons.prems(2) e by simp
  obtain wf s' k1 ms where u: "stream_update so junk s k = Some (wf, s', k1)" "chan k1" "hist k1 = hist k @ ms" "stream_flushed lim i s ms s'"
    using stream_update_ok [OF s Cons.prems(1), of junk] by blast
  have i: "i \<notin> fst ` set es" "distinct (map fst es)" using Cons.prems(3) e by auto
  have "map_of es j = Some t \<Longrightarrow> stream_ok lim j t" for j t
    using Cons.prems(2) e i by (cases "j = i") (auto dest!: map_of_SomeD intro: rev_image_eqI)
  then obtain es' log k2 ms' where t: "tick_streams so junk False es k1 = Some (es', log, k2)" "chan k2" "hist k2 = hist k1 @ ms'" "map fst es' = map fst es"
    "list_all frame_ok ms'" "\<forall>m \<in> set ms'. frame_id m \<in> fst ` set es"
    "\<forall>i s. map_of es i = Some s \<longrightarrow> (\<exists>s'. map_of es' i = Some s' \<and> stream_flushed lim i s (frames_of i ms') s')"
    using Cons.IH [OF u(2) _ i(2)] by blast
  have f: "ms_state s' = SS_ESTABLISHED" "list_all frame_ok ms" "\<forall>m \<in> set ms. frame_id m = i"
    using u(4) by (auto simp: stream_flushed_def stream_ok_def)
  have "tick_streams so junk False (e # es) k = Some ((i, s') # es', tick_events wf s' @ log, k2)"
    using u(1) t(1) f(1) e by simp
  moreover have "\<exists>t'. map_of ((i, s') # es') j = Some t' \<and> stream_flushed lim j t (frames_of j (ms @ ms')) t'" if "map_of (e # es) j = Some t" for j t
  proof (cases "j = i")
    case True
    then have "frames_of i ms' = []" using t(6) i(1) by (intro frames_of_other) auto
    then show ?thesis using True that e u(4) frames_of_same [OF f(3)] by simp
  next
    case False
    then have "frames_of j ms = []" using f(3) by (intro frames_of_other) auto
    then show ?thesis using False that e t(7) by simp
  qed
  ultimately show ?case using u(3) t f e by (intro exI [of _ "(i, s') # es'"] exI [of _ "ms @ ms'"]) auto
qed simp

lemma do_tick_ok:
  assumes "mux_ok lim m" "chan k"
  shows "\<exists>m' k' ms. do_tick so junk m k = Some (m', k') \<and> mux_ok lim m' \<and> chan k' \<and> hist k' = hist k @ ms \<and> list_all frame_ok ms \<and>
    (\<forall>i. case map_of (mx_stream_map m) i of None \<Rightarrow> map_of (mx_stream_map m') i = None \<and> frames_of i ms = []
       | Some s \<Rightarrow> \<exists>s'. map_of (mx_stream_map m') i = Some s' \<and> stream_flushed lim i s (frames_of i ms) s')"
proof -
  let ?es = "mx_stream_map m"
  have m: "mx_outps m = []" "mx_so m" "\<forall>i s. map_of ?es i = Some s \<longrightarrow> stream_ok lim i s" "distinct (map fst ?es)"
    using assms(1) by (auto simp: mux_ok_def smap_ok_def strict_sorted_iff)
  obtain es' log k' ms where t: "tick_streams so junk False ?es k = Some (es', log, k')" "chan k'" "hist k' = hist k @ ms" "map fst es' = map fst ?es"
    "list_all frame_ok ms" "\<forall>m \<in> set ms. frame_id m \<in> fst ` set ?es"
    "\<forall>i s. map_of ?es i = Some s \<longrightarrow> (\<exists>s'. map_of es' i = Some s' \<and> stream_flushed lim i s (frames_of i ms) s')"
    using tick_streams_ok [OF assms(2) m(3,4), of junk] by blast
  let ?m = "m\<lparr> mx_outps := [], mx_stream_map := es', mx_log := mx_log m @ log \<rparr>"
  have d: "do_tick so junk m k = Some (?m, k')" using m(1,2) t(1) connected_law [OF assms(2)] by (simp add: do_tick_def)
  have none: "map_of es' i = None \<longleftrightarrow> map_of ?es i = None" for i
    using t(4) by (metis image_set map_of_eq_None_iff)
  have "stream_ok lim i s'" if s': "map_of es' i = Some s'" for i s'
  proof -
    obtain s where "map_of ?es i = Some s" using s' none [of i] by auto
    with t(7) s' have "stream_flushed lim i s (frames_of i ms) s'" by fastforce
    then show ?thesis by (simp add: stream_flushed_def)
  qed
  then have "mux_ok lim ?m" using assms(1) t(4) by (simp add: mux_ok_def smap_ok_def)
  moreover have "frames_of i ms = []" if "map_of ?es i = None" for i
    using that t(6) by (intro frames_of_other) (auto simp: map_of_eq_None_iff)
  ultimately show ?thesis using d t none by (intro exI [of _ ?m] exI [of _ k'] exI [of _ ms]) (auto split: option.splits)
qed

lemma packet_arrive_ok:
  assumes m: "mux_ok lim m" "chan k" and p: "pk_inv p" "pk_bytes p = f" "frame_ok f"
    and j: "joined (map_of (mx_stream_map m) (frame_id f)) wa ra qa sb wb rb (f # qb)"
  shows "\<exists>m' k' s'. packet_arrive so junk p m k = Some (m', k') \<and> mux_ok lim m' \<and> chan k' \<and> hist k' = hist k \<and>
    map_of (mx_stream_map m') = (map_of (mx_stream_map m))(frame_id f \<mapsto> s') \<and> takes f (map_of (mx_stream_map m) (frame_id f)) s'"
proof -
  let ?i = "frame_id f" and ?t = "frame_type f" and ?d = "frame_body f" and ?sm = "mx_stream_map m"
  have "f = mux_frame ?i ?t ?d" "?i \<noteq> 0" "?t < T_MUX_STREAM_MESSAGE_TYPE_MAX"
    using p(3) by (cases rule: frame_ok_cases; simp add: mux_types)+
  then have f: "f = mux_frame ?i ?t ?d" "?i \<noteq> 0" "\<not> T_MUX_STREAM_MESSAGE_TYPE_MAX \<le> ?t" by (simp_all only: not_le not_False_eq_True)
  then have pb: "pk_bytes p = write_impl ?i @ write_impl ?t @ ?d" using p(2) unfolding mux_frame_def by simp
  obtain k' where k: "mo_begin_read so k = Some k'" "chan k'" "hist k' = hist k" using read_law [OF m(2)] by blast
  obtain p1 where p1: "pk_read_T p = Some (?i, p1)" "pk_inv p1" "pk_bytes p1 = write_impl ?t @ ?d"
    using pk_read_T_ok [OF p(1), where t = ?i and rest = "write_impl ?t @ ?d", OF pb] by auto
  obtain p2 where p2: "pk_read_T p1 = Some (?t, p2)" "pk_inv p2" "pk_bytes p2 = ?d"
    using pk_read_T_ok [OF p1(2,3)] by auto
  have st: "mx_mux_state m = SOCKET_ATTACHED" using m(1) by (simp add: mux_ok_def)
  have "6 \<le> pk_m_write_idx p - pk_m_read_idx p" using pk_len_ok(2) [OF p(1)] pb by (simp add: word_le_unat)
  then have start: "packet_arrive so junk p m k =
      (if ?t = T_SYN then arrive_syn so junk ?i p2 m k'
       else case map_of ?sm ?i of
         None \<Rightarrow> if ?t = T_RST then Some (m, k') else stream_snd_rst so junk ?i m k'
       | Some s \<Rightarrow>
           if ?t = T_DATA then arrive_data so junk ?i p2 s m k'
           else if ?t = T_FIN then do {
             wawo_assert (ms_ctx s \<noteq> None);
             Some (mux_note (Mux_trigger T_FIN ?i (ms_ctx s)) m, k') }
           else if ?t = T_RST then Some (mux_put ?i (force_close s) m, k')
           else if ?t = T_UWND then do { m \<leftarrow> arrive_uwnd ?i p2 s m; Some (m, k') }
           else Some (m, k'))"
    using k(1) st p1(1) p2(1) f(2,3) pk_len_ok(1) [OF p(1)] by (simp add: packet_arrive_def)
  note len = pk_len_ok [OF p2(2)]
  show ?thesis
    using p(3)
  proof (cases rule: frame_ok_cases)
    case (syn i)
    then have n: "map_of ?sm i = None" using joined_arrive(2) [OF j] by simp
    obtain s where s: "stream_init junk = Some s" "fresh_stream s" "ms_flag s = 0" "ms_ctx s = None"
      "\<forall>i c f. i \<noteq> 0 \<and> f \<in> {0, 32} \<longrightarrow> stream_ok lim i (s\<lparr> ms_id := i, ms_state := SS_ESTABLISHED, ms_ctx := c, ms_flag := f \<rparr>)"
      by (rule stream_init_ok [of junk])
    let ?s = "s\<lparr> ms_state := SS_ESTABLISHED, ms_id := i \<rparr>" and ?m = "m\<lparr> mx_stream_map := smap_insert i (s\<lparr> ms_state := SS_ESTABLISHED, ms_id := i \<rparr>) ?sm \<rparr>"
    have ok: "stream_ok lim i ?s" using s(5) [rule_format, of i 0 None] syn(2) s(3,4) by (simp add: stream_ok_def)
    have "packet_arrive so junk p m k = Some (mux_note (Mux_trigger T_ACCEPTED i None) ?m, k')"
      using start syn(1) n s(1,4) len p2(3) by (simp add: arrive_syn_def unat_eq_0)
    moreover have "mux_ok lim (mux_note (Mux_trigger T_ACCEPTED i None) ?m)"
      using mux_ok_insert [OF m(1) n ok] by (simp add: mux_ok_def)
    moreover have "takes f None ?s" using syn(1) s(2,3) by (simp add: takes_def fresh_stream_def has_flag_def del: fresh_parts)
    moreover have "map_of (smap_insert i ?s ?sm) = (map_of ?sm)(i \<mapsto> ?s)" using m(1) n by (simp add: mux_ok_def smap_insert_look)
    ultimately show ?thesis using k(2,3) n syn(1) by auto
  next
    case (data i d)
    then obtain s where s: "map_of ?sm i = Some s" using joined_arrive(2) [OF j] by auto
    have ok: "stream_ok lim i s" using m(1) s by (simp add: mux_ok_def)
    then have inv: "rb_inv (ms_rb s)" "rb_capacity (ms_rb s) = MUX_STREAM_WND_SIZE" by (simp_all add: stream_ok_def)
    have room: "length (rb_list (ms_rb s)) + length d \<le> 262144" using j data(1) s joined_data(1) by simp
    have d: "pk_m_write_idx p2 - pk_m_read_idx p2 = of_nat (length d)" using len(2) p2(3) data(1,4) by (simp add: word_eq_unat unat_of_nat_nowrap)
    obtain b where b: "rb_write (ms_rb s) d (of_nat (length d)) = Some (of_nat (length d), b)" "rb_inv b" "rb_list b = rb_list (ms_rb s) @ d"
      "rb_capacity b = MUX_STREAM_WND_SIZE"
      by (rule rb_write_all [OF inv(1), of "length d" d]) (use data room inv(2) in \<open>simp_all add: MUX_STREAM_WND_SIZE_def\<close>)
    have le: "of_nat (length d) \<le> rb_left_capacity (ms_rb s)"
      using rb_left_capacity_list [OF inv(1)] inv(2) room by (simp add: word_le_unat unat_of_nat_nowrap MUX_STREAM_WND_SIZE_def)
    let ?s = "s\<lparr> ms_rb := b \<rparr>"
    have "packet_arrive so junk p m k = Some (mux_note (Mux_trigger T_DATA i (ms_ctx s)) (mux_put i ?s m), k')"
      using start data(1) s len(1) d le b(1) p2 stream_ok_flags(1) [OF ok] by (simp add: arrive_data_def pk_content_ok)
    moreover have "mux_ok lim (mux_put i ?s m)" using m(1) s stream_ok_fields(2) [OF ok b(2,4)] by (intro mux_ok_put) simp_all
    then have "mux_ok lim (mux_note (Mux_trigger T_DATA i (ms_ctx s)) (mux_put i ?s m))" by (simp add: mux_ok_def)
    moreover have "takes f (Some s) ?s" using data(1) b(3) by (auto simp: takes_def)
    ultimately show ?thesis using k(2,3) s data(1) by auto
  next
    case (uwnd i w)
    then obtain s where s: "map_of ?sm i = Some s" using joined_arrive(2) [OF j] by auto
    have ok: "stream_ok lim i s" using m(1) s by (simp add: mux_ok_def)
    obtain p3 where p3: "pk_read_T p2 = Some (w, p3)"
      using pk_read_T_ok [OF p2(2), where t = w and rest = "[]"] p2(3) uwnd(1) by auto
    let ?s = "s\<lparr> ms_wb_wnd := WAWO_MIN MUX_STREAM_WND_SIZE (ms_wb_wnd s + w) \<rparr>"
    have d: "pk_m_write_idx p2 - pk_m_read_idx p2 = 4" using len(2) p2(3) uwnd(1) by (simp add: word_eq_unat)
    have "packet_arrive so junk p m k = Some (mux_put i ?s m, k')"
      using start uwnd(1) s len(1) d p3 by (simp add: arrive_uwnd_def mux_types)
    moreover have "mux_ok lim (mux_put i ?s m)"
      using m(1) s joined_uwnd(1,2) j uwnd(1) by (intro mux_ok_put) (auto intro!: stream_ok_fields(5) [OF ok])
    moreover have "takes f (Some s) ?s" using uwnd(1) by (auto simp: takes_def)
    ultimately show ?thesis using k(2,3) s uwnd(1) by auto
  qed
qed

end

section \<open>The invariant\<close>

definition in_flight :: "('k \<Rightarrow> bytes list) \<Rightarrow> 'k mux_end \<Rightarrow> 'k mux_end \<Rightarrow> bytes list" where
  "in_flight hist a b = drop (me_in b) (hist (me_so a))"

definition stream_joined :: "('k \<Rightarrow> bytes list) \<Rightarrow> 'k mux_end \<Rightarrow> 'k mux_end \<Rightarrow> stream_id_t \<Rightarrow> bool" where
  "stream_joined hist a b i \<longleftrightarrow> joined (me_look a i) (me_wrote a i) (me_read a i) (frames_of i (in_flight hist a b))
     (me_look b i) (me_wrote b i) (me_read b i) (frames_of i (in_flight hist b a))"

definition end_ok :: "('k \<Rightarrow> bool) \<Rightarrow> ('k \<Rightarrow> bytes list) \<Rightarrow> nat \<Rightarrow> 'k mux_end \<Rightarrow> 'k mux_end \<Rightarrow> bool" where
  "end_ok chan hist lim a b \<longleftrightarrow> mux_ok lim (me_mux a) \<and> chan (me_so a) \<and> list_all frame_ok (hist (me_so a)) \<and> me_in b \<le> length (hist (me_so a))"

definition mux_inv :: "('k \<Rightarrow> bool) \<Rightarrow> ('k \<Rightarrow> bytes list) \<Rightarrow> nat \<Rightarrow> 'k mux_end \<Rightarrow> 'k mux_end \<Rightarrow> bool" where
  "mux_inv chan hist lim a b \<longleftrightarrow> end_ok chan hist lim a b \<and> end_ok chan hist lim b a \<and> (\<forall>i. stream_joined hist a b i)"

lemma mux_inv_swap: "mux_inv chan hist lim a b \<Longrightarrow> mux_inv chan hist lim b a"
  by (auto simp: mux_inv_def stream_joined_def intro: joined_swap)

text \<open>A call of the user changes one stream and leaves the channel alone.\<close>

lemma mux_inv_user:
  assumes "mux_inv chan hist lim a b" "mux_ok lim m" "\<forall>j. j \<noteq> i \<longrightarrow> map_of (mx_stream_map m) j = me_look a j"
    "joined (map_of (mx_stream_map m) i) w r (frames_of i (in_flight hist a b)) (me_look b i) (me_wrote b i) (me_read b i) (frames_of i (in_flight hist b a))"
  shows "mux_inv chan hist lim (a\<lparr> me_mux := m, me_wrote := (me_wrote a)(i := w), me_read := (me_read a)(i := r) \<rparr>) b"
  using assms by (auto simp: mux_inv_def end_ok_def stream_joined_def in_flight_def)

lemma mux_inv_put:
  assumes inv: "mux_inv chan hist lim a b" and s: "me_look a i = Some s" "stream_ok lim i s'"
    and j: "joined (Some s') w r (frames_of i (in_flight hist a b)) (me_look b i) (me_wrote b i) (me_read b i) (frames_of i (in_flight hist b a))"
  shows "mux_inv chan hist lim (a\<lparr> me_mux := mux_put i s' (me_mux a), me_wrote := (me_wrote a)(i := w), me_read := (me_read a)(i := r) \<rparr>) b"
proof (rule mux_inv_user [OF inv])
  show "mux_ok lim (mux_put i s' (me_mux a))" using inv s by (intro mux_ok_put) (auto simp: mux_inv_def end_ok_def)
qed (use s j in simp_all)

lemma mux_inv_open:
  assumes inv: "mux_inv chan hist lim a b" and i: "i \<noteq> 0" "me_look b i = None" and op: "mux_stream_open junk i ctx (me_mux a) = Some (st, rt, m)"
  shows "mux_inv chan hist lim (a\<lparr> me_mux := m \<rparr>) b"
proof -
  have m: "mux_ok lim (me_mux a)" "stream_joined hist a b i" using inv by (simp_all add: mux_inv_def end_ok_def)
  show ?thesis
  proof (cases "me_look a i")
    case (Some s)
    then have "m = me_mux a" using op m(1) by (simp add: mux_stream_open_def mux_ok_def)
    then show ?thesis using inv by simp
  next
    case None
    obtain s where s: "stream_init junk = Some s" "ms_flag s = 0" "ms_ctx s = None" "ms_state s = SS_CLOSED" "ms_id s = 0" "fresh_stream s"
      "\<forall>i c f. i \<noteq> 0 \<and> f \<in> {0, 32} \<longrightarrow> stream_ok lim i (s\<lparr> ms_id := i, ms_state := SS_ESTABLISHED, ms_ctx := c, ms_flag := f \<rparr>)"
      by (rule stream_init_ok [of junk])
    let ?s = "s\<lparr> ms_id := i, ms_state := SS_ESTABLISHED, ms_ctx := ctx, ms_flag := STREAM_PLAN_SYN \<rparr>"
    have e: "m = (me_mux a)\<lparr> mx_stream_map := smap_insert i ?s (mx_stream_map (me_mux a)) \<rparr>"
      using op m(1) None s(1-5)
      by (simp add: mux_stream_open_def mux_ok_def stream_open_def snd_syn_def has_flag_def split: if_splits)
    have ok: "stream_ok lim i ?s" using s(7) i(1) by (simp add: STREAM_PLAN_SYN_def)
    have look: "map_of (mx_stream_map m) = (map_of (mx_stream_map (me_mux a)))(i \<mapsto> ?s)"
      using m(1) None e by (simp add: mux_ok_def smap_insert_look)
    have "joined (Some ?s) (me_wrote a i) (me_read a i) (frames_of i (in_flight hist a b)) None (me_wrote b i) (me_read b i) (frames_of i (in_flight hist b a))"
      using m(2) None i(2) s(6) by (intro joined_open) (simp_all add: stream_joined_def fresh_stream_def has_flag_def STREAM_PLAN_SYN_def del: fresh_parts)
    then have "mux_inv chan hist lim (a\<lparr> me_mux := m, me_wrote := (me_wrote a)(i := me_wrote a i), me_read := (me_read a)(i := me_read a i) \<rparr>) b"
      using mux_ok_insert [OF m(1) None ok] e look i(2) by (intro mux_inv_user [OF inv]) simp_all
    then show ?thesis by simp
  qed
qed

context packet_channel
begin

lemma mux_inv_tick:
  assumes "mux_inv chan hist lim a b" "do_tick so junk (me_mux a) (me_so a) = Some (m, k)"
  shows "mux_inv chan hist lim (a\<lparr> me_mux := m, me_so := k \<rparr>) b"
proof -
  let ?a = "a\<lparr> me_mux := m, me_so := k \<rparr>"
  have a: "mux_ok lim (me_mux a)" "chan (me_so a)" "me_in b \<le> length (hist (me_so a))" using assms(1) by (simp_all add: mux_inv_def end_ok_def)
  obtain ms where t: "mux_ok lim m" "chan k" "hist k = hist (me_so a) @ ms" "list_all frame_ok ms"
    "\<forall>i. case me_look a i of None \<Rightarrow> map_of (mx_stream_map m) i = None \<and> frames_of i ms = []
       | Some s \<Rightarrow> \<exists>s'. map_of (mx_stream_map m) i = Some s' \<and> stream_flushed lim i s (frames_of i ms) s'"
    using do_tick_ok [OF a(1,2), of junk] assms(2) by auto
  have fl: "in_flight hist ?a b = in_flight hist a b @ ms" "in_flight hist b ?a = in_flight hist b a" using a(3) t(3) by (simp_all add: in_flight_def)
  have "stream_joined hist ?a b i" for i
  proof -
    have sj: "stream_joined hist a b i" using assms(1) by (simp add: mux_inv_def)
    show ?thesis
    proof (cases "me_look a i")
      case None
      then have "map_of (mx_stream_map m) i = None" "frames_of i ms = []" using t(5) [rule_format, of i] by simp_all
      then show ?thesis using sj None fl by (simp add: stream_joined_def)
    next
      case (Some s)
      then obtain s' where s': "map_of (mx_stream_map m) i = Some s'" "stream_flushed lim i s (frames_of i ms) s'" using t(5) [rule_format, of i] by auto
      have "stream_ok lim i s" using a(1) Some by (simp add: mux_ok_def)
      then show ?thesis
        using joined_flush [OF s'(2)] sj s'(1) Some fl by (simp add: stream_joined_def)
    qed
  qed
  then show ?thesis using assms(1) t by (auto simp: mux_inv_def end_ok_def)
qed

lemma mux_arrive_ok:
  assumes inv: "mux_inv chan hist lim a b" and p: "me_in a < length (hist (me_so b))" "pk_inv p" "pk_bytes p = hist (me_so b) ! me_in a"
  shows "\<exists>m k. packet_arrive so junk p (me_mux a) (me_so a) = Some (m, k) \<and> mux_inv chan hist lim (a\<lparr> me_mux := m, me_so := k, me_in := Suc (me_in a) \<rparr>) b"
proof -
  let ?f = "hist (me_so b) ! me_in a"
  have a: "mux_ok lim (me_mux a)" "chan (me_so a)" "frame_ok ?f"
    using inv p(1) by (simp_all add: mux_inv_def end_ok_def list_all_length)
  have d: "in_flight hist b a = ?f # drop (Suc (me_in a)) (hist (me_so b))" using p(1) by (simp add: in_flight_def Cons_nth_drop_Suc)
  let ?i = "frame_id ?f" and ?q = "drop (Suc (me_in a)) (hist (me_so b))"
  have j: "joined (me_look a ?i) (me_wrote a ?i) (me_read a ?i) (frames_of ?i (in_flight hist a b))
      (me_look b ?i) (me_wrote b ?i) (me_read b ?i) (?f # frames_of ?i ?q)"
    using inv d unfolding mux_inv_def stream_joined_def by (metis frames_simps(3))
  obtain m k s' where r: "packet_arrive so junk p (me_mux a) (me_so a) = Some (m, k)" "mux_ok lim m" "chan k" "hist k = hist (me_so a)"
    "map_of (mx_stream_map m) = (map_of (mx_stream_map (me_mux a)))(?i \<mapsto> s')" "takes ?f (me_look a ?i) s'"
    using packet_arrive_ok [OF a(1,2) p(2,3) a(3) j, of junk] by blast
  let ?a = "a\<lparr> me_mux := m, me_so := k, me_in := Suc (me_in a) \<rparr>"
  have fl: "in_flight hist ?a b = in_flight hist a b" "in_flight hist b ?a = ?q" using r(4) by (simp_all add: in_flight_def)
  have "stream_joined hist ?a b i" for i
  proof (cases "i = ?i")
    case True
    then show ?thesis using joined_takes [OF j r(6) a(3)] r(5) fl by (simp add: stream_joined_def)
  next
    case False
    then have "stream_joined hist a b i" "frames_of i (in_flight hist b a) = frames_of i ?q" using inv d by (simp_all add: mux_inv_def)
    then show ?thesis using False r(5) fl by (simp add: stream_joined_def)
  qed
  moreover have "end_ok chan hist lim ?a b" "end_ok chan hist lim b ?a" using inv r(2-4) p(1) by (simp_all add: mux_inv_def end_ok_def)
  ultimately show ?thesis using r(1) by (auto simp: mux_inv_def)
qed

lemma mux_inv_reach: "mux_reach so chan hist lim a b \<Longrightarrow> mux_inv chan hist lim a b"
proof (induction rule: mux_reach.induct)
  case (start k k')
  then show ?case
    by (simp add: mux_inv_def end_ok_def new_mux_end_def mux_ok_def mux_start_def mux_new_def smap_ok_def stream_joined_def in_flight_def
      joined_def one_way_def)
next
  case (wrote a b i s p rt s')
  have s: "stream_ok lim i s" "stream_joined hist a b i" using wrote.IH wrote.hyps(2) by (simp_all add: mux_inv_def end_ok_def mux_ok_def)
  obtain wb fl where w: "s' = s\<lparr> ms_wb := wb, ms_write_flag := fl \<rparr>" "stream_ok lim i s'" "rb_list wb = rb_list (ms_wb s) @ (if rt = OK then pk_bytes p else [])"
    by (rule stream_write_ok [OF s(1) wrote.hyps(3,5,4)])
  have "mux_inv chan hist lim (a\<lparr> me_mux := mux_put i s' (me_mux a), me_wrote := (me_wrote a)(i := me_wrote a i @ (if rt = OK then pk_bytes p else [])),
      me_read := (me_read a)(i := me_read a i) \<rparr>) b"
    using s(2) wrote.hyps(2) unfolding stream_joined_def w(1)
    by (intro mux_inv_put [OF wrote.IH wrote.hyps(2) w(2) [unfolded w(1)]] joined_write [OF _ w(3)]) simp
  then show ?case by simp
next
  case (reads a b i s junk mx n p s')
  have s: "stream_ok lim i s" "stream_joined hist a b i" using reads.IH reads.hyps(2) by (simp_all add: mux_inv_def end_ok_def mux_ok_def)
  obtain n' p' d rb where r: "stream_read junk mx s = Some (n', p', s\<lparr> ms_rb := rb, ms_rb_incre := ms_rb_incre s + n' \<rparr>)"
    "d = (case p' of None \<Rightarrow> [] | Some p \<Rightarrow> pk_bytes p)" "rb_list (ms_rb s) = d @ rb_list rb" "unat n' = length d" "stream_ok lim i (s\<lparr> ms_rb := rb \<rparr>)"
    by (rule stream_read_ok [OF s(1)])
  let ?s = "s\<lparr> ms_rb := rb, ms_rb_incre := ms_rb_incre s + n' \<rparr>"
  have e: "s' = ?s" "p = p'" using r(1) reads.hyps(3) by simp_all
  have ok: "stream_ok lim i ?s" using stream_ok_fields(1) [OF r(5), of "ms_rb_incre s + n'"] by simp
  have "mux_inv chan hist lim (a\<lparr> me_mux := mux_put i ?s (me_mux a), me_wrote := (me_wrote a)(i := me_wrote a i), me_read := (me_read a)(i := me_read a i @ d) \<rparr>) b"
    using s(2) reads.hyps(2) unfolding stream_joined_def
    by (intro mux_inv_put [OF reads.IH reads.hyps(2) ok] joined_read [OF _ r(3,4)]) simp
  then show ?case unfolding e r(2) by simp
next
  case (arrive a b p junk m k)
  then show ?case using mux_arrive_ok [OF arrive.IH arrive.hyps(2-4), of junk] by auto
next
  case (other a b k)
  then show ?case by (auto simp: mux_inv_def end_ok_def stream_joined_def in_flight_def)
qed (auto intro: mux_inv_swap mux_inv_open mux_inv_tick)

end

end
