(* ===== verification/Socket_Output.thy ===== *)
theory Socket_Output
  imports Socket_Send_Props
begin

text \<open>
  Every sequence of sends, flushes and write events on a connected socket over the system calls, with whatever the kernel answers.
\<close>

section \<open>A new socket\<close>

lemma socket_fd_ok:
  assumes "fd > 0" "sbc_ok rcv_sz snd_sz"
  obtains s where "socket_fd junk fd addr sm rcv_sz snd_sz fam ty pr opt = Some s" "so_inv s" "rb_list (sk_m_sb s) = []" "rb_list (sk_m_rb s) = []"
    "sk_m_sm s = sm" "sk_m_option s = opt" "sk_m_fd s = fd" "sk_m_state s = S_CONNECTED" "sk_m_rflag s = 0" "sk_m_wflag s = 0" "sk_log s = []"
    "sk_rcv_size s = rcv_sz" "sk_snd_size s = snd_sz" "sk_m_rps_q s = []" "sk_m_rps_q_standby s = []" "sk_m_tlp s = None"
proof -
  have b: "MIN_RING_BUFFER_SIZE \<le> rcv_sz" "rcv_sz \<le> MAX_RING_BUFFER_SIZE" "MIN_RING_BUFFER_SIZE \<le> snd_sz" "snd_sz \<le> MAX_RING_BUFFER_SIZE"
    using assms(2) by (simp_all add: sbc_ok_def word_le_unat SOCK_MAX_SIZE_def SOCK_MIN_SIZE_def MIN_RING_BUFFER_SIZE_def MAX_RING_BUFFER_SIZE_def)
  obtain rb where r: "bytes_ringbuffer_new junk rcv_sz = Some rb" "rb_inv rb" "rb_list rb = []" "rb_capacity rb = rcv_sz"
    by (rule bytes_ringbuffer_new_ok [OF b(1,2)])
  obtain sb where w: "bytes_ringbuffer_new junk snd_sz = Some sb" "rb_inv sb" "rb_list sb = []" "rb_capacity sb = snd_sz"
    by (rule bytes_ringbuffer_new_ok [OF b(3,4)])
  show ?thesis
    by (rule that, use assms r w in \<open>simp add: socket_fd_def socket_base_fd_def socket_init_def sbc_ok_def\<close>)
      (use assms r w in \<open>simp_all add: so_inv_def socket_base.defs socket.defs\<close>)
qed

section \<open>Runs\<close>

text \<open>\<open>Answers\<close>: the kernel can take more. A send records the bytes the caller was told were sent.\<close>

datatype out_op = Send bytes u32 u64 | Flush int "u64 list" | Writeable u64 | Answers "snd_answer list"

fun out_step :: "out_op \<Rightarrow> 't socket \<Rightarrow> kernel \<Rightarrow> (bytes \<times> 't socket \<times> kernel) option" where
  "out_step (Send d flag now) s k = do { (n, ec, s, k) \<leftarrow> so_send standard_fns now d 0 flag s k; Some (take (unat n) d, s, k) }"
| "out_step (Flush block_time clock) s k = do { (r, s, k) \<leftarrow> so_flush standard_fns block_time clock 0 s k; Some ([], s, k) }"
| "out_step (Writeable now) s k = do { (ec, s, k) \<leftarrow> handle_async_write standard_fns now s k; Some ([], s, k) }"
| "out_step (Answers as) s k = Some ([], s, k\<lparr> k_snd := k_snd k @ as \<rparr>)"

primrec out_run :: "out_op list \<Rightarrow> 't socket \<Rightarrow> kernel \<Rightarrow> (bytes \<times> 't socket \<times> kernel) option" where
  "out_run [] s k = Some ([], s, k)"
| "out_run (p # ps) s k = do { (d, s, k) \<leftarrow> out_step p s k; (e, s, k) \<leftarrow> out_run ps s k; Some (d @ e, s, k) }"

primrec out_op_ok :: "u32 \<Rightarrow> out_op \<Rightarrow> bool" where
  "out_op_ok n (Send d flag now) \<longleftrightarrow> d \<noteq> [] \<and> length d \<le> unat n \<and> now \<noteq> 0"
| "out_op_ok n (Flush block_time clock) \<longleftrightarrow> True"
| "out_op_ok n (Writeable now) \<longleftrightarrow> now \<noteq> 0"
| "out_op_ok n (Answers as) \<longleftrightarrow> list_all snd_answer_ok as"

definition streams :: "bytes \<Rightarrow> 't socket \<Rightarrow> kernel \<Rightarrow> 't socket \<Rightarrow> kernel \<Rightarrow> bool" where
  "streams d s k s' k' \<longleftrightarrow> so_live s' \<and> kernel_ok k' \<and> sk_snd_size s' = sk_snd_size s \<and>
     k_out k' @ rb_list (sk_m_sb s') = k_out k @ rb_list (sk_m_sb s) @ d"

lemma streams_puts: "tcp.puts d s k s' k' \<Longrightarrow> streams d s k s' k'"
  by (auto simp: tcp.puts_def streams_def out_only_same)

lemma out_step_ok:
  assumes "so_live s" "kernel_ok k" "out_op_ok (sk_snd_size s) p"
  shows "\<exists>d s' k'. out_step p s k = Some (d, s', k') \<and> streams d s k s' k'"
proof (cases p)
  case (Send d flag now)
  then obtain n ec s' k' where "so_send standard_fns now d 0 flag s k = Some (n, ec, s', k')" "tcp.puts (take (unat n) d) s k s' k'"
    using tcp.send_ok [OF assms(1,2), of d now 0 flag] assms(3) by auto
  then show ?thesis using Send streams_puts by auto
next
  case (Flush block_time clock)
  then show ?thesis using tcp.so_flush_ok [OF assms(1,2), of block_time clock 0] streams_puts by fastforce
next
  case (Writeable now)
  then show ?thesis using tcp.handle_async_write_ok [OF assms(1,2), of now] assms(3) streams_puts by fastforce
next
  case (Answers as)
  then show ?thesis using assms by (simp add: streams_def kernel_ok_def)
qed

text \<open>
  C18: Whatever is sent on a connected non-blocking socket, flushed, or written when the descriptor becomes writeable, and however little the kernel takes
  at a time or fails: no operation throws, and the bytes the kernel has accepted followed by those in the send buffer are exactly
  the bytes the callers were told were sent, in order.
\<close>

theorem socket_output_stream:
  assumes "so_live s" "kernel_ok k" "list_all (out_op_ok (sk_snd_size s)) ps"
  shows "\<exists>d s' k'. out_run ps s k = Some (d, s', k') \<and> so_live s' \<and>
    k_out k' @ rb_list (sk_m_sb s') = k_out k @ rb_list (sk_m_sb s) @ d"
proof -
  have "\<exists>d s' k'. out_run ps s k = Some (d, s', k') \<and> streams d s k s' k'"
    using assms
  proof (induction ps arbitrary: s k)
    case Nil
    then show ?case by (simp add: streams_def)
  next
    case (Cons p ps)
    then obtain d s1 k1 where d: "out_step p s k = Some (d, s1, k1)" "streams d s k s1 k1" using out_step_ok [of s k p] by auto
    then obtain e s2 k2 where e: "out_run ps s1 k1 = Some (e, s2, k2)" "streams e s1 k1 s2 k2"
      using Cons.IH [of s1 k1] Cons.prems(3) by (auto simp: streams_def)
    have "streams (d @ e) s k s2 k2" using d(2) e(2) by (simp add: streams_def)
    then show ?case using d(1) e(1) by simp
  qed
  then show ?thesis by (auto simp: streams_def)
qed

text \<open>A socket on which five bytes are sent to a kernel that takes two of them, refuses, and takes the rest later.\<close>

definition sample_kernel :: kernel where
  "sample_kernel = \<lparr> k_ret = [], k_snd = [Room 2, SndFail EWOULDBLOCK], k_out = [], k_rcv = [], k_dgram = [], k_dgram_out = [], k_acc = [] \<rparr>"

lemma sample_live_socket:
  obtains s :: "'t socket" where "so_live s" "rb_list (sk_m_sb s) = []" "rb_list (sk_m_rb s) = []" "sk_snd_size s = 4096" "sk_rcv_size s = 4096"
    "sk_m_rflag s = 0" "sk_m_wflag s = 0" "sk_m_rps_q s = []" "sk_m_rps_q_standby s = []" "sk_log s = []" "sk_m_tlp s = None"
proof -
  have c: "sbc_ok 4096 4096" by (simp add: sbc_ok_def SOCK_MAX_SIZE_def SOCK_MIN_SIZE_def)
  obtain s :: "'t socket" where s: "so_inv s" "rb_list (sk_m_sb s) = []" "rb_list (sk_m_rb s) = []"
    "sk_m_sm s = SM_ACTIVE" "sk_m_option s = OPTION_NON_BLOCKING" "sk_m_fd s = 3" "sk_m_state s = S_CONNECTED" "sk_m_rflag s = 0" "sk_m_wflag s = 0"
    "sk_log s = []" "sk_rcv_size s = 4096" "sk_snd_size s = 4096" "sk_m_rps_q s = []" "sk_m_rps_q_standby s = []" "sk_m_tlp s = None"
    by (rule socket_fd_ok [of 3 4096 4096 "\<lambda>_. 0" 0 SM_ACTIVE F_AF_INET ST_STREAM P_TCP OPTION_NON_BLOCKING]) (use c in simp_all)
  then have "so_live s"
    by (simp add: so_live_def is_nonblocking_def is_data_socket_def has_flag_def OPTION_NON_BLOCKING_def)
  with s show ?thesis by (intro that) simp_all
qed

theorem socket_output_stream_witness:
  "\<exists>(s :: unit socket) d s' k'. so_live s \<and>
    out_run [Send [1, 2, 3, 4, 5] 0 7, Send [6] F_SEND_USE_SND_BUFFER 8, Answers [Room 9], Writeable 9] s sample_kernel = Some (d, s', k') \<and>
    k_out k' @ rb_list (sk_m_sb s') = d"
proof -
  obtain s :: "unit socket" where s: "so_live s" "rb_list (sk_m_sb s) = []" "sk_snd_size s = 4096" by (rule sample_live_socket)
  have k: "kernel_ok sample_kernel" "k_out sample_kernel = []" by (simp_all add: kernel_ok_def sample_kernel_def EWOULDBLOCK_def)
  show ?thesis
    using socket_output_stream [OF s(1) k(1), of "[Send [1, 2, 3, 4, 5] 0 7, Send [6] F_SEND_USE_SND_BUFFER 8, Answers [Room 9], Writeable 9]"] s k
    by auto
qed

end
