(* ===== verification/Socket_Recv_Props.thy ===== *)
theory Socket_Recv_Props
  imports Socket_Send_Props Hlen_Link
begin

text \<open>
  The input side of a socket that runs hlen_packet: a read event takes everything the layer below has, and the
  packets go to the listeners in the order in which they were sent. The loops of \<open>_receive_packets\<close> and \<open>handle_async_read\<close> are shown to end.
\<close>

section \<open>The parser\<close>

lemma hlen_parse_shrinks:
  "hlen_parse cap room h bs = Some (ms, ec, h', bs') \<Longrightarrow> length bs' + length (concat ms) \<le> length bs"
proof (induction cap room h bs arbitrary: ms ec h' bs' rule: hlen_parse.induct)
  case (1 cap room h bs)
  show ?case
  proof (cases "m_parse_state h")
    case S_READ_LEN
    then show ?thesis using 1(1) [OF S_READ_LEN] 1(3)
      by (force simp: hlen_parse.simps [of _ _ h] Let_def split: if_splits)
  next
    case S_READ_CONTENT
    then show ?thesis using 1(2) [OF S_READ_CONTENT] 1(3)
      by (fastforce simp: hlen_parse.simps [of _ _ h] split: if_splits)
  qed
qed

text \<open>OK: the parser is waiting for bytes that are not there.\<close>

lemma hlen_parse_waits:
  "hlen_parse cap room h bs = Some (ms, OK, h', bs') \<Longrightarrow>
   length bs' < (case m_parse_state h' of S_READ_LEN \<Rightarrow> 4 | S_READ_CONTENT \<Rightarrow> unat (m_size h'))"
proof (induction cap room h bs arbitrary: ms h' bs' rule: hlen_parse.induct)
  case (1 cap room h bs)
  show ?case
  proof (cases "m_parse_state h")
    case S_READ_LEN
    then show ?thesis using 1(1) [OF S_READ_LEN] 1(3)
      by (force simp: hlen_parse.simps [of _ _ h] Let_def error_codes split: if_splits)
  next
    case S_READ_CONTENT
    then show ?thesis using 1(2) [OF S_READ_CONTENT] 1(3)
      by (fastforce simp: hlen_parse.simps [of _ _ h] error_codes split: if_splits)
  qed
qed

lemma hlen_decode_wire:
  assumes "rb_inv rb" "rb_list rb @ rest = hl_wire h ms" "hl_fits h ms" "msgs_ok (unat (rb_capacity rb)) ms"
  shows "\<exists>arrives ec h' rb' ms'. hlen_decode_packets junk h rb n = Some (arrives, ec, h', rb') \<and> ms = map pk_bytes arrives @ ms' \<and>
    rb_inv rb' \<and> rb_capacity rb' = rb_capacity rb \<and> rb_list rb' @ rest = hl_wire h' ms' \<and> hl_fits h' ms' \<and>
    length (rb_list rb') + length (concat (map pk_bytes arrives)) \<le> length (rb_list rb) \<and>
    (ec = OK \<and> (rest = [] \<longrightarrow> ms' = []) \<and> length (rb_list rb') < unat (rb_capacity rb) \<or> ec = E_TLP_TRY_AGAIN \<and> length arrives = unat n)"
proof -
  obtain ms1 ms2 ec h' bs where f: "hlen_parse (unat (rb_capacity rb)) (unat n) h (rb_list rb) = Some (ms1, ec, h', bs)"
    "ms = ms1 @ ms2" "bs @ rest = hl_wire h' ms2" "hl_fits h' ms2"
    "ec = OK \<and> (rest = [] \<longrightarrow> ms2 = []) \<or> ec = E_TLP_TRY_AGAIN \<and> length ms1 = unat n"
    using parse_wire [OF assms(2-4), of "unat n"] unfolding parse_fine_def by blast
  obtain ps rb' where r: "hlen_loop junk n (h, rb, [], OK) = Some (h', rb', ps, ec)"
    "map pk_bytes ps = ms1" "rb_inv rb'" "rb_list rb' = bs" "rb_capacity rb' = rb_capacity rb"
    using hlen_loop_parse [OF assms(1), of "[]" n junk h] f(1) by (auto simp: loop_ok_def)
  have "length bs < unat (rb_capacity rb)" if "ec = OK"
  proof -
    have "length bs < (case m_parse_state h' of S_READ_LEN \<Rightarrow> 4 | S_READ_CONTENT \<Rightarrow> unat (m_size h'))"
      using hlen_parse_waits f(1) that by blast
    moreover have "m_parse_state h' = S_READ_CONTENT \<Longrightarrow> unat (m_size h') \<le> unat (rb_capacity rb)"
      using f(2,4) assms(4) by (cases ms2) (auto simp: hl_fits_def)
    moreover have "4 \<le> unat (rb_capacity rb)" using rb_inv_bounds [OF assms(1)] unat_rb_capacity [OF assms(1)] by simp
    ultimately show ?thesis by (auto split: packetParseState.splits)
  qed
  moreover have "length ps = length ms1" using r(2) by (metis length_map)
  ultimately show ?thesis
    using r f hlen_parse_shrinks [OF f(1)] unfolding hlen_decode_packets_def
    by (intro exI [of _ ps] exI [of _ ec] exI [of _ h'] exI [of _ rb'] exI [of _ ms2]) auto
qed

lemma hl_wire_nil: "hl_wire h ms = [] \<Longrightarrow> hl_fits h ms \<Longrightarrow> msgs_ok cap ms \<Longrightarrow> ms = []"
  by (cases "m_parse_state h"; cases ms) (auto simp: hl_wire_def hl_fits_def hl_frame_def)

section \<open>Pumping\<close>

text \<open>A live socket that may read, with what waits to be read.\<close>

definition so_reads :: "'t socket \<Rightarrow> bool" where
  "so_reads s \<longleftrightarrow> so_live s \<and> \<not> has_flag (sk_m_rflag s) SHUTDOWN_RD"

lemma so_reads_step:
  "so_reads s \<Longrightarrow> rb_inv rb \<Longrightarrow> rb_capacity rb = sk_rcv_size s \<Longrightarrow> length trb = unat (sk_rcv_size s) \<Longrightarrow>
   so_reads (s\<lparr> sk_m_trb := trb, sk_m_rb := rb \<rparr>)"
  by (simp add: so_reads_def so_live_def so_inv_def is_nonblocking_def is_data_socket_def)

context byte_transport
begin

definition pumped :: "'t socket \<Rightarrow> 'k \<Rightarrow> (int \<times> 't socket \<times> 'k) option \<Rightarrow> bool" where
  "pumped s k r \<longleftrightarrow>
     (\<exists>ec trb rb k' d. r = Some (ec, s\<lparr> sk_m_trb := trb, sk_m_rb := rb \<rparr>, k') \<and> so_reads (s\<lparr> sk_m_trb := trb, sk_m_rb := rb \<rparr>) \<and>
        ok k' \<and> outb k' = outb k \<and> (smooth k \<longrightarrow> smooth k') \<and> rb_list rb = rb_list (sk_m_rb s) @ d \<and> d @ pend k' = pend k \<and>
        (if d \<noteq> [] then ec = OK
         else ec = E_SOCKET_RECV_BUFFER_FULL \<and> length (rb_list (sk_m_rb s)) = unat (sk_rcv_size s) \<or>
              ec = E_SOCKET_RECV_BLOCK \<and> (smooth k \<longrightarrow> pend k = []) \<or> (ec = E_SOCKET_GRACE_CLOSE \<or> errno_code ec) \<and> \<not> smooth k))"

lemma pump_ok:
  assumes "so_reads s" "ok k"
  shows "pumped s k (so_pump F flag s k)"
proof -
  have live: "so_live s" and rd: "\<not> has_flag (sk_m_rflag s) SHUTDOWN_RD" and ds: "is_data_socket s" using assms(1) by (simp_all add: so_reads_def so_live_def)
  note b = so_live_bounds [OF live]
  let ?left = "rb_left_capacity (sk_m_rb s)" and ?n = "if sk_rcv_size s \<le> rb_left_capacity (sk_m_rb s) then sk_rcv_size s else rb_left_capacity (sk_m_rb s)"
  have left: "unat ?left = unat (sk_rcv_size s) - length (rb_list (sk_m_rb s))" using rb_left_capacity_list [OF b(2)] b(4) by simp
  have len: "length (rb_list (sk_m_rb s)) \<le> unat (sk_rcv_size s)"
    using rb_list_less_capacity [OF b(2)] unat_rb_capacity [OF b(2)] b(4) by simp
  show ?thesis
  proof (cases "?left = 0")
    case True
    then have "so_pump F flag s k = Some (E_SOCKET_RECV_BUFFER_FULL, s, k)" using ds by (simp add: so_pump_def)
    moreover have "length (rb_list (sk_m_rb s)) = unat (sk_rcv_size s)" using True left len by simp
    ultimately show ?thesis using assms unfolding pumped_def
      by (intro exI [of _ E_SOCKET_RECV_BUFFER_FULL] exI [of _ "sk_m_trb s"] exI [of _ "sk_m_rb s"] exI [of _ k] exI [of _ "[]"]) simp
  next
    case False
    have n: "unat ?n \<le> unat (sk_rcv_size s)" "unat ?n \<le> unat ?left" by (auto simp: word_le_unat)
    have n0: "?n > 0" using False b(8) by (auto simp: word_gt_0)
    obtain d ec k' where f: "m_fn_recv F (sk_m_fd s) ?n flag k = Some (d, ec, k')" "length d \<le> unat ?n" "d @ pend k' = pend k" "ok k'" "outb k' = outb k"
      "smooth k \<longrightarrow> smooth k'"
      "if d \<noteq> [] then ec = OK
       else ec = E_SOCKET_RECV_BLOCK \<and> (smooth k \<longrightarrow> pend k = []) \<or> (ec = E_SOCKET_GRACE_CLOSE \<or> errno_code ec) \<and> \<not> smooth k"
      using fn_recv [OF assms(2) n0, of "sk_m_fd s" flag] by blast
    have rv: "sb_recv F ?n flag s k = Some (d, ec, k')" using f(1) n0 rd by (simp add: sb_recv_def)
    let ?trb = "d @ drop (length d) (sk_m_trb s)"
    have trb: "mem_write (sk_m_trb s) 0 d = Some ?trb" "length ?trb = unat (sk_rcv_size s)" using f(2) n(1) b(10) by (simp_all add: mem_write_def)
    have start: "so_pump F flag s k = (if (of_nat (length d) :: u32) > 0 then do {
              (rb_WBC, rb) \<leftarrow> rb_write (sk_m_rb s) ?trb (of_nat (length d));
              wawo_assert (of_nat (length d) = rb_WBC);
              Some (ec, s\<lparr> sk_m_trb := ?trb, sk_m_rb := rb \<rparr>, k') }
            else Some (ec, s\<lparr> sk_m_trb := ?trb \<rparr>, k'))"
      using ds False rv trb(1) by (simp add: so_pump_def Let_def)
    show ?thesis
    proof (cases "d = []")
      case True
      then have "so_pump F flag s k = Some (ec, s\<lparr> sk_m_trb := ?trb, sk_m_rb := sk_m_rb s \<rparr>, k')" using start by simp
      moreover have "so_reads (s\<lparr> sk_m_trb := ?trb, sk_m_rb := sk_m_rb s \<rparr>)" using so_reads_step [OF assms(1) b(2,4) trb(2)] .
      ultimately show ?thesis using f True unfolding pumped_def
        by (intro exI [of _ ec] exI [of _ ?trb] exI [of _ "sk_m_rb s"] exI [of _ k'] exI [of _ "[]"]) simp
    next
      case False
      have u: "unat (of_nat (length d) :: u32) = length d" using f(2) n(1) b(7) by (intro unat_of_nat_nowrap) simp
      have pos: "0 < length d" and le: "length d \<le> length ?trb" using False by simp_all
      have room: "length (rb_list (sk_m_rb s)) + length d \<le> unat (rb_capacity (sk_m_rb s))" using f(2) n(2) left len b(4) by simp
      obtain rb where w: "rb_write (sk_m_rb s) ?trb (of_nat (length d)) = Some (of_nat (length d), rb)" "rb_inv rb"
        "rb_list rb = rb_list (sk_m_rb s) @ take (length d) ?trb" "rb_capacity rb = rb_capacity (sk_m_rb s)"
        by (rule rb_write_all [OF b(2) pos le room])
      have "(of_nat (length d) :: u32) > 0" using u pos by (simp add: word_less_unat)
      then have "so_pump F flag s k = Some (ec, s\<lparr> sk_m_trb := ?trb, sk_m_rb := rb \<rparr>, k')" using start w(1) by simp
      moreover have "so_reads (s\<lparr> sk_m_trb := ?trb, sk_m_rb := rb \<rparr>)" using so_reads_step [OF assms(1) w(2) _ trb(2)] w(4) b(4) by simp
      ultimately show ?thesis using f False w(3) unfolding pumped_def
        by (intro exI [of _ ec] exI [of _ ?trb] exI [of _ rb] exI [of _ k'] exI [of _ d]) simp
    qed
  qed
qed


text \<open>The first part of \<open>_receive_packets\<close>, which may end it.\<close>

definition pump_stepped :: "bool \<Rightarrow> 't socket \<Rightarrow> 'k \<Rightarrow> (bool \<times> int \<times> 't socket \<times> 'k) option \<Rightarrow> bool" where
  "pump_stepped tried s k r \<longleftrightarrow>
     (\<exists>go pe trb rb k' d. r = Some (go, pe, s\<lparr> sk_m_trb := trb, sk_m_rb := rb \<rparr>, k') \<and> so_reads (s\<lparr> sk_m_trb := trb, sk_m_rb := rb \<rparr>) \<and>
        ok k' \<and> outb k' = outb k \<and> (smooth k \<longrightarrow> smooth k') \<and> rb_list rb = rb_list (sk_m_rb s) @ d \<and> d @ pend k' = pend k \<and>
        (if go then
           (if tried then pe = OK \<and> d \<noteq> [] \<or> d = [] \<and> (pe = E_SOCKET_RECV_BLOCK \<and> (smooth k \<longrightarrow> pend k = []) \<or>
              pe = E_SOCKET_RECV_BUFFER_FULL \<and> length (rb_list rb) = unat (sk_rcv_size s))
            else pe = OK \<and> d = [])
         else d = [] \<and> (pe = E_SOCKET_RECV_BLOCK \<and> rb_list rb = [] \<and> (smooth k \<longrightarrow> pend k = []) \<or> (pe = E_SOCKET_GRACE_CLOSE \<or> errno_code pe) \<and> \<not> smooth k)))"

lemma pump_step_ok:
  assumes "so_reads s" "ok k"
  shows "pump_stepped (force \<or> has_flag flag F_RCV_ALWAYS_PUMP) s k (pump_step F flag force s k)"
proof (cases "force \<or> has_flag flag F_RCV_ALWAYS_PUMP")
  case False
  then have "pump_step F flag force s k = Some (True, OK, s, k)" by (simp add: pump_step_def)
  then show ?thesis using False assms unfolding pump_stepped_def
    by (intro exI [of _ True] exI [of _ OK] exI [of _ "sk_m_trb s"] exI [of _ "sk_m_rb s"] exI [of _ k] exI [of _ "[]"]) simp
next
  case True
  let ?fl = "flag AND NOT (F_RCV_BLOCK_UNTIL_PACKET_ARRIVE OR F_RCV_ALWAYS_PUMP)"
  obtain ec trb rb k' d where p: "so_pump F ?fl s k = Some (ec, s\<lparr> sk_m_trb := trb, sk_m_rb := rb \<rparr>, k')"
    "so_reads (s\<lparr> sk_m_trb := trb, sk_m_rb := rb \<rparr>)" "ok k'" "outb k' = outb k" "smooth k \<longrightarrow> smooth k'"
    "rb_list rb = rb_list (sk_m_rb s) @ d" "d @ pend k' = pend k"
    "if d \<noteq> [] then ec = OK
     else ec = E_SOCKET_RECV_BUFFER_FULL \<and> length (rb_list (sk_m_rb s)) = unat (sk_rcv_size s) \<or>
          ec = E_SOCKET_RECV_BLOCK \<and> (smooth k \<longrightarrow> pend k = []) \<or> (ec = E_SOCKET_GRACE_CLOSE \<or> errno_code ec) \<and> \<not> smooth k"
    using pump_ok [OF assms, of ?fl] unfolding pumped_def by blast
  let ?s = "s\<lparr> sk_m_trb := trb, sk_m_rb := rb \<rparr>"
  have live: "so_live ?s" and nb: "is_nonblocking ?s" using p(2) by (simp_all add: so_reads_def so_live_def)
  have z: "rb_count rb = 0 \<longleftrightarrow> rb_list rb = []" using so_live_bounds(2) [OF live] by (simp add: word_eq_unat rb_count_list)
  have cap: "4096 \<le> unat (sk_rcv_size s)" using so_live_bounds(8) [OF live] by simp
  have codes: "errno_code ec \<Longrightarrow> ec \<noteq> OK \<and> ec \<noteq> E_SOCKET_RECV_BLOCK \<and> ec \<noteq> E_SOCKET_RECV_BUFFER_FULL"
    "E_SOCKET_GRACE_CLOSE \<noteq> OK" "E_SOCKET_GRACE_CLOSE \<noteq> E_SOCKET_RECV_BLOCK" "E_SOCKET_GRACE_CLOSE \<noteq> E_SOCKET_RECV_BUFFER_FULL"
    "OK \<noteq> E_SOCKET_RECV_BLOCK" by (auto simp: errno_code_def error_codes socket_codes)
  let ?go = "(ec = OK \<or> ec = E_SOCKET_RECV_BLOCK \<or> ec = E_SOCKET_RECV_BUFFER_FULL) \<and> rb_list rb \<noteq> []"
  have empty: "ec = E_SOCKET_RECV_BLOCK" if "ec = OK \<or> ec = E_SOCKET_RECV_BLOCK \<or> ec = E_SOCKET_RECV_BUFFER_FULL" "rb_list rb = []"
    using that p(6,8) cap codes by (auto split: if_splits)
  have step: "pump_step F flag force s k = Some (?go, ec, ?s, k')"
  proof (cases "ec = OK \<or> ec = E_SOCKET_RECV_BLOCK \<or> ec = E_SOCKET_RECV_BUFFER_FULL")
    case False
    then show ?thesis using True p(1) by (simp add: pump_step_def)
  next
    case ec: True
    show ?thesis
    proof (cases "rb_list rb = []")
      case nil: True
      with ec empty have "ec = E_SOCKET_RECV_BLOCK" by blast
      then show ?thesis using True p(1) nb z nil by (simp add: pump_step_def)
    next
      case False
      have "pump_step F flag force s k = Some (True, ec, ?s, k')" unfolding pump_step_def if_P [OF True] p(1) using ec False z by simp
      then show ?thesis using ec False by simp
    qed
  qed
  have go: "ec = OK \<and> d \<noteq> [] \<or> d = [] \<and> (ec = E_SOCKET_RECV_BLOCK \<and> (smooth k \<longrightarrow> pend k = []) \<or>
      ec = E_SOCKET_RECV_BUFFER_FULL \<and> length (rb_list rb) = unat (sk_rcv_size s))" if ?go
    using that p(6,8) codes by (auto split: if_splits)
  have no: "d = [] \<and> (ec = E_SOCKET_RECV_BLOCK \<and> rb_list rb = [] \<and> (smooth k \<longrightarrow> pend k = []) \<or>
      (ec = E_SOCKET_GRACE_CLOSE \<or> errno_code ec) \<and> \<not> smooth k)" if "\<not> ?go"
  proof (cases "rb_list rb = []")
    case True
    then show ?thesis using p(6,8) cap by auto
  next
    case False
    then show ?thesis using that p(8) by (auto split: if_splits)
  qed
  have fin: "if ?go then ec = OK \<and> d \<noteq> [] \<or> d = [] \<and> (ec = E_SOCKET_RECV_BLOCK \<and> (smooth k \<longrightarrow> pend k = []) \<or>
      ec = E_SOCKET_RECV_BUFFER_FULL \<and> length (rb_list rb) = unat (sk_rcv_size s))
    else d = [] \<and> (ec = E_SOCKET_RECV_BLOCK \<and> rb_list rb = [] \<and> (smooth k \<longrightarrow> pend k = []) \<or> (ec = E_SOCKET_GRACE_CLOSE \<or> errno_code ec) \<and> \<not> smooth k)"
    using go no by presburger
  show ?thesis unfolding pump_stepped_def if_P [OF True]
    by (intro exI [of _ ?go] exI [of _ ec] exI [of _ trb] exI [of _ rb] exI [of _ k'] exI [of _ d] conjI step p fin)
qed

section \<open>Receiving packets\<close>

text \<open>The packets \<open>ms\<close> are still to come: their frames are in the buffer, below, or on the way (\<open>rest\<close>).\<close>

definition due :: "bytes \<Rightarrow> hlen_packet socket \<Rightarrow> 'k \<Rightarrow> hlen_packet \<Rightarrow> bytes list \<Rightarrow> bool" where
  "due rest s k h ms \<longleftrightarrow> so_reads s \<and> ok k \<and> sk_m_tlp s = Some h \<and> rb_list (sk_m_rb s) @ pend k @ rest = hl_wire h ms \<and> hl_fits h ms \<and>
     msgs_ok (unat (sk_rcv_size s)) ms"

lemma due_decode:
  assumes "due rest s k h ms"
  shows "\<exists>arrives ec h' rb ms'. hlen_decode_packets junk h (sk_m_rb s) n = Some (arrives, ec, h', rb) \<and> ms = map pk_bytes arrives @ ms' \<and>
    due rest (s\<lparr> sk_m_tlp := Some h', sk_m_rb := rb \<rparr>) k h' ms' \<and>
    length (rb_list rb) + length (concat (map pk_bytes arrives)) \<le> length (rb_list (sk_m_rb s)) \<and>
    (ec = OK \<and> (pend k @ rest = [] \<longrightarrow> ms' = []) \<and> length (rb_list rb) < unat (sk_rcv_size s) \<or> ec = E_TLP_TRY_AGAIN \<and> length arrives = unat n)"
proof -
  have d: "so_reads s" "ok k" "sk_m_tlp s = Some h" "rb_list (sk_m_rb s) @ pend k @ rest = hl_wire h ms" "hl_fits h ms"
    "msgs_ok (unat (sk_rcv_size s)) ms" using assms by (simp_all add: due_def)
  have b: "rb_inv (sk_m_rb s)" "rb_capacity (sk_m_rb s) = sk_rcv_size s"
    using so_live_bounds(2,4) [of s] d(1) by (simp_all add: so_reads_def)
  have cap: "msgs_ok (unat (rb_capacity (sk_m_rb s))) ms" using d(6) b(2) by simp
  obtain arrives ec h' rb ms' where f: "hlen_decode_packets junk h (sk_m_rb s) n = Some (arrives, ec, h', rb)" "ms = map pk_bytes arrives @ ms'"
    "rb_inv rb" "rb_capacity rb = rb_capacity (sk_m_rb s)" "rb_list rb @ (pend k @ rest) = hl_wire h' ms'" "hl_fits h' ms'"
    "length (rb_list rb) + length (concat (map pk_bytes arrives)) \<le> length (rb_list (sk_m_rb s))"
    "ec = OK \<and> (pend k @ rest = [] \<longrightarrow> ms' = []) \<and> length (rb_list rb) < unat (rb_capacity (sk_m_rb s)) \<or> ec = E_TLP_TRY_AGAIN \<and> length arrives = unat n"
    using hlen_decode_wire [OF b(1) d(4,5) cap, of junk n] by blast
  have "so_reads (s\<lparr> sk_m_tlp := Some h', sk_m_rb := rb \<rparr>)"
    using d(1) f(3,4) b(2) by (simp add: so_reads_def so_live_def so_inv_def is_nonblocking_def is_data_socket_def)
  then have due: "due rest (s\<lparr> sk_m_tlp := Some h', sk_m_rb := rb \<rparr>) k h' ms'"
    using d f by (simp add: due_def)
  show ?thesis
    by (intro exI [of _ arrives] exI [of _ ec] exI [of _ h'] exI [of _ rb] exI [of _ ms'] conjI f(1,2,7) f(8) [unfolded b(2)] due)
qed

text \<open>What is left to do decreases with each round of the loop of a read event.\<close>

definition work :: "u32 \<Rightarrow> hlen_packet socket \<Rightarrow> 'k \<Rightarrow> nat" where
  "work flag s k = 2 * (2 * length (pend k) + length (rb_list (sk_m_rb s))) + (if flag = 0 then 1 else 0)"

definition next_flag :: "int \<Rightarrow> u32" where
  "next_flag ec = (if ec = E_SOCKET_PUMP_TRY_AGAIN then F_RCV_ALWAYS_PUMP else 0)"

definition in_only :: "'t socket \<Rightarrow> 't socket \<Rightarrow> bool" where
  "in_only s s' \<longleftrightarrow> (\<exists>rb trb q t. s' = s\<lparr> sk_m_rb := rb, sk_m_trb := trb, sk_m_rps_q_standby := q, sk_m_tlp := t \<rparr>)"

lemma in_onlyI: "s' = s\<lparr> sk_m_rb := rb, sk_m_trb := trb, sk_m_rps_q_standby := q, sk_m_tlp := t \<rparr> \<Longrightarrow> in_only s s'"
  unfolding in_only_def by blast

lemma in_only_trans: "in_only s s' \<Longrightarrow> in_only s' s'' \<Longrightarrow> in_only s s''"
  unfolding in_only_def by force

text \<open>A read stopped: everything that had arrived was taken, or the layer below reported an error.\<close>

definition stops :: "bytes \<Rightarrow> int \<Rightarrow> 'k \<Rightarrow> 'k \<Rightarrow> bytes list \<Rightarrow> bool" where
  "stops rest ec k k' ms \<longleftrightarrow>
     (ec = OK \<or> ec = E_SOCKET_RECV_BLOCK) \<and> (smooth k \<longrightarrow> pend k' = [] \<and> (rest = [] \<longrightarrow> ms = [])) \<or>
     (ec = E_SOCKET_GRACE_CLOSE \<or> errno_code ec) \<and> \<not> smooth k"

definition received :: "bytes \<Rightarrow> u32 \<Rightarrow> hlen_packet socket \<Rightarrow> 'k \<Rightarrow> bytes list \<Rightarrow> (packet list \<times> int \<times> hlen_packet socket \<times> 'k) option \<Rightarrow> bool" where
  "received rest flag s k ms r \<longleftrightarrow>
     (\<exists>arrives ec s' k' h ms'. r = Some (arrives, ec, s', k') \<and> in_only s s' \<and> sk_m_rps_q_standby s' = sk_m_rps_q_standby s \<and>
        outb k' = outb k \<and> (smooth k \<longrightarrow> smooth k') \<and> ms = map pk_bytes arrives @ ms' \<and> due rest s' k' h ms' \<and>
        (if ec = E_TLP_TRY_AGAIN \<or> ec = E_SOCKET_PUMP_TRY_AGAIN then work (next_flag ec) s' k' < work flag s k else stops rest ec k k' ms'))"


lemma pump_flags:
  "\<not> has_flag 0 F_RCV_ALWAYS_PUMP" "has_flag F_RCV_ALWAYS_PUMP F_RCV_ALWAYS_PUMP" "F_RCV_ALWAYS_PUMP \<noteq> 0"
  "\<not> has_flag 0 F_RCV_BLOCK_UNTIL_PACKET_ARRIVE" "\<not> has_flag F_RCV_ALWAYS_PUMP F_RCV_BLOCK_UNTIL_PACKET_ARRIVE"
  by (simp_all add: has_flag_def F_RCV_ALWAYS_PUMP_def F_RCV_BLOCK_UNTIL_PACKET_ARRIVE_def)

lemma some_bytes: "msgs_ok cap (ms @ ms') \<Longrightarrow> ms \<noteq> [] \<Longrightarrow> 0 < length (concat ms)"
  by (cases ms) auto

lemma try_again_codes [simp]:
  "OK \<noteq> E_TLP_TRY_AGAIN" "E_TLP_TRY_AGAIN \<noteq> OK" "E_SOCKET_PUMP_TRY_AGAIN \<noteq> E_TLP_TRY_AGAIN" "E_TLP_TRY_AGAIN \<noteq> E_SOCKET_PUMP_TRY_AGAIN"
  "OK \<noteq> E_SOCKET_PUMP_TRY_AGAIN" "E_SOCKET_RECV_BLOCK \<noteq> OK" "OK \<noteq> E_SOCKET_RECV_BLOCK" "E_SOCKET_RECV_BLOCK \<noteq> E_SOCKET_RECV_BUFFER_FULL"
  "E_SOCKET_RECV_BUFFER_FULL \<noteq> E_SOCKET_RECV_BLOCK"
  "E_SOCKET_RECV_BLOCK \<noteq> E_TLP_TRY_AGAIN" "E_SOCKET_RECV_BLOCK \<noteq> E_SOCKET_PUMP_TRY_AGAIN"
  "E_SOCKET_GRACE_CLOSE \<noteq> E_TLP_TRY_AGAIN" "E_SOCKET_GRACE_CLOSE \<noteq> E_SOCKET_PUMP_TRY_AGAIN"
  by (simp_all add: error_codes socket_codes)

text \<open>The code of a round and the progress it made.\<close>

lemma work_shrinks: "0 < c \<Longrightarrow> r2 + c \<le> r + d \<Longrightarrow> p = d + p1 \<Longrightarrow> Suc (2 * (2 * p1 + r2)) < 2 * (2 * p + (r :: nat))"
  by simp

lemma less_by: "0 < c \<Longrightarrow> a + c \<le> b \<Longrightarrow> a < (b :: nat)"
  by simp

lemma round_ends:
  assumes d: "length (pend k) = length d + length (pend k1)" "d @ pend k1 = pend k"
    and r: "length (rb_list (sk_m_rb s2)) + length (concat got) \<le> length (rb_list (sk_m_rb s)) + length d"
    and c: "got \<noteq> [] \<Longrightarrow> 0 < length (concat got)"
    and tlp: "tlp_ec = OK \<and> (pend k1 @ rest = [] \<longrightarrow> ms' = []) \<and> length (rb_list (sk_m_rb s2)) < cap \<or> tlp_ec = E_TLP_TRY_AGAIN \<and> got \<noteq> []"
    and pe: "if tried then pe = OK \<and> d \<noteq> [] \<or> d = [] \<and> (pe = E_SOCKET_RECV_BLOCK \<and> (smooth k \<longrightarrow> pend k = []) \<or>
              pe = E_SOCKET_RECV_BUFFER_FULL \<and> length (rb_list (sk_m_rb s)) = cap)
            else pe = OK \<and> d = []"
    and tried: "\<not> tried \<longrightarrow> flag = 0"
    and ec: "ec = (if again then E_TLP_TRY_AGAIN else if pe = OK \<or> pe = E_SOCKET_RECV_BUFFER_FULL then E_SOCKET_PUMP_TRY_AGAIN else tlp_ec)"
    and again: "again \<longrightarrow> got \<noteq> []"
  shows "if ec = E_TLP_TRY_AGAIN \<or> ec = E_SOCKET_PUMP_TRY_AGAIN then work (next_flag ec) s2 k1 < work flag s k else stops rest ec k k1 ms'"
proof -
  consider (more) "ec = E_TLP_TRY_AGAIN" "got \<noteq> []" | (pump) "ec = E_SOCKET_PUMP_TRY_AGAIN" "pe = OK \<or> pe = E_SOCKET_RECV_BUFFER_FULL"
    | (stop) "ec = OK" "tlp_ec = OK" "pe = E_SOCKET_RECV_BLOCK" "d = []"
    using ec tlp again pe by (auto split: if_splits)
  then show ?thesis
  proof cases
    case more
    have "Suc (2 * (2 * length (pend k1) + length (rb_list (sk_m_rb s2)))) < 2 * (2 * length (pend k) + length (rb_list (sk_m_rb s)))"
      by (rule work_shrinks [OF c [OF more(2)] r d(1)])
    then show ?thesis using more(1) by (simp add: work_def next_flag_def)
  next
    case pump
    have "2 * length (pend k1) + length (rb_list (sk_m_rb s2)) < 2 * length (pend k) + length (rb_list (sk_m_rb s)) \<or>
        flag = 0 \<and> 2 * length (pend k1) + length (rb_list (sk_m_rb s2)) \<le> 2 * length (pend k) + length (rb_list (sk_m_rb s))"
    proof (cases tried)
      case False
      then show ?thesis using pe tried r d(1) by simp
    next
      case True
      then consider "d \<noteq> []" | (full) "d = []" "length (rb_list (sk_m_rb s)) = cap" using pe pump(2) by auto
      then show ?thesis
      proof cases
        case 1
        then show ?thesis using r d(1) by (cases d) simp_all
      next
        case full
        have "length (rb_list (sk_m_rb s2)) < length (rb_list (sk_m_rb s))"
        proof (cases "got = []")
          case True
          then show ?thesis using tlp full by simp
        next
          case False
          show ?thesis using less_by [OF c [OF False]] r full(1) by simp
        qed
        then show ?thesis using full d(1) by simp
      qed
    qed
    then show ?thesis using pump by (auto simp: work_def next_flag_def pump_flags)
  next
    case stop
    then have "smooth k \<longrightarrow> pend k = []" using pe by (auto split: if_splits)
    then show ?thesis using stop tlp d(2) by (auto simp: stops_def)
  qed
qed

lemma receive_ok:
  assumes due: "due rest s k h ms" and flag: "flag = 0 \<or> flag = F_RCV_ALWAYS_PUMP"
  shows "received rest flag s k ms (receive_packets F (hlen_tlp junk) now 5 flag s k)"
proof -
  have rd: "so_reads s" "ok k" "sk_m_tlp s = Some h" "msgs_ok (unat (sk_rcv_size s)) ms" "hl_fits h ms" using due by (simp_all add: due_def)
  have live: "so_live s" using rd(1) by (simp add: so_reads_def)
  let ?force = "rb_count (sk_m_rb s) = 0"
  let ?tried = "?force \<or> has_flag flag F_RCV_ALWAYS_PUMP"
  obtain go pe trb rb k1 d where p: "pump_step F flag ?force s k = Some (go, pe, s\<lparr> sk_m_trb := trb, sk_m_rb := rb \<rparr>, k1)"
    "so_reads (s\<lparr> sk_m_trb := trb, sk_m_rb := rb \<rparr>)" "ok k1" "outb k1 = outb k" "smooth k \<longrightarrow> smooth k1"
    "rb_list rb = rb_list (sk_m_rb s) @ d" "d @ pend k1 = pend k"
    "if go then
       (if ?tried then pe = OK \<and> d \<noteq> [] \<or> d = [] \<and> (pe = E_SOCKET_RECV_BLOCK \<and> (smooth k \<longrightarrow> pend k = []) \<or>
          pe = E_SOCKET_RECV_BUFFER_FULL \<and> length (rb_list rb) = unat (sk_rcv_size s))
        else pe = OK \<and> d = [])
     else d = [] \<and> (pe = E_SOCKET_RECV_BLOCK \<and> rb_list rb = [] \<and> (smooth k \<longrightarrow> pend k = []) \<or> (pe = E_SOCKET_GRACE_CLOSE \<or> errno_code pe) \<and> \<not> smooth k)"
    using pump_step_ok [OF rd(1,2), of ?force flag] unfolding pump_stepped_def by blast
  let ?s1 = "s\<lparr> sk_m_trb := trb, sk_m_rb := rb \<rparr>"
  have wire: "rb_list rb @ pend k1 @ rest = hl_wire h ms" using due p(6) by (simp add: due_def p(7) [symmetric])
  then have due1: "due rest ?s1 k1 h ms" using due p(2,3) by (simp add: due_def)
  have i1: "in_only s ?s1"
    by (rule in_onlyI [where rb = rb and trb = trb and q = "sk_m_rps_q_standby s" and t = "sk_m_tlp s"]) simp
  show ?thesis
  proof (cases go)
    case False
    then have eq: "receive_packets F (hlen_tlp junk) now 5 flag s k = Some ([], pe, ?s1, k1)"
      unfolding receive_packets_def by (subst receive_loop.simps) (simp add: p(1))
    have "ms = []" if "pe = E_SOCKET_RECV_BLOCK" "rb_list rb = []" "pend k = []" "rest = []"
      using hl_wire_nil [OF _ rd(5,4)] wire that p(7) by simp
    then have "stops rest pe k k1 ms" using p(7,8) False by (auto simp: stops_def)
    moreover have "\<not> (pe = E_TLP_TRY_AGAIN \<or> pe = E_SOCKET_PUMP_TRY_AGAIN)" using p(8) False by (auto simp: errno_code_def error_codes socket_codes)
    ultimately show ?thesis unfolding received_def eq
      by (intro exI [of _ "[]"] exI [of _ pe] exI [of _ ?s1] exI [of _ k1] exI [of _ h] exI [of _ ms]) (simp add: i1 p due1)
  next
    case True
    obtain arrives ec0 h' rb2 ms' where g: "hlen_decode_packets junk h (sk_m_rb ?s1) 5 = Some (arrives, ec0, h', rb2)" "ms = map pk_bytes arrives @ ms'"
      "due rest (?s1\<lparr> sk_m_tlp := Some h', sk_m_rb := rb2 \<rparr>) k1 h' ms'"
      "length (rb_list rb2) + length (concat (map pk_bytes arrives)) \<le> length (rb_list (sk_m_rb ?s1))"
      "ec0 = OK \<and> (pend k1 @ rest = [] \<longrightarrow> ms' = []) \<and> length (rb_list rb2) < unat (sk_rcv_size ?s1) \<or> ec0 = E_TLP_TRY_AGAIN \<and> length arrives = unat (5 :: u32)"
      using due_decode [OF due1, of junk 5] by blast
    note f = g [simplified]
    let ?s2 = "?s1\<lparr> sk_m_tlp := Some h', sk_m_rb := rb2 \<rparr>"
    let ?again = "of_nat (length arrives) = (5 :: u32) \<and> rb_count rb2 \<noteq> 0"
    let ?ec = "if ?again then E_TLP_TRY_AGAIN else if pe = OK \<or> pe = E_SOCKET_RECV_BUFFER_FULL then E_SOCKET_PUMP_TRY_AGAIN else ec0"
    have nb: "is_nonblocking ?s2" using live by (simp add: so_live_def is_nonblocking_def)
    have nf: "\<not> has_flag flag F_RCV_BLOCK_UNTIL_PACKET_ARRIVE" using flag pump_flags by auto
    have eq: "receive_packets F (hlen_tlp junk) now 5 flag s k = Some (arrives, ?ec, ?s2, k1)"
      unfolding receive_packets_def
      by (subst receive_loop.simps) (use f(1,5) nb nf True rd(3) in \<open>auto simp: p(1) hlen_tlp_def answer_step_def Let_def\<close>)
    have "if ?ec = E_TLP_TRY_AGAIN \<or> ?ec = E_SOCKET_PUMP_TRY_AGAIN then work (next_flag ?ec) ?s2 k1 < work flag s k else stops rest ?ec k k1 ms'"
    proof (rule round_ends [where d = d and got = "map pk_bytes arrives" and tlp_ec = ec0 and cap = "unat (sk_rcv_size s)" and tried = ?tried and pe = pe and again = ?again])
      show "length (pend k) = length d + length (pend k1)" "d @ pend k1 = pend k" using p(7) by (simp_all add: p(7) [symmetric])
      show "length (rb_list (sk_m_rb ?s2)) + length (concat (map pk_bytes arrives)) \<le> length (rb_list (sk_m_rb s)) + length d" using f(4) p(6) by simp
      show "map pk_bytes arrives \<noteq> [] \<Longrightarrow> 0 < length (concat (map pk_bytes arrives))" using some_bytes rd(4) f(2) by blast
      show "ec0 = OK \<and> (pend k1 @ rest = [] \<longrightarrow> ms' = []) \<and> length (rb_list (sk_m_rb ?s2)) < unat (sk_rcv_size s) \<or> ec0 = E_TLP_TRY_AGAIN \<and> map pk_bytes arrives \<noteq> []"
        using f(5) by auto
      show "if ?tried then pe = OK \<and> d \<noteq> [] \<or> d = [] \<and> (pe = E_SOCKET_RECV_BLOCK \<and> (smooth k \<longrightarrow> pend k = []) \<or>
              pe = E_SOCKET_RECV_BUFFER_FULL \<and> length (rb_list (sk_m_rb s)) = unat (sk_rcv_size s)) else pe = OK \<and> d = []"
        using p(6,8) True by auto
      show "\<not> ?tried \<longrightarrow> flag = 0" using flag pump_flags by auto
    qed auto
    moreover have "in_only s ?s2"
      by (rule in_onlyI [where rb = rb2 and trb = trb and q = "sk_m_rps_q_standby s" and t = "Some h'"]) simp
    ultimately show ?thesis unfolding received_def eq
      by (intro exI [of _ arrives] exI [of _ ?ec] exI [of _ ?s2] exI [of _ k1] exI [of _ h'] exI [of _ ms']) (simp add: p(4,5) f(2,3))
  qed
qed


lemma due_standby [simp]: "due rest (s\<lparr> sk_m_rps_q_standby := q \<rparr>) k h ms = due rest s k h ms"
  by (simp add: due_def so_reads_def so_live_def so_inv_def is_nonblocking_def is_data_socket_def)

lemma work_standby [simp]: "work flag (s\<lparr> sk_m_rps_q_standby := q \<rparr>) k = work flag s k"
  by (simp add: work_def)

lemma stops_trans: "stops rest ec k1 k' ms \<Longrightarrow> smooth k \<longrightarrow> smooth k1 \<Longrightarrow> stops rest ec k k' ms"
  by (auto simp: stops_def)

definition read_through :: "bytes \<Rightarrow> hlen_packet socket \<Rightarrow> 'k \<Rightarrow> bytes list \<Rightarrow> packet list \<Rightarrow> int \<Rightarrow> hlen_packet socket \<Rightarrow> 'k \<Rightarrow> bool" where
  "read_through rest s k ms arrives ec s' k' \<longleftrightarrow> in_only s s' \<and> sk_m_rps_q_standby s' = sk_m_rps_q_standby s @ arrives \<and>
     outb k' = outb k \<and> (smooth k \<longrightarrow> smooth k') \<and> (\<exists>h ms'. ms = map pk_bytes arrives @ ms' \<and> due rest s' k' h ms' \<and> stops rest ec k k' ms')"

lemma async_read_loop_ok:
  assumes "due rest s k h ms" "flag = 0 \<or> flag = F_RCV_ALWAYS_PUMP"
  shows "\<exists>arrives ec s' k'. async_read_loop F (hlen_tlp junk) now flag new s k = Some (new \<or> arrives \<noteq> [], ec, s', k') \<and> read_through rest s k ms arrives ec s' k'"
  using assms
proof (induction "work flag s k" arbitrary: flag new s k h ms rule: less_induct)
  case less
  obtain arrives ec s1 k1 h1 ms1 where r: "receive_packets F (hlen_tlp junk) now 5 flag s k = Some (arrives, ec, s1, k1)" "in_only s s1"
    "sk_m_rps_q_standby s1 = sk_m_rps_q_standby s" "outb k1 = outb k" "smooth k \<longrightarrow> smooth k1" "ms = map pk_bytes arrives @ ms1"
    "due rest s1 k1 h1 ms1"
    "if ec = E_TLP_TRY_AGAIN \<or> ec = E_SOCKET_PUMP_TRY_AGAIN then work (next_flag ec) s1 k1 < work flag s k else stops rest ec k k1 ms1"
    using receive_ok [OF less.prems, of junk now] unfolding received_def by blast
  let ?s1 = "s1\<lparr> sk_m_rps_q_standby := sk_m_rps_q_standby s1 @ arrives \<rparr>"
  have i1: "in_only s ?s1"
    by (rule in_only_trans [OF r(2)], rule in_onlyI [where rb = "sk_m_rb s1" and trb = "sk_m_trb s1" and t = "sk_m_tlp s1" and q = "sk_m_rps_q_standby s1 @ arrives"]) simp
  have loop: "async_read_loop F (hlen_tlp junk) now flag new s k =
      (if ec = E_TLP_TRY_AGAIN \<or> ec = E_SOCKET_PUMP_TRY_AGAIN
       then async_read_loop F (hlen_tlp junk) now (next_flag ec) (new \<or> arrives \<noteq> []) ?s1 k1 else Some (new \<or> arrives \<noteq> [], ec, ?s1, k1))"
    by (subst async_read_loop.simps) (simp add: r(1) next_flag_def Let_def)
  show ?case
  proof (cases "ec = E_TLP_TRY_AGAIN \<or> ec = E_SOCKET_PUMP_TRY_AGAIN")
    case False
    then show ?thesis using loop r i1 unfolding read_through_def
      by (intro exI [of _ arrives] exI [of _ ec] exI [of _ ?s1] exI [of _ k1]) auto
  next
    case True
    then have lt: "work (next_flag ec) ?s1 k1 < work flag s k" using r(8) by simp
    have d1: "due rest ?s1 k1 h1 ms1" using r(7) by simp
    have nf: "next_flag ec = 0 \<or> next_flag ec = F_RCV_ALWAYS_PUMP" by (simp add: next_flag_def)
    obtain more ec' s' k' where m: "async_read_loop F (hlen_tlp junk) now (next_flag ec) (new \<or> arrives \<noteq> []) ?s1 k1 = Some ((new \<or> arrives \<noteq> []) \<or> more \<noteq> [], ec', s', k')"
      "read_through rest ?s1 k1 ms1 more ec' s' k'"
      using less.hyps [OF lt d1 nf, of "new \<or> arrives \<noteq> []"] by blast
    have "read_through rest s k ms (arrives @ more) ec' s' k'"
      using m(2) r(3-6) in_only_trans [OF i1] stops_trans [OF _ r(5)] by (force simp: read_through_def)
    then show ?thesis using loop True m(1) by (intro exI [of _ "arrives @ more"]) auto
  qed
qed

section \<open>The read event\<close>

lemma read_flags:
  "has_flag (w AND NOT (WATCH_READ OR WATCH_OPTION_INFINITE)) SHUTDOWN_RD = has_flag w SHUTDOWN_RD"
  "has_flag (w OR (WATCH_READ OR 0)) SHUTDOWN_RD = has_flag w SHUTDOWN_RD"
  by (rule has_flag_clear, simp add: watch_defs) (rule has_flag_or, simp add: watch_defs)

text \<open>Only the read flags and the log differ.\<close>

definition rflag_step :: "'t socket \<Rightarrow> 't socket \<Rightarrow> bool" where
  "rflag_step s s' \<longleftrightarrow> (\<exists>fl es. s' = s\<lparr> sk_m_rflag := fl, sk_log := sk_log s @ es \<rparr> \<and> triggered es = [] \<and>
     has_flag fl SHUTDOWN_RD = has_flag (sk_m_rflag s) SHUTDOWN_RD)"

lemma rflag_stepI:
  "s' = s\<lparr> sk_m_rflag := fl, sk_log := sk_log s @ es \<rparr> \<Longrightarrow> triggered es = [] \<Longrightarrow> has_flag fl SHUTDOWN_RD = has_flag (sk_m_rflag s) SHUTDOWN_RD \<Longrightarrow> rflag_step s s'"
  unfolding rflag_step_def by blast

lemma rflag_step_refl: "rflag_step s s"
  by (rule rflag_stepI [where fl = "sk_m_rflag s" and es = "[]"]) simp_all

lemma end_async_read_ok:
  assumes "sk_m_fd s > 0"
  obtains s' where "end_async_read s = Some s'" "rflag_step s s'"
proof (cases "has_flag (sk_m_rflag s) WATCH_READ \<and> is_nonblocking s")
  case True
  let ?s' = "s\<lparr> sk_m_rflag := sk_m_rflag s AND NOT (WATCH_READ OR WATCH_OPTION_INFINITE), sk_log := sk_log s @ [Unwatch (is_wcp s) IOE_READ (sk_m_fd s)] \<rparr>"
  have "rflag_step s ?s'"
    by (rule rflag_stepI [where fl = "sk_m_rflag s AND NOT (WATCH_READ OR WATCH_OPTION_INFINITE)" and es = "[Unwatch (is_wcp s) IOE_READ (sk_m_fd s)]"])
      (use read_flags(1) [of "sk_m_rflag s"] in simp_all)
  then show ?thesis by (rule that [rotated]) (use True assms in \<open>simp add: end_async_read_def sb_unwatch_def sb_note_def is_wcp_def\<close>)
next
  case False
  then show ?thesis using that [OF _ rflag_step_refl] by (auto simp: end_async_read_def)
qed

lemma begin_async_read_ok:
  assumes "sk_m_fd s > 0" "is_nonblocking s"
  obtains s' where "begin_async_read 0 fn s = Some s'" "rflag_step s s'"
proof -
  have z: "\<not> has_flag (0 :: byte) f" for f by (simp add: has_flag_def)
  consider (shut) "has_flag (sk_m_rflag s) SHUTDOWN_RD" | (watched) "\<not> has_flag (sk_m_rflag s) SHUTDOWN_RD" "has_flag (sk_m_rflag s) WATCH_READ"
    | (fresh) "\<not> has_flag (sk_m_rflag s) SHUTDOWN_RD" "\<not> has_flag (sk_m_rflag s) WATCH_READ" by blast
  then show ?thesis
  proof cases
    case shut
    have "rflag_step s (sb_note (Schedule_error fn E_INVALID_STATE) s)"
      by (rule rflag_stepI [where fl = "sk_m_rflag s" and es = "[Schedule_error fn E_INVALID_STATE]"]) (simp_all add: sb_note_def)
    with that show ?thesis using shut assms by (simp add: begin_async_read_def)
  next
    case watched
    then show ?thesis using that [OF _ rflag_step_refl] assms by (simp add: begin_async_read_def)
  next
    case fresh
    let ?s' = "s\<lparr> sk_m_rflag := sk_m_rflag s OR (WATCH_READ OR 0), sk_log := sk_log s @ [Watch (is_wcp s) IOE_READ (sk_m_fd s) fn] \<rparr>"
    have "rflag_step s ?s'"
      by (rule rflag_stepI [where fl = "sk_m_rflag s OR (WATCH_READ OR 0)" and es = "[Watch (is_wcp s) IOE_READ (sk_m_fd s) fn]"])
        (use read_flags(2) [of "sk_m_rflag s"] in simp_all)
    then show ?thesis by (rule that [rotated])
        (use fresh assms z in \<open>simp add: begin_async_read_def sb_watch_def sb_note_def is_wcp_def\<close>)
  qed
qed

lemma due_rflag: "due rest s k h ms \<Longrightarrow> rflag_step s s' \<Longrightarrow> due rest s' k h ms"
  by (auto simp: due_def rflag_step_def so_reads_def so_live_def so_inv_def is_nonblocking_def is_data_socket_def)

lemma trigger_packets_eq:
  "trigger_packets ps s = s\<lparr> sk_log := sk_log s @ map Trigger_packet ps, sk_m_rps_q := (if ps = [] then sk_m_rps_q s else []) \<rparr>"
  by (induction ps arbitrary: s) (simp_all add: sb_note_def)

lemma triggered_map [simp]: "triggered (map Trigger_packet ps) = ps"
  by (induction ps) simp_all

lemma due_log: "due rest (s\<lparr> sk_log := l, sk_m_rps_q := q, sk_m_rps_q_standby := q' \<rparr>) k h ms = due rest s k h ms"
  by (simp add: due_def so_reads_def so_live_def so_inv_def is_nonblocking_def is_data_socket_def)

lemma handle_async_read_ok:
  assumes due: "due rest s k h ms" and q: "sk_m_rps_q s = []" "sk_m_rps_q_standby s = []"
  shows "\<exists>arrives ec s' k' h' ms'. handle_async_read F (hlen_tlp junk) now s k = Some (ec, s', k') \<and> ms = map pk_bytes arrives @ ms' \<and>
    triggered (sk_log s') = triggered (sk_log s) @ arrives \<and> due rest s' k' h' ms' \<and> sk_m_rps_q s' = [] \<and> sk_m_rps_q_standby s' = [] \<and>
    sk_rcv_size s' = sk_rcv_size s \<and> outb k' = outb k \<and> (smooth k \<longrightarrow> smooth k') \<and> stops rest ec k k' ms'"
proof -
  have st: "is_data_socket s" "is_nonblocking s" "sk_m_fd s > 0" using due by (simp_all add: due_def so_reads_def so_live_def)
  let ?one = "\<not> has_flag (sk_m_wflag s) WATCH_OPTION_INFINITE"
  obtain s1 where s1: "(if ?one then end_async_read s else Some s) = Some s1" "rflag_step s s1"
    using end_async_read_ok [OF st(3)] rflag_step_refl by metis
  obtain arrives ec s2 k2 where l: "async_read_loop F (hlen_tlp junk) now F_RCV_ALWAYS_PUMP False s1 k = Some (False \<or> arrives \<noteq> [], ec, s2, k2)"
    "read_through rest s1 k ms arrives ec s2 k2" using async_read_loop_ok [OF due_rflag [OF due s1(2)], of F_RCV_ALWAYS_PUMP junk now False] by blast
  obtain h' ms' where d2: "ms = map pk_bytes arrives @ ms'" "due rest s2 k2 h' ms'" "stops rest ec k k2 ms'" using l(2) unfolding read_through_def by blast
  have e2: "sk_m_rps_q s2 = []" "sk_m_rps_q_standby s2 = arrives" "triggered (sk_log s2) = triggered (sk_log s)" "sk_rcv_size s2 = sk_rcv_size s"
    "outb k2 = outb k" "smooth k \<longrightarrow> smooth k2" "sk_m_fd s2 > 0" "is_nonblocking s2"
    using l(2) s1(2) q st by (auto simp: read_through_def rflag_step_def in_only_def is_nonblocking_def)
  have start: "handle_async_read F (hlen_tlp junk) now s k = do {
      s \<leftarrow> (if ?one \<and> arrives = [] then begin_async_read 0 Async_read s2 else Some s2);
      s \<leftarrow> (if arrives \<noteq> [] then deliver_packets s else Some s);
      Some (ec, s, k2) }"
    using st s1(1) l(1) by (simp add: handle_async_read_def Let_def)
  show ?thesis
  proof (cases "arrives = []")
    case True
    obtain s3 where s3: "(if ?one then begin_async_read 0 Async_read s2 else Some s2) = Some s3" "rflag_step s2 s3"
      using begin_async_read_ok [OF e2(7,8)] rflag_step_refl by metis
    have "handle_async_read F (hlen_tlp junk) now s k = Some (ec, s3, k2)" using start True s3(1) by simp
    moreover have "due rest s3 k2 h' ms'" by (rule due_rflag [OF d2(2) s3(2)])
    moreover have "sk_m_rps_q s3 = []" "sk_m_rps_q_standby s3 = []" "triggered (sk_log s3) = triggered (sk_log s)" "sk_rcv_size s3 = sk_rcv_size s"
      using s3(2) e2 True by (auto simp: rflag_step_def)
    ultimately show ?thesis using d2 e2 True by (intro exI [of _ "[]"]) auto
  next
    case False
    let ?s3 = "s2\<lparr> sk_log := sk_log s2 @ map Trigger_packet arrives, sk_m_rps_q := [], sk_m_rps_q_standby := [] \<rparr>"
    have "deliver_packets s2 = Some ?s3" using e2(1,2) False by (simp add: deliver_packets_def trigger_packets_eq)
    then have "handle_async_read F (hlen_tlp junk) now s k = Some (ec, ?s3, k2)" using start False by simp
    moreover have "due rest ?s3 k2 h' ms'" using d2(2) by (simp only: due_log)
    ultimately show ?thesis using d2 e2 by (intro exI [of _ arrives] exI [of _ ec] exI [of _ ?s3] exI [of _ k2] exI [of _ h'] exI [of _ ms']) simp
  qed
qed

end

end
