(* ===== verification/Socket_Pair.thy ===== *)
theory Socket_Pair
  imports Socket_Output Socket_Recv_Props
begin

text \<open>
  Two sockets joined by the kernel: one sends packets with send_packet and writes when it can, the other reads when
  bytes have arrived. The kernel takes and hands over bytes in any portions; it refuses a write for as long as it
  likes and may interrupt calls, but it does not lose the connection.
\<close>

section \<open>The pair\<close>

record socket_pair =
  pr_sent :: "bytes list"
  pr_a :: "hlen_packet socket"
  pr_ka :: kernel
  pr_arrived :: nat
  pr_b :: "hlen_packet socket"
  pr_kb :: kernel

definition pr_delivered :: "socket_pair \<Rightarrow> bytes list" where
  "pr_delivered s = map pk_bytes (triggered (sk_log (pr_b s)))"

definition pr_on_wire :: "socket_pair \<Rightarrow> bytes" where
  "pr_on_wire s = drop (pr_arrived s) (k_out (pr_ka s))"

definition new_kernel :: kernel where
  "new_kernel = \<lparr> k_ret = [], k_snd = [], k_out = [], k_rcv = [], k_dgram = [], k_dgram_out = [], k_acc = [] \<rparr>"

definition new_end :: "(nat \<Rightarrow> byte) \<Rightarrow> int \<Rightarrow> u32 \<Rightarrow> u32 \<Rightarrow> u32 \<Rightarrow> hlen_packet socket option" where
  "new_end junk fd rcv_sz snd_sz garbage =
     do { s \<leftarrow> socket_fd junk fd 0 SM_PASSIVE rcv_sz snd_sz F_AF_INET ST_STREAM P_TCP OPTION_NON_BLOCKING;
          set_tlp (hlen_packet_new garbage) s }"

text \<open>
  The packets sent have room for the length in front, and fit the buffers on both sides. A packet counts as sent when
  send_packet returns OK.
\<close>

inductive pair_reach :: "(nat \<Rightarrow> byte) \<Rightarrow> u32 \<Rightarrow> u32 \<Rightarrow> socket_pair \<Rightarrow> bool" for junk rcv_sz snd_sz where
  init: "new_end junk fd rcv_sz snd_sz g = Some a \<Longrightarrow> new_end junk fd' rcv_sz snd_sz g' = Some b \<Longrightarrow>
    pair_reach junk rcv_sz snd_sz \<lparr> pr_sent = [], pr_a = a, pr_ka = new_kernel, pr_arrived = 0, pr_b = b, pr_kb = new_kernel \<rparr>"
| send: "pair_reach junk rcv_sz snd_sz s \<Longrightarrow> pk_inv p \<Longrightarrow> 4 \<le> pk_left_room p \<Longrightarrow> length (pk_bytes p) \<le> unat rcv_sz \<Longrightarrow>
    4 + length (pk_bytes p) \<le> unat snd_sz \<Longrightarrow> now \<noteq> 0 \<Longrightarrow>
    send_packet standard_fns (hlen_tlp junk) now p g flag (pr_a s) (pr_ka s) = Some (rt, a, k) \<Longrightarrow>
    pair_reach junk rcv_sz snd_sz (s\<lparr> pr_sent := pr_sent s @ (if rt = OK then [pk_bytes p] else []), pr_a := a, pr_ka := k \<rparr>)"
| room: "pair_reach junk rcv_sz snd_sz s \<Longrightarrow> list_all snd_answer_ok as \<Longrightarrow> list_all snd_smooth as \<Longrightarrow>
    pair_reach junk rcv_sz snd_sz (s\<lparr> pr_ka := (pr_ka s)\<lparr> k_snd := k_snd (pr_ka s) @ as \<rparr> \<rparr>)"
| writeable: "pair_reach junk rcv_sz snd_sz s \<Longrightarrow> now \<noteq> 0 \<Longrightarrow> handle_async_write standard_fns now (pr_a s) (pr_ka s) = Some (ec, a, k) \<Longrightarrow>
    pair_reach junk rcv_sz snd_sz (s\<lparr> pr_a := a, pr_ka := k \<rparr>)"
| arrive: "pair_reach junk rcv_sz snd_sz s \<Longrightarrow> 0 < n \<Longrightarrow> n \<le> length (pr_on_wire s) \<Longrightarrow>
    pair_reach junk rcv_sz snd_sz (s\<lparr> pr_arrived := pr_arrived s + n, pr_kb := (pr_kb s)\<lparr> k_rcv := k_rcv (pr_kb s) @ [Data (take n (pr_on_wire s))] \<rparr> \<rparr>)"
| interrupt: "pair_reach junk rcv_sz snd_sz s \<Longrightarrow>
    pair_reach junk rcv_sz snd_sz (s\<lparr> pr_kb := (pr_kb s)\<lparr> k_rcv := k_rcv (pr_kb s) @ [RcvFail EINTR] \<rparr> \<rparr>)"
| readable: "pair_reach junk rcv_sz snd_sz s \<Longrightarrow> handle_async_read standard_fns (hlen_tlp junk) now (pr_b s) (pr_kb s) = Some (ec, b, k) \<Longrightarrow>
    pair_reach junk rcv_sz snd_sz (s\<lparr> pr_b := b, pr_kb := k \<rparr>)"

section \<open>The invariant\<close>

definition pair_inv :: "u32 \<Rightarrow> u32 \<Rightarrow> socket_pair \<Rightarrow> bytes list \<Rightarrow> bool" where
  "pair_inv rcv_sz snd_sz s ms \<longleftrightarrow>
     so_live (pr_a s) \<and> sk_snd_size (pr_a s) = snd_sz \<and> sk_m_tlp (pr_a s) \<noteq> None \<and> kernel_ok (pr_ka s) \<and> kernel_smooth (pr_ka s) \<and>
     sk_rcv_size (pr_b s) = rcv_sz \<and> kernel_smooth (pr_kb s) \<and> sk_m_rps_q (pr_b s) = [] \<and> sk_m_rps_q_standby (pr_b s) = [] \<and>
     pr_arrived s \<le> length (k_out (pr_ka s)) \<and> pr_sent s = pr_delivered s @ ms \<and>
     (\<exists>h. tcp.due (pr_on_wire s @ rb_list (sk_m_sb (pr_a s))) (pr_b s) (pr_kb s) h ms)"

lemma due_extend:
  "tcp.due rest s k h ms \<Longrightarrow> msgs_ok (unat (sk_rcv_size s)) [m] \<Longrightarrow> tcp.due (rest @ hl_frame m) s k h (ms @ [m])"
  using hl_wire_snoc [of h ms m] by (auto simp: tcp.due_def)

lemma due_arrive:
  assumes "tcp.due (d @ rest) s k h ms" "kernel_ok (k\<lparr> k_rcv := k_rcv k @ as \<rparr>)" "concat (map answer_bytes as) = d"
  shows "tcp.due rest s (k\<lparr> k_rcv := k_rcv k @ as \<rparr>) h ms"
  using assms by (simp add: tcp.due_def k_pending_def)

lemma new_end_ok:
  assumes "new_end junk fd rcv_sz snd_sz g = Some a"
  shows "so_reads a" "rb_list (sk_m_sb a) = []" "rb_list (sk_m_rb a) = []" "sk_snd_size a = snd_sz" "sk_rcv_size a = rcv_sz"
    "sk_m_rps_q a = []" "sk_m_rps_q_standby a = []" "sk_log a = []" "sk_m_tlp a = Some (hlen_packet_new g)"
proof -
  have a: "fd > 0" "sbc_ok rcv_sz snd_sz" using assms
    by (auto simp: new_end_def socket_fd_def socket_base_fd_def wawo_assert_def split: if_splits)
  obtain s :: "hlen_packet socket" where s: "socket_fd junk fd 0 SM_PASSIVE rcv_sz snd_sz F_AF_INET ST_STREAM P_TCP OPTION_NON_BLOCKING = Some s"
    "so_inv s" "rb_list (sk_m_sb s) = []" "rb_list (sk_m_rb s) = []"
    "sk_m_sm s = SM_PASSIVE" "sk_m_option s = OPTION_NON_BLOCKING" "sk_m_fd s = fd" "sk_m_state s = S_CONNECTED" "sk_m_rflag s = 0" "sk_m_wflag s = 0"
    "sk_log s = []" "sk_rcv_size s = rcv_sz" "sk_snd_size s = snd_sz" "sk_m_rps_q s = []" "sk_m_rps_q_standby s = []" "sk_m_tlp s = None"
    by (rule socket_fd_ok [OF a])
  have "a = s\<lparr> sk_m_tlp := Some (hlen_packet_new g) \<rparr>" using assms s by (simp add: new_end_def set_tlp_def)
  with s a show "so_reads a" "rb_list (sk_m_sb a) = []" "rb_list (sk_m_rb a) = []" "sk_snd_size a = snd_sz" "sk_rcv_size a = rcv_sz"
    "sk_m_rps_q a = []" "sk_m_rps_q_standby a = []" "sk_log a = []" "sk_m_tlp a = Some (hlen_packet_new g)"
    by (simp_all add: so_reads_def so_live_def so_inv_def is_nonblocking_def is_data_socket_def has_flag_def OPTION_NON_BLOCKING_def)
qed

text \<open>What send_packet does on a kernel that reports no error: all of the frame joins the stream, or nothing.\<close>

lemma send_packet_ok:
  assumes a: "so_live a" "kernel_ok k" "kernel_smooth k" "sk_m_tlp a \<noteq> None"
    and p: "pk_inv p" "4 \<le> pk_left_room p" "4 + length (pk_bytes p) \<le> unat (sk_snd_size a)" "now \<noteq> 0"
  shows "\<exists>rt a' k'. send_packet standard_fns (hlen_tlp junk) now p g flag a k = Some (rt, a', k') \<and> kernel_smooth k' \<and>
    tcp.puts (if rt = OK then hl_frame (pk_bytes p) else []) a k a' k' \<and> (rt = OK \<longrightarrow> pk_bytes p \<noteq> []) \<and>
    (rb_list (sk_m_sb a) = [] \<and> pk_bytes p \<noteq> [] \<longrightarrow> rt = OK) \<and> (pk_bytes p \<noteq> [] \<longrightarrow> rt = OK \<or> rt = E_SOCKET_SEND_BLOCK)"
proof -
  obtain t where t: "sk_m_tlp a = Some t" using a(4) by blast
  then have same: "a\<lparr> sk_m_tlp := Some t \<rparr> = a" by simp
  show ?thesis
  proof (cases "pk_bytes p = []")
    case True
    then have "send_packet standard_fns (hlen_tlp junk) now p g flag a k = Some (E_SOCKET_EMPTY_PACKET, a, k)"
      using t same by (simp add: send_packet_def hlen_tlp_def hlen_encode_empty p(1) error_codes)
    moreover have "E_SOCKET_EMPTY_PACKET \<noteq> OK" by (simp add: error_codes)
    ultimately show ?thesis using tcp.puts_refl [OF a(1,2)] a(3) True by auto
  next
    case False
    obtain out where o': "hlen_encode junk p = Some (OK, Some out)" "pk_inv out" "pk_bytes out = hl_frame (pk_bytes p)"
      using hlen_encode_ok [OF p(1) False p(2)] by blast
    let ?d = "hl_frame (pk_bytes p)"
    have d: "?d \<noteq> []" "length ?d \<le> unat (sk_snd_size a)" using p(3) False by (simp_all add: hl_frame_def)
    obtain n ec a' k' where s: "so_send standard_fns now ?d g flag a k = Some (n, ec, a', k')" "tcp.puts (take (unat n) ?d) a k a' k'"
      "unat n \<le> length ?d" "unat n < length ?d \<longrightarrow> n = 0 \<and> ec = E_SOCKET_SEND_BLOCK \<and> rb_list (sk_m_sb a) \<noteq> [] \<or> errno_code ec \<and> \<not> kernel_smooth k"
      using tcp.send_ok [OF a(1,2) d p(4), of g flag] by blast
    have u: "n = of_nat (length ?d) \<longleftrightarrow> unat n = length ?d"
      using d(2) so_live_bounds(5) [OF a(1)] by (auto simp: word_eq_unat unat_of_nat_nowrap)
    have "send_packet standard_fns (hlen_tlp junk) now p g flag a k = Some (if n = of_nat (length ?d) then OK else ec, a', k')"
      using t o' s(1) by (simp add: send_packet_def hlen_tlp_def pk_content_ok same)
    moreover have "E_SOCKET_SEND_BLOCK \<noteq> OK" by (simp add: error_codes)
    moreover have "kernel_smooth k'" using s(2) a(3) by (simp add: tcp.puts_def)
    ultimately show ?thesis using s(2-4) u a(3) False by (cases "unat n = length ?d") auto
  qed
qed

lemma puts_wire:
  assumes "tcp.puts d (pr_a s) (pr_ka s) a k" "pr_arrived s \<le> length (k_out (pr_ka s))"
  shows "pr_on_wire (s\<lparr> pr_sent := x, pr_a := a, pr_ka := k \<rparr>) @ rb_list (sk_m_sb a) = pr_on_wire s @ rb_list (sk_m_sb (pr_a s)) @ d"
    "pr_arrived s \<le> length (k_out k)"
proof -
  have e: "k_out k @ rb_list (sk_m_sb a) = k_out (pr_ka s) @ rb_list (sk_m_sb (pr_a s)) @ d" using assms(1) by (simp add: tcp.puts_def)
  obtain more where m: "k_out k = k_out (pr_ka s) @ more" using tcp.puts_out [OF assms(1)] by blast
  then show "pr_arrived s \<le> length (k_out k)" using assms(2) by simp
  show "pr_on_wire (s\<lparr> pr_sent := x, pr_a := a, pr_ka := k \<rparr>) @ rb_list (sk_m_sb a) = pr_on_wire s @ rb_list (sk_m_sb (pr_a s)) @ d"
    using e m assms(2) by (simp add: pr_on_wire_def)
qed

lemma pair_invD:
  assumes "pair_inv rcv_sz snd_sz s ms"
  shows "so_live (pr_a s)" "sk_snd_size (pr_a s) = snd_sz" "sk_m_tlp (pr_a s) \<noteq> None" "kernel_ok (pr_ka s)" "kernel_smooth (pr_ka s)"
    "sk_rcv_size (pr_b s) = rcv_sz" "kernel_smooth (pr_kb s)" "sk_m_rps_q (pr_b s) = []" "sk_m_rps_q_standby (pr_b s) = []"
    "pr_arrived s \<le> length (k_out (pr_ka s))" "pr_sent s = pr_delivered s @ ms"
    "\<exists>h. tcp.due (pr_on_wire s @ rb_list (sk_m_sb (pr_a s))) (pr_b s) (pr_kb s) h ms"
  using assms by (simp_all add: pair_inv_def)

text \<open>A step of the sender that adds the frame of a packet to its stream, or nothing.\<close>

lemma pair_inv_puts:
  assumes inv: "pair_inv rcv_sz snd_sz s ms" and p: "tcp.puts (concat (map hl_frame news)) (pr_a s) (pr_ka s) a k" and m: "length news \<le> 1" "msgs_ok (unat rcv_sz) news"
  shows "pair_inv rcv_sz snd_sz (s\<lparr> pr_sent := pr_sent s @ news, pr_a := a, pr_ka := k \<rparr>) (ms @ news)"
proof -
  note i = pair_invD [OF inv]
  let ?s = "s\<lparr> pr_sent := pr_sent s @ news, pr_a := a, pr_ka := k \<rparr>"
  note w = puts_wire(1) [OF p i(10), of "pr_sent s @ news"] puts_wire(2) [OF p i(10)]
  obtain h where h: "tcp.due (pr_on_wire s @ rb_list (sk_m_sb (pr_a s))) (pr_b s) (pr_kb s) h ms" using i(12) by blast
  have "tcp.due ((pr_on_wire s @ rb_list (sk_m_sb (pr_a s))) @ concat (map hl_frame news)) (pr_b s) (pr_kb s) h (ms @ news)"
  proof (cases news)
    case Nil
    then show ?thesis using h by simp
  next
    case (Cons x xs)
    then have "news = [x]" using m(1) by simp
    then show ?thesis using due_extend [OF h, of x] m(2) i(6) by simp
  qed
  then have d: "tcp.due (pr_on_wire ?s @ rb_list (sk_m_sb a)) (pr_b s) (pr_kb s) h (ms @ news)" using w(1) by simp
  have a: "so_live a" "kernel_ok k" "kernel_smooth k" "out_only (pr_a s) a" using p i(5) by (simp_all add: tcp.puts_def)
  show ?thesis unfolding pair_inv_def using a(1-3) w(2) i d out_only_same(4,7) [OF a(4)] by (auto simp: pr_delivered_def)
qed

lemma pair_inv_reach:
  assumes "pair_reach junk rcv_sz snd_sz s"
  shows "\<exists>ms. pair_inv rcv_sz snd_sz s ms"
  using assms
proof induction
  case (init fd g a fd' g' b)
  note a = new_end_ok [OF init(1)] and b = new_end_ok [OF init(2)]
  have "tcp.due [] b new_kernel (hlen_packet_new g') []"
    using b by (simp add: tcp.due_def hl_wire_def hl_fits_def hlen_packet_new_def kernel_ok_def k_pending_def new_kernel_def)
  then have "pair_inv rcv_sz snd_sz \<lparr> pr_sent = [], pr_a = a, pr_ka = new_kernel, pr_arrived = 0, pr_b = b, pr_kb = new_kernel \<rparr> []"
    using a b by (auto simp: pair_inv_def so_reads_def kernel_ok_def kernel_smooth_def new_kernel_def pr_delivered_def pr_on_wire_def)
  then show ?case by blast
next
  case (send s p now g flag rt a k)
  then obtain ms where inv: "pair_inv rcv_sz snd_sz s ms" by blast
  note i = pair_invD [OF inv]
  have len: "4 + length (pk_bytes p) \<le> unat (sk_snd_size (pr_a s))" using send.hyps(5) i(2) by simp
  let ?news = "if rt = OK then [pk_bytes p] else []"
  have q: "tcp.puts (if rt = OK then hl_frame (pk_bytes p) else []) (pr_a s) (pr_ka s) a k" "rt = OK \<longrightarrow> pk_bytes p \<noteq> []"
    using send_packet_ok [OF i(1,4,5,3) send.hyps(2,3) len send.hyps(6), of junk g flag] send.hyps(7) by auto
  have "tcp.puts (concat (map hl_frame ?news)) (pr_a s) (pr_ka s) a k" using q(1) by (cases "rt = OK") simp_all
  moreover have "msgs_ok (unat rcv_sz) ?news" using q(2) send.hyps(4) so_live_bounds(5) [OF i(1)] len by auto
  ultimately show ?case using pair_inv_puts [OF inv, of ?news a k] by auto
next
  case (room s as)
  then obtain ms where inv: "pair_inv rcv_sz snd_sz s ms" by blast
  then have "pair_inv rcv_sz snd_sz (s\<lparr> pr_ka := (pr_ka s)\<lparr> k_snd := k_snd (pr_ka s) @ as \<rparr> \<rparr>) ms"
    using room.hyps by (simp add: pair_inv_def kernel_ok_def kernel_smooth_def pr_on_wire_def pr_delivered_def)
  then show ?case ..
next
  case (writeable s now ec a k)
  then obtain ms where inv: "pair_inv rcv_sz snd_sz s ms" by blast
  note i = pair_invD [OF inv]
  have "tcp.puts (concat (map hl_frame [])) (pr_a s) (pr_ka s) a k"
    using tcp.handle_async_write_ok [OF i(1,4) writeable.hyps(2)] writeable.hyps(3) by auto
  from pair_inv_puts [OF inv this] show ?case by auto
next
  case (arrive s n)
  then obtain ms where inv: "pair_inv rcv_sz snd_sz s ms" by blast
  note i = pair_invD [OF inv]
  let ?d = "take n (pr_on_wire s)" and ?rest = "drop n (pr_on_wire s) @ rb_list (sk_m_sb (pr_a s))"
  obtain h where "tcp.due (pr_on_wire s @ rb_list (sk_m_sb (pr_a s))) (pr_b s) (pr_kb s) h ms" using i(12) by blast
  moreover have "?d @ ?rest = pr_on_wire s @ rb_list (sk_m_sb (pr_a s))" by (simp flip: append_assoc)
  ultimately have h: "tcp.due (?d @ ?rest) (pr_b s) (pr_kb s) h ms" by metis
  let ?k = "(pr_kb s)\<lparr> k_rcv := k_rcv (pr_kb s) @ [Data ?d] \<rparr>"
  have k: "kernel_ok ?k" "kernel_smooth ?k" using h i(7) arrive.hyps by (auto simp: tcp.due_def kernel_ok_def kernel_smooth_def)
  have "tcp.due ?rest (pr_b s) ?k h ms" by (rule due_arrive [OF h k(1)]) simp
  moreover have "pr_on_wire (s\<lparr> pr_arrived := pr_arrived s + n, pr_kb := ?k \<rparr>) = drop n (pr_on_wire s)" by (simp add: pr_on_wire_def add.commute)
  moreover have "pr_arrived s + n \<le> length (k_out (pr_ka s))" using arrive.hyps(3) i(10) by (simp add: pr_on_wire_def)
  ultimately have "pair_inv rcv_sz snd_sz (s\<lparr> pr_arrived := pr_arrived s + n, pr_kb := ?k \<rparr>) ms"
    using i k(2) by (auto simp: pair_inv_def pr_delivered_def)
  then show ?case ..
next
  case (interrupt s)
  then obtain ms where inv: "pair_inv rcv_sz snd_sz s ms" by blast
  note i = pair_invD [OF inv]
  let ?k = "(pr_kb s)\<lparr> k_rcv := k_rcv (pr_kb s) @ [RcvFail EINTR] \<rparr>"
  obtain h where h: "tcp.due ([] @ pr_on_wire s @ rb_list (sk_m_sb (pr_a s))) (pr_b s) (pr_kb s) h ms" using i(12) by auto
  have k: "kernel_ok ?k" "kernel_smooth ?k" using h i(7) by (auto simp: tcp.due_def kernel_ok_def kernel_smooth_def EINTR_def)
  have "tcp.due (pr_on_wire s @ rb_list (sk_m_sb (pr_a s))) (pr_b s) ?k h ms" by (rule due_arrive [OF h k(1)]) simp
  then have "pair_inv rcv_sz snd_sz (s\<lparr> pr_kb := ?k \<rparr>) ms" using i k(2) by (auto simp: pair_inv_def pr_delivered_def pr_on_wire_def)
  then show ?case ..
next
  case (readable s now ec b k)
  then obtain ms where inv: "pair_inv rcv_sz snd_sz s ms" by blast
  note i = pair_invD [OF inv]
  obtain h where h: "tcp.due (pr_on_wire s @ rb_list (sk_m_sb (pr_a s))) (pr_b s) (pr_kb s) h ms" using i(12) by blast
  obtain arrives h' ms' where r: "ms = map pk_bytes arrives @ ms'" "triggered (sk_log b) = triggered (sk_log (pr_b s)) @ arrives"
    "tcp.due (pr_on_wire s @ rb_list (sk_m_sb (pr_a s))) b k h' ms'" "sk_m_rps_q b = []" "sk_m_rps_q_standby b = []"
    "sk_rcv_size b = sk_rcv_size (pr_b s)" "kernel_smooth (pr_kb s) \<longrightarrow> kernel_smooth k"
    using tcp.handle_async_read_ok [OF h i(8,9), of junk now] readable.hyps(2) by auto
  then have "pair_inv rcv_sz snd_sz (s\<lparr> pr_b := b, pr_kb := k \<rparr>) ms'" using i by (auto simp: pair_inv_def pr_delivered_def pr_on_wire_def)
  then show ?case ..
qed

text \<open>
  C12: Two sockets that run hlen_packet over a kernel connection: whatever packets are sent, however the kernel portions the bytes and
  whenever the write and read events come, a read event returns, and the packets it has given to the listeners are, in order, the first
  of those for which send_packet returned OK, with the same contents; they are all of them once nothing waits in the send buffer or on the wire.
\<close>

theorem socket_pair_delivers:
  assumes "pair_reach junk rcv_sz snd_sz s"
  shows "\<exists>ec b k. handle_async_read standard_fns (hlen_tlp junk) now (pr_b s) (pr_kb s) = Some (ec, b, k) \<and>
    (ec = OK \<or> ec = E_SOCKET_RECV_BLOCK) \<and> prefix (map pk_bytes (triggered (sk_log b))) (pr_sent s) \<and>
    (rb_list (sk_m_sb (pr_a s)) = [] \<and> pr_on_wire s = [] \<longrightarrow> map pk_bytes (triggered (sk_log b)) = pr_sent s)"
proof -
  obtain ms where inv: "pair_inv rcv_sz snd_sz s ms" using pair_inv_reach [OF assms] ..
  note i = pair_invD [OF inv]
  obtain h where h: "tcp.due (pr_on_wire s @ rb_list (sk_m_sb (pr_a s))) (pr_b s) (pr_kb s) h ms" using i(12) by blast
  obtain arrives ec b k h' ms' where r: "handle_async_read standard_fns (hlen_tlp junk) now (pr_b s) (pr_kb s) = Some (ec, b, k)"
    "ms = map pk_bytes arrives @ ms'" "triggered (sk_log b) = triggered (sk_log (pr_b s)) @ arrives"
    "tcp.stops (pr_on_wire s @ rb_list (sk_m_sb (pr_a s))) ec (pr_kb s) k ms'"
    using tcp.handle_async_read_ok [OF h i(8,9), of junk now] by blast
  have "pr_sent s = map pk_bytes (triggered (sk_log b)) @ ms'" using i(11) r(2,3) by (simp add: pr_delivered_def)
  then show ?thesis using r(1,4) i(7) by (auto simp: tcp.stops_def prefix_def)
qed

text \<open>A pair after one packet has been given to send_packet.\<close>

lemma sample_pair:
  "\<exists>s. pair_reach (\<lambda>_. 0) 4096 4096 s \<and> pr_sent s = [[7, 8]]"
proof -
  have c: "sbc_ok 4096 4096" by (simp add: sbc_ok_def SOCK_MAX_SIZE_def SOCK_MIN_SIZE_def)
  obtain s :: "hlen_packet socket" where s: "socket_fd (\<lambda>_. 0) 3 0 SM_PASSIVE 4096 4096 F_AF_INET ST_STREAM P_TCP OPTION_NON_BLOCKING = Some s" "sk_m_tlp s = None"
    by (rule socket_fd_ok [of 3 4096 4096 "\<lambda>_. 0" 0 SM_PASSIVE F_AF_INET ST_STREAM P_TCP OPTION_NON_BLOCKING]) (use c in simp_all)
  then obtain e where e: "new_end (\<lambda>_. 0) 3 4096 4096 0 = Some e" by (simp add: new_end_def set_tlp_def)
  let ?i = "\<lparr> pr_sent = [], pr_a = e, pr_ka = new_kernel, pr_arrived = 0, pr_b = e, pr_kb = new_kernel \<rparr>"
  note n = new_end_ok [OF e]
  obtain p where p: "pk_inv p" "pk_bytes p = [7, 8]" "4 \<le> pk_left_room p" by (rule sample_packet)
  have live: "so_live e" using n(1) by (simp add: so_reads_def)
  have k: "kernel_ok new_kernel" "kernel_smooth new_kernel" by (simp_all add: kernel_ok_def kernel_smooth_def new_kernel_def)
  have "sk_m_tlp e \<noteq> None" "4 + length (pk_bytes p) \<le> unat (sk_snd_size e)" using n p by simp_all
  from send_packet_ok [OF live k this(1) p(1,3) this(2), of 1 "\<lambda>_. 0" 0 0] n p
  obtain a k' where q: "send_packet standard_fns (hlen_tlp (\<lambda>_. 0)) 1 p 0 0 (pr_a ?i) (pr_ka ?i) = Some (OK, a, k')" by auto
  have "pair_reach (\<lambda>_. 0) 4096 4096 (?i\<lparr> pr_sent := pr_sent ?i @ (if OK = OK then [pk_bytes p] else []), pr_a := a, pr_ka := k' \<rparr>)"
    by (rule pair_reach.send [OF pair_reach.init [OF e e] p(1,3) _ _ _ q]) (use p in simp_all)
  then show ?thesis using p by auto
qed

theorem socket_pair_delivers_witness:
  "\<exists>s. pair_reach (\<lambda>_. 0) 4096 4096 s \<and> pr_sent s = [[7, 8]] \<and>
    (\<exists>ec b k. handle_async_read standard_fns (hlen_tlp (\<lambda>_. 0)) 5 (pr_b s) (pr_kb s) = Some (ec, b, k) \<and>
       prefix (map pk_bytes (triggered (sk_log b))) (pr_sent s))"
proof -
  obtain s where s: "pair_reach (\<lambda>_. 0) 4096 4096 s" "pr_sent s = [[7, 8]]" using sample_pair by blast
  from socket_pair_delivers [OF s(1), of 5] s show ?thesis by blast
qed

end
