(* ===== verification/Mux_Socket.thy ===== *)
theory Mux_Socket
  imports Mux_Pair Socket_Pair
begin

text \<open>
  The multiplexing peer on the sockets of the model: they are channels in the sense of \<open>packet_channel\<close> for as long as
  the kernel reports no error, and two peers deliver what their users write.
\<close>

section \<open>A socket as a channel\<close>

text \<open>The socket, the kernel below it, the time, and the packets for which send_packet has returned OK.\<close>

record mux_sock =
  mk_socket :: "hlen_packet socket"
  mk_kernel :: kernel
  mk_now :: u64
  mk_clock :: "u64 list"
  mk_hist :: "bytes list"

definition mux_socket :: "(nat \<Rightarrow> byte) \<Rightarrow> mux_sock mux_so" where
  "mux_socket junk = \<lparr>
     mo_send = (\<lambda>p k. do {
       (rt, s, kn) \<leftarrow> send_packet standard_fns (hlen_tlp junk) (mk_now k) p 0 F_SEND_USE_SND_BUFFER (mk_socket k) (mk_kernel k);
       Some (rt, k\<lparr> mk_socket := s, mk_kernel := kn, mk_hist := mk_hist k @ (if rt = OK then [pk_bytes p] else []) \<rparr>) }),
     mo_close = (\<lambda>code k. do {
       (r, s, kn) \<leftarrow> so_close standard_fns (mk_clock k) code (mk_socket k) (mk_kernel k);
       case r of Ret rt \<Rightarrow> Some (rt, k\<lparr> mk_socket := s, mk_kernel := kn \<rparr>) | Block \<Rightarrow> None }),
     mo_begin_read = (\<lambda>k. do { s \<leftarrow> begin_async_read 0 Async_read (mk_socket k); Some (k\<lparr> mk_socket := s \<rparr>) }),
     mo_snd_size = (\<lambda>k. sk_snd_size (mk_socket k)),
     mo_connected = (\<lambda>k. sk_m_state (mk_socket k) = S_CONNECTED) \<rparr>"

definition mux_channel :: "u32 \<Rightarrow> mux_sock \<Rightarrow> bool" where
  "mux_channel sz k \<longleftrightarrow> so_live (mk_socket k) \<and> sk_m_state (mk_socket k) = S_CONNECTED \<and> sk_m_tlp (mk_socket k) \<noteq> None \<and>
     sk_snd_size (mk_socket k) = sz \<and> kernel_ok (mk_kernel k) \<and> kernel_smooth (mk_kernel k) \<and> mk_now k \<noteq> 0"

text \<open>The size of the write buffer of a stream after the first flush.\<close>

definition mux_lim :: "u32 \<Rightarrow> nat" where
  "mux_lim sz = min 262144 (unat sz - 1024)"

lemma mux_lim_ok:
  assumes "mux_channel sz k" shows "2048 \<le> mux_lim sz \<and> mux_lim sz + 1024 \<le> unat (sk_snd_size (mk_socket k)) \<and> mux_lim sz = min 262144 (unat (sk_snd_size (mk_socket k)) - 1024)"
proof -
  have "4096 \<le> unat sz" using assms so_live_bounds(6) [of "mk_socket k"] by (simp add: mux_channel_def)
  then show ?thesis using assms by (auto simp: mux_lim_def mux_channel_def)
qed

lemma out_only_fields: "out_only s s' \<Longrightarrow> sk_m_state s' = sk_m_state s \<and> sk_m_tlp s' = sk_m_tlp s \<and> sk_snd_size s' = sk_snd_size s"
  by (auto simp: out_only_def)

lemma mux_socket_send:
  assumes k: "mux_channel sz k" and p: "pk_inv p" "pk_bytes p \<noteq> []" "4 \<le> pk_left_room p" "length (pk_bytes p) \<le> mux_lim sz + 6"
  shows "\<exists>rt k'. mo_send (mux_socket junk) p k = Some (rt, k') \<and> mux_channel sz k' \<and>
    (rt = OK \<and> mk_hist k' = mk_hist k @ [pk_bytes p] \<or> rt = E_SOCKET_SEND_BLOCK \<and> mk_hist k' = mk_hist k) \<and>
    (rb_list (sk_m_sb (mk_socket k)) = [] \<longrightarrow> rt = OK)"
proof -
  have c: "so_live (mk_socket k)" "kernel_ok (mk_kernel k)" "kernel_smooth (mk_kernel k)" "sk_m_tlp (mk_socket k) \<noteq> None"
    "4 + length (pk_bytes p) \<le> unat (sk_snd_size (mk_socket k))" "mk_now k \<noteq> 0"
    using k p(4) mux_lim_ok [OF k] by (auto simp: mux_channel_def)
  obtain rt s kn where r: "send_packet standard_fns (hlen_tlp junk) (mk_now k) p 0 F_SEND_USE_SND_BUFFER (mk_socket k) (mk_kernel k) = Some (rt, s, kn)"
    "kernel_smooth kn" "tcp.puts (if rt = OK then hl_frame (pk_bytes p) else []) (mk_socket k) (mk_kernel k) s kn" "rt = OK \<or> rt = E_SOCKET_SEND_BLOCK" "rb_list (sk_m_sb (mk_socket k)) = [] \<longrightarrow> rt = OK"
    using send_packet_ok [OF c(1-4) p(1,3) c(5,6), of junk 0 F_SEND_USE_SND_BUFFER] p(2) by blast
  then have "so_live s" "kernel_ok kn" "out_only (mk_socket k) s" by (simp_all add: tcp.puts_def)
  with k r(2) have "mux_channel sz (k\<lparr> mk_socket := s, mk_kernel := kn, mk_hist := h \<rparr>)" for h
    by (simp add: mux_channel_def out_only_fields)
  moreover have "E_SOCKET_SEND_BLOCK \<noteq> OK" by (simp add: error_codes)
  ultimately show ?thesis using r(1,4,5) by (auto simp: mux_socket_def)
qed

lemma mux_socket_read:
  assumes "mux_channel sz k"
  shows "\<exists>k'. mo_begin_read (mux_socket junk) k = Some k' \<and> mux_channel sz k' \<and> mk_hist k' = mk_hist k"
proof -
  have l: "so_live (mk_socket k)" using assms by (simp add: mux_channel_def)
  obtain s where s: "begin_async_read 0 Async_read (mk_socket k) = Some s" "tcp.rflag_step (mk_socket k) s"
    by (rule tcp.begin_async_read_ok [of "mk_socket k" Async_read]) (use l in \<open>simp_all add: so_live_def\<close>)
  then obtain fl es where "s = (mk_socket k)\<lparr> sk_m_rflag := fl, sk_log := sk_log (mk_socket k) @ es \<rparr>" by (auto simp: tcp.rflag_step_def)
  then have "mux_channel sz (k\<lparr> mk_socket := s \<rparr>)" using assms by (auto simp: mux_channel_def so_live_def so_inv_def is_nonblocking_def is_data_socket_def)
  then show ?thesis using s(1) by (simp add: mux_socket_def)
qed

interpretation mx: packet_channel "mux_socket junk" "mux_channel sz" mk_hist "mux_lim sz" for junk sz
proof
  fix k p assume "mux_channel sz k" "pk_inv p" "pk_bytes p \<noteq> []" "4 \<le> pk_left_room p" "length (pk_bytes p) \<le> mux_lim sz + 6"
  then show "\<exists>rt k'. mo_send (mux_socket junk) p k = Some (rt, k') \<and> mux_channel sz k' \<and>
      (rt = OK \<and> mk_hist k' = mk_hist k @ [pk_bytes p] \<or> rt = E_SOCKET_SEND_BLOCK \<and> mk_hist k' = mk_hist k)"
    using mux_socket_send by blast
next
  fix k assume "mux_channel sz k"
  then show "2048 \<le> mux_lim sz \<and> mux_lim sz + 1024 \<le> unat (mo_snd_size (mux_socket junk) k) \<and> mux_lim sz = min 262144 (unat (mo_snd_size (mux_socket junk) k) - 1024)"
    unfolding mux_socket_def mux_so.simps by (rule mux_lim_ok)
qed (simp_all add: mux_socket_read, simp add: mux_socket_def mux_channel_def)

section \<open>Streams deliver\<close>

text \<open>
  C13: two multiplexing peers run on connected sockets with a send buffer of any size: streams are opened on either side, under ids the other has not taken, but none is closed or
  reset, users read when they like and write as long as no stream has more bytes unsent than the
  buffer after its first flush holds, the peers tick, packets arrive in the order they were sent, send buffers fill up. In all these runs the bytes written to a stream are those the
  other side has read from it, then those in its read buffer, those under way and those in the write buffer, in this order: no
  byte is lost, doubled or moved to another stream. What is under way or unread never exceeds the window of 256 KiB, and neither a
  tick nor the arrival of the next packet throws.
\<close>

theorem mux_streams_deliver:
  assumes "mux_reach (mux_socket junk) (mux_channel sz) mk_hist (mux_lim sz) a b"
  shows "me_wrote a i = me_read b i @ unread (me_look b i) @ frames_data (frames_of i (in_flight mk_hist a b)) @ unsent (me_look a i) \<and>
    length (unread (me_look b i)) + length (frames_data (frames_of i (in_flight mk_hist a b))) \<le> 262144 \<and>
    do_tick (mux_socket junk) junk' (me_mux a) (me_so a) \<noteq> None \<and>
    (me_in a < length (mk_hist (me_so b)) \<and> pk_inv p \<and> pk_bytes p = mk_hist (me_so b) ! me_in a \<longrightarrow>
      packet_arrive (mux_socket junk) junk' p (me_mux a) (me_so a) \<noteq> None)"
proof (intro conjI impI)
  have inv: "mux_inv (mux_channel sz) mk_hist (mux_lim sz) a b" by (rule mx.mux_inv_reach [OF assms])
  then have "stream_joined mk_hist a b i" by (simp add: mux_inv_def)
  then have j: "one_way (me_look a i) (me_wrote a i) (frames_of i (in_flight mk_hist a b)) (me_look b i) (me_read b i) (frames_of i (in_flight mk_hist b a))"
    by (simp add: stream_joined_def joined_def)
  then show "me_wrote a i = me_read b i @ unread (me_look b i) @ frames_data (frames_of i (in_flight mk_hist a b)) @ unsent (me_look a i)"
    by (simp add: one_way_def)
  show "length (unread (me_look b i)) + length (frames_data (frames_of i (in_flight mk_hist a b))) \<le> 262144"
    using j by (simp add: one_way_def)
  have "mux_ok (mux_lim sz) (me_mux a)" "mux_channel sz (me_so a)" using inv by (simp_all add: mux_inv_def end_ok_def)
  then show "do_tick (mux_socket junk) junk' (me_mux a) (me_so a) \<noteq> None" using mx.do_tick_ok [of sz "me_mux a" "me_so a" junk junk'] by auto
  show "packet_arrive (mux_socket junk) junk' p (me_mux a) (me_so a) \<noteq> None"
    if "me_in a < length (mk_hist (me_so b)) \<and> pk_inv p \<and> pk_bytes p = mk_hist (me_so b) ! me_in a"
    using mx.mux_arrive_ok [OF inv, of p junk junk'] that by auto
qed

text \<open>A run: a stream is opened, two bytes are written, the peer ticks, and the first packet arrives on the other side.\<close>

lemma sample_channel:
  obtains k where "mux_channel 98304 k" "mk_hist k = []" "rb_list (sk_m_sb (mk_socket k)) = []"
proof -
  have c: "sbc_ok 98304 98304" by (simp add: sbc_ok_def SOCK_MAX_SIZE_def SOCK_MIN_SIZE_def)
  obtain s :: "hlen_packet socket" where s: "socket_fd (\<lambda>_. 0) 3 0 SM_PASSIVE 98304 98304 F_AF_INET ST_STREAM P_TCP OPTION_NON_BLOCKING = Some s"
    "sk_m_tlp s = None" "sk_m_state s = S_CONNECTED"
    by (rule socket_fd_ok [of 3 98304 98304 "\<lambda>_. 0" 0 SM_PASSIVE F_AF_INET ST_STREAM P_TCP OPTION_NON_BLOCKING]) (use c in simp_all)
  have e: "new_end (\<lambda>_. 0) 3 98304 98304 0 = Some (s\<lparr> sk_m_tlp := Some (hlen_packet_new 0) \<rparr>)" using s by (simp add: new_end_def set_tlp_def)
  note n = new_end_ok [OF e]
  have k: "kernel_ok new_kernel" "kernel_smooth new_kernel" by (simp_all add: kernel_ok_def kernel_smooth_def new_kernel_def)
  let ?k = "\<lparr> mk_socket = s\<lparr> sk_m_tlp := Some (hlen_packet_new 0) \<rparr>, mk_kernel = new_kernel, mk_now = 1, mk_clock = [], mk_hist = [] \<rparr>"
  have "mux_channel 98304 ?k" using n(1,4) s(3) k by (simp add: mux_channel_def so_reads_def)
  then show ?thesis using n(2) by (intro that [of ?k]) simp_all
qed

lemma sample_mux:
  obtains a b where "mux_reach (mux_socket junk) (mux_channel 98304) mk_hist (mux_lim 98304) a b" "me_wrote a 5 = [7, 8]"
proof -
  obtain k where k: "mux_channel 98304 k" "mk_hist k = []" by (rule sample_channel)
  let ?a = "new_mux_end k"
  have r0: "mux_reach (mux_socket junk) (mux_channel 98304) mk_hist (mux_lim 98304) ?a ?a" by (rule mux_reach.start) (use k in simp_all)
  obtain t s where s: "stream_init junk = Some t" "stream_open 5 None t = Some (OK, s)"
    "mux_stream_open junk 5 None mux_start = Some (Some s, OK, mux_start\<lparr> mx_stream_map := [(5, s)] \<rparr>)"
    "stream_ok (mux_lim 98304) 5 s" "fresh_stream s" "ms_flag s = STREAM_PLAN_SYN" by (rule mux_stream_open_fresh [of 5 junk None]) simp
  let ?m = "mux_start\<lparr> mx_stream_map := [(5, s)] \<rparr>"
  have r1: "mux_reach (mux_socket junk) (mux_channel 98304) mk_hist (mux_lim 98304) (?a\<lparr> me_mux := ?m \<rparr>) ?a"
    by (rule mux_reach.opened [OF r0, of 5 junk None "Some s" OK]) (use s(3) in \<open>simp_all add: new_mux_end_def mux_start_def mux_new_def\<close>)
  obtain p where p: "pk_inv p" "pk_bytes p = [7, 8]" by (rule sample_packet)
  have fit: "length (rb_list (ms_wb s)) + length (pk_bytes p) \<le> unat (rb_capacity (ms_wb s))" "pk_bytes p \<noteq> []"
    using s(4-6) p(2) by (simp_all add: stream_ok_def has_flag_def stream_flags)
  obtain wb where sw: "stream_write p s = Some (OK, s\<lparr> ms_wb := wb \<rparr>)" by (rule stream_write_fits [OF s(4) fit(1) p(1) fit(2)])
  have room: "length (rb_list (ms_wb s)) + length (pk_bytes p) \<le> mux_lim 98304" using s(5) p(2) by (simp add: mux_lim_def)
  have look: "me_look (?a\<lparr> me_mux := ?m \<rparr>) 5 = Some s" by simp
  note w2 = mux_reach.wrote [OF r1 look p(1) room sw]
  show ?thesis by (rule that [OF w2]) (simp add: new_mux_end_def p(2))
qed

theorem mux_streams_deliver_witness:
  "\<exists>a b. mux_reach (mux_socket (\<lambda>_. 0)) (mux_channel 98304) mk_hist (mux_lim 98304) a b \<and> me_wrote a 5 = [7, 8] \<and>
    [7, 8] = me_read b 5 @ unread (me_look b 5) @ frames_data (frames_of 5 (in_flight mk_hist a b)) @ unsent (me_look a 5) \<and>
    do_tick (mux_socket (\<lambda>_. 0)) (\<lambda>_. 0) (me_mux a) (me_so a) \<noteq> None"
proof -
  obtain a b where a: "mux_reach (mux_socket (\<lambda>_. 0)) (mux_channel 98304) mk_hist (mux_lim 98304) a b" "me_wrote a 5 = [7, 8]" by (rule sample_mux)
  from mux_streams_deliver [OF a(1), of 5 "\<lambda>_. 0"] a show ?thesis by metis
qed

end
