(* ===== verification/Ros_Props.thy ===== *)
theory Ros_Props
  imports Ros Mux_Socket "HOL-Library.Multiset"
begin

text \<open>
  Requests and responses: a message arrives as it was sent, a response reaches the callback of its request, and every request is answered
  exactly once, whatever the socket does.
\<close>

section \<open>Messages on the wire\<close>

definition ros_frame :: "net_id_t \<Rightarrow> byte \<Rightarrow> bytes \<Rightarrow> bytes" where
  "ros_frame i t b = write_impl (of_nat (5 + length b) :: u32) @ write_impl i @ [t] @ b"

lemma ros_encode_ok:
  assumes m: "rm_type m \<noteq> T_NONE" "rm_type m < T_MAX" "rm_data m = Some d" and d: "pk_inv d" "pk_bytes d \<noteq> []" "length (pk_bytes d) \<le> 1000000"
  shows "\<exists>p. ros_encode junk m = Some (OK, p) \<and> pk_inv p \<and> pk_bytes p = ros_frame (rm_net_id m) (rm_type m) (pk_bytes d) \<and> 100 \<le> pk_left_room p"
proof -
  let ?len = "pk_m_write_idx d - pk_m_read_idx d"
  note pl = pk_len_ok [OF d(1)]
  have c: "PACK_INIT_LEFT_CAPACITY < PACK_MAX_LEFT_CAPACITY" "?len \<le> PACK_MAX_RIGHT_CAPACITY" "?len > 0"
    using pl(2) d(2,3) by (simp_all add: PACK_defs word_le_unat word_less_unat)
  obtain p where p: "packet_new junk ?len PACK_INIT_LEFT_CAPACITY = Some p" "pk_inv p" "pk_bytes p = []"
    "pk_m_left_capacity p = max PACK_INIT_LEFT_CAPACITY PACK_MIN_LEFT_CAPACITY" "pk_m_read_idx p = pk_m_left_capacity p" "pk_m_write_idx p = pk_m_left_capacity p"
    by (rule packet_new_ok [OF c(1,2)])
  have room: "128 \<le> pk_left_room p" "16769152 \<le> pk_right_room p"
    using p(3-5) pk_inv_bounds [OF p(2)] p(6) by (simp_all add: pk_left_room_def pk_right_room_def PACK_defs)
  obtain q where q: "pk_write_left_T junk p (rm_type m) = Some q" "pk_inv q" "pk_bytes q = [rm_type m]" "127 \<le> pk_left_room q" "16769152 \<le> pk_right_room q"
    using pk_write_left_T_ok [OF p(2), where t = "rm_type m" and junk = junk] p(3) room by (auto simp: sizeof_simps)
  obtain r where r: "pk_write_left_T junk q (rm_net_id m) = Some r" "pk_inv r" "pk_bytes r = write_impl (rm_net_id m) @ [rm_type m]"
    "123 \<le> pk_left_room r" "16769152 \<le> pk_right_room r"
    using pk_write_left_T_ok [OF q(2), where t = "rm_net_id m" and junk = junk] q(3-5) by (auto simp: sizeof_simps)
  obtain u where u: "pk_write junk r (pk_bytes d) ?len = Some u" "pk_inv u" "pk_bytes u = write_impl (rm_net_id m) @ [rm_type m] @ pk_bytes d" "123 \<le> pk_left_room u"
    using pk_write_ok [OF r(2), of ?len "pk_bytes d" junk] r(3-5) pl(2) d(3) by auto
  let ?l = "pk_m_write_idx u - pk_m_read_idx u"
  note ul = pk_len_ok [OF u(2)]
  have l: "?l = of_nat (5 + length (pk_bytes d))" by (rule word_of_unat) (simp add: ul(2) u(3))
  obtain v where v: "pk_write_left_T junk u ?l = Some v" "pk_inv v" "pk_bytes v = write_impl ?l @ pk_bytes u" "119 \<le> pk_left_room v"
    using pk_write_left_T_ok [OF u(2), where t = ?l and junk = junk] u(4) by (auto simp: sizeof_simps)
  have "ros_encode junk m = Some (OK, v)"
    using m pl(1) c(3) p(1) q(1) r(1) u(1) ul(1) v(1) by (simp add: ros_encode_def pk_content_ok [OF d(1)])
  then show ?thesis using v u(3) unfolding l ros_frame_def by auto
qed

lemma ros_decode_ok:
  assumes p: "pk_inv p" "pk_bytes p = ros_frame i t b" and t: "t \<noteq> T_NONE"
  obtains q where "decode_message_from_packet p = Some ([\<lparr> rm_net_id = i, rm_type = t, rm_data = Some q \<rparr>], q)" "pk_inv q" "pk_bytes q = b"
proof -
  let ?n = "of_nat (5 + length b) :: u32"
  obtain p1 where p1: "pk_read_T p = Some (?n, p1)" "pk_inv p1" "pk_bytes p1 = write_impl i @ [t] @ b"
    using pk_read_T_ok [OF p(1), where t = ?n] p(2) by (auto simp: ros_frame_def)
  obtain p2 where p2: "pk_read_T p1 = Some (i, p2)" "pk_inv p2" "pk_bytes p2 = [t] @ b" using pk_read_T_ok [OF p1(2,3)] by auto
  obtain p3 where p3: "pk_read_T p2 = Some (t, p3)" "pk_inv p3" "pk_bytes p3 = b" using pk_read_T_ok [OF p2(2), where t = t and rest = b] p2(3) by auto
  have "pk_m_write_idx p1 - pk_m_read_idx p1 = ?n" by (rule word_of_unat) (simp add: pk_len_ok(2) [OF p1(2)] p1(3))
  then have l: "pk_len p1 = Some ?n" using pk_len_ok(1) [OF p1(2)] by simp
  have "decode_message_from_packet p = Some ([\<lparr> rm_net_id = i, rm_type = t, rm_data = Some p3 \<rparr>], p3)"
    by (subst decode_message_from_packet.simps) (use p1(1) p2(1) p3(1) l t in \<open>simp add: ros_message_of_def\<close>)
  then show ?thesis using that p3 by blast
qed

context packet_channel
begin

lemma do_send_message_ok:
  assumes "chan k" "rs_so s" and m: "rm_type m \<noteq> T_NONE" "rm_type m < T_MAX" "rm_data m = Some d" "pk_inv d" "pk_bytes d \<noteq> []" "length (pk_bytes d) + 3 \<le> lim"
  obtains rt k' where "do_send_message so junk m s k = Some (rt, k')" "chan k'"
    "rt = OK \<and> hist k' = hist k @ [ros_frame (rm_net_id m) (rm_type m) (pk_bytes d)] \<or> rt = E_SOCKET_SEND_BLOCK \<and> hist k' = hist k"
proof -
  have "length (pk_bytes d) \<le> 1000000" using m(6) size_law [OF assms(1)] by auto
  then obtain p where p: "ros_encode junk m = Some (OK, p)" "pk_inv p" "pk_bytes p = ros_frame (rm_net_id m) (rm_type m) (pk_bytes d)" "100 \<le> pk_left_room p"
    using ros_encode_ok [OF m(1-5), of junk] by blast
  have "length (pk_bytes p) = 9 + length (pk_bytes d)" by (simp add: p(3) ros_frame_def)
  then have "length (pk_bytes p) \<le> lim + 6" "pk_bytes p \<noteq> []" using m(6) by auto
  moreover have "do_send_message so junk m s k = mo_send so p k" using assms(2) p(1) by (simp add: do_send_message_def)
  ultimately show ?thesis using send_law [OF assms(1) p(2), of] p(3,4) that by auto
qed

lemma ros_arrive_ok:
  assumes "chan k" "rs_so s" "pk_inv p" "pk_bytes p = ros_frame i t b" "t \<noteq> T_NONE"
  obtains k' q where "ros_on_event so ec 0 (Some p) s k =
      (case handle_incoming_message \<lparr> rm_net_id = i, rm_type = t, rm_data = Some q \<rparr> s of
         Inr s \<Rightarrow> Some (s, k') | Inl s \<Rightarrow> do { (rt, k) \<leftarrow> mo_close so ec k'; Some (s, k) })" "chan k'" "hist k' = hist k" "pk_inv q" "pk_bytes q = b"
proof -
  obtain q where q: "decode_message_from_packet p = Some ([\<lparr> rm_net_id = i, rm_type = t, rm_data = Some q \<rparr>], q)" "pk_inv q" "pk_bytes q = b"
    by (rule ros_decode_ok [OF assms(3-5)])
  obtain k' where k: "mo_begin_read so k = Some k'" "chan k'" "hist k' = hist k" using read_law [OF assms(1)] by blast
  have "handle_arrives p s = handle_incoming_message \<lparr> rm_net_id = i, rm_type = t, rm_data = Some q \<rparr> s" by (simp add: handle_arrives_def q(1))
  then show ?thesis using that [where q = q and k' = k'] k q(2,3) assms(2) by (simp add: ros_on_event_def)
qed

end

lemma erase_first_append: "\<forall>x \<in> set xs. \<not> P x \<Longrightarrow> P y \<Longrightarrow> erase_first P (xs @ [y]) = Some (y, xs)"
  by (induction xs) auto

lemma erase_first_mset: "erase_first P xs = Some (y, ys) \<Longrightarrow> P y \<and> mset xs = add_mset y (mset ys)"
  by (induction xs arbitrary: ys) (auto split: if_splits Option.bind_splits)

section \<open>A request and its response\<close>

text \<open>
  C17: a request that has been sent arrives on the other side as the same id, type and bytes; the response that the other user gives to it arrives back
  at the callback of the request, with the bytes of the response, and nothing else happens: the request is gone from the pool and all
  others are still there. The sockets are connected, and the id is not that of another request that still waits.
\<close>

theorem ros_request_response:
  assumes so: "mux_channel sz ka" "mux_channel sz kb" "rs_so a" "rs_so b"
    and m: "rm_type m = T_NONE" "rm_data m = Some d" "pk_inv d" "pk_bytes d \<noteq> []" "length (pk_bytes d) + 3 \<le> mux_lim sz"
    and fresh: "\<forall>req \<in> set (rs_requested a). rm_net_id (rq_message req) \<noteq> rm_net_id m"
    and r: "rm_type r = T_NONE" "rm_data r = Some e" "pk_inv e" "pk_bytes e \<noteq> []" "length (pk_bytes e) + 3 \<le> mux_lim sz"
    and req: "ros_request (mux_socket junk) junk now ref m cb timeout a ka = Some (OK, m', a', ka')"
    and p: "pk_inv p" "pk_bytes p = last (mk_hist ka')"
  shows "\<exists>b' kb' inc. ros_on_event (mux_socket junk) ec 0 (Some p) b kb = Some (b', kb') \<and> rs_log b' = rs_log b @ [Ros_message inc] \<and>
    rm_type inc = T_REQUEST \<and> map_option pk_bytes (rm_data inc) = Some (pk_bytes d) \<and>
    (\<forall>r' kb2 p2. ros_respond (mux_socket junk) junk r inc b' kb' = Some (OK, r', kb2) \<and> pk_inv p2 \<and> pk_bytes p2 = last (mk_hist kb2) \<longrightarrow>
      (\<exists>a2 ka2 q. ros_on_event (mux_socket junk) ec 0 (Some p2) a' ka' = Some (a2, ka2) \<and> rs_requested a2 = rs_requested a \<and>
        rs_log a2 = rs_log a @ [Ros_respond cb (rm_net_id m) (Some q)] \<and> pk_bytes q = pk_bytes e))"
proof -
  let ?m = "m\<lparr> rm_type := T_REQUEST \<rparr>" and ?i = "rm_net_id m"
  let ?rq = "\<lparr> rq_ref = ref, rq_message = ?m, rq_cb = cb, rq_ts_request = now, rq_timeout = timeout \<rparr>"
  let ?a = "a\<lparr> rs_requested := rs_requested a @ [?rq] \<rparr>"
  have ty: "T_REQUEST \<noteq> T_NONE" "T_REQUEST < T_MAX" "T_RESPONSE \<noteq> T_NONE" "T_RESPONSE < T_MAX" "T_RESPONSE \<noteq> T_SEND" "T_RESPONSE \<noteq> T_REQUEST"
    by (simp_all add: ros_types)
  have block: "E_SOCKET_SEND_BLOCK \<noteq> OK" by (simp add: error_codes)
  have soa: "rs_so ?a" using so(3) by simp
  obtain rt k1 where s1: "do_send_message (mux_socket junk) junk ?m ?a ka = Some (rt, k1)" "mux_channel sz k1"
    "rt = OK \<and> mk_hist k1 = mk_hist ka @ [ros_frame ?i T_REQUEST (pk_bytes d)] \<or> rt = E_SOCKET_SEND_BLOCK \<and> mk_hist k1 = mk_hist ka"
    using mx.do_send_message_ok [OF so(1) soa, of ?m d junk junk] m ty by auto
  have e1: "rt = OK" "a' = ?a" "ka' = k1" using req m(1) s1(1,3) block by (auto simp: ros_request_def Let_def split: if_splits Option.bind_splits)
  have pb: "pk_bytes p = ros_frame ?i T_REQUEST (pk_bytes d)" using p(2) e1 s1(3) block by auto
  obtain k2 q where b: "ros_on_event (mux_socket junk) ec 0 (Some p) b kb =
      (case handle_incoming_message \<lparr> rm_net_id = ?i, rm_type = T_REQUEST, rm_data = Some q \<rparr> b of
         Inr s \<Rightarrow> Some (s, k2) | Inl s \<Rightarrow> do { (rt, k) \<leftarrow> mo_close (mux_socket junk) ec k2; Some (s, k) })"
      "mux_channel sz k2" "mk_hist k2 = mk_hist kb" "pk_inv q" "pk_bytes q = pk_bytes d"
    by (rule mx.ros_arrive_ok [OF so(2,4) p(1) pb ty(1)])
  let ?inc = "\<lparr> rm_net_id = ?i, rm_type = T_REQUEST, rm_data = Some q \<rparr>" and ?b = "ros_note [Ros_message \<lparr> rm_net_id = ?i, rm_type = T_REQUEST, rm_data = Some q \<rparr>] b"
  have b': "ros_on_event (mux_socket junk) ec 0 (Some p) b kb = Some (?b, k2)" using b(1) by (simp add: handle_incoming_message_def)
  have "\<exists>a2 ka2 q. ros_on_event (mux_socket junk) ec 0 (Some p2) a' ka' = Some (a2, ka2) \<and> rs_requested a2 = rs_requested a \<and>
      rs_log a2 = rs_log a @ [Ros_respond cb ?i (Some q)] \<and> pk_bytes q = pk_bytes e"
    if h: "ros_respond (mux_socket junk) junk r ?inc ?b k2 = Some (OK, r', kb2)" "pk_inv p2" "pk_bytes p2 = last (mk_hist kb2)" for r' kb2 p2
  proof -
    let ?r = "r\<lparr> rm_type := T_RESPONSE, rm_net_id := ?i \<rparr>"
    have sob: "rs_so ?b" using so(4) by (simp add: ros_note_def)
    obtain rt k3 where s3: "do_send_message (mux_socket junk) junk ?r ?b k2 = Some (rt, k3)" "mux_channel sz k3"
      "rt = OK \<and> mk_hist k3 = mk_hist k2 @ [ros_frame ?i T_RESPONSE (pk_bytes e)] \<or> rt = E_SOCKET_SEND_BLOCK \<and> mk_hist k3 = mk_hist k2"
      using mx.do_send_message_ok [OF b(2) sob, of ?r e junk junk] r ty by auto
    have "rt = OK" "kb2 = k3" using h(1) r(1) s3(1) by (auto simp: ros_respond_def Let_def)
    then have pb2: "pk_bytes p2 = ros_frame ?i T_RESPONSE (pk_bytes e)" using h(3) s3(3) block by auto
    have soa': "rs_so a'" "mux_channel sz ka'" using e1 soa s1(2) by simp_all
    obtain k4 q4 where f: "ros_on_event (mux_socket junk) ec 0 (Some p2) a' ka' =
        (case handle_incoming_message \<lparr> rm_net_id = ?i, rm_type = T_RESPONSE, rm_data = Some q4 \<rparr> a' of
           Inr s \<Rightarrow> Some (s, k4) | Inl s \<Rightarrow> do { (rt, k) \<leftarrow> mo_close (mux_socket junk) ec k4; Some (s, k) })" "pk_bytes q4 = pk_bytes e"
      by (rule mx.ros_arrive_ok [OF soa'(2,1) h(2) pb2 ty(3)])
    have "erase_first (\<lambda>req. rm_net_id (rq_message req) = ?i) (rs_requested a @ [?rq]) = Some (?rq, rs_requested a)"
      by (rule erase_first_append) (use fresh in auto)
    then have "handle_incoming_message \<lparr> rm_net_id = ?i, rm_type = T_RESPONSE, rm_data = Some q4 \<rparr> a' = Inr (ros_note [Ros_respond cb ?i (Some q4)] a)"
      using ty(5,6) e1(2) by (simp add: handle_incoming_message_def handle_resp_message_def Let_def)
    then show ?thesis using f by (simp add: ros_note_def)
  qed
  then show ?thesis using b' b(5) by (intro exI [of _ ?b] exI [of _ k2] exI [of _ ?inc]) (auto simp: ros_note_def)
qed

text \<open>A request of two bytes on a fresh socket.\<close>

abbreviation sample_message :: "packet \<Rightarrow> ros_message" where
  "sample_message d \<equiv> \<lparr> rm_net_id = 5, rm_type = T_NONE, rm_data = Some d \<rparr>"

lemma sample_request:
  obtains d k p m' a' k' where "pk_inv d" "pk_bytes d = [7, 8]" "mux_channel 98304 k" "pk_inv p" "pk_bytes p = last (mk_hist k')"
    "ros_request (mux_socket (\<lambda>_. 0)) (\<lambda>_. 0) 1 0 (sample_message d) 9 30000 (ros_new\<lparr> rs_so := True \<rparr>) k = Some (OK, m', a', k')"
proof -
  obtain d where d: "pk_inv d" "pk_bytes d = [7, 8]" by (rule sample_packet)
  obtain k where k: "mux_channel 98304 k" "rb_list (sk_m_sb (mk_socket k)) = []" by (rule sample_channel)
  let ?m = "sample_message d" and ?a = "ros_new\<lparr> rs_so := True \<rparr>"
  obtain p where p: "ros_encode (\<lambda>_. 0) (?m\<lparr> rm_type := T_REQUEST \<rparr>) = Some (OK, p)" "pk_inv p" "pk_bytes p = ros_frame 5 T_REQUEST [7, 8]" "100 \<le> pk_left_room p"
    using ros_encode_ok [of "?m\<lparr> rm_type := T_REQUEST \<rparr>" d "\<lambda>_. 0"] d by (auto simp: ros_types)
  have pb: "pk_bytes p \<noteq> []" "4 \<le> pk_left_room p" "length (pk_bytes p) \<le> mux_lim 98304 + 6" using p(3,4) by (simp_all add: ros_frame_def mux_lim_def)
  obtain k' where s: "mo_send (mux_socket (\<lambda>_. 0)) p k = Some (OK, k')" "mk_hist k' = mk_hist k @ [pk_bytes p]"
    using mux_socket_send [OF k(1) p(2) pb, of "\<lambda>_. 0"] k(2) by (auto simp: error_codes)
  obtain m' a' where r: "ros_request (mux_socket (\<lambda>_. 0)) (\<lambda>_. 0) 1 0 ?m 9 30000 ?a k = Some (OK, m', a', k')"
    using s(1) p(1) by (auto simp: ros_request_def do_send_message_def Let_def)
  show ?thesis by (rule that [OF d k(1) p(2) _ r]) (simp add: s(2))
qed

theorem ros_request_response_witness:
  "\<exists>a ka m m' a' ka' p b' kb' inc. ros_request (mux_socket (\<lambda>_. 0)) (\<lambda>_. 0) 1 0 m 9 30000 a ka = Some (OK, m', a', ka') \<and>
    pk_bytes p = last (mk_hist ka') \<and> ros_on_event (mux_socket (\<lambda>_. 0)) 0 0 (Some p) a ka = Some (b', kb') \<and> rs_log b' = [Ros_message inc] \<and>
    rm_type inc = T_REQUEST \<and> map_option pk_bytes (rm_data inc) = Some [7, 8]"
proof -
  obtain d k p m' a' k' where s: "pk_inv d" "pk_bytes d = [7, 8]" "mux_channel 98304 k" "pk_inv p" "pk_bytes p = last (mk_hist k')"
    "ros_request (mux_socket (\<lambda>_. 0)) (\<lambda>_. 0) 1 0 (sample_message d) 9 30000 (ros_new\<lparr> rs_so := True \<rparr>) k = Some (OK, m', a', k')"
    by (rule sample_request)
  let ?a = "ros_new\<lparr> rs_so := True \<rparr>"
  have lim: "length (pk_bytes d) + 3 \<le> mux_lim 98304" using s(2) by (simp add: mux_lim_def)
  obtain b' kb' inc where w: "ros_on_event (mux_socket (\<lambda>_. 0)) 0 0 (Some p) ?a k = Some (b', kb')" "rs_log b' = rs_log ?a @ [Ros_message inc]"
    "rm_type inc = T_REQUEST" "map_option pk_bytes (rm_data inc) = Some (pk_bytes d)"
    using ros_request_response [OF s(3,3) _ _ _ _ s(1) _ lim _ _ _ s(1) _ lim s(6,4,5), of ?a "sample_message d" 0] s(2) by (auto simp: ros_new_def)
  show ?thesis using s(5,6) w s(2) by (intro exI [of _ ?a] exI [of _ k] exI [of _ "sample_message d"] exI) (auto simp: ros_new_def)
qed

section \<open>Every request is answered once\<close>

text \<open>The calls of the callbacks in a log, and the requests that still wait: the callback and the id.\<close>

fun answer_of :: "ros_event \<Rightarrow> (nat \<times> net_id_t) list" where
  "answer_of (Ros_respond cb i d) = [(cb, i)]"
| "answer_of (Ros_error cb i ec) = [(cb, i)]"
| "answer_of (Ros_message m) = []"
| "answer_of (Ros_socket_event e) = []"

definition answered :: "ros \<Rightarrow> (nat \<times> net_id_t) list" where
  "answered s = concat (map answer_of (rs_log s))"

definition waiting :: "requested_message \<Rightarrow> nat \<times> net_id_t" where
  "waiting req = (rq_cb req, rm_net_id (rq_message req))"

text \<open>
  All that happens to a peer on any socket; the list has the requests for which request() returned OK. A message that waits is not
  requested a second time, since its type has been set.
\<close>

inductive ros_reach :: "'k mux_so \<Rightarrow> ros \<Rightarrow> (nat \<times> net_id_t) list \<Rightarrow> bool" for so where
  start: "ros_reach so ros_new []"
| attach: "ros_reach so s is \<Longrightarrow> ros_attach_socket s = Some s' \<Longrightarrow> ros_reach so s' is"
| detach: "ros_reach so s is \<Longrightarrow> ros_reach so (ros_detach_socket s) is"
| tick: "ros_reach so s is \<Longrightarrow> ros_reach so (ros_tick now s) is"
| request: "ros_reach so s is \<Longrightarrow> ref \<notin> rq_ref ` set (rs_requested s) \<Longrightarrow> ros_request so junk now ref m cb timeout s k = Some (rt, m', s', k') \<Longrightarrow>
    ros_reach so s' (is @ (if rt = OK then [(cb, rm_net_id m)] else []))"
| event: "ros_reach so s is \<Longrightarrow> ros_on_event so ec evt data s k = Some (s', k') \<Longrightarrow> ros_reach so s' is"
| receive: "ros_reach so s is \<Longrightarrow> do_receive_messages recv asize ec s (k :: 'k) = Some (n, ms, ec', s', k') \<Longrightarrow> ros_reach so s' is"

definition ros_account :: "ros \<Rightarrow> (nat \<times> net_id_t) list \<Rightarrow> bool" where
  "ros_account s is \<longleftrightarrow> mset is = mset (map waiting (rs_requested s)) + mset (answered s) \<and>
     (\<forall>req \<in> set (rs_requested s). rm_type (rq_message req) = T_REQUEST)"

text \<open>A handler leaves this state behind, whether it returns or throws.\<close>

definition leaves :: "ros + ros \<Rightarrow> ros \<Rightarrow> bool" where
  "leaves r s \<longleftrightarrow> r = Inl s \<or> r = Inr s"

lemma answered_note: "answered (ros_note es s) = answered s @ concat (map answer_of es)"
  by (simp add: answered_def ros_note_def)

lemma answered_errors: "concat (map answer_of (map (request_error ec) reqs)) = map waiting reqs"
  by (induction reqs) (simp_all add: request_error_def waiting_def)

lemma ros_account_cancel: "ros_account s is \<Longrightarrow> ros_account (cancel_all_request ec s) is"
  using answered_note [of "map (request_error ec) (rs_requested s)" s] answered_errors [of ec "rs_requested s"]
  by (simp add: ros_account_def cancel_all_request_def answered_def)

lemma ros_account_check: "ros_account s is \<Longrightarrow> ros_account (check_requested_message now s) is"
proof -
  let ?over = "filter (request_over now) (rs_requested s)" and ?rest = "filter (\<lambda>req. \<not> request_over now req) (rs_requested s)"
  have "mset (map waiting reqs) = mset (map waiting (filter P reqs)) + mset (map waiting (filter (\<lambda>req. \<not> P req) reqs))" for P reqs
    by (induction reqs) auto
  then have "mset (map waiting (rs_requested s)) = mset (map waiting ?over) + mset (map waiting ?rest)" .
  moreover have "answered (check_requested_message now s) = answered s @ map waiting ?over"
    using answered_note [of "map (request_error E_PEER_MESSAGE_REQUEST_TIMEOUT) ?over" s] answered_errors [of E_PEER_MESSAGE_REQUEST_TIMEOUT ?over]
    by (simp add: check_requested_message_def answered_def)
  ultimately show "ros_account s is \<Longrightarrow> ros_account (check_requested_message now s) is" by (simp add: ros_account_def check_requested_message_def)
qed

lemma ros_account_resp:
  assumes "ros_account s is" "leaves (handle_resp_message resp s) s'" shows "ros_account s' is"
proof (cases "erase_first (\<lambda>req. rm_net_id (rq_message req) = rm_net_id resp) (rs_requested s)")
  case None
  then show ?thesis using assms by (auto simp: handle_resp_message_def leaves_def split: if_splits)
next
  case (Some e)
  obtain rm rest where e: "e = (rm, rest)" by fastforce
  note m = erase_first_mset [OF Some [unfolded e]]
  have sub: "set (rs_requested s) = insert rm (set rest)" using m by (metis set_mset_add_mset_insert set_mset_mset)
  then have "rm_type (rq_message rm) = T_REQUEST" using assms(1) by (simp add: ros_account_def)
  then have "s' = s \<or> s' = ros_note [Ros_respond (rq_cb rm) (rm_net_id (rq_message rm)) (rm_data resp)] (s\<lparr> rs_requested := rest \<rparr>)"
    using assms(2) Some e m by (auto simp: handle_resp_message_def leaves_def Let_def split: if_splits)
  then consider "s' = s" | (found) "s' = ros_note [Ros_respond (rq_cb rm) (rm_net_id (rq_message rm)) (rm_data resp)] (s\<lparr> rs_requested := rest \<rparr>)" by blast
  then show ?thesis
  proof cases
    case found
    have "answered s' = answered s @ [waiting rm]" by (simp add: found answered_note waiting_def) (simp add: answered_def)
    moreover have "rs_requested s' = rest" by (simp add: found ros_note_def)
    moreover have "mset (map waiting (rs_requested s)) = add_mset (waiting rm) (mset (map waiting rest))" using m by (metis image_mset_add_mset mset_map)
    ultimately show ?thesis using assms(1) sub by (simp add: ros_account_def)
  qed (use assms(1) in simp)
qed

lemma ros_account_silent: "ros_account s is \<Longrightarrow> rs_requested s' = rs_requested s \<Longrightarrow> answered s' = answered s \<Longrightarrow> ros_account s' is"
  by (simp add: ros_account_def)

lemma ros_account_incoming:
  assumes "ros_account s is" "leaves (handle_incoming_message m s) s'" shows "ros_account s' is"
proof (cases "rm_type m = T_SEND \<or> rm_type m = T_REQUEST")
  case True
  then have s': "s' = ros_note [Ros_message m] s" using assms(2) by (simp add: handle_incoming_message_def leaves_def)
  show ?thesis by (rule ros_account_silent [OF assms(1)]) (simp_all add: s' answered_note, simp add: ros_note_def)
next
  case False
  then have "s' = s \<or> leaves (handle_resp_message m s) s'" using assms(2) by (auto simp: handle_incoming_message_def leaves_def split: if_splits)
  then show ?thesis using assms(1) ros_account_resp by blast
qed

lemma ros_account_event:
  assumes "ros_account s is" "ros_on_event so ec evt data s k = Some (s', k')" shows "ros_account s' is"
proof (cases "evt = 0")
  case True
  then obtain p where "leaves (handle_arrives p s) s'"
    using assms(2) by (auto simp: ros_on_event_def wawo_assert_def leaves_def split: if_splits Option.bind_splits sum.splits)
  then have "s' = s \<or> (\<exists>m. leaves (handle_incoming_message m s) s')"
    by (auto simp: handle_arrives_def leaves_def split: option.splits list.splits)
  then show ?thesis using assms(1) ros_account_incoming by blast
next
  case False
  then have s': "s' = ros_note [Ros_socket_event evt] s" using assms(2) by (auto simp: ros_on_event_def wawo_assert_def split: if_splits)
  show ?thesis by (rule ros_account_silent [OF assms(1)]) (simp_all add: s' answered_note, simp add: ros_note_def)
qed

lemma ros_account_receive:
  assumes "ros_account s is" "do_receive_messages recv asize ec s k = Some (n, ms, ec', s', k')" shows "ros_account s' is"
proof -
  have "s' = s \<or> (\<exists>m. leaves (handle_resp_message m s) s')"
    using assms(2) by (auto simp: do_receive_messages_def wawo_assert_def leaves_def split: if_splits Option.bind_splits list.splits sum.splits)
  then show ?thesis using assms(1) ros_account_resp by blast
qed

lemma ros_account_request:
  assumes "ros_account s is" "ref \<notin> rq_ref ` set (rs_requested s)" "ros_request so junk now ref m cb timeout s k = Some (rt, m', s', k')"
  shows "ros_account s' (is @ (if rt = OK then [(cb, rm_net_id m)] else []))"
proof -
  let ?rq = "\<lparr> rq_ref = ref, rq_message = m\<lparr> rm_type := T_REQUEST \<rparr>, rq_cb = cb, rq_ts_request = now, rq_timeout = timeout \<rparr>"
  have e: "erase_first (\<lambda>req. rq_ref req = ref) (rs_requested s @ [?rq]) = Some (?rq, rs_requested s)"
    by (rule erase_first_append) (use assms(2) in auto)
  have "s' = (if rt = OK then s\<lparr> rs_requested := rs_requested s @ [?rq] \<rparr> else s\<lparr> rs_requested := rs_requested s \<rparr>)"
    using assms(3) e by (auto simp: ros_request_def Let_def wawo_assert_def split: if_splits Option.bind_splits)
  then show ?thesis using assms(1) by (auto simp: ros_account_def answered_def waiting_def)
qed

text \<open>
  C16: whatever happens, on a socket that may behave in any way, each call being one step: every request for which request() returned OK either still waits, or its callback has been
  called exactly once (with a response, a timeout or an error). After detach_socket() none waits, so all callbacks have been called.
\<close>

theorem ros_requests_answered_once:
  assumes "ros_reach so s is"
  shows "mset is = mset (map waiting (rs_requested s)) + mset (answered s) \<and> mset (answered (ros_detach_socket s)) = mset is"
proof -
  have "ros_account s is" using assms
  proof (induction rule: ros_reach.induct)
    case start
    show ?case by (simp add: ros_account_def ros_new_def answered_def)
  next
    case (attach s "is" s')
    then show ?case by (auto simp: ros_attach_socket_def wawo_assert_def ros_account_def answered_def split: if_splits)
  next
    case (detach s "is")
    have "ros_account (s\<lparr> rs_so := False \<rparr>) is" by (rule ros_account_silent [OF detach.IH]) (simp_all add: answered_def)
    then show ?case unfolding ros_detach_socket_def by (rule ros_account_cancel)
  next
    case (tick s "is" now)
    then show ?case unfolding ros_tick_def by (intro ros_account_check)
  next
    case (request s "is" ref junk now m cb timeout k rt m' s' k')
    then show ?case by (intro ros_account_request)
  next
    case (event s "is" ec evt data k s' k')
    then show ?case by (blast intro: ros_account_event)
  next
    case (receive s "is" recv asize ec k n ms ec' s' k')
    then show ?case by (blast intro: ros_account_receive)
  qed
  moreover from this have "ros_account (s\<lparr> rs_so := False \<rparr>) is" by (rule ros_account_silent) (simp_all add: answered_def)
  then have "ros_account (ros_detach_socket s) is" unfolding ros_detach_socket_def by (rule ros_account_cancel)
  moreover have "rs_requested (ros_detach_socket s) = []" by (simp add: ros_detach_socket_def cancel_all_request_def)
  ultimately show ?thesis by (simp add: ros_account_def)
qed

theorem ros_requests_answered_once_witness:
  "\<exists>s. ros_reach (mux_socket (\<lambda>_. 0)) s [(9, 5)] \<and> mset (answered (ros_detach_socket s)) = {#(9, 5)#}"
proof -
  obtain d k m' a' k' where r: "ros_request (mux_socket (\<lambda>_. 0)) (\<lambda>_. 0) 1 0 (sample_message d) 9 30000 (ros_new\<lparr> rs_so := True \<rparr>) k = Some (OK, m', a', k')"
    by (rule sample_request)
  have "ros_attach_socket ros_new = Some (ros_new\<lparr> rs_so := True \<rparr>)" by (simp add: ros_attach_socket_def ros_new_def)
  then have "ros_reach (mux_socket (\<lambda>_. 0)) (ros_new\<lparr> rs_so := True \<rparr>) []" by (rule ros_reach.attach [OF ros_reach.start])
  then have "ros_reach (mux_socket (\<lambda>_. 0)) a' ([] @ (if OK = OK then [(9, rm_net_id (sample_message d))] else []))"
    by (rule ros_reach.request [OF _ _ r]) (simp add: ros_new_def)
  then have a: "ros_reach (mux_socket (\<lambda>_. 0)) a' [(9, 5)]" by simp
  from ros_requests_answered_once [OF a] a show ?thesis by auto
qed

end
