(* ===== verification/Mux_Close.thy ===== *)
theory Mux_Close
  imports Mux_Socket
begin

text \<open>
  Closing: the life of a stream of the multiplexing peer, and what is left when its socket is closed. The last section
  is about the buffer that the first flush replaces.
\<close>

section \<open>The life of a stream\<close>

text \<open>Everything the peer and its user do to a stream, in any order.\<close>

inductive stream_life :: "'k mux_so \<Rightarrow> mux_stream \<Rightarrow> bool" for so where
  opened: "stream_init junk = Some s \<Longrightarrow> i \<noteq> 0 \<Longrightarrow> stream_open i ctx s = Some (rt, s') \<Longrightarrow> stream_life so s'"
| accepted: "stream_init junk = Some s \<Longrightarrow> i \<noteq> 0 \<Longrightarrow> stream_life so (s\<lparr> ms_state := SS_ESTABLISHED, ms_id := i \<rparr>)"
| user_context: "stream_life so s \<Longrightarrow> stream_life so (s\<lparr> ms_ctx := ctx \<rparr>)"
| user_write: "stream_life so s \<Longrightarrow> stream_write p s = Some (rt, s') \<Longrightarrow> stream_life so s'"
| user_read: "stream_life so s \<Longrightarrow> stream_read junk mx s = Some (n, p, s') \<Longrightarrow> stream_life so s'"
| user_close_read: "stream_life so s \<Longrightarrow> close_read s = (rt, s') \<Longrightarrow> stream_life so s'"
| user_close_write: "stream_life so s \<Longrightarrow> close_write s = Some (rt, s') \<Longrightarrow> stream_life so s'"
| user_close: "stream_life so s \<Longrightarrow> stream_close s = Some (rt, s') \<Longrightarrow> stream_life so s'"
| forced: "stream_life so s \<Longrightarrow> stream_life so (force_close s)"
| data_arrived: "stream_life so s \<Longrightarrow> stream_life so (s\<lparr> ms_rb := rb \<rparr>)"
| window_arrived: "stream_life so s \<Longrightarrow> stream_life so (s\<lparr> ms_wb_wnd := w \<rparr>)"
| updated: "stream_life so s \<Longrightarrow> stream_update so junk s k = Some (wfl, s', k') \<Longrightarrow> stream_life so s'"

lemma stream_exps:
  "STREAM_READ_SHUTDOWN_CALLED = 2 ^ 0" "STREAM_READ_SHUTDOWN = 2 ^ 1" "STREAM_WRITE_SHUTDOWN_CALLED = 2 ^ 2" "STREAM_WRITE_SHUTDOWN = 2 ^ 3"
  "STREAM_PLAN_FIN = 2 ^ 4" "STREAM_PLAN_SYN = 2 ^ 5" "STREAM_BUFFER_DETERMINED = 2 ^ 6"
  by (simp_all add: stream_flags)

lemma has_stream_flag [simp]:
  "has_flag f STREAM_READ_SHUTDOWN_CALLED \<longleftrightarrow> bit f 0" "has_flag f STREAM_READ_SHUTDOWN \<longleftrightarrow> bit f 1"
  "has_flag f STREAM_WRITE_SHUTDOWN_CALLED \<longleftrightarrow> bit f 2" "has_flag f STREAM_WRITE_SHUTDOWN \<longleftrightarrow> bit f 3"
  "has_flag f STREAM_PLAN_FIN \<longleftrightarrow> bit f 4" "has_flag f STREAM_PLAN_SYN \<longleftrightarrow> bit f 5" "has_flag f STREAM_BUFFER_DETERMINED \<longleftrightarrow> bit f 6"
  unfolding stream_exps by (rule has_flag_exp)+

lemma stream_flag_bit [simp]:
  "bit STREAM_READ_SHUTDOWN_CALLED n \<longleftrightarrow> n = 0" "bit STREAM_READ_SHUTDOWN n \<longleftrightarrow> n = 1"
  "bit STREAM_WRITE_SHUTDOWN_CALLED n \<longleftrightarrow> n = 2" "bit STREAM_WRITE_SHUTDOWN n \<longleftrightarrow> n = 3"
  "bit STREAM_PLAN_FIN n \<longleftrightarrow> n = 4" "bit STREAM_PLAN_SYN n \<longleftrightarrow> n = 5" "bit STREAM_BUFFER_DETERMINED n \<longleftrightarrow> n = 6"
  unfolding stream_exps by (simp_all only: bit_exp_iff possible_bit_word) auto

text \<open>For as long as the user has not closed the writing side, the stream is established and has not planned or sent FIN.\<close>

definition stream_inv :: "mux_stream \<Rightarrow> bool" where
  "stream_inv s \<longleftrightarrow> (\<not> bit (ms_flag s) 2 \<longrightarrow> ms_state s = SS_ESTABLISHED \<and> ms_id s \<noteq> 0 \<and> \<not> bit (ms_flag s) 4 \<and> \<not> bit (ms_flag s) 3)"

definition same_life :: "mux_stream \<Rightarrow> mux_stream \<Rightarrow> bool" where
  "same_life s s' \<longleftrightarrow> ms_flag s' = ms_flag s \<and> ms_state s' = ms_state s \<and> ms_id s' = ms_id s \<and> ms_ctx s' = ms_ctx s"

lemma stream_inv_same: "stream_inv s \<Longrightarrow> same_life s s' \<Longrightarrow> stream_inv s'"
  by (simp add: stream_inv_def same_life_def)

lemma stream_inv_force: "stream_inv (force_close s)"
  by (simp add: stream_inv_def force_close_def bit_or_iff)

lemma stream_inv_close_read: "stream_inv s \<Longrightarrow> stream_inv (shut_stream_read s)"
  by (simp add: stream_inv_def shut_stream_read_def Let_def bit_or_iff)

lemma stream_inv_close_write:
  assumes "stream_inv s" "\<not> bit (ms_flag s) 2"
  obtains s' where "shut_stream_write s = Some s'" "stream_inv s'" "ms_id s' = ms_id s" "ms_ctx s' = ms_ctx s"
  using assms by (auto simp: stream_inv_def shut_stream_write_def snd_fin_def bit_or_iff)

lemma stream_close_ok:
  assumes "stream_inv s"
  shows "\<exists>rt s'. stream_close s = Some (rt, s') \<and> stream_inv s' \<and> ms_id s' = ms_id s \<and> ms_ctx s' = ms_ctx s"
proof (cases "bit (ms_flag s) 0 \<and> bit (ms_flag s) 2")
  case True
  then show ?thesis using assms by (simp add: stream_close_def)
next
  case False
  let ?s = "if \<not> bit (ms_flag s) 0 then shut_stream_read s else s"
  have i: "stream_inv ?s" "ms_id ?s = ms_id s" "ms_ctx ?s = ms_ctx s"
    using assms stream_inv_close_read by (auto simp: shut_stream_read_def Let_def)
  have start: "stream_close s = (if bit (ms_flag ?s) 2 then Some (OK, ?s) else do { s \<leftarrow> shut_stream_write ?s; Some (OK, s) })"
    using False unfolding stream_close_def Let_def has_stream_flag by (simp del: if_split) auto
  show ?thesis
  proof (cases "bit (ms_flag ?s) 2")
    case True
    then show ?thesis using start i by metis
  next
    case w: False
    obtain s' where "shut_stream_write ?s = Some s'" "stream_inv s'" "ms_id s' = ms_id ?s" "ms_ctx s' = ms_ctx ?s"
      by (rule stream_inv_close_write [OF i(1) w])
    then show ?thesis using start w i(2,3) by (metis Option.bind.bind_lunit)
  qed
qed

lemma flush_data_same:
  assumes "flush_data so junk fl ec s k = Some (fl', ec', s', k')" shows "same_life s s'"
proof -
  have "same_life s (fst (snd (snd (fl', ec', s', k'))))"
  proof (rule flush_data.raw_induct [where P = "\<lambda>so junk fl ec s k y. same_life s (fst (snd (snd y)))", OF _ assms])
    fix f :: "'a mux_so \<Rightarrow> (nat \<Rightarrow> byte) \<Rightarrow> u32 \<Rightarrow> int \<Rightarrow> mux_stream \<Rightarrow> 'a \<Rightarrow> (u32 \<times> int \<times> mux_stream \<times> 'a) option"
      and so junk fl ec s k y
    assume ih: "\<And>so junk fl ec s k y. f so junk fl ec s k = Some y \<Longrightarrow> same_life s (fst (snd (snd y)))"
    have same: "same_life s (fst (snd (snd y)))" if "f so junk fl ec (s\<lparr> ms_wb := wb, ms_wb_wnd := w \<rparr>) k = Some y" for so junk fl ec k y wb w
      using ih [OF that] by (simp add: same_life_def)
    have refl: "same_life s s" by (simp add: same_life_def)
    let ?body = "if rb_count (ms_wb s) \<noteq> 0 \<and> fl < MUX_STREAM_WND_SIZE \<and> ms_wb_wnd s > 0 then do {
        let can_send_max = MUX_STREAM_WND_SIZE - fl;
        let can_send_max = (if can_send_max > ms_wb_wnd s then ms_wb_wnd s else can_send_max);
        opack \<leftarrow> packet_new junk can_send_max PACK_INIT_LEFT_CAPACITY;
        (nbytes, d, wb) \<leftarrow> rb_peek (ms_wb s) can_send_max;
        mem \<leftarrow> mem_write (pk_m_buffer opack) (unat (pk_m_read_idx opack)) d;
        wawo_assert (nbytes > 0 \<and> nbytes \<le> can_send_max);
        opack \<leftarrow> pk_forward_write_index (opack\<lparr> pk_m_buffer := mem \<rparr>) nbytes;
        (ec_o, k) \<leftarrow> send_message so junk (ms_id s) T_DATA (Some opack) k;
        if ec_o \<noteq> OK then Some (fl, ec_o, s, k)
        else do {
          wb \<leftarrow> rb_skip (ms_wb s) nbytes;
          wawo_assert (ms_wb_wnd s \<ge> nbytes);
          f so junk (fl + nbytes) ec_o (s\<lparr> ms_wb := wb, ms_wb_wnd := ms_wb_wnd s - nbytes \<rparr>) k } }
      else Some (fl, ec, s, k)"
    assume "?body = Some y"
    then show "same_life s (fst (snd (snd y)))" using refl
      by (auto simp: Let_def wawo_assert_def split: if_splits Option.bind_splits dest!: same)
  qed
  then show ?thesis by simp
qed

lemma flush_wnd_same: "flush_wnd so junk s k = Some (ec, s', k') \<Longrightarrow> same_life s s'"
  by (auto simp: flush_wnd_def same_life_def split: if_splits Option.bind_splits prod.splits)

lemma stream_inv_flush_fin: "flush_fin so junk s k = Some (ec, s', k') \<Longrightarrow> stream_inv s \<Longrightarrow> stream_inv s'"
  by (auto simp: flush_fin_def stream_inv_def bit_or_iff bit_clear split: if_splits Option.bind_splits prod.splits)

lemma stream_inv_determine: "determine_buffer so junk s k = Some s' \<Longrightarrow> stream_inv s \<Longrightarrow> stream_inv s'"
  by (auto simp: determine_buffer_def stream_inv_def Let_def bit_or_iff wawo_assert_def split: if_splits Option.bind_splits prod.splits)

lemma stream_inv_flush_syn: "flush_syn so junk s k = Some (ec, s', k') \<Longrightarrow> stream_inv s \<Longrightarrow> stream_inv s'"
  by (auto simp: flush_syn_def stream_inv_def bit_clear split: if_splits Option.bind_splits prod.splits)

lemma stream_inv_flush:
  assumes "stream_flush so junk s k = Some (ec, wfl, s', k')" "stream_inv s" shows "stream_inv s'"
proof -
  obtain ec1 s1 k1 where w: "flush_wnd so junk s k = Some (ec1, s1, k1)" using assms(1) by (auto simp: stream_flush_def split: Option.bind_splits)
  then have i1: "stream_inv s1" using stream_inv_same [OF assms(2) flush_wnd_same [OF w]] by simp
  show ?thesis
  proof (cases "ec1 \<noteq> OK \<or> ms_rb_incre s1 = 0 \<and> bit (ms_flag s1) 3 \<and> bit (ms_flag s1) 1 \<or> bit (ms_flag s1) 3 \<or> rb_count (ms_wb s1) = 0")
    case True
    then show ?thesis using assms(1) w i1
      by (auto simp: stream_flush_def stream_inv_def split: if_splits Option.bind_splits dest: stream_inv_flush_fin)
  next
    case False
    then obtain s2 ec3 s3 k3 where d: "determine_buffer so junk s1 k1 = Some s2" "flush_syn so junk s2 k1 = Some (ec3, s3, k3)"
      using assms(1) w by (auto simp: stream_flush_def split: Option.bind_splits)
    have i3: "stream_inv s3" using stream_inv_flush_syn [OF d(2)] stream_inv_determine [OF d(1)] i1 by blast
    show ?thesis
    proof (cases "ec3 = OK")
      case ok: True
      obtain fl4 ec4 s4 k4 where f: "flush_data so junk 0 ec3 s3 k3 = Some (fl4, ec4, s4, k4)"
        using assms(1) w d False ok by (auto simp: stream_flush_def split: Option.bind_splits)
      have "stream_inv s4" using stream_inv_same [OF i3 flush_data_same [OF f]] by simp
      then show ?thesis using assms(1) w d False ok f by (auto simp: stream_flush_def stream_inv_def split: if_splits)
    next
      case nok: False
      then show ?thesis using assms(1) w d False i3 by (auto simp: stream_flush_def)
    qed
  qed
qed

lemma stream_inv_update: "stream_update so junk s k = Some (wfl, s', k') \<Longrightarrow> stream_inv s \<Longrightarrow> stream_inv s'"
proof (cases "ms_state s")
  case SS_ESTABLISHED
  assume u: "stream_update so junk s k = Some (wfl, s', k')" "stream_inv s"
  then obtain ec wfl1 s1 k1 where f: "stream_flush so junk s k = Some (ec, wfl1, s1, k1)" using SS_ESTABLISHED by (auto simp: stream_update_def split: Option.bind_splits)
  with u SS_ESTABLISHED stream_inv_flush [OF f u(2)] show ?thesis
    by (auto simp: stream_update_def stream_inv_force split: if_splits Option.bind_splits)
qed (auto simp: stream_update_def stream_inv_def split: if_splits)

lemma stream_life_inv: "stream_life so s \<Longrightarrow> stream_inv s"
proof (induction rule: stream_life.induct)
  case (opened junk s i ctx rt s')
  obtain t where t: "stream_init junk = Some t" "ms_flag t = 0" by (rule stream_init_ok)
  then show ?case using opened by (auto simp: stream_open_def snd_syn_def stream_inv_def bit_or_iff wawo_assert_def split: if_splits)
next
  case (accepted junk s i)
  obtain t where t: "stream_init junk = Some t" "ms_flag t = 0" by (rule stream_init_ok)
  then show ?case using accepted by (auto simp: stream_inv_def)
next
  case (user_write s p rt s')
  then have "same_life s s'" by (auto simp: stream_write_def same_life_def wawo_assert_def split: if_splits Option.bind_splits)
  then show ?case by (rule stream_inv_same [OF user_write.IH])
next
  case (user_read s junk mx n p s')
  then have "same_life s s'" by (auto simp: stream_read_def same_life_def Let_def split: if_splits Option.bind_splits)
  then show ?case by (rule stream_inv_same [OF user_read.IH])
next
  case (user_close_read s rt s')
  then show ?case using stream_inv_close_read by (auto simp: close_read_def split: if_splits)
next
  case (user_close_write s rt s')
  show ?case
  proof (cases "bit (ms_flag s) 2")
    case False
    obtain t where "shut_stream_write s = Some t" "stream_inv t" by (rule stream_inv_close_write [OF user_close_write.IH False])
    then show ?thesis using user_close_write.hyps(2) False by (simp add: close_write_def)
  qed (use user_close_write in \<open>simp add: close_write_def\<close>)
next
  case (user_close s rt s')
  then show ?case using stream_close_ok [of s] by auto
next
  case (updated s junk k wfl s' k')
  then show ?case by (blast intro: stream_inv_update)
qed (auto simp: stream_inv_force, auto simp: stream_inv_def)

section \<open>A closed socket\<close>

text \<open>A socket after close(), and the packets that \<open>_stream_snd_rst\<close> leaves for later.\<close>

definition so_shut :: "hlen_packet socket \<Rightarrow> bool" where
  "so_shut s \<longleftrightarrow> sk_m_state s = S_CLOSED \<and> has_flag (sk_m_wflag s) SHUTDOWN_WR \<and> sk_m_tlp s \<noteq> None \<and> 10 \<le> unat (rb_capacity (sk_m_sb s))"

definition rst_packet :: "packet \<Rightarrow> bool" where
  "rst_packet p \<longleftrightarrow> pk_inv p \<and> length (pk_bytes p) = 6 \<and> 4 \<le> pk_left_room p"

lemma send_shut:
  assumes "so_shut (mk_socket k)" "rst_packet p"
  shows "mo_send (mux_socket junk) p k = Some (E_SOCKET_WR_SHUTDOWN_ALREADY, k)"
proof -
  have p: "pk_inv p" "pk_bytes p \<noteq> []" "4 \<le> pk_left_room p" "length (pk_bytes p) = 6" using assms(2) by (auto simp: rst_packet_def)
  obtain t where t: "sk_m_tlp (mk_socket k) = Some t" using assms(1) by (auto simp: so_shut_def)
  obtain out where o': "hlen_encode junk p = Some (OK, Some out)" "pk_inv out" "pk_bytes out = hl_frame (pk_bytes p)"
    using hlen_encode_ok [OF p(1-3), of junk] by blast
  have same: "(mk_socket k)\<lparr> sk_m_tlp := Some t \<rparr> = mk_socket k" using t by simp
  have l: "length (hl_frame (pk_bytes p)) = 10" using p(4) by (simp add: hl_frame_def)
  have "(10 :: u32) \<le> rb_capacity (sk_m_sb (mk_socket k))" using assms(1) by (simp add: so_shut_def word_le_unat)
  then have "so_send standard_fns (mk_now k) (hl_frame (pk_bytes p)) 0 F_SEND_USE_SND_BUFFER (mk_socket k) (mk_kernel k) =
      Some (0, E_SOCKET_WR_SHUTDOWN_ALREADY, mk_socket k, mk_kernel k)"
    using l assms(1) by (simp add: so_send_def so_shut_def)
  moreover have "E_SOCKET_WR_SHUTDOWN_ALREADY \<noteq> OK" by (simp add: E_SOCKET_WR_SHUTDOWN_ALREADY_def error_codes)
  ultimately show ?thesis using t o' l by (simp add: mux_socket_def send_packet_def hlen_tlp_def pk_content_ok same)
qed

lemma send_outps_shut:
  assumes "so_shut (mk_socket k)" "list_all rst_packet ps" shows "send_outps (mux_socket junk) True ps k = Some ([], k)"
proof -
  have "E_SOCKET_WR_SHUTDOWN_ALREADY \<noteq> E_SOCKET_SEND_BLOCK" by (simp add: E_SOCKET_WR_SHUTDOWN_ALREADY_def error_codes)
  with assms show ?thesis by (induction ps) (simp_all add: send_shut)
qed

lemma snd_rst_packet:
  assumes "stream_snd_rst so junk i m k = Some (m', k')" "list_all rst_packet (mx_outps m)" shows "list_all rst_packet (mx_outps m')"
proof -
  obtain p where p: "packet_default junk = Some p" "pk_inv p" "pk_bytes p = []" "128 \<le> pk_left_room p" using packet_default_ok [of junk] by blast
  obtain q where q: "pk_write_left_T junk p T_RST = Some q" "pk_inv q" "pk_bytes q = write_impl T_RST" "126 \<le> pk_left_room q"
    using pk_write_left_T_ok [OF p(2), where t = T_RST and junk = junk] p(3,4) by (auto simp: sizeof_simps)
  obtain r where r: "pk_write_left_T junk q i = Some r" "pk_inv r" "pk_bytes r = write_impl i @ write_impl T_RST" "122 \<le> pk_left_room r"
    using pk_write_left_T_ok [OF q(2), where t = i and junk = junk] q(3,4) by (auto simp: sizeof_simps)
  have "rst_packet r" using r by (simp add: rst_packet_def)
  then show ?thesis using assms p(1) q(1) r(1) by (auto simp: stream_snd_rst_def wawo_assert_def split: if_splits Option.bind_splits)
qed

abbreviation closed_event :: "stream_id_t \<times> mux_stream \<Rightarrow> mux_event" where
  "closed_event e \<equiv> Mux_schedule T_CLOSED (ms_id (snd e)) (ms_ctx (snd e))"

lemma tick_streams_disconnected: "tick_streams so junk True es k = Some ([], map closed_event es, k)"
  by (induction es) (simp_all add: stream_update_def force_close_def tick_events_def bit_or_iff)

lemma close_streams_ok:
  "\<forall>e \<in> set es. stream_inv (snd e) \<Longrightarrow> \<exists>es'. close_streams es = Some es' \<and> length es' = length es \<and> map closed_event es' = map closed_event es"
proof (induction es)
  case (Cons e es)
  obtain rt s' where "stream_close (snd e) = Some (rt, s')" "ms_id s' = ms_id (snd e)" "ms_ctx s' = ms_ctx (snd e)"
    using stream_close_ok [of "snd e"] Cons.prems by auto
  with Cons show ?case by auto
qed simp

text \<open>
  C14: when the socket of a multiplexing peer has been closed, the handler of E_CLOSE ends: the loop that ticks until no stream is left runs at
  most once, no stream remains, every stream is reported closed exactly once, in the order of the ids, and the event of the socket follows. This
  holds whatever has been done to the streams before.
\<close>

theorem mux_close_drains:
  assumes "\<forall>e \<in> set (mx_stream_map m). stream_life (mux_socket junk) (snd e)" "list_all rst_packet (mx_outps m)"
    and "mx_so m" "so_shut (mk_socket k)"
  shows "\<exists>m'. mux_on_event (mux_socket junk) junk' E_CLOSE None m k = Some (m', k) \<and> mx_stream_map m' = [] \<and> mx_mux_state m' = SOCKET_CLOSED \<and>
    mx_log m' = mx_log m @ map (\<lambda>e. Mux_schedule T_CLOSED (ms_id (snd e)) (ms_ctx (snd e))) (mx_stream_map m) @ [Mux_socket_event E_CLOSE]"
proof -
  have "\<forall>e \<in> set (mx_stream_map m). stream_inv (snd e)" using assms(1) stream_life_inv by blast
  then obtain es where es: "close_streams (mx_stream_map m) = Some es" "map closed_event es = map closed_event (mx_stream_map m)"
    using close_streams_ok by blast
  let ?m = "m\<lparr> mx_mux_state := SOCKET_CLOSED, mx_stream_map := es \<rparr>"
  have dis: "\<not> mo_connected (mux_socket junk) k" using assms(4) by (simp add: mux_socket_def so_shut_def)
  have "\<exists>m'. drain_streams (mux_socket junk) junk' ?m k = Some (m', k) \<and> mx_stream_map m' = [] \<and> mx_mux_state m' = SOCKET_CLOSED \<and>
      mx_log m' = mx_log m @ map closed_event es"
  proof (cases "es = []")
    case False
    have "do_tick (mux_socket junk) junk' ?m k = Some (?m\<lparr> mx_outps := [], mx_stream_map := [], mx_log := mx_log m @ map closed_event es \<rparr>, k)"
      using send_outps_shut [OF assms(4,2), of junk] assms(3) dis by (simp add: do_tick_def tick_streams_disconnected)
    then show ?thesis using False by (subst drain_streams.simps) (simp add: drain_streams.simps)
  qed (simp add: drain_streams.simps)
  then show ?thesis using es assms(3) by (auto simp: mux_on_event_def shut_streams_def mux_note_def E_CLOSE_def)
qed

theorem mux_close_drains_witness:
  "\<exists>m k m'. length (mx_stream_map m) = 1 \<and> mux_on_event (mux_socket (\<lambda>_. 0)) (\<lambda>_. 0) E_CLOSE None m k = Some (m', k) \<and>
    mx_log m' = [Mux_schedule T_CLOSED 5 (Some 3), Mux_socket_event E_CLOSE]"
proof -
  obtain t s where s: "stream_init (\<lambda>_. 0) = Some t" "stream_open 5 (Some 3) t = Some (OK, s)" "ms_id s = 5" "ms_ctx s = Some 3"
    by (rule mux_stream_open_fresh [of 5 "\<lambda>_. 0" "Some 3"]) simp
  let ?m = "mux_start\<lparr> mx_stream_map := [(5, s)] \<rparr>"
  obtain k where k: "mux_channel 98304 k" by (rule sample_channel)
  let ?k = "k\<lparr> mk_socket := (mk_socket k)\<lparr> sk_m_state := S_CLOSED, sk_m_wflag := SHUTDOWN_WR \<rparr> \<rparr>"
  have "so_shut (mk_socket ?k)" using k by (auto simp: mux_channel_def so_shut_def so_live_def so_inv_def has_flag_def SHUTDOWN_WR_def)
  moreover have "stream_life (mux_socket (\<lambda>_. 0)) s" by (rule stream_life.opened [OF s(1) _ s(2)]) simp
  moreover have m: "list_all rst_packet (mx_outps ?m)" "mx_so ?m" "mx_stream_map ?m = [(5, s)]" "mx_log ?m = []" by (simp_all add: mux_start_def mux_new_def)
  ultimately obtain m' where "mux_on_event (mux_socket (\<lambda>_. 0)) (\<lambda>_. 0) E_CLOSE None ?m ?k = Some (m', ?k)"
    "mx_log m' = mx_log ?m @ map (\<lambda>e. Mux_schedule T_CLOSED (ms_id (snd e)) (ms_ctx (snd e))) (mx_stream_map ?m) @ [Mux_socket_event E_CLOSE]"
    using mux_close_drains [of ?m "\<lambda>_. 0" ?k "\<lambda>_. 0"] by auto
  then show ?thesis using m(3,4) s(3,4) by (intro exI [of _ ?m] exI [of _ ?k] exI [of _ m']) simp
qed

section \<open>The first flush\<close>

text \<open>
  C31: the first flush of a stream replaces its write buffer by one that is 1024 bytes smaller than the send buffer of the socket, and drops the
  bytes that do not fit: of a packet that the user has written, and for which write() has returned OK, only the first part is ever sent. With the
  default send buffer of 96 KiB everything after 97280 bytes is lost.
\<close>

theorem mux_first_flush_truncates:
  assumes "mux_stream_open junk i ctx mux_start = Some (Some s, rt, m)" "i \<noteq> 0" "mux_channel sz k"
    and "pk_inv p" "pk_bytes p \<noteq> []" "length (pk_bytes p) \<le> 262144"
  shows "\<exists>s1 s2. stream_write p s = Some (OK, s1) \<and> rb_list (ms_wb s1) = pk_bytes p \<and> determine_buffer (mux_socket junk) junk' s1 k = Some s2 \<and>
    rb_list (ms_wb s2) = take (mux_lim sz) (pk_bytes p)"
proof -
  obtain u where "mux_stream_open junk i ctx mux_start = Some (Some u, OK, mux_start\<lparr> mx_stream_map := [(i, u)] \<rparr>)"
    "stream_ok (mux_lim sz) i u" "fresh_stream u" "ms_flag u = STREAM_PLAN_SYN" by (rule mux_stream_open_fresh [OF assms(2)])
  then have ok: "stream_ok (mux_lim sz) i s" and nd: "\<not> has_flag (ms_flag s) STREAM_BUFFER_DETERMINED" and e: "rb_list (ms_wb s) = []"
    using assms(1) by simp_all
  have cap: "unat (rb_capacity (ms_wb s)) = 262144" using ok nd by (simp add: stream_ok_def)
  obtain wb where w: "stream_write p s = Some (OK, s\<lparr> ms_wb := wb \<rparr>)" "rb_inv wb" "rb_list wb = rb_list (ms_wb s) @ pk_bytes p" "rb_capacity wb = rb_capacity (ms_wb s)"
    by (rule stream_write_fits [OF ok _ assms(4,5)]) (use e cap assms(6) in simp)
  let ?s = "s\<lparr> ms_wb := wb \<rparr>" and ?sz = "WAWO_MIN (sz - 1024) (rb_capacity wb)"
  have snd: "mo_snd_size (mux_socket junk) k = sz" "4096 \<le> unat sz"
    using assms(3) so_live_bounds(6) [of "mk_socket k"] by (auto simp: mux_socket_def mux_channel_def)
  then have "unat (sz - 1024) = unat sz - 1024" by (simp add: unat_sub_nowrap)
  then have u: "unat ?sz = mux_lim sz" using w(4) cap by (auto simp: mux_lim_def min_def word_to_nat)
  have "2048 \<le> unat ?sz" unfolding u using snd(2) by (simp add: mux_lim_def)
  then obtain nb where "determine_buffer (mux_socket junk) junk' ?s k = Some (?s\<lparr> ms_flag := ms_flag ?s OR STREAM_BUFFER_DETERMINED, ms_wb := nb \<rparr>)"
    "rb_list nb = take (unat ?sz) (rb_list wb)"
    using determine_buffer_first [of ?s ?sz "mux_socket junk" k junk'] nd w(2) unfolding snd(1) by auto
  then show ?thesis using w e u by auto
qed

theorem mux_first_flush_truncates_witness:
  "\<exists>p s k s1 s2. length (pk_bytes p) = 100000 \<and> stream_write p s = Some (OK, s1) \<and>
    determine_buffer (mux_socket (\<lambda>_. 0)) (\<lambda>_. 0) s1 k = Some s2 \<and> length (rb_list (ms_wb s2)) = 97280"
proof -
  obtain d :: bytes where d: "length d = 100000" using Ex_list_of_length by blast
  obtain p where p: "pk_inv p" "pk_bytes p = d" using packet_of_ok [of d "\<lambda>_. 0"] d by auto
  obtain k where k: "mux_channel 98304 k" by (rule sample_channel)
  obtain s where s: "mux_stream_open (\<lambda>_. 0) 5 None mux_start = Some (Some s, OK, mux_start\<lparr> mx_stream_map := [(5, s)] \<rparr>)"
    by (rule mux_stream_open_fresh [of 5 "\<lambda>_. 0" None]) simp
  have "mux_lim 98304 = 97280" by (simp add: mux_lim_def)
  with mux_first_flush_truncates [OF s _ k p(1), of "\<lambda>_. 0"] p(2) d show ?thesis by fastforce
qed

end
