(* ===== verification/Observer.thy ===== *)
theory Observer
  imports Socket_Send_Props
begin

text \<open>
  The observer that runs a socket's callbacks: the contexts of include/wawo/net/observer_abstract.hpp, the queue of requests of socket_observer and
  observer_impl/epoll.hpp. The kernel's interest list is part of the state, so that what is watched can be compared with what
  the kernel has been asked for. epoll_ctl fails as it is documented to: adding a descriptor that is registered (EEXIST), changing or
  removing one that is not (ENOENT), and whenever the kernel refuses for want of memory or watches (ENOMEM, ENOSPC), which a list of
  flags decides; used up, nothing is refused. A call that fails leaves the interest list as it is. The
  cookies given with a callback are left out, as are the traces.
\<close>

section \<open>Contexts\<close>

record observer_ctx =
  oc_flag :: byte
  oc_fd :: int
  oc_read :: "io_fn option"
  oc_write :: "io_fn option"

definition observer_ctx_new :: "int \<Rightarrow> observer_ctx" where
  "observer_ctx_new fd = \<lparr> oc_flag = 0, oc_fd = fd, oc_read = None, oc_write = None \<rparr>"

definition ctx_update_for_watch :: "observer_ctx \<Rightarrow> byte \<Rightarrow> int \<Rightarrow> io_fn \<Rightarrow> observer_ctx option" where
  "ctx_update_for_watch ctx flag fd fn =
     do { wawo_assert (flag \<noteq> 0);
          wawo_assert (oc_fd ctx = fd);
          wawo_assert (oc_flag ctx AND flag = 0);
          ctx \<leftarrow> (if has_flag flag IOE_READ then do {
                   let ctx = ctx\<lparr> oc_flag := oc_flag ctx OR IOE_READ OR (if has_flag flag IOE_INFINITE_WATCH_READ then IOE_INFINITE_WATCH_READ else 0) \<rparr>;
                   wawo_assert (oc_read ctx = None);
                   Some (ctx\<lparr> oc_read := Some fn \<rparr>) }
                 else Some ctx);
          if has_flag flag IOE_WRITE then do {
            let ctx = ctx\<lparr> oc_flag := oc_flag ctx OR IOE_WRITE OR (if has_flag flag IOE_INFINITE_WATCH_WRITE then IOE_INFINITE_WATCH_WRITE else 0) \<rparr>;
            wawo_assert (oc_write ctx = None);
            Some (ctx\<lparr> oc_write := Some fn \<rparr>) }
          else Some ctx }"

definition ctx_update_for_unwatch :: "observer_ctx \<Rightarrow> byte \<Rightarrow> int \<Rightarrow> observer_ctx option" where
  "ctx_update_for_unwatch ctx flag fd =
     do { wawo_assert (oc_fd ctx = fd);
          let ctx = (if has_flag flag IOE_READ \<and> has_flag (oc_flag ctx) flag
                     then ctx\<lparr> oc_flag := oc_flag ctx AND NOT (IOE_READ OR IOE_INFINITE_WATCH_READ), oc_read := None \<rparr> else ctx);
          Some (if has_flag flag IOE_WRITE \<and> has_flag (oc_flag ctx) flag
                then ctx\<lparr> oc_flag := oc_flag ctx AND NOT (IOE_WRITE OR IOE_INFINITE_WATCH_WRITE), oc_write := None \<rparr> else ctx) }"

section \<open>epoll\<close>

definition EPOLLIN :: u32 where "EPOLLIN = 1"
definition EPOLLPRI :: u32 where "EPOLLPRI = 2"
definition EPOLLOUT :: u32 where "EPOLLOUT = 4"
definition EPOLLERR :: u32 where "EPOLLERR = 8"
definition EPOLLHUP :: u32 where "EPOLLHUP = 16"

definition E_UNKNOWN :: int where "E_UNKNOWN = -20010"

lemmas epoll_bits = EPOLLIN_def EPOLLPRI_def EPOLLOUT_def EPOLLERR_def EPOLLHUP_def

text \<open>The tasks handed to the scheduler: a callback, an error callback, or the three of the error branch.\<close>

datatype io_task = Io_task io_fn | Io_error io_fn int | Io_re "io_fn option" "io_fn option" "io_fn option" int

datatype epoll_op = EPOLL_CTL_ADD | EPOLL_CTL_MOD | EPOLL_CTL_DEL

record epoll =
  ep_ctxs :: "int \<rightharpoonup> observer_ctx"
  ep_interest :: "int \<rightharpoonup> u32"
  ep_refusals :: "bool list"
  ep_tasks :: "io_task list"

definition epoll_ctl :: "epoll_op \<Rightarrow> int \<Rightarrow> u32 \<Rightarrow> epoll \<Rightarrow> int \<times> epoll" where
  "epoll_ctl op fd ev s =
     (let refused = (case ep_refusals s of [] \<Rightarrow> False | r # _ \<Rightarrow> r);
          s = s\<lparr> ep_refusals := tl (ep_refusals s) \<rparr> in
      if refused \<or> (op = EPOLL_CTL_ADD \<longleftrightarrow> ep_interest s fd \<noteq> None) then (-1, s)
      else (0, s\<lparr> ep_interest := (ep_interest s)(fd := (if op = EPOLL_CTL_DEL then None else Some ev)) \<rparr>))"

definition ep_schedule :: "io_task \<Rightarrow> epoll \<Rightarrow> epoll" where
  "ep_schedule t s = s\<lparr> ep_tasks := ep_tasks s @ [t] \<rparr>"

definition epoll_watch :: "byte \<Rightarrow> int \<Rightarrow> io_fn \<Rightarrow> epoll \<Rightarrow> epoll option" where
  "epoll_watch flag fd fn s =
     do { wawo_assert (fd > 0);
          wawo_assert (has_flag flag (IOE_READ OR IOE_WRITE));
          let (op, ctx) = (case ep_ctxs s fd of None \<Rightarrow> (EPOLL_CTL_ADD, observer_ctx_new fd) | Some ctx \<Rightarrow> (EPOLL_CTL_MOD, ctx));
          let events = EPOLLPRI OR (if has_flag flag IOE_READ then EPOLLIN else 0) OR (if has_flag flag IOE_WRITE then EPOLLOUT else 0);
          let (rt, s) = epoll_ctl op fd events s;
          if rt = -1 then Some (ep_schedule (Io_error fn rt) s)
          else do {
            wawo_assert (oc_flag ctx AND flag = 0);
            ctx \<leftarrow> ctx_update_for_watch ctx flag fd fn;
            Some (s\<lparr> ep_ctxs := (ep_ctxs s)(fd \<mapsto> ctx) \<rparr>) } }"

text \<open>unwatch(): the context is an object that a caller may hold, so it is returned as it is afterwards.\<close>

definition epoll_do_unwatch :: "byte \<Rightarrow> int \<Rightarrow> epoll \<Rightarrow> (observer_ctx option \<times> epoll) option" where
  "epoll_do_unwatch flag fd s =
     do { wawo_assert (fd > 0);
          case ep_ctxs s fd of
            None \<Rightarrow> Some (None, s)
          | Some ctx \<Rightarrow> do {
              let op = (if (oc_flag ctx AND (IOE_READ OR IOE_WRITE)) AND NOT flag = 0 then EPOLL_CTL_DEL else EPOLL_CTL_MOD);
              let events = EPOLLPRI OR
                (if has_flag (oc_flag ctx) IOE_READ \<and> \<not> has_flag flag IOE_READ then EPOLLIN else 0) OR
                (if has_flag (oc_flag ctx) IOE_WRITE \<and> \<not> has_flag flag IOE_WRITE then EPOLLOUT else 0);
              wawo_assert (op = EPOLL_CTL_MOD \<longrightarrow> has_flag events EPOLLIN \<or> has_flag events EPOLLOUT);
              let (rt, s) = epoll_ctl op fd events s;
              if rt = -1 then Some (Some ctx, s\<lparr> ep_ctxs := (ep_ctxs s)(fd := None) \<rparr>)
              else do {
                ctx \<leftarrow> ctx_update_for_unwatch ctx flag fd;
                wawo_assert (op = EPOLL_CTL_DEL \<longrightarrow> oc_flag ctx = 0);
                Some (Some ctx, s\<lparr> ep_ctxs := (if op = EPOLL_CTL_DEL then (ep_ctxs s)(fd := None) else (ep_ctxs s)(fd \<mapsto> ctx)) \<rparr>) } } }"

definition epoll_unwatch :: "byte \<Rightarrow> int \<Rightarrow> epoll \<Rightarrow> epoll option" where
  "epoll_unwatch flag fd s = do { (c, s) \<leftarrow> epoll_do_unwatch flag fd s; Some s }"

text \<open>
  One event of check_ioe: the descriptor whose context \<open>data.ptr\<close> points to, the events, and what getsockopt(SO_ERROR) reports. A
  context that is gone is a dangling pointer.
\<close>

definition epoll_event_err :: "observer_ctx \<Rightarrow> u32 \<Rightarrow> int \<Rightarrow> epoll \<Rightarrow> epoll option" where
  "epoll_event_err ctx events so_error s =
     do { wawo_assert (has_flag events EPOLLIN \<longrightarrow> oc_read ctx \<noteq> None);
          let ec = WAWO_NEGATIVE so_error;
          let ec = (if ec = OK then E_UNKNOWN else ec);
          let re = Io_re (if has_flag events EPOLLIN then oc_read ctx else None) (oc_read ctx) (oc_write ctx) ec;
          s \<leftarrow> epoll_unwatch IOE_WRITE (oc_fd ctx) s;
          s \<leftarrow> epoll_unwatch IOE_READ (oc_fd ctx) s;
          Some (ep_schedule re s) }"

definition epoll_event_in :: "observer_ctx \<Rightarrow> epoll \<Rightarrow> (observer_ctx \<times> epoll) option" where
  "epoll_event_in ctx s =
     do { fn \<leftarrow> oc_read ctx;
          (c, s) \<leftarrow> (if \<not> has_flag (oc_flag ctx) IOE_INFINITE_WATCH_READ then epoll_do_unwatch IOE_READ (oc_fd ctx) s else Some (Some ctx, s));
          Some (case c of None \<Rightarrow> ctx | Some ctx \<Rightarrow> ctx, ep_schedule (Io_task fn) s) }"

definition epoll_event_out :: "observer_ctx \<Rightarrow> epoll \<Rightarrow> epoll option" where
  "epoll_event_out ctx s =
     do { fn \<leftarrow> oc_write ctx;
          s \<leftarrow> (if \<not> has_flag (oc_flag ctx) IOE_INFINITE_WATCH_WRITE then epoll_unwatch IOE_WRITE (oc_fd ctx) s else Some s);
          Some (ep_schedule (Io_task fn) s) }"

type_synonym io_event = "int \<times> u32 \<times> int"

definition epoll_event :: "io_event \<Rightarrow> epoll \<Rightarrow> epoll option" where
  "epoll_event = (\<lambda>(fd, events, so_error) s.
     do { ctx \<leftarrow> ep_ctxs s fd;
          wawo_assert (oc_fd ctx > 0);
          if has_flag events (EPOLLERR OR EPOLLHUP) then epoll_event_err ctx events so_error s
          else do {
            (ctx, s) \<leftarrow> (if has_flag events EPOLLIN then epoll_event_in ctx s else Some (ctx, s));
            s \<leftarrow> (if has_flag events EPOLLOUT then epoll_event_out ctx s else Some s);
            wawo_assert (\<not> has_flag events EPOLLPRI);
            wawo_assert (events AND NOT EPOLLIN AND NOT EPOLLOUT = 0);
            Some s } })"

primrec epoll_check_ioe :: "io_event list \<Rightarrow> epoll \<Rightarrow> epoll option" where
  "epoll_check_ioe [] s = Some s"
| "epoll_check_ioe (e # es) s = do { s \<leftarrow> epoll_event e s; epoll_check_ioe es s }"

text \<open>socket_observer: requests are queued and carried out before the events are looked at.\<close>

datatype event_op = OP_WATCH byte int io_fn | OP_UNWATCH byte int

primrec process_op :: "event_op \<Rightarrow> epoll \<Rightarrow> epoll option" where
  "process_op (OP_WATCH flag fd fn) s = epoll_watch flag fd fn s"
| "process_op (OP_UNWATCH flag fd) s = epoll_unwatch flag fd s"

primrec process_ops :: "event_op list \<Rightarrow> epoll \<Rightarrow> epoll option" where
  "process_ops [] s = Some s"
| "process_ops (op # ops) s = do { s \<leftarrow> process_op op s; process_ops ops s }"

definition observer_update :: "event_op list \<Rightarrow> io_event list \<Rightarrow> epoll \<Rightarrow> epoll option" where
  "observer_update ops evs s = do { s \<leftarrow> process_ops ops s; epoll_check_ioe evs s }"

section \<open>Flags bit by bit\<close>

lemma flag_exps:
  "IOE_READ = 2 ^ 0" "IOE_WRITE = 2 ^ 1" "IOE_INFINITE_WATCH_READ = 2 ^ 2" "IOE_INFINITE_WATCH_WRITE = 2 ^ 3"
  "EPOLLIN = 2 ^ 0" "EPOLLPRI = 2 ^ 1" "EPOLLOUT = 2 ^ 2" "EPOLLERR = 2 ^ 3" "EPOLLHUP = 2 ^ 4"
  by (simp_all add: watch_defs epoll_bits)

lemma has_flag_single [simp]:
  "has_flag b IOE_READ \<longleftrightarrow> bit b 0" "has_flag b IOE_WRITE \<longleftrightarrow> bit b 1"
  "has_flag b IOE_INFINITE_WATCH_READ \<longleftrightarrow> bit b 2" "has_flag b IOE_INFINITE_WATCH_WRITE \<longleftrightarrow> bit b 3"
  "has_flag e EPOLLIN \<longleftrightarrow> bit e 0" "has_flag e EPOLLPRI \<longleftrightarrow> bit e 1" "has_flag e EPOLLOUT \<longleftrightarrow> bit e 2"
  "has_flag e EPOLLERR \<longleftrightarrow> bit e 3" "has_flag e EPOLLHUP \<longleftrightarrow> bit e 4"
  unfolding flag_exps by (rule has_flag_exp)+

lemma flag_bit [simp]:
  "bit IOE_READ n \<longleftrightarrow> n = 0" "bit IOE_WRITE n \<longleftrightarrow> n = 1"
  "bit IOE_INFINITE_WATCH_READ n \<longleftrightarrow> n = 2" "bit IOE_INFINITE_WATCH_WRITE n \<longleftrightarrow> n = 3"
  "bit EPOLLIN n \<longleftrightarrow> n = 0" "bit EPOLLPRI n \<longleftrightarrow> n = 1" "bit EPOLLOUT n \<longleftrightarrow> n = 2"
  "bit EPOLLERR n \<longleftrightarrow> n = 3" "bit EPOLLHUP n \<longleftrightarrow> n = 4"
  unfolding flag_exps by (simp_all only: bit_exp_iff possible_bit_word) auto

section \<open>The invariant\<close>

definition ctx_ok :: "int \<Rightarrow> observer_ctx \<Rightarrow> bool" where
  "ctx_ok fd ctx \<longleftrightarrow> oc_fd ctx = fd \<and> fd > 0 \<and>
     (has_flag (oc_flag ctx) IOE_READ \<longleftrightarrow> oc_read ctx \<noteq> None) \<and> (has_flag (oc_flag ctx) IOE_WRITE \<longleftrightarrow> oc_write ctx \<noteq> None) \<and>
     (has_flag (oc_flag ctx) IOE_INFINITE_WATCH_READ \<longrightarrow> has_flag (oc_flag ctx) IOE_READ) \<and>
     (has_flag (oc_flag ctx) IOE_INFINITE_WATCH_WRITE \<longrightarrow> has_flag (oc_flag ctx) IOE_WRITE) \<and>
     (\<forall>n. bit (oc_flag ctx) n \<longrightarrow> n < 4) \<and> (oc_read ctx \<noteq> None \<or> oc_write ctx \<noteq> None)"

text \<open>What the kernel may report has a callback.\<close>

definition interest_ok :: "observer_ctx \<Rightarrow> u32 \<Rightarrow> bool" where
  "interest_ok ctx ev \<longleftrightarrow> (has_flag ev EPOLLIN \<longrightarrow> oc_read ctx \<noteq> None) \<and> (has_flag ev EPOLLOUT \<longrightarrow> oc_write ctx \<noteq> None)"

definition fd_ok :: "int \<Rightarrow> epoll \<Rightarrow> bool" where
  "fd_ok fd s \<longleftrightarrow> (ep_ctxs s fd = None \<longrightarrow> ep_interest s fd = None) \<and>
     (\<forall>ctx. ep_ctxs s fd = Some ctx \<longrightarrow> ctx_ok fd ctx \<and> (\<forall>ev. ep_interest s fd = Some ev \<longrightarrow> interest_ok ctx ev))"

definition ep_inv :: "epoll \<Rightarrow> bool" where
  "ep_inv s \<longleftrightarrow> (\<forall>fd. fd_ok fd s)"

text \<open>An operation touches one descriptor only.\<close>

definition only_fd :: "int \<Rightarrow> epoll \<Rightarrow> epoll \<Rightarrow> bool" where
  "only_fd fd s s' \<longleftrightarrow> (\<forall>fd'. fd' \<noteq> fd \<longrightarrow> ep_ctxs s' fd' = ep_ctxs s fd' \<and> ep_interest s' fd' = ep_interest s fd')"

lemma only_fd_refl [simp]: "only_fd fd s s"
  by (simp add: only_fd_def)

lemma only_fd_trans: "only_fd fd s s' \<Longrightarrow> only_fd fd s' s'' \<Longrightarrow> only_fd fd s s''"
  by (simp add: only_fd_def)

lemma ep_inv_step: "ep_inv s \<Longrightarrow> only_fd fd s s' \<Longrightarrow> fd_ok fd s' \<Longrightarrow> ep_inv s'"
  unfolding ep_inv_def
proof
  fix fd' assume "\<forall>fd. fd_ok fd s" "only_fd fd s s'" "fd_ok fd s'"
  then show "fd_ok fd' s'" by (cases "fd' = fd") (auto simp: fd_ok_def only_fd_def)
qed

lemma epoll_ctl_frame:
  assumes "epoll_ctl op fd ev s = (rt, s')"
  shows "only_fd fd s s'" "ep_ctxs s' = ep_ctxs s" "ep_tasks s' = ep_tasks s" "ep_refusals s' = tl (ep_refusals s)"
    "ep_interest s' fd = (if rt = -1 then ep_interest s fd else if op = EPOLL_CTL_DEL then None else Some ev)"
    "rt = -1 \<longleftrightarrow> (\<exists>rs. ep_refusals s = True # rs) \<or> (op = EPOLL_CTL_ADD \<longleftrightarrow> ep_interest s fd \<noteq> None)"
  using assms by (auto simp: epoll_ctl_def only_fd_def Let_def split: prod.splits list.splits if_splits)

lemma ep_schedule_frame [simp]:
  "ep_ctxs (ep_schedule t s) = ep_ctxs s" "ep_interest (ep_schedule t s) = ep_interest s"
  "ep_tasks (ep_schedule t s) = ep_tasks s @ [t]" "ep_refusals (ep_schedule t s) = ep_refusals s"
  by (simp_all add: ep_schedule_def)

lemma fd_ok_schedule [simp]: "fd_ok fd (ep_schedule t s) = fd_ok fd s" "ep_inv (ep_schedule t s) = ep_inv s"
  by (simp_all add: fd_ok_def ep_inv_def)

lemma only_fd_schedule [simp]: "only_fd fd s (ep_schedule t s') = only_fd fd s s'"
  by (simp add: only_fd_def)

lemmas flag_bit_simps = bit_clear bit_or_iff

lemma update_for_watch_fields:
  assumes "ctx_update_for_watch ctx flag fd fn = Some ctx'"
  shows "oc_fd ctx' = oc_fd ctx" "oc_fd ctx = fd"
    "oc_read ctx' = (if bit flag 0 then Some fn else oc_read ctx)" "oc_write ctx' = (if bit flag 1 then Some fn else oc_write ctx)"
    "bit (oc_flag ctx') n \<longleftrightarrow> bit (oc_flag ctx) n \<or> bit flag 0 \<and> (n = 0 \<or> n = 2 \<and> bit flag 2) \<or> bit flag 1 \<and> (n = 1 \<or> n = 3 \<and> bit flag 3)"
  by (use assms in \<open>cases "bit flag 0"; cases "bit flag 1"; cases "bit flag 2"; cases "bit flag 3";
      auto simp: ctx_update_for_watch_def flag_bit_simps Let_def split: if_splits\<close>)+

lemma update_for_watch_ok:
  assumes "ctx_update_for_watch ctx flag fd fn = Some ctx'" "bit flag 0 \<or> bit flag 1" "fd > 0"
    "ctx_ok fd ctx \<or> ctx = observer_ctx_new fd"
  shows "ctx_ok fd ctx'"
proof -
  note f = update_for_watch_fields [OF assms(1)]
  from assms(4) show ?thesis
  proof
    assume "ctx_ok fd ctx"
    with assms(2) show ?thesis by (auto simp: ctx_ok_def f)
  next
    assume "ctx = observer_ctx_new fd"
    with assms(2,3) show ?thesis by (auto simp: ctx_ok_def f observer_ctx_new_def)
  qed
qed

lemma epoll_watch_ok:
  assumes inv: "ep_inv s" and w: "epoll_watch flag fd fn s = Some s'"
  shows "ep_inv s'"
proof -
  define op where "op = (if ep_ctxs s fd = None then EPOLL_CTL_ADD else EPOLL_CTL_MOD)"
  define ctx where "ctx = (case ep_ctxs s fd of None \<Rightarrow> observer_ctx_new fd | Some ctx \<Rightarrow> ctx)"
  define events where "events = EPOLLPRI OR (if has_flag flag IOE_READ then EPOLLIN else 0) OR (if has_flag flag IOE_WRITE then EPOLLOUT else 0)"
  obtain rt s1 where c: "epoll_ctl op fd events s = (rt, s1)" by (cases "epoll_ctl op fd events s")
  have pre: "fd > 0" "bit flag 0 \<or> bit flag 1" using w by (auto simp: epoll_watch_def has_flag_join split: if_splits)
  have w': "(if rt = -1 then Some (ep_schedule (Io_error fn rt) s1) else do {
      wawo_assert (oc_flag ctx AND flag = 0); ctx \<leftarrow> ctx_update_for_watch ctx flag fd fn; Some (s1\<lparr> ep_ctxs := (ep_ctxs s1)(fd \<mapsto> ctx) \<rparr>) }) = Some s'"
    using w pre c by (auto simp: epoll_watch_def op_def ctx_def events_def has_flag_join split: option.splits if_splits)
  note fr = epoll_ctl_frame [OF c]
  have ok: "ctx_ok fd ctx \<or> ctx = observer_ctx_new fd"
    using inv by (auto simp: ep_inv_def fd_ok_def ctx_def split: option.splits)
  show ?thesis
  proof (cases "rt = -1")
    case True
    then have s': "s' = ep_schedule (Io_error fn rt) s1" using w' by simp
    have "fd_ok fd s1" using inv True by (auto simp: ep_inv_def fd_ok_def fr)
    then show ?thesis using ep_inv_step [OF inv fr(1)] by (simp add: s')
  next
    case False
    then obtain ctx' where u: "ctx_update_for_watch ctx flag fd fn = Some ctx'" and s': "s' = s1\<lparr> ep_ctxs := (ep_ctxs s1)(fd \<mapsto> ctx') \<rparr>"
      using w' by (auto split: if_splits option.splits simp: bind_eq_Some_conv)
    have i: "interest_ok ctx' events"
      by (auto simp: interest_ok_def events_def flag_bit_simps update_for_watch_fields [OF u])
    have "fd_ok fd s'" using update_for_watch_ok [OF u pre(2,1) ok] i False
      by (auto simp: fd_ok_def s' fr op_def)
    moreover have "only_fd fd s s'" using fr(1) by (auto simp: only_fd_def s')
    ultimately show ?thesis using inv ep_inv_step by blast
  qed
qed

lemma update_for_unwatch_fields:
  assumes ok: "ctx_ok fd ctx"
  obtains ctx' where "ctx_update_for_unwatch ctx flag fd = Some ctx'" "oc_fd ctx' = fd"
    "oc_read ctx' = (if bit flag 0 then None else oc_read ctx)" "oc_write ctx' = (if bit flag 1 then None else oc_write ctx)"
    "\<forall>n. bit (oc_flag ctx') n \<longleftrightarrow> bit (oc_flag ctx) n \<and> \<not> (bit flag 0 \<and> (n = 0 \<or> n = 2)) \<and> \<not> (bit flag 1 \<and> (n = 1 \<or> n = 3))"
proof -
  define c1 where "c1 = (if has_flag flag IOE_READ \<and> has_flag (oc_flag ctx) flag
     then ctx\<lparr> oc_flag := oc_flag ctx AND NOT (IOE_READ OR IOE_INFINITE_WATCH_READ), oc_read := None \<rparr> else ctx)"
  define c2 where "c2 = (if has_flag flag IOE_WRITE \<and> has_flag (oc_flag c1) flag
     then c1\<lparr> oc_flag := oc_flag c1 AND NOT (IOE_WRITE OR IOE_INFINITE_WATCH_WRITE), oc_write := None \<rparr> else c1)"
  have r: "\<not> bit (oc_flag ctx) 0" if "bit flag 0" "\<not> has_flag (oc_flag ctx) flag" using that by (meson has_flag_bit)
  have k: "(bit (oc_flag ctx) 0 \<longleftrightarrow> oc_read ctx \<noteq> None)" "(bit (oc_flag ctx) 1 \<longleftrightarrow> oc_write ctx \<noteq> None)"
    "bit (oc_flag ctx) 2 \<Longrightarrow> bit (oc_flag ctx) 0" "bit (oc_flag ctx) 3 \<Longrightarrow> bit (oc_flag ctx) 1" "oc_fd ctx = fd"
    using ok by (auto simp: ctx_ok_def)
  have f1: "oc_fd c1 = fd \<and> oc_write c1 = oc_write ctx \<and> oc_read c1 = (if bit flag 0 then None else oc_read ctx) \<and>
    (\<forall>n. bit (oc_flag c1) n \<longleftrightarrow> bit (oc_flag ctx) n \<and> \<not> (bit flag 0 \<and> (n = 0 \<or> n = 2)))"
  proof (cases "bit flag 0 \<and> has_flag (oc_flag ctx) flag")
    case True
    then show ?thesis using k(5) by (auto simp: c1_def flag_bit_simps)
  next
    case False
    then have "c1 = ctx" by (auto simp: c1_def)
    then show ?thesis using False r k by auto
  qed
  have w: "\<not> bit (oc_flag ctx) 1" if "bit flag 1" "\<not> has_flag (oc_flag c1) flag"
  proof -
    have "\<not> bit (oc_flag c1) 1" using that by (meson has_flag_bit)
    then show ?thesis using f1 by auto
  qed
  have f2: "oc_fd c2 = fd \<and> oc_read c2 = oc_read c1 \<and> oc_write c2 = (if bit flag 1 then None else oc_write ctx) \<and>
    (\<forall>n. bit (oc_flag c2) n \<longleftrightarrow> bit (oc_flag c1) n \<and> \<not> (bit flag 1 \<and> (n = 1 \<or> n = 3)))"
  proof (cases "bit flag 1 \<and> has_flag (oc_flag c1) flag")
    case True
    then show ?thesis using f1 by (auto simp: c2_def flag_bit_simps)
  next
    case False
    then have "c2 = c1" by (auto simp: c2_def)
    moreover have "bit flag 1 \<Longrightarrow> oc_write ctx = None \<and> \<not> bit (oc_flag c1) 1 \<and> \<not> bit (oc_flag c1) 3" using False w k f1 by blast
    ultimately show ?thesis using conjunct1 [OF f1] conjunct1 [OF conjunct2 [OF f1]] by auto
  qed
  have "ctx_update_for_unwatch ctx flag fd = Some c2"
    unfolding ctx_update_for_unwatch_def Let_def c2_def c1_def by (simp only: k(5) simp_thms wawo_assert_simps(1) Option.bind.simps)
  then show ?thesis using that [of c2] f1 f2 by simp
qed

text \<open>unwatch() that the kernel does not refuse returns; what is left of the context is told by the flag.\<close>

lemma epoll_do_unwatch_ok:
  assumes inv: "ep_inv s" and fd: "fd > 0" and nr: "ep_refusals s = []"
  obtains c s' where "epoll_do_unwatch flag fd s = Some (c, s')" "ep_inv s'" "only_fd fd s s'" "ep_tasks s' = ep_tasks s" "ep_refusals s' = []"
    "ep_ctxs s fd = None \<Longrightarrow> c = None \<and> s' = s"
    "\<And>ctx. ep_ctxs s fd = Some ctx \<Longrightarrow> \<exists>ctx'. c = Some ctx' \<and> oc_fd ctx' = fd \<and>
       (\<not> bit flag 0 \<longrightarrow> oc_read ctx' = oc_read ctx) \<and> (\<not> bit flag 1 \<longrightarrow> oc_write ctx' = oc_write ctx \<and> (bit (oc_flag ctx') 3 \<longleftrightarrow> bit (oc_flag ctx) 3))"
    "\<And>ctx'. ep_ctxs s' fd = Some ctx' \<Longrightarrow> \<exists>ctx. ep_ctxs s fd = Some ctx \<and>
       oc_read ctx' = (if bit flag 0 then None else oc_read ctx) \<and> oc_write ctx' = (if bit flag 1 then None else oc_write ctx)"
proof (cases "ep_ctxs s fd")
  case None
  then show ?thesis using that [of None s] inv fd nr by (simp add: epoll_do_unwatch_def)
next
  case (Some ctx)
  define op where "op = (if (oc_flag ctx AND (IOE_READ OR IOE_WRITE)) AND NOT flag = 0 then EPOLL_CTL_DEL else EPOLL_CTL_MOD)"
  define events where "events = EPOLLPRI OR
    (if has_flag (oc_flag ctx) IOE_READ \<and> \<not> has_flag flag IOE_READ then EPOLLIN else 0) OR
    (if has_flag (oc_flag ctx) IOE_WRITE \<and> \<not> has_flag flag IOE_WRITE then EPOLLOUT else 0)"
  obtain rt s1 where c: "epoll_ctl op fd events s = (rt, s1)" by (cases "epoll_ctl op fd events s")
  note fr = epoll_ctl_frame [OF c]
  have ok: "ctx_ok fd ctx" using inv Some by (auto simp: ep_inv_def fd_ok_def)
  obtain ctx' where u: "ctx_update_for_unwatch ctx flag fd = Some ctx'" "oc_fd ctx' = fd"
    "oc_read ctx' = (if bit flag 0 then None else oc_read ctx)" "oc_write ctx' = (if bit flag 1 then None else oc_write ctx)"
    "\<forall>n. bit (oc_flag ctx') n \<longleftrightarrow> bit (oc_flag ctx) n \<and> \<not> (bit flag 0 \<and> (n = 0 \<or> n = 2)) \<and> \<not> (bit flag 1 \<and> (n = 1 \<or> n = 3))"
    by (rule update_for_unwatch_fields [OF ok])
  note bits = u(5) [rule_format]
  have del: "op = EPOLL_CTL_DEL \<longleftrightarrow> (bit (oc_flag ctx) 0 \<longrightarrow> bit flag 0) \<and> (bit (oc_flag ctx) 1 \<longrightarrow> bit flag 1)"
    unfolding op_def byte_zero bit_clear(1) unfolding bit_and_iff bit_or_iff flag_bit by auto
  have small: "bit (oc_flag ctx) n \<Longrightarrow> n = 0 \<or> n = 1 \<or> n = 2 \<or> n = 3" for n
  proof -
    assume "bit (oc_flag ctx) n"
    then have "n < 4" using ok by (simp add: ctx_ok_def)
    then show ?thesis by linarith
  qed
  have zero: "oc_flag ctx' = 0" if "op = EPOLL_CTL_DEL"
  proof -
    have "\<not> bit (oc_flag ctx') n" for n
      using that ok small [of n] unfolding del bits ctx_ok_def has_flag_single by metis
    then show ?thesis by (simp add: byte_zero)
  qed
  have some: "op = EPOLL_CTL_MOD \<Longrightarrow> has_flag events EPOLLIN \<or> has_flag events EPOLLOUT"
    using del by (cases op) (auto simp: events_def flag_bit_simps op_def split: if_splits)
  define m where "m = (if rt = -1 \<or> op = EPOLL_CTL_DEL then (ep_ctxs s1)(fd := None) else (ep_ctxs s1)(fd \<mapsto> ctx'))"
  define c where "c = (if rt = -1 then ctx else ctx')"
  have run: "epoll_do_unwatch flag fd s = Some (Some c, s1\<lparr> ep_ctxs := m \<rparr>)"
    unfolding epoll_do_unwatch_def Let_def Some option.case op_def [symmetric] events_def [symmetric] c prod.case
    using fd zero some u(1) by (cases "rt = -1") (auto simp: c_def m_def)
  have ok': "ctx_ok fd ctx'" if "op \<noteq> EPOLL_CTL_DEL"
    using ok that unfolding del ctx_ok_def has_flag_single u(2-4) bits by auto
  have gone: "ep_interest s fd = None" if "rt = -1" using that nr by (auto simp: fr(6) op_def split: if_splits)
  have "fd_ok fd (s1\<lparr> ep_ctxs := m \<rparr>)"
    using ok' ok gone by (auto simp: fd_ok_def m_def fr interest_ok_def events_def flag_bit_simps u ctx_ok_def split: if_splits)
  moreover have "only_fd fd s (s1\<lparr> ep_ctxs := m \<rparr>)" using fr(1) by (auto simp: only_fd_def m_def)
  moreover have "oc_fd c = fd \<and> (\<not> bit flag 0 \<longrightarrow> oc_read c = oc_read ctx) \<and>
      (\<not> bit flag 1 \<longrightarrow> oc_write c = oc_write ctx \<and> (bit (oc_flag c) 3 \<longleftrightarrow> bit (oc_flag ctx) 3))"
    using ok by (auto simp: c_def u ctx_ok_def)
  ultimately show ?thesis
    using that [OF run] ep_inv_step inv Some nr by (auto simp: fr(2-4) m_def u split: if_splits)
qed

section \<open>Dispatching events\<close>

text \<open>An event the kernel can report: what it has been asked for (every watch asks for EPOLLPRI), or an error.\<close>

definition reportable :: "epoll \<Rightarrow> io_event \<Rightarrow> bool" where
  "reportable s = (\<lambda>(fd, events, so_error). \<exists>ev. ep_interest s fd = Some ev \<and>
     (has_flag events EPOLLIN \<longrightarrow> has_flag ev EPOLLIN) \<and> (has_flag events EPOLLOUT \<longrightarrow> has_flag ev EPOLLOUT) \<and>
     (\<forall>n. bit events n \<longrightarrow> n < 5))"

text \<open>Urgent data without an error: the branch that throws.\<close>

definition urgent :: "io_event \<Rightarrow> bool" where
  "urgent = (\<lambda>(fd, events, so_error). has_flag events EPOLLPRI \<and> \<not> has_flag events EPOLLERR \<and> \<not> has_flag events EPOLLHUP)"

text \<open>The tasks an event calls for, and the callbacks that are registered.\<close>

definition event_tasks :: "epoll \<Rightarrow> io_event \<Rightarrow> io_task list" where
  "event_tasks s = (\<lambda>(fd, events, so_error). case ep_ctxs s fd of None \<Rightarrow> [] | Some ctx \<Rightarrow>
     if has_flag events EPOLLERR \<or> has_flag events EPOLLHUP then
       [Io_re (if has_flag events EPOLLIN then oc_read ctx else None) (oc_read ctx) (oc_write ctx)
          (if WAWO_NEGATIVE so_error = OK then E_UNKNOWN else WAWO_NEGATIVE so_error)]
     else (if has_flag events EPOLLIN then [Io_task (the (oc_read ctx))] else []) @
          (if has_flag events EPOLLOUT then [Io_task (the (oc_write ctx))] else []))"

definition watched_read :: "epoll \<Rightarrow> int \<Rightarrow> io_fn option" where
  "watched_read s fd = (case ep_ctxs s fd of None \<Rightarrow> None | Some ctx \<Rightarrow> oc_read ctx)"

definition watched_write :: "epoll \<Rightarrow> int \<Rightarrow> io_fn option" where
  "watched_write s fd = (case ep_ctxs s fd of None \<Rightarrow> None | Some ctx \<Rightarrow> oc_write ctx)"

definition infinite :: "epoll \<Rightarrow> int \<Rightarrow> byte \<Rightarrow> bool" where
  "infinite s fd flag = (case ep_ctxs s fd of None \<Rightarrow> False | Some ctx \<Rightarrow> has_flag (oc_flag ctx) flag)"

text \<open>A watch that is not infinite ends when it fires; after an error nothing is watched.\<close>

definition fired :: "epoll \<Rightarrow> epoll \<Rightarrow> io_event \<Rightarrow> bool" where
  "fired s s' = (\<lambda>(fd, events, so_error).
     (has_flag events EPOLLERR \<or> has_flag events EPOLLHUP \<longrightarrow> watched_read s' fd = None \<and> watched_write s' fd = None) \<and>
     (has_flag events EPOLLIN \<and> \<not> infinite s fd IOE_INFINITE_WATCH_READ \<longrightarrow> watched_read s' fd = None) \<and>
     (has_flag events EPOLLOUT \<and> \<not> infinite s fd IOE_INFINITE_WATCH_WRITE \<longrightarrow> watched_write s' fd = None))"

lemma unwatch_write_read:
  assumes inv: "ep_inv s" and fd: "fd > 0" and nr: "ep_refusals s = []"
  obtains s1 s2 where "epoll_unwatch IOE_WRITE fd s = Some s1" "epoll_unwatch IOE_READ fd s1 = Some s2"
    "ep_inv s2" "only_fd fd s s2" "ep_tasks s2 = ep_tasks s" "ep_ctxs s2 fd = None" "ep_refusals s2 = []"
proof -
  obtain c1 s1 where 1: "epoll_do_unwatch IOE_WRITE fd s = Some (c1, s1)" "ep_inv s1" "only_fd fd s s1" "ep_tasks s1 = ep_tasks s"
    "\<And>ctx'. ep_ctxs s1 fd = Some ctx' \<Longrightarrow> oc_write ctx' = None" "ep_refusals s1 = []"
    using epoll_do_unwatch_ok [OF inv fd nr, where flag = IOE_WRITE] by (metis flag_bit(2))
  obtain c2 s2 where 2: "epoll_do_unwatch IOE_READ fd s1 = Some (c2, s2)" "ep_inv s2" "only_fd fd s1 s2" "ep_tasks s2 = ep_tasks s1"
    "\<And>ctx'. ep_ctxs s2 fd = Some ctx' \<Longrightarrow> oc_read ctx' = None \<and> oc_write ctx' = None" "ep_refusals s2 = []"
    using epoll_do_unwatch_ok [OF 1(2) fd 1(6), where flag = IOE_READ] 1(5) by (metis flag_bit(1))
  have "ep_ctxs s2 fd = None"
  proof (cases "ep_ctxs s2 fd")
    case (Some ctx')
    then have "ctx_ok fd ctx'" using 2(2) by (auto simp: ep_inv_def fd_ok_def)
    then show ?thesis using 2(5) [OF Some] by (simp add: ctx_ok_def)
  qed
  then show ?thesis
    using that [of s1 s2] 1 2 only_fd_trans [OF 1(3) 2(3)] by (simp add: epoll_unwatch_def)
qed

lemma epoll_event_in_ok:
  assumes inv: "ep_inv s" and nr: "ep_refusals s = []" and ctx: "ep_ctxs s fd = Some ctx" and fn: "oc_read ctx = Some fn"
  obtains ctx' s' where "epoll_event_in ctx s = Some (ctx', s')" "ep_inv s'" "only_fd fd s s'" "ep_tasks s' = ep_tasks s @ [Io_task fn]"
    "oc_fd ctx' = fd" "oc_write ctx' = oc_write ctx" "bit (oc_flag ctx') 3 \<longleftrightarrow> bit (oc_flag ctx) 3"
    "\<not> bit (oc_flag ctx) 2 \<longrightarrow> watched_read s' fd = None" "ep_refusals s' = []"
proof (cases "bit (oc_flag ctx) 2")
  case True
  have "oc_fd ctx = fd" using inv ctx by (auto simp: ep_inv_def fd_ok_def ctx_ok_def)
  then show ?thesis using that [of ctx "ep_schedule (Io_task fn) s"] True inv nr fn by (simp add: epoll_event_in_def)
next
  case False
  have fd: "fd > 0" "oc_fd ctx = fd" using inv ctx by (auto simp: ep_inv_def fd_ok_def ctx_ok_def)
  obtain c s1 where u: "epoll_do_unwatch IOE_READ fd s = Some (c, s1)" "ep_inv s1" "only_fd fd s s1" "ep_tasks s1 = ep_tasks s"
    and c: "\<exists>ctx'. c = Some ctx' \<and> oc_fd ctx' = fd \<and> oc_write ctx' = oc_write ctx \<and> (bit (oc_flag ctx') 3 \<longleftrightarrow> bit (oc_flag ctx) 3)"
    and r: "\<And>ctx'. ep_ctxs s1 fd = Some ctx' \<Longrightarrow> oc_read ctx' = None" and nr1: "ep_refusals s1 = []"
    by (rule epoll_do_unwatch_ok [OF inv fd(1) nr, where flag = IOE_READ]) (use ctx in auto)
  from c obtain ctx' where c': "c = Some ctx'" "oc_fd ctx' = fd" "oc_write ctx' = oc_write ctx" "bit (oc_flag ctx') 3 \<longleftrightarrow> bit (oc_flag ctx) 3" by blast
  show ?thesis using that [of ctx' "ep_schedule (Io_task fn) s1"] u c' r nr1 False fn fd
    by (auto simp: epoll_event_in_def watched_read_def split: option.splits)
qed

lemma epoll_event_out_ok:
  assumes inv: "ep_inv s" and nr: "ep_refusals s = []" and fd: "fd > 0" "oc_fd ctx = fd" and fn: "oc_write ctx = Some fn"
  obtains s' where "epoll_event_out ctx s = Some s'" "ep_inv s'" "only_fd fd s s'" "ep_tasks s' = ep_tasks s @ [Io_task fn]"
    "\<not> bit (oc_flag ctx) 3 \<longrightarrow> watched_write s' fd = None" "watched_read s fd = None \<longrightarrow> watched_read s' fd = None" "ep_refusals s' = []"
proof (cases "bit (oc_flag ctx) 3")
  case True
  then show ?thesis using that [of "ep_schedule (Io_task fn) s"] inv nr fn by (simp add: epoll_event_out_def watched_read_def)
next
  case False
  obtain c s1 where u: "epoll_do_unwatch IOE_WRITE fd s = Some (c, s1)" "ep_inv s1" "only_fd fd s s1" "ep_tasks s1 = ep_tasks s"
    and r: "\<And>ctx'. ep_ctxs s1 fd = Some ctx' \<Longrightarrow> \<exists>ctx. ep_ctxs s fd = Some ctx \<and> oc_read ctx' = oc_read ctx \<and> oc_write ctx' = None"
    and nr1: "ep_refusals s1 = []"
    by (rule epoll_do_unwatch_ok [OF inv fd(1) nr, where flag = IOE_WRITE]) auto
  have "watched_read s1 fd = None" if "watched_read s fd = None"
  proof (cases "ep_ctxs s1 fd")
    case (Some ctx')
    then show ?thesis using r [OF Some] that by (auto simp: watched_read_def)
  qed (simp add: watched_read_def)
  then show ?thesis using that [of "ep_schedule (Io_task fn) s1"] u r nr1 False fn fd
    by (force simp: epoll_event_out_def epoll_unwatch_def watched_read_def watched_write_def split: option.splits)
qed

lemma epoll_event_ok:
  assumes inv: "ep_inv s" and nr: "ep_refusals s = []" and rep: "reportable s (fd, events, so_error)" and calm: "\<not> urgent (fd, events, so_error)"
  obtains s' where "epoll_event (fd, events, so_error) s = Some s'" "ep_inv s'" "only_fd fd s s'"
    "ep_tasks s' = ep_tasks s @ event_tasks s (fd, events, so_error)" "fired s s' (fd, events, so_error)" "ep_refusals s' = []"
proof -
  obtain ev where ev: "ep_interest s fd = Some ev" "bit events 0 \<Longrightarrow> bit ev 0" "bit events 2 \<Longrightarrow> bit ev 2"
    "\<not> bit events 3 \<Longrightarrow> \<not> bit events 4 \<Longrightarrow> \<not> bit events 1" "\<And>n. bit events n \<Longrightarrow> n < 5"
    using rep calm by (auto simp: reportable_def urgent_def)
  obtain ctx where ctx: "ep_ctxs s fd = Some ctx" using inv ev(1) by (fastforce simp: ep_inv_def fd_ok_def)
  then have ok: "ctx_ok fd ctx" "interest_ok ctx ev" using inv ev(1) by (auto simp: ep_inv_def fd_ok_def)
  then have fd: "fd > 0" "oc_fd ctx = fd" by (auto simp: ctx_ok_def)
  have slots: "bit events 0 \<Longrightarrow> oc_read ctx \<noteq> None" "bit events 2 \<Longrightarrow> oc_write ctx \<noteq> None"
    using ok(2) ev(2,3) by (auto simp: interest_ok_def)
  show ?thesis
  proof (cases "bit events 3 \<or> bit events 4")
    case True
    obtain s1 s2 where u: "epoll_unwatch IOE_WRITE fd s = Some s1" "epoll_unwatch IOE_READ fd s1 = Some s2"
      "ep_inv s2" "only_fd fd s s2" "ep_tasks s2 = ep_tasks s" "ep_ctxs s2 fd = None" "ep_refusals s2 = []"
      by (rule unwatch_write_read [OF inv fd(1) nr])
    let ?re = "Io_re (if bit events 0 then oc_read ctx else None) (oc_read ctx) (oc_write ctx)
      (if WAWO_NEGATIVE so_error = OK then E_UNKNOWN else WAWO_NEGATIVE so_error)"
    have "epoll_event (fd, events, so_error) s = Some (ep_schedule ?re s2)"
      using True ctx fd slots u by (simp add: epoll_event_def epoll_event_err_def has_flag_join Let_def)
    then show ?thesis
      using that True ctx u by (simp add: event_tasks_def fired_def watched_read_def watched_write_def)
  next
    case False
    then have pri: "\<not> bit events 1" using ev(4) by blast
    obtain ctx1 s1 where 1: "(if bit events 0 then epoll_event_in ctx s else Some (ctx, s)) = Some (ctx1, s1)"
      "ep_inv s1" "only_fd fd s s1" "ep_tasks s1 = ep_tasks s @ (if bit events 0 then [Io_task (the (oc_read ctx))] else [])"
      "oc_fd ctx1 = fd" "oc_write ctx1 = oc_write ctx" "bit (oc_flag ctx1) 3 \<longleftrightarrow> bit (oc_flag ctx) 3"
      "bit events 0 \<Longrightarrow> \<not> bit (oc_flag ctx) 2 \<Longrightarrow> watched_read s1 fd = None" "ep_refusals s1 = []"
    proof (cases "bit events 0")
      case True
      then obtain fn where fn: "oc_read ctx = Some fn" using slots by auto
      obtain c1 t1 where "epoll_event_in ctx s = Some (c1, t1)" "ep_inv t1" "only_fd fd s t1" "ep_tasks t1 = ep_tasks s @ [Io_task fn]"
        "oc_fd c1 = fd" "oc_write c1 = oc_write ctx" "bit (oc_flag c1) 3 \<longleftrightarrow> bit (oc_flag ctx) 3"
        "\<not> bit (oc_flag ctx) 2 \<longrightarrow> watched_read t1 fd = None" "ep_refusals t1 = []" by (rule epoll_event_in_ok [OF inv nr ctx fn])
      then show ?thesis using that [of c1 t1] True fn by simp
    next
      case False
      then show ?thesis using that [of ctx s] inv nr fd by simp
    qed
    obtain s2 where 2: "(if bit events 2 then epoll_event_out ctx1 s1 else Some s1) = Some s2"
      "ep_inv s2" "only_fd fd s1 s2" "ep_tasks s2 = ep_tasks s1 @ (if bit events 2 then [Io_task (the (oc_write ctx))] else [])"
      "bit events 2 \<Longrightarrow> \<not> bit (oc_flag ctx) 3 \<Longrightarrow> watched_write s2 fd = None"
      "watched_read s1 fd = None \<Longrightarrow> watched_read s2 fd = None" "ep_refusals s2 = []"
    proof (cases "bit events 2")
      case True
      then obtain fn where fn: "oc_write ctx1 = Some fn" using slots 1 by auto
      obtain t2 where "epoll_event_out ctx1 s1 = Some t2" "ep_inv t2" "only_fd fd s1 t2" "ep_tasks t2 = ep_tasks s1 @ [Io_task fn]"
        "\<not> bit (oc_flag ctx1) 3 \<longrightarrow> watched_write t2 fd = None" "watched_read s1 fd = None \<longrightarrow> watched_read t2 fd = None" "ep_refusals t2 = []"
        by (rule epoll_event_out_ok [OF 1(2,9) fd(1) 1(5) fn])
      then show ?thesis using that [of t2] True fn 1(6,7) by simp
    next
      case False
      then show ?thesis using that [of s1] 1(2,9) by simp
    qed
    have rest: "events AND NOT EPOLLIN AND NOT EPOLLOUT = 0"
    proof -
      have "n = 0 \<or> n = 2" if "bit events n" for n
        using ev(5) [OF that] that False pri by (auto simp: less_Suc_eq numeral_eq_Suc)
      then show ?thesis by (auto simp: word_and_zero bit_and_iff bit_not_iff)
    qed
    have "epoll_event (fd, events, so_error) s = Some s2"
      using 1(1) 2(1) ctx fd False pri rest by (simp add: epoll_event_def has_flag_join)
    then show ?thesis
      using that 1 2 False ctx only_fd_trans [OF 1(3) 2(3)]
      by (simp add: event_tasks_def fired_def infinite_def)
  qed
qed

lemma only_fd_views:
  assumes "only_fd fd s s'" "fd' \<noteq> fd"
  shows "reportable s' (fd', e) \<longleftrightarrow> reportable s (fd', e)" "event_tasks s' (fd', e) = event_tasks s (fd', e)"
    "fired s' t (fd', e) \<longleftrightarrow> fired s t (fd', e)" "fired t s' (fd', e) \<longleftrightarrow> fired t s (fd', e)"
  using assms by (auto simp: only_fd_def reportable_def event_tasks_def fired_def infinite_def watched_read_def watched_write_def split: prod.splits)

lemma check_ioe_ok:
  assumes "ep_inv s" "distinct (map fst evs)" "\<forall>e\<in>set evs. reportable s e \<and> \<not> urgent e" "ep_refusals s = []"
  shows "\<exists>s'. epoll_check_ioe evs s = Some s' \<and> ep_inv s' \<and> ep_refusals s' = [] \<and> ep_tasks s' = ep_tasks s @ concat (map (event_tasks s) evs) \<and>
    (\<forall>e\<in>set evs. fired s s' e) \<and> (\<forall>fd. fd \<notin> fst ` set evs \<longrightarrow> ep_ctxs s' fd = ep_ctxs s fd)"
  using assms
proof (induction evs arbitrary: s)
  case Nil
  then show ?case by simp
next
  case (Cons e es)
  obtain fd events so_error where e: "e = (fd, events, so_error)" by (cases e)
  obtain s1 where 1: "epoll_event e s = Some s1" "ep_inv s1" "only_fd fd s s1" "ep_tasks s1 = ep_tasks s @ event_tasks s e" "fired s s1 e"
    "ep_refusals s1 = []"
    using epoll_event_ok [OF Cons.prems(1,4), of fd events so_error] Cons.prems(3) e by auto
  have other: "fst x \<noteq> fd" if "x \<in> set es" for x using Cons.prems(2) that e by auto
  have same: "event_tasks s1 x = event_tasks s x" "reportable s1 x = reportable s x" "fired s1 t x = fired s t x" if "x \<in> set es" for x t
    using other [OF that] only_fd_views [OF 1(3)] by (cases x; simp)+
  obtain s2 where 2: "epoll_check_ioe es s1 = Some s2" "ep_inv s2" "ep_tasks s2 = ep_tasks s1 @ concat (map (event_tasks s1) es)"
    "\<forall>e\<in>set es. fired s1 s2 e" "\<forall>fd. fd \<notin> fst ` set es \<longrightarrow> ep_ctxs s2 fd = ep_ctxs s1 fd" "ep_refusals s2 = []"
    using Cons.IH [OF 1(2)] 1(6) Cons.prems same by auto
  have "ep_ctxs s2 fd = ep_ctxs s1 fd" using 2(5) other by force
  then have "fired s s2 e" using 1(5) by (simp add: e fired_def watched_read_def watched_write_def)
  moreover have "concat (map (event_tasks s1) es) = concat (map (event_tasks s) es)" by (rule arg_cong [where f = concat]) (simp add: same)
  ultimately show ?case using 1 2 same(3) by (auto simp: e only_fd_def)
qed

text \<open>An urgent event throws, when the events before it have been dealt with.\<close>

lemma epoll_event_urgent: "urgent e \<Longrightarrow> epoll_event e s = None"
  by (cases e) (auto simp: urgent_def epoll_event_def has_flag_join split: Option.bind_splits)

lemma check_ioe_append: "epoll_check_ioe (es @ fs) s = do { s \<leftarrow> epoll_check_ioe es s; epoll_check_ioe fs s }"
  by (induction es arbitrary: s) simp_all

lemma check_ioe_urgent:
  assumes inv: "ep_inv s" "distinct (map fst evs)" "\<forall>e\<in>set evs. reportable s e" "ep_refusals s = []" and u: "\<exists>e\<in>set evs. urgent e"
  shows "\<exists>es e fs s1 ctx. evs = es @ e # fs \<and> urgent e \<and> epoll_check_ioe es s = Some s1 \<and> ep_tasks s1 = ep_tasks s @ concat (map (event_tasks s) es) \<and>
    ep_ctxs s1 (fst e) = Some ctx \<and> epoll_event e s1 = None \<and> epoll_check_ioe evs s = None"
proof -
  obtain es e fs where e: "evs = es @ e # fs" "urgent e" "\<forall>x\<in>set es. \<not> urgent x" using split_list_first_prop [OF u] by auto
  obtain s1 where s1: "epoll_check_ioe es s = Some s1" "ep_tasks s1 = ep_tasks s @ concat (map (event_tasks s) es)"
    "\<forall>fd. fd \<notin> fst ` set es \<longrightarrow> ep_ctxs s1 fd = ep_ctxs s fd"
    using check_ioe_ok [OF inv(1), of es] inv(2-4) e(1,3) by auto
  have "reportable s e" "fst e \<notin> fst ` set es" using inv(2,3) e(1) by auto
  then obtain ctx where "ep_ctxs s1 (fst e) = Some ctx" using inv(1) s1(3) by (fastforce simp: reportable_def ep_inv_def fd_ok_def)
  moreover have "epoll_check_ioe evs s = None" using s1(1) epoll_event_urgent [OF e(2)] by (simp add: e(1) check_ioe_append)
  ultimately show ?thesis using e(1,2) s1(1,2) epoll_event_urgent [OF e(2)] by blast
qed

section \<open>The reachable states\<close>

definition epoll_new :: "bool list \<Rightarrow> epoll" where
  "epoll_new rs = \<lparr> ep_ctxs = Map.empty, ep_interest = Map.empty, ep_refusals = rs, ep_tasks = [] \<rparr>"

text \<open>
  The kernel may start or stop refusing calls at any time, and forgets a descriptor that is closed. In these states it has refused a call of watch()
  whenever it liked, but none of unwatch(): see the next section for that.
\<close>

inductive ep_reach :: "epoll \<Rightarrow> bool" where
  start: "ep_reach (epoll_new rs)"
| refuses: "ep_reach s \<Longrightarrow> ep_reach (s\<lparr> ep_refusals := rs \<rparr>)"
| closed: "ep_reach s \<Longrightarrow> ep_reach (s\<lparr> ep_interest := (ep_interest s)(fd := None) \<rparr>)"
| watches: "ep_reach s \<Longrightarrow> process_op (OP_WATCH flag fd fn) s = Some s' \<Longrightarrow> ep_reach s'"
| unwatches: "ep_reach s \<Longrightarrow> ep_refusals s = [] \<Longrightarrow> process_op (OP_UNWATCH flag fd) s = Some s' \<Longrightarrow> ep_reach s'"
| events: "ep_reach s \<Longrightarrow> ep_refusals s = [] \<Longrightarrow> distinct (map fst evs) \<Longrightarrow> \<forall>e\<in>set evs. reportable s e \<Longrightarrow> epoll_check_ioe evs s = Some s' \<Longrightarrow> ep_reach s'"

lemma ep_reach_inv: "ep_reach s \<Longrightarrow> ep_inv s"
proof (induction rule: ep_reach.induct)
  case (start rs)
  then show ?case by (simp add: epoll_new_def ep_inv_def fd_ok_def)
next
  case (refuses s rs)
  then show ?case by (simp add: ep_inv_def fd_ok_def)
next
  case (closed s fd)
  then show ?case by (simp add: ep_inv_def fd_ok_def)
next
  case (watches s flag fd fn s')
  then show ?case using epoll_watch_ok by simp
next
  case (unwatches s flag fd s')
  then have u: "epoll_unwatch flag fd s = Some s'" by simp
  then have "fd > 0" by (auto simp: epoll_unwatch_def epoll_do_unwatch_def split: if_splits)
  then obtain c s1 where "epoll_do_unwatch flag fd s = Some (c, s1)" "ep_inv s1"
    using epoll_do_unwatch_ok [OF unwatches.IH _ unwatches(2)] by metis
  then show ?case using u by (simp add: epoll_unwatch_def)
next
  case (events s evs s')
  then have "\<not> (\<exists>e\<in>set evs. urgent e)" using check_ioe_urgent [OF events.IH events(3,4,2)] by auto
  then show ?case using check_ioe_ok [OF events.IH events(3)] events by force
qed

section \<open>What the observer guarantees\<close>

text \<open>
  C19: In every state the observer can reach while the kernel refuses no unwatch(), whatever it answers to watch() and whatever descriptors are closed, take any events the kernel
  can report. If none of them is urgent data (EPOLLPRI without an error), check_ioe() does not throw and does not follow a dangling
  pointer; each event schedules exactly the callbacks that were registered for it, in the order of the events; a watch that is not infinite has
  ended, after an error nothing is watched on the descriptor, and the watches of the other descriptors are as before. If there is urgent data, for which
  every watch asks, the events before the first such event are dispatched in the same way, its context is there, and check_ioe() throws.
\<close>

theorem epoll_dispatches_events:
  assumes "ep_reach s" "ep_refusals s = []" "distinct (map fst evs)" "\<forall>e\<in>set evs. reportable s e"
  shows "if \<exists>e\<in>set evs. urgent e then
      \<exists>es e fs s1 ctx. evs = es @ e # fs \<and> urgent e \<and> epoll_check_ioe es s = Some s1 \<and> ep_tasks s1 = ep_tasks s @ concat (map (event_tasks s) es) \<and>
        ep_ctxs s1 (fst e) = Some ctx \<and> epoll_event e s1 = None \<and> epoll_check_ioe evs s = None
    else \<exists>s'. epoll_check_ioe evs s = Some s' \<and> ep_tasks s' = ep_tasks s @ concat (map (event_tasks s) evs) \<and>
      (\<forall>e\<in>set evs. fired s s' e) \<and> (\<forall>fd. fd \<notin> fst ` set evs \<longrightarrow> ep_ctxs s' fd = ep_ctxs s fd)"
proof (cases "\<exists>e\<in>set evs. urgent e")
  case True
  then show ?thesis using check_ioe_urgent [OF ep_reach_inv [OF assms(1)] assms(3,4,2)] by simp
next
  case False
  then show ?thesis using check_ioe_ok [OF ep_reach_inv [OF assms(1)] assms(3) _ assms(2)] assms(4) by auto
qed

text \<open>A descriptor watched for reading until told otherwise, and for one write.\<close>

definition sample_ops :: "event_op list" where
  "sample_ops = [OP_WATCH (IOE_READ OR IOE_INFINITE_WATCH_READ) 7 Async_read, OP_WATCH IOE_WRITE 9 Async_write]"

definition sample_watched :: epoll where
  "sample_watched = \<lparr> ep_ctxs = [7 \<mapsto> \<lparr> oc_flag = 5, oc_fd = 7, oc_read = Some Async_read, oc_write = None \<rparr>,
       9 \<mapsto> \<lparr> oc_flag = 2, oc_fd = 9, oc_read = None, oc_write = Some Async_write \<rparr>],
     ep_interest = [7 \<mapsto> 3, 9 \<mapsto> 6], ep_refusals = [], ep_tasks = [] \<rparr>"

lemma sample_ops_run: "process_ops sample_ops (epoll_new []) = Some sample_watched"
  by (simp add: sample_ops_def epoll_new_def sample_watched_def epoll_watch_def epoll_ctl_def observer_ctx_new_def
      ctx_update_for_watch_def watch_defs epoll_bits has_flag_def del: has_flag_single)

lemma process_watches_reach: "ep_reach s \<Longrightarrow> \<forall>op\<in>set ops. \<exists>flag fd fn. op = OP_WATCH flag fd fn \<Longrightarrow> process_ops ops s = Some s' \<Longrightarrow> ep_reach s'"
proof (induction ops arbitrary: s)
  case (Cons op ops)
  then obtain flag fd fn s1 where "op = OP_WATCH flag fd fn" "process_op op s = Some s1" "process_ops ops s1 = Some s'" by (auto simp: bind_eq_Some_conv)
  moreover from this have "ep_reach s1" using ep_reach.watches [OF Cons.prems(1)] by blast
  ultimately show ?case using Cons.IH [of s1] Cons.prems(2) by simp
qed simp

lemma sample_watched_reach: "ep_reach sample_watched"
  by (rule process_watches_reach [OF ep_reach.start _ sample_ops_run]) (auto simp: sample_ops_def)

theorem epoll_dispatches_events_witness:
  "\<exists>s'. epoll_check_ioe [(9, EPOLLOUT, 0), (7, EPOLLIN, 0)] sample_watched = Some s' \<and> ep_tasks s' = [Io_task Async_write, Io_task Async_read]"
proof -
  have "distinct (map fst [(9 :: int, EPOLLOUT, 0 :: int), (7, EPOLLIN, 0)])" by simp
  moreover have "\<forall>e\<in>set [(9, EPOLLOUT, 0), (7, EPOLLIN, 0)]. reportable sample_watched e"
    by (simp add: reportable_def sample_watched_def)
  moreover have "\<not> (\<exists>e\<in>set [(9 :: int, EPOLLOUT, 0 :: int), (7, EPOLLIN, 0)]. urgent e)" by (simp add: urgent_def)
  moreover have "ep_refusals sample_watched = []" by (simp add: sample_watched_def)
  ultimately obtain s' where "epoll_check_ioe [(9, EPOLLOUT, 0), (7, EPOLLIN, 0)] sample_watched = Some s'"
    "ep_tasks s' = ep_tasks sample_watched @ concat (map (event_tasks sample_watched) [(9, EPOLLOUT, 0), (7, EPOLLIN, 0)])"
    using epoll_dispatches_events [OF sample_watched_reach, of "[(9, EPOLLOUT, 0), (7, EPOLLIN, 0)]"] by (simp only: if_False) blast
  then show ?thesis by (simp add: event_tasks_def sample_watched_def)
qed

section \<open>Lost interest and lost contexts\<close>

text \<open>unwatch() of a write watch builds the interest from the flags of the context, so reading is asked for again.\<close>

lemma unwatch_write_restores:
  assumes "ctx_ok fd ctx" "ep_ctxs s fd = Some ctx" "oc_read ctx \<noteq> None" "ep_interest s fd \<noteq> None" "ep_refusals s = []"
  shows "\<exists>s'. epoll_unwatch IOE_WRITE fd s = Some s' \<and> ep_interest s' fd = Some (EPOLLPRI OR EPOLLIN) \<and> ep_tasks s' = ep_tasks s \<and> watched_read s' fd = oc_read ctx"
proof -
  have b: "bit (oc_flag ctx) 0" "fd > 0" using assms(1,3) by (auto simp: ctx_ok_def)
  obtain ctx' where u: "ctx_update_for_unwatch ctx IOE_WRITE fd = Some ctx'" "oc_read ctx' = oc_read ctx"
    by (rule update_for_unwatch_fields [OF assms(1), of IOE_WRITE]) auto
  have "bit ((oc_flag ctx AND (IOE_READ OR IOE_WRITE)) AND NOT IOE_WRITE) 0" using b(1) by (simp add: bit_and_iff bit_or_iff bit_not_iff)
  then have "(oc_flag ctx AND (IOE_READ OR IOE_WRITE)) AND NOT IOE_WRITE \<noteq> 0" using byte_zero by blast
  then show ?thesis using assms(2,4,5) b u
    by (auto simp: epoll_unwatch_def epoll_do_unwatch_def epoll_ctl_def watched_read_def flag_bit_simps Let_def)
qed

text \<open>
  C30: watch() on a descriptor that is watched already replaces the kernel's interest by the new flag instead of adding to it. When a descriptor that
  is registered and watched for reading is also watched for writing, the observer still holds the callback for reading, but the kernel is no
  longer asked for EPOLLIN: no event it can report then runs that callback. This lasts until the write watch is taken back: when it fires and was for one event, unwatch()
  asks for EPOLLIN again; when it is infinite, reading is still not reported after it has fired.
\<close>

theorem epoll_watch_drops_read_interest:
  assumes "ep_reach s" "watched_read s fd \<noteq> None" "watched_write s fd = None" "ep_interest s fd \<noteq> None" "ep_refusals s = []"
    "flag \<in> {IOE_WRITE, IOE_WRITE OR IOE_INFINITE_WATCH_WRITE}"
  shows "\<exists>s'. epoll_watch flag fd fn s = Some s' \<and> watched_read s' fd = watched_read s fd \<and>
    (\<forall>events so_error. reportable s' (fd, events, so_error) \<longrightarrow> \<not> has_flag events EPOLLIN) \<and>
    (\<exists>s''. epoll_event (fd, EPOLLOUT, 0) s' = Some s'' \<and> ep_tasks s'' = ep_tasks s @ [Io_task fn] \<and> watched_read s'' fd = watched_read s fd \<and>
      (reportable s'' (fd, EPOLLIN, 0) \<longleftrightarrow> flag = IOE_WRITE))"
proof -
  obtain ctx where ctx: "ep_ctxs s fd = Some ctx" using assms(2) by (auto simp: watched_read_def split: option.splits)
  then have ok: "ctx_ok fd ctx" using ep_reach_inv [OF assms(1)] by (auto simp: ep_inv_def fd_ok_def)
  have w: "oc_write ctx = None" "oc_read ctx \<noteq> None" using assms(2,3) ctx by (simp_all add: watched_write_def watched_read_def)
  have fl: "\<not> bit flag 0" "bit flag 1" "\<not> bit flag 2" "bit flag 3 \<longleftrightarrow> flag \<noteq> IOE_WRITE" "flag \<noteq> 0"
    using assms(6) by (auto simp: bit_or_iff watch_defs)
  have "bit flag n \<Longrightarrow> n = 1 \<or> n = 3" for n using assms(6) by (auto simp: bit_or_iff)
  then have clear: "oc_flag ctx AND flag = 0" using ok w by (auto simp: ctx_ok_def word_and_zero)
  obtain ctx' where u: "ctx_update_for_watch ctx flag fd fn = Some ctx'"
    using ok w clear fl by (simp add: ctx_update_for_watch_def ctx_ok_def Let_def)
  note f = update_for_watch_fields [OF u]
  have ok': "ctx_ok fd ctx'" by (rule update_for_watch_ok [OF u]) (use ok fl in \<open>auto simp: ctx_ok_def\<close>)
  define s' where "s' = s\<lparr> ep_interest := (ep_interest s)(fd \<mapsto> EPOLLPRI OR EPOLLOUT), ep_ctxs := (ep_ctxs s)(fd \<mapsto> ctx') \<rparr>"
  have c': "ep_ctxs s' fd = Some ctx'" "ep_interest s' fd \<noteq> None" "ep_refusals s' = []" "oc_read ctx' = oc_read ctx" "oc_write ctx' = Some fn"
    using fl assms(5) by (simp_all add: s'_def f)
  have "epoll_watch flag fd fn s = Some s'"
    using ctx ok clear u assms(4,5) fl by (simp add: epoll_watch_def epoll_ctl_def has_flag_join ctx_ok_def s'_def)
  moreover have "watched_read s' fd = watched_read s fd" using ctx c' by (simp add: watched_read_def)
  moreover have "\<not> has_flag events EPOLLIN" if "reportable s' (fd, events, so_error)" for events so_error
    using that by (auto simp: reportable_def s'_def bit_or_iff)
  moreover have out: "EPOLLOUT AND NOT EPOLLIN AND NOT EPOLLOUT = 0" by (simp add: epoll_bits)
  moreover have "\<exists>s''. epoll_event (fd, EPOLLOUT, 0) s' = Some s'' \<and> ep_tasks s'' = ep_tasks s @ [Io_task fn] \<and> watched_read s'' fd = watched_read s fd \<and>
      (reportable s'' (fd, EPOLLIN, 0) \<longleftrightarrow> flag = IOE_WRITE)"
  proof (cases "bit flag 3")
    case True
    then have "bit (oc_flag ctx') 3" using fl by (simp add: f)
    then have "epoll_event (fd, EPOLLOUT, 0) s' = Some (ep_schedule (Io_task fn) s')"
      using c' ok' by (simp add: epoll_event_def epoll_event_out_def has_flag_join ctx_ok_def out)
    then show ?thesis using True fl(4) ctx c' by (auto simp: watched_read_def reportable_def s'_def bit_or_iff)
  next
    case False
    then have "\<not> bit (oc_flag ctx') 3" using fl ok w by (auto simp: f ctx_ok_def)
    moreover obtain t where t: "epoll_unwatch IOE_WRITE fd s' = Some t" "ep_interest t fd = Some (EPOLLPRI OR EPOLLIN)" "ep_tasks t = ep_tasks s'" "watched_read t fd = oc_read ctx'"
      using unwatch_write_restores [OF ok' c'(1) _ c'(2,3)] c'(4) w(2) by auto
    ultimately have "epoll_event (fd, EPOLLOUT, 0) s' = Some (ep_schedule (Io_task fn) t)"
      using c' ok' by (simp add: epoll_event_def epoll_event_out_def has_flag_join ctx_ok_def out)
    moreover have "watched_read (ep_schedule (Io_task fn) t) fd = watched_read s fd" using t(4) c'(4) ctx by (simp add: watched_read_def)
    ultimately show ?thesis using False fl(4) t by (auto simp: reportable_def s'_def bit_or_iff)
  qed
  ultimately show ?thesis by blast
qed

theorem epoll_watch_drops_read_interest_witness:
  "\<exists>s'. epoll_watch IOE_WRITE 7 Async_write sample_watched = Some s' \<and> watched_read s' 7 = Some Async_read \<and>
    (\<forall>events so_error. reportable s' (7, events, so_error) \<longrightarrow> \<not> has_flag events EPOLLIN)"
  using epoll_watch_drops_read_interest [OF sample_watched_reach, of 7 IOE_WRITE Async_write]
  by (auto simp: sample_watched_def watched_read_def watched_write_def)

text \<open>
  unwatch() erases the context even when the kernel refuses the call and keeps the registration, with its pointer to the context: the next event on the
  descriptor follows a dangling pointer.
\<close>

lemma refused_unwatch_dangles:
  assumes "ep_reach s" "ep_interest s fd = Some ev" "ep_refusals s = True # rs"
  shows "\<exists>s'. epoll_unwatch flag fd s = Some s' \<and> ep_ctxs s' fd = None \<and> ep_interest s' fd = Some ev \<and>
    (\<forall>events so_error. epoll_event (fd, events, so_error) s' = None)"
proof -
  obtain ctx where ctx: "ep_ctxs s fd = Some ctx" using ep_reach_inv [OF assms(1)] assms(2) by (fastforce simp: ep_inv_def fd_ok_def)
  then have "fd > 0" using ep_reach_inv [OF assms(1)] by (auto simp: ep_inv_def fd_ok_def ctx_ok_def)
  moreover have "(oc_flag ctx AND (IOE_READ OR IOE_WRITE)) AND NOT flag = 0" if "bit (oc_flag ctx) 0 \<longrightarrow> bit flag 0" "bit (oc_flag ctx) 1 \<longrightarrow> bit flag 1"
    using that unfolding byte_zero bit_clear(1) unfolding bit_and_iff bit_or_iff flag_bit by (auto intro!: gr0I)
  ultimately show ?thesis using ctx assms(2,3)
    by (auto simp: epoll_unwatch_def epoll_do_unwatch_def epoll_ctl_def epoll_event_def flag_bit_simps Let_def)
qed

end
