(* ===== verification/Wcb_Sample.thy ===== *)
theory Wcb_Sample
  imports Wcb
begin

text \<open>
  A concrete control block: an established, idle connection with a peer, small buffers, a socket that
  accepts every datagram and a clock that ticks once per reading. The theorems about the block are
  applied to it to show that their hypotheses can hold.
\<close>

definition sample_env :: wcb_env where
  "sample_env = \<lparr> env_send_rt = (\<lambda>_. 0), env_sent = [], env_connect_rt = (\<lambda>_. 0), env_nconnect = 0,
     env_inbox = [], env_recv_rt = E_SOCKET_RECV_BLOCK, env_clock = of_nat, env_ticks = 0 \<rparr>"

definition sample_rb :: bytes_ringbuffer where
  "sample_rb = \<lparr> rb_m_capacity = 2049, rb_m_begin = 0, rb_m_end = 0, rb_m_buffer = fresh_mem (\<lambda>_. 0) 2049 \<rparr>"

definition sample_wcb :: WCB where
  "sample_wcb = \<lparr> w_env = sample_env, w_fd = 5, w_four_tuple_hash_id = 7, w_state = WCB_ESTABLISHED,
     w_timer_state = 0, w_wcb_errno = 0, w_wcb_option = 0, w_wcb_flag = SND_CWND_SLOW_START, w_r_flag = 0,
     w_s_flag = 0, w_local_addr = 1, w_remote_addr = 2, w_rto = WCP_RTO_INIT, w_srtt = 0, w_rttvar = 0,
     w_received_vec = [], w_received_vec_standby = [],
     w_rcv_info = \<lparr> ri_wnd = 2048, ri_next = 2 \<rparr>, w_rcv_received = [], w_rb = sample_rb,
     w_rb_standby = sample_rb, w_r_timer_last_rwnd_update = 0, w_backloglist_pending = [], w_backlogq = [],
     w_backlog_size = 128, w_snd_biggest_ack = 0, w_snd_lost_detected_timer = 0, w_snd_lost_biggest_seq = 0,
     w_snd_lost_cwnd_compensation = 0, w_snd_lost_bigger_than_lost_seq_time = 0,
     w_snd_timer_cwnd_congest_avoidance = 0,
     w_snd_info = \<lparr> si_dsn = 2, si_next = 2, si_una = 2, si_ssthresh = WCP_SND_SSTHRESH_DEFAULT,
       si_cwnd = WCP_IW * WCP_MTU, si_rwnd = WCP_RCV_WND_DEFAULT \<rparr>,
     w_snd_sending = [], w_snd_nflight_bytes = 0, w_snd_nflight_bytes_max = 0, w_snd_flights = [],
     w_snd_last_rto_timer = 0, w_snd_sacked_pack_tmp = [], w_sb = sample_rb, w_s_sending_standby = [],
     w_s_sending_ignore_seq_space = [], w_keepalive_timer_last_received_pack = 0,
     w_keepalive_vals = \<lparr> ka_idle = 60, ka_interval = 60, ka_probes = 5 \<rparr>, w_keepalive_probes_sent = 0 \<rparr>"

text \<open>The same buffer after three bytes were written to it.\<close>

definition sample_sb :: bytes_ringbuffer where
  "sample_sb = \<lparr> rb_m_capacity = 2049, rb_m_begin = 0, rb_m_end = 3,
     rb_m_buffer = [1, 2, 3] @ fresh_mem (\<lambda>_. 0) 2046 \<rparr>"

lemma sample_sb_ok [simp]: "rb_inv sample_sb" "rb_list sample_sb = [1, 2, 3]"
  by (simp_all add: sample_sb_def rb_inv_def rb_list_def MIN_RING_BUFFER_SIZE_def MAX_RING_BUFFER_SIZE_def)

lemma sample_rb_ok [simp]: "rb_inv sample_rb" "rb_list sample_rb = []"
  "rb_count sample_rb = 0" "rb_left_capacity sample_rb = 2048"
  by (simp_all add: sample_rb_def rb_inv_def rb_list_def rb_count_def rb_left_capacity_def rb_capacity_def
      MIN_RING_BUFFER_SIZE_def MAX_RING_BUFFER_SIZE_def)

end
