(* ===== verification/Wcb_Recv_Props.thy ===== *)
theory Wcb_Recv_Props
  imports Wcb_Send Wcb_Sample
begin

text \<open>
  What check_recv() guarantees. The list rcv_received stays strictly sorted and free of
  duplicates; the bytes in flight always equal the sum over the packs in flight, so the
  assertion in _handle_pack_acked never fails; and in an established connection the payloads
  reach the user's stream in sequence order, each once, however the network reordered, repeated or
  lost the datagrams that carry them.
\<close>

section \<open>The reordering list\<close>

abbreviation seqs :: "WCB_received_pack list \<Rightarrow> u32 list" where
  "seqs ps \<equiv> map rp_seq ps"

lemma insert_rev_sorted:
  "sorted_wrt (>) (seqs qs) \<Longrightarrow>
   (case insert_rev p qs of
      None \<Rightarrow> rp_seq p \<in> set (seqs qs)
    | Some qs' \<Rightarrow> rp_seq p \<notin> set (seqs qs) \<and> sorted_wrt (>) (seqs qs') \<and> set qs' = insert p (set qs))"
  by (induction qs) (auto split: option.splits simp: not_less)

lemma sorted_wrt_rev_word:
  "sorted_wrt (>) (rev (xs :: u32 list)) \<longleftrightarrow> sorted_wrt (<) xs"
  by (simp add: sorted_wrt_rev)

lemma rcv_insert_sorted:
  assumes "sorted_wrt (<) (seqs xs)"
  shows "sorted_wrt (<) (seqs (rcv_insert p xs))"
    "set (rcv_insert p xs) = (if rp_seq p \<in> set (seqs xs) then set xs else insert p (set xs))"
proof -
  have "sorted_wrt (>) (seqs (rev xs))"
    using assms by (simp add: rev_map [symmetric] sorted_wrt_rev_word)
  note i = insert_rev_sorted [OF this, of p]
  show "sorted_wrt (<) (seqs (rcv_insert p xs))"
    using i assms
    by (auto simp: rcv_insert_def rev_map [symmetric] sorted_wrt_rev split: option.splits)
  show "set (rcv_insert p xs) = (if rp_seq p \<in> set (seqs xs) then set xs else insert p (set xs))"
    using i by (auto simp: rcv_insert_def split: option.splits)
qed

section \<open>Bytes in flight\<close>

definition flight_bytes :: "WCB_pack list \<Rightarrow> nat" where
  "flight_bytes ps = sum_list (map (\<lambda>p. unat (pack_total_bytes p)) ps)"

definition accounted :: "WCB \<Rightarrow> bool" where
  "accounted w \<longleftrightarrow> unat (w_snd_nflight_bytes w) = flight_bytes (w_snd_flights w) \<and>
     w_snd_nflight_bytes w \<le> w_snd_nflight_bytes_max w \<and> w_snd_nflight_bytes w \<le> WCP_SND_CWND_MAX"

lemma flight_bytes_simps [simp]:
  "flight_bytes [] = 0"
  "flight_bytes (p # ps) = unat (pack_total_bytes p) + flight_bytes ps"
  "flight_bytes (ps @ qs) = flight_bytes ps + flight_bytes qs"
  by (simp_all add: flight_bytes_def)

lemma find_erase_flight:
  "find_flight a ps = Some p \<Longrightarrow>
   flight_bytes ps = unat (pack_total_bytes p) + flight_bytes (erase_flight a ps)"
  by (induction ps) (auto simp: find_flight_def split: if_splits)

lemma set_erase_flight: "set (erase_flight a ps) \<subseteq> set ps"
  by (induction ps) auto

text \<open>
  What the handling of acknowledgements leaves alone: everything but the members of the congestion
  control, the packs in flight and the clock.
\<close>

definition ack_view where
  "ack_view w = ((w_state w, w_wcb_errno w, w_wcb_option w, w_r_flag w, w_s_flag w, w_remote_addr w),
     (w_rcv_info w, w_rcv_received w, w_rb w, w_rb_standby w, w_sb w),
     (w_snd_sending w, w_s_sending_standby w, w_s_sending_ignore_seq_space w, w_snd_sacked_pack_tmp w),
     (w_snd_nflight_bytes_max w, si_next (w_snd_info w), si_dsn (w_snd_info w),
      si_una (w_snd_info w), si_rwnd (w_snd_info w)),
     (env_sent (w_env w), env_send_rt (w_env w), w_received_vec w, w_received_vec_standby w))"

lemma ack_view_check_cwnd [simp]: "ack_view (check_cwnd n w) = ack_view w"
  by (simp add: ack_view_def check_cwnd_def curr_milliseconds_def Let_def)

lemma ack_view_rtt_sample [simp]: "ack_view (rtt_sample rtt w) = ack_view w"
  by (simp add: ack_view_def rtt_sample_def Let_def)

lemma ack_view_fast_recovery [simp]: "ack_view (fast_recovery_check a w) = ack_view w"
  by (simp add: ack_view_def fast_recovery_check_def Let_def)

lemma ack_view_updates [simp]:
  "ack_view (w\<lparr> w_snd_nflight_bytes := n \<rparr>) = ack_view w"
  "ack_view (w\<lparr> w_snd_flights := fs \<rparr>) = ack_view w"
  "ack_view (w\<lparr> w_snd_biggest_ack := b, w_wcb_flag := f \<rparr>) = ack_view w"
  by (simp_all add: ack_view_def)

lemma flights_unchanged [simp]:
  "w_snd_flights (check_cwnd n w) = w_snd_flights w"
  "w_snd_flights (rtt_sample rtt w) = w_snd_flights w"
  "w_snd_flights (fast_recovery_check a w) = w_snd_flights w"
  "w_snd_nflight_bytes (check_cwnd n w) = w_snd_nflight_bytes w"
  "w_snd_nflight_bytes (rtt_sample rtt w) = w_snd_nflight_bytes w"
  "w_snd_nflight_bytes (fast_recovery_check a w) = w_snd_nflight_bytes w"
  by (simp_all add: check_cwnd_def rtt_sample_def fast_recovery_check_def curr_milliseconds_def Let_def)

text \<open>The window stays below its maximum and the timeout within its bounds.\<close>

definition tuned :: "WCB \<Rightarrow> bool" where
  "tuned w \<longleftrightarrow> si_cwnd (w_snd_info w) \<le> WCP_SND_CWND_MAX \<and>
     WCP_RTO_MIN \<le> w_rto w \<and> w_rto w \<le> WCP_RTO_MAX"

lemma tuned_check_cwnd [inv_pres]: "tuned w \<Longrightarrow> tuned (check_cwnd n w)"
  by (simp add: tuned_def check_cwnd_def curr_milliseconds_def Let_def)

lemma tuned_rtt_sample [inv_pres]: "tuned w \<Longrightarrow> tuned (rtt_sample rtt w)"
  by (simp add: tuned_def rtt_sample_def Let_def not_less WCP_RTO_MIN_def WCP_RTO_MAX_def)

lemma tuned_fast_recovery [inv_pres]: "tuned w \<Longrightarrow> tuned (fast_recovery_check a w)"
  by (simp add: tuned_def fast_recovery_check_def Let_def)

lemma tuned_updates [simp]:
  "tuned (w\<lparr> w_snd_nflight_bytes := n \<rparr>) = tuned w"
  "tuned (w\<lparr> w_snd_flights := fs \<rparr>) = tuned w"
  "tuned (w\<lparr> w_snd_biggest_ack := b, w_wcb_flag := f \<rparr>) = tuned w"
  by (simp_all add: tuned_def)

lemma handle_pack_acked_ok:
  assumes "unat (pack_total_bytes p) \<le> unat (w_snd_nflight_bytes w)"
  obtains w' where "handle_pack_acked p now w = Some w'" "ack_view w' = ack_view w"
    "w_snd_flights w' = w_snd_flights w"
    "unat (w_snd_nflight_bytes w') = unat (w_snd_nflight_bytes w) - unat (pack_total_bytes p)"
    "tuned w \<longrightarrow> tuned w'"
proof -
  let ?w1 = "if wp_sent_times p = 1 then rtt_sample (ucast (now - wp_sent_ts p)) w else w"
  let ?w2 = "?w1\<lparr> w_snd_nflight_bytes := w_snd_nflight_bytes ?w1 - pack_total_bytes p \<rparr>"
  have "handle_pack_acked p now w = Some (check_cwnd (pack_total_bytes p) ?w2)"
    using assms by (simp add: handle_pack_acked_def Let_def word_le_unat)
  moreover have "tuned w \<longrightarrow> tuned (check_cwnd (pack_total_bytes p) ?w2)"
    by (simp add: tuned_check_cwnd tuned_rtt_sample)
  ultimately show ?thesis
    using assms by (intro that) (simp_all add: unat_sub_nowrap)
qed

lemma ack_one_ok:
  assumes acc: "accounted w"
  obtains w' where "ack_one now a w = Some w'" "ack_view w' = ack_view w" "accounted w'"
    "set (w_snd_flights w') \<subseteq> set (w_snd_flights w)" "tuned w \<longrightarrow> tuned w'"
proof (cases "a < si_una (w_snd_info w)")
  case True
  then show ?thesis using acc that [of w] by (simp add: ack_one_def)
next
  case False
  define w1 where "w1 = (if a > w_snd_biggest_ack w
     then w\<lparr> w_snd_biggest_ack := a, w_wcb_flag := set_flag (w_wcb_flag w) SND_BIGGEST_SACK_UPDATE \<rparr> else w)"
  have v1: "ack_view w1 = ack_view w" and t1: "tuned w1 = tuned w"
    and f1: "w_snd_flights w1 = w_snd_flights w" "w_snd_nflight_bytes w1 = w_snd_nflight_bytes w"
    by (simp_all add: w1_def)
  have one: "ack_one now a w = do { w \<leftarrow> (case find_flight a (w_snd_flights w1) of None \<Rightarrow> Some w1
      | Some otf \<Rightarrow> do { w \<leftarrow> handle_pack_acked otf now w1;
                        Some (w\<lparr> w_snd_flights := erase_flight a (w_snd_flights w) \<rparr>) });
      Some (fast_recovery_check a w) }"
    unfolding ack_one_def Let_def w1_def [symmetric] using False by simp
  have mx: "ack_view w' = ack_view w \<Longrightarrow> w_snd_nflight_bytes_max w' = w_snd_nflight_bytes_max w" for w'
    by (simp add: ack_view_def)
  show ?thesis
  proof (cases "find_flight a (w_snd_flights w1)")
    case None
    then show ?thesis
      using acc v1 t1 f1 mx [of "fast_recovery_check a w1"]
      by (intro that [of "fast_recovery_check a w1"])
        (simp_all add: one accounted_def tuned_fast_recovery)
  next
    case (Some otf)
    then have fb: "flight_bytes (w_snd_flights w) =
        unat (pack_total_bytes otf) + flight_bytes (erase_flight a (w_snd_flights w))"
      using f1 by (simp add: find_erase_flight)
    then have le: "unat (pack_total_bytes otf) \<le> unat (w_snd_nflight_bytes w1)"
      using acc f1 by (simp add: accounted_def)
    obtain w2 where w2: "handle_pack_acked otf now w1 = Some w2" "ack_view w2 = ack_view w1"
      "w_snd_flights w2 = w_snd_flights w1"
      "unat (w_snd_nflight_bytes w2) = unat (w_snd_nflight_bytes w1) - unat (pack_total_bytes otf)"
      "tuned w1 \<longrightarrow> tuned w2"
      by (rule handle_pack_acked_ok [OF le, of now])
    let ?w3 = "w2\<lparr> w_snd_flights := erase_flight a (w_snd_flights w2) \<rparr>"
    have "ack_one now a w = Some (fast_recovery_check a ?w3)"
      using Some w2(1) by (simp add: one)
    moreover have "ack_view (fast_recovery_check a ?w3) = ack_view w" using w2(2) v1 by simp
    moreover have "accounted (fast_recovery_check a ?w3)"
      using mx [OF \<open>ack_view (fast_recovery_check a ?w3) = ack_view w\<close>] w2(3,4) f1 fb acc
      by (auto simp: accounted_def word_le_unat)
    moreover have "set (w_snd_flights (fast_recovery_check a ?w3)) \<subseteq> set (w_snd_flights w)"
      using w2(3) f1 set_erase_flight [of a] by simp
    moreover have "tuned w \<longrightarrow> tuned (fast_recovery_check a ?w3)"
      using w2(5) t1 by (simp add: tuned_fast_recovery)
    ultimately show ?thesis by (rule that)
  qed
qed

lemma ack_all_ok:
  assumes "accounted w"
  shows "\<exists>w'. ack_all now as w = Some w' \<and> ack_view w' = ack_view w \<and> accounted w' \<and>
    set (w_snd_flights w') \<subseteq> set (w_snd_flights w) \<and> (tuned w \<longrightarrow> tuned w')"
  using assms
proof (induction as arbitrary: w)
  case Nil
  then show ?case by simp
next
  case (Cons a as)
  obtain w1 where w1: "ack_one now a w = Some w1" "ack_view w1 = ack_view w" "accounted w1"
    "set (w_snd_flights w1) \<subseteq> set (w_snd_flights w)" "tuned w \<longrightarrow> tuned w1"
    by (rule ack_one_ok [OF Cons.prems, of now a])
  then show ?case using Cons.IH [OF w1(3)] by auto
qed

section \<open>Packs of an established connection\<close>

lemma test_flag_or: "test_flag f (a OR b) \<longleftrightarrow> test_flag f a \<or> test_flag f b"
  by (simp add: test_flag_def bit.conj_disj_distrib or_eq_0_iff)

lemma test_set_flag_mono: "test_flag f m \<Longrightarrow> test_flag (set_flag f k) m"
  by (simp add: test_flag_def set_flag_def bit.conj_disj_distrib2 or_eq_0_iff)

text \<open>The bytes a pack carries in the sequence space.\<close>

definition payload :: "WCB_received_pack \<Rightarrow> bytes" where
  "payload p = (if h_dlen (rp_header p) = 0 then []
                else case rp_data p of None \<Rightarrow> [] | Some d \<Rightarrow> d)"

text \<open>
  \<open>seg\<close> is the sender's stream: the payload it gave to each sequence number. A pack of the
  data phase is a selective acknowledgement, a keepalive, or a pack in sequence without SYN, FIN and RST
  that carries what the sender put there.
\<close>

definition data_ok :: "(u32 \<Rightarrow> bytes) \<Rightarrow> address \<Rightarrow> WCB_received_pack \<Rightarrow> bool" where
  "data_ok seg remote p \<longleftrightarrow>
     \<not> test_flag (rp_flag p) WCP_FLAG_SYN \<and> \<not> test_flag (rp_flag p) WCP_FLAG_FIN \<and>
     \<not> test_flag (rp_flag p) WCP_FLAG_RST \<and> payload p = seg (rp_seq p) \<and>
     (h_dlen (rp_header p) > 0 \<longrightarrow> test_flag (rp_flag p) WCP_FLAG_DAT \<and> rp_from p = remote \<and>
        data_len (rp_data p) = unat (h_dlen (rp_header p)))"

definition sack_ok :: "WCB_received_pack \<Rightarrow> bool" where
  "sack_ok p \<longleftrightarrow> data_len (rp_data p) \<noteq> 0 \<and> 4 dvd data_len (rp_data p)"

definition sequenced :: "WCB_received_pack \<Rightarrow> bool" where
  "sequenced p \<longleftrightarrow> \<not> test_flag (rp_flag p) WCP_FLAG_SACK \<and> \<not> test_flag (rp_flag p) WCP_FLAG_KEEP_ALIVE \<and>
     \<not> test_flag (rp_flag p) WCP_FLAG_KEEP_ALIVE_REPLY"

definition phase_ok :: "(u32 \<Rightarrow> bytes) \<Rightarrow> address \<Rightarrow> u32 \<Rightarrow> WCB_received_pack \<Rightarrow> bool" where
  "phase_ok seg remote lim p \<longleftrightarrow> h_ack (rp_header p) \<le> lim \<and>
     (test_flag (rp_flag p) WCP_FLAG_SACK \<longrightarrow> sack_ok p) \<and>
     (sequenced p \<longrightarrow> data_ok seg remote p)"

lemma read_sacks_total: "4 dvd length d \<Longrightarrow> \<exists>ss. read_sacks d = Some ss \<and> length ss = length d div 4"
proof (induction d rule: read_sacks.induct)
  case (1 d)
  show ?case
  proof (cases "length d = 0")
    case True
    then show ?thesis by (simp add: read_sacks.simps [of "[]"])
  next
    case False
    then have l: "4 \<le> length d" using 1(2) by (meson dvd_imp_le not_gr_zero)
    then obtain s where s: "read_u32 d = Some s" by (simp add: read_u32_def read_impl_Some)
    have "4 dvd length (drop 4 d)" using 1(2) l by (simp add: dvd_diff_nat)
    from 1(1) [OF False s this] obtain ss where ss: "read_sacks (drop 4 d) = Some ss"
      "length ss = (length d - 4) div 4" by auto
    have "length d div 4 = Suc ((length d - 4) div 4)" using l by (simp add: le_div_geq)
    then show ?thesis using False s ss by (simp add: read_sacks.simps [of d])
  qed
qed

section \<open>The first pass over the received packs\<close>

definition recv_view where
  "recv_view w = ((w_state w, w_wcb_errno w, w_wcb_option w, w_r_flag w, w_s_flag w, w_remote_addr w),
     (w_rcv_info w, w_rb w, w_rb_standby w, w_sb w, w_env w),
     (w_snd_sending w, w_s_sending_standby w, w_snd_flights w, w_snd_nflight_bytes w, w_snd_nflight_bytes_max w),
     (si_next (w_snd_info w), si_dsn (w_snd_info w), si_cwnd (w_snd_info w), w_rto w))"

text \<open>Every pack outside the sequence space fits in a datagram.\<close>

definition ignore_ok :: "WCB \<Rightarrow> bool" where
  "ignore_ok w \<longleftrightarrow> (\<forall>e \<in> set (w_s_sending_ignore_seq_space w). data_len (wp_data (fst e)) \<le> 1384)"

text \<open>
  No entry is a bare window update: each is a selective acknowledgement of whole sequence numbers,
  or a keepalive.
\<close>

definition ignore_clean :: "WCB \<Rightarrow> bool" where
  "ignore_clean w \<longleftrightarrow> (\<forall>e \<in> set (w_s_sending_ignore_seq_space w).
     (test_flag (h_flag (wp_header (fst e))) WCP_FLAG_SACK \<longrightarrow>
        data_len (wp_data (fst e)) \<noteq> 0 \<and> 4 dvd data_len (wp_data (fst e))) \<and>
     (test_flag (h_flag (wp_header (fst e))) WCP_FLAG_SACK \<or>
      test_flag (h_flag (wp_header (fst e))) WCP_FLAG_KEEP_ALIVE \<or>
      test_flag (h_flag (wp_header (fst e))) WCP_FLAG_KEEP_ALIVE_REPLY))"

definition reorder_ok :: "(u32 \<Rightarrow> bytes) \<Rightarrow> WCB \<Rightarrow> bool" where
  "reorder_ok seg w \<longleftrightarrow> sorted_wrt (<) (seqs (w_rcv_received w)) \<and>
     (\<forall>p \<in> set (w_rcv_received w). data_ok seg (w_remote_addr w) p \<and> ri_next (w_rcv_info w) \<le> rp_seq p)"

lemma data_len_new_pack [simp]: "data_len (wp_data (new_pack s f d)) = data_len d"
  by (simp add: new_pack_def)

lemma data_len_simps [simp]: "data_len None = 0" "data_len (Some d) = length d"
  by (simp_all add: data_len_def)

lemma flag_new_pack [simp]: "h_flag (wp_header (new_pack s f d)) = f"
  by (simp add: new_pack_def)

lemma ignore_flags [simp]:
  "test_flag WCP_FLAG_SACK WCP_FLAG_SACK" "\<not> test_flag WCP_FLAG_KEEP_ALIVE WCP_FLAG_SACK"
  "\<not> test_flag WCP_FLAG_KEEP_ALIVE_REPLY WCP_FLAG_SACK"
  "test_flag WCP_FLAG_KEEP_ALIVE WCP_FLAG_KEEP_ALIVE"
  "test_flag WCP_FLAG_KEEP_ALIVE_REPLY WCP_FLAG_KEEP_ALIVE_REPLY"
  by (simp_all add: test_flag_def WCP_FLAG_defs)

lemma recv_one_ok:
  assumes ok: "phase_ok seg (w_remote_addr w) lim p"
    and re: "reorder_ok seg w" and ig: "ignore_ok w" and una: "si_una (w_snd_info w) \<le> lim"
  obtains w' q' where "recv_one p (w, q) = Some (w', q')" "recv_view w' = recv_view w"
    "reorder_ok seg w'" "ignore_ok w'" "si_una (w_snd_info w') \<le> lim"
    "set (w_rcv_received w) \<subseteq> set (w_rcv_received w')" "ignore_clean w \<longrightarrow> ignore_clean w'"
    "4 dvd length (w_snd_sacked_pack_tmp w) \<longrightarrow> 4 dvd length (w_snd_sacked_pack_tmp w')"
    "sequenced p \<and> ri_next (w_rcv_info w) \<le> rp_seq p \<longrightarrow> rp_seq p \<in> set (seqs (w_rcv_received w'))"
    "set (w_rcv_received w') \<subseteq> set (w_rcv_received w) \<union> set (filter sequenced [p])"
proof -
  define w1 where "w1 = (if si_una (w_snd_info w) < h_ack (rp_header p)
              then w\<lparr> w_snd_info := (w_snd_info w)\<lparr> si_una := h_ack (rp_header p),
                                                     si_rwnd := h_wnd (rp_header p) \<rparr>,
                      w_wcb_flag := set_flag (w_wcb_flag w) SND_UNA_UPDATE \<rparr>
              else w)"
  define w2 where "w2 = (if test_flag (rp_flag p) WCP_FLAG_WND
              then w1\<lparr> w_snd_info := (w_snd_info w1)\<lparr> si_rwnd := h_wnd (rp_header p) \<rparr> \<rparr> else w1)"
  have v1: "recv_view w1 = recv_view w" "w_rcv_received w1 = w_rcv_received w"
    "w_s_sending_ignore_seq_space w1 = w_s_sending_ignore_seq_space w"
    "w_snd_sacked_pack_tmp w1 = w_snd_sacked_pack_tmp w" "si_una (w_snd_info w1) \<le> lim"
    using una ok by (auto simp: w1_def recv_view_def phase_ok_def)
  have v2: "recv_view w2 = recv_view w" "w_rcv_received w2 = w_rcv_received w"
    "w_s_sending_ignore_seq_space w2 = w_s_sending_ignore_seq_space w"
    "w_snd_sacked_pack_tmp w2 = w_snd_sacked_pack_tmp w" "si_una (w_snd_info w2) \<le> lim"
    using v1 by (auto simp: w2_def recv_view_def)
  have eq: "w_remote_addr w2 = w_remote_addr w" "w_rcv_info w2 = w_rcv_info w"
    using v2(1) by (auto simp: recv_view_def)
  have re2: "reorder_ok seg w2" using re v2(2) eq by (simp add: reorder_ok_def)
  have one: "recv_one p (w, q) =
     (if test_flag (rp_flag p) WCP_FLAG_SACK
     then do { wawo_assert (rp_data p \<noteq> None \<and> data_len (rp_data p) \<noteq> 0);
               sacks \<leftarrow> read_sacks (the (rp_data p));
               Some (w2, q @ sacks) }
     else if test_flag (rp_flag p) WCP_FLAG_KEEP_ALIVE then Some (keepalive_reply w2, q)
     else if test_flag (rp_flag p) WCP_FLAG_KEEP_ALIVE_REPLY then Some (w2, q)
     else let w = w2\<lparr> w_snd_sacked_pack_tmp := w_snd_sacked_pack_tmp w2 @ write_impl (rp_seq p) \<rparr> in
          if rp_seq p < ri_next (w_rcv_info w) then Some (w, q)
          else Some (w\<lparr> w_rcv_received := rcv_insert p (w_rcv_received w) \<rparr>, q))"
    unfolding recv_one_def Let_def w1_def w2_def by simp
  consider (sack) "test_flag (rp_flag p) WCP_FLAG_SACK"
    | (ka) "\<not> test_flag (rp_flag p) WCP_FLAG_SACK" "test_flag (rp_flag p) WCP_FLAG_KEEP_ALIVE"
    | (kar) "\<not> test_flag (rp_flag p) WCP_FLAG_SACK" "\<not> test_flag (rp_flag p) WCP_FLAG_KEEP_ALIVE"
        "test_flag (rp_flag p) WCP_FLAG_KEEP_ALIVE_REPLY"
    | (old) "sequenced p" "rp_seq p < ri_next (w_rcv_info w)"
    | (new) "sequenced p" "ri_next (w_rcv_info w) \<le> rp_seq p"
    unfolding sequenced_def using linorder_le_less_linear [of "ri_next (w_rcv_info w)" "rp_seq p"] by blast
  then show ?thesis
  proof cases
    case sack
    then have "sack_ok p" using ok by (simp add: phase_ok_def)
    then obtain d where d: "rp_data p = Some d" "length d \<noteq> 0" "4 dvd length d"
      by (cases "rp_data p") (auto simp: sack_ok_def)
    from read_sacks_total [OF d(3)] obtain ss where "read_sacks d = Some ss" by blast
    then have "recv_one p (w, q) = Some (w2, q @ ss)" using sack d by (simp add: one)
    then show ?thesis
      by (rule that) (use v2 re2 ig sack in \<open>auto simp: ignore_ok_def ignore_clean_def sequenced_def\<close>)
  next
    case ka
    then have "recv_one p (w, q) = Some (keepalive_reply w2, q)" by (simp add: one)
    then show ?thesis
      by (rule that)
        (use v2 re2 ig ka in \<open>auto simp: ignore_ok_def ignore_clean_def sequenced_def keepalive_reply_def push_ignore_def
           recv_view_def reorder_ok_def\<close>)
  next
    case kar
    then have "recv_one p (w, q) = Some (w2, q)" by (simp add: one)
    then show ?thesis
      by (rule that) (use v2 re2 ig kar in \<open>auto simp: ignore_ok_def ignore_clean_def sequenced_def\<close>)
  next
    case old
    then have "recv_one p (w, q) =
        Some (w2\<lparr> w_snd_sacked_pack_tmp := w_snd_sacked_pack_tmp w2 @ write_impl (rp_seq p) \<rparr>, q)"
      using eq by (simp add: one sequenced_def)
    then show ?thesis
      by (rule that) (use v2 re2 ig old in \<open>auto simp: ignore_ok_def ignore_clean_def recv_view_def reorder_ok_def\<close>)
  next
    case new
    then have r: "recv_one p (w, q) =
        Some (w2\<lparr> w_snd_sacked_pack_tmp := w_snd_sacked_pack_tmp w2 @ write_impl (rp_seq p),
                  w_rcv_received := rcv_insert p (w_rcv_received w) \<rparr>, q)"
      using eq v2(2) by (simp add: one sequenced_def Let_def not_less [symmetric])
    have srt: "sorted_wrt (<) (seqs (w_rcv_received w))" using re by (simp add: reorder_ok_def)
    note ins = rcv_insert_sorted [OF srt, of p]
    have "data_ok seg (w_remote_addr w) p" using ok new by (simp add: phase_ok_def)
    then have "reorder_ok seg (w2\<lparr> w_snd_sacked_pack_tmp := w_snd_sacked_pack_tmp w2 @ write_impl (rp_seq p),
                  w_rcv_received := rcv_insert p (w_rcv_received w) \<rparr>)"
      using ins re new eq by (auto simp: reorder_ok_def split: if_splits)
    then show ?thesis
      by (intro that [OF r])
        (use v2 ig ins(2) new in \<open>auto simp: ignore_ok_def ignore_clean_def recv_view_def\<close>)
  qed
qed

lemma recv_all_ok:
  assumes "\<forall>p \<in> set ps. phase_ok seg (w_remote_addr w) lim p"
    and "reorder_ok seg w" "ignore_ok w" "si_una (w_snd_info w) \<le> lim"
  shows "\<exists>w' q'. recv_all ps (w, q) = Some (w', q') \<and> recv_view w' = recv_view w \<and>
    reorder_ok seg w' \<and> ignore_ok w' \<and> si_una (w_snd_info w') \<le> lim \<and>
    set (w_rcv_received w) \<subseteq> set (w_rcv_received w') \<and> (ignore_clean w \<longrightarrow> ignore_clean w') \<and>
    (4 dvd length (w_snd_sacked_pack_tmp w) \<longrightarrow> 4 dvd length (w_snd_sacked_pack_tmp w')) \<and>
    (\<forall>p \<in> set ps. sequenced p \<and> ri_next (w_rcv_info w) \<le> rp_seq p \<longrightarrow>
       rp_seq p \<in> set (seqs (w_rcv_received w'))) \<and>
    set (w_rcv_received w') \<subseteq> set (w_rcv_received w) \<union> set (filter sequenced ps)"
  using assms
proof (induction ps arbitrary: w q)
  case Nil
  then show ?case by simp
next
  case (Cons p ps)
  obtain w1 q1 where w1: "recv_one p (w, q) = Some (w1, q1)" "recv_view w1 = recv_view w"
    "reorder_ok seg w1" "ignore_ok w1" "si_una (w_snd_info w1) \<le> lim"
    "set (w_rcv_received w) \<subseteq> set (w_rcv_received w1)" "ignore_clean w \<longrightarrow> ignore_clean w1"
    "4 dvd length (w_snd_sacked_pack_tmp w) \<longrightarrow> 4 dvd length (w_snd_sacked_pack_tmp w1)"
    "sequenced p \<and> ri_next (w_rcv_info w) \<le> rp_seq p \<longrightarrow> rp_seq p \<in> set (seqs (w_rcv_received w1))"
    "set (w_rcv_received w1) \<subseteq> set (w_rcv_received w) \<union> set (filter sequenced [p])"
    by (rule recv_one_ok [of seg w lim p q]) (use Cons.prems in auto)
  have eq: "w_remote_addr w1 = w_remote_addr w" "w_rcv_info w1 = w_rcv_info w"
    using w1(2) by (auto simp: recv_view_def)
  from Cons.IH [of w1 q1] w1 Cons.prems eq obtain w2 q2 where
    "recv_all ps (w1, q1) = Some (w2, q2)" "recv_view w2 = recv_view w" "reorder_ok seg w2"
    "ignore_ok w2" "si_una (w_snd_info w2) \<le> lim" "set (w_rcv_received w1) \<subseteq> set (w_rcv_received w2)"
    "ignore_clean w1 \<longrightarrow> ignore_clean w2"
    "4 dvd length (w_snd_sacked_pack_tmp w1) \<longrightarrow> 4 dvd length (w_snd_sacked_pack_tmp w2)"
    "\<forall>p \<in> set ps. sequenced p \<and> ri_next (w_rcv_info w) \<le> rp_seq p \<longrightarrow>
       rp_seq p \<in> set (seqs (w_rcv_received w2))"
    "set (w_rcv_received w2) \<subseteq> set (w_rcv_received w1) \<union> set (filter sequenced ps)" by auto
  moreover have "set (w_rcv_received w2) \<subseteq> set (w_rcv_received w) \<union> set (filter sequenced (p # ps))"
    using calculation(10) w1(10) by auto
  ultimately show ?case using w1(1,2,6-9) by (auto 0 4 simp del: filter.simps)
qed

section \<open>Delivery in sequence\<close>

definition deliver_view where
  "deliver_view w = ((w_state w, w_wcb_errno w, w_wcb_option w, w_s_flag w, w_remote_addr w),
     (w_rb w, w_sb w, w_env w, w_snd_info w, w_rto w, w_s_sending_ignore_seq_space w, w_snd_sacked_pack_tmp w),
     (w_snd_sending w, w_s_sending_standby w, w_snd_flights w, w_snd_nflight_bytes w, w_snd_nflight_bytes_max w))"

lemma deliver_data_ok:
  assumes inv: "rb_inv (w_rb_standby w)" and ok: "data_ok seg (w_remote_addr w) p"
  shows "(length (payload p) \<le> unat (rb_left_capacity (w_rb_standby w)) \<longrightarrow>
      (\<exists>w'. deliver_data p w = Some (None, w') \<and> deliver_view w' = deliver_view w \<and>
        rb_inv (w_rb_standby w') \<and> rb_list (w_rb_standby w') = rb_list (w_rb_standby w) @ payload p \<and>
        ri_next (w_rcv_info w') = ri_next (w_rcv_info w))) \<and>
    (unat (rb_left_capacity (w_rb_standby w)) < length (payload p) \<longrightarrow>
      deliver_data p w = Some (Some Break_keep, w\<lparr> w_r_flag := set_flag (w_r_flag w) READ_RWND_LESS_THAN_MTU \<rparr>))"
proof (cases "h_dlen (rp_header p) > 0")
  case False
  then have "h_dlen (rp_header p) = 0" by (simp add: word_gt_0)
  then show ?thesis using inv by (simp add: deliver_data_def payload_def)
next
  case True
  let ?n = "ucast (h_dlen (rp_header p)) :: u32"
  have n: "unat ?n = unat (h_dlen (rp_header p))"
    by (rule unat_ucast_up) simp
  from True ok obtain d where d: "rp_data p = Some d" "length d = unat (h_dlen (rp_header p))"
    by (cases "rp_data p") (auto simp: data_ok_def word_gt_0 word_eq_unat)
  have pd: "payload p = d" using d True by (simp add: payload_def word_gt_0)
  have fl: "test_flag (rp_flag p) WCP_FLAG_DAT" "\<not> test_flag (rp_flag p) (WCP_FLAG_SYN OR WCP_FLAG_FIN)"
    "rp_from p = w_remote_addr w" using ok True by (auto simp: data_ok_def test_flag_or)
  have ne: "?n \<noteq> 0" using True n by (metis unat_eq_0 unat_0 word_gt_0)
  show ?thesis
  proof (cases "length d \<le> unat (rb_left_capacity (w_rb_standby w))")
    case False
    then show ?thesis using True fl n d pd by (simp add: deliver_data_def word_less_unat)
  next
    case le: True
    obtain c rb where w: "rb_write (w_rb_standby w) d ?n = Some (c, rb)" "rb_inv rb"
      "unat c = min (unat ?n) (unat (rb_left_capacity (w_rb_standby w)))"
      "rb_list rb = rb_list (w_rb_standby w) @ take (unat c) d"
      using rb_write_ok [OF inv ne, of d] n d(2) by (metis order_refl)
    then have "rb_list rb = rb_list (w_rb_standby w) @ d" using n d le by simp
    moreover have "\<not> rb_left_capacity (w_rb_standby w) < ?n" using le n d by (simp add: word_less_unat)
    ultimately show ?thesis
      using True fl d pd w(1,2) le by (simp add: deliver_data_def deliver_view_def Let_def)
  qed
qed

lemma deliver_one_ok:
  assumes inv: "rb_inv (w_rb_standby w)" and ok: "data_ok seg (w_remote_addr w) p"
    and st: "w_state w = WCB_ESTABLISHED"
  shows "(length (payload p) \<le> unat (rb_left_capacity (w_rb_standby w)) \<longrightarrow>
      (\<exists>w'. deliver_one now p w = Some (Next_pack, w') \<and> deliver_view w' = deliver_view w \<and>
        rb_inv (w_rb_standby w') \<and> rb_list (w_rb_standby w') = rb_list (w_rb_standby w) @ payload p \<and>
        ri_next (w_rcv_info w') = ri_next (w_rcv_info w) + 1)) \<and>
    (unat (rb_left_capacity (w_rb_standby w)) < length (payload p) \<longrightarrow>
      deliver_one now p w = Some (Break_keep, w\<lparr> w_r_flag := set_flag (w_r_flag w) READ_RWND_LESS_THAN_MTU \<rparr>))"
proof (cases "length (payload p) \<le> unat (rb_left_capacity (w_rb_standby w))")
  case True
  from deliver_data_ok [OF inv ok] True obtain w1 where w1: "deliver_data p w = Some (None, w1)"
    "deliver_view w1 = deliver_view w" "rb_inv (w_rb_standby w1)"
    "rb_list (w_rb_standby w1) = rb_list (w_rb_standby w) @ payload p"
    "ri_next (w_rcv_info w1) = ri_next (w_rcv_info w)" by blast
  have st1: "w_state w1 = WCB_ESTABLISHED" using w1(2) st by (simp add: deliver_view_def)
  have fl: "\<not> test_flag (rp_flag p) WCP_FLAG_SYN" "\<not> test_flag (rp_flag p) WCP_FLAG_FIN"
    "\<not> test_flag (rp_flag p) WCP_FLAG_RST" using ok by (simp_all add: data_ok_def)
  let ?w2 = "w1\<lparr> w_rcv_info := (w_rcv_info w1)\<lparr> ri_next := ri_next (w_rcv_info w1) + 1 \<rparr> \<rparr>"
  have "deliver_one now p w = Some (Next_pack, ?w2)"
    using w1(1) st1 fl by (simp add: deliver_one_def deliver_ack_def Let_def)
  moreover have "deliver_view ?w2 = deliver_view w" using w1(2) by (simp add: deliver_view_def)
  ultimately show ?thesis using True w1(3-5) by simp
next
  case False
  with deliver_data_ok [OF inv ok] show ?thesis by (simp add: deliver_one_def)
qed

lemma word_suc_le_of_less: "(a :: u32) < b \<Longrightarrow> a + 1 \<le> b"
  by (simp add: inc_le)

lemma deliver_all_ok:
  assumes "rb_inv (w_rb_standby w)" "w_state w = WCB_ESTABLISHED"
    and "sorted_wrt (<) (seqs ps)"
    and "\<forall>p \<in> set ps. data_ok seg (w_remote_addr w) p \<and> ri_next (w_rcv_info w) \<le> rp_seq p"
  shows "\<exists>n w'. deliver_all now ps w = Some (drop n ps, w') \<and> n \<le> length ps \<and>
    deliver_view w' = deliver_view w \<and> rb_inv (w_rb_standby w') \<and>
    ri_next (w_rcv_info w') = ri_next (w_rcv_info w) + of_nat n \<and>
    rb_list (w_rb_standby w') = rb_list (w_rb_standby w) @ concat (map seg (seqs (take n ps))) \<and>
    seqs (take n ps) = map (\<lambda>i. ri_next (w_rcv_info w) + of_nat i) [0..<n] \<and>
    (\<forall>p \<in> set (drop n ps). ri_next (w_rcv_info w') \<le> rp_seq p) \<and>
    (ps \<noteq> [] \<and> rp_seq (hd ps) = ri_next (w_rcv_info w) \<and>
      length (payload (hd ps)) \<le> unat (rb_left_capacity (w_rb_standby w)) \<longrightarrow> 0 < n)"
  using assms
proof (induction ps arbitrary: w)
  case Nil
  then show ?case by (intro exI [of _ 0] exI [of _ w]) simp
next
  case (Cons p ps)
  note inv = Cons.prems(1)
  have ok: "data_ok seg (w_remote_addr w) p" and ge: "ri_next (w_rcv_info w) \<le> rp_seq p"
    using Cons.prems(4) by auto
  note one = deliver_one_ok [OF inv ok Cons.prems(2), of now]
  consider (gap) "rp_seq p \<noteq> ri_next (w_rcv_info w)"
    | (full) "rp_seq p = ri_next (w_rcv_info w)"
        "unat (rb_left_capacity (w_rb_standby w)) < length (payload p)"
    | (deliv) "rp_seq p = ri_next (w_rcv_info w)"
        "length (payload p) \<le> unat (rb_left_capacity (w_rb_standby w))" by linarith
  then show ?case
  proof cases
    case gap
    then show ?thesis
      using Cons.prems ge by (intro exI [of _ 0] exI [of _ w]) simp
  next
    case full
    let ?w = "w\<lparr> w_r_flag := set_flag (w_r_flag w) READ_RWND_LESS_THAN_MTU \<rparr>"
    have "deliver_all now (p # ps) w = Some (p # ps, ?w)" using full one by simp
    then show ?thesis
      using Cons.prems full by (intro exI [of _ 0] exI [of _ ?w]) (simp add: deliver_view_def)
  next
    case deliv
    with one obtain w1 where w1: "deliver_one now p w = Some (Next_pack, w1)"
      "deliver_view w1 = deliver_view w" "rb_inv (w_rb_standby w1)"
      "rb_list (w_rb_standby w1) = rb_list (w_rb_standby w) @ payload p"
      "ri_next (w_rcv_info w1) = ri_next (w_rcv_info w) + 1" by blast
    have eq: "w_state w1 = WCB_ESTABLISHED" "w_remote_addr w1 = w_remote_addr w"
      using w1(2) Cons.prems(2) by (simp_all add: deliver_view_def)
    have ge1: "\<forall>q \<in> set ps. data_ok seg (w_remote_addr w1) q \<and> ri_next (w_rcv_info w1) \<le> rp_seq q"
      using Cons.prems(3,4) deliv(1) eq(2) w1(5) by (auto simp: word_suc_le_of_less)
    have "sorted_wrt (<) (seqs ps)" using Cons.prems(3) by simp
    from Cons.IH [OF w1(3) eq(1) this ge1] obtain n w2 where w2:
      "deliver_all now ps w1 = Some (drop n ps, w2)" "n \<le> length ps" "deliver_view w2 = deliver_view w1"
      "rb_inv (w_rb_standby w2)" "ri_next (w_rcv_info w2) = ri_next (w_rcv_info w1) + of_nat n"
      "rb_list (w_rb_standby w2) = rb_list (w_rb_standby w1) @ concat (map seg (seqs (take n ps)))"
      "seqs (take n ps) = map (\<lambda>i. ri_next (w_rcv_info w1) + of_nat i) [0..<n]"
      "\<forall>p \<in> set (drop n ps). ri_next (w_rcv_info w2) \<le> rp_seq p" by blast
    have "payload p = seg (rp_seq p)" using ok by (simp add: data_ok_def)
    moreover have "[0..<Suc n] = 0 # map Suc [0..<n]" by (simp add: map_Suc_upt upt_conv_Cons)
    then have "map (\<lambda>i. ri_next (w_rcv_info w) + of_nat i) [0..<Suc n] = rp_seq p # seqs (take n ps)"
      using w2(7) w1(5) deliv(1) by (simp add: add.assoc comp_def del: upt_Suc)
    ultimately show ?thesis
      using w1 w2 deliv Cons.prems ge by (intro exI [of _ "Suc n"] exI [of _ w2]) (simp del: upt_Suc)
  qed
qed

section \<open>Selective acknowledgements that are sent\<close>

lemma SACK_queue:
  "\<exists>q. SACK d w = w\<lparr> w_s_sending_ignore_seq_space := w_s_sending_ignore_seq_space w @ q \<rparr> \<and>
     (\<forall>e \<in> set q. data_len (wp_data (fst e)) \<le> 1384 \<and> data_len (wp_data (fst e)) \<noteq> 0 \<and> snd e = 2 \<and>
        (4 dvd length d \<longrightarrow> 4 dvd data_len (wp_data (fst e))) \<and>
        h_flag (wp_header (fst e)) = WCP_FLAG_SACK) \<and>
     concat (map (\<lambda>e. the (wp_data (fst e))) q) = d"
proof (induction d w rule: SACK.induct)
  case (1 d w)
  show ?case
  proof (cases "length d = 0")
    case True
    then show ?thesis by (intro exI [of _ "[]"]) (simp add: SACK.simps [of "[]"])
  next
    case False
    define n where "n = (if length d \<ge> pack_acked_max_bytes then pack_acked_max_bytes else length d)"
    let ?e = "(new_pack (si_dsn (w_snd_info w)) WCP_FLAG_SACK (Some (take n d)), 2)"
    have n: "n \<le> 1384" "n \<noteq> 0" "n \<le> length d" "4 dvd length d \<longrightarrow> 4 dvd n"
      using False by (auto simp: n_def pack_acked_max_bytes_def)
    let ?w1 = "push_ignore WCP_FLAG_SACK (Some (take n d)) (1 + WCP_SND_SACK_DUP_COUNT) w"
    have w1: "?w1 = w\<lparr> w_s_sending_ignore_seq_space := w_s_sending_ignore_seq_space w @ [?e] \<rparr>"
      by (simp add: push_ignore_def WCP_SND_SACK_DUP_COUNT_def)
    have "SACK d w = SACK (drop n d) ?w1"
      using False by (simp add: SACK.simps [of d w] n_def)
    moreover from 1 [OF False n_def] obtain q where q:
      "SACK (drop n d) ?w1 = ?w1\<lparr> w_s_sending_ignore_seq_space := w_s_sending_ignore_seq_space ?w1 @ q \<rparr>"
      "\<forall>e \<in> set q. data_len (wp_data (fst e)) \<le> 1384 \<and> data_len (wp_data (fst e)) \<noteq> 0 \<and> snd e = 2 \<and>
        (4 dvd length (drop n d) \<longrightarrow> 4 dvd data_len (wp_data (fst e))) \<and>
        h_flag (wp_header (fst e)) = WCP_FLAG_SACK"
      "concat (map (\<lambda>e. the (wp_data (fst e))) q) = drop n d" by blast
    moreover have "4 dvd length d \<longrightarrow> 4 dvd length (drop n d)" using n by (auto intro: dvd_diff_nat)
    moreover have "wp_data (fst ?e) = Some (take n d)" by (simp add: new_pack_def)
    ultimately show ?thesis
      using n unfolding w1 by (intro exI [of _ "?e # q"]) (auto simp: min_def)
  qed
qed

section \<open>One tick of an established connection\<close>

text \<open>The bytes the user will read: first the buffer in use, then the one being filled.\<close>

definition stream :: "WCB \<Rightarrow> bytes" where
  "stream w = rb_list (w_rb w) @ rb_list (w_rb_standby w)"

definition est_inv :: "(u32 \<Rightarrow> bytes) \<Rightarrow> WCB \<Rightarrow> bool" where
  "est_inv seg w \<longleftrightarrow> w_state w = WCB_ESTABLISHED \<and> rb_inv (w_rb w) \<and> rb_inv (w_rb_standby w) \<and>
     rb_inv (w_sb w) \<and> reorder_ok seg w \<and> ignore_ok w \<and> accounted w \<and> tuned w \<and>
     w_snd_sacked_pack_tmp w = []"

text \<open>What check_recv() leaves alone on the sending side.\<close>

definition snd_view where
  "snd_view w = (w_snd_sending w, w_s_sending_standby w, w_sb w, w_s_flag w, w_remote_addr w,
     si_next (w_snd_info w), si_dsn (w_snd_info w), env_sent (w_env w), env_send_rt (w_env w))"

lemma recv_swap_buffers_ok:
  assumes "rb_inv (w_rb w)" "rb_inv (w_rb_standby w)"
  shows "stream (recv_swap_buffers w) = stream w" "est_inv seg w \<Longrightarrow> est_inv seg (recv_swap_buffers w)"
    "snd_view (recv_swap_buffers w) = snd_view w"
    "ri_next (w_rcv_info (recv_swap_buffers w)) = ri_next (w_rcv_info w)"
    "si_una (w_snd_info (recv_swap_buffers w)) = si_una (w_snd_info w)"
    "w_snd_flights (recv_swap_buffers w) = w_snd_flights w"
    "ignore_clean (recv_swap_buffers w) = ignore_clean w"
    "w_rcv_received (recv_swap_buffers w) = w_rcv_received w"
proof -
  have "rb_list (w_rb w) = []" if "rb_count (w_rb w) = 0"
    using rb_count_list [OF assms(1)] that by simp
  then show "stream (recv_swap_buffers w) = stream w"
    by (auto simp: recv_swap_buffers_def stream_def Let_def)
qed (simp_all add: recv_swap_buffers_def est_inv_def reorder_ok_def ignore_clean_def ignore_ok_def accounted_def tuned_def
    snd_view_def Let_def)

lemma recv_idle_ok:
  assumes "est_inv seg w"
  shows "est_inv seg (recv_idle now w)" "stream (recv_idle now w) = stream w"
    "w_rcv_info (recv_idle now w) = w_rcv_info w" "snd_view (recv_idle now w) = snd_view w"
    "w_snd_info (recv_idle now w) = w_snd_info w" "w_snd_flights (recv_idle now w) = w_snd_flights w"
    "w_rb (recv_idle now w) = w_rb w" "w_rb_standby (recv_idle now w) = w_rb_standby w"
    "ignore_clean w \<longrightarrow> ignore_clean (recv_idle now w)" "w_rcv_received (recv_idle now w) = w_rcv_received w"
  using assms
  by (simp_all add: recv_idle_def ignore_clean_def est_inv_def reorder_ok_def ignore_ok_def accounted_def tuned_def
      stream_def snd_view_def keepalive_def push_ignore_def Let_def)

lemma hd_is_next:
  assumes "sorted_wrt (<) (xs :: u32 list)" "\<forall>x \<in> set xs. n \<le> x" "n \<in> set xs"
  shows "xs \<noteq> []" "hd xs = n"
  using assms by (cases xs; auto simp: order.antisym dest: leD)+

lemma recv_busy_ok:
  assumes inv: "est_inv seg w" and ph: "\<forall>p \<in> set (w_received_vec w). phase_ok seg (w_remote_addr w) lim p"
    and una: "si_una (w_snd_info w) \<le> lim"
  shows "\<exists>n w'. recv_busy now w = Some w' \<and> est_inv seg w' \<and>
    ri_next (w_rcv_info w') = ri_next (w_rcv_info w) + of_nat n \<and>
    stream w' = stream w @ concat (map (\<lambda>i. seg (ri_next (w_rcv_info w) + of_nat i)) [0..<n]) \<and>
    snd_view w' = snd_view w \<and> si_una (w_snd_info w') \<le> lim \<and>
    set (w_snd_flights w') \<subseteq> set (w_snd_flights w) \<and> (ignore_clean w \<longrightarrow> ignore_clean w') \<and>
    set (w_rcv_received w') \<subseteq> set (w_rcv_received w) \<union> set (filter sequenced (w_received_vec w)) \<and>
    (\<forall>i < n. ri_next (w_rcv_info w) + of_nat i \<in> rp_seq ` (set (w_rcv_received w) \<union> set (filter sequenced (w_received_vec w)))) \<and>
    ((\<exists>p \<in> set (w_received_vec w). sequenced p \<and> rp_seq p = ri_next (w_rcv_info w) \<and>
        length (payload p) \<le> unat (rb_left_capacity (w_rb_standby w))) \<longrightarrow> 0 < n)"
proof -
  define w0 where "w0 = w\<lparr> w_keepalive_timer_last_received_pack := now, w_keepalive_probes_sent := 0 \<rparr>"
  have i0: "reorder_ok seg w0" "ignore_ok w0" "si_una (w_snd_info w0) \<le> lim"
    "\<forall>p \<in> set (w_received_vec w). phase_ok seg (w_remote_addr w0) lim p" "recv_view w0 = recv_view w"
    "w_rcv_info w0 = w_rcv_info w"
    using inv ph una by (simp_all add: w0_def est_inv_def reorder_ok_def ignore_ok_def recv_view_def)
  from recv_all_ok [OF i0(4,1-3), of "[]"] obtain w1 q where r1: "recv_all (w_received_vec w) (w0, []) = Some (w1, q)"
    "recv_view w1 = recv_view w0" "reorder_ok seg w1" "ignore_ok w1" "si_una (w_snd_info w1) \<le> lim"
    "ignore_clean w0 \<longrightarrow> ignore_clean w1"
    "4 dvd length (w_snd_sacked_pack_tmp w0) \<longrightarrow> 4 dvd length (w_snd_sacked_pack_tmp w1)"
    "\<forall>p \<in> set (w_received_vec w). sequenced p \<and> ri_next (w_rcv_info w0) \<le> rp_seq p \<longrightarrow>
       rp_seq p \<in> set (seqs (w_rcv_received w1))"
    "set (w_rcv_received w1) \<subseteq> set (w_rcv_received w0) \<union> set (filter sequenced (w_received_vec w))" by blast
  define w2 where "w2 = (if length (w_snd_sacked_pack_tmp w1) \<noteq> 0
      then (SACK (w_snd_sacked_pack_tmp w1) w1)\<lparr> w_snd_sacked_pack_tmp := [] \<rparr> else w1)"
  obtain qs where qs: "w2 = w1\<lparr> w_s_sending_ignore_seq_space := w_s_sending_ignore_seq_space w1 @ qs,
      w_snd_sacked_pack_tmp := [] \<rparr>" "\<forall>e \<in> set qs. data_len (wp_data (fst e)) \<le> 1384"
      "4 dvd length (w_snd_sacked_pack_tmp w1) \<longrightarrow> (\<forall>e \<in> set qs. data_len (wp_data (fst e)) \<noteq> 0 \<and>
         4 dvd data_len (wp_data (fst e)) \<and> test_flag (h_flag (wp_header (fst e))) WCP_FLAG_SACK)"
  proof (cases "length (w_snd_sacked_pack_tmp w1) = 0")
    case True
    then show ?thesis using that [of "[]"] by (simp add: w2_def)
  next
    case False
    then show ?thesis using SACK_queue [of "w_snd_sacked_pack_tmp w1" w1] that by (auto simp: w2_def)
  qed
  have i2: "reorder_ok seg w2" "ignore_ok w2" "si_una (w_snd_info w2) \<le> lim" "recv_view w2 = recv_view w"
    "w_rcv_received w2 = w_rcv_received w1" "w_snd_sacked_pack_tmp w2 = []"
    using r1(2-5) i0(5) qs by (auto simp: reorder_ok_def ignore_ok_def recv_view_def)
  have cl: "ignore_clean w2" if "ignore_clean w"
  proof -
    have "ignore_clean w0" "w_snd_sacked_pack_tmp w0 = []"
      using that inv by (simp_all add: w0_def ignore_clean_def est_inv_def)
    then have "ignore_clean w1" "4 dvd length (w_snd_sacked_pack_tmp w1)" using r1(6,7) by simp_all
    then show ?thesis using qs by (auto simp: ignore_clean_def)
  qed
  have b2: "accounted w2" "tuned w2" "w_snd_flights w2 = w_snd_flights w"
    using i2(4) inv by (auto simp: recv_view_def accounted_def tuned_def est_inv_def)
  from ack_all_ok [OF b2(1), of now q] obtain w3 where w3: "ack_all now q w2 = Some w3"
    "ack_view w3 = ack_view w2" "accounted w3" "set (w_snd_flights w3) \<subseteq> set (w_snd_flights w2)" "tuned w3"
    using b2(2) by blast
  have e3: "w_state w3 = WCB_ESTABLISHED" "w_rb w3 = w_rb w" "w_rb_standby w3 = w_rb_standby w"
    "w_rcv_info w3 = w_rcv_info w" "w_rcv_received w3 = w_rcv_received w1" "w_remote_addr w3 = w_remote_addr w1"
    "w_sb w3 = w_sb w" "w_snd_sacked_pack_tmp w3 = []" "snd_view w3 = snd_view w"
    "si_una (w_snd_info w3) \<le> lim" "ignore_ok w3"
    using w3(2) i2 inv r1(2) by (auto simp: ack_view_def recv_view_def snd_view_def ignore_ok_def est_inv_def qs(1))
  have "w_rcv_info w1 = w_rcv_info w" using r1(2) i0(6) by (simp add: recv_view_def)
  then have re: "sorted_wrt (<) (seqs (w_rcv_received w3))"
    "\<forall>p \<in> set (w_rcv_received w3). data_ok seg (w_remote_addr w3) p \<and> ri_next (w_rcv_info w3) \<le> rp_seq p"
    using r1(3) e3 by (auto simp: reorder_ok_def)
  have "rb_inv (w_rb_standby w3)" using inv e3 by (simp add: est_inv_def)
  from deliver_all_ok [OF this e3(1) re] obtain n w4 where w4:
    "deliver_all now (w_rcv_received w3) w3 = Some (drop n (w_rcv_received w3), w4)"
    "deliver_view w4 = deliver_view w3" "rb_inv (w_rb_standby w4)"
    "ri_next (w_rcv_info w4) = ri_next (w_rcv_info w3) + of_nat n"
    "rb_list (w_rb_standby w4) = rb_list (w_rb_standby w3) @ concat (map seg (seqs (take n (w_rcv_received w3))))"
    "seqs (take n (w_rcv_received w3)) = map (\<lambda>i. ri_next (w_rcv_info w3) + of_nat i) [0..<n]"
    "\<forall>p \<in> set (drop n (w_rcv_received w3)). ri_next (w_rcv_info w4) \<le> rp_seq p"
    "w_rcv_received w3 \<noteq> [] \<and> rp_seq (hd (w_rcv_received w3)) = ri_next (w_rcv_info w3) \<and>
      length (payload (hd (w_rcv_received w3))) \<le> unat (rb_left_capacity (w_rb_standby w3)) \<longrightarrow> 0 < n"
    by blast
  let ?w = "w4\<lparr> w_rcv_received := drop n (w_rcv_received w3) \<rparr>"
  have "recv_busy now w = Some ?w"
    using r1(1) w3(1) w4(1)
    by (cases "w_snd_sacked_pack_tmp w1 = []") (simp_all add: recv_busy_def w0_def w2_def Let_def)
  moreover have "est_inv seg ?w"
  proof -
    have "sorted_wrt (<) (seqs (drop n (w_rcv_received w3)))" using re(1) by (simp add: drop_map [symmetric] sorted_wrt_drop)
    then show ?thesis
      using w4(2,3,7) e3 re(2) w3(3,5) inv
      by (auto simp: est_inv_def reorder_ok_def ignore_ok_def accounted_def tuned_def deliver_view_def
          dest: in_set_dropD)
  qed
  moreover have "ri_next (w_rcv_info ?w) = ri_next (w_rcv_info w) + of_nat n" using w4(4) e3(4) by simp
  moreover have "stream ?w = stream w @ concat (map (\<lambda>i. seg (ri_next (w_rcv_info w) + of_nat i)) [0..<n])"
    using w4(2,5) e3(2-4) unfolding w4(6) by (simp add: stream_def deliver_view_def comp_def)
  moreover have "snd_view ?w = snd_view w" "si_una (w_snd_info ?w) \<le> lim"
    "set (w_snd_flights ?w) \<subseteq> set (w_snd_flights w)"
    using w4(2) e3(9,10) w3(4) b2(3) by (auto simp: snd_view_def deliver_view_def)
  moreover have "ignore_clean ?w" if "ignore_clean w"
    using cl [OF that] w4(2) w3(2) by (simp add: ignore_clean_def deliver_view_def ack_view_def)
  moreover have src: "set (w_rcv_received w3) \<subseteq> set (w_rcv_received w) \<union> set (filter sequenced (w_received_vec w))"
    using r1(9) e3(5) by (simp add: w0_def)
  then have "set (w_rcv_received ?w) \<subseteq> set (w_rcv_received w) \<union> set (filter sequenced (w_received_vec w))"
    using set_drop_subset [of n "w_rcv_received w3"] by auto
  moreover have "ri_next (w_rcv_info w) + of_nat i \<in> rp_seq ` (set (w_rcv_received w) \<union> set (filter sequenced (w_received_vec w)))"
    if "i < n" for i
  proof -
    have "ri_next (w_rcv_info w) + of_nat i \<in> set (seqs (take n (w_rcv_received w3)))"
      using that e3(4) unfolding w4(6) by auto
    then show ?thesis using src set_take_subset [of n "w_rcv_received w3"] by (auto simp: image_iff)
  qed
  moreover have "0 < n" if ex: "\<exists>p \<in> set (w_received_vec w). sequenced p \<and> rp_seq p = ri_next (w_rcv_info w) \<and>
        length (payload p) \<le> unat (rb_left_capacity (w_rb_standby w))"
  proof -
    from ex obtain p where p: "p \<in> set (w_received_vec w)" "sequenced p" "rp_seq p = ri_next (w_rcv_info w)"
      "length (payload p) \<le> unat (rb_left_capacity (w_rb_standby w))" by blast
    have "ri_next (w_rcv_info w3) \<in> set (seqs (w_rcv_received w3))"
      using r1(8) p i0(6) e3(4,5) by (metis order_refl)
    note h = hd_is_next [OF re(1) _ this]
    have hd: "w_rcv_received w3 \<noteq> []" "rp_seq (hd (w_rcv_received w3)) = ri_next (w_rcv_info w3)"
      using h re(2) by (auto simp: hd_map)
    have "payload (hd (w_rcv_received w3)) = seg (ri_next (w_rcv_info w3))"
      using re(2) hd by (metis data_ok_def list.set_sel(1))
    moreover have "payload p = seg (ri_next (w_rcv_info w3))"
      using ph p e3(4) by (auto simp: phase_ok_def data_ok_def)
    ultimately show ?thesis using w4(8) hd p(4) e3(3) by simp
  qed
  ultimately show ?thesis by blast
qed

lemma check_recv_ok:
  assumes inv: "est_inv seg w"
    and ph: "\<forall>p \<in> set (w_received_vec_standby w). phase_ok seg (w_remote_addr w) lim p"
    and una: "si_una (w_snd_info w) \<le> lim"
  shows "\<exists>n w'. check_recv now w = Some w' \<and> est_inv seg w' \<and>
    ri_next (w_rcv_info w') = ri_next (w_rcv_info w) + of_nat n \<and>
    stream w' = stream w @ concat (map (\<lambda>i. seg (ri_next (w_rcv_info w) + of_nat i)) [0..<n]) \<and>
    snd_view w' = snd_view w \<and> si_una (w_snd_info w') \<le> lim \<and>
    set (w_snd_flights w') \<subseteq> set (w_snd_flights w) \<and> (ignore_clean w \<longrightarrow> ignore_clean w') \<and>
    set (w_rcv_received w') \<subseteq> set (w_rcv_received w) \<union> set (filter sequenced (w_received_vec_standby w)) \<and>
    (\<forall>i < n. ri_next (w_rcv_info w) + of_nat i \<in> rp_seq ` (set (w_rcv_received w) \<union> set (filter sequenced (w_received_vec_standby w)))) \<and>
    ((\<exists>p \<in> set (w_received_vec_standby w). sequenced p \<and> rp_seq p = ri_next (w_rcv_info w) \<and>
        length (payload p) \<le> unat (rb_left_capacity (w_rb_standby w))) \<longrightarrow> 0 < n)"
proof -
  let ?w0 = "recv_swap w"
  have s: "est_inv seg ?w0" "w_received_vec ?w0 = w_received_vec_standby w" "w_remote_addr ?w0 = w_remote_addr w"
    "w_snd_info ?w0 = w_snd_info w" "w_rcv_info ?w0 = w_rcv_info w" "stream ?w0 = stream w"
    "snd_view ?w0 = snd_view w" "w_snd_flights ?w0 = w_snd_flights w" "w_rb_standby ?w0 = w_rb_standby w"
    "ignore_clean ?w0 = ignore_clean w" "w_rcv_received ?w0 = w_rcv_received w"
    using inv by (auto simp: recv_swap_def ignore_clean_def est_inv_def reorder_ok_def ignore_ok_def accounted_def tuned_def
        stream_def snd_view_def)
  show ?thesis
  proof (cases "w_received_vec_standby w = []")
    case True
    let ?w1 = "recv_idle now ?w0"
    note i = recv_idle_ok [OF s(1), of now]
    have rb: "rb_inv (w_rb ?w1)" "rb_inv (w_rb_standby ?w1)" using i(1) by (simp_all add: est_inv_def)
    note b = recv_swap_buffers_ok [OF rb]
    have "check_recv now w = Some (recv_swap_buffers ?w1)" using True s(2) by (simp add: check_recv_def Let_def)
    then show ?thesis
      using b(1,3-8) b(2) [OF i(1)] i s una True
      by (intro exI [of _ 0] exI [of _ "recv_swap_buffers ?w1"]) simp
  next
    case False
    have ph0: "\<forall>p \<in> set (w_received_vec ?w0). phase_ok seg (w_remote_addr ?w0) lim p"
      and una0: "si_una (w_snd_info ?w0) \<le> lim" using ph una s(2-4) by simp_all
    from recv_busy_ok [OF s(1) ph0 una0, of now] obtain n w1 where w1: "recv_busy now ?w0 = Some w1"
      "est_inv seg w1" "ri_next (w_rcv_info w1) = ri_next (w_rcv_info w) + of_nat n"
      "stream w1 = stream w @ concat (map (\<lambda>i. seg (ri_next (w_rcv_info w) + of_nat i)) [0..<n])"
      "snd_view w1 = snd_view w" "si_una (w_snd_info w1) \<le> lim" "set (w_snd_flights w1) \<subseteq> set (w_snd_flights w)"
      "ignore_clean w \<longrightarrow> ignore_clean w1"
      "set (w_rcv_received w1) \<subseteq> set (w_rcv_received w) \<union> set (filter sequenced (w_received_vec_standby w))"
      "\<forall>i < n. ri_next (w_rcv_info w) + of_nat i \<in>
         rp_seq ` (set (w_rcv_received w) \<union> set (filter sequenced (w_received_vec_standby w)))"
      "(\<exists>p \<in> set (w_received_vec_standby w). sequenced p \<and> rp_seq p = ri_next (w_rcv_info w) \<and>
        length (payload p) \<le> unat (rb_left_capacity (w_rb_standby w))) \<longrightarrow> 0 < n"
      unfolding s(2) s(5-11) by blast
    have rb: "rb_inv (w_rb w1)" "rb_inv (w_rb_standby w1)" using w1(2) by (simp_all add: est_inv_def)
    note b = recv_swap_buffers_ok [OF rb]
    have "check_recv now w = Some (recv_swap_buffers w1)"
      using False s(2) w1(1) by (simp add: check_recv_def Let_def)
    then show ?thesis
      using b(1,3-8) b(2) [OF w1(2)] w1(3-11)
      by (intro exI [of _ n] exI [of _ "recv_swap_buffers w1"]) simp
  qed
qed

section \<open>Properties\<close>

text \<open>
  C3: in-order delivery. Take an established connection whose invariant holds, and let any packs of
  the data phase arrive in one tick: reordered, repeated, from the past, or far ahead. Then check_recv()
  does not throw and keeps the invariant. It appends to what the user will read exactly the
  payloads of the next sequence numbers, in order and each once, and rcv_info.next advances by their number.
  When the pack with the next number is among the arrivals and its payload fits in the buffer, at least
  one payload is delivered.
\<close>

theorem check_recv_delivers_in_order:
  assumes "est_inv seg w" "\<forall>p \<in> set (w_received_vec_standby w). phase_ok seg (w_remote_addr w) lim p"
    and "si_una (w_snd_info w) \<le> lim"
  shows "\<exists>n w'. check_recv now w = Some w' \<and> est_inv seg w' \<and>
    ri_next (w_rcv_info w') = ri_next (w_rcv_info w) + of_nat n \<and>
    stream w' = stream w @ concat (map (\<lambda>i. seg (ri_next (w_rcv_info w) + of_nat i)) [0..<n]) \<and>
    ((\<exists>p \<in> set (w_received_vec_standby w). sequenced p \<and> rp_seq p = ri_next (w_rcv_info w) \<and>
        length (payload p) \<le> unat (rb_left_capacity (w_rb_standby w))) \<longrightarrow> 0 < n)"
  using check_recv_ok [OF assms, of now] by blast

lemma est_inv_sample: "est_inv seg (sample_wcb\<lparr> w_received_vec_standby := ps \<rparr>)"
  by (simp add: est_inv_def sample_wcb_def reorder_ok_def ignore_ok_def accounted_def tuned_def WCP_const_defs)

definition sample_pack :: WCB_received_pack where
  "sample_pack = \<lparr> rp_header = \<lparr> h_seq = 2, h_ack = 2, h_wnd = 2048, h_flag = WCP_FLAG_DAT OR WCP_FLAG_ACK,
     h_dlen = 1 \<rparr>, rp_data = Some [7], rp_from = 2 \<rparr>"

lemma phase_ok_sample:
  "phase_ok (\<lambda>s. if s = 2 then [7] else []) 2 2 sample_pack" "sequenced sample_pack" "payload sample_pack = [7]"
  "rp_seq sample_pack = 2"
  by (simp_all add: sample_pack_def phase_ok_def sequenced_def data_ok_def payload_def test_flag_def WCP_FLAG_defs)

theorem check_recv_delivers_in_order_witness:
  "\<exists>w'. check_recv 9 (sample_wcb\<lparr> w_received_vec_standby := [sample_pack, sample_pack] \<rparr>) = Some w' \<and>
    est_inv (\<lambda>s. if s = 2 then [7] else []) w' \<and> take 1 (stream w') = [7]"
proof -
  let ?seg = "\<lambda>s :: u32. if s = 2 then [7] else [] :: bytes"
  let ?w = "sample_wcb\<lparr> w_received_vec_standby := [sample_pack, sample_pack] \<rparr>"
  have w: "w_received_vec_standby ?w = [sample_pack, sample_pack]" "w_remote_addr ?w = 2" "si_una (w_snd_info ?w) = 2"
    "ri_next (w_rcv_info ?w) = 2" "stream ?w = []" "w_rb_standby ?w = sample_rb"
    by (simp_all add: sample_wcb_def stream_def)
  from check_recv_delivers_in_order [OF est_inv_sample [of ?seg "[sample_pack, sample_pack]"], of 2 9]
  obtain n w' where r: "check_recv 9 ?w = Some w'" "est_inv ?seg w'"
    "stream w' = concat (map (\<lambda>i. ?seg (2 + of_nat i)) [0..<n])" "0 < n"
    using phase_ok_sample unfolding w by auto
  from r(4) have "[0..<n] = 0 # [1..<n]" by (simp add: upt_conv_Cons)
  with r(3) have "take 1 (stream w') = [7]" by simp
  with r(1,2) show ?thesis by blast
qed

end
