(* ===== verification/Wcb_Ack_Props.thy ===== *)
theory Wcb_Ack_Props
  imports Wcb_Recv_Props
begin

text \<open>
  Acknowledgements. What check_recv() queues for the peer names every sequence number that arrived in
  the tick and nothing else; what it takes from the peer's acknowledgements removes exactly the named
  packs from the flight list. The round-trip estimator is the one place where the constants of the
  header file make the code do less than it means to.
\<close>

section \<open>The numbers in a selective acknowledgement\<close>

lemma read_sacks_Nil [simp]: "read_sacks [] = Some []"
  by (simp add: read_sacks.simps [of "[]"])

lemma read_sacks_write [simp]:
  "read_sacks (write_impl (s :: u32) @ d) = map_option ((#) s) (read_sacks d)"
  by (simp add: read_sacks.simps [of "write_impl s @ d"] read_u32_def) (cases "read_sacks d"; simp)

lemma read_sacks_concat: "read_sacks (concat (map write_impl ss)) = Some ss"
  by (induction ss) simp_all

lemma read_sacks_append:
  "4 dvd length d \<Longrightarrow> read_sacks (d @ e) = do { ss \<leftarrow> read_sacks d; ts \<leftarrow> read_sacks e; Some (ss @ ts) }"
proof (induction d rule: read_sacks.induct)
  case (1 d)
  show ?case
  proof (cases "length d = 0")
    case False
    with 1(2) have l: "4 \<le> length d" by (meson dvd_imp_le not_gr_zero)
    then obtain s where s: "read_u32 d = Some s" by (simp add: read_u32_def read_impl_Some)
    have s': "read_u32 (d @ e) = Some s"
      using s l by (simp add: read_u32_def read_impl_def split: if_splits)
    have "4 dvd length (drop 4 d)" using 1(2) l by (simp add: dvd_diff_nat)
    from 1(1) [OF False s this] l show ?thesis
      using False s s' by (simp add: read_sacks.simps [of "d @ e"] read_sacks.simps [of d])
  qed simp
qed

text \<open>The numbers that a list of queued entries acknowledges, each pack read by itself.\<close>

definition acked_numbers :: "(WCB_pack \<times> nat) list \<Rightarrow> u32 list" where
  "acked_numbers q = concat (map (\<lambda>e. the (read_sacks (the (wp_data (fst e))))) q)"

lemma acked_numbers_concat:
  "\<forall>e \<in> set q. 4 dvd length (the (wp_data (fst e))) \<Longrightarrow>
   read_sacks (concat (map (\<lambda>e. the (wp_data (fst e))) q)) = Some (acked_numbers q)"
proof (induction q)
  case (Cons e q)
  then obtain ss where "read_sacks (the (wp_data (fst e))) = Some ss"
    using read_sacks_total by (metis list.set_intros(1))
  with Cons show ?case by (simp add: acked_numbers_def read_sacks_append)
qed (simp add: acked_numbers_def)

section \<open>What check_recv() queues\<close>

abbreviation ignore_queue :: "WCB \<Rightarrow> (WCB_pack \<times> nat) list" where
  "ignore_queue w \<equiv> w_s_sending_ignore_seq_space w"

abbreviation keepalive_replies :: "(WCB_pack \<times> nat) list \<Rightarrow> bool" where
  "keepalive_replies q \<equiv> \<forall>e \<in> set q. h_flag (wp_header (fst e)) = WCP_FLAG_KEEP_ALIVE_REPLY"

lemma recv_one_sacks:
  assumes "recv_one p (w, q) = Some (w', q')"
  shows "w_snd_sacked_pack_tmp w' = w_snd_sacked_pack_tmp w @ (if sequenced p then write_impl (rp_seq p) else [])"
    "\<exists>ks. ignore_queue w' = ignore_queue w @ ks \<and> keepalive_replies ks"
  using assms
  by (auto simp: recv_one_def sequenced_def keepalive_reply_def push_ignore_def Let_def elim!: bind_SomeE
      split: if_splits)

lemma recv_all_sacks:
  "recv_all ps (w, q) = Some (w', q') \<Longrightarrow>
     w_snd_sacked_pack_tmp w' = w_snd_sacked_pack_tmp w @ concat (map write_impl (map rp_seq (filter sequenced ps))) \<and>
     (\<exists>ks. ignore_queue w' = ignore_queue w @ ks \<and> keepalive_replies ks)"
proof (induction ps arbitrary: w q)
  case (Cons p ps)
  from Cons.prems obtain w1 q1 where s: "recv_one p (w, q) = Some (w1, q1)" "recv_all ps (w1, q1) = Some (w', q')"
    by (auto elim!: bind_SomeE)
  from recv_one_sacks(2) [OF s(1)] obtain ks where ks: "ignore_queue w1 = ignore_queue w @ ks" "keepalive_replies ks"
    by blast
  from Cons.IH [OF s(2)] obtain ls where ls: "ignore_queue w' = ignore_queue w1 @ ls" "keepalive_replies ls"
    "w_snd_sacked_pack_tmp w' = w_snd_sacked_pack_tmp w1 @ concat (map write_impl (map rp_seq (filter sequenced ps)))"
    by blast
  have "ignore_queue w' = ignore_queue w @ (ks @ ls)" "keepalive_replies (ks @ ls)" using ks ls by auto
  then show ?case using ls(3) recv_one_sacks(1) [OF s(1)] by auto
qed simp

lemma ack_view_queue: "ack_view w' = ack_view w \<Longrightarrow> ignore_queue w' = ignore_queue w"
  by (simp add: ack_view_def)

lemma handle_pack_acked_view: "handle_pack_acked p now w = Some w' \<Longrightarrow> ack_view w' = ack_view w"
  by (simp add: handle_pack_acked_def Let_def split: if_splits; clarify; simp)

lemma ack_one_view:
  assumes "ack_one now a w = Some w'"
  shows "ack_view w' = ack_view w"
proof -
  define w1 where "w1 = (if a > w_snd_biggest_ack w
     then w\<lparr> w_snd_biggest_ack := a, w_wcb_flag := set_flag (w_wcb_flag w) SND_BIGGEST_SACK_UPDATE \<rparr> else w)"
  have "ack_view w1 = ack_view w" by (simp add: w1_def)
  then show ?thesis
    using assms unfolding ack_one_def Let_def w1_def [symmetric]
    by (auto elim!: bind_SomeE split: if_splits option.splits dest!: handle_pack_acked_view)
qed

lemma ack_all_view: "ack_all now as w = Some w' \<Longrightarrow> ack_view w' = ack_view w"
  by (induction as arbitrary: w) (auto elim!: bind_SomeE dest!: ack_one_view)

lemma control_queue [simp]:
  "ignore_queue (FINACK w) = ignore_queue w" "ignore_queue (SYNACK w) = ignore_queue w"
  "ignore_queue (SYNSYNACK w) = ignore_queue w"
  by (simp_all add: FINACK_def SYNACK_def SYNSYNACK_def push_standby_def)

lemma set_rst_queue: "set_rst p w = Some w' \<Longrightarrow> ignore_queue w' = ignore_queue w"
  by (auto simp: set_rst_def elim!: bind_SomeE)

lemma deliver_queue:
  "deliver_data p w = Some (r, w') \<Longrightarrow> ignore_queue w' = ignore_queue w"
  "deliver_syn p w = Some (r, w') \<Longrightarrow> ignore_queue w' = ignore_queue w"
  "deliver_ack now p w = Some w' \<Longrightarrow> ignore_queue w' = ignore_queue w"
  "deliver_fin now p w = Some w' \<Longrightarrow> ignore_queue w' = ignore_queue w"
  by (auto simp: deliver_data_def deliver_syn_def deliver_ack_def deliver_fin_def Let_def elim!: bind_SomeE
      split: if_splits prod.splits WCB_State.splits dest!: set_rst_queue)

lemma deliver_one_queue: "deliver_one now p w = Some (r, w') \<Longrightarrow> ignore_queue w' = ignore_queue w"
  by (auto simp: deliver_one_def Let_def elim!: bind_SomeE split: if_splits option.splits dest!: deliver_queue)

lemma deliver_all_queue: "deliver_all now ps w = Some (qs, w') \<Longrightarrow> ignore_queue w' = ignore_queue w"
  by (induction ps arbitrary: w)
    (auto elim!: bind_SomeE split: if_splits deliver_result.splits dest!: deliver_one_queue)

lemma recv_busy_acks:
  assumes "recv_busy now w = Some w'" "w_snd_sacked_pack_tmp w = []"
  shows "\<exists>ks q. ignore_queue w' = ignore_queue w @ ks @ q \<and> keepalive_replies ks \<and>
    (\<forall>e \<in> set q. h_flag (wp_header (fst e)) = WCP_FLAG_SACK \<and> snd e = 2 \<and> data_len (wp_data (fst e)) \<le> 1384) \<and>
    acked_numbers q = map rp_seq (filter sequenced (w_received_vec w))"
proof -
  define w0 where "w0 = w\<lparr> w_keepalive_timer_last_received_pack := now, w_keepalive_probes_sent := 0 \<rparr>"
  define nums where "nums = map rp_seq (filter sequenced (w_received_vec w))"
  from assms(1) obtain w1 q w2 rest w3 where r: "recv_all (w_received_vec w) (w0, []) = Some (w1, q)"
    "ack_all now q (if length (w_snd_sacked_pack_tmp w1) \<noteq> 0
       then (SACK (w_snd_sacked_pack_tmp w1) w1)\<lparr> w_snd_sacked_pack_tmp := [] \<rparr> else w1) = Some w2"
    "deliver_all now (w_rcv_received w2) w2 = Some (rest, w3)" "w' = w3\<lparr> w_rcv_received := rest \<rparr>"
    unfolding recv_busy_def Let_def w0_def by (auto elim!: bind_SomeE split del: if_split)
  from recv_all_sacks [OF r(1)] obtain ks where ks: "ignore_queue w1 = ignore_queue w @ ks" "keepalive_replies ks"
    "w_snd_sacked_pack_tmp w1 = concat (map write_impl nums)"
    using assms(2) by (auto simp: w0_def nums_def)
  have len: "length (concat (map write_impl ns)) = 4 * length ns" for ns :: "u32 list"
    by (induction ns) simp_all
  obtain sq where sq: "SACK (w_snd_sacked_pack_tmp w1) w1 = w1\<lparr> w_s_sending_ignore_seq_space := ignore_queue w1 @ sq \<rparr>"
    "\<forall>e \<in> set sq. data_len (wp_data (fst e)) \<le> 1384 \<and> data_len (wp_data (fst e)) \<noteq> 0 \<and> snd e = 2 \<and>
        4 dvd data_len (wp_data (fst e)) \<and> h_flag (wp_header (fst e)) = WCP_FLAG_SACK"
    "concat (map (\<lambda>e. the (wp_data (fst e))) sq) = concat (map write_impl nums)"
    using SACK_queue [of "w_snd_sacked_pack_tmp w1" w1] len [of nums] unfolding ks(3) by auto
  have "4 dvd length (the (wp_data (fst e)))" if "e \<in> set sq" for e
    using sq(2) that by (cases "wp_data (fst e)") auto
  then have an: "acked_numbers sq = nums"
    using acked_numbers_concat [of sq] sq(3) read_sacks_concat [of nums] by simp
  have "ignore_queue w2 = ignore_queue w @ ks @ (if nums = [] then [] else sq)"
    using ack_view_queue [OF ack_all_view [OF r(2)]] ks(1,3) sq(1) by (cases nums) auto
  then have "ignore_queue w' = ignore_queue w @ ks @ (if nums = [] then [] else sq)"
    using deliver_all_queue [OF r(3)] r(4) by simp
  moreover have "acked_numbers (if nums = [] then [] else sq) = nums" using an by (simp add: acked_numbers_def)
  ultimately show ?thesis
    using ks(2) sq(2) unfolding nums_def [symmetric]
    by (intro exI [of _ ks] exI [of _ "if nums = [] then [] else sq"]) auto
qed

lemma check_recv_acks:
  assumes "check_recv now w = Some w'" "w_received_vec_standby w \<noteq> []" "w_snd_sacked_pack_tmp w = []"
  shows "\<exists>ks q. ignore_queue w' = ignore_queue w @ ks @ q \<and> keepalive_replies ks \<and>
    (\<forall>e \<in> set q. h_flag (wp_header (fst e)) = WCP_FLAG_SACK \<and> snd e = 2 \<and> data_len (wp_data (fst e)) \<le> 1384) \<and>
    acked_numbers q = map rp_seq (filter sequenced (w_received_vec_standby w))"
proof -
  from assms obtain w1 where w1: "recv_busy now (recv_swap w) = Some w1" "w' = recv_swap_buffers w1"
    by (auto simp: check_recv_def recv_swap_def Let_def elim!: bind_SomeE)
  have "ignore_queue w' = ignore_queue w1" by (simp add: w1(2) recv_swap_buffers_def Let_def)
  with recv_busy_acks [OF w1(1)] assms(2,3) show ?thesis by (simp add: recv_swap_def)
qed

section \<open>A window update takes a sequence number\<close>

text \<open>The pack that update_rwnd() builds, as the peer receives it.\<close>

definition window_update_pack :: "u32 \<Rightarrow> u32 \<Rightarrow> u32 \<Rightarrow> address \<Rightarrow> WCB_received_pack" where
  "window_update_pack seq ack wnd from =
     \<lparr> rp_header = \<lparr> h_seq = seq, h_ack = ack, h_wnd = wnd, h_flag = WCP_FLAG_WND, h_dlen = 0 \<rparr>,
       rp_data = None, rp_from = from \<rparr>"

lemma recv_one_sequenced:
  assumes "sequenced p"
  obtains w' where "recv_one p (w, q) = Some (w', q)"
proof -
  have "\<exists>w'. recv_one p (w, q) = Some (w', q)"
    using assms unfolding recv_one_def sequenced_def Let_def prod.case
    by (cases "rp_seq p < ri_next (w_rcv_info w)") simp_all
  then show ?thesis using that by blast
qed

lemma recv_one_frame:
  assumes "recv_one p (w, q) = Some (w', q')" "sequenced p"
  shows "w_state w' = w_state w" "w_rcv_info w' = w_rcv_info w" "w_rb w' = w_rb w"
    "w_rb_standby w' = w_rb_standby w" "q' = q"
    "w_rcv_received w' = (if rp_seq p < ri_next (w_rcv_info w) then w_rcv_received w
                          else rcv_insert p (w_rcv_received w))"
  using assms by (auto simp: recv_one_def sequenced_def Let_def split: if_splits)

lemma window_update_tick:
  assumes "w_state w = WCB_ESTABLISHED" "w_rcv_received w = []" "w_snd_sacked_pack_tmp w = []"
    "rb_inv (w_rb w)" "rb_inv (w_rb_standby w)"
    and one: "w_received_vec_standby w = [window_update_pack (ri_next (w_rcv_info w)) ack wnd from]"
  shows "\<exists>w'. check_recv now w = Some w' \<and> w_state w' = WCB_ESTABLISHED \<and> w_rcv_received w' = [] \<and>
    w_snd_sacked_pack_tmp w' = [] \<and> ri_next (w_rcv_info w') = ri_next (w_rcv_info w) + 1 \<and>
    stream w' = stream w \<and> rb_inv (w_rb w') \<and> rb_inv (w_rb_standby w')"
proof -
  let ?p = "window_update_pack (ri_next (w_rcv_info w)) ack wnd from"
  let ?w0 = "(recv_swap w)\<lparr> w_keepalive_timer_last_received_pack := now, w_keepalive_probes_sent := 0 \<rparr>"
  have fl: "rp_flag ?p = WCP_FLAG_WND" "rp_seq ?p = ri_next (w_rcv_info w)" "h_dlen (rp_header ?p) = 0"
    by (simp_all add: window_update_pack_def)
  have sq: "sequenced ?p" by (simp add: sequenced_def fl) (simp add: test_flag_def WCP_FLAG_defs)
  have w0: "w_state ?w0 = WCB_ESTABLISHED" "w_rcv_info ?w0 = w_rcv_info w" "w_rb ?w0 = w_rb w"
    "w_rb_standby ?w0 = w_rb_standby w" "w_rcv_received ?w0 = []" "w_snd_sacked_pack_tmp ?w0 = []"
    "w_received_vec ?w0 = [?p]"
    using assms by (simp_all add: recv_swap_def)
  obtain w1 where r1: "recv_one ?p (?w0, []) = Some (w1, [])" by (rule recv_one_sequenced [OF sq])
  have w1: "w_rcv_received w1 = [?p]" "w_snd_sacked_pack_tmp w1 = write_impl (ri_next (w_rcv_info w))"
    "w_state w1 = WCB_ESTABLISHED" "w_rcv_info w1 = w_rcv_info w" "w_rb w1 = w_rb w" "w_rb_standby w1 = w_rb_standby w"
    using recv_one_frame [OF r1 sq] recv_one_sacks(1) [OF r1] sq fl(2) unfolding w0
    by (simp_all add: rcv_insert_def)
  obtain sq where "SACK (w_snd_sacked_pack_tmp w1) w1 = w1\<lparr> w_s_sending_ignore_seq_space := sq \<rparr>"
    using SACK_queue [of "w_snd_sacked_pack_tmp w1" w1] by blast
  then obtain w2 where w2: "(SACK (w_snd_sacked_pack_tmp w1) w1)\<lparr> w_snd_sacked_pack_tmp := [] \<rparr> = w2"
    "w_rcv_received w2 = [?p]" "w_snd_sacked_pack_tmp w2 = []" "w_state w2 = WCB_ESTABLISHED"
    "w_rcv_info w2 = w_rcv_info w" "w_rb w2 = w_rb w" "w_rb_standby w2 = w_rb_standby w"
    using w1 by simp
  let ?w3 = "w2\<lparr> w_rcv_info := (w_rcv_info w2)\<lparr> ri_next := ri_next (w_rcv_info w2) + 1 \<rparr> \<rparr>"
  have "deliver_one now ?p w2 = Some (Next_pack, ?w3)"
    by (simp add: deliver_one_def deliver_data_def fl test_flag_def WCP_FLAG_defs Let_def)
  then have d: "deliver_all now (w_rcv_received w2) w2 = Some ([], ?w3)" using w2(2,5) fl(2) by simp
  have "length (w_snd_sacked_pack_tmp w1) = 4" using w1(2) by simp
  then have ne: "w_snd_sacked_pack_tmp w1 \<noteq> []" by auto
  have "recv_busy now (recv_swap w) = Some (?w3\<lparr> w_rcv_received := [] \<rparr>)"
    using r1 ne d one by (simp add: recv_busy_def recv_swap_def w2(1) Let_def)
  then have "check_recv now w = Some (recv_swap_buffers (?w3\<lparr> w_rcv_received := [] \<rparr>))"
    using one by (simp add: check_recv_def recv_swap_def Let_def)
  moreover have "rb_inv (w_rb (?w3\<lparr> w_rcv_received := [] \<rparr>))" "rb_inv (w_rb_standby (?w3\<lparr> w_rcv_received := [] \<rparr>))"
    using w2(6,7) assms(4,5) by simp_all
  moreover note recv_swap_buffers_ok(1) [OF this]
  ultimately show ?thesis
    using w2(2-7) by (simp add: recv_swap_buffers_def stream_def Let_def)
qed

text \<open>A tick in which one pack of the past arrives delivers nothing.\<close>

lemma old_pack_tick:
  assumes "w_rcv_received w = []" "w_snd_sacked_pack_tmp w = []" "rb_inv (w_rb w)" "rb_inv (w_rb_standby w)"
    and old: "sequenced p" "rp_seq p < ri_next (w_rcv_info w)"
  shows "\<exists>w'. check_recv now (w\<lparr> w_received_vec_standby := [p] \<rparr>) = Some w' \<and> stream w' = stream w \<and>
    ri_next (w_rcv_info w') = ri_next (w_rcv_info w)"
proof -
  let ?w0 = "(recv_swap (w\<lparr> w_received_vec_standby := [p] \<rparr>))
     \<lparr> w_keepalive_timer_last_received_pack := now, w_keepalive_probes_sent := 0 \<rparr>"
  have w0: "w_rcv_info ?w0 = w_rcv_info w" "w_rb ?w0 = w_rb w"
    "w_rb_standby ?w0 = w_rb_standby w" "w_rcv_received ?w0 = []" "w_snd_sacked_pack_tmp ?w0 = []"
    "w_received_vec ?w0 = [p]"
    using assms by (simp_all add: recv_swap_def)
  obtain w1 where r1: "recv_one p (?w0, []) = Some (w1, [])" by (rule recv_one_sequenced [OF old(1)])
  have w1: "w_rcv_received w1 = []" "w_snd_sacked_pack_tmp w1 = write_impl (rp_seq p)"
    "w_rcv_info w1 = w_rcv_info w" "w_rb w1 = w_rb w" "w_rb_standby w1 = w_rb_standby w"
    using recv_one_frame [OF r1 old(1)] recv_one_sacks(1) [OF r1] old unfolding w0 by simp_all
  obtain sq where "SACK (w_snd_sacked_pack_tmp w1) w1 = w1\<lparr> w_s_sending_ignore_seq_space := sq \<rparr>"
    using SACK_queue [of "w_snd_sacked_pack_tmp w1" w1] by blast
  then obtain w2 where w2: "(SACK (w_snd_sacked_pack_tmp w1) w1)\<lparr> w_snd_sacked_pack_tmp := [] \<rparr> = w2"
    "w_rcv_received w2 = []" "w_rcv_info w2 = w_rcv_info w" "w_rb w2 = w_rb w" "w_rb_standby w2 = w_rb_standby w"
    using w1 by simp
  have "length (w_snd_sacked_pack_tmp w1) = 4" using w1(2) by simp
  then have ne: "w_snd_sacked_pack_tmp w1 \<noteq> []" by auto
  have "recv_busy now (recv_swap (w\<lparr> w_received_vec_standby := [p] \<rparr>)) = Some (w2\<lparr> w_rcv_received := [] \<rparr>)"
    using r1 ne w2(2) by (simp add: recv_busy_def recv_swap_def w2(1) Let_def)
  then have "check_recv now (w\<lparr> w_received_vec_standby := [p] \<rparr>) = Some (recv_swap_buffers (w2\<lparr> w_rcv_received := [] \<rparr>))"
    by (simp add: check_recv_def recv_swap_def Let_def)
  moreover have "rb_inv (w_rb (w2\<lparr> w_rcv_received := [] \<rparr>))" "rb_inv (w_rb_standby (w2\<lparr> w_rcv_received := [] \<rparr>))"
    using w2(4,5) assms(3,4) by simp_all
  moreover note recv_swap_buffers_ok(1) [OF this]
  ultimately show ?thesis
    using w2(2-5) by (simp add: recv_swap_buffers_def stream_def Let_def)
qed

section \<open>Properties\<close>

text \<open>
  C7: completeness of acknowledgement. When a tick of check_recv() returns, the packs it queued outside
  the sequence space are keepalive replies followed by selective acknowledgements, and the numbers in
  the latter are exactly the sequence numbers of the packs that arrived in the tick, duplicates and old
  packs included, in the order of arrival. Every acknowledgement pack fits in a datagram and is queued
  twice.
\<close>

theorem check_recv_acknowledges_every_pack:
  assumes "check_recv now w = Some w'" "w_received_vec_standby w \<noteq> []" "w_snd_sacked_pack_tmp w = []"
  shows "\<exists>ks q. ignore_queue w' = ignore_queue w @ ks @ q \<and> keepalive_replies ks \<and>
    (\<forall>e \<in> set q. h_flag (wp_header (fst e)) = WCP_FLAG_SACK \<and> snd e = 2 \<and> data_len (wp_data (fst e)) \<le> 1384) \<and>
    acked_numbers q = map rp_seq (filter sequenced (w_received_vec_standby w))"
  by (rule check_recv_acks [OF assms])

theorem check_recv_acknowledges_every_pack_witness:
  "\<exists>w' ks q. check_recv 9 (sample_wcb\<lparr> w_received_vec_standby := [sample_pack, sample_pack] \<rparr>) = Some w' \<and>
    ignore_queue w' = ks @ q \<and> keepalive_replies ks \<and> acked_numbers q = [2, 2]"
proof -
  let ?seg = "\<lambda>s :: u32. if s = 2 then [7] else [] :: bytes"
  let ?w = "sample_wcb\<lparr> w_received_vec_standby := [sample_pack, sample_pack] \<rparr>"
  have w: "w_received_vec_standby ?w = [sample_pack, sample_pack]" "w_remote_addr ?w = 2" "si_una (w_snd_info ?w) = 2"
    "w_snd_sacked_pack_tmp ?w = []" "ignore_queue ?w = []" by (simp_all add: sample_wcb_def)
  obtain w' where c: "check_recv 9 ?w = Some w'"
    using check_recv_ok [OF est_inv_sample [of ?seg "[sample_pack, sample_pack]"], of 2 9] phase_ok_sample
    unfolding w by auto
  from check_recv_acknowledges_every_pack [OF c] w phase_ok_sample c show ?thesis by (simp, blast)
qed

text \<open>
  C25: the flight list and acknowledgements. Whatever numbers the peer acknowledges, handling them never
  fails the assertion on the bytes in flight: with the bytes accounted for, processing the acknowledged
  numbers returns, keeps them accounted for, keeps the window and the timeout in their bounds, and only
  removes packs from the flight list.
\<close>

theorem acknowledgements_keep_flight_accounting:
  assumes "accounted w" "tuned w"
  shows "\<exists>w'. ack_all now acks w = Some w' \<and> accounted w' \<and> tuned w' \<and>
    set (w_snd_flights w') \<subseteq> set (w_snd_flights w)"
  using ack_all_ok [OF assms(1), of now acks] assms(2) by blast

theorem acknowledgements_keep_flight_accounting_witness:
  "\<exists>w'. ack_all 5 [0, 1, 7] sample_wcb = Some w' \<and> accounted w' \<and> tuned w' \<and> set (w_snd_flights w') \<subseteq> {}"
proof -
  have "accounted sample_wcb" "tuned sample_wcb"
    by (simp_all add: sample_wcb_def accounted_def tuned_def WCP_const_defs)
  from acknowledgements_keep_flight_accounting [OF this, of 5 "[0, 1, 7]"] show ?thesis
    by (simp add: sample_wcb_def)
qed

text \<open>
  C29: the round-trip estimate is frozen. The smoothing factors WCP_SRTT_ALPHA and WCP_RTTVAR_BETA are
  integer quotients and have the value 0, so after the first sample no further sample changes srtt or
  rttvar: the retransmission timeout is recomputed from the first sample for the rest of the connection.
\<close>

theorem rtt_estimate_frozen:
  assumes "test_flag (w_wcb_flag w) WCB_FLAG_FIRST_RTT_DONE"
  shows "w_srtt (rtt_sample rtt w) = w_srtt w \<and> w_rttvar (rtt_sample rtt w) = w_rttvar w \<and>
    w_rto (rtt_sample rtt w) = max WCP_RTO_MIN (min WCP_RTO_MAX
       (w_srtt w + max WCP_RTO_CLOCK_GRANULARITY (2 * w_rttvar w)))"
  using assms
  by (auto simp: rtt_sample_def WCP_SRTT_ALPHA_def WCP_RTTVAR_BETA_def Let_def WCP_RTO_MIN_def WCP_RTO_MAX_def
      max_def min_def)

theorem rtt_estimate_frozen_witness:
  "w_srtt (rtt_sample 900 (sample_wcb\<lparr> w_wcb_flag := WCB_FLAG_FIRST_RTT_DONE, w_srtt := 100, w_rttvar := 50 \<rparr>)) = 100"
  using rtt_estimate_frozen [of "sample_wcb\<lparr> w_wcb_flag := WCB_FLAG_FIRST_RTT_DONE, w_srtt := 100, w_rttvar := 50 \<rparr>" 900]
  by (simp add: WCB_FLAG_FIRST_RTT_DONE_def test_flag_def)

text \<open>
  C28: a window update swallows data. update_rwnd() gives its pack the next unused sequence number without
  consuming it, but check_recv() handles a pack that only carries WCP_FLAG_WND as part of the sequence. When
  the update arrives in sequence, the receiver steps over its number; the data pack that the peer sends with
  the same number afterwards is dropped as old, adds nothing to the stream, and is acknowledged all the same, so
  it is never sent again.
\<close>

theorem window_update_swallows_data:
  assumes "w_state w = WCB_ESTABLISHED" "w_rcv_received w = []" "w_snd_sacked_pack_tmp w = []"
    "rb_inv (w_rb w)" "rb_inv (w_rb_standby w)"
    "w_received_vec_standby w = [window_update_pack (ri_next (w_rcv_info w)) ack wnd from]"
    "ri_next (w_rcv_info w) < ri_next (w_rcv_info w) + 1"
    "sequenced d" "rp_seq d = ri_next (w_rcv_info w)"
  shows "\<exists>w1 w2 r q. check_recv now w = Some w1 \<and>
    check_recv later (w1\<lparr> w_received_vec_standby := [d] \<rparr>) = Some w2 \<and> stream w2 = stream w \<and>
    ignore_queue w2 = r @ q \<and> acked_numbers q = [rp_seq d]"
proof -
  from window_update_tick [OF assms(1-6), of now] obtain w1 where w1: "check_recv now w = Some w1"
    "w_rcv_received w1 = []" "w_snd_sacked_pack_tmp w1 = []" "ri_next (w_rcv_info w1) = ri_next (w_rcv_info w) + 1"
    "stream w1 = stream w" "rb_inv (w_rb w1)" "rb_inv (w_rb_standby w1)" by blast
  from old_pack_tick [OF w1(2,3,6,7) assms(8), of later] assms(7,9) w1(4) obtain w2 where
    w2: "check_recv later (w1\<lparr> w_received_vec_standby := [d] \<rparr>) = Some w2" "stream w2 = stream w1" by auto
  from check_recv_acks [OF w2(1)] w1(3) assms(8) obtain ks q where
    "ignore_queue w2 = (ignore_queue w1 @ ks) @ q" "acked_numbers q = [rp_seq d]" by auto
  with w1(1,5) w2 show ?thesis by metis
qed

theorem window_update_swallows_data_witness:
  "\<exists>w1 w2 r q. check_recv 5 (sample_wcb\<lparr> w_received_vec_standby := [window_update_pack 2 2 2048 2] \<rparr>) = Some w1 \<and>
    check_recv 6 (w1\<lparr> w_received_vec_standby := [sample_pack] \<rparr>) = Some w2 \<and> stream w2 = [] \<and>
    ignore_queue w2 = r @ q \<and> acked_numbers q = [2]"
proof -
  let ?w = "sample_wcb\<lparr> w_received_vec_standby := [window_update_pack 2 2 2048 2] \<rparr>"
  have w: "w_state ?w = WCB_ESTABLISHED" "w_rcv_received ?w = []" "w_snd_sacked_pack_tmp ?w = []"
    "rb_inv (w_rb ?w)" "rb_inv (w_rb_standby ?w)" "ri_next (w_rcv_info ?w) = 2" "stream ?w = []"
    by (simp_all add: sample_wcb_def stream_def)
  from window_update_swallows_data [OF w(1-5), of 2 2048 2 sample_pack 5 6] w(6,7) phase_ok_sample(2,4)
  show ?thesis by simp
qed

end
