(* ===== verification/Wcp_Manager.thy ===== *)
theory Wcp_Manager
  imports Wcb_Update Sorted_Table "HOL-Library.Signed_Division"
begin

text \<open>
  The singleton \<open>wcp\<close> of include/wawo/net/wcp.hpp and src/net/wcp.cpp: the table of control blocks behind
  the socket-like calls, the ticker's run(), the part of \<open>WCB::update\<close> that handles listeners, and the
  wpoll event queue. Control blocks and watch records are shared objects: they live in a heap and
  the tables hold references. The UDP sockets below are an operating-system resource: their calls return
  arbitrary codes, given by the record \<open>wcp_os\<close>. Locks are left out.
\<close>

section \<open>State\<close>

record so_state =
  so_nonblocking :: bool
  so_async_read :: bool
  so_closed :: "int option"

record wcp_os =
  os_rt :: "nat \<Rightarrow> int"
  os_errno :: "nat \<Rightarrow> int"
  os_calls :: nat
  os_env :: "nat \<Rightarrow> wcb_env"
  os_local_addr :: "wref \<Rightarrow> address"
  os_junk :: "nat \<Rightarrow> byte"
  os_new_wcb :: WCB

datatype wcp_State = S_IDLE | S_RUN | S_EXIT

datatype OpCode = OP_NONE | OP_WATCH

record Op =
  op_wcb :: wref
  op_op :: OpCode

datatype wpoll_op = WPOLL_CTL_ADD | WPOLL_CTL_DEL

definition WPOLLIN :: u32 where "WPOLLIN = 0x01"
definition WPOLLOUT :: u32 where "WPOLLOUT = 0x02"
definition WPOLLERR :: u32 where "WPOLLERR = 0x04"

record wpoll_event =
  pe_fd :: int
  pe_evts :: u32
  pe_cookie :: "nat option"

record wpoll_watch_event =
  we_fd :: int
  we_evts :: u32
  we_cookie :: "nat option"
  we_wcb :: wref

record wpoll_event_pending =
  pend_evt :: wpoll_event
  pend_watch :: nat

record wcp =
  m_os :: wcp_os
  m_heap :: "wref \<rightharpoonup> WCB"
  m_so :: "wref \<Rightarrow> so_state"
  m_next_ref :: wref
  s_wcb_auto_increament_id :: u32
  m_wpoll_map :: "(int, nat list) smap"
  m_watch_heap :: "nat \<rightharpoonup> wpoll_watch_event"
  m_next_watch :: nat
  m_event_pending_queue :: "wpoll_event_pending list"
  m_state :: wcp_State
  m_wcb_map :: "(int, wref) smap"
  m_wcb_create_pending_map :: "(int, wref) smap"
  m_wcb_four_tuple_map :: "(u32, wref) smap"
  m_ops :: "Op list"
  s_wpoll_auto_increament_id :: u32
  m_errno :: int

definition WCP_FD_MAX :: int where "WCP_FD_MAX = 2048"

section \<open>Access to the heap and the operating system\<close>

definition set_last_errno :: "int \<Rightarrow> wcp \<Rightarrow> wcp" where
  "set_last_errno e s = s\<lparr> m_errno := e \<rparr>"

definition fail_with :: "int \<Rightarrow> wcp \<Rightarrow> int \<times> wcp" where
  "fail_with e s = (e, set_last_errno e s)"

definition put_wcb :: "wref \<Rightarrow> WCB \<Rightarrow> wcp \<Rightarrow> wcp" where
  "put_wcb r w s = s\<lparr> m_heap := (m_heap s)(r \<mapsto> w) \<rparr>"

text \<open>The errno a call on a block reports, and the call of close() on the block behind a reference.\<close>

definition note_errno :: "int option \<Rightarrow> wcp \<Rightarrow> wcp" where
  "note_errno e s = (case e of None \<Rightarrow> s | Some c \<Rightarrow> set_last_errno c s)"

definition close_ref :: "wref \<Rightarrow> WCB \<Rightarrow> wcp \<Rightarrow> (int \<times> wcp) option" where
  "close_ref r w s = do { (rt, e, w) \<leftarrow> wcb_close w; Some (rt, put_wcb r w (note_errno e s)) }"

definition os_call :: "wcp \<Rightarrow> int \<times> wcp" where
  "os_call s = (os_rt (m_os s) (os_calls (m_os s)), s\<lparr> m_os := (m_os s)\<lparr> os_calls := os_calls (m_os s) + 1 \<rparr> \<rparr>)"

definition socket_get_last_errno :: "wcp \<Rightarrow> int" where
  "socket_get_last_errno s = os_errno (m_os s) (os_calls (m_os s))"

definition wcb_so_close :: "wref \<Rightarrow> int \<Rightarrow> wcp \<Rightarrow> wcp" where
  "wcb_so_close r ec s = s\<lparr> m_so := (m_so s)(r := (m_so s r)\<lparr> so_closed := Some ec \<rparr>) \<rparr>"

definition so_turnon_nonblocking :: "wref \<Rightarrow> wcp \<Rightarrow> int \<times> wcp" where
  "so_turnon_nonblocking r s =
     (let (rt, s) = os_call s in
      (rt, if rt = OK then s\<lparr> m_so := (m_so s)(r := (m_so s r)\<lparr> so_nonblocking := True \<rparr>) \<rparr> else s))"

definition so_begin_async_read :: "wref \<Rightarrow> wcp \<Rightarrow> wcp" where
  "so_begin_async_read r s = s\<lparr> m_so := (m_so s)(r := (m_so s r)\<lparr> so_async_read := True \<rparr>) \<rparr>"

text \<open>A new reference, whose socket is blocking, not read and open.\<close>

definition alloc_ref :: "wcp \<Rightarrow> wref \<times> wcp" where
  "alloc_ref s = (m_next_ref s, s\<lparr> m_next_ref := m_next_ref s + 1,
     m_so := (m_so s)(m_next_ref s := \<lparr> so_nonblocking = False, so_async_read = False, so_closed = None \<rparr>) \<rparr>)"

text \<open>A block from \<open>make_ref<WCB>()\<close> and init(), with the environment of the reference's socket.\<close>

definition new_wcb :: "wref \<Rightarrow> wcp \<Rightarrow> WCB option" where
  "new_wcb r s = wcb_init (os_junk (m_os s)) ((os_new_wcb (m_os s))\<lparr> w_env := os_env (m_os s) r \<rparr>)"

definition make_wcb_fd :: "wcp \<Rightarrow> int \<times> wcp" where
  "make_wcb_fd s = (sint (s_wcb_auto_increament_id s) smod WCP_FD_MAX + 0xFFFFFF,
     s\<lparr> s_wcb_auto_increament_id := s_wcb_auto_increament_id s + 1 \<rparr>)"

section \<open>Four tuples of accepted connections\<close>

definition add_to_four_tuple_hash_map :: "wref \<Rightarrow> wcp \<Rightarrow> (int \<times> wcp) option" where
  "add_to_four_tuple_hash_map r s =
     do { w \<leftarrow> m_heap s r;
          wawo_assert (w_four_tuple_hash_id w \<noteq> 0);
          if int (length (m_wcb_four_tuple_map s)) \<ge> WCP_FD_MAX then Some (fail_with E_EMFILE s)
          else if map_of (m_wcb_four_tuple_map s) (w_four_tuple_hash_id w) \<noteq> None
          then Some (fail_with E_EADDRINUSE s)
          else Some (OK, s\<lparr> m_wcb_four_tuple_map :=
                            smap_insert (w_four_tuple_hash_id w) r (m_wcb_four_tuple_map s) \<rparr>) }"

definition remove_from_four_tuple_hash_map :: "wref \<Rightarrow> wcp \<Rightarrow> (int \<times> wcp) option" where
  "remove_from_four_tuple_hash_map r s =
     do { w \<leftarrow> m_heap s r;
          wawo_assert (w_four_tuple_hash_id w \<noteq> 0);
          wawo_assert (test_flag (w_wcb_flag w) WCB_FLAG_IS_PASSIVE_OPEN);
          if map_of (m_wcb_four_tuple_map s) (w_four_tuple_hash_id w) = None then Some (-1, s)
          else Some (OK, s\<lparr> m_wcb_four_tuple_map :=
                            smap_erase (w_four_tuple_hash_id w) (m_wcb_four_tuple_map s) \<rparr>) }"

section \<open>Listeners\<close>

definition watch :: "wref \<Rightarrow> wcp \<Rightarrow> wcp" where
  "watch r s = s\<lparr> m_ops := m_ops s @ [\<lparr> op_wcb = r, op_op = OP_WATCH \<rparr>] \<rparr>"

text \<open>Answer a pack of the listener's socket with a reset.\<close>

definition listener_rst :: "wref \<Rightarrow> WCB_received_pack \<Rightarrow> wcp \<Rightarrow> wcp option" where
  "listener_rst l pack s =
     do { w \<leftarrow> m_heap s l;
          (rt, env) \<leftarrow> reply_rst_to_address (w_env w) (h_ack (rp_header pack)) (rp_from pack);
          Some (put_wcb l (w\<lparr> w_env := env \<rparr>) s) }"

text \<open>
  The calls that prepare the socket of an accepted connection: open, reuse_addr, reuse_port, bind, connect
  and turnon_nonblocking, in this order; the first code that is not OK ends them.
\<close>

fun prepare_socket :: "nat \<Rightarrow> wcp \<Rightarrow> int \<times> wcp" where
  "prepare_socket 0 s = (OK, s)"
| "prepare_socket (Suc n) s =
     (let (rt, s) = os_call s in if rt \<noteq> OK then (rt, s) else prepare_socket n s)"

text \<open>The control block of an accepted connection, in the state SYN_RECEIVED with the SYN to be processed.\<close>

definition accepted_wcb :: "WCB \<Rightarrow> wref \<Rightarrow> WCB_received_pack \<Rightarrow> wcp \<Rightarrow> (WCB \<times> wcp) option" where
  "accepted_wcb lw r pack s =
     do { w \<leftarrow> new_wcb r s;
          let w = w\<lparr> w_wcb_flag := set_flag (w_wcb_flag w) WCB_FLAG_IS_PASSIVE_OPEN,
                     w_four_tuple_hash_id := four_tuple_hash (w_local_addr lw) (rp_from pack),
                     w_local_addr := os_local_addr (m_os s) r, w_remote_addr := rp_from pack \<rparr>;
          let (fd, s) = make_wcb_fd s;
          let w = w\<lparr> w_fd := fd \<rparr>;
          (rt, w) \<leftarrow> set_rcv_buffer_size (os_junk (m_os s)) w (get_rcv_buffer_size lw);
          (rt, w) \<leftarrow> set_snd_buffer_size (os_junk (m_os s)) w (get_snd_buffer_size lw);
          w \<leftarrow> SYN_RCVD pack w;
          Some (w, s) }"

definition accept_wcb :: "wref \<Rightarrow> wref \<Rightarrow> WCB_received_pack \<Rightarrow> wcp \<Rightarrow> wcp option" where
  "accept_wcb l r pack s =
     do { lw \<leftarrow> m_heap s l;
          let (nonblocking, s) = so_turnon_nonblocking r s;
          if nonblocking \<noteq> OK then listener_rst l pack (wcb_so_close r nonblocking s)
          else do {
            (w, s) \<leftarrow> accepted_wcb lw r pack s;
            (rt, s) \<leftarrow> add_to_four_tuple_hash_map r (put_wcb r w s);
            if rt < 0 then listener_rst l pack (wcb_so_close r 0 s)
            else do {
              lw \<leftarrow> m_heap s l;
              Some (put_wcb l (lw\<lparr> w_backloglist_pending := w_backloglist_pending lw @ [r] \<rparr>) (watch r s)) } } }"

definition listen_handle_pack :: "wref \<Rightarrow> WCB_received_pack \<Rightarrow> wcp \<Rightarrow> wcp option" where
  "listen_handle_pack l pack s =
     do { lw \<leftarrow> m_heap s l;
          if length (w_backlogq lw) + length (w_backloglist_pending lw) = unat (w_backlog_size lw)
          then listener_rst l pack s
          else if test_flag (rp_flag pack) WCP_FLAG_RST
          then do { wawo_assert (w_state lw = WCB_LISTEN); Some s }
          else if \<not> test_flag (rp_flag pack) WCP_FLAG_SYN then listener_rst l pack s
          else do {
            let (r, s) = alloc_ref s;
            let (rt, s) = prepare_socket 5 s;
            if rt \<noteq> OK then listener_rst l pack (wcb_so_close r rt s)
            else accept_wcb l r pack s } }"

primrec listen_handle_packs :: "wref \<Rightarrow> WCB_received_pack list \<Rightarrow> wcp \<Rightarrow> wcp option" where
  "listen_handle_packs l [] s = Some s"
| "listen_handle_packs l (p # ps) s = do { s \<leftarrow> listen_handle_pack l p s; listen_handle_packs l ps s }"

definition listen_handle_syn :: "wref \<Rightarrow> wcp \<Rightarrow> wcp option" where
  "listen_handle_syn l s =
     do { lw \<leftarrow> m_heap s l;
          wawo_assert (test_flag (w_wcb_flag lw) WCB_FLAG_IS_LISTENER);
          s \<leftarrow> listen_handle_packs l (w_received_vec_standby lw) s;
          lw' \<leftarrow> m_heap s l;
          Some (put_wcb l (lw'\<lparr> w_received_vec_standby :=
            drop (length (w_received_vec_standby lw)) (w_received_vec_standby lw') \<rparr>) s) }"

text \<open>
  The loop over the pending connections of a listener: what stays pending, what became established, in
  the order of the list.
\<close>

fun update_pending :: "u64 \<Rightarrow> u32 \<Rightarrow> wref list \<Rightarrow> wref list \<Rightarrow> wcp \<Rightarrow> (wref list \<times> wref list \<times> wcp) option" where
  "update_pending now backlog_size [] backlogq s = Some ([], backlogq, s)"
| "update_pending now backlog_size (r # rs) backlogq s =
     do { w \<leftarrow> m_heap s r;
          w \<leftarrow> wcb_update now w;
          let s = put_wcb r w s;
          case w_state w of
            WCB_ESTABLISHED \<Rightarrow>
              do { wawo_assert (length backlogq \<le> unat backlog_size);
                   update_pending now backlog_size rs (backlogq @ [r]) s }
          | WCB_CLOSE_WAIT \<Rightarrow>
              do { (rt, s) \<leftarrow> close_ref r w s; update_pending now backlog_size rs backlogq s }
          | WCB_CLOSED \<Rightarrow>
              do { (rt, s) \<leftarrow> close_ref r w s; update_pending now backlog_size rs backlogq s }
          | WCB_SYN_RECEIVED \<Rightarrow>
              do { (keep, q, s) \<leftarrow> update_pending now backlog_size rs backlogq s;
                   Some (r # keep, q, s) }
          | _ \<Rightarrow> None }"

definition listener_update :: "u64 \<Rightarrow> wref \<Rightarrow> wcp \<Rightarrow> wcp option" where
  "listener_update now l s =
     do { lw \<leftarrow> m_heap s l;
          wawo_assert (test_flag (w_wcb_flag lw) WCB_FLAG_IS_LISTENER);
          s \<leftarrow> (if \<not> test_flag (w_r_flag lw) READ_LOCAL_READ_SHUTDOWNED then listen_handle_syn l s else Some s);
          lw \<leftarrow> m_heap s l;
          (keep, q, s) \<leftarrow> update_pending now (w_backlog_size lw) (w_backloglist_pending lw) (w_backlogq lw) s;
          lw \<leftarrow> m_heap s l;
          Some (put_wcb l (lw\<lparr> w_backloglist_pending := keep, w_backlogq := q \<rparr>) s) }"

text \<open>update() of any block; the clock is read just before.\<close>

definition update_wcb :: "wref \<Rightarrow> wcp \<Rightarrow> (WCB_State \<times> wcp) option" where
  "update_wcb r s =
     do { w \<leftarrow> m_heap s r;
          let (now, w) = curr_milliseconds w;
          let s = put_wcb r w s;
          s \<leftarrow> (if w_state w = WCB_LISTEN then listener_update now r s
                 else do { w \<leftarrow> wcb_update now w; Some (put_wcb r w s) });
          w \<leftarrow> m_heap s r;
          Some (w_state w, s) }"

section \<open>The ticker\<close>

fun execute_op_list :: "Op list \<Rightarrow> wcp \<Rightarrow> wcp option" where
  "execute_op_list [] s = Some (s\<lparr> m_ops := [] \<rparr>)"
| "execute_op_list (op # ops) s =
     (if op_op op = OP_NONE then Some (s\<lparr> m_ops := ops \<rparr>)
      else do {
        w \<leftarrow> m_heap s (op_wcb op);
        wawo_assert (so_nonblocking (m_so s (op_wcb op)));
        let s = s\<lparr> m_wcb_map := smap_insert (w_fd w) (op_wcb op) (m_wcb_map s) \<rparr>;
        execute_op_list ops (so_begin_async_read (op_wcb op) s) })"

definition execute_ops :: "wcp \<Rightarrow> wcp option" where
  "execute_ops s = execute_op_list (m_ops s) s"

fun update_list :: "wref list \<Rightarrow> wcp \<Rightarrow> (wref list \<times> wcp) option" where
  "update_list [] s = Some ([], s)"
| "update_list (r # rs) s =
     do { (st, s) \<leftarrow> update_wcb r s;
          if st = WCB_RECYCLE
          then do { w \<leftarrow> m_heap s r;
                    (del, s) \<leftarrow> update_list rs (wcb_so_close r (w_wcb_errno w) s);
                    Some (r # del, s) }
          else update_list rs s }"

primrec delete_list :: "wref list \<Rightarrow> wcp \<Rightarrow> wcp option" where
  "delete_list [] s = Some s"
| "delete_list (r # rs) s =
     do { w \<leftarrow> m_heap s r;
          s \<leftarrow> (if test_flag (w_wcb_flag w) WCB_FLAG_IS_PASSIVE_OPEN
                 then do { (rt, s) \<leftarrow> remove_from_four_tuple_hash_map r s; Some s } else Some s);
          delete_list rs (s\<lparr> m_wcb_map := smap_erase (w_fd w) (m_wcb_map s) \<rparr>) }"

definition wcp_update :: "wcp \<Rightarrow> wcp option" where
  "wcp_update s = do { (del, s) \<leftarrow> update_list (map snd (m_wcb_map s)) s; delete_list del s }"

definition wcp_run :: "wcp \<Rightarrow> wcp option" where
  "wcp_run s = (if m_state s \<noteq> S_RUN then Some s else do { s \<leftarrow> execute_ops s; wcp_update s })"

definition on_start :: "wcp \<Rightarrow> wcp" where
  "on_start s = s\<lparr> m_state := S_RUN \<rparr>"

fun close_all :: "wref list \<Rightarrow> wcp \<Rightarrow> wcp option" where
  "close_all [] s = Some s"
| "close_all (r # rs) s =
     do { w \<leftarrow> m_heap s r;
          (rt, s) \<leftarrow> close_ref r w s;
          close_all rs (wcb_so_close r E_SOCKET_FORCE_CLOSE s) }"

definition on_stop :: "wcp \<Rightarrow> wcp option" where
  "on_stop s =
     do { s \<leftarrow> close_all (map snd (m_wcb_map s)) (s\<lparr> m_state := S_EXIT \<rparr>);
          Some (s\<lparr> m_wcb_map := [], m_wcb_four_tuple_map := [], m_wpoll_map := [] \<rparr>) }"

definition stop :: "wcp \<Rightarrow> wcp option" where
  "stop s = (if m_state s = S_EXIT then Some s else on_stop s)"

section \<open>Callbacks of the UDP sockets\<close>

definition wcb_pump_packs :: "wref \<Rightarrow> wcp \<Rightarrow> wcp option" where
  "wcb_pump_packs r s = do { w \<leftarrow> m_heap s r; w \<leftarrow> pump_packs w; Some (put_wcb r w s) }"

definition wcb_socket_error :: "int \<Rightarrow> wref \<Rightarrow> wcp \<Rightarrow> wcp" where
  "wcb_socket_error code r s = wcb_so_close r code s"

end
