(* ===== verification/Wcp_Api.thy ===== *)
theory Wcp_Api
  imports Wcp_Manager
begin

text \<open>
  The socket-like calls of class \<open>wcp\<close> (src/net/wcp.cpp) and the wpoll event queue. Every call returns the
  code of the source and the new state; a call that may wait returns \<open>Block\<close>. Buffers and addresses that
  the source returns through pointers are part of the result.
\<close>

section \<open>Creation and connection\<close>

definition AF_INET :: int where "AF_INET = 2"
definition SOCK_DGRAM :: int where "SOCK_DGRAM = 2"
definition IPPROTO_UDP :: int where "IPPROTO_UDP = 17"

definition wcp_socket :: "int \<Rightarrow> int \<Rightarrow> int \<Rightarrow> wcp \<Rightarrow> (int \<times> wcp) option" where
  "wcp_socket family socket_type protocol s =
     do { wawo_assert (family = AF_INET);
          wawo_assert (socket_type = SOCK_DGRAM);
          wawo_assert (protocol = IPPROTO_UDP);
          let (r, s) = alloc_ref s;
          let (openrt, s) = os_call s;
          if openrt \<noteq> OK then Some (WAWO_NEGATIVE (socket_get_last_errno s), s)
          else do {
            w \<leftarrow> new_wcb r s;
            let (fd, s) = make_wcb_fd s;
            let s = put_wcb r (w\<lparr> w_fd := fd \<rparr>) s;
            if map_of (m_wcb_create_pending_map s) fd \<noteq> None then Some (fail_with E_WCP_INTERNAL_ERROR s)
            else Some (fd, s\<lparr> m_wcb_create_pending_map := smap_insert fd r (m_wcb_create_pending_map s) \<rparr>) } }"

definition wcp_connect :: "int \<Rightarrow> u32 \<Rightarrow> u16 \<Rightarrow> wcp \<Rightarrow> (int blocking \<times> wcp) option" where
  "wcp_connect fd s_addr sin_port s =
     (case map_of (m_wcb_create_pending_map s) fd of
        None \<Rightarrow> Some (Ret E_EBADF, set_last_errno E_EBADF s)
      | Some r \<Rightarrow>
          let (nonblocking, s) = so_turnon_nonblocking r s in
          if nonblocking \<noteq> OK then Some (Ret nonblocking, s)
          else do {
            let s = s\<lparr> m_wcb_create_pending_map := smap_erase fd (m_wcb_create_pending_map s),
                       m_wcb_map := smap_insert fd r (m_wcb_map s) \<rparr>;
            let s = so_begin_async_read r s;
            w \<leftarrow> m_heap s r;
            (res, e, w) \<leftarrow> wcb_connect (address_of_sockaddr_in s_addr sin_port) w;
            let s = note_errno e s;
            Some (res, put_wcb r w s) })"

definition wcp_bind :: "int \<Rightarrow> u32 \<Rightarrow> u16 \<Rightarrow> wcp \<Rightarrow> (int \<times> wcp) option" where
  "wcp_bind fd s_addr sin_port s =
     (case map_of (m_wcb_create_pending_map s) fd of
        None \<Rightarrow> Some (fail_with E_EBADF s)
      | Some r \<Rightarrow>
          do { w \<leftarrow> m_heap s r;
               let w = w\<lparr> w_local_addr := address_of_sockaddr_in s_addr sin_port \<rparr>;
               let (bindrt, s) = os_call s;
               if bindrt \<noteq> OK
               then let w = w\<lparr> w_wcb_errno := WAWO_NEGATIVE (socket_get_last_errno s) \<rparr> in
                    Some (w_wcb_errno w, put_wcb r w s)
               else Some (OK, put_wcb r w s) })"

definition wcp_listen :: "int \<Rightarrow> int \<Rightarrow> wcp \<Rightarrow> (int \<times> wcp) option" where
  "wcp_listen fd backlog s =
     (case map_of (m_wcb_create_pending_map s) fd of
        None \<Rightarrow> Some (fail_with E_EBADF s)
      | Some r \<Rightarrow>
          let (nonblocking, s) = so_turnon_nonblocking r s in
          if nonblocking \<noteq> OK then Some (nonblocking, s)
          else let (udplistening, s) = os_call s in
          if udplistening \<noteq> OK then Some (nonblocking, s)
          else do {
            w \<leftarrow> m_heap s r;
            (listenrt, e, w) \<leftarrow> wcb_listen backlog w;
            let s = note_errno e (put_wcb r w s);
            if listenrt \<noteq> OK then Some (listenrt, s)
            else Some (OK, so_begin_async_read r
              (s\<lparr> m_wcb_create_pending_map := smap_erase fd (m_wcb_create_pending_map s),
                  m_wcb_map := smap_insert fd r (m_wcb_map s) \<rparr>)) })"

text \<open>The address record that accept() and getsockname() fill in: family, port and address.\<close>

type_synonym sockaddr_in = "int \<times> u16 \<times> u64"

definition wcp_accept :: "int \<Rightarrow> wcp \<Rightarrow> (int \<times> sockaddr_in option \<times> wcp) option" where
  "wcp_accept fd s =
     (case map_of (m_wcb_map s) fd of
        None \<Rightarrow> Some (E_EBADF, None, set_last_errno E_EBADF s)
      | Some r \<Rightarrow>
          do { w \<leftarrow> m_heap s r;
               if test_flag (w_r_flag w) (READ_RECV_ERROR OR READ_LOCAL_READ_SHUTDOWNED)
               then let e = (if w_wcb_errno w \<noteq> 0 then w_wcb_errno w else E_ECONNABORTED) in
                    Some (e, None, set_last_errno e s)
               else (case w_backlogq w of
                 [] \<Rightarrow> Some (WAWO_NEGATIVE EWOULDBLOCK, None, set_last_errno EWOULDBLOCK s)
               | a # q \<Rightarrow>
                   do { aw \<leftarrow> m_heap s a;
                        wawo_assert (\<not> addr_is_null (w_remote_addr aw));
                        Some (w_fd aw,
                          Some (SOCK_DGRAM, get_netsequence_port (w_remote_addr aw),
                                get_netsequence_ulongip (w_remote_addr aw)),
                          put_wcb r (w\<lparr> w_backlogq := q \<rparr>) s) }) })"

section \<open>Shutdown and close\<close>

definition wcp_shutdown :: "int \<Rightarrow> int \<Rightarrow> wcp \<Rightarrow> (int \<times> wcp) option" where
  "wcp_shutdown fd flag s =
     (case map_of (m_wcb_map s) fd of
        None \<Rightarrow> Some (fail_with E_EBADF s)
      | Some r \<Rightarrow>
          do { w \<leftarrow> m_heap s r;
               if test_flag (w_wcb_flag w) WCB_FLAG_IS_LISTENER then Some (fail_with E_EOPNOTSUPP s)
               else do { (rt, e, w) \<leftarrow> wcb_shutdown flag w;
                         let s = note_errno e s;
                         Some (rt, put_wcb r w s) } })"

definition wcp_close :: "int \<Rightarrow> wcp \<Rightarrow> (int \<times> wcp) option" where
  "wcp_close fd s =
     (let (found, s) =
        (case map_of (m_wcb_map s) fd of
           Some r \<Rightarrow> (Some r, s)
         | None \<Rightarrow> (case map_of (m_wcb_create_pending_map s) fd of
             None \<Rightarrow> (None, s)
           | Some r \<Rightarrow> (Some r, s\<lparr> m_wcb_create_pending_map := smap_erase fd (m_wcb_create_pending_map s) \<rparr>))) in
      case found of
        None \<Rightarrow> Some (fail_with E_EBADF s)
      | Some r \<Rightarrow>
          do { w \<leftarrow> m_heap s r; close_ref r w s })"

section \<open>Data\<close>

definition wcp_send :: "int \<Rightarrow> bytes \<Rightarrow> u32 \<Rightarrow> wcp \<Rightarrow> (int \<times> wcp) option" where
  "wcp_send fd buffer len s =
     (case map_of (m_wcb_map s) fd of
        None \<Rightarrow> Some (fail_with E_EBADF s)
      | Some r \<Rightarrow>
          do { w \<leftarrow> m_heap s r;
               if test_flag (w_s_flag w) (WRITE_SEND_ERROR OR WRITE_LOCAL_WRITE_SHUTDOWNED)
               then Some (fail_with (if w_wcb_errno w \<noteq> 0 then w_wcb_errno w else E_ECONNABORTED) s)
               else do {
                 let left_capacity = rb_left_capacity (w_sb w);
                 if left_capacity < len \<and> left_capacity < 2 * WCP_MDU
                 then Some (WAWO_NEGATIVE EWOULDBLOCK, set_last_errno EWOULDBLOCK s)
                 else do { (n, sb) \<leftarrow> rb_write (w_sb w) buffer len;
                           Some (sint n, put_wcb r (w\<lparr> w_sb := sb \<rparr>) s) } } })"

text \<open>recv() from read_begin on: run at the call and, on the same block, after every wake-up.\<close>

definition wcb_recv :: "u32 \<Rightarrow> WCB \<Rightarrow> ((int \<times> bytes) blocking \<times> int option \<times> WCB) option" where
  "wcb_recv sz w =
     (if test_flag (w_r_flag w) READ_LOCAL_READ_SHUTDOWNED
      then Some (Ret (E_ECONNABORTED, []), Some E_ECONNABORTED, w)
      else if rb_count (w_rb w) > 0
      then do { (nbytes, d, rb) \<leftarrow> rb_read (w_rb w) sz True;
                wawo_assert (nbytes > 0);
                Some (Ret (sint nbytes, d), None, w\<lparr> w_rb := rb \<rparr>) }
      else if test_flag (w_r_flag w) READ_REMOTE_FIN_RECEIVED
      then (if test_flag (w_r_flag w) READ_REMOTE_FIN_READ_BY_USER
            then Some (Ret (E_ECONNRESET, []), Some E_ECONNRESET, w)
            else Some (Ret (OK, []), Some OK,
                   w\<lparr> w_r_flag := set_flag (w_r_flag w) READ_REMOTE_FIN_READ_BY_USER \<rparr>))
      else if test_flag (w_r_flag w) READ_RECV_ERROR
      then do { wawo_assert (w_wcb_errno w \<noteq> 0);
                Some (Ret (WAWO_NEGATIVE (w_wcb_errno w), []), Some (w_wcb_errno w), w) }
      else do {
        wawo_assert (w_wcb_errno w = 0);
        if test_flag (w_wcb_option w) WCP_O_NONBLOCK
        then Some (Ret (WAWO_NEGATIVE EWOULDBLOCK, []), Some EWOULDBLOCK, w)
        else Some (Block, None, w) })"

definition wcp_recv :: "int \<Rightarrow> u32 \<Rightarrow> wcp \<Rightarrow> ((int \<times> bytes) blocking \<times> wcp) option" where
  "wcp_recv fd sz s =
     (case map_of (m_wcb_map s) fd of
        None \<Rightarrow> Some (Ret (E_EBADF, []), set_last_errno E_EBADF s)
      | Some r \<Rightarrow>
          do { w \<leftarrow> m_heap s r;
               (res, e, w) \<leftarrow> wcb_recv sz w;
               let s = note_errno e s;
               Some (res, put_wcb r w s) })"

section \<open>Names and options\<close>

definition wcp_getsockname :: "int \<Rightarrow> wcp \<Rightarrow> (int \<times> sockaddr_in option \<times> wcp) option" where
  "wcp_getsockname fd s =
     (case map_of (m_wcb_map s) fd of
        None \<Rightarrow> Some (E_EBADF, None, set_last_errno E_EBADF s)
      | Some r \<Rightarrow>
          do { w \<leftarrow> m_heap s r;
               let w = (if addr_is_null (w_local_addr w) then w\<lparr> w_local_addr := os_local_addr (m_os s) r \<rparr> else w);
               Some (OK, Some (SOCK_DGRAM, get_netsequence_port (w_local_addr w), get_netsequence_ulongip (w_local_addr w)),
                     put_wcb r w s) })"

text \<open>The lookup that getsockopt(), setsockopt() and fcntl share: first the live table, then the pending one.\<close>

definition find_wcb :: "int \<Rightarrow> wcp \<Rightarrow> wref option" where
  "find_wcb fd s =
     (case map_of (m_wcb_map s) fd of Some r \<Rightarrow> Some r | None \<Rightarrow> map_of (m_wcb_create_pending_map s) fd)"

definition SO_ERROR :: int where "SO_ERROR = 4"
definition IP_TOS :: int where "IP_TOS = 1"

definition wcp_getsockopt :: "int \<Rightarrow> int \<Rightarrow> wcp \<Rightarrow> (int \<times> int option \<times> wcp) option" where
  "wcp_getsockopt fd option_name s =
     (case find_wcb fd s of
        None \<Rightarrow> Some (E_EBADF, None, set_last_errno E_EBADF s)
      | Some r \<Rightarrow>
          do { w \<leftarrow> m_heap s r;
               if option_name = SO_REUSEADDR \<or> option_name = SO_REUSEPORT
               then let (rt, s) = os_call s in Some (rt, None, s)
               else if option_name = SO_ERROR then Some (OK, Some (w_wcb_errno w), s)
               else if option_name = SO_RCVBUF then Some (OK, Some (get_rcv_buffer_size w), s)
               else if option_name = SO_SNDBUF then Some (OK, Some (get_snd_buffer_size w), s)
               else None })"

definition wcp_setsockopt :: "int \<Rightarrow> int \<Rightarrow> int \<Rightarrow> wcp \<Rightarrow> (int \<times> wcp) option" where
  "wcp_setsockopt fd option_name value s =
     (case find_wcb fd s of
        None \<Rightarrow> Some (fail_with E_EBADF s)
      | Some r \<Rightarrow>
          do { w \<leftarrow> m_heap s r;
               if option_name = SO_REUSEADDR then Some (os_call s)
               else if option_name = SO_REUSEPORT then Some (os_call s)
               else if option_name = SO_RCVBUF
               then do { (rt, w) \<leftarrow> set_rcv_buffer_size (os_junk (m_os s)) w value; Some (rt, put_wcb r w s) }
               else if option_name = SO_SNDBUF
               then do { (rt, w) \<leftarrow> set_snd_buffer_size (os_junk (m_os s)) w value; Some (rt, put_wcb r w s) }
               else if option_name = IP_TOS then Some (OK, s)
               else None })"

definition wcp_fcntl_getfl :: "int \<Rightarrow> wcp \<Rightarrow> (int \<times> u32 option \<times> wcp) option" where
  "wcp_fcntl_getfl fd s =
     (case find_wcb fd s of
        None \<Rightarrow> Some (E_EBADF, None, set_last_errno E_EBADF s)
      | Some r \<Rightarrow> do { w \<leftarrow> m_heap s r; Some (OK, Some (w_wcb_option w), s) })"

definition wcp_fcntl_setfl :: "int \<Rightarrow> u32 \<Rightarrow> wcp \<Rightarrow> (int \<times> wcp) option" where
  "wcp_fcntl_setfl fd flag s =
     (case find_wcb fd s of
        None \<Rightarrow> Some (fail_with E_EBADF s)
      | Some r \<Rightarrow> do { w \<leftarrow> m_heap s r; Some (OK, put_wcb r (w\<lparr> w_wcb_option := flag \<rparr>) s) })"

section \<open>wpoll\<close>

definition wpoll_create :: "wcp \<Rightarrow> int \<times> wcp" where
  "wpoll_create s =
     (let id = sint (s_wpoll_auto_increament_id s);
          s = s\<lparr> s_wpoll_auto_increament_id := s_wpoll_auto_increament_id s + 1 \<rparr> in
      if m_state s \<noteq> S_RUN then fail_with E_INVALID_STATE s
      else (id, s\<lparr> m_wpoll_map := smap_insert id [] (m_wpoll_map s) \<rparr>))"

definition wpoll_close :: "int \<Rightarrow> wcp \<Rightarrow> int \<times> wcp" where
  "wpoll_close wpoll_handle s =
     (if m_state s \<noteq> S_RUN then fail_with E_INVALID_STATE s
      else if map_of (m_wpoll_map s) wpoll_handle = None then fail_with E_WCP_WPOLL_HANDLE_NOT_EXISTS s
      else (OK, s\<lparr> m_wpoll_map := smap_erase wpoll_handle (m_wpoll_map s) \<rparr>))"

text \<open>The watch record of a descriptor in a list of records.\<close>

definition find_watch :: "int \<Rightarrow> nat list \<Rightarrow> wcp \<Rightarrow> nat option" where
  "find_watch fd evts s = find (\<lambda>e. case m_watch_heap s e of None \<Rightarrow> False | Some we \<Rightarrow> we_fd we = fd) evts"

text \<open>Replacing the record list behind a handle.\<close>

definition set_wpoll :: "int \<Rightarrow> nat list \<Rightarrow> wcp \<Rightarrow> wcp" where
  "set_wpoll h evts s = s\<lparr> m_wpoll_map := map (\<lambda>(k, v). (k, if k = h then evts else v)) (m_wpoll_map s) \<rparr>"

definition put_watch :: "nat \<Rightarrow> wpoll_watch_event \<Rightarrow> wcp \<Rightarrow> wcp" where
  "put_watch e we s = s\<lparr> m_watch_heap := (m_watch_heap s)(e \<mapsto> we) \<rparr>"

definition wpoll_add :: "int \<Rightarrow> nat list \<Rightarrow> wref \<Rightarrow> wpoll_event \<Rightarrow> wcp \<Rightarrow> (int \<times> wcp) option" where
  "wpoll_add h evts r evt s =
     do { wawo_assert (pe_cookie evt \<noteq> None);
          case find_watch (pe_fd evt) evts s of
            Some e \<Rightarrow>
              do { we \<leftarrow> m_watch_heap s e;
                   wawo_assert (we_cookie we = pe_cookie evt);
                   Some (OK, put_watch e (we\<lparr> we_evts := we_evts we OR pe_evts evt \<rparr>) s) }
          | None \<Rightarrow>
              let e = m_next_watch s;
                  we = \<lparr> we_fd = pe_fd evt, we_evts = pe_evts evt, we_cookie = pe_cookie evt, we_wcb = r \<rparr> in
              Some (OK, set_wpoll h (evts @ [e]) (put_watch e we (s\<lparr> m_next_watch := e + 1 \<rparr>))) }"

definition wpoll_del :: "int \<Rightarrow> nat list \<Rightarrow> wpoll_event \<Rightarrow> wcp \<Rightarrow> (int \<times> wcp) option" where
  "wpoll_del h evts evt s =
     (case find_watch (pe_fd evt) evts s of
        None \<Rightarrow> Some (fail_with E_EBADF s)
      | Some e \<Rightarrow>
          do { we \<leftarrow> m_watch_heap s e;
               let we = we\<lparr> we_evts := we_evts we AND NOT (pe_evts evt) \<rparr>;
               let s = put_watch e we s;
               Some (OK, if we_evts we = 0 then set_wpoll h (remove1 e evts) s else s) })"

definition wpoll_ctl :: "int \<Rightarrow> wpoll_op \<Rightarrow> wpoll_event \<Rightarrow> wcp \<Rightarrow> (int \<times> wcp) option" where
  "wpoll_ctl wpoll_handle op evt s =
     do { wawo_assert (pe_fd evt > 0);
          wawo_assert (wpoll_handle > 0);
          if m_state s \<noteq> S_RUN then Some (fail_with E_INVALID_STATE s)
          else case map_of (m_wpoll_map s) wpoll_handle of
            None \<Rightarrow> Some (fail_with E_WCP_WPOLL_HANDLE_NOT_EXISTS s)
          | Some evts \<Rightarrow>
              (case map_of (m_wcb_map s) (pe_fd evt) of
                 None \<Rightarrow> Some (fail_with E_EBADF s)
               | Some r \<Rightarrow>
                   (case op of WPOLL_CTL_ADD \<Rightarrow> wpoll_add wpoll_handle evts r evt s
                    | WPOLL_CTL_DEL \<Rightarrow> wpoll_del wpoll_handle evts evt s)) }"

text \<open>Events left from an earlier wait: those whose record lost all its events are dropped.\<close>

fun wpoll_drain :: "wpoll_event_pending list \<Rightarrow> nat \<Rightarrow> wcp \<Rightarrow> (wpoll_event list \<times> wpoll_event_pending list) option" where
  "wpoll_drain [] n s = Some ([], [])"
| "wpoll_drain (p # ps) 0 s = Some ([], p # ps)"
| "wpoll_drain (p # ps) (Suc n) s =
     do { we \<leftarrow> m_watch_heap s (pend_watch p);
          if we_evts we \<noteq> 0
          then do { (out, rest) \<leftarrow> wpoll_drain ps n s; Some (pend_evt p # out, rest) }
          else wpoll_drain ps (Suc n) s }"

text \<open>The events of one watched block, and the record with WPOLLOUT withdrawn after a write error.\<close>

definition wpoll_in :: "wpoll_watch_event \<Rightarrow> WCB \<Rightarrow> u32 option" where
  "wpoll_in we w =
     (if test_flag (we_evts we) WPOLLIN
      then do {
        let ev = (if test_flag (w_wcb_flag w) WCB_FLAG_IS_LISTENER
                  then (if length (w_backlogq w) \<noteq> 0 then WPOLLIN else 0)
                  else (if rb_count (w_rb w) \<noteq> 0
                           \<or> (test_flag (w_r_flag w) READ_REMOTE_FIN_RECEIVED
                              \<and> \<not> test_flag (w_r_flag w) READ_REMOTE_FIN_READ_BY_USER)
                        then WPOLLIN else 0));
        if test_flag (w_r_flag w) (READ_RECV_ERROR OR READ_LOCAL_READ_SHUTDOWNED)
        then do { wawo_assert (w_wcb_errno w \<noteq> OK); Some (ev OR WPOLLERR) }
        else Some ev }
      else Some 0)"

definition wpoll_out :: "wpoll_watch_event \<Rightarrow> WCB \<Rightarrow> (u32 \<times> wpoll_watch_event) option" where
  "wpoll_out we w =
     (if test_flag (we_evts we) WPOLLOUT
      then do {
        wawo_assert (\<not> test_flag (w_wcb_flag w) WCB_FLAG_IS_LISTENER);
        if test_flag (w_s_flag w) (WRITE_LOCAL_WRITE_SHUTDOWNED OR WRITE_SEND_ERROR)
        then do { wawo_assert (w_wcb_errno w \<noteq> OK);
                  Some (WPOLLERR, we\<lparr> we_evts := we_evts we AND NOT WPOLLOUT \<rparr>) }
        else Some (if w_state w = WCB_ESTABLISHED \<and> rb_left_capacity (w_sb w) > WCP_MDU * 2 then WPOLLOUT else 0, we) }
      else Some (0, we))"

fun wpoll_scan :: "nat list \<Rightarrow> nat \<Rightarrow> wcp \<Rightarrow> (nat list \<times> wpoll_event list \<times> wcp) option" where
  "wpoll_scan [] n s = Some ([], [], s)"
| "wpoll_scan (e # es) n s =
     do { we \<leftarrow> m_watch_heap s e;
          w \<leftarrow> m_heap s (we_wcb we);
          if w_state w = WCB_RECYCLE then wpoll_scan es n s
          else do {
            i \<leftarrow> wpoll_in we w;
            (out, we') \<leftarrow> wpoll_out we w;
            let s = put_watch e we' s;
            let ev = i OR out OR (if w_wcb_errno w \<noteq> 0 then WPOLLERR else 0);
            let evt = \<lparr> pe_fd = we_fd we, pe_evts = ev, pe_cookie = we_cookie we \<rparr>;
            if ev = 0 then do { (keep, outs, s) \<leftarrow> wpoll_scan es n s; Some (e # keep, outs, s) }
            else case n of
              Suc m \<Rightarrow> do { (keep, outs, s) \<leftarrow> wpoll_scan es m s; Some (e # keep, evt # outs, s) }
            | 0 \<Rightarrow> do { (keep, outs, s) \<leftarrow> wpoll_scan es 0
                          (s\<lparr> m_event_pending_queue := m_event_pending_queue s @ [\<lparr> pend_evt = evt, pend_watch = e \<rparr>] \<rparr>);
                        Some (e # keep, outs, s) } } }"

definition wpoll_wait :: "int \<Rightarrow> u32 \<Rightarrow> wcp \<Rightarrow> (int \<times> wpoll_event list \<times> wcp) option" where
  "wpoll_wait wpoll_handle sz s =
     (if m_state s \<noteq> S_RUN then Some (E_INVALID_STATE, [], set_last_errno E_INVALID_STATE s)
      else case map_of (m_wpoll_map s) wpoll_handle of
        None \<Rightarrow> Some (E_WCP_WPOLL_HANDLE_NOT_EXISTS, [], set_last_errno E_WCP_WPOLL_HANDLE_NOT_EXISTS s)
      | Some watched \<Rightarrow>
          do { (evts, rest) \<leftarrow> wpoll_drain (m_event_pending_queue s) (unat sz) s;
               let s = s\<lparr> m_event_pending_queue := rest \<rparr>;
               if evts \<noteq> [] then Some (int (length evts), evts, s)
               else do {
                 wawo_assert (m_event_pending_queue s = []);
                 (keep, evts, s) \<leftarrow> wpoll_scan watched (unat sz) s;
                 Some (int (length evts), evts, set_wpoll wpoll_handle keep s) } })"

end
