(* ===== verification/Wcb_Send_Props.thy ===== *)
theory Wcb_Send_Props
  imports Wcb_Recv_Props
begin

text \<open>
  What check_flights() and check_send() guarantee in an established connection: neither throws, the
  fuel of the model's loops suffices, the bytes in flight stay accounted for and below the
  window when a pack is sent, sequence numbers are handed out consecutively, the bytes of the send
  buffer go into packs in order and without loss, and every datagram that is sent, first transmission or
  not, carries the payload that belongs to its sequence number.
\<close>

section \<open>Packs of the sender\<close>

definition pbytes :: "WCB_pack \<Rightarrow> bytes" where
  "pbytes p = (case wp_data p of None \<Rightarrow> [] | Some d \<Rightarrow> d)"

definition clean_flags :: "u16 \<Rightarrow> bool" where
  "clean_flags f \<longleftrightarrow> \<not> test_flag f WCP_FLAG_SYN \<and> \<not> test_flag f WCP_FLAG_FIN \<and> \<not> test_flag f WCP_FLAG_RST \<and>
     \<not> test_flag f WCP_FLAG_SACK \<and> \<not> test_flag f WCP_FLAG_KEEP_ALIVE \<and> \<not> test_flag f WCP_FLAG_KEEP_ALIVE_REPLY"

definition pack_ok :: "(u32 \<Rightarrow> bytes) \<Rightarrow> u32 \<Rightarrow> WCB_pack \<Rightarrow> bool" where
  "pack_ok seg dsn p \<longleftrightarrow> pbytes p = seg (wp_seq p) \<and> wp_seq p < dsn \<and> length (pbytes p) \<le> 1384 \<and>
     unat (h_dlen (wp_header p)) = length (pbytes p) \<and> clean_flags (h_flag (wp_header p)) \<and>
     (pbytes p \<noteq> [] \<longrightarrow> test_flag (h_flag (wp_header p)) WCP_FLAG_DAT)"

lemma pack_okD:
  assumes "pack_ok seg dsn p"
  shows "pbytes p = seg (wp_seq p)" "wp_seq p < dsn" "length (pbytes p) \<le> 1384"
    "unat (h_dlen (wp_header p)) = length (pbytes p)" "clean_flags (h_flag (wp_header p))"
    "pbytes p \<noteq> [] \<longrightarrow> test_flag (h_flag (wp_header p)) WCP_FLAG_DAT"
  using assms unfolding pack_ok_def by blast+

text \<open>A datagram that any receiver of the data phase may take.\<close>

definition msg_ok :: "(u32 \<Rightarrow> bytes) \<Rightarrow> u32 \<Rightarrow> bytes \<Rightarrow> bool" where
  "msg_ok seg dsn m \<longleftrightarrow> (\<exists>h d. WCP_RECEIVED_PACK_FROM_UDPMESSAGE m = Some (h, d) \<and>
     (\<forall>from. (test_flag (h_flag h) WCP_FLAG_SACK \<longrightarrow> sack_ok \<lparr> rp_header = h, rp_data = d, rp_from = from \<rparr>) \<and>
        (sequenced \<lparr> rp_header = h, rp_data = d, rp_from = from \<rparr> \<longrightarrow>
           data_ok seg from \<lparr> rp_header = h, rp_data = d, rp_from = from \<rparr> \<and> h_seq h < dsn)))"

lemma data_len_pbytes: "data_len (wp_data p) = length (pbytes p)"
  by (cases "wp_data p") (simp_all add: pbytes_def)

lemma wcp_decode_encoded:
  assumes "data_len data \<le> 1384"
  obtains m where "WCPPACK_TO_UDPMESSAGE h data WCP_MTU = Some m"
    "WCP_RECEIVED_PACK_FROM_UDPMESSAGE m =
       Some (h\<lparr> h_dlen := of_nat (data_len data) \<rparr>, if data_len data = 0 then None else data)"
proof -
  let ?h = "h\<lparr> h_dlen := of_nat (data_len data) \<rparr>" and ?d = "case data of None \<Rightarrow> [] | Some d \<Rightarrow> d"
  have n: "unat (of_nat (data_len data) :: u16) = data_len data"
    using assms by (intro unat_of_nat_nowrap) simp
  then have z: "(of_nat (data_len data) :: u16) = 0 \<longleftrightarrow> data_len data = 0"
    by (simp add: word_eq_unat)
  have l: "length ?d = data_len data" by (simp add: data_len_def split: option.splits)
  have "WCP_RECEIVED_PACK_FROM_UDPMESSAGE (write_impl (h_seq h) @ write_impl (h_ack h) @
      write_impl (h_wnd h) @ write_impl (h_flag h) @ write_impl (of_nat (data_len data) :: u16) @ ?d)
    = Some (?h, if data_len data = 0 then None else Some ?d)"
    using wcp_decode_fields [of _ ?h ?d] assms n z l by simp
  moreover have "(if data_len data = 0 then None else Some ?d) = (if data_len data = 0 then None else data)"
    by (simp add: data_len_def split: option.splits)
  ultimately show ?thesis using that assms by (simp add: wcp_encode)
qed

lemma msg_ok_of_pack:
  assumes "pack_ok seg dsn p"
  obtains m where "WCPPACK_TO_UDPMESSAGE (wp_header p) (wp_data p) WCP_MTU = Some m" "msg_ok seg dsn m"
proof -
  have l: "data_len (wp_data p) \<le> 1384" using pack_okD(3) [OF assms] by (simp only: data_len_pbytes)
  obtain m where m: "WCPPACK_TO_UDPMESSAGE (wp_header p) (wp_data p) WCP_MTU = Some m"
    "WCP_RECEIVED_PACK_FROM_UDPMESSAGE m = Some ((wp_header p)\<lparr> h_dlen := of_nat (data_len (wp_data p)) \<rparr>,
       if data_len (wp_data p) = 0 then None else wp_data p)"
    by (rule wcp_decode_encoded [OF l, of "wp_header p"])
  have n: "(of_nat (data_len (wp_data p)) :: u16) = h_dlen (wp_header p)"
    unfolding data_len_pbytes pack_okD(4) [OF assms, symmetric] by simp
  have z: "h_dlen (wp_header p) = 0 \<longleftrightarrow> pbytes p = []"
    using pack_okD(4) [OF assms] by (simp add: word_eq_unat)
  have "msg_ok seg dsn m"
    unfolding msg_ok_def m(2) n using pack_okD [OF assms] z
    by (auto simp: clean_flags_def sack_ok_def data_ok_def payload_def data_len_pbytes word_gt_0)
      (auto simp: pbytes_def split: option.splits)
  with m(1) show ?thesis by (rule that)
qed

lemma msg_ok_of_ignore:
  assumes "data_len (wp_data p) \<le> 1384" "test_flag (h_flag (wp_header p)) WCP_FLAG_SACK \<longrightarrow>
        data_len (wp_data p) \<noteq> 0 \<and> 4 dvd data_len (wp_data p)"
    "test_flag (h_flag (wp_header p)) WCP_FLAG_SACK \<or> test_flag (h_flag (wp_header p)) WCP_FLAG_KEEP_ALIVE \<or>
      test_flag (h_flag (wp_header p)) WCP_FLAG_KEEP_ALIVE_REPLY"
    and "WCPPACK_TO_UDPMESSAGE (wp_header p) (wp_data p) WCP_MTU = Some m"
  shows "msg_ok seg dsn m"
proof -
  obtain m' where m: "WCPPACK_TO_UDPMESSAGE (wp_header p) (wp_data p) WCP_MTU = Some m'"
    "WCP_RECEIVED_PACK_FROM_UDPMESSAGE m' = Some ((wp_header p)\<lparr> h_dlen := of_nat (data_len (wp_data p)) \<rparr>,
       if data_len (wp_data p) = 0 then None else wp_data p)"
    by (rule wcp_decode_encoded [OF assms(1), of "wp_header p"])
  then have "m' = m" using assms(4) by simp
  then show ?thesis
    using m(2) assms(2,3) by (auto simp: msg_ok_def sack_ok_def sequenced_def)
qed

lemma msg_ok_mono:
  assumes "msg_ok seg dsn m" "dsn \<le> dsn'" "\<forall>s < dsn. seg' s = seg s"
  shows "msg_ok seg' dsn' m"
proof -
  from assms(1) obtain h d where "WCP_RECEIVED_PACK_FROM_UDPMESSAGE m = Some (h, d)"
    "\<forall>from. (test_flag (h_flag h) WCP_FLAG_SACK \<longrightarrow> sack_ok \<lparr> rp_header = h, rp_data = d, rp_from = from \<rparr>) \<and>
        (sequenced \<lparr> rp_header = h, rp_data = d, rp_from = from \<rparr> \<longrightarrow>
           data_ok seg from \<lparr> rp_header = h, rp_data = d, rp_from = from \<rparr> \<and> h_seq h < dsn)"
    unfolding msg_ok_def by blast
  then show ?thesis
    using assms(2,3) unfolding msg_ok_def by (auto simp: data_ok_def intro: order_less_le_trans)
qed

lemma pack_ok_mono:
  assumes "pack_ok seg dsn p" "dsn \<le> dsn'" "\<forall>s < dsn. seg' s = seg s"
  shows "pack_ok seg' dsn' p"
  using assms by (auto simp: pack_ok_def)

section \<open>Transmission\<close>

lemma send_pack_ok:
  assumes "w_remote_addr w \<noteq> 0" "data_len (wp_data p) \<le> 1384"
  obtains m p' where
    "send_pack p w = Some (env_send_rt (w_env w) (length (env_sent (w_env w))), p',
       w\<lparr> w_env := (w_env w)\<lparr> env_sent := env_sent (w_env w) @ [(w_remote_addr w, m)] \<rparr> \<rparr>)"
    "p' = p\<lparr> wp_header := (wp_header p)\<lparr> h_ack := ri_next (w_rcv_info w), h_wnd := ri_wnd (w_rcv_info w) \<rparr> \<rparr>"
    "WCPPACK_TO_UDPMESSAGE (wp_header p') (wp_data p') WCP_MTU = Some m"
proof -
  let ?p = "p\<lparr> wp_header := (wp_header p)\<lparr> h_ack := ri_next (w_rcv_info w), h_wnd := ri_wnd (w_rcv_info w) \<rparr> \<rparr>"
  obtain m where m: "WCPPACK_TO_UDPMESSAGE (wp_header ?p) (wp_data ?p) WCP_MTU = Some m"
    using wcp_decode_encoded [OF assms(2), of "wp_header ?p"] by auto
  then show ?thesis
    using assms(1) by (intro that [of ?p m]) (simp_all add: send_pack_def inject_to_address_def addr_is_null_def Let_def)
qed

lemma pack_ok_stamp [simp]:
  "pack_ok seg dsn (p\<lparr> wp_header := (wp_header p)\<lparr> h_ack := a, h_wnd := b \<rparr> \<rparr>) = pack_ok seg dsn p"
  "pack_ok seg dsn (p\<lparr> wp_sent_ts := t, wp_sent_times := k \<rparr>) = pack_ok seg dsn p"
  by (simp_all add: pack_ok_def pbytes_def)

lemma pack_total_stamp [simp]:
  "pack_total_bytes (p\<lparr> wp_header := (wp_header p)\<lparr> h_ack := a, h_wnd := b \<rparr> \<rparr>) = pack_total_bytes p"
  "pack_total_bytes (p\<lparr> wp_sent_ts := t, wp_sent_times := k \<rparr>) = pack_total_bytes p"
  by (simp_all add: pack_total_bytes_def)

lemma pack_total_nat:
  assumes "pack_ok seg dsn p" shows "unat (pack_total_bytes p) = length (pbytes p) + 16"
proof -
  have "unat (ucast (h_dlen (wp_header p)) :: u32) = length (pbytes p)"
    unfolding pack_okD(4) [OF assms, symmetric] by (rule unat_ucast_up) simp
  moreover note pack_okD(3) [OF assms]
  ultimately show ?thesis unfolding pack_total_bytes_def by (subst unat_add_nowrap) simp_all
qed

section \<open>Retransmission\<close>

text \<open>
  \<open>sends seg w w'\<close>: the step from \<open>w\<close> to \<open>w'\<close> only added datagrams to the peer that are fit for the
  data phase.
\<close>

definition sends :: "(u32 \<Rightarrow> bytes) \<Rightarrow> WCB \<Rightarrow> WCB \<Rightarrow> bool" where
  "sends seg w w' \<longleftrightarrow> (\<exists>ms. env_sent (w_env w') = env_sent (w_env w) @ ms \<and>
     (\<forall>am \<in> set ms. fst am = w_remote_addr w \<and> msg_ok seg (si_dsn (w_snd_info w)) (snd am))) \<and>
     env_send_rt (w_env w') = env_send_rt (w_env w)"

lemma sends_refl [simp]: "sends seg w w"
  by (simp add: sends_def)

lemma sends_same_env: "w_env w' = w_env w \<Longrightarrow> sends seg w w'"
  by (simp add: sends_def)

lemma sends_trans:
  assumes "sends seg w w1" "sends seg w1 w2" "w_remote_addr w1 = w_remote_addr w"
    "si_dsn (w_snd_info w1) = si_dsn (w_snd_info w)"
  shows "sends seg w w2"
proof -
  from assms(1) obtain ms where "env_sent (w_env w1) = env_sent (w_env w) @ ms"
    "\<forall>am \<in> set ms. fst am = w_remote_addr w \<and> msg_ok seg (si_dsn (w_snd_info w)) (snd am)"
    unfolding sends_def by blast
  moreover from assms(2-4) obtain ns where "env_sent (w_env w2) = env_sent (w_env w1) @ ns"
    "\<forall>am \<in> set ns. fst am = w_remote_addr w \<and> msg_ok seg (si_dsn (w_snd_info w)) (snd am)"
    unfolding sends_def by auto
  ultimately show ?thesis
    using assms(1,2) unfolding sends_def by (intro conjI exI [of _ "ms @ ns"]) auto
qed

definition flight_view where
  "flight_view w = ((w_state w, w_wcb_option w, w_r_flag w, w_remote_addr w),
     (w_rcv_info w, w_rcv_received w, w_rb w, w_rb_standby w, w_sb w, w_snd_sacked_pack_tmp w),
     (w_snd_sending w, w_s_sending_standby w, w_s_sending_ignore_seq_space w, w_snd_flights w),
     (w_snd_nflight_bytes_max w, si_next (w_snd_info w), si_dsn (w_snd_info w),
      si_una (w_snd_info w), si_rwnd (w_snd_info w)),
     (w_received_vec w, w_received_vec_standby w, test_flag (w_s_flag w) WRITE_LOCAL_FIN_SENT))"

lemma flight_view_ack: "ack_view w' = ack_view w \<Longrightarrow> w_snd_flights w' = w_snd_flights w \<Longrightarrow>
    flight_view w' = flight_view w"
  by (simp add: flight_view_def ack_view_def)

lemma WRITE_flags [simp]:
  "WRITE_SEND_ERROR AND WRITE_LOCAL_FIN_SENT = 0" "WRITE_SEND_ERROR AND WRITE_LOCAL_WRITE_SHUTDOWNED = 0"
  by (simp_all add: WCB_flag_defs)

lemma flight_view_send_error [simp]: "flight_view (set_send_error rt w) = flight_view w"
  by (simp add: set_send_error_def flight_view_def)

lemma set_send_error_same [simp]:
  "w_env (set_send_error rt w) = w_env w" "w_snd_nflight_bytes (set_send_error rt w) = w_snd_nflight_bytes w"
  "tuned (set_send_error rt w) = tuned w"
  by (simp_all add: set_send_error_def tuned_def)

lemma send_pack_env:
  assumes "pack_ok seg (si_dsn (w_snd_info w)) p" "w_remote_addr w \<noteq> 0"
  obtains rt p' env where "send_pack p w = Some (rt, p', w\<lparr> w_env := env \<rparr>)" "sends seg w (w\<lparr> w_env := env \<rparr>)"
    "pack_ok seg (si_dsn (w_snd_info w)) p'" "wp_seq p' = wp_seq p" "pack_total_bytes p' = pack_total_bytes p"
    "h_flag (wp_header p') = h_flag (wp_header p)" "pbytes p' = pbytes p"
proof -
  have l: "data_len (wp_data p) \<le> 1384" using pack_okD(3) [OF assms(1)] by (simp only: data_len_pbytes)
  obtain m p' where s: "send_pack p w = Some (env_send_rt (w_env w) (length (env_sent (w_env w))), p',
       w\<lparr> w_env := (w_env w)\<lparr> env_sent := env_sent (w_env w) @ [(w_remote_addr w, m)] \<rparr> \<rparr>)"
    "p' = p\<lparr> wp_header := (wp_header p)\<lparr> h_ack := ri_next (w_rcv_info w), h_wnd := ri_wnd (w_rcv_info w) \<rparr> \<rparr>"
    "WCPPACK_TO_UDPMESSAGE (wp_header p') (wp_data p') WCP_MTU = Some m"
    by (rule send_pack_ok [OF assms(2) l])
  have ok: "pack_ok seg (si_dsn (w_snd_info w)) p'" using assms(1) by (simp add: s(2))
  obtain m' where "WCPPACK_TO_UDPMESSAGE (wp_header p') (wp_data p') WCP_MTU = Some m'"
    "msg_ok seg (si_dsn (w_snd_info w)) m'" by (rule msg_ok_of_pack [OF ok])
  then have m: "msg_ok seg (si_dsn (w_snd_info w)) m" using s(3) by simp
  show ?thesis
    by (rule that [OF s(1)]) (use m ok in \<open>simp_all add: sends_def s(2) pbytes_def\<close>)
qed

lemma send_pack_flight:
  assumes "pack_ok seg (si_dsn (w_snd_info w)) p" "w_remote_addr w \<noteq> 0"
  obtains rt p' w' where "send_pack p w = Some (rt, p', w')" "sends seg w w'" "flight_view w' = flight_view w"
    "w_snd_nflight_bytes w' = w_snd_nflight_bytes w" "tuned w' = tuned w"
    "pack_ok seg (si_dsn (w_snd_info w)) p'" "wp_seq p' = wp_seq p" "pack_total_bytes p' = pack_total_bytes p"
proof -
  obtain rt p' env where s: "send_pack p w = Some (rt, p', w\<lparr> w_env := env \<rparr>)" "sends seg w (w\<lparr> w_env := env \<rparr>)"
    "pack_ok seg (si_dsn (w_snd_info w)) p'" "wp_seq p' = wp_seq p" "pack_total_bytes p' = pack_total_bytes p"
    by (rule send_pack_env [OF assms])
  show ?thesis by (rule that [OF s(1,2)]) (use s in \<open>simp_all add: flight_view_def tuned_def\<close>)
qed

lemma flights_loop_ok:
  assumes "\<forall>p \<in> set ps. pack_ok seg (si_dsn (w_snd_info w)) p" "w_remote_addr w \<noteq> 0" "tuned w"
    and "flight_bytes ps \<le> unat (w_snd_nflight_bytes w)"
  shows "\<exists>qs w' l' m'. flights_loop now ps w l m = Some (qs, w', l', m') \<and> flight_view w' = flight_view w \<and>
    tuned w' \<and> sends seg w w' \<and> subseq (map wp_seq qs) (map wp_seq ps) \<and>
    (\<forall>q \<in> set qs. pack_ok seg (si_dsn (w_snd_info w)) q) \<and>
    unat (w_snd_nflight_bytes w') + flight_bytes ps = unat (w_snd_nflight_bytes w) + flight_bytes qs \<and>
    w_snd_nflight_bytes w' \<le> w_snd_nflight_bytes w"
  using assms
proof (induction ps arbitrary: w l m)
  case Nil
  then show ?case by simp
next
  case (Cons p ps)
  have pk: "pack_ok seg (si_dsn (w_snd_info w)) p" using Cons.prems(1) by simp
  show ?case
  proof (cases "test_flag (w_wcb_flag w) SND_UNA_UPDATE \<and> wp_seq p < si_una (w_snd_info w)")
    case True
    have le: "unat (pack_total_bytes p) \<le> unat (w_snd_nflight_bytes w)" using Cons.prems(4) by simp
    obtain w1 where w1: "handle_pack_acked p now w = Some w1" "ack_view w1 = ack_view w"
      "w_snd_flights w1 = w_snd_flights w"
      "unat (w_snd_nflight_bytes w1) = unat (w_snd_nflight_bytes w) - unat (pack_total_bytes p)" "tuned w1"
      using handle_pack_acked_ok [OF le, of now] Cons.prems(3) by metis
    have v: "flight_view w1 = flight_view w" by (rule flight_view_ack [OF w1(2,3)])
    have e: "si_dsn (w_snd_info w1) = si_dsn (w_snd_info w)" "w_remote_addr w1 = w_remote_addr w"
      using v by (simp_all add: flight_view_def)
    have sn: "sends seg w w1" using w1(2) by (simp add: sends_def ack_view_def)
    have h: "\<forall>q \<in> set ps. pack_ok seg (si_dsn (w_snd_info w1)) q" "w_remote_addr w1 \<noteq> 0"
      "flight_bytes ps \<le> unat (w_snd_nflight_bytes w1)"
      using Cons.prems(1,2,4) e w1(4) by simp_all
    obtain qs w2 l2 m2 where w2: "flights_loop now ps w1 l m = Some (qs, w2, l2, m2)"
      "flight_view w2 = flight_view w1" "tuned w2" "sends seg w1 w2" "subseq (map wp_seq qs) (map wp_seq ps)"
      "\<forall>q \<in> set qs. pack_ok seg (si_dsn (w_snd_info w)) q"
      "unat (w_snd_nflight_bytes w2) + flight_bytes ps = unat (w_snd_nflight_bytes w1) + flight_bytes qs"
      "w_snd_nflight_bytes w2 \<le> w_snd_nflight_bytes w1"
      using Cons.IH [OF h(1,2) w1(5) h(3), of l m] unfolding e by blast
    have "w_snd_nflight_bytes w1 \<le> w_snd_nflight_bytes w" using w1(4) by (simp add: word_le_unat)
    then show ?thesis
      using True w1(1,4) w2 v sends_trans [OF sn w2(4) e(2,1)] le
      by (auto intro: order_trans)
  next
    case False
    define r where "r = retransmit_reason now p w"
    define l1 where "l1 = (if r = 3 then l + 1 else l)"
    define m1 where "m1 = (if r = 3 \<and> wp_sent_times p > m then wp_sent_times p else m)"
    define w1 where "w1 = (if r = 3 \<and> \<not> test_flag (w_wcb_flag w) SND_LOST_DETECTED \<and> wp_seq p > w_snd_lost_biggest_seq w
                    then w\<lparr> w_snd_lost_biggest_seq := wp_seq p \<rparr> else w)"
    have v: "flight_view w1 = flight_view w" "w_env w1 = w_env w" "tuned w1 = tuned w"
      "w_snd_nflight_bytes w1 = w_snd_nflight_bytes w" "w_snd_info w1 = w_snd_info w"
      by (simp_all add: w1_def flight_view_def tuned_def)
    have rem: "w_remote_addr w1 = w_remote_addr w" using v(1) by (simp add: flight_view_def)
    have step: "flights_loop now (p # ps) w l m =
        (if r > 0
        then do { (sndrt, p, w) \<leftarrow> send_pack p w1;
                  if sndrt \<noteq> OK
                  then Some (p # ps, set_send_error sndrt w, l1, m1)
                  else do {
                    (qs, w, l, m) \<leftarrow> flights_loop now ps w l1 m1;
                    Some (p\<lparr> wp_sent_ts := now, wp_sent_times := wp_sent_times p + 1 \<rparr> # qs, w, l, m) } }
        else do { (qs, w, l, m) \<leftarrow> flights_loop now ps w1 l1 m1;
                  Some (p # qs, w, l, m) })"
      unfolding flights_loop.simps Let_def r_def [symmetric] l1_def [symmetric] m1_def [symmetric]
        w1_def [symmetric] by (rule if_not_P [OF False])
    have sn1: "sends seg w w1" using v(2) by (rule sends_same_env)
    have IH: "\<exists>qs w' l' m'. flights_loop now ps w2 l1 m1 = Some (qs, w', l', m') \<and> flight_view w' = flight_view w \<and>
        tuned w' \<and> sends seg w w' \<and> subseq (map wp_seq qs) (map wp_seq ps) \<and>
        (\<forall>q \<in> set qs. pack_ok seg (si_dsn (w_snd_info w)) q) \<and>
        unat (w_snd_nflight_bytes w') + flight_bytes ps = unat (w_snd_nflight_bytes w) + flight_bytes qs \<and>
        w_snd_nflight_bytes w' \<le> w_snd_nflight_bytes w"
      if "flight_view w2 = flight_view w" "tuned w2" "sends seg w w2" "w_snd_nflight_bytes w2 = w_snd_nflight_bytes w"
      for w2
    proof -
      have e: "si_dsn (w_snd_info w2) = si_dsn (w_snd_info w)" "w_remote_addr w2 = w_remote_addr w"
        using that(1) by (simp_all add: flight_view_def)
      show ?thesis
        using Cons.IH [of w2 l1 m1] Cons.prems that e sends_trans [OF that(3) _ e(2,1)] by auto
    qed
    show ?thesis
    proof (cases "r > 0")
      case False
      have "tuned w1" using v(3) Cons.prems(3) by simp
      from IH [OF v(1) this sn1 v(4)] obtain qs w' l' m' where
        "flights_loop now ps w1 l1 m1 = Some (qs, w', l', m')" "flight_view w' = flight_view w" "tuned w'"
        "sends seg w w'" "subseq (map wp_seq qs) (map wp_seq ps)" "\<forall>q \<in> set qs. pack_ok seg (si_dsn (w_snd_info w)) q"
        "unat (w_snd_nflight_bytes w') + flight_bytes ps = unat (w_snd_nflight_bytes w) + flight_bytes qs"
        "w_snd_nflight_bytes w' \<le> w_snd_nflight_bytes w" by blast
      then show ?thesis using False pk by (simp add: step del: flights_loop.simps)
    next
      case True
      have pk1: "pack_ok seg (si_dsn (w_snd_info w1)) p" and rem1: "w_remote_addr w1 \<noteq> 0"
        using pk v(5) rem Cons.prems(2) by simp_all
      obtain rt p' w2 where s: "send_pack p w1 = Some (rt, p', w2)" "sends seg w1 w2"
        "flight_view w2 = flight_view w1" "w_snd_nflight_bytes w2 = w_snd_nflight_bytes w1" "tuned w2 = tuned w1"
        "pack_ok seg (si_dsn (w_snd_info w)) p'" "wp_seq p' = wp_seq p" "pack_total_bytes p' = pack_total_bytes p"
        by (rule send_pack_flight [OF pk1 rem1]) (simp add: v(5))
      have sn2: "sends seg w w2" by (rule sends_trans [OF sn1 s(2) rem]) (simp add: v(5))
      have v2: "flight_view w2 = flight_view w" "tuned w2" "w_snd_nflight_bytes w2 = w_snd_nflight_bytes w"
        using s v Cons.prems(3) by simp_all
      show ?thesis
      proof (cases "rt = OK")
        case False
        then show ?thesis
          using True s(1,6-8) v2 Cons.prems(1) sn2
          by (simp add: step sends_def del: flights_loop.simps)
      next
        case ok: True
        from IH [OF v2(1,2) sn2 v2(3)] obtain qs w' l' m' where
          "flights_loop now ps w2 l1 m1 = Some (qs, w', l', m')" "flight_view w' = flight_view w" "tuned w'"
          "sends seg w w'" "subseq (map wp_seq qs) (map wp_seq ps)" "\<forall>q \<in> set qs. pack_ok seg (si_dsn (w_snd_info w)) q"
          "unat (w_snd_nflight_bytes w') + flight_bytes ps = unat (w_snd_nflight_bytes w) + flight_bytes qs"
          "w_snd_nflight_bytes w' \<le> w_snd_nflight_bytes w" by blast
        then show ?thesis using True ok s(1,6-8) by (simp add: step del: flights_loop.simps)
      qed
    qed
  qed
qed

text \<open>The sender's view of a connection in the data phase.\<close>

definition snd_inv :: "(u32 \<Rightarrow> bytes) \<Rightarrow> WCB \<Rightarrow> bool" where
  "snd_inv seg w \<longleftrightarrow> w_remote_addr w \<noteq> 0 \<and>
     (\<forall>p \<in> set (w_snd_flights w @ w_snd_sending w @ w_s_sending_standby w). pack_ok seg (si_dsn (w_snd_info w)) p) \<and>
     map wp_seq (w_snd_sending w @ w_s_sending_standby w) =
       map (\<lambda>i. si_next (w_snd_info w) + of_nat i) [0..<length (w_snd_sending w @ w_s_sending_standby w)] \<and>
     unat (si_dsn (w_snd_info w)) =
       unat (si_next (w_snd_info w)) + length (w_snd_sending w @ w_s_sending_standby w) \<and>
     si_una (w_snd_info w) \<le> si_next (w_snd_info w)"

lemma snd_inv_recv:
  assumes "snd_inv seg w" "snd_view w' = snd_view w" "set (w_snd_flights w') \<subseteq> set (w_snd_flights w)"
    "si_una (w_snd_info w') \<le> si_next (w_snd_info w)"
  shows "snd_inv seg w'"
  using assms by (auto simp: snd_inv_def snd_view_def)

lemma unat_half [simp]: "unat (drop_bit (Suc 0) (x :: u32)) = unat x div 2"
  by (simp add: drop_bit_eq_div unat_div)

lemma tuned_lost_rto:
  assumes "WCP_RTO_MIN \<le> r" "r \<le> WCP_RTO_MAX"
  shows "WCP_RTO_MIN \<le> min (drop_bit 1 r + r) WCP_RTO_MAX"
proof -
  have r: "100 \<le> unat r" "unat r \<le> 60000" using assms by (simp_all add: word_le_unat WCP_const_defs)
  then have "unat (drop_bit 1 r + r) = unat r div 2 + unat r"
    by (subst unat_add_nowrap) simp_all
  then have "WCP_RTO_MIN \<le> drop_bit 1 r + r" using r by (simp add: word_le_unat WCP_const_defs)
  then show ?thesis by (simp add: WCP_const_defs)
qed

lemma lost_detected_ok:
  assumes "tuned w" "accounted w"
  obtains w' where "lost_detected now w = Some w'" "tuned w'" "accounted w'" "w_env w' = w_env w"
    "flight_view (w'\<lparr> w_snd_nflight_bytes_max := w_snd_nflight_bytes_max w \<rparr>) = flight_view w"
proof -
  have r: "WCP_RTO_MIN \<le> w_rto w" "WCP_RTO_MIN \<le> min (drop_bit 1 (w_rto w) + w_rto w) WCP_RTO_MAX"
    using assms(1) tuned_lost_rto [of "w_rto w"] unfolding tuned_def by blast+
  have c: "WCP_LW * WCP_MTU \<le> WCP_SND_CWND_MAX" by (simp add: WCP_const_defs)
  have a: "w_snd_nflight_bytes w \<le> w_snd_nflight_bytes_max w"
    "unat (w_snd_nflight_bytes w) = flight_bytes (w_snd_flights w)" "w_snd_nflight_bytes w \<le> WCP_SND_CWND_MAX"
    using assms(2) by (simp_all add: accounted_def)
  have t: "si_cwnd (w_snd_info w) \<le> WCP_SND_CWND_MAX" using assms(1) by (simp add: tuned_def)
  show ?thesis
  proof (cases "w_state w = WCB_ESTABLISHED \<and> now - w_snd_lost_detected_timer w \<ge> ucast (max (w_srtt w) 30)")
    case True
    show ?thesis
      by (rule that, simp add: lost_detected_def Let_def True r(1) a(1))
        (simp_all add: tuned_def r(2) [simplified] c accounted_def a(2,3) flight_view_def)
  next
    case False
    show ?thesis
      by (rule that, simp add: lost_detected_def Let_def False r(1))
        (simp_all add: tuned_def r(2) [simplified] t accounted_def a flight_view_def)
  qed
qed

text \<open>What check_flights() and check_send() leave alone.\<close>

definition tick_view where
  "tick_view w = ((w_state w, w_wcb_option w, w_remote_addr w, test_flag (w_s_flag w) WRITE_LOCAL_FIN_SENT),
     (w_rcv_info w, w_rcv_received w, w_rb w, w_rb_standby w, w_r_flag w),
     (w_received_vec w, w_received_vec_standby w, si_una (w_snd_info w)))"

definition queue_view where
  "queue_view w = (w_snd_sending w, w_s_sending_standby w, w_s_sending_ignore_seq_space w, w_sb w,
     si_next (w_snd_info w), si_dsn (w_snd_info w))"

lemma check_flights_ok:
  assumes est: "est_inv rseg w" and snd: "snd_inv seg w"
  obtains w' where "check_flights now w = Some w'" "est_inv rseg w'" "snd_inv seg w'" "sends seg w w'"
    "tick_view w' = tick_view w" "queue_view w' = queue_view w"
    "subseq (map wp_seq (w_snd_flights w')) (map wp_seq (w_snd_flights w))"
proof (cases "\<not> test_flag (w_wcb_flag w) (SND_UNA_UPDATE OR SND_FAST_RECOVERED OR SND_BIGGEST_SACK_UPDATE)
         \<and> now < w_snd_last_rto_timer w + ucast WCP_RTO_CLOCK_GRANULARITY")
  case True
  then show ?thesis using assms by (intro that [of w]) (simp_all add: check_flights_def)
next
  case False
  define w0 where "w0 = w\<lparr> w_snd_last_rto_timer := now \<rparr>"
  have v0: "flight_view w0 = flight_view w" "w_env w0 = w_env w" "w_snd_nflight_bytes w0 = w_snd_nflight_bytes w"
    "tuned w0" "w_snd_flights w0 = w_snd_flights w" "si_dsn (w_snd_info w0) = si_dsn (w_snd_info w)"
    "w_remote_addr w0 \<noteq> 0"
    using est snd by (simp_all add: w0_def flight_view_def tuned_def est_inv_def snd_inv_def)
  have pk: "\<forall>p \<in> set (w_snd_flights w). pack_ok seg (si_dsn (w_snd_info w0)) p"
    using snd v0(6) by (simp add: snd_inv_def)
  have acc: "unat (w_snd_nflight_bytes w) = flight_bytes (w_snd_flights w)"
    "w_snd_nflight_bytes w \<le> w_snd_nflight_bytes_max w" "w_snd_nflight_bytes w \<le> WCP_SND_CWND_MAX"
    using est by (simp_all add: est_inv_def accounted_def)
  then have "flight_bytes (w_snd_flights w) \<le> unat (w_snd_nflight_bytes w0)" using v0(3) by simp
  from flights_loop_ok [OF pk v0(7,4) this, of now 0 0] obtain qs w1 lc mt where
    l: "flights_loop now (w_snd_flights w) w0 0 0 = Some (qs, w1, lc, mt)" "flight_view w1 = flight_view w0"
      "tuned w1" "sends seg w0 w1" "subseq (map wp_seq qs) (map wp_seq (w_snd_flights w))"
      "\<forall>q \<in> set qs. pack_ok seg (si_dsn (w_snd_info w)) q"
      "unat (w_snd_nflight_bytes w1) + flight_bytes (w_snd_flights w) = unat (w_snd_nflight_bytes w0) + flight_bytes qs"
      "w_snd_nflight_bytes w1 \<le> w_snd_nflight_bytes w0"
    unfolding v0(6) by blast
  define w2 where "w2 = w1\<lparr> w_snd_flights := qs, w_wcb_flag := clear_flag (w_wcb_flag w1)
      (SND_BIGGEST_SACK_UPDATE OR SND_UNA_UPDATE OR SND_FAST_RECOVERED) \<rparr>"
  have v2: "flight_view (w2\<lparr> w_snd_flights := w_snd_flights w \<rparr>) = flight_view w" "w_snd_flights w2 = qs"
    "tuned w2" "w_env w2 = w_env w1"
    using l(2,3) v0(1) by (simp_all add: w2_def flight_view_def tuned_def)
  have acc2: "accounted w2"
    using l(2,7,8) v0(1,3) acc by (auto simp: accounted_def w2_def flight_view_def intro: order_trans)
  have sn2: "sends seg w w2" using l(4) v0(2) v2(4) v0(6) by (simp add: sends_def w0_def)
  define w3 where "w3 = (if lc \<ge> WCP_LOST_THRESHOLD \<or> mt \<ge> 5 then lost_detected now w2 else Some w2)"
  obtain w' where w': "w3 = Some w'" "tuned w'" "accounted w'" "w_env w' = w_env w2"
    "flight_view (w'\<lparr> w_snd_nflight_bytes_max := w_snd_nflight_bytes_max w2 \<rparr>) = flight_view w2"
  proof (cases "lc \<ge> WCP_LOST_THRESHOLD \<or> mt \<ge> 5")
    case True
    then have w3: "w3 = lost_detected now w2" by (simp add: w3_def)
    show ?thesis by (rule lost_detected_ok [OF v2(3) acc2, of now]) (rule that, simp add: w3)
  next
    case False
    then show ?thesis using that v2(3) acc2 by (simp add: w3_def)
  qed
  have "check_flights now w = w3"
    unfolding check_flights_def using False l(1)
    by (simp add: w0_def [symmetric] v0(5) w2_def [symmetric] w3_def Let_def del: de_Morgan_conj)
  moreover have "w_snd_flights w' = qs" using w'(5) v2(2) by (simp add: flight_view_def)
  moreover have "tick_view w' = tick_view w" "queue_view w' = queue_view w"
    using w'(5) v2(1) by (auto simp: flight_view_def tick_view_def queue_view_def)
  moreover have "est_inv rseg w'"
    using est w'(2,3,5) v2(1) by (auto simp: est_inv_def reorder_ok_def ignore_ok_def flight_view_def)
  moreover have "snd_inv seg w'"
    using snd w'(5) v2(1) l(6) \<open>w_snd_flights w' = qs\<close> by (auto simp: snd_inv_def flight_view_def)
  moreover have "sends seg w w'" using sn2 w'(4) by (simp add: sends_def)
  ultimately show ?thesis using w'(1) l(5) by (intro that [of w']) simp_all
qed

section \<open>Packs outside the sequence space\<close>

lemma test_flag_set_wnd [simp]:
  "test_flag (set_flag f WCP_FLAG_WND) WCP_FLAG_SACK = test_flag f WCP_FLAG_SACK"
  "test_flag (set_flag f WCP_FLAG_WND) WCP_FLAG_KEEP_ALIVE = test_flag f WCP_FLAG_KEEP_ALIVE"
  "test_flag (set_flag f WCP_FLAG_WND) WCP_FLAG_KEEP_ALIVE_REPLY = test_flag f WCP_FLAG_KEEP_ALIVE_REPLY"
  by (simp_all add: WCP_FLAG_defs)

definition entry_ok :: "WCB_pack \<Rightarrow> bool" where
  "entry_ok p \<longleftrightarrow> data_len (wp_data p) \<le> 1384 \<and>
     (test_flag (h_flag (wp_header p)) WCP_FLAG_SACK \<longrightarrow> data_len (wp_data p) \<noteq> 0 \<and> 4 dvd data_len (wp_data p)) \<and>
     (test_flag (h_flag (wp_header p)) WCP_FLAG_SACK \<or> test_flag (h_flag (wp_header p)) WCP_FLAG_KEEP_ALIVE \<or>
      test_flag (h_flag (wp_header p)) WCP_FLAG_KEEP_ALIVE_REPLY)"

lemma ignore_entries:
  "ignore_ok w \<and> ignore_clean w \<longleftrightarrow> (\<forall>e \<in> set (w_s_sending_ignore_seq_space w). entry_ok (fst e))"
  by (auto simp: ignore_ok_def ignore_clean_def entry_ok_def)

text \<open>Everything but the datagrams sent, the error members and the queue itself.\<close>

definition ctl_view where
  "ctl_view w = ((w_state w, w_wcb_option w, w_remote_addr w, test_flag (w_s_flag w) WRITE_LOCAL_FIN_SENT),
     (w_rcv_info w, w_rcv_received w, w_rb w, w_rb_standby w, w_r_flag w, w_sb w, w_snd_sacked_pack_tmp w),
     (w_snd_sending w, w_s_sending_standby w, w_snd_flights w, w_snd_nflight_bytes w, w_snd_nflight_bytes_max w),
     (w_snd_info w, w_rto w, w_received_vec w, w_received_vec_standby w))"

lemma ctl_view_send_error [simp]: "ctl_view (set_send_error rt w) = ctl_view w"
  by (simp add: set_send_error_def ctl_view_def)

lemma send_slots_ok:
  assumes "entry_ok p" "w_remote_addr w \<noteq> 0"
  shows "\<exists>n' p' ok w'. send_slots n p w = Some (n', p', ok, w') \<and> entry_ok p' \<and> ctl_view w' = ctl_view w \<and>
    sends seg w w' \<and> (ok \<longrightarrow> n' = 0 \<and> w_s_flag w' = w_s_flag w \<and> w_wcb_errno w' = w_wcb_errno w)"
  using assms
proof (induction n arbitrary: p w)
  case 0
  then show ?case by auto
next
  case (Suc n)
  have l: "data_len (wp_data p) \<le> 1384" using Suc.prems(1) by (simp add: entry_ok_def)
  obtain m p1 where s: "send_pack p w = Some (env_send_rt (w_env w) (length (env_sent (w_env w))), p1,
       w\<lparr> w_env := (w_env w)\<lparr> env_sent := env_sent (w_env w) @ [(w_remote_addr w, m)] \<rparr> \<rparr>)"
    "p1 = p\<lparr> wp_header := (wp_header p)\<lparr> h_ack := ri_next (w_rcv_info w), h_wnd := ri_wnd (w_rcv_info w) \<rparr> \<rparr>"
    "WCPPACK_TO_UDPMESSAGE (wp_header p1) (wp_data p1) WCP_MTU = Some m"
    by (rule send_pack_ok [OF Suc.prems(2) l])
  define w1 where "w1 = w\<lparr> w_env := (w_env w)\<lparr> env_sent := env_sent (w_env w) @ [(w_remote_addr w, m)] \<rparr> \<rparr>"
  have e1: "entry_ok p1" using Suc.prems(1) by (simp add: s(2) entry_ok_def)
  have "msg_ok seg (si_dsn (w_snd_info w)) m"
    by (rule msg_ok_of_ignore [OF _ _ _ s(3)]) (use e1 in \<open>simp_all add: entry_ok_def\<close>)
  then have sn: "sends seg w w1" by (simp add: sends_def w1_def)
  have v: "ctl_view w1 = ctl_view w" "w_remote_addr w1 = w_remote_addr w" "w_s_flag w1 = w_s_flag w"
    "w_wcb_errno w1 = w_wcb_errno w" "si_dsn (w_snd_info w1) = si_dsn (w_snd_info w)"
    by (simp_all add: w1_def ctl_view_def)
  show ?case
  proof (cases "env_send_rt (w_env w) (length (env_sent (w_env w))) = OK")
    case False
    have "sends seg w (set_send_error rt w1)" for rt using sn by (simp add: sends_def)
    then show ?thesis using False s(1) e1 v(1) by (auto simp: w1_def [symmetric])
  next
    case True
    have "w_remote_addr w1 \<noteq> 0" using v(2) Suc.prems(2) by simp
    from Suc.IH [OF e1 this] obtain n' p' ok w' where "send_slots n p1 w1 = Some (n', p', ok, w')" "entry_ok p'"
      "ctl_view w' = ctl_view w1" "sends seg w1 w'"
      "ok \<longrightarrow> n' = 0 \<and> w_s_flag w' = w_s_flag w1 \<and> w_wcb_errno w' = w_wcb_errno w1" by blast
    then show ?thesis
      using True s(1) v sends_trans [OF sn _ v(2,5)] by (simp add: w1_def [symmetric])
  qed
qed

lemma send_ignore_ok:
  assumes "\<forall>e \<in> set es. entry_ok (fst e)" "w_remote_addr w \<noteq> 0"
  shows "\<exists>es' ok w'. send_ignore es w = Some (es', ok, w') \<and> (\<forall>e \<in> set es'. entry_ok (fst e)) \<and>
    ctl_view w' = ctl_view w \<and> sends seg w w' \<and>
    (ok \<longrightarrow> es' = [] \<and> w_s_flag w' = w_s_flag w \<and> w_wcb_errno w' = w_wcb_errno w)"
  using assms
proof (induction es arbitrary: w)
  case Nil
  then show ?case by auto
next
  case (Cons e es)
  obtain p n where e: "e = (p, n)" by (cases e)
  have "entry_ok p" using Cons.prems(1) e by simp
  from send_slots_ok [OF this Cons.prems(2), of n seg] obtain n' p' ok w1 where
    s: "send_slots n p w = Some (n', p', ok, w1)" "entry_ok p'" "ctl_view w1 = ctl_view w" "sends seg w w1"
      "ok \<longrightarrow> n' = 0 \<and> w_s_flag w1 = w_s_flag w \<and> w_wcb_errno w1 = w_wcb_errno w" by blast
  have v: "w_remote_addr w1 = w_remote_addr w" "si_dsn (w_snd_info w1) = si_dsn (w_snd_info w)"
    using s(3) by (simp_all add: ctl_view_def)
  show ?case
  proof (cases ok)
    case False
    then show ?thesis using s Cons.prems(1) e by auto
  next
    case True
    have "\<forall>e \<in> set es. entry_ok (fst e)" "w_remote_addr w1 \<noteq> 0" using Cons.prems v by simp_all
    from Cons.IH [OF this] obtain es' ok' w' where "send_ignore es w1 = Some (es', ok', w')"
      "\<forall>e \<in> set es'. entry_ok (fst e)" "ctl_view w' = ctl_view w1" "sends seg w1 w'"
      "ok' \<longrightarrow> es' = [] \<and> w_s_flag w' = w_s_flag w1 \<and> w_wcb_errno w' = w_wcb_errno w1" by blast
    then show ?thesis using True s e sends_trans [OF s(4) _ v] by simp
  qed
qed

section \<open>Queued packs\<close>

definition send_view where
  "send_view w = ((w_state w, w_wcb_option w, w_remote_addr w, test_flag (w_s_flag w) WRITE_LOCAL_FIN_SENT),
     (w_rcv_info w, w_rcv_received w, w_rb w, w_rb_standby w, w_r_flag w, w_sb w, w_snd_sacked_pack_tmp w),
     (w_snd_sending w, w_s_sending_standby w, w_s_sending_ignore_seq_space w),
     (si_dsn (w_snd_info w), si_una (w_snd_info w), si_cwnd (w_snd_info w), si_rwnd (w_snd_info w)),
     (w_rto w, w_received_vec w, w_received_vec_standby w))"

lemma send_view_send_error [simp]: "send_view (set_send_error rt w) = send_view w"
  by (simp add: set_send_error_def send_view_def)

lemma send_view_put_in_flight [simp]: "send_view (put_in_flight now p w) = send_view w"
  by (simp add: put_in_flight_def send_view_def Let_def)

lemma not_congested:
  assumes "pack_ok seg dsn p" "accounted w" "tuned w" "\<not> congested p w"
  shows "unat (pack_total_bytes p + w_snd_nflight_bytes w) = unat (pack_total_bytes p) + unat (w_snd_nflight_bytes w)"
    "pack_total_bytes p + w_snd_nflight_bytes w < si_cwnd (w_snd_info w)"
    "pack_total_bytes p + w_snd_nflight_bytes w < si_rwnd (w_snd_info w)"
proof -
  have "unat (pack_total_bytes p) \<le> 1400" using pack_total_nat [OF assms(1)] pack_okD(3) [OF assms(1)] by simp
  moreover have "unat (w_snd_nflight_bytes w) \<le> 8388608"
    using assms(2) by (simp add: accounted_def word_le_unat WCP_const_defs)
  ultimately show "unat (pack_total_bytes p + w_snd_nflight_bytes w) =
      unat (pack_total_bytes p) + unat (w_snd_nflight_bytes w)" by (intro unat_add_nowrap) simp
qed (use assms(4) in \<open>simp_all add: congested_def not_le\<close>)

lemma accounted_put_in_flight:
  assumes "pack_ok seg dsn p" "accounted w" "tuned w" "\<not> congested p w"
  shows "accounted (put_in_flight now p w)" "tuned (put_in_flight now p w)"
    "w_snd_nflight_bytes (put_in_flight now p w) < min (si_cwnd (w_snd_info w)) (si_rwnd (w_snd_info w))"
proof -
  note n = not_congested [OF assms]
  have c: "si_cwnd (w_snd_info w) \<le> WCP_SND_CWND_MAX" using assms(3) by (simp add: tuned_def)
  show "tuned (put_in_flight now p w)" using assms(3) by (simp add: put_in_flight_def tuned_def Let_def)
  show "w_snd_nflight_bytes (put_in_flight now p w) < min (si_cwnd (w_snd_info w)) (si_rwnd (w_snd_info w))"
    using n by (simp add: put_in_flight_def Let_def add.commute)
  show "accounted (put_in_flight now p w)"
    using n c assms(2) by (auto simp: put_in_flight_def accounted_def Let_def add.commute not_less)
qed

lemma consecutive_tail:
  assumes "map wp_seq (p # ps) = map (\<lambda>i. n + of_nat i) [0..<length (p # ps)]"
  shows "wp_seq p = (n :: u32)" "map wp_seq ps = map (\<lambda>i. (n + 1) + of_nat i) [0..<length ps]"
proof -
  have "[0..<length (p # ps)] = 0 # map Suc [0..<length ps]"
    by (simp add: map_Suc_upt upt_conv_Cons del: upt_Suc)
  then have "wp_seq p # map wp_seq ps = n # map (\<lambda>i. (n + 1) + of_nat i) [0..<length ps]"
    using assms by (simp add: comp_def add.assoc del: upt_Suc)
  then show "wp_seq p = n" "map wp_seq ps = map (\<lambda>i. (n + 1) + of_nat i) [0..<length ps]" by simp_all
qed

lemma send_sending_ok:
  assumes "\<forall>p \<in> set ps. pack_ok seg (si_dsn (w_snd_info w)) p" "w_remote_addr w \<noteq> 0"
    and "accounted w" "tuned w" "w_state w = WCB_ESTABLISHED"
    and "map wp_seq ps = map (\<lambda>i. si_next (w_snd_info w) + of_nat i) [0..<length ps]"
    and "unat (si_next (w_snd_info w)) + length ps < 2 ^ 32" "si_una (w_snd_info w) \<le> si_next (w_snd_info w)"
  shows "\<exists>r rest w' new k. send_sending now ps w = Some (r, rest, w') \<and> r \<noteq> Send_break \<and>
    (r = Send_done \<longrightarrow> rest = []) \<and> k \<le> length ps \<and> map wp_seq rest = drop k (map wp_seq ps) \<and>
    (\<forall>p \<in> set rest. pack_ok seg (si_dsn (w_snd_info w)) p) \<and>
    w_snd_flights w' = w_snd_flights w @ new \<and> map wp_seq new = take k (map wp_seq ps) \<and>
    (\<forall>p \<in> set new. pack_ok seg (si_dsn (w_snd_info w)) p) \<and>
    send_view w' = send_view w \<and> sends seg w w' \<and> accounted w' \<and> tuned w' \<and>
    unat (si_next (w_snd_info w')) = unat (si_next (w_snd_info w)) + k \<and>
    si_next (w_snd_info w') = si_next (w_snd_info w) + of_nat k \<and>
    (k > 0 \<longrightarrow> w_snd_nflight_bytes w' < min (si_cwnd (w_snd_info w)) (si_rwnd (w_snd_info w)))"
  using assms
proof (induction ps arbitrary: w)
  case Nil
  then show ?case by (auto intro!: exI [of _ Send_done])
next
  case (Cons p ps)
  have pk: "pack_ok seg (si_dsn (w_snd_info w)) p" using Cons.prems(1) by simp
  note sq = consecutive_tail [OF Cons.prems(6)]
  show ?case
  proof (cases "congested p w")
    case True
    then show ?thesis
      using Cons.prems
      by (intro exI [of _ Send_return] exI [of _ "p # ps"] exI [of _ w] exI [of _ "[]"] exI [of _ 0]) simp
  next
    case False
    obtain rt p' env where s: "send_pack p w = Some (rt, p', w\<lparr> w_env := env \<rparr>)" "sends seg w (w\<lparr> w_env := env \<rparr>)"
      "pack_ok seg (si_dsn (w_snd_info w)) p'" "wp_seq p' = wp_seq p" "pack_total_bytes p' = pack_total_bytes p"
      "h_flag (wp_header p') = h_flag (wp_header p)"
      by (rule send_pack_env [OF pk Cons.prems(2)])
    define w1 where "w1 = w\<lparr> w_env := env \<rparr>"
    have v1: "send_view w1 = send_view w" "accounted w1" "tuned w1" "w_snd_info w1 = w_snd_info w"
      "w_snd_flights w1 = w_snd_flights w" "congested p' w1 = congested p w"
      using Cons.prems(3,4) s(5) by (simp_all add: w1_def send_view_def accounted_def tuned_def congested_def)
    have seq: "wp_seq p = si_next (w_snd_info w)" "si_una (w_snd_info w) \<le> wp_seq p"
      using sq(1) Cons.prems(8) by simp_all
    have fl: "\<not> test_flag (h_flag (wp_header p)) (WCP_FLAG_SACK OR WCP_FLAG_KEEP_ALIVE OR WCP_FLAG_KEEP_ALIVE_REPLY)"
      "\<not> test_flag (h_flag (wp_header p)) WCP_FLAG_FIN" "\<not> test_flag (h_flag (wp_header p)) WCP_FLAG_SYN"
      using pack_okD(5) [OF pk] by (simp_all add: clean_flags_def test_flag_or)
    show ?thesis
    proof (cases "rt = OK")
      case rt: False
      have "send_sending now (p # ps) w = Some (Send_return, p' # ps, set_send_error rt w1)"
        using False seq s(1) rt by (simp add: w1_def)
      moreover have "sends seg w (set_send_error rt w1)" "accounted (set_send_error rt w1)"
        "w_snd_info (set_send_error rt w1) = w_snd_info w" "w_snd_flights (set_send_error rt w1) = w_snd_flights w"
        using s(2) v1 by (simp_all add: w1_def sends_def set_send_error_def accounted_def)
      ultimately show ?thesis
        using v1 s(3,4) Cons.prems(1)
        by (intro exI [of _ Send_return] exI [of _ "p' # ps"] exI [of _ "set_send_error rt w1"] exI [of _ "[]"]
            exI [of _ 0]) simp
    next
      case True
      define w2 where "w2 = put_in_flight now p' w1"
      have step: "send_sending now (p # ps) w = send_sending now ps w2"
        using False seq s(1,6) fl True by (simp add: w1_def [symmetric] w2_def)
      have nc: "\<not> congested p' w1" using False v1(6) by simp
      note pf = accounted_put_in_flight [OF s(3) v1(2,3) nc, of now, folded w2_def]
      have v2: "send_view w2 = send_view w" using v1(1) by (simp add: w2_def)
      have e2: "si_dsn (w_snd_info w2) = si_dsn (w_snd_info w)" "w_remote_addr w2 = w_remote_addr w"
        "w_state w2 = WCB_ESTABLISHED" "si_una (w_snd_info w2) = si_una (w_snd_info w)"
        "si_cwnd (w_snd_info w2) = si_cwnd (w_snd_info w)" "si_rwnd (w_snd_info w2) = si_rwnd (w_snd_info w)"
        using v2 Cons.prems(5) by (simp_all add: send_view_def)
      have nx: "si_next (w_snd_info w2) = si_next (w_snd_info w) + 1"
        by (simp add: w2_def put_in_flight_def Let_def v1(4))
      have un: "unat (si_next (w_snd_info w2)) = unat (si_next (w_snd_info w)) + 1"
        unfolding nx using Cons.prems(7) by (subst unat_add_nowrap) simp_all
      have sn: "sends seg w w2" using s(2) by (simp add: w2_def w1_def put_in_flight_def sends_def Let_def)
      have prems2: "\<forall>p \<in> set ps. pack_ok seg (si_dsn (w_snd_info w2)) p" "w_remote_addr w2 \<noteq> 0"
        "map wp_seq ps = map (\<lambda>i. si_next (w_snd_info w2) + of_nat i) [0..<length ps]"
        "unat (si_next (w_snd_info w2)) + length ps < 2 ^ 32" "si_una (w_snd_info w2) \<le> si_next (w_snd_info w2)"
        using Cons.prems(1,2,7,8) e2 sq(2) nx un by (simp_all add: word_le_unat)
      from Cons.IH [OF prems2(1,2) pf(1,2) e2(3) prems2(3-5)] obtain r rest w' new k where
        ih: "send_sending now ps w2 = Some (r, rest, w')" "r \<noteq> Send_break" "r = Send_done \<longrightarrow> rest = []"
          "k \<le> length ps" "map wp_seq rest = drop k (map wp_seq ps)"
          "\<forall>p \<in> set rest. pack_ok seg (si_dsn (w_snd_info w)) p" "w_snd_flights w' = w_snd_flights w2 @ new"
          "map wp_seq new = take k (map wp_seq ps)" "\<forall>p \<in> set new. pack_ok seg (si_dsn (w_snd_info w)) p"
          "send_view w' = send_view w2" "sends seg w2 w'" "accounted w'" "tuned w'"
          "unat (si_next (w_snd_info w')) = unat (si_next (w_snd_info w2)) + k"
          "si_next (w_snd_info w') = si_next (w_snd_info w2) + of_nat k"
          "k > 0 \<longrightarrow> w_snd_nflight_bytes w' < min (si_cwnd (w_snd_info w)) (si_rwnd (w_snd_info w))"
        unfolding e2 by blast
      let ?q = "p'\<lparr> wp_sent_ts := now, wp_sent_times := 1 \<rparr>"
      have fl2: "w_snd_flights w2 = w_snd_flights w @ [?q]"
        using v1(5) by (simp add: w2_def put_in_flight_def Let_def)
      have z: "k = 0 \<Longrightarrow> w_snd_nflight_bytes w' = w_snd_nflight_bytes w2"
        using ih(7,8,12) pf(1) by (simp add: accounted_def word_eq_unat)
      have "w_snd_nflight_bytes w' < min (si_cwnd (w_snd_info w)) (si_rwnd (w_snd_info w))"
        using ih(16) z pf(3) v1(4) by (cases "k = 0") simp_all
      then show ?thesis
        using step ih fl2 s(3,4) v2 nx un sends_trans [OF sn ih(11) e2(2,1)]
        by (intro exI [of _ r] exI [of _ rest] exI [of _ w'] exI [of _ "?q # new"] exI [of _ "Suc k"]) simp
    qed
  qed
qed

section \<open>Cutting the send buffer into packs\<close>

fun mk_packs :: "u32 \<Rightarrow> bytes list \<Rightarrow> WCB_pack list" where
  "mk_packs n [] = []"
| "mk_packs n (d # ds) = new_pack n (WCP_FLAG_DAT OR WCP_FLAG_ACK) (Some d) # mk_packs (n + 1) ds"

text \<open>The sender's stream after the chunks \<open>ds\<close> took the numbers from \<open>dsn\<close> on.\<close>

definition seg_ext :: "(u32 \<Rightarrow> bytes) \<Rightarrow> u32 \<Rightarrow> bytes list \<Rightarrow> u32 \<Rightarrow> bytes" where
  "seg_ext seg dsn ds s =
     (if dsn \<le> s \<and> unat s < unat dsn + length ds then ds ! (unat s - unat dsn) else seg s)"

lemma seg_ext_old: "s < dsn \<Longrightarrow> seg_ext seg dsn ds s = seg s"
  by (auto simp: seg_ext_def)

lemma length_mk_packs [simp]: "length (mk_packs n ds) = length ds"
  by (induction ds arbitrary: n) auto

lemma seqs_mk_packs: "map wp_seq (mk_packs n ds) = map (\<lambda>i. n + of_nat i) [0..<length ds]"
proof (induction ds arbitrary: n)
  case Nil
  then show ?case by simp
next
  case (Cons d ds)
  have "[0..<length (d # ds)] = 0 # map Suc [0..<length ds]"
    by (simp add: map_Suc_upt upt_conv_Cons del: upt_Suc)
  then show ?case
    using Cons [of "n + 1"] by (simp add: comp_def add.assoc new_pack_def del: upt_Suc)
qed

lemma pack_ok_mk_packs:
  assumes "\<forall>d \<in> set ds. length d \<le> 1384" "unat dsn + length ds < 2 ^ 32"
  shows "\<forall>p \<in> set (mk_packs dsn ds). pack_ok (seg_ext seg dsn ds) (dsn + of_nat (length ds)) p"
proof
  let ?f = "WCP_FLAG_DAT OR WCP_FLAG_ACK"
  fix p assume "p \<in> set (mk_packs dsn ds)"
  then obtain i where i: "i < length ds" "p = mk_packs dsn ds ! i" by (auto simp: in_set_conv_nth)
  have nth: "mk_packs n ds ! i = new_pack (n + of_nat i) ?f (Some (ds ! i))" if "i < length ds" for n ds i
    using that by (induction ds arbitrary: n i) (auto simp: nth_Cons add.assoc split: nat.splits)
  have p: "p = new_pack (dsn + of_nat i) ?f (Some (ds ! i))" using nth i by simp
  have u: "unat (dsn + of_nat i) = unat dsn + i" "unat (dsn + of_nat (length ds)) = unat dsn + length ds"
  proof -
    have "unat (of_nat i :: u32) = i" "unat (of_nat (length ds) :: u32) = length ds"
      using assms(2) i(1) by (auto intro!: unat_of_nat_nowrap)
    then show "unat (dsn + of_nat i) = unat dsn + i" "unat (dsn + of_nat (length ds)) = unat dsn + length ds"
      using assms(2) i(1) by (simp_all add: unat_add_nowrap)
  qed
  have l: "length (ds ! i) \<le> 1384" using assms(1) i(1) by simp
  have m: "(of_nat (length (ds ! i)) AND 0xFFFF :: u16) = of_nat (length (ds ! i))"
    by (rule bit_word_eqI) (simp add: mask16 bit_and_mask_low del: mask_numeral)
  have "unat (of_nat (length (ds ! i)) :: u16) = length (ds ! i)" using l by (intro unat_of_nat_nowrap) simp
  then show "pack_ok (seg_ext seg dsn ds) (dsn + of_nat (length ds)) p"
    using u l i(1) unfolding p pack_ok_def
    by (simp add: new_pack_def pbytes_def m word_to_nat seg_ext_def)
      (simp add: clean_flags_def test_flag_def WCP_FLAG_defs)
qed

definition fill_view where
  "fill_view w = ((w_state w, w_wcb_option w, w_remote_addr w, w_s_flag w, w_env w),
     (w_rcv_info w, w_rcv_received w, w_rb w, w_rb_standby w, w_r_flag w, w_snd_sacked_pack_tmp w),
     (w_s_sending_standby w, w_s_sending_ignore_seq_space w, w_snd_flights w, w_snd_nflight_bytes w, w_snd_nflight_bytes_max w),
     (si_next (w_snd_info w), si_una (w_snd_info w), si_cwnd (w_snd_info w), si_rwnd (w_snd_info w)),
     (w_rto w, w_received_vec w, w_received_vec_standby w))"

lemma send_fill_ok:
  assumes "rb_inv (w_sb w)" "length (rb_list (w_sb w)) \<le> fuel"
  shows "\<exists>ds w'. send_fill fuel n w = Some w' \<and> fill_view w' = fill_view w \<and> rb_inv (w_sb w') \<and>
    w_snd_sending w' = w_snd_sending w @ mk_packs (si_dsn (w_snd_info w)) ds \<and>
    si_dsn (w_snd_info w') = si_dsn (w_snd_info w) + of_nat (length ds) \<and>
    (\<forall>d \<in> set ds. d \<noteq> [] \<and> length d \<le> 1384) \<and> rb_list (w_sb w) = concat ds @ rb_list (w_sb w')"
  using assms
proof (induction fuel arbitrary: n w)
  case 0
  then have "rb_count (w_sb w) = 0" using rb_count_list [of "w_sb w"] by (simp add: word_eq_unat)
  then show ?case
    using 0 by (intro exI [of _ "[]"] exI [of _ w]) (simp add: send_fill.simps)
next
  case (Suc fuel)
  show ?case
  proof (cases "rb_count (w_sb w) > 0 \<and> n > 0")
    case False
    then show ?thesis
      using Suc.prems by (intro exI [of _ "[]"] exI [of _ w]) (auto simp: send_fill.simps)
  next
    case True
    obtain sb c where r: "rb_read (w_sb w) WCP_MDU True = Some (c, take 1384 (rb_list (w_sb w)), sb)" "rb_inv sb"
      "rb_list sb = drop 1384 (rb_list (w_sb w))"
      by (rule rb_read_ok [OF Suc.prems(1), of WCP_MDU True]) simp
    have ne: "rb_list (w_sb w) \<noteq> []"
      using True rb_count_list [OF Suc.prems(1)] by (auto simp: word_less_unat)
    define d where "d = take 1384 (rb_list (w_sb w))"
    define w1 where "w1 = w\<lparr> w_sb := sb, w_snd_sending := w_snd_sending w @
        [new_pack (si_dsn (w_snd_info w)) (WCP_FLAG_DAT OR WCP_FLAG_ACK) (Some d)],
        w_snd_info := (w_snd_info w)\<lparr> si_dsn := si_dsn (w_snd_info w) + 1 \<rparr> \<rparr>"
    have step: "send_fill (Suc fuel) n w = send_fill fuel (n - c) w1"
      using True r(1) by (simp add: send_fill.simps [of "Suc fuel" n w] w1_def d_def Let_def)
    have "length (rb_list sb) \<le> fuel" using Suc.prems(2) ne r(3) by (cases "rb_list (w_sb w)") simp_all
    then obtain ds w' where ih: "send_fill fuel (n - c) w1 = Some w'" "fill_view w' = fill_view w1" "rb_inv (w_sb w')"
      "w_snd_sending w' = w_snd_sending w1 @ mk_packs (si_dsn (w_snd_info w1)) ds"
      "si_dsn (w_snd_info w') = si_dsn (w_snd_info w1) + of_nat (length ds)"
      "\<forall>d \<in> set ds. d \<noteq> [] \<and> length d \<le> 1384" "rb_list (w_sb w1) = concat ds @ rb_list (w_sb w')"
      using Suc.IH [of w1 "n - c"] r(2) by (auto simp: w1_def)
    have "d \<noteq> []" "length d \<le> 1384" using ne by (simp_all add: d_def)
    moreover have "rb_list (w_sb w) = d @ rb_list sb" using r(3) by (simp add: d_def)
    moreover have "fill_view w1 = fill_view w" by (simp add: w1_def fill_view_def)
    ultimately show ?thesis
      using step ih
      by (intro exI [of _ "d # ds"] exI [of _ w']) (simp add: w1_def)
  qed
qed

section \<open>The passes of check\_send\<close>

text \<open>Everything the application ever wrote: what has a sequence number, then what is still buffered.\<close>

definition sender_stream :: "(u32 \<Rightarrow> bytes) \<Rightarrow> WCB \<Rightarrow> bytes" where
  "sender_stream seg w =
     concat (map (\<lambda>i. seg (of_nat i)) [0..<unat (si_dsn (w_snd_info w))]) @ rb_list (w_sb w)"

definition sent_ok :: "(u32 \<Rightarrow> bytes) \<Rightarrow> WCB \<Rightarrow> bool" where
  "sent_ok seg w \<longleftrightarrow> (\<forall>am \<in> set (env_sent (w_env w)). msg_ok seg (si_dsn (w_snd_info w)) (snd am))"

lemma sent_ok_sends:
  "sent_ok seg w \<Longrightarrow> sends seg w w' \<Longrightarrow> si_dsn (w_snd_info w') = si_dsn (w_snd_info w) \<Longrightarrow> sent_ok seg w'"
  unfolding sent_ok_def sends_def by (elim conjE exE) (simp add: ball_Un)

text \<open>The step from \<open>w\<close> to \<open>w'\<close> keeps the sender's promises, \<open>seg'\<close> extending \<open>seg\<close>.\<close>

definition send_step :: "(u32 \<Rightarrow> bytes) \<Rightarrow> WCB \<Rightarrow> (u32 \<Rightarrow> bytes) \<Rightarrow> WCB \<Rightarrow> bool" where
  "send_step seg w seg' w' \<longleftrightarrow> snd_inv seg' w' \<and> (\<forall>s < si_dsn (w_snd_info w). seg' s = seg s) \<and>
     si_dsn (w_snd_info w) \<le> si_dsn (w_snd_info w') \<and> si_next (w_snd_info w) \<le> si_next (w_snd_info w') \<and>
     sender_stream seg' w' = sender_stream seg w \<and>
     unat (si_dsn (w_snd_info w')) + length (rb_list (w_sb w')) \<le> unat (si_dsn (w_snd_info w)) + length (rb_list (w_sb w)) \<and>
     (sent_ok seg w \<longrightarrow> sent_ok seg' w') \<and> tick_view w' = tick_view w \<and>
     si_cwnd (w_snd_info w') = si_cwnd (w_snd_info w) \<and> si_rwnd (w_snd_info w') = si_rwnd (w_snd_info w) \<and>
     w_s_sending_ignore_seq_space w' = w_s_sending_ignore_seq_space w \<and>
     (si_next (w_snd_info w') \<noteq> si_next (w_snd_info w) \<longrightarrow>
        w_snd_nflight_bytes w' < min (si_cwnd (w_snd_info w)) (si_rwnd (w_snd_info w)))"

lemma sender_stream_ext:
  assumes "unat dsn + length ds < 2 ^ 32" "si_dsn (w_snd_info w) = dsn"
    "si_dsn (w_snd_info w') = dsn + of_nat (length ds)" "rb_list (w_sb w) = concat ds @ rb_list (w_sb w')"
  shows "sender_stream (seg_ext seg dsn ds) w' = sender_stream seg w"
proof -
  have l: "unat (of_nat (length ds) :: u32) = length ds" using assms(1) by (intro unat_of_nat_nowrap) simp
  then have n: "unat (dsn + of_nat (length ds)) = unat dsn + length ds"
    using assms(1) by (simp add: unat_add_nowrap)
  have i: "unat (of_nat i :: u32) = i" if "i < unat dsn + length ds" for i
    using that assms(1) by (intro unat_of_nat_nowrap) simp
  have old: "map (\<lambda>i. seg_ext seg dsn ds (of_nat i)) [0..<unat dsn] = map (\<lambda>i. seg (of_nat i)) [0..<unat dsn]"
    using i by (auto intro!: seg_ext_old simp: word_less_unat)
  have new: "map (\<lambda>i. seg_ext seg dsn ds (of_nat i)) [unat dsn..<unat dsn + length ds] = ds"
  proof (rule nth_equalityI)
    fix j assume "j < length (map (\<lambda>i. seg_ext seg dsn ds (of_nat i)) [unat dsn..<unat dsn + length ds])"
    then have j: "j < length ds" by simp
    then have u: "unat (of_nat (unat dsn + j) :: u32) = unat dsn + j" by (intro i) simp
    show "map (\<lambda>i. seg_ext seg dsn ds (of_nat i)) [unat dsn..<unat dsn + length ds] ! j = ds ! j"
      using j u by (simp add: seg_ext_def word_le_unat)
  qed simp
  show ?thesis
    by (simp add: sender_stream_def upt_add_eq_append [of 0 "unat dsn" "length ds"] old new assms(2-4) n del: map_eq_conv)
qed

lemma send_drain:
  assumes est: "est_inv rseg w" and snd: "snd_inv seg w"
    and dsn: "unat (si_dsn (w_snd_info w)) + length (rb_list (w_sb w)) < 2 ^ 32"
  obtains r rest w1 where "send_sending now (w_snd_sending w) w = Some (r, rest, w1)" "r \<noteq> Send_break"
    "r = Send_done \<longrightarrow> rest = []" "est_inv rseg (w1\<lparr> w_snd_sending := rest \<rparr>)"
    "send_step seg w seg (w1\<lparr> w_snd_sending := rest \<rparr>)" "w_sb w1 = w_sb w"
    "w_s_sending_standby w1 = w_s_sending_standby w" "si_dsn (w_snd_info w1) = si_dsn (w_snd_info w)"
    "si_next (w_snd_info w1) = si_next (w_snd_info w) \<longrightarrow> w_snd_nflight_bytes w1 = w_snd_nflight_bytes w"
proof -
  let ?n = "length (w_snd_sending w)" and ?next = "si_next (w_snd_info w)"
  have d: "unat (si_dsn (w_snd_info w)) = unat ?next + (?n + length (w_s_sending_standby w))"
    using snd by (simp add: snd_inv_def)
  have sq: "map wp_seq (w_snd_sending w) @ map wp_seq (w_s_sending_standby w) =
      map (\<lambda>i. ?next + of_nat i) [0..<?n + length (w_s_sending_standby w)]"
    using snd by (simp add: snd_inv_def)
  then have "map wp_seq (w_snd_sending w) = take ?n (map (\<lambda>i. ?next + of_nat i) [0..<?n + length (w_s_sending_standby w)])"
    by (metis append_eq_conv_conj length_map)
  then have sq1: "map wp_seq (w_snd_sending w) = map (\<lambda>i. ?next + of_nat i) [0..<?n]"
    by (simp add: take_map)
  have pre: "\<forall>p \<in> set (w_snd_sending w). pack_ok seg (si_dsn (w_snd_info w)) p" "w_remote_addr w \<noteq> 0"
    "unat ?next + ?n < 2 ^ 32" "si_una (w_snd_info w) \<le> ?next"
    using snd d dsn by (simp_all add: snd_inv_def)
  have e: "accounted w" "tuned w" "w_state w = WCB_ESTABLISHED" using est by (simp_all add: est_inv_def)
  from send_sending_ok [OF pre(1,2) e sq1 pre(3,4), of now] obtain r rest w1 new k where
    s: "send_sending now (w_snd_sending w) w = Some (r, rest, w1)" "r \<noteq> Send_break" "r = Send_done \<longrightarrow> rest = []"
      "k \<le> ?n" "map wp_seq rest = drop k (map wp_seq (w_snd_sending w))"
      "\<forall>p \<in> set rest. pack_ok seg (si_dsn (w_snd_info w)) p" "w_snd_flights w1 = w_snd_flights w @ new"
      "\<forall>p \<in> set new. pack_ok seg (si_dsn (w_snd_info w)) p"
      "send_view w1 = send_view w" "sends seg w w1" "accounted w1" "tuned w1"
      "unat (si_next (w_snd_info w1)) = unat ?next + k" "si_next (w_snd_info w1) = ?next + of_nat k"
      "k > 0 \<longrightarrow> w_snd_nflight_bytes w1 < min (si_cwnd (w_snd_info w)) (si_rwnd (w_snd_info w))"
      "map wp_seq new = take k (map wp_seq (w_snd_sending w))"
    by blast
  have v: "w_sb w1 = w_sb w" "w_s_sending_standby w1 = w_s_sending_standby w" "w_state w1 = w_state w"
    "si_dsn (w_snd_info w1) = si_dsn (w_snd_info w)" "si_una (w_snd_info w1) = si_una (w_snd_info w)"
    "w_remote_addr w1 = w_remote_addr w" "w_rb w1 = w_rb w" "w_rb_standby w1 = w_rb_standby w"
    "w_rcv_info w1 = w_rcv_info w" "w_rcv_received w1 = w_rcv_received w"
    "w_s_sending_ignore_seq_space w1 = w_s_sending_ignore_seq_space w"
    "w_snd_sacked_pack_tmp w1 = w_snd_sacked_pack_tmp w"
    "si_cwnd (w_snd_info w1) = si_cwnd (w_snd_info w)" "si_rwnd (w_snd_info w1) = si_rwnd (w_snd_info w)"
    "tick_view w1 = tick_view w"
    using s(9) by (simp_all add: send_view_def tick_view_def)
  let ?w = "w1\<lparr> w_snd_sending := rest \<rparr>"
  have lr: "length rest = ?n - k" using arg_cong [OF s(5), of length] by simp
  have sq2: "map wp_seq (rest @ w_s_sending_standby w) =
      map (\<lambda>i. si_next (w_snd_info w1) + of_nat i) [0..<length (rest @ w_s_sending_standby w)]"
  proof -
    have "map wp_seq (rest @ w_s_sending_standby w) =
        drop k (map (\<lambda>i. ?next + of_nat i) [0..<?n + length (w_s_sending_standby w)])"
      unfolding sq [symmetric] using s(4,5) by simp
    also have "\<dots> = map (\<lambda>i. ?next + of_nat i) [k..<?n + length (w_s_sending_standby w)]"
      by (simp add: drop_map)
    also have "\<dots> = map (\<lambda>i. ?next + of_nat (i + k)) [0..<?n + length (w_s_sending_standby w) - k]"
      using s(4) by (intro nth_equalityI) (simp_all add: add.commute)
    finally show ?thesis using s(4,14) lr by (simp add: ac_simps)
  qed
  have "snd_inv seg ?w"
    using snd v s(6-8) sq2 d s(13) lr s(4) by (auto simp: snd_inv_def word_le_unat)
  moreover have "est_inv rseg ?w"
    using est v s(11,12) by (auto simp: est_inv_def reorder_ok_def ignore_ok_def accounted_def tuned_def)
  moreover have "sent_ok seg w \<longrightarrow> sent_ok seg ?w"
    using sent_ok_sends [OF _ s(10) v(4)] by (simp add: sent_ok_def)
  moreover have "tick_view ?w = tick_view w" using v(15) by (simp add: tick_view_def)
  moreover have "si_next (w_snd_info w1) \<noteq> ?next \<longrightarrow>
      w_snd_nflight_bytes w1 < min (si_cwnd (w_snd_info w)) (si_rwnd (w_snd_info w))"
    using s(14,15) by (cases "k = 0") simp_all
  ultimately have "send_step seg w seg ?w"
    using v s(13) by (simp add: send_step_def sender_stream_def word_le_unat)
  moreover have "w_snd_nflight_bytes w1 = w_snd_nflight_bytes w" if "si_next (w_snd_info w1) = ?next"
  proof -
    have "k = 0" using that s(13) by simp
    then have "new = []" using arg_cong [OF s(16), of length] by simp
    then show ?thesis using s(7,11) est by (simp add: est_inv_def accounted_def word_eq_unat)
  qed
  ultimately show ?thesis using \<open>est_inv rseg ?w\<close> s(1-3) v(1,2,4) by (intro that [OF s(1)]) simp_all
qed

lemma snd_inv_flush:
  assumes "snd_inv seg w" shows "snd_inv seg (flush_standby w)"
  using assms by (simp add: snd_inv_def flush_standby_def)

lemma send_step_trans:
  assumes "send_step seg w seg1 w1" "send_step seg1 w1 seg2 w2"
    and "si_next (w_snd_info w2) = si_next (w_snd_info w1) \<longrightarrow> w_snd_nflight_bytes w2 = w_snd_nflight_bytes w1"
  shows "send_step seg w seg2 w2"
  using assms unfolding send_step_def by (auto intro: order_trans order_less_le_trans)

lemma numbers_append:
  "map (\<lambda>i. (n :: u32) + of_nat i) [0..<a + b] =
   map (\<lambda>i. n + of_nat i) [0..<a] @ map (\<lambda>i. n + of_nat a + of_nat i) [0..<b]"
  by (intro nth_equalityI) (auto simp: nth_append)

lemma length_concat_nonempty: "\<forall>d \<in> set ds. d \<noteq> [] \<Longrightarrow> length ds \<le> length (concat ds)"
  by (induction ds) (auto simp: neq_Nil_conv)

lemma send_refill:
  assumes est: "est_inv rseg w" and snd: "snd_inv seg w" and st: "w_s_sending_standby w = []"
    and dsn: "unat (si_dsn (w_snd_info w)) + length (rb_list (w_sb w)) < 2 ^ 32"
  obtains seg' w' where
    "(if \<not> test_flag (w_s_flag w) WRITE_LOCAL_FIN_SENT \<and> nmax > WCP_MTU
      then send_fill (unat (rb_count (w_sb w))) nmax w else Some w) = Some w'"
    "est_inv rseg w'" "send_step seg w seg' w'" "w_s_sending_standby w' = []"
    "si_next (w_snd_info w') = si_next (w_snd_info w)" "w_snd_nflight_bytes w' = w_snd_nflight_bytes w"
    "length (w_snd_sending w') + length (rb_list (w_sb w')) \<le> length (w_snd_sending w) + length (rb_list (w_sb w))"
proof (cases "\<not> test_flag (w_s_flag w) WRITE_LOCAL_FIN_SENT \<and> nmax > WCP_MTU")
  case False
  show ?thesis
    by (rule that [of w seg]) (use False est snd st in \<open>auto simp: send_step_def\<close>)
next
  case True
  have sb: "rb_inv (w_sb w)" using est by (simp add: est_inv_def)
  have "length (rb_list (w_sb w)) \<le> unat (rb_count (w_sb w))" by (simp add: rb_count_list [OF sb])
  from send_fill_ok [OF sb this, of nmax] obtain ds w' where f:
    "send_fill (unat (rb_count (w_sb w))) nmax w = Some w'" "fill_view w' = fill_view w" "rb_inv (w_sb w')"
    "w_snd_sending w' = w_snd_sending w @ mk_packs (si_dsn (w_snd_info w)) ds"
    "si_dsn (w_snd_info w') = si_dsn (w_snd_info w) + of_nat (length ds)"
    "\<forall>d \<in> set ds. d \<noteq> [] \<and> length d \<le> 1384" "rb_list (w_sb w) = concat ds @ rb_list (w_sb w')" by blast
  define dsn where "dsn = si_dsn (w_snd_info w)"
  define seg' where "seg' = seg_ext seg dsn ds"
  have "length ds \<le> length (concat ds)"
    using f(6) by (intro length_concat_nonempty) blast
  then have ld: "unat dsn + length ds < 2 ^ 32" "length ds + length (rb_list (w_sb w')) \<le> length (rb_list (w_sb w))"
    using dsn f(7) by (simp_all add: dsn_def)
  have "unat (of_nat (length ds) :: u32) = length ds" using ld(1) by (intro unat_of_nat_nowrap) simp
  then have ud: "unat (dsn + of_nat (length ds)) = unat dsn + length ds" using ld(1) by (simp add: unat_add_nowrap)
  have old: "\<forall>s < dsn. seg' s = seg s" by (simp add: seg'_def seg_ext_old)
  have le: "dsn \<le> dsn + of_nat (length ds)" using ud by (simp add: word_le_unat)
  have new: "\<forall>p \<in> set (mk_packs dsn ds). pack_ok seg' (dsn + of_nat (length ds)) p"
    unfolding seg'_def by (rule pack_ok_mk_packs) (use f(6) ld(1) in auto)
  have v: "w_s_sending_standby w' = []" "w_snd_flights w' = w_snd_flights w" "si_next (w_snd_info w') = si_next (w_snd_info w)"
    "si_una (w_snd_info w') = si_una (w_snd_info w)" "w_remote_addr w' = w_remote_addr w"
    "w_snd_nflight_bytes w' = w_snd_nflight_bytes w" "tick_view w' = tick_view w"
    using f(2) st by (simp_all add: fill_view_def tick_view_def)
  have q: "map wp_seq (w_snd_sending w) = map (\<lambda>i. si_next (w_snd_info w) + of_nat i) [0..<length (w_snd_sending w)]"
    "unat dsn = unat (si_next (w_snd_info w)) + length (w_snd_sending w)"
    using snd st by (simp_all add: snd_inv_def dsn_def)
  have dsn_w: "dsn = si_next (w_snd_info w) + of_nat (length (w_snd_sending w))"
  proof -
    have lt: "unat (si_next (w_snd_info w)) + length (w_snd_sending w) < 2 ^ 32"
      using unat_less_2p [of dsn] unfolding q(2) by simp
    then have "unat (of_nat (length (w_snd_sending w)) :: u32) = length (w_snd_sending w)"
      by (intro unat_of_nat_nowrap) simp
    then show ?thesis using lt q(2) by (simp add: word_eq_unat unat_add_nowrap)
  qed
  have sq: "map wp_seq (w_snd_sending w') =
      map (\<lambda>i. si_next (w_snd_info w) + of_nat i) [0..<length (w_snd_sending w')]"
    using q(1) unfolding f(4) dsn_def [symmetric]
    by (simp add: seqs_mk_packs dsn_w numbers_append)
  have inv: "snd_inv seg' w'"
    using snd v st sq new old le ud q(2) f(4,5) pack_ok_mono [of seg dsn _ "dsn + of_nat (length ds)" seg']
    by (auto simp: snd_inv_def dsn_def [symmetric])
  have "est_inv rseg w'"
    using est f(2,3) by (auto simp: est_inv_def fill_view_def reorder_ok_def ignore_ok_def accounted_def tuned_def)
  moreover have "send_step seg w seg' w'"
    using inv old le f(2,5) v ud ld(2) sender_stream_ext [OF ld(1), of w w' seg] f(7)
      msg_ok_mono [OF _ le old]
    by (auto simp: send_step_def dsn_def [symmetric] seg'_def [symmetric] sent_ok_def fill_view_def word_le_unat)
  ultimately show ?thesis using True f(1,4) v ld(2) by (intro that [of w' seg']) simp_all
qed

lemma send_passes_ok:
  assumes "est_inv rseg w" "snd_inv seg w"
    and "unat (si_dsn (w_snd_info w)) + length (rb_list (w_sb w)) < 2 ^ 32"
    and "2 * length (rb_list (w_sb w)) + 2 * length (w_s_sending_standby w) + length (w_snd_sending w) < fuel"
  shows "\<exists>seg' w'. send_passes fuel now w = Some w' \<and> est_inv rseg w' \<and> send_step seg w seg' w' \<and>
    (si_next (w_snd_info w') = si_next (w_snd_info w) \<longrightarrow> w_snd_nflight_bytes w' = w_snd_nflight_bytes w)"
  using assms
proof (induction fuel arbitrary: w seg)
  case 0
  then show ?case by simp
next
  case (Suc fuel)
  obtain r rest w1 where d: "send_sending now (w_snd_sending w) w = Some (r, rest, w1)" "r \<noteq> Send_break"
    "r = Send_done \<longrightarrow> rest = []" "est_inv rseg (w1\<lparr> w_snd_sending := rest \<rparr>)"
    "send_step seg w seg (w1\<lparr> w_snd_sending := rest \<rparr>)" "w_sb w1 = w_sb w"
    "w_s_sending_standby w1 = w_s_sending_standby w" "si_dsn (w_snd_info w1) = si_dsn (w_snd_info w)"
    "si_next (w_snd_info w1) = si_next (w_snd_info w) \<longrightarrow> w_snd_nflight_bytes w1 = w_snd_nflight_bytes w"
    by (rule send_drain [OF Suc.prems(1-3), of now])
  define w2 where "w2 = w1\<lparr> w_snd_sending := rest \<rparr>"
  show ?case
  proof (cases "r = Send_return")
    case True
    then show ?thesis using d by (intro exI [of _ seg] exI [of _ w2]) (simp add: w2_def)
  next
    case False
    then have r: "r = Send_done" "rest = []" using d(2,3) by (cases r; simp)+
    define w3 where "w3 = flush_standby w2"
    have i2: "snd_inv seg w2" using d(5) by (simp add: send_step_def w2_def)
    have i3: "est_inv rseg w3" "snd_inv seg w3" "w_s_sending_standby w3 = []" "w_sb w3 = w_sb w"
      "si_dsn (w_snd_info w3) = si_dsn (w_snd_info w)" "w_snd_sending w3 = w_s_sending_standby w"
      "w_snd_info w3 = w_snd_info w1" "w_snd_nflight_bytes w3 = w_snd_nflight_bytes w1"
      using d(4,6-8) snd_inv_flush [OF i2] r(2)
      by (auto simp: w3_def w2_def flush_standby_def est_inv_def reorder_ok_def ignore_ok_def accounted_def tuned_def)
    have st3: "send_step seg w seg w3"
      using d(5) i3(2) by (simp add: send_step_def w3_def w2_def flush_standby_def sender_stream_def
          sent_ok_def tick_view_def)
    have dsn3: "unat (si_dsn (w_snd_info w3)) + length (rb_list (w_sb w3)) < 2 ^ 32"
      using Suc.prems(3) i3(4,5) by simp
    obtain seg' w4 where f:
      "(if \<not> test_flag (w_s_flag w3) WRITE_LOCAL_FIN_SENT \<and> si_cwnd (w_snd_info w3) - w_snd_nflight_bytes w3 > WCP_MTU
        then send_fill (unat (rb_count (w_sb w3))) (si_cwnd (w_snd_info w3) - w_snd_nflight_bytes w3) w3
        else Some w3) = Some w4"
      "est_inv rseg w4" "send_step seg w3 seg' w4" "w_s_sending_standby w4 = []"
      "si_next (w_snd_info w4) = si_next (w_snd_info w3)" "w_snd_nflight_bytes w4 = w_snd_nflight_bytes w3"
      "length (w_snd_sending w4) + length (rb_list (w_sb w4)) \<le> length (w_snd_sending w3) + length (rb_list (w_sb w3))"
      by (rule send_refill [OF i3(1-3) dsn3, of "si_cwnd (w_snd_info w3) - w_snd_nflight_bytes w3"])
    have st4: "send_step seg w seg' w4" using send_step_trans [OF st3 f(3)] f(6) by simp
    have nf: "si_next (w_snd_info w4) = si_next (w_snd_info w) \<longrightarrow> w_snd_nflight_bytes w4 = w_snd_nflight_bytes w"
      using f(5,6) i3(7,8) d(9) by simp
    have step: "send_passes (Suc fuel) now w = (if w_snd_sending w4 \<noteq> [] then send_passes fuel now w4 else Some w4)"
    proof -
      have "flush_standby (w1\<lparr> w_snd_sending := [] \<rparr>) = w3" by (simp add: w3_def w2_def r(2))
      then show ?thesis
        using d(1) r f(1)
        by (cases "\<not> test_flag (w_s_flag w3) WRITE_LOCAL_FIN_SENT \<and>
            si_cwnd (w_snd_info w3) - w_snd_nflight_bytes w3 > WCP_MTU") (auto simp: Let_def)
    qed
    show ?thesis
    proof (cases "w_snd_sending w4 = []")
      case True
      then show ?thesis using step f(2) st4 nf by auto
    next
      case ne: False
      have i4: "snd_inv seg' w4" using st4 by (simp add: send_step_def)
      have b4: "unat (si_dsn (w_snd_info w4)) + length (rb_list (w_sb w4)) < 2 ^ 32"
        using st4 Suc.prems(3) by (simp add: send_step_def)
      have "2 * length (rb_list (w_sb w4)) + 2 * length (w_s_sending_standby w4) + length (w_snd_sending w4) < fuel"
        using f(4,7) i3(4,6) Suc.prems(4) ne by (cases "w_snd_sending w4") simp_all
      from Suc.IH [OF f(2) i4 b4 this] obtain seg2 w5 where
        "send_passes fuel now w4 = Some w5" "est_inv rseg w5" "send_step seg' w4 seg2 w5"
        "si_next (w_snd_info w5) = si_next (w_snd_info w4) \<longrightarrow> w_snd_nflight_bytes w5 = w_snd_nflight_bytes w4" by blast
      moreover from this have "send_step seg w seg2 w5" using send_step_trans [OF st4] by blast
      moreover have "si_next (w_snd_info w) \<le> si_next (w_snd_info w4)" "si_next (w_snd_info w4) \<le> si_next (w_snd_info w5)"
        using st4 calculation(3) by (simp_all add: send_step_def)
      ultimately show ?thesis using step ne nf by (intro exI [of _ seg2] exI [of _ w5]) auto
    qed
  qed
qed

lemma check_send_ok:
  assumes est: "est_inv rseg w" and cl: "ignore_clean w" and snd: "snd_inv seg w"
    and dsn: "unat (si_dsn (w_snd_info w)) + length (rb_list (w_sb w)) < 2 ^ 32"
    and rf: "\<not> test_flag (w_r_flag w) READ_RWND_MORE_THAN_MTU"
  shows "\<exists>seg' w'. check_send now w = Some w' \<and> est_inv rseg w' \<and> ignore_clean w' \<and> snd_inv seg' w' \<and>
    (\<forall>s < si_dsn (w_snd_info w). seg' s = seg s) \<and> sender_stream seg' w' = sender_stream seg w \<and>
    (sent_ok seg w \<longrightarrow> sent_ok seg' w') \<and> tick_view w' = tick_view w \<and>
    si_dsn (w_snd_info w) \<le> si_dsn (w_snd_info w') \<and> si_next (w_snd_info w) \<le> si_next (w_snd_info w') \<and>
    unat (si_dsn (w_snd_info w')) + length (rb_list (w_sb w')) \<le> unat (si_dsn (w_snd_info w)) + length (rb_list (w_sb w)) \<and>
    (si_next (w_snd_info w') \<noteq> si_next (w_snd_info w) \<longrightarrow>
       w_snd_nflight_bytes w' < min (si_cwnd (w_snd_info w')) (si_rwnd (w_snd_info w')))"
proof (cases "test_flag (w_s_flag w) WRITE_SEND_ERROR")
  case True
  then show ?thesis using assms by (intro exI [of _ seg] exI [of _ w]) (simp add: check_send_def)
next
  case False
  have fr: "force_rwnd_update now w = w" using rf by (simp add: force_rwnd_update_def)
  have en: "\<forall>e \<in> set (w_s_sending_ignore_seq_space w). entry_ok (fst e)"
    using est cl ignore_entries [of w] by (simp add: est_inv_def)
  have rem: "w_remote_addr w \<noteq> 0" using snd by (simp add: snd_inv_def)
  from send_ignore_ok [OF en rem, of seg] obtain es ok w1 where
    s: "send_ignore (w_s_sending_ignore_seq_space w) w = Some (es, ok, w1)" "\<forall>e \<in> set es. entry_ok (fst e)"
      "ctl_view w1 = ctl_view w" "sends seg w w1" by blast
  define w2 where "w2 = w1\<lparr> w_s_sending_ignore_seq_space := es \<rparr>"
  have cl2: "ignore_ok w2" "ignore_clean w2" using s(2) ignore_entries [of w2] by (simp_all add: w2_def)
  have est2: "est_inv rseg w2"
    using est s(3) cl2(1) by (auto simp: w2_def est_inv_def ctl_view_def reorder_ok_def accounted_def tuned_def)
  have snd2: "snd_inv seg w2" using snd s(3) by (auto simp: w2_def snd_inv_def ctl_view_def)
  have e2: "w_snd_info w2 = w_snd_info w" "w_sb w2 = w_sb w" "tick_view w2 = tick_view w"
    "sender_stream seg w2 = sender_stream seg w"
    using s(3) by (simp_all add: w2_def ctl_view_def tick_view_def sender_stream_def)
  have so2: "sent_ok seg w \<longrightarrow> sent_ok seg w2"
    using sent_ok_sends [OF _ s(4)] e2(1) by (simp add: w2_def sent_ok_def)
  show ?thesis
  proof (cases ok)
    case no: False
    then have "check_send now w = Some w2" using False fr s(1) by (simp add: check_send_def Let_def w2_def)
    then show ?thesis
      using est2 cl2 snd2 e2 so2 by (intro exI [of _ seg] exI [of _ w2]) simp
  next
    case True
    then have c: "check_send now w = send_passes (send_fuel w2) now w2"
      using False fr s(1) by (simp add: check_send_def Let_def w2_def)
    have sb: "rb_inv (w_sb w2)" using est2 by (simp add: est_inv_def)
    have d2: "unat (si_dsn (w_snd_info w2)) + length (rb_list (w_sb w2)) < 2 ^ 32" using dsn e2(1,2) by simp
    have "2 * length (rb_list (w_sb w2)) + 2 * length (w_s_sending_standby w2) + length (w_snd_sending w2) < send_fuel w2"
      by (simp add: send_fuel_def rb_count_list [OF sb])
    from send_passes_ok [OF est2 snd2 d2 this, of now] obtain seg' w' where p:
      "send_passes (send_fuel w2) now w2 = Some w'" "est_inv rseg w'" "send_step seg w2 seg' w'" by blast
    moreover have "ignore_clean w'" using p(3) cl2(2) by (simp add: send_step_def ignore_clean_def)
    ultimately show ?thesis
      using c e2 so2 by (intro exI [of _ seg'] exI [of _ w']) (auto simp: send_step_def)
  qed
qed

section \<open>Properties\<close>

text \<open>
  C4: sending preserves the stream. In an established connection that satisfies both invariants (so the packs that wait to be sent are data packs with
  consecutive numbers: no FIN is queued), in which no bare window update is due (READ_RWND_MORE_THAN_MTU is clear) and with sequence numbers left for what is
  buffered, check_send() does not throw and its loops end (the model's fuel is enough). It keeps both
  invariants; the bytes the application wrote, those that already have a sequence number followed by
  those still in the send buffer, are the same sequence before and after, so nothing is lost, repeated or
  reordered by cutting the buffer into packs; numbers already assigned keep their payload; every
  datagram sent so far carries the payload of its number; and when new packs went out, the bytes in flight
  are below both the congestion window and the peer's window.
\<close>

theorem check_send_preserves_stream:
  assumes "est_inv rseg w" "ignore_clean w" "snd_inv seg w" "sent_ok seg w"
    and "unat (si_dsn (w_snd_info w)) + length (rb_list (w_sb w)) < 2 ^ 32"
    and "\<not> test_flag (w_r_flag w) READ_RWND_MORE_THAN_MTU"
  shows "\<exists>seg' w'. check_send now w = Some w' \<and> est_inv rseg w' \<and> snd_inv seg' w' \<and> sent_ok seg' w' \<and>
    (\<forall>s < si_dsn (w_snd_info w). seg' s = seg s) \<and> sender_stream seg' w' = sender_stream seg w \<and>
    si_next (w_snd_info w) \<le> si_next (w_snd_info w') \<and>
    (si_next (w_snd_info w') \<noteq> si_next (w_snd_info w) \<longrightarrow>
       w_snd_nflight_bytes w' < min (si_cwnd (w_snd_info w')) (si_rwnd (w_snd_info w')))"
  using check_send_ok [OF assms(1-3,5,6), of now] assms(4) by blast

abbreviation sample_sender :: WCB where
  "sample_sender \<equiv> sample_wcb\<lparr> w_sb := sample_sb \<rparr>"

lemma snd_inv_sample: "snd_inv seg sample_sender" "sent_ok seg sample_sender" "ignore_clean sample_sender"
  "est_inv rseg sample_sender"
  using est_inv_sample [of rseg "w_received_vec_standby sample_wcb"]
  by (simp_all add: snd_inv_def sent_ok_def ignore_clean_def sample_wcb_def sample_env_def est_inv_def
      reorder_ok_def ignore_ok_def accounted_def tuned_def)

theorem check_send_preserves_stream_witness:
  "\<exists>seg' w'. check_send 9 sample_sender = Some w' \<and> est_inv (\<lambda>_. []) w' \<and> snd_inv seg' w' \<and>
    sender_stream seg' w' = [1, 2, 3]"
proof -
  have "sender_stream (\<lambda>_. []) sample_sender = [1, 2, 3]" by (simp add: sender_stream_def sample_wcb_def)
  moreover have "unat (si_dsn (w_snd_info sample_sender)) + length (rb_list (w_sb sample_sender)) < 2 ^ 32"
    "\<not> test_flag (w_r_flag sample_sender) READ_RWND_MORE_THAN_MTU"
    by (simp_all add: sample_wcb_def test_flag_def)
  ultimately show ?thesis
    using check_send_preserves_stream [where now = 9, OF snd_inv_sample(4,3,1,2), of "\<lambda>_. []" "\<lambda>_. []"] by auto
qed

text \<open>
  C5: retransmission. In an established connection check_flights() does not throw and keeps both
  invariants. It leaves the receiving side, the queues and the numbers handed out alone; the flight list
  only loses packs; and every datagram it sends goes to the peer and carries the payload that belongs
  to its sequence number.
\<close>

theorem check_flights_retransmits_faithfully:
  assumes "est_inv rseg w" "snd_inv seg w" "sent_ok seg w"
  shows "\<exists>w'. check_flights now w = Some w' \<and> est_inv rseg w' \<and> snd_inv seg w' \<and> sent_ok seg w' \<and>
    sends seg w w' \<and> tick_view w' = tick_view w \<and> queue_view w' = queue_view w \<and>
    subseq (map wp_seq (w_snd_flights w')) (map wp_seq (w_snd_flights w))"
proof -
  obtain w' where w': "check_flights now w = Some w'" "est_inv rseg w'" "snd_inv seg w'" "sends seg w w'"
    "tick_view w' = tick_view w" "queue_view w' = queue_view w"
    "subseq (map wp_seq (w_snd_flights w')) (map wp_seq (w_snd_flights w))"
    by (rule check_flights_ok [OF assms(1,2), of now])
  then have "sent_ok seg w'" using sent_ok_sends [OF assms(3)] by (simp add: queue_view_def)
  with w' show ?thesis by blast
qed

theorem check_flights_retransmits_faithfully_witness:
  "\<exists>w'. check_flights 9 sample_sender = Some w' \<and> est_inv (\<lambda>_. []) w' \<and> sent_ok (\<lambda>_. []) w'"
  using check_flights_retransmits_faithfully [where now = 9, OF snd_inv_sample(4,1,2), of "\<lambda>_. []" "\<lambda>_. []"] by blast

end
