(* ===== verification/Wcb_Update_Props.thy ===== *)
theory Wcb_Update_Props
  imports Wcb_Update Wcb_Send_Props
begin

text \<open>
  The state machine of a control block. The relation \<open>wcb_edge\<close> lists the transitions a tick may take;
  every path through update(), for any received packs and any answers of the socket, follows it. The
  second part is about close(), shutdown() and connect().
\<close>

section \<open>Transitions\<close>

inductive wcb_edge :: "WCB_State \<Rightarrow> WCB_State \<Rightarrow> bool" where
  edge_syn_sent: "wcb_edge WCB_SYNING WCB_SYN_SENT"
| edge_active_open: "wcb_edge WCB_SYN_SENT WCB_ESTABLISHED"
| edge_passive_open: "wcb_edge WCB_SYN_RECEIVED WCB_ESTABLISHED"
| edge_fin_sent: "wcb_edge WCB_ESTABLISHED WCB_FIN_WAIT_1"
| edge_fin_received: "wcb_edge WCB_ESTABLISHED WCB_CLOSE_WAIT"
| edge_fin_acked: "wcb_edge WCB_FIN_WAIT_1 WCB_FIN_WAIT_2"
| edge_both_fin: "wcb_edge WCB_FIN_WAIT_1 WCB_CLOSING"
| edge_closing_acked: "wcb_edge WCB_CLOSING WCB_TIME_WAIT"
| edge_peer_fin: "wcb_edge WCB_FIN_WAIT_2 WCB_TIME_WAIT"
| edge_last_ack: "wcb_edge WCB_CLOSE_WAIT WCB_LAST_ACK"
| edge_down: "s \<notin> {WCB_LISTEN, WCB_SYNING, WCB_CLOSED, WCB_RECYCLE} \<Longrightarrow> wcb_edge s WCB_CLOSED"
| edge_recycle: "wcb_edge WCB_CLOSED WCB_RECYCLE"

inductive_cases edge_from_closed: "wcb_edge WCB_CLOSED s"
inductive_cases edge_from_recycle: "wcb_edge WCB_RECYCLE s"
inductive_cases edge_to_established: "wcb_edge s WCB_ESTABLISHED"
inductive_cases edge_to_recycle: "wcb_edge s WCB_RECYCLE"

abbreviation wcb_path :: "WCB_State \<Rightarrow> WCB_State \<Rightarrow> bool" where
  "wcb_path \<equiv> wcb_edge\<^sup>*\<^sup>*"

lemma path_edge [intro]: "wcb_edge s t \<Longrightarrow> wcb_path s t"
  by (rule r_into_rtranclp)

text \<open>
  A block that takes packs can be closed at any point, and stays in this part of the machine:
  \<open>open_state\<close> holds while update() runs the three checks.
\<close>

definition open_state :: "WCB_State \<Rightarrow> bool" where
  "open_state s \<longleftrightarrow> s \<notin> {WCB_LISTEN, WCB_SYNING, WCB_RECYCLE}"

lemma path_down: "open_state s \<Longrightarrow> wcb_path s WCB_CLOSED"
  by (cases "s = WCB_CLOSED") (auto simp: open_state_def intro: edge_down)

section \<open>What a tick does to the state\<close>

lemma send_pack_state: "send_pack p w = Some (rt, p', w') \<Longrightarrow> w_state w' = w_state w"
  by (auto simp: send_pack_def Let_def elim!: bind_SomeE split: if_splits prod.splits)

lemma set_send_error_state [simp]: "w_state (set_send_error rt w) = w_state w"
  by (simp add: set_send_error_def)

lemma ack_view_state: "ack_view w' = ack_view w \<Longrightarrow> w_state w' = w_state w"
  by (simp add: ack_view_def)

lemma handle_pack_acked_state: "handle_pack_acked p now w = Some w' \<Longrightarrow> w_state w' = w_state w"
  by (rule ack_view_state) (simp add: handle_pack_acked_def Let_def split: if_splits; clarify; simp)

lemma flights_loop_state:
  "flights_loop now ps w l m = Some (qs, w', l', m') \<Longrightarrow> w_state w' = w_state w"
proof (induction ps arbitrary: w l m qs w' l' m')
  case (Cons p ps)
  show ?case
  proof (cases "test_flag (w_wcb_flag w) SND_UNA_UPDATE \<and> wp_seq p < si_una (w_snd_info w)")
    case True
    with Cons show ?thesis by (auto elim!: bind_SomeE dest: handle_pack_acked_state)
  next
    case False
    define r where "r = retransmit_reason now p w"
    define w1 where "w1 = (if r = 3 \<and> \<not> test_flag (w_wcb_flag w) SND_LOST_DETECTED \<and> wp_seq p > w_snd_lost_biggest_seq w
                    then w\<lparr> w_snd_lost_biggest_seq := wp_seq p \<rparr> else w)"
    have s1: "w_state w1 = w_state w" by (simp add: w1_def)
    show ?thesis
      using Cons.prems False unfolding flights_loop.simps Let_def r_def [symmetric] w1_def [symmetric]
      by (auto elim!: bind_SomeE split: if_splits dest!: send_pack_state Cons.IH simp: s1)
  qed
qed simp

lemma lost_detected_state: "lost_detected now w = Some w' \<Longrightarrow> w_state w' = w_state w"
  by (auto simp: lost_detected_def Let_def split: if_splits)

lemma check_flights_state: "check_flights now w = Some w' \<Longrightarrow> w_state w' = w_state w"
  unfolding check_flights_def Let_def
  by (auto elim!: bind_SomeE split: if_splits dest!: flights_loop_state lost_detected_state)

lemma send_slots_state: "send_slots n p w = Some (k, q, b, w') \<Longrightarrow> w_state w' = w_state w"
proof (induction n arbitrary: p w)
  case (Suc n)
  then show ?case by (auto elim!: bind_SomeE split: if_splits dest!: send_pack_state)
qed simp

lemma send_ignore_state: "send_ignore es w = Some (fs, b, w') \<Longrightarrow> w_state w' = w_state w"
proof (induction es arbitrary: w)
  case (Cons e es)
  then show ?case by (cases e) (auto elim!: bind_SomeE split: if_splits dest!: send_slots_state)
qed simp

text \<open>Sending takes at most one of three transitions.\<close>

definition send_edge :: "WCB_State \<Rightarrow> WCB_State \<Rightarrow> bool" where
  "send_edge s t \<longleftrightarrow> t = s \<or> (s, t) \<in> {(WCB_ESTABLISHED, WCB_FIN_WAIT_1), (WCB_CLOSE_WAIT, WCB_LAST_ACK),
     (WCB_SYNING, WCB_SYN_SENT)}"

lemma send_edge_trans: "send_edge s t \<Longrightarrow> send_edge t u \<Longrightarrow> send_edge s u"
  by (auto simp: send_edge_def)

lemma send_edge_path: "send_edge s t \<Longrightarrow> wcb_path s t"
  by (auto simp: send_edge_def intro: wcb_edge.intros)

lemma send_edge_refl [simp]: "send_edge s s"
  by (simp add: send_edge_def)

lemma fin_sent_edge: "fin_sent now w = Some w' \<Longrightarrow> send_edge (w_state w) (w_state w')"
  by (auto simp: fin_sent_def send_edge_def split: WCB_State.splits)

lemma syn_sent_edge: "syn_sent w = Some w' \<Longrightarrow> send_edge (w_state w) (w_state w')"
  by (auto simp: syn_sent_def send_edge_def split: if_splits)

lemma put_in_flight_state [simp]: "w_state (put_in_flight now p w) = w_state w"
  by (simp add: put_in_flight_def Let_def)

lemma send_sending_edge:
  "send_sending now ps w = Some (r, qs, w') \<Longrightarrow> send_edge (w_state w) (w_state w')"
proof (induction ps arbitrary: w r qs w')
  case (Cons p ps)
  show ?case
  proof (cases "congested p w")
    case False
    with Cons.prems obtain sndrt p1 w1 where s: "send_pack p w = Some (sndrt, p1, w1)"
      by (auto elim!: bind_SomeE split: if_splits)
    note st = send_pack_state [OF s]
    show ?thesis
    proof (cases "sndrt = OK")
      case True
      have "\<exists>w2. send_edge (w_state w) (w_state w2) \<and> (w2 = w' \<or> send_sending now ps w2 = Some (r, qs, w'))"
        using Cons.prems False s True st
        by (auto elim!: bind_SomeE split: if_splits simp: Let_def
            dest!: fin_sent_edge syn_sent_edge
            intro: exI [of _ "put_in_flight now p1 w1"])
      then show ?thesis using Cons.IH by (blast intro: send_edge_trans)
    qed (use Cons.prems False s st in \<open>auto split: if_splits\<close>)
  qed (use Cons.prems in auto)
qed auto

lemma send_fill_state: "send_fill fuel n w = Some w' \<Longrightarrow> w_state w' = w_state w"
proof (induction fuel arbitrary: n w)
  case 0
  then show ?case by (auto simp: send_fill.simps [of 0] split: if_splits)
next
  case (Suc fuel)
  then show ?case
    by (fastforce simp: send_fill.simps [of "Suc fuel"] Let_def elim!: bind_SomeE split: if_splits prod.splits)
qed

lemma flush_standby_state [simp]: "w_state (flush_standby w) = w_state w"
  by (simp add: flush_standby_def)

lemma send_passes_edge: "send_passes fuel now w = Some w' \<Longrightarrow> send_edge (w_state w) (w_state w')"
proof (induction fuel arbitrary: w)
  case (Suc fuel)
  from Suc.prems obtain r rest w1 where s: "send_sending now (w_snd_sending w) w = Some (r, rest, w1)"
    by (auto elim!: bind_SomeE)
  note p = send_sending_edge [OF s]
  let ?w2 = "flush_standby (w1\<lparr> w_snd_sending := rest \<rparr>)"
  let ?n = "si_cwnd (w_snd_info ?w2) - w_snd_nflight_bytes ?w2"
  show ?case
  proof (cases "r = Send_return")
    case True
    with Suc.prems s p show ?thesis by auto
  next
    case False
    with Suc.prems s obtain w3 where w3:
      "(if \<not> test_flag (w_s_flag ?w2) WRITE_LOCAL_FIN_SENT \<and> ?n > WCP_MTU
        then send_fill (unat (rb_count (w_sb ?w2))) ?n ?w2 else Some ?w2) = Some w3"
      "w3 = w' \<or> send_passes fuel now w3 = Some w'"
      by (auto elim!: bind_SomeE simp: Let_def split: if_splits)
    then have "w_state w3 = w_state w1" by (auto split: if_splits dest: send_fill_state)
    with p w3(2) Suc.IH [of w3] show ?thesis by (auto intro: send_edge_trans)
  qed
qed simp

lemma force_rwnd_state [simp]: "w_state (force_rwnd_update now w) = w_state w"
  by (simp add: force_rwnd_update_def update_rwnd_def push_ignore_def split: list.splits)

lemma check_send_edge: "check_send now w = Some w' \<Longrightarrow> send_edge (w_state w) (w_state w')"
  unfolding check_send_def Let_def
  by (auto elim!: bind_SomeE split: if_splits dest!: send_ignore_state send_passes_edge)

text \<open>The receiving side: each step is a path inside the open states.\<close>

definition open_path :: "WCB \<Rightarrow> WCB \<Rightarrow> bool" where
  "open_path w w' \<longleftrightarrow> (open_state (w_state w) \<longrightarrow> wcb_path (w_state w) (w_state w') \<and> open_state (w_state w'))"

lemma open_path_same: "w_state w' = w_state w \<Longrightarrow> open_path w w'"
  by (simp add: open_path_def)

lemma open_path_trans: "open_path u v \<Longrightarrow> open_path v w \<Longrightarrow> open_path u w"
  by (auto simp: open_path_def intro: rtranclp_trans)

lemma open_path_closed: "w_state w' = WCB_CLOSED \<Longrightarrow> open_path w w'"
  by (auto simp: open_path_def path_down) (simp add: open_state_def)

lemma set_rst_state: "set_rst p w = Some w' \<Longrightarrow> w_state w' = WCB_CLOSED"
  by (auto simp: set_rst_def elim!: bind_SomeE)

lemma control_state [simp]:
  "w_state (FINACK w) = w_state w" "w_state (SYNACK w) = w_state w" "w_state (SYNSYNACK w) = w_state w"
  "w_state (keepalive_reply w) = w_state w" "w_state (keepalive w) = w_state w"
  by (simp_all add: FINACK_def SYNACK_def SYNSYNACK_def keepalive_def keepalive_reply_def push_standby_def
      push_ignore_def)

lemma SACK_state [simp]: "w_state (SACK d w) = w_state w"
  using SACK_queue [of d w] by auto

lemma deliver_data_path:
  assumes "deliver_data p w = Some (r, w')"
  shows "open_path w w'"
proof -
  have "w_state w' = WCB_CLOSED \<or> w_state w' = w_state w"
    using assms
    by (auto simp: deliver_data_def Let_def elim!: bind_SomeE split: if_splits prod.splits dest!: set_rst_state)
  then show ?thesis by (blast intro: open_path_closed open_path_same)
qed

lemma deliver_ack_path:
  assumes "deliver_ack now p w = Some w'"
  shows "open_path w w'"
proof -
  have "w_state w' = w_state w \<or> w_state w' = WCB_CLOSED \<or> (wcb_edge (w_state w) (w_state w') \<and> open_state (w_state w'))"
    using assms
    by (auto simp: deliver_ack_def Let_def open_state_def split: WCB_State.splits if_splits prod.splits
        intro: wcb_edge.intros)
  then show ?thesis by (auto simp: open_path_def path_down) (auto simp: open_state_def)
qed

lemma deliver_fin_path:
  assumes "deliver_fin now p w = Some w'"
  shows "open_path w w'"
proof -
  have "w_state w' = w_state w \<or> w_state w' = WCB_CLOSED \<or> (wcb_edge (w_state w) (w_state w') \<and> open_state (w_state w'))"
    using assms
    by (auto simp: deliver_fin_def open_state_def elim!: bind_SomeE split: WCB_State.splits dest!: set_rst_state
        intro: wcb_edge.intros)
  then show ?thesis by (auto simp: open_path_def path_down) (auto simp: open_state_def)
qed

lemma deliver_syn_path:
  assumes "deliver_syn p w = Some (r, w')"
  shows "open_path w w'"
proof -
  have "w_state w' = w_state w \<or> w_state w' = WCB_CLOSED"
    using assms by (auto simp: deliver_syn_def elim!: bind_SomeE split: if_splits dest!: set_rst_state)
  then show ?thesis by (blast intro: open_path_closed open_path_same)
qed

lemma deliver_one_path:
  assumes "deliver_one now p w = Some (r, w')"
  shows "open_path w w'"
proof -
  from assms obtain r1 w1 where d: "deliver_data p w = Some (r1, w1)"
    by (auto simp: deliver_one_def elim!: bind_SomeE)
  note p1 = deliver_data_path [OF d]
  show ?thesis
  proof (cases r1)
    case None
    define w2 where "w2 = w1\<lparr> w_rcv_info := (w_rcv_info w1)\<lparr> ri_next := ri_next (w_rcv_info w1) + 1 \<rparr> \<rparr>"
    have p2: "open_path w w2" using p1 by (simp add: open_path_def w2_def)
    show ?thesis
    proof (cases "test_flag (rp_flag p) WCP_FLAG_RST")
      case True
      with assms d None show ?thesis by (auto simp: deliver_one_def intro: open_path_closed)
    next
      case False
      have e: "do { (r, w) \<leftarrow> (if test_flag (rp_flag p) WCP_FLAG_SYN then deliver_syn p w2 else Some (None, w2));
          case r of Some b \<Rightarrow> Some (b, w)
          | None \<Rightarrow> do { w \<leftarrow> (if test_flag (rp_flag p) WCP_FLAG_ACK then deliver_ack now p w else Some w);
                        w \<leftarrow> (if test_flag (rp_flag p) WCP_FLAG_FIN then deliver_fin now p w else Some w);
                        Some (Next_pack, w) } } = Some (r, w')"
        using assms unfolding deliver_one_def d None w2_def by (simp add: False Let_def split del: if_split)
      then obtain r3 w3 where s:
        "(if test_flag (rp_flag p) WCP_FLAG_SYN then deliver_syn p w2 else Some (None, w2)) = Some (r3, w3)"
        "r3 \<noteq> None \<longrightarrow> w' = w3"
        "r3 = None \<longrightarrow> (\<exists>w4. (if test_flag (rp_flag p) WCP_FLAG_ACK then deliver_ack now p w3 else Some w3) = Some w4 \<and>
           (if test_flag (rp_flag p) WCP_FLAG_FIN then deliver_fin now p w4 else Some w4) = Some w')"
        by (force elim!: bind_SomeE split: option.splits)
      have p3: "open_path w w3"
        using s(1) p2 by (auto split: if_splits intro: open_path_trans deliver_syn_path)
      show ?thesis
      proof (cases r3)
        case None
        with s(3) obtain w4 where w4: "(if test_flag (rp_flag p) WCP_FLAG_ACK then deliver_ack now p w3 else Some w3) = Some w4"
          "(if test_flag (rp_flag p) WCP_FLAG_FIN then deliver_fin now p w4 else Some w4) = Some w'" by blast
        have "open_path w w4" using w4(1) p3 by (auto split: if_splits intro: open_path_trans deliver_ack_path)
        then show ?thesis using w4(2) by (auto split: if_splits intro: open_path_trans deliver_fin_path)
      qed (use s(2) p3 in simp)
    qed
  qed (use assms d p1 in \<open>auto simp: deliver_one_def\<close>)
qed

lemma deliver_all_path: "deliver_all now ps w = Some (qs, w') \<Longrightarrow> open_path w w'"
proof (induction ps arbitrary: w)
  case Nil
  then show ?case by (simp add: open_path_def)
next
  case (Cons p ps)
  show ?case
  proof (cases "rp_seq p = ri_next (w_rcv_info w)")
    case True
    with Cons.prems obtain r w1 where d: "deliver_one now p w = Some (r, w1)"
      "w' = w1 \<or> deliver_all now ps w1 = Some (qs, w')"
      by (auto elim!: bind_SomeE split: deliver_result.splits if_splits)
    then show ?thesis using deliver_one_path [OF d(1)] Cons.IH [of w1] by (auto intro: open_path_trans)
  qed (use Cons.prems in \<open>auto simp: open_path_def split: if_splits\<close>)
qed

lemma recv_one_state: "recv_one p (w, q) = Some (w', q') \<Longrightarrow> w_state w' = w_state w"
  by (auto simp: recv_one_def Let_def elim!: bind_SomeE split: if_splits)

lemma recv_all_state: "recv_all ps (w, q) = Some (w', q') \<Longrightarrow> w_state w' = w_state w"
  by (induction ps arbitrary: w q) (auto elim!: bind_SomeE dest!: recv_one_state)

lemma ack_one_state:
  assumes "ack_one now a w = Some w'"
  shows "w_state w' = w_state w"
proof -
  define w1 where "w1 = (if a > w_snd_biggest_ack w
     then w\<lparr> w_snd_biggest_ack := a, w_wcb_flag := set_flag (w_wcb_flag w) SND_BIGGEST_SACK_UPDATE \<rparr> else w)"
  have s1: "w_state w1 = w_state w" by (simp add: w1_def)
  have fr: "w_state (fast_recovery_check a v) = w_state v" for v
    by (rule ack_view_state) simp
  show ?thesis
    using assms unfolding ack_one_def Let_def w1_def [symmetric]
    by (auto elim!: bind_SomeE split: if_splits option.splits dest!: handle_pack_acked_state simp: s1 fr)
qed

lemma ack_all_state: "ack_all now as w = Some w' \<Longrightarrow> w_state w' = w_state w"
  by (induction as arbitrary: w) (auto elim!: bind_SomeE dest!: ack_one_state)

lemma recv_busy_path:
  assumes "recv_busy now w = Some w'"
  shows "open_path w w'"
proof -
  define w0 where "w0 = w\<lparr> w_keepalive_timer_last_received_pack := now, w_keepalive_probes_sent := 0 \<rparr>"
  from assms obtain w1 q w2 rest w3 where r: "recv_all (w_received_vec w) (w0, []) = Some (w1, q)"
    "ack_all now q (if length (w_snd_sacked_pack_tmp w1) \<noteq> 0
       then (SACK (w_snd_sacked_pack_tmp w1) w1)\<lparr> w_snd_sacked_pack_tmp := [] \<rparr> else w1) = Some w2"
    "deliver_all now (w_rcv_received w2) w2 = Some (rest, w3)" "w' = w3\<lparr> w_rcv_received := rest \<rparr>"
    unfolding recv_busy_def Let_def w0_def by (auto elim!: bind_SomeE split del: if_split)
  have "w_state w2 = w_state w"
    using ack_all_state [OF r(2)] recv_all_state [OF r(1)] by (simp add: w0_def)
  with deliver_all_path [OF r(3)] r(4) show ?thesis by (simp add: open_path_def)
qed

lemma check_recv_path:
  assumes "check_recv now w = Some w'"
  shows "open_path w w'"
proof -
  have "w_state (recv_swap v) = w_state v" "w_state (recv_swap_buffers v) = w_state v"
    "w_state (recv_idle now v) = w_state v" for v
    by (simp_all add: recv_swap_def recv_swap_buffers_def recv_idle_def Let_def)
  with assms show ?thesis
    by (auto simp: check_recv_def Let_def open_path_def elim!: bind_SomeE split: if_splits dest!: recv_busy_path)
qed

lemma tick_all_path:
  assumes "tick_all now w = Some w'" "open_state (w_state w)"
  shows "wcb_path (w_state w) (w_state w')"
  using assms
  by (auto simp: tick_all_def open_path_def elim!: bind_SomeE dest!: check_recv_path check_flights_state
      check_send_edge [THEN send_edge_path] intro: rtranclp_trans)

lemma wcb_update_path:
  assumes "wcb_update now w = Some w'"
  shows "wcb_path (w_state w) (w_state w')"
proof -
  note t = tick_all_path [of now w]
  show ?thesis
    using assms
    by (cases "w_state w")
      (auto simp: wcb_update_def open_state_def dest!: t split: if_splits elim!: bind_SomeE
        dest!: check_flights_state check_send_edge [THEN send_edge_path] tick_all_path
        intro: edge_down [THEN path_edge] edge_recycle [THEN path_edge])
qed

lemma tick_all_not_recycle:
  assumes "tick_all now w = Some w'" "open_state (w_state w)"
  shows "w_state w' \<noteq> WCB_RECYCLE"
  using assms
  by (auto simp: tick_all_def open_path_def open_state_def send_edge_def elim!: bind_SomeE
      dest!: check_recv_path check_flights_state check_send_edge)

lemma wcb_update_recycle:
  assumes "wcb_update now w = Some w'" "w_state w' = WCB_RECYCLE" "w_state w \<noteq> WCB_RECYCLE"
  shows "w_state w = WCB_CLOSED" "test_flag (w_wcb_flag w) WCB_FLAG_CLOSED_CALLED"
proof -
  have "w_state w = WCB_CLOSED \<and> test_flag (w_wcb_flag w) WCB_FLAG_CLOSED_CALLED"
    using assms
    by (cases "w_state w")
      (auto simp: wcb_update_def open_state_def send_edge_def split: if_splits elim!: bind_SomeE
        dest!: check_flights_state check_send_edge tick_all_not_recycle)
  then show "w_state w = WCB_CLOSED" "test_flag (w_wcb_flag w) WCB_FLAG_CLOSED_CALLED" by simp_all
qed

lemma path_to_established:
  "wcb_path s WCB_ESTABLISHED \<Longrightarrow> s \<in> {WCB_SYNING, WCB_SYN_SENT, WCB_SYN_RECEIVED, WCB_ESTABLISHED}"
  by (induction rule: converse_rtranclp_induct) (auto elim: wcb_edge.cases)

lemma path_from_listen: "wcb_path s WCB_LISTEN \<Longrightarrow> s = WCB_LISTEN"
  by (induction rule: converse_rtranclp_induct) (auto elim: wcb_edge.cases)

section \<open>Shutting down\<close>

text \<open>
  A block with nothing to send, nothing in flight and room in both windows, in the established state.
\<close>

definition idle :: "WCB \<Rightarrow> bool" where
  "idle w \<longleftrightarrow> w_state w = WCB_ESTABLISHED \<and> w_remote_addr w \<noteq> 0 \<and> w_snd_sending w = [] \<and>
     w_s_sending_standby w = [] \<and> w_s_sending_ignore_seq_space w = [] \<and> rb_count (w_sb w) = 0 \<and>
     w_s_flag w = 0 \<and> w_snd_nflight_bytes w = 0 \<and> si_next (w_snd_info w) = si_dsn (w_snd_info w) \<and>
     si_una (w_snd_info w) \<le> si_next (w_snd_info w) \<and> 32 < si_cwnd (w_snd_info w) \<and> 32 < si_rwnd (w_snd_info w) \<and>
     \<not> test_flag (w_r_flag w) READ_RWND_MORE_THAN_MTU \<and> (\<forall>k. env_send_rt (w_env w) k = OK)"

lemma send_pack_bare:
  assumes "w_remote_addr w \<noteq> 0" "wp_data p = None"
  obtains m where "send_pack p w = Some (env_send_rt (w_env w) (length (env_sent (w_env w))),
     p\<lparr> wp_header := (wp_header p)\<lparr> h_ack := ri_next (w_rcv_info w), h_wnd := ri_wnd (w_rcv_info w) \<rparr> \<rparr>,
     w\<lparr> w_env := (w_env w)\<lparr> env_sent := env_sent (w_env w) @ [(w_remote_addr w, m)] \<rparr> \<rparr>)"
  using send_pack_ok [OF assms(1), of p] assms(2) by auto

lemma FIN_flags [simp]:
  "test_flag WCP_FLAG_FIN WCP_FLAG_FIN"
  "\<not> test_flag WCP_FLAG_FIN (WCP_FLAG_SACK OR WCP_FLAG_KEEP_ALIVE OR WCP_FLAG_KEEP_ALIVE_REPLY)"
  by (simp_all add: test_flag_def WCP_FLAG_defs)

text \<open>The pass that sends a FIN leaves it at the head of the queue and moves snd_info.next past it.\<close>

lemma send_fin_pass:
  assumes "w_state w = WCB_ESTABLISHED" "w_remote_addr w \<noteq> 0" "\<forall>k. env_send_rt (w_env w) k = OK"
    and "w_snd_nflight_bytes w = 0" "si_una (w_snd_info w) \<le> s" "si_next (w_snd_info w) = s"
    and "32 < si_cwnd (w_snd_info w)" "32 < si_rwnd (w_snd_info w)"
  shows "\<exists>q w'. send_sending now [new_pack s WCP_FLAG_FIN None] w = Some (Send_break, [q], w') \<and>
    wp_seq q = s \<and> pack_total_bytes q = 16 \<and> w_state w' = WCB_FIN_WAIT_1 \<and> si_next (w_snd_info w') = s + 1 \<and>
    w_snd_nflight_bytes w' = 16 \<and> si_cwnd (w_snd_info w') = si_cwnd (w_snd_info w) \<and>
    si_rwnd (w_snd_info w') = si_rwnd (w_snd_info w) \<and> test_flag (w_s_flag w') WRITE_LOCAL_FIN_SENT \<and>
    w_s_sending_standby w' = w_s_sending_standby w \<and> length (env_sent (w_env w')) = Suc (length (env_sent (w_env w)))"
proof -
  let ?p = "new_pack s WCP_FLAG_FIN None"
  define q where "q = ?p\<lparr> wp_header := (wp_header ?p)\<lparr> h_ack := ri_next (w_rcv_info w), h_wnd := ri_wnd (w_rcv_info w) \<rparr> \<rparr>"
  obtain m where m: "send_pack ?p w = Some (env_send_rt (w_env w) (length (env_sent (w_env w))), q,
     w\<lparr> w_env := (w_env w)\<lparr> env_sent := env_sent (w_env w) @ [(w_remote_addr w, m)] \<rparr> \<rparr>)"
    using send_pack_bare [OF assms(2), of ?p] by (auto simp: q_def new_pack_def)
  define w1 where "w1 = w\<lparr> w_env := (w_env w)\<lparr> env_sent := env_sent (w_env w) @ [(w_remote_addr w, m)] \<rparr> \<rparr>"
  have m1: "send_pack ?p w = Some (OK, q, w1)" using m assms(3) by (simp add: w1_def)
  have q: "pack_total_bytes ?p = 16" "pack_total_bytes q = 16" "wp_seq q = s" "h_flag (wp_header q) = WCP_FLAG_FIN"
    "wp_seq ?p = s"
    by (simp_all add: q_def new_pack_def pack_total_bytes_def zero_header_def WCP_HeaderLen_def)
  have nc: "\<not> congested ?p w"
    using assms(7,8) unfolding congested_def q assms(4) by (auto simp: min_def word_to_nat)
  define w2 where "w2 = put_in_flight now q w1"
  have w2: "w_state w2 = WCB_ESTABLISHED" "si_next (w_snd_info w2) = s + 1" "w_snd_nflight_bytes w2 = 16"
    "si_cwnd (w_snd_info w2) = si_cwnd (w_snd_info w)" "si_rwnd (w_snd_info w2) = si_rwnd (w_snd_info w)"
    "w_s_sending_standby w2 = w_s_sending_standby w" "length (env_sent (w_env w2)) = Suc (length (env_sent (w_env w)))"
    using assms q by (simp_all add: w2_def w1_def put_in_flight_def Let_def)
  let ?w3 = "w2\<lparr> w_timer_state := now, w_state := WCB_FIN_WAIT_1, w_s_flag := set_flag (w_s_flag w2) WRITE_LOCAL_FIN_SENT \<rparr>"
  have "test_flag (set_flag f WRITE_LOCAL_FIN_SENT) WRITE_LOCAL_FIN_SENT" for f :: byte
    by (simp add: test_flag_def set_flag_def WRITE_LOCAL_FIN_SENT_def bit.conj_disj_distrib2 or_eq_0_iff)
  moreover have "send_sending now [?p] w = Some (Send_break, [q], ?w3)"
    using nc m1 assms(1,5,6) q w2(1) by (simp add: w2_def [symmetric] fin_sent_def) (simp add: w1_def)
  ultimately show ?thesis using w2 q by (intro exI [of _ q] exI [of _ ?w3]) simp
qed

lemma send_stuck_fin:
  assumes "pack_total_bytes q = 16" "wp_seq q \<noteq> si_next (w_snd_info w)" "w_snd_nflight_bytes w = 16"
    "32 < si_cwnd (w_snd_info w)" "32 < si_rwnd (w_snd_info w)"
  shows "send_sending now (q # qs) w = None"
proof -
  have "\<not> congested q w"
    using assms(4,5) unfolding congested_def assms(1,3) by (auto simp: min_def word_to_nat)
  then show ?thesis using assms(2) by simp
qed

lemma shutdown_idle:
  assumes "idle w"
  shows "\<exists>w1. wcb_shutdown WCB_SHUT_WR w = Some (OK, None, w1) \<and>
    w1 = (FIN w)\<lparr> w_s_flag := WRITE_LOCAL_WRITE_SHUTDOWNED \<rparr>"
  using assms
  by (simp add: wcb_shutdown_def idle_def FIN_def push_standby_def WCB_SHUT_WR_def WCB_SHUT_RD_def WCB_SHUT_RDWR_def
      test_flag_def set_flag_def)

lemma send_passes_shutdown:
  assumes idle: "idle w" and w1: "w1 = (FIN w)\<lparr> w_s_flag := WRITE_LOCAL_WRITE_SHUTDOWNED \<rparr>"
  shows "\<exists>q w'. send_sending now [new_pack (si_dsn (w_snd_info w)) WCP_FLAG_FIN None]
      (w1\<lparr> w_snd_sending := [new_pack (si_dsn (w_snd_info w)) WCP_FLAG_FIN None], w_s_sending_standby := [] \<rparr>)
        = Some (Send_break, [q], w') \<and> w_state w' = WCB_FIN_WAIT_1 \<and>
    length (env_sent (w_env w')) = Suc (length (env_sent (w_env w))) \<and>
    send_sending now [q] (w'\<lparr> w_snd_sending := [q] \<rparr>) = None \<and> check_send now w1 = None"
proof -
  let ?p = "new_pack (si_dsn (w_snd_info w)) WCP_FLAG_FIN None"
  let ?wf = "w1\<lparr> w_snd_sending := [?p], w_s_sending_standby := [] \<rparr>"
  have w1f: "w_snd_sending w1 = []" "w_s_sending_standby w1 = [?p]" "w_s_sending_ignore_seq_space w1 = []"
    "\<not> test_flag (w_s_flag w1) WRITE_SEND_ERROR" "\<not> test_flag (w_r_flag w1) READ_RWND_MORE_THAN_MTU"
    "rb_count (w_sb w1) = 0" "w_env w1 = w_env w"
    using idle by (simp_all add: w1 FIN_def push_standby_def idle_def test_flag_def WCB_flag_defs)
  have pre: "w_state ?wf = WCB_ESTABLISHED" "w_remote_addr ?wf \<noteq> 0" "\<forall>k. env_send_rt (w_env ?wf) k = OK"
    "w_snd_nflight_bytes ?wf = 0" "si_una (w_snd_info ?wf) \<le> si_dsn (w_snd_info w)"
    "si_next (w_snd_info ?wf) = si_dsn (w_snd_info w)" "32 < si_cwnd (w_snd_info ?wf)" "32 < si_rwnd (w_snd_info ?wf)"
    using idle unfolding idle_def w1 FIN_def push_standby_def by auto
  from send_fin_pass [OF pre, of now] obtain q w' where
    s: "send_sending now [?p] ?wf = Some (Send_break, [q], w')" "wp_seq q = si_dsn (w_snd_info w)"
      "pack_total_bytes q = 16" "w_state w' = WCB_FIN_WAIT_1" "si_next (w_snd_info w') = si_dsn (w_snd_info w) + 1"
      "w_snd_nflight_bytes w' = 16" "si_cwnd (w_snd_info w') = si_cwnd (w_snd_info ?wf)"
      "si_rwnd (w_snd_info w') = si_rwnd (w_snd_info ?wf)" "test_flag (w_s_flag w') WRITE_LOCAL_FIN_SENT"
      "w_s_sending_standby w' = []" "length (env_sent (w_env w')) = Suc (length (env_sent (w_env w)))"
    using w1f(7) by auto
  have stuck: "send_sending now [q] (w'\<lparr> w_snd_sending := [q] \<rparr>) = None"
    using s(2,3,5-8) pre(7,8) by (intro send_stuck_fin) simp_all
  have same: "w'\<lparr> w_snd_sending := [q], w_s_sending_standby := [] \<rparr> = w'\<lparr> w_snd_sending := [q] \<rparr>"
    using s(10) by (cases w') simp
  have p3: "send_passes (Suc fuel) now (w'\<lparr> w_snd_sending := [q] \<rparr>) = None" for fuel
    using stuck by (simp del: send_sending.simps)
  have p2: "send_passes (Suc (Suc fuel)) now ?wf = None" for fuel
    using s(1,9,10) p3 [of fuel]
    by (simp add: flush_standby_def Let_def same del: send_sending.simps send_passes.simps(2)
        add: send_passes.simps(2) [of "Suc fuel" now ?wf])
  have fill: "send_fill n m ?wf = Some ?wf" for n m
    using w1f(6) by (simp add: send_fill.simps)
  have fl: "flush_standby (w1\<lparr> w_snd_sending := [] \<rparr>) = ?wf" using w1f(2) by (simp add: flush_standby_def)
  have p1: "send_passes (Suc (Suc (Suc fuel))) now w1 = None" for fuel
    using w1f(1) p2 [of fuel] fill fl
    by (simp add: Let_def del: send_passes.simps(2) add: send_passes.simps(2) [of "Suc (Suc fuel)" now w1])
  obtain fuel where "send_fuel w1 = Suc (Suc (Suc fuel))"
    using that [of "2 + length (w_snd_sending w1) + 2 * unat (rb_count (w_sb w1))"] w1f(2) by (simp add: send_fuel_def)
  moreover have e: "w1\<lparr> w_s_sending_ignore_seq_space := [] \<rparr> = w1" using w1f(3) by (cases w1) simp
  have "check_send now w1 = send_passes (send_fuel w1) now w1"
    using w1f(3-5) by (simp add: e check_send_def force_rwnd_update_def Let_def del: send_passes.simps)
  ultimately have "check_send now w1 = None" using p1 by (simp del: send_passes.simps)
  with s(1,4,11) stuck show ?thesis by blast
qed

section \<open>Properties\<close>

text \<open>
  C6: the state machine. Whatever packs are pending and whatever the socket answers, a tick of update()
  that returns takes the block along the transitions of \<open>wcb_edge\<close>. So a block that is established after
  a tick was established before it or in the handshake, no tick turns a block into a listener, and a
  block becomes recyclable only from the closed state and after close() was called on it.
\<close>

theorem update_follows_state_machine:
  assumes "wcb_update now w = Some w'"
  shows "wcb_edge\<^sup>*\<^sup>* (w_state w) (w_state w') \<and>
    (w_state w' = WCB_ESTABLISHED \<longrightarrow> w_state w \<in> {WCB_SYNING, WCB_SYN_SENT, WCB_SYN_RECEIVED, WCB_ESTABLISHED}) \<and>
    (w_state w' = WCB_LISTEN \<longrightarrow> w_state w = WCB_LISTEN) \<and>
    (w_state w' = WCB_RECYCLE \<and> w_state w \<noteq> WCB_RECYCLE \<longrightarrow>
       w_state w = WCB_CLOSED \<and> test_flag (w_wcb_flag w) WCB_FLAG_CLOSED_CALLED)"
  using wcb_update_path [OF assms] wcb_update_recycle [OF assms] path_to_established path_from_listen by metis

theorem update_follows_state_machine_witness:
  "\<exists>w'. wcb_update 90000 (sample_wcb\<lparr> w_state := WCB_SYN_SENT \<rparr>) = Some w' \<and> wcb_edge\<^sup>*\<^sup>* WCB_SYN_SENT (w_state w')"
proof -
  let ?w = "sample_wcb\<lparr> w_state := WCB_SYN_SENT \<rparr>"
  obtain w' where "wcb_update 90000 ?w = Some w'" "w_state ?w = WCB_SYN_SENT"
    by (simp add: wcb_update_def sample_wcb_def WCP_SYN_MAX_TIME_def)
  with update_follows_state_machine [of 90000 ?w w'] show ?thesis by metis
qed

text \<open>
  C26: close() aborts. The first call of close() always succeeds: it moves the block to the closed state from
  whatever state it is in, reports ECONNABORTED unless an error was recorded before, queues no FIN and
  leaves every queue and buffer alone. A second call reports EALREADY, and the next tick recycles the
  block. An established connection is therefore never closed in order: the condition that should select the
  handshake states ends in a bare enumerator and is always true.
\<close>

theorem close_aborts_and_recycles:
  assumes "\<not> test_flag (w_wcb_flag w) WCB_FLAG_CLOSED_CALLED"
  shows "\<exists>w'. wcb_close w = Some (OK, None, w') \<and> w_state w' = WCB_CLOSED \<and>
    w_wcb_errno w' = (if w_wcb_errno w = OK then E_ECONNABORTED else w_wcb_errno w) \<and>
    w_snd_sending w' = w_snd_sending w \<and> w_s_sending_standby w' = w_s_sending_standby w \<and>
    w_snd_info w' = w_snd_info w \<and> w_sb w' = w_sb w \<and> w_env w' = w_env w \<and>
    wcb_close w' = Some (E_EALREADY, Some E_EALREADY, w') \<and>
    wcb_update now w' = Some (w'\<lparr> w_state := WCB_RECYCLE \<rparr>)"
proof -
  have f: "test_flag (set_flag f WCB_FLAG_CLOSED_CALLED) WCB_FLAG_CLOSED_CALLED"
    "test_flag (set_flag s WRITE_LOCAL_WRITE_SHUTDOWNED) WRITE_LOCAL_WRITE_SHUTDOWNED"
    "test_flag (set_flag s READ_LOCAL_READ_SHUTDOWNED) READ_LOCAL_READ_SHUTDOWNED" for f :: u16 and s :: byte
    by (simp_all add: test_flag_def set_flag_def bit.conj_disj_distrib2 or_eq_0_iff WCB_flag_defs)
  show ?thesis using assms by (simp add: wcb_close_def wcb_update_def Let_def f)
qed

theorem close_aborts_and_recycles_witness:
  "\<exists>w'. wcb_close sample_wcb = Some (OK, None, w') \<and> w_state w' = WCB_CLOSED \<and> w_wcb_errno w' = E_ECONNABORTED \<and>
    wcb_update 7 w' = Some (w'\<lparr> w_state := WCB_RECYCLE \<rparr>)"
proof -
  have w: "\<not> test_flag (w_wcb_flag sample_wcb) WCB_FLAG_CLOSED_CALLED" "w_wcb_errno sample_wcb = OK"
    by (simp_all add: sample_wcb_def test_flag_def WCB_flag_defs OK_def)
  from close_aborts_and_recycles [OF w(1), of 7] w(2) show ?thesis by auto
qed

text \<open>
  C27: shutting down an idle connection throws. On an established connection with nothing queued, nothing in
  flight and room in both windows, shutdown() for writing succeeds and queues a FIN. The next check_send()
  sends the FIN and enters FIN_WAIT_1, but leaves the pack at the head of the queue; the pass that follows
  finds a pack whose number is not snd_info.next, fails its assertion, and check_send() throws.
\<close>

theorem shutdown_of_idle_connection_throws:
  assumes "idle w"
  shows "\<exists>w1 q w2. wcb_shutdown WCB_SHUT_WR w = Some (OK, None, w1) \<and>
    send_sending now [new_pack (si_dsn (w_snd_info w)) WCP_FLAG_FIN None]
      (w1\<lparr> w_snd_sending := [new_pack (si_dsn (w_snd_info w)) WCP_FLAG_FIN None], w_s_sending_standby := [] \<rparr>)
        = Some (Send_break, [q], w2) \<and> w_state w2 = WCB_FIN_WAIT_1 \<and>
    length (env_sent (w_env w2)) = Suc (length (env_sent (w_env w))) \<and>
    send_sending now [q] (w2\<lparr> w_snd_sending := [q] \<rparr>) = None \<and> check_send now w1 = None"
  using shutdown_idle [OF assms] send_passes_shutdown [OF assms] by blast

theorem shutdown_of_idle_connection_throws_witness:
  "\<exists>w1. wcb_shutdown WCB_SHUT_WR sample_wcb = Some (OK, None, w1) \<and> check_send 5 w1 = None"
proof -
  have "idle sample_wcb"
    by (simp add: idle_def sample_wcb_def sample_env_def WCP_const_defs test_flag_def OK_def)
  from shutdown_of_idle_connection_throws [OF this, of 5] show ?thesis by blast
qed

end
