(* ===== verification/Wcb_Ident.thy ===== *)
theory Wcb_Ident
  imports Wcb_Update_Props
begin

text \<open>
  The identity of a control block, its descriptor and its four-tuple hash, never changes after the
  block was created, and only the listener's own code changes its queues of connections: no path
  through update() or close() of a block touches them. The tables of the manager rely on this.
\<close>

definition ident :: "WCB \<Rightarrow> int \<times> u32" where
  "ident w = (w_fd w, w_four_tuple_hash_id w)"

definition queues :: "WCB \<Rightarrow> wref list \<times> wref list \<times> u32" where
  "queues w = (w_backlogq w, w_backloglist_pending w, w_backlog_size w)"

definition core :: "WCB \<Rightarrow> int \<times> u32 \<times> wref list \<times> wref list \<times> u32" where
  "core w = (w_fd w, w_four_tuple_hash_id w, w_backlogq w, w_backloglist_pending w, w_backlog_size w)"

lemma core_eq: "core w' = core w \<longleftrightarrow> ident w' = ident w \<and> queues w' = queues w"
  by (auto simp: core_def ident_def queues_def)

section \<open>Sending\<close>

lemma send_pack_core: "send_pack p w = Some (rt, p', w') \<Longrightarrow> core w' = core w"
  by (auto simp: send_pack_def core_def Let_def elim!: bind_SomeE split: if_splits prod.splits)

lemma set_send_error_core [simp]: "core (set_send_error rt w) = core w"
  by (simp add: set_send_error_def core_def)

lemma tuning_core [simp]: "core (check_cwnd n w) = core w" "core (rtt_sample rtt w) = core w"
  "core (fast_recovery_check a w) = core w"
  by (simp_all add: check_cwnd_def rtt_sample_def fast_recovery_check_def curr_milliseconds_def core_def Let_def)

lemma handle_pack_acked_core:
  assumes "handle_pack_acked p now w = Some w'"
  shows "core w' = core w"
proof -
  have "core (v\<lparr> w_snd_nflight_bytes := n \<rparr>) = core v" for v n by (simp add: core_def)
  then show ?thesis using assms by (simp add: handle_pack_acked_def Let_def split: if_splits; clarify; simp)
qed

lemma flights_loop_core:
  "flights_loop now ps w l m = Some (qs, w', l', m') \<Longrightarrow> core w' = core w"
proof (induction ps arbitrary: w l m qs w' l' m')
  case (Cons p ps)
  show ?case
  proof (cases "test_flag (w_wcb_flag w) SND_UNA_UPDATE \<and> wp_seq p < si_una (w_snd_info w)")
    case True
    with Cons show ?thesis by (auto elim!: bind_SomeE dest: handle_pack_acked_core)
  next
    case False
    define r where "r = retransmit_reason now p w"
    define w1 where "w1 = (if r = 3 \<and> \<not> test_flag (w_wcb_flag w) SND_LOST_DETECTED \<and> wp_seq p > w_snd_lost_biggest_seq w
                    then w\<lparr> w_snd_lost_biggest_seq := wp_seq p \<rparr> else w)"
    have s1: "core w1 = core w" by (simp add: w1_def core_def)
    show ?thesis
      using Cons.prems False unfolding flights_loop.simps Let_def r_def [symmetric] w1_def [symmetric]
      by (auto elim!: bind_SomeE split: if_splits dest!: send_pack_core Cons.IH simp: s1)
  qed
qed simp

lemma lost_detected_core: "lost_detected now w = Some w' \<Longrightarrow> core w' = core w"
  by (auto simp: lost_detected_def core_def Let_def split: if_splits)

lemma check_flights_core:
  assumes "check_flights now w = Some w'"
  shows "core w' = core w"
proof -
  have "core (v\<lparr> w_snd_flights := fs, w_wcb_flag := f \<rparr>) = core v" "core (v\<lparr> w_snd_last_rto_timer := t \<rparr>) = core v"
    for v fs f t by (simp_all add: core_def)
  then show ?thesis
    using assms unfolding check_flights_def Let_def
    by (auto elim!: bind_SomeE split: if_splits dest!: flights_loop_core lost_detected_core)
qed

lemma send_slots_core: "send_slots n p w = Some (k, q, b, w') \<Longrightarrow> core w' = core w"
proof (induction n arbitrary: p w)
  case (Suc n)
  then show ?case by (auto elim!: bind_SomeE split: if_splits dest!: send_pack_core)
qed simp

lemma send_ignore_core: "send_ignore es w = Some (fs, b, w') \<Longrightarrow> core w' = core w"
proof (induction es arbitrary: w)
  case (Cons e es)
  then show ?case by (cases e) (auto elim!: bind_SomeE split: if_splits dest!: send_slots_core)
qed simp

lemma put_in_flight_core [simp]: "core (put_in_flight now p w) = core w"
  by (simp add: put_in_flight_def core_def Let_def)

lemma fin_syn_sent_core:
  "fin_sent now w = Some w' \<Longrightarrow> core w' = core w" "syn_sent w = Some w' \<Longrightarrow> core w' = core w"
  by (auto simp: fin_sent_def syn_sent_def core_def split: WCB_State.splits if_splits)

lemma send_sending_core: "send_sending now ps w = Some (r, qs, w') \<Longrightarrow> core w' = core w"
proof (induction ps arbitrary: w r qs w')
  case (Cons p ps)
  then show ?case
    by (auto elim!: bind_SomeE split: if_splits simp: Let_def
        dest!: send_pack_core fin_syn_sent_core Cons.IH)
qed simp

lemma queue_updates_core [simp]:
  "core (flush_standby w) = core w" "core (w\<lparr> w_snd_sending := q \<rparr>) = core w"
  "core (w\<lparr> w_s_sending_ignore_seq_space := es \<rparr>) = core w" "core (force_rwnd_update now w) = core w"
  by (simp_all add: flush_standby_def core_def force_rwnd_update_def update_rwnd_def push_ignore_def split: list.splits)

lemma send_fill_core: "send_fill fuel n w = Some w' \<Longrightarrow> core w' = core w"
proof (induction fuel arbitrary: n w)
  case 0
  then show ?case by (auto simp: send_fill.simps [of 0] split: if_splits)
next
  case (Suc fuel)
  have e: "core (v\<lparr> w_sb := sb, w_snd_sending := q, w_snd_info := i \<rparr>) = core v" for v sb q i by (simp add: core_def)
  from Suc show ?case
    by (fastforce simp: send_fill.simps [of "Suc fuel"] Let_def e elim!: bind_SomeE split: if_splits prod.splits)
qed

lemma send_passes_core: "send_passes fuel now w = Some w' \<Longrightarrow> core w' = core w"
proof (induction fuel arbitrary: w)
  case (Suc fuel)
  from Suc.prems obtain r rest w1 where s: "send_sending now (w_snd_sending w) w = Some (r, rest, w1)"
    by (auto elim!: bind_SomeE)
  let ?w2 = "flush_standby (w1\<lparr> w_snd_sending := rest \<rparr>)"
  let ?n = "si_cwnd (w_snd_info ?w2) - w_snd_nflight_bytes ?w2"
  show ?case
  proof (cases "r = Send_return")
    case True
    with Suc.prems s send_sending_core [OF s] show ?thesis by auto
  next
    case False
    with Suc.prems s obtain w3 where w3:
      "(if \<not> test_flag (w_s_flag ?w2) WRITE_LOCAL_FIN_SENT \<and> ?n > WCP_MTU
        then send_fill (unat (rb_count (w_sb ?w2))) ?n ?w2 else Some ?w2) = Some w3"
      "w3 = w' \<or> send_passes fuel now w3 = Some w'"
      by (auto elim!: bind_SomeE simp: Let_def split: if_splits)
    then have "core w3 = core w1" by (auto split: if_splits dest: send_fill_core)
    with send_sending_core [OF s] w3(2) Suc.IH [of w3] show ?thesis by auto
  qed
qed simp

lemma check_send_core: "check_send now w = Some w' \<Longrightarrow> core w' = core w"
  unfolding check_send_def Let_def
  by (auto elim!: bind_SomeE split: if_splits dest!: send_ignore_core send_passes_core)

section \<open>Receiving\<close>

text \<open>The receiving side also leaves the packs alone that arrive while it works.\<close>

definition rcore where
  "rcore w = (core w, w_received_vec_standby w)"

lemma handle_pack_acked_rcore: "handle_pack_acked p now w = Some w' \<Longrightarrow> rcore w' = rcore w"
proof -
  assume a: "handle_pack_acked p now w = Some w'"
  have "ack_view w' = ack_view w" using a by (simp add: handle_pack_acked_def Let_def split: if_splits; clarify; simp)
  then show ?thesis using handle_pack_acked_core [OF a] by (simp add: ack_view_def rcore_def)
qed

lemma fast_recovery_rcore [simp]: "rcore (fast_recovery_check a w) = rcore w"
  by (simp add: fast_recovery_check_def rcore_def core_def Let_def)

lemma control_rcore [simp]:
  "rcore (FINACK w) = rcore w" "rcore (SYNACK w) = rcore w" "rcore (SYNSYNACK w) = rcore w"
  "rcore (keepalive_reply w) = rcore w" "rcore (FIN w) = rcore w"
  by (simp_all add: FINACK_def SYNACK_def SYNSYNACK_def FIN_def keepalive_reply_def push_standby_def push_ignore_def
      rcore_def core_def)

lemma SACK_rcore [simp]: "rcore (SACK d w) = rcore w"
  using SACK_queue [of d w] by (auto simp: rcore_def core_def)

lemma set_rst_rcore: "set_rst p w = Some w' \<Longrightarrow> rcore w' = rcore w"
  by (auto simp: set_rst_def rcore_def core_def elim!: bind_SomeE)

lemma deliver_rcore:
  "deliver_data p w = Some (r, w') \<Longrightarrow> rcore w' = rcore w"
  "deliver_ack now p w = Some w' \<Longrightarrow> rcore w' = rcore w"
  by (auto simp: deliver_data_def deliver_ack_def Let_def rcore_def core_def elim!: bind_SomeE
      split: if_splits prod.splits WCB_State.splits dest!: set_rst_rcore)

lemma deliver_syn_rcore:
  assumes "deliver_syn p w = Some (r, w')"
  shows "rcore w' = rcore w"
proof -
  have "rcore (w\<lparr> w_remote_addr := a \<rparr>) = rcore w" for a by (simp add: rcore_def core_def)
  then show ?thesis
    using assms by (auto simp: deliver_syn_def elim!: bind_SomeE split: if_splits dest!: set_rst_rcore)
qed

lemma deliver_fin_rcore:
  assumes "deliver_fin now p w = Some w'"
  shows "rcore w' = rcore w"
proof -
  from assms obtain w1 where "w' = FINACK w1" "rcore w1 = rcore w"
    by (auto simp: deliver_fin_def elim!: bind_SomeE split: WCB_State.splits dest!: set_rst_rcore)
      (simp_all add: rcore_def core_def)
  then show ?thesis by simp
qed

lemma deliver_one_rcore:
  assumes "deliver_one now p w = Some (r, w')"
  shows "rcore w' = rcore w"
proof -
  have e: "rcore (v\<lparr> w_rcv_info := i \<rparr>) = rcore v" "rcore (v\<lparr> w_wcb_errno := n, w_state := t \<rparr>) = rcore v"
    for v i n t by (simp_all add: rcore_def core_def)
  show ?thesis
    using assms
    by (auto simp: deliver_one_def Let_def e elim!: bind_SomeE split: if_splits option.splits
        dest!: deliver_rcore deliver_syn_rcore deliver_fin_rcore)
qed

lemma deliver_all_rcore: "deliver_all now ps w = Some (qs, w') \<Longrightarrow> rcore w' = rcore w"
  by (induction ps arbitrary: w)
    (auto elim!: bind_SomeE split: if_splits deliver_result.splits dest!: deliver_one_rcore)

lemma recv_one_rcore: "recv_one p (w, q) = Some (w', q') \<Longrightarrow> rcore w' = rcore w"
  by (auto simp: recv_one_def keepalive_reply_def push_ignore_def rcore_def core_def Let_def elim!: bind_SomeE split: if_splits)

lemma recv_all_rcore: "recv_all ps (w, q) = Some (w', q') \<Longrightarrow> rcore w' = rcore w"
  by (induction ps arbitrary: w q) (auto elim!: bind_SomeE dest!: recv_one_rcore)

lemma ack_one_rcore:
  assumes "ack_one now a w = Some w'"
  shows "rcore w' = rcore w"
proof -
  define w1 where "w1 = (if a > w_snd_biggest_ack w
     then w\<lparr> w_snd_biggest_ack := a, w_wcb_flag := set_flag (w_wcb_flag w) SND_BIGGEST_SACK_UPDATE \<rparr> else w)"
  have s1: "rcore w1 = rcore w" "rcore (v\<lparr> w_snd_flights := fs \<rparr>) = rcore v" for v fs
    by (simp_all add: w1_def rcore_def core_def)
  show ?thesis
    using assms unfolding ack_one_def Let_def w1_def [symmetric]
    by (auto elim!: bind_SomeE split: if_splits option.splits dest!: handle_pack_acked_rcore simp: s1)
qed

lemma ack_all_rcore: "ack_all now as w = Some w' \<Longrightarrow> rcore w' = rcore w"
  by (induction as arbitrary: w) (auto elim!: bind_SomeE dest!: ack_one_rcore)

lemma recv_busy_rcore:
  assumes "recv_busy now w = Some w'"
  shows "rcore w' = rcore w"
proof -
  define w0 where "w0 = w\<lparr> w_keepalive_timer_last_received_pack := now, w_keepalive_probes_sent := 0 \<rparr>"
  from assms obtain w1 q w2 rest w3 where r: "recv_all (w_received_vec w) (w0, []) = Some (w1, q)"
    "ack_all now q (if length (w_snd_sacked_pack_tmp w1) \<noteq> 0
       then (SACK (w_snd_sacked_pack_tmp w1) w1)\<lparr> w_snd_sacked_pack_tmp := [] \<rparr> else w1) = Some w2"
    "deliver_all now (w_rcv_received w2) w2 = Some (rest, w3)" "w' = w3\<lparr> w_rcv_received := rest \<rparr>"
    unfolding recv_busy_def Let_def w0_def by (auto elim!: bind_SomeE split del: if_split)
  have e: "rcore (v\<lparr> w_snd_sacked_pack_tmp := d \<rparr>) = rcore v" "rcore w0 = rcore w"
    "rcore (v\<lparr> w_rcv_received := rest \<rparr>) = rcore v" for v d
    by (simp_all add: rcore_def core_def w0_def)
  have "rcore w2 = rcore w"
    using ack_all_rcore [OF r(2)] recv_all_rcore [OF r(1)] e(2) by (simp add: e(1))
  with deliver_all_rcore [OF r(3)] r(4) e(3) show ?thesis by simp
qed

lemma check_recv_core:
  assumes "check_recv now w = Some w'"
  shows "core w' = core w" "w_received_vec_standby w' = []"
proof -
  have f: "core (recv_swap v) = core v" "rcore (recv_swap_buffers v) = rcore v"
    "rcore (recv_idle now v) = rcore v" "w_received_vec_standby (recv_swap v) = []" for v
    by (simp_all add: recv_swap_def recv_swap_buffers_def recv_idle_def keepalive_def push_ignore_def rcore_def core_def Let_def)
  have "rcore w' = rcore (recv_swap w)"
    using assms f(2,3) by (auto simp: check_recv_def Let_def elim!: bind_SomeE split: if_splits dest!: recv_busy_rcore)
  then show "core w' = core w" "w_received_vec_standby w' = []" using f(1,4) [of w] by (simp_all add: rcore_def)
qed

section \<open>Ticks and closing\<close>

lemma tick_all_core: "tick_all now w = Some w' \<Longrightarrow> core w' = core w"
  by (auto simp: tick_all_def elim!: bind_SomeE dest!: check_recv_core(1) check_flights_core check_send_core)

lemma wcb_update_core:
  assumes "wcb_update now w = Some w'"
  shows "core w' = core w"
proof -
  have e: "core (v\<lparr> w_state := t \<rparr>) = core v" "core (v\<lparr> w_state := t, w_wcb_errno := n \<rparr>) = core v" for v t n
    by (simp_all add: core_def)
  show ?thesis
    using assms
    by (cases "w_state w")
      (auto simp: wcb_update_def e split: if_splits elim!: bind_SomeE
        dest!: check_flights_core check_send_core tick_all_core)
qed

lemma wcb_close_core: "wcb_close w = Some (rt, e, w') \<Longrightarrow> core w' = core w"
  by (auto simp: wcb_close_def core_def FIN_def push_standby_def Let_def split: if_splits)

text \<open>Calls of the user, and construction.\<close>

lemma wcb_calls_core:
  "wcb_connect a w = Some (res, e, w') \<Longrightarrow> core w' = core w"
  "wcb_shutdown f w = Some (rt, e, w') \<Longrightarrow> core w' = core w"
  "set_rcv_buffer_size junk w n = Some (rt, w') \<Longrightarrow> core w' = core w"
  "set_snd_buffer_size junk w n = Some (rt, w') \<Longrightarrow> core w' = core w"
  "pump_packs w = Some w' \<Longrightarrow> core w' = core w"
  by (auto simp: wcb_connect_def SYN_def wcb_shutdown_def set_rcv_buffer_size_def set_snd_buffer_size_def pump_packs_def
      core_def FIN_def push_standby_def curr_milliseconds_def Let_def elim!: bind_SomeE split: if_splits)

lemma wcb_init_queues: "wcb_init junk w0 = Some w \<Longrightarrow> w_backlogq w = [] \<and> w_backloglist_pending w = []"
  by (auto simp: wcb_init_def Let_def elim!: bind_SomeE split: prod.splits)

end
