(* ===== verification/Wcp_Manager_Props.thy ===== *)
theory Wcp_Manager_Props
  imports Wcp_Api Wcb_Ident
begin

text \<open>
  The tables of the manager. Entries keep the descriptor of their block, references are handed out
  once, and a listener never holds more connections than its backlog; a tick removes every block
  that became recyclable. The invariant is kept by every call and by the ticker.
\<close>

section \<open>The invariant\<close>

definition queue_ok :: "wref \<Rightarrow> WCB \<Rightarrow> bool" where
  "queue_ok l w \<longleftrightarrow> length (w_backlogq w) + length (w_backloglist_pending w) \<le> unat (w_backlog_size w) \<and>
     l \<notin> set (w_backloglist_pending w)"

text \<open>A block that was created and neither connected nor bound to a listener yet.\<close>

definition unused :: "WCB \<Rightarrow> bool" where
  "unused w \<longleftrightarrow> w_state w \<in> {WCB_CLOSED, WCB_RECYCLE} \<and> w_backlogq w = [] \<and> w_backloglist_pending w = []"

abbreviation live_entry :: "wcp \<Rightarrow> int \<Rightarrow> wref \<Rightarrow> bool" where
  "live_entry s k r \<equiv> \<exists>w. m_heap s r = Some w \<and> w_fd w = k"

abbreviation pending_entry :: "wcp \<Rightarrow> int \<Rightarrow> wref \<Rightarrow> bool" where
  "pending_entry s k r \<equiv> \<exists>w. m_heap s r = Some w \<and> w_fd w = k \<and> unused w"

definition wcp_inv :: "wcp \<Rightarrow> bool" where
  "wcp_inv s \<longleftrightarrow> (\<forall>r w. m_heap s r = Some w \<longrightarrow> r < m_next_ref s \<and> queue_ok r w) \<and>
     smap.entries (live_entry s) (m_wcb_map s) \<and>
     smap.entries (pending_entry s) (m_wcb_create_pending_map s)"

lemma wcp_inv_heap: "wcp_inv s \<Longrightarrow> m_heap s r = Some w \<Longrightarrow> r < m_next_ref s \<and> queue_ok r w"
  by (simp add: wcp_inv_def)

text \<open>The members the invariant is about.\<close>

definition table_view where
  "table_view s = (m_heap s, m_next_ref s, m_wcb_map s, m_wcb_create_pending_map s)"

lemma wcp_inv_view: "table_view s' = table_view s \<Longrightarrow> wcp_inv s' = wcp_inv s"
  by (simp add: table_view_def wcp_inv_def)

lemma table_view_frame [simp]:
  "table_view (snd (os_call s)) = table_view s" "table_view (wcb_so_close r c s) = table_view s"
  "table_view (set_last_errno e s) = table_view s" "table_view (watch r s) = table_view s"
  "table_view (snd (make_wcb_fd s)) = table_view s" "table_view (so_begin_async_read r s) = table_view s"
  "table_view (note_errno eo s) = table_view s" "table_view (snd (fail_with e s)) = table_view s"
  by (simp_all add: table_view_def os_call_def wcb_so_close_def set_last_errno_def watch_def make_wcb_fd_def
      so_begin_async_read_def note_errno_def fail_with_def split: option.splits)

lemma table_view_turnon [simp]: "table_view (snd (so_turnon_nonblocking r s)) = table_view s"
  by (simp add: so_turnon_nonblocking_def Let_def split_beta) (simp add: table_view_def os_call_def)

lemma table_view_prepare [simp]: "table_view (snd (prepare_socket n s)) = table_view s"
  by (induction n arbitrary: s) (simp_all add: Let_def split_beta)

lemma table_view_four_tuple:
  "add_to_four_tuple_hash_map r s = Some (rt, s') \<Longrightarrow> table_view s' = table_view s"
  "remove_from_four_tuple_hash_map r s = Some (rt, s') \<Longrightarrow> table_view s' = table_view s"
  by (auto simp: add_to_four_tuple_hash_map_def remove_from_four_tuple_hash_map_def fail_with_def table_view_def
      set_last_errno_def elim!: bind_SomeE split: if_splits)

section \<open>Changing one block\<close>

text \<open>
  \<open>evolves w w'\<close>: what the code may do to one block of a table: keep its descriptor, keep an unused block
  unused, and not make it recyclable.
\<close>

definition evolves :: "WCB \<Rightarrow> WCB \<Rightarrow> bool" where
  "evolves w w' \<longleftrightarrow> w_fd w' = w_fd w \<and> (unused w \<longrightarrow> unused w')"

definition ext :: "wcp \<Rightarrow> wcp \<Rightarrow> bool" where
  "ext s s' \<longleftrightarrow> wcp_inv s' \<and> m_wcb_map s' = m_wcb_map s \<and>
     (\<forall>r w. m_heap s r = Some w \<longrightarrow> (\<exists>w'. m_heap s' r = Some w' \<and>
        (w_state w' = WCB_RECYCLE \<longrightarrow> w_state w = WCB_RECYCLE)))"

lemma ext_refl: "wcp_inv s \<Longrightarrow> ext s s"
  by (simp add: ext_def)

lemma ext_trans: "ext s t \<Longrightarrow> ext t u \<Longrightarrow> ext s u"
  unfolding ext_def by metis

lemma ext_inv: "ext s t \<Longrightarrow> wcp_inv t"
  by (simp add: ext_def)

lemma ext_view: "wcp_inv s \<Longrightarrow> table_view s' = table_view s \<Longrightarrow> ext s s'"
  using wcp_inv_view [of s' s] by (simp add: ext_def table_view_def)

lemma inv_put:
  assumes "wcp_inv s" "m_heap s r = Some w" "queue_ok r w'" "evolves w w'"
  shows "wcp_inv (put_wcb r w' s)"
proof -
  have "smap.entries (live_entry (put_wcb r w' s)) (m_wcb_map s)"
    "smap.entries (pending_entry (put_wcb r w' s)) (m_wcb_create_pending_map s)"
    using assms by (auto simp: wcp_inv_def put_wcb_def evolves_def elim!: smap.entries_mono)
  then show ?thesis using assms by (auto simp: wcp_inv_def put_wcb_def)
qed

lemma ext_put:
  assumes "wcp_inv s" "m_heap s r = Some w" "queue_ok r w'" "evolves w w'"
    "w_state w' = WCB_RECYCLE \<longrightarrow> w_state w = WCB_RECYCLE"
  shows "ext s (put_wcb r w' s)"
  using inv_put [OF assms(1-4)] assms(2,5) by (auto simp: ext_def put_wcb_def)

lemma inv_put_new:
  assumes "wcp_inv s" "m_heap s r = None" "r < m_next_ref s" "queue_ok r w'"
  shows "ext s (put_wcb r w' s)"
proof -
  have "smap.entries (live_entry (put_wcb r w' s)) (m_wcb_map s)"
    "smap.entries (pending_entry (put_wcb r w' s)) (m_wcb_create_pending_map s)"
    using assms by (auto simp: wcp_inv_def put_wcb_def elim!: smap.entries_mono)
  then show ?thesis using assms by (auto simp: ext_def wcp_inv_def put_wcb_def)
qed

lemma core_queue_ok: "core w' = core w \<Longrightarrow> queue_ok l w' = queue_ok l w"
  by (simp add: queue_ok_def core_def)

lemma core_evolves: "core w' = core w \<Longrightarrow> w_state w' = w_state w \<Longrightarrow> evolves w w'"
  by (simp add: evolves_def unused_def core_def)

lemma put_core:
  assumes "wcp_inv s" "m_heap s r = Some w" "core w' = core w" "w_state w' = w_state w"
  shows "ext s (put_wcb r w' s)"
proof (rule ext_put [OF assms(1,2) _ core_evolves [OF assms(3,4)]])
  show "queue_ok r w'" using core_queue_ok [OF assms(3)] wcp_inv_heap [OF assms(1,2)] by blast
qed (simp add: assms(4))

lemma path_from_closed: "wcb_path s t \<Longrightarrow> s \<in> {WCB_CLOSED, WCB_RECYCLE} \<Longrightarrow> t \<in> {WCB_CLOSED, WCB_RECYCLE}"
  by (induction rule: rtranclp_induct) (auto elim: wcb_edge.cases)

lemma wcb_update_evolves:
  assumes "wcb_update now w = Some w'"
  shows "evolves w w'" "queue_ok l w' = queue_ok l w"
  using wcb_update_core [OF assms] path_from_closed [OF wcb_update_path [OF assms]]
  by (auto simp: evolves_def unused_def core_def queue_ok_def)

lemma wcb_close_state:
  assumes "wcb_close w = Some (rt, e, w')"
  shows "w_state w' = w_state w \<or> w_state w' = WCB_CLOSED"
  using assms by (auto simp: wcb_close_def Let_def split: if_splits)

lemma wcb_close_evolves:
  assumes "wcb_close w = Some (rt, e, w')"
  shows "evolves w w'" "queue_ok l w' = queue_ok l w"
  using wcb_close_core [OF assms] wcb_close_state [OF assms]
  by (auto simp: evolves_def unused_def core_def queue_ok_def)

lemma close_ref_ok:
  assumes "close_ref r w s = Some (rt, t)" "wcp_inv s" "m_heap s r = Some w"
  shows "ext s t" "l \<noteq> r \<Longrightarrow> m_heap t l = m_heap s l"
proof -
  from assms(1) obtain e w' where c: "wcb_close w = Some (rt, e, w')" "t = put_wcb r w' (note_errno e s)"
    by (auto simp: close_ref_def elim!: bind_SomeE)
  have n: "m_heap (note_errno e s) = m_heap s" using table_view_frame(7) [of e s] by (simp add: table_view_def)
  have e: "ext s (note_errno e s)" using assms(2) by (intro ext_view) simp_all
  have "ext (note_errno e s) t"
    unfolding c(2) using ext_inv [OF e] assms(3) n wcb_close_evolves [OF c(1)] wcp_inv_heap [OF assms(2,3)] wcb_close_state [OF c(1)]
    by (intro ext_put [of _ r w]) auto
  with e show "ext s t" by (rule ext_trans)
  show "l \<noteq> r \<Longrightarrow> m_heap t l = m_heap s l" by (simp add: c(2) put_wcb_def n)
qed

section \<open>Listeners\<close>

abbreviation listening :: "wref \<Rightarrow> wcp \<Rightarrow> bool" where
  "listening l s \<equiv> \<exists>w. m_heap s l = Some w \<and> w_state w = WCB_LISTEN"

lemma view_heap: "table_view s' = table_view s \<Longrightarrow> m_heap s' = m_heap s"
  by (simp add: table_view_def)

lemma listener_rst_ok:
  assumes "listener_rst l p s = Some s'" "wcp_inv s" "listening l s"
  shows "ext s s' \<and> listening l s'"
proof -
  from assms(1) obtain w env where w: "m_heap s l = Some w" "s' = put_wcb l (w\<lparr> w_env := env \<rparr>) s"
    by (auto simp: listener_rst_def elim!: bind_SomeE)
  have "ext s s'" unfolding w(2) by (rule put_core [OF assms(2) w(1)]) (simp_all add: core_def)
  then show ?thesis using w assms(3) by (simp add: put_wcb_def)
qed

lemma ext_viewed:
  assumes "ext s t" "table_view u = table_view t"
  shows "ext s u"
  using assms ext_trans ext_view ext_inv by metis

lemma accepted_wcb_ok:
  assumes "accepted_wcb lw r p s = Some (w, s')"
  shows "table_view s' = table_view s" "queue_ok l w"
proof -
  define t where "t = snd (make_wcb_fd s)"
  define w1 where "w1 w0 = w0\<lparr> w_wcb_flag := set_flag (w_wcb_flag w0) WCB_FLAG_IS_PASSIVE_OPEN,
     w_four_tuple_hash_id := four_tuple_hash (w_local_addr lw) (rp_from p),
     w_local_addr := os_local_addr (m_os s) r, w_remote_addr := rp_from p, w_fd := fst (make_wcb_fd s) \<rparr>" for w0 :: WCB
  from assms obtain w0 where n: "new_wcb r s = Some w0"
    by (auto simp: accepted_wcb_def elim!: bind_SomeE)
  with assms obtain w2 rt where c2: "set_rcv_buffer_size (os_junk (m_os t)) (w1 w0) (get_rcv_buffer_size lw) = Some (rt, w2)"
    by (auto simp: accepted_wcb_def split_beta Let_def t_def w1_def elim!: bind_SomeE)
  with assms n obtain w3 rt' where c3: "set_snd_buffer_size (os_junk (m_os t)) w2 (get_snd_buffer_size lw) = Some (rt', w3)"
    by (auto simp: accepted_wcb_def split_beta Let_def t_def w1_def elim!: bind_SomeE)
  with assms n c2 have c4: "SYN_RCVD p w3 = Some w" "s' = t"
    by (auto simp: accepted_wcb_def split_beta Let_def t_def w1_def elim!: bind_SomeE)
  have c1: "w_backlogq (w1 w0) = w_backlogq w0" "w_backloglist_pending (w1 w0) = w_backloglist_pending w0"
    by (simp_all add: w1_def)
  show "table_view s' = table_view s" by (simp add: c4(2) t_def)
  have "core w = core w3" using c4(1) by (auto simp: SYN_RCVD_def core_def split: if_splits)
  then have "w_backlogq w = []" "w_backloglist_pending w = []"
    using wcb_calls_core(3) [OF c2] wcb_calls_core(4) [OF c3] c1 wcb_init_queues n
    by (auto simp: core_def new_wcb_def)
  then show "queue_ok l w" by (simp add: queue_ok_def)
qed

text \<open>
  Accepting one connection on a reference that is not in use: either the listener's queues stay as they
  were, or the new reference is appended to the pending list.
\<close>

lemma accept_wcb_ok:
  assumes acc: "accept_wcb l r p s = Some s'" and inv: "wcp_inv s" and r: "m_heap s r = None" "r < m_next_ref s"
    and l: "m_heap s l = Some lw" "w_state lw = WCB_LISTEN"
      "length (w_backlogq lw) + length (w_backloglist_pending lw) < unat (w_backlog_size lw)"
  shows "ext s s' \<and> listening l s'"
proof -
  define s1 where "s1 = snd (so_turnon_nonblocking r s)"
  have v1: "table_view s1 = table_view s" by (simp add: s1_def)
  have rl: "r \<noteq> l" using l r(1) by auto
  have rst: "ext s t \<and> listening l t"
    if "listener_rst l p u = Some t" "ext s u" "m_heap u l = m_heap s l" for t u
    using listener_rst_ok [OF that(1) ext_inv [OF that(2)]] that(2,3) l by (auto intro: ext_trans)
  show ?thesis
  proof (cases "fst (so_turnon_nonblocking r s) = OK")
    case False
    then obtain c where "listener_rst l p (wcb_so_close r c s1) = Some s'"
      using acc l(1) by (auto simp: accept_wcb_def s1_def split_beta)
    moreover have "ext s (wcb_so_close r c s1)" by (rule ext_viewed [OF ext_refl [OF inv]]) (simp add: v1)
    moreover have "m_heap (wcb_so_close r c s1) l = m_heap s l" using view_heap [OF v1] by (simp add: wcb_so_close_def)
    ultimately show ?thesis by (rule rst)
  next
    case True
    with acc l(1) obtain w' t1 s2 rt where w: "accepted_wcb lw r p s1 = Some (w', t1)"
      "add_to_four_tuple_hash_map r (put_wcb r w' t1) = Some (rt, s2)"
      "(if rt < 0 then listener_rst l p (wcb_so_close r 0 s2)
        else do { lw \<leftarrow> m_heap s2 l;
          Some (put_wcb l (lw\<lparr> w_backloglist_pending := w_backloglist_pending lw @ [r] \<rparr>) (watch r s2)) }) = Some s'"
      by (auto simp: accept_wcb_def s1_def split_beta Let_def elim!: bind_SomeE)
    note a = accepted_wcb_ok [OF w(1)]
    have v: "table_view t1 = table_view s" using a(1) v1 by simp
    have et: "ext s (put_wcb r w' t1)"
    proof (rule ext_trans [OF ext_viewed [OF ext_refl [OF inv] v] inv_put_new])
      show "wcp_inv t1" using inv wcp_inv_view [OF v] by simp
      show "m_heap t1 r = None" "r < m_next_ref t1" using v r by (simp_all add: table_view_def)
    qed (rule a(2))
    note v2 = table_view_four_tuple(1) [OF w(2)]
    have e2: "ext s s2" using et v2 by (rule ext_viewed)
    have h2: "m_heap s2 l = Some lw" using view_heap [OF v2] view_heap [OF v] rl l(1)
      by (simp add: put_wcb_def)
    show ?thesis
    proof (cases "rt < 0")
      case True
      with w(3) have "listener_rst l p (wcb_so_close r 0 s2) = Some s'" by simp
      moreover have "ext s (wcb_so_close r 0 s2)" by (rule ext_viewed [OF e2]) simp
      moreover have "m_heap (wcb_so_close r 0 s2) l = m_heap s l" using h2 l(1) by (simp add: wcb_so_close_def)
      ultimately show ?thesis by (rule rst)
    next
      case False
      let ?lw = "lw\<lparr> w_backloglist_pending := w_backloglist_pending lw @ [r] \<rparr>"
      have s': "s' = put_wcb l ?lw (watch r s2)" using w(3) False h2 by simp
      have ew: "ext s (watch r s2)" using e2 by (rule ext_viewed) simp
      have "ext (watch r s2) s'"
        unfolding s' using ext_inv [OF ew] h2 l rl wcp_inv_heap [OF inv l(1)]
        by (intro ext_put [of _ l lw]) (auto simp: watch_def queue_ok_def evolves_def unused_def)
      with ew have "ext s s'" by (rule ext_trans)
      then show ?thesis using l(2) by (simp add: s' put_wcb_def)
    qed
  qed
qed

lemma alloc_ref_ok:
  assumes "wcp_inv s"
  shows "ext s (snd (alloc_ref s))" "m_heap (snd (alloc_ref s)) = m_heap s" "fst (alloc_ref s) = m_next_ref s"
    "m_heap s (m_next_ref s) = None" "m_next_ref (snd (alloc_ref s)) = m_next_ref s + 1"
proof -
  show "m_heap (snd (alloc_ref s)) = m_heap s" "fst (alloc_ref s) = m_next_ref s"
    "m_next_ref (snd (alloc_ref s)) = m_next_ref s + 1" by (simp_all add: alloc_ref_def)
  show "m_heap s (m_next_ref s) = None"
    using wcp_inv_heap [OF assms, of "m_next_ref s"] by (cases "m_heap s (m_next_ref s)") auto
  show "ext s (snd (alloc_ref s))" using assms by (auto simp: ext_def wcp_inv_def alloc_ref_def less_Suc_eq)
qed

lemma listen_handle_pack_ok:
  assumes h: "listen_handle_pack l p s = Some s'" and inv: "wcp_inv s" and l: "listening l s"
  shows "ext s s' \<and> listening l s'"
proof -
  from l obtain lw where lw: "m_heap s l = Some lw" "w_state lw = WCB_LISTEN" by blast
  define s1 where "s1 = snd (prepare_socket 5 (snd (alloc_ref s)))"
  note a = alloc_ref_ok [OF inv]
  have v1: "table_view s1 = table_view (snd (alloc_ref s))" by (simp add: s1_def)
  have e1: "ext s s1" using a(1) v1 by (rule ext_viewed)
  have h1: "m_heap s1 = m_heap s" "m_next_ref s1 = m_next_ref s + 1"
    using v1 a(2,5) by (simp_all add: table_view_def)
  let ?rt = "fst (prepare_socket 5 (snd (alloc_ref s)))"
  have eq: "listen_handle_pack l p s =
     (if length (w_backlogq lw) + length (w_backloglist_pending lw) = unat (w_backlog_size lw) then listener_rst l p s
      else if test_flag (rp_flag p) WCP_FLAG_RST then Some s
      else if \<not> test_flag (rp_flag p) WCP_FLAG_SYN then listener_rst l p s
      else if ?rt \<noteq> OK then listener_rst l p (wcb_so_close (m_next_ref s) ?rt s1)
      else accept_wcb l (m_next_ref s) p s1)"
    by (simp add: listen_handle_pack_def lw Let_def split_beta a(3) s1_def)
  have "listener_rst l p s = Some s' \<or> s' = s \<or> (\<exists>c. listener_rst l p (wcb_so_close (m_next_ref s) c s1) = Some s') \<or>
      accept_wcb l (m_next_ref s) p s1 = Some s' \<and>
      length (w_backlogq lw) + length (w_backloglist_pending lw) \<noteq> unat (w_backlog_size lw)"
    using h unfolding eq by (simp split: if_splits) blast
  then consider (rst) "listener_rst l p s = Some s'" | (same) "s' = s"
    | (fail) c where "listener_rst l p (wcb_so_close (m_next_ref s) c s1) = Some s'"
    | (go) "accept_wcb l (m_next_ref s) p s1 = Some s'"
        "length (w_backlogq lw) + length (w_backloglist_pending lw) \<noteq> unat (w_backlog_size lw)"
    by blast
  then show ?thesis
  proof cases
    case rst
    from listener_rst_ok [OF this inv l] show ?thesis .
  next
    case same
    then show ?thesis using ext_refl [OF inv] l by simp
  next
    case (fail c)
    have e: "ext s (wcb_so_close (m_next_ref s) c s1)" by (rule ext_viewed [OF e1]) simp
    have "listening l (wcb_so_close (m_next_ref s) c s1)" using lw h1(1) by (simp add: wcb_so_close_def)
    from listener_rst_ok [OF fail ext_inv [OF e] this] e show ?thesis by (blast intro: ext_trans)
  next
    case go
    have "length (w_backlogq lw) + length (w_backloglist_pending lw) < unat (w_backlog_size lw)"
      using go(2) wcp_inv_heap [OF inv lw(1)] by (simp add: queue_ok_def)
    with accept_wcb_ok [OF go(1) ext_inv [OF e1]] a(4) h1 lw e1 show ?thesis by (auto intro: ext_trans)
  qed
qed

lemma listen_handle_packs_ok:
  "listen_handle_packs l ps s = Some s' \<Longrightarrow> wcp_inv s \<Longrightarrow> listening l s \<Longrightarrow> ext s s' \<and> listening l s'"
proof (induction ps arbitrary: s)
  case Nil
  then show ?case by (simp add: ext_refl)
next
  case (Cons p ps)
  from Cons.prems(1) obtain t where t: "listen_handle_pack l p s = Some t" "listen_handle_packs l ps t = Some s'"
    by (auto elim!: bind_SomeE)
  from listen_handle_pack_ok [OF t(1) Cons.prems(2,3)] Cons.IH [OF t(2)] show ?case
    by (blast intro: ext_trans dest: ext_inv)
qed

lemma listen_handle_syn_ok:
  assumes "listen_handle_syn l s = Some s'" "wcp_inv s" "listening l s"
  shows "ext s s' \<and> listening l s'"
proof -
  from assms(1) obtain ps t lw' d where t: "listen_handle_packs l ps s = Some t" "m_heap t l = Some lw'"
    "s' = put_wcb l (lw'\<lparr> w_received_vec_standby := d \<rparr>) t"
    by (fastforce simp: listen_handle_syn_def elim!: bind_SomeE split: if_splits)
  from listen_handle_packs_ok [OF t(1) assms(2,3)] have e: "ext s t" "listening l t" by blast+
  have "ext t s'" unfolding t(3) by (rule put_core [OF ext_inv [OF e(1)] t(2)]) (simp_all add: core_def)
  with e t show ?thesis by (auto intro: ext_trans simp: put_wcb_def)
qed

text \<open>Ticking the pending connections leaves the listener alone and never adds a connection.\<close>

lemma update_pending_ok:
  "update_pending now n rs q s = Some (keep, q', s') \<Longrightarrow> wcp_inv s \<Longrightarrow> l \<notin> set rs \<Longrightarrow>
   ext s s' \<and> m_heap s' l = m_heap s l \<and> length keep + length q' \<le> length rs + length q \<and> set keep \<subseteq> set rs"
proof (induction rs arbitrary: q s keep q' s')
  case Nil
  then show ?case by (simp add: ext_refl)
next
  case (Cons r rs)
  from Cons.prems(1) obtain w w1 where w: "m_heap s r = Some w" "wcb_update now w = Some w1"
    "w_state w1 \<in> {WCB_ESTABLISHED, WCB_CLOSE_WAIT, WCB_CLOSED, WCB_SYN_RECEIVED}"
    by (auto simp: Let_def elim!: bind_SomeE split: WCB_State.splits)
  let ?s1 = "put_wcb r w1 s"
  have "queue_ok r w1" using wcb_update_evolves(2) [OF w(2)] wcp_inv_heap [OF Cons.prems(2) w(1)] by simp
  then have e1: "ext s ?s1"
    using w(3) by (intro ext_put [OF Cons.prems(2) w(1) _ wcb_update_evolves(1) [OF w(2)]]) auto
  have l1: "m_heap ?s1 l = m_heap s l" "l \<notin> set rs" "r \<noteq> l" using Cons.prems(3) by (auto simp: put_wcb_def)
  note f1 = ext_inv [OF e1]
  consider (est) "update_pending now n rs (q @ [r]) ?s1 = Some (keep, q', s')"
    | (close) rt t where "close_ref r w1 ?s1 = Some (rt, t)" "update_pending now n rs q t = Some (keep, q', s')"
    | (stay) keep' where "update_pending now n rs q ?s1 = Some (keep', q', s')" "keep = r # keep'"
    using Cons.prems(1) w by (auto simp: Let_def elim!: bind_SomeE split: if_splits)
  then show ?case
  proof cases
    case est
    from Cons.IH [OF est f1 l1(2)] l1(1) e1 show ?thesis by (auto intro: ext_trans)
  next
    case close
    have h: "m_heap ?s1 r = Some w1" by (simp add: put_wcb_def)
    from close_ref_ok [OF close(1) f1 h] l1(1,3) have t: "ext ?s1 t" "m_heap t l = m_heap s l" by auto
    from Cons.IH [OF close(2) ext_inv [OF t(1)] l1(2)] t e1 show ?thesis by (auto intro: ext_trans)
  next
    case stay
    from Cons.IH [OF stay(1) f1 l1(2)] l1(1) e1 stay(2) show ?thesis by (auto intro: ext_trans)
  qed
qed

lemma listener_update_ok:
  assumes u: "listener_update now l s = Some s'" and inv: "wcp_inv s" and l: "listening l s"
  shows "ext s s' \<and> listening l s'"
proof -
  from u obtain lw0 t lw keep q v lw2 where
    t: "m_heap s l = Some lw0"
       "(if \<not> test_flag (w_r_flag lw0) READ_LOCAL_READ_SHUTDOWNED then listen_handle_syn l s else Some s) = Some t"
    and lw: "m_heap t l = Some lw"
       "update_pending now (w_backlog_size lw) (w_backloglist_pending lw) (w_backlogq lw) t = Some (keep, q, v)"
    and v: "m_heap v l = Some lw2" "s' = put_wcb l (lw2\<lparr> w_backloglist_pending := keep, w_backlogq := q \<rparr>) v"
    by (auto simp: listener_update_def wawo_assert_def elim!: bind_SomeE split del: if_split)
  have et: "ext s t \<and> listening l t"
    using t(2) listen_handle_syn_ok [OF _ inv l] ext_refl [OF inv] l by (auto split: if_splits)
  then have q0: "queue_ok l lw" "w_state lw = WCB_LISTEN" using wcp_inv_heap [OF ext_inv lw(1)] lw(1) by auto
  from update_pending_ok [OF lw(2) ext_inv [OF conjunct1 [OF et]], of l] q0(1) have p: "ext t v" "m_heap v l = m_heap t l"
    "length keep + length q \<le> length (w_backloglist_pending lw) + length (w_backlogq lw)"
    "set keep \<subseteq> set (w_backloglist_pending lw)" by (auto simp: queue_ok_def)
  have eq: "lw2 = lw" using v(1) p(2) lw(1) by simp
  have "ext v s'"
    unfolding v(2) using v(1) p q0
    by (intro ext_put [OF ext_inv [OF p(1)] v(1)]) (auto simp: eq queue_ok_def evolves_def unused_def)
  moreover have "listening l s'" using v q0(2) by (simp add: put_wcb_def eq)
  ultimately show ?thesis using et p(1) by (blast intro: ext_trans)
qed

section \<open>The table walk\<close>

text \<open>
  One block of the walk: the result says whether the block became recyclable, and no other block
  does.
\<close>

lemma update_wcb_ok:
  assumes u: "update_wcb r s = Some (st, s')" and inv: "wcp_inv s"
  shows "wcp_inv s' \<and> m_wcb_map s' = m_wcb_map s \<and> (\<exists>w'. m_heap s' r = Some w' \<and> w_state w' = st) \<and>
    (\<forall>x w. x \<noteq> r \<longrightarrow> m_heap s x = Some w \<longrightarrow> (\<exists>w'. m_heap s' x = Some w' \<and>
        (w_state w' = WCB_RECYCLE \<longrightarrow> w_state w = WCB_RECYCLE)))"
proof -
  from u obtain w where w: "m_heap s r = Some w" by (auto simp: update_wcb_def elim!: bind_SomeE)
  define w1 where "w1 = snd (curr_milliseconds w)"
  define now where "now = fst (curr_milliseconds w)"
  define s1 where "s1 = put_wcb r w1 s"
  have w1: "core w1 = core w" "w_state w1 = w_state w" by (simp_all add: w1_def curr_milliseconds_def core_def)
  have e1: "ext s s1" unfolding s1_def by (rule put_core [OF inv w w1])
  have h1: "m_heap s1 r = Some w1" by (simp add: s1_def put_wcb_def)
  from u w obtain w2 where r: "m_heap s' r = Some w2" "w_state w2 = st"
    "(if w_state w1 = WCB_LISTEN then listener_update now r s1
      else do { w \<leftarrow> wcb_update now w1; Some (put_wcb r w s1) }) = Some s'"
    unfolding s1_def now_def w1_def
    by (auto simp: update_wcb_def split_beta Let_def elim!: bind_SomeE split del: if_split)
  show ?thesis
  proof (cases "w_state w1 = WCB_LISTEN")
    case True
    with listener_update_ok [of now r s1 s'] r(3) ext_inv [OF e1] h1 have "ext s1 s'" by auto
    with e1 have "ext s s'" by (rule ext_trans)
    then show ?thesis using r by (auto simp: ext_def)
  next
    case False
    with r(3) obtain w3 where w3: "wcb_update now w1 = Some w3" "s' = put_wcb r w3 s1"
      by (auto elim!: bind_SomeE)
    have "queue_ok r w3" using wcb_update_evolves(2) [OF w3(1)] wcp_inv_heap [OF ext_inv [OF e1] h1] by simp
    then have "wcp_inv s'"
      unfolding w3(2) by (intro inv_put [OF ext_inv [OF e1] h1] wcb_update_evolves(1) [OF w3(1)])
    with r e1 show ?thesis by (auto simp: ext_def w3(2) put_wcb_def)
  qed
qed

lemma update_list_ok:
  "update_list rs s = Some (del, s') \<Longrightarrow> wcp_inv s \<Longrightarrow>
   wcp_inv s' \<and> m_wcb_map s' = m_wcb_map s \<and> set del \<subseteq> set rs \<and>
   (\<forall>x w. m_heap s x = Some w \<longrightarrow> x \<notin> set del \<longrightarrow> x \<in> set rs \<or> w_state w \<noteq> WCB_RECYCLE \<longrightarrow>
      (\<exists>w'. m_heap s' x = Some w' \<and> w_state w' \<noteq> WCB_RECYCLE))"
proof (induction rs arbitrary: s del)
  case (Cons r rs)
  from Cons.prems(1) obtain st s1 where u: "update_wcb r s = Some (st, s1)" by (auto elim!: bind_SomeE)
  note o = update_wcb_ok [OF u Cons.prems(2)]
  from o obtain w1 where w1: "m_heap s1 r = Some w1" "w_state w1 = st" by blast
  show ?case
  proof (cases "st = WCB_RECYCLE")
    case True
    with Cons.prems(1) u w1 obtain del' where d: "update_list rs (wcb_so_close r (w_wcb_errno w1) s1) = Some (del', s')" "del = r # del'"
      by (auto elim!: bind_SomeE)
    have v: "table_view (wcb_so_close r (w_wcb_errno w1) s1) = table_view s1" by simp
    have i: "wcp_inv (wcb_so_close r (w_wcb_errno w1) s1)" using o wcp_inv_view [OF v] by simp
    have h: "m_heap (wcb_so_close r (w_wcb_errno w1) s1) = m_heap s1" "m_wcb_map (wcb_so_close r (w_wcb_errno w1) s1) = m_wcb_map s1"
      using v by (simp_all add: table_view_def)
    from Cons.IH [OF d(1) i] o d(2) show ?thesis unfolding h by (auto, metis+)
  next
    case False
    with Cons.prems(1) u have d: "update_list rs s1 = Some (del, s')" by simp
    have "\<exists>w'. m_heap s' r = Some w' \<and> w_state w' \<noteq> WCB_RECYCLE" if "r \<notin> set del"
      using Cons.IH [OF d] o w1 False that by blast
    with Cons.IH [OF d] o show ?thesis by (auto, metis+)
  qed
qed simp

lemma delete_list_ok:
  "delete_list del s = Some s' \<Longrightarrow> wcp_inv s \<Longrightarrow>
   wcp_inv s' \<and> m_heap s' = m_heap s \<and>
   (\<forall>k r. map_of (m_wcb_map s') k = Some r \<longrightarrow> map_of (m_wcb_map s) k = Some r \<and> r \<notin> set del)"
proof (induction del arbitrary: s)
  case (Cons r rs)
  from Cons.prems(1) obtain w t where t: "m_heap s r = Some w" "table_view t = table_view s"
    "delete_list rs (t\<lparr> m_wcb_map := smap_erase (w_fd w) (m_wcb_map t) \<rparr>) = Some s'"
    by (fastforce elim!: bind_SomeE split: if_splits dest: table_view_four_tuple(2))
  let ?t = "t\<lparr> m_wcb_map := smap_erase (w_fd w) (m_wcb_map t) \<rparr>"
  have tv: "m_heap t = m_heap s" "m_wcb_map t = m_wcb_map s" using t(2) by (simp_all add: table_view_def)
  have it: "wcp_inv t" using Cons.prems(2) wcp_inv_view [OF t(2)] by simp
  then have "wcp_inv ?t" by (auto simp: wcp_inv_def intro: smap.entries_del)
  from Cons.IH [OF t(3) this] have o: "wcp_inv s'" "m_heap s' = m_heap s"
    "\<And>k x. map_of (m_wcb_map s') k = Some x \<Longrightarrow> map_of (smap_erase (w_fd w) (m_wcb_map s)) k = Some x \<and> x \<notin> set rs"
    using tv by auto
  have "map_of (m_wcb_map s) k = Some x \<and> x \<notin> set (r # rs)" if "map_of (m_wcb_map s') k = Some x" for k x
  proof -
    from o(3) [OF that] have x: "map_of (m_wcb_map s) k = Some x" "k \<noteq> w_fd w" "x \<notin> set rs"
      by (auto simp: smap_erase_look split: if_splits)
    from x(1) Cons.prems(2) obtain w' where "m_heap s x = Some w'" "w_fd w' = k"
      by (auto simp: wcp_inv_def dest: smap.entries_look)
    with x t(1) show ?thesis by auto
  qed
  with o show ?case by blast
qed simp

lemma wcp_update_ok:
  assumes "wcp_update s = Some s'" "wcp_inv s"
  shows "wcp_inv s' \<and> (\<forall>k r. map_of (m_wcb_map s') k = Some r \<longrightarrow> map_of (m_wcb_map s) k = Some r \<and>
    (\<exists>w. m_heap s' r = Some w \<and> w_state w \<noteq> WCB_RECYCLE))"
proof -
  from assms(1) obtain del t where d: "update_list (map snd (m_wcb_map s)) s = Some (del, t)" "delete_list del t = Some s'"
    by (auto simp: wcp_update_def elim!: bind_SomeE)
  note u = update_list_ok [OF d(1) assms(2)]
  note e = delete_list_ok [OF d(2) conjunct1 [OF u]]
  have "map_of (m_wcb_map s) k = Some r \<and> (\<exists>w. m_heap s' r = Some w \<and> w_state w \<noteq> WCB_RECYCLE)"
    if "map_of (m_wcb_map s') k = Some r" for k r
  proof -
    have k: "map_of (m_wcb_map s) k = Some r" "r \<notin> set del" using e u that by auto
    then obtain w where "m_heap s r = Some w" using assms(2) by (auto simp: wcp_inv_def dest: smap.entries_look)
    moreover have "r \<in> set (map snd (m_wcb_map s))" using map_of_SomeD [OF k(1)] by force
    ultimately show ?thesis using u e k by metis
  qed
  with e show ?thesis by blast
qed

lemma execute_op_list_ok:
  "execute_op_list ops s = Some s' \<Longrightarrow> wcp_inv s \<Longrightarrow> wcp_inv s'"
proof (induction ops arbitrary: s)
  case Nil
  then show ?case by (auto simp: wcp_inv_def)
next
  case (Cons op ops)
  show ?case
  proof (cases "op_op op = OP_NONE")
    case True
    with Cons.prems show ?thesis by (auto simp: wcp_inv_def)
  next
    case False
    with Cons.prems(1) obtain w where w: "m_heap s (op_wcb op) = Some w"
      "execute_op_list ops (so_begin_async_read (op_wcb op)
         (s\<lparr> m_wcb_map := smap_insert (w_fd w) (op_wcb op) (m_wcb_map s) \<rparr>)) = Some s'"
      by (auto simp: Let_def elim!: bind_SomeE split: if_splits)
    let ?s = "s\<lparr> m_wcb_map := smap_insert (w_fd w) (op_wcb op) (m_wcb_map s) \<rparr>"
    have "wcp_inv ?s" using Cons.prems(2) w(1) by (auto simp: wcp_inv_def intro: smap.entries_ins)
    then have "wcp_inv (so_begin_async_read (op_wcb op) ?s)" using wcp_inv_view [of "so_begin_async_read (op_wcb op) ?s" ?s] by simp
    with Cons.IH w(2) show ?thesis by blast
  qed
qed

end
