(* ===== verification/Wcp_Reach.thy ===== *)
theory Wcp_Reach
  imports Wcp_Manager_Props
begin

text \<open>
  Every call of the manager, every callback of a UDP socket, every tick and every arrival of datagrams at a socket is a step of \<open>wcp_step\<close>. The
  invariant of the tables holds in each state that steps reach from the initial one.
\<close>

section \<open>Calls keep the invariant\<close>

lemma inv_put_used:
  assumes "wcp_inv s" "m_heap s r = Some w" "queue_ok r w'" "w_fd w' = w_fd w"
    "map_of (m_wcb_create_pending_map s) (w_fd w) = None"
  shows "wcp_inv (put_wcb r w' s)"
proof -
  have "smap.entries (live_entry (put_wcb r w' s)) (m_wcb_map s)"
    "smap.entries (pending_entry (put_wcb r w' s)) (m_wcb_create_pending_map s)"
    using assms by (auto simp: wcp_inv_def put_wcb_def elim!: smap.entries_mono)
  then show ?thesis using assms by (auto simp: wcp_inv_def put_wcb_def)
qed

lemma inv_put_core:
  "wcp_inv s \<Longrightarrow> m_heap s r = Some w \<Longrightarrow> core w' = core w \<Longrightarrow> w_state w' = w_state w \<Longrightarrow> wcp_inv (put_wcb r w' s)"
  by (rule ext_inv [OF put_core])

lemma inv_viewed: "wcp_inv s \<Longrightarrow> table_view s' = table_view s \<Longrightarrow> wcp_inv s'"
  using wcp_inv_view by blast

lemma inv_note [simp]:
  "wcp_inv (set_last_errno e s) = wcp_inv s" "wcp_inv (note_errno eo s) = wcp_inv s"
  "wcp_inv (so_begin_async_read r s) = wcp_inv s" "wcp_inv (wcb_so_close r c s) = wcp_inv s"
  "wcp_inv (snd (fail_with e s)) = wcp_inv s" "wcp_inv (snd (os_call s)) = wcp_inv s"
  by (rule wcp_inv_view; simp)+

lemma heap_note [simp]:
  "m_heap (set_last_errno e s) = m_heap s" "m_heap (note_errno eo s) = m_heap s"
  "m_heap (snd (os_call s)) = m_heap s" "m_heap (so_begin_async_read r s) = m_heap s"
  "m_heap (snd (so_turnon_nonblocking r s)) = m_heap s"
  by (rule view_heap; simp)+

lemma new_wcb_unused: "new_wcb r s = Some w \<Longrightarrow> unused w"
  using wcb_init_queues
  by (auto simp: new_wcb_def unused_def wcb_init_def Let_def elim!: bind_SomeE split: prod.splits)

lemma inv_pending_insert:
  assumes "wcp_inv s" "m_heap s r = Some w" "w_fd w = fd" "unused w"
  shows "wcp_inv (s\<lparr> m_wcb_create_pending_map := smap_insert fd r (m_wcb_create_pending_map s) \<rparr>)"
proof -
  have "smap.entries (pending_entry s) (smap_insert fd r (m_wcb_create_pending_map s))"
    using assms by (intro smap.entries_ins) (auto simp: wcp_inv_def)
  with assms(1) show ?thesis by (simp add: wcp_inv_def)
qed

lemma wcp_socket_inv:
  assumes "wcp_socket f t p s = Some (rt, s')" "wcp_inv s"
  shows "wcp_inv s'"
proof -
  define s1 where "s1 = snd (os_call (snd (alloc_ref s)))"
  note a = alloc_ref_ok [OF assms(2)]
  have v1: "table_view s1 = table_view (snd (alloc_ref s))" by (simp add: s1_def)
  have i1: "wcp_inv s1" using inv_viewed [OF ext_inv [OF a(1)] v1] .
  have h1: "m_heap s1 = m_heap s" "m_next_ref s1 = m_next_ref s + 1"
    using v1 a(2,5) by (simp_all add: table_view_def)
  show ?thesis
  proof (cases "fst (os_call (snd (alloc_ref s))) = OK")
    case False
    with assms(1) i1 show ?thesis by (auto simp: wcp_socket_def s1_def split_beta Let_def split: if_splits)
  next
    case True
    define fd where "fd = fst (make_wcb_fd s1)"
    define s2 where "s2 = snd (make_wcb_fd s1)"
    from True assms(1) obtain w where w: "new_wcb (m_next_ref s) s1 = Some w"
      and s': "s' = snd (fail_with E_WCP_INTERNAL_ERROR (put_wcb (m_next_ref s) (w\<lparr> w_fd := fd \<rparr>) s2)) \<or>
        s' = (put_wcb (m_next_ref s) (w\<lparr> w_fd := fd \<rparr>) s2)\<lparr> m_wcb_create_pending_map :=
          smap_insert fd (m_next_ref s) (m_wcb_create_pending_map (put_wcb (m_next_ref s) (w\<lparr> w_fd := fd \<rparr>) s2)) \<rparr>"
      by (auto simp: wcp_socket_def s1_def s2_def fd_def a(3) split_beta Let_def elim!: bind_SomeE split: if_splits)
    let ?w = "w\<lparr> w_fd := fd \<rparr>" and ?s3 = "put_wcb (m_next_ref s) (w\<lparr> w_fd := fd \<rparr>) s2"
    have v2: "table_view s2 = table_view s1" by (simp add: s2_def)
    have u: "unused ?w" using new_wcb_unused [OF w] by (simp add: unused_def)
    have i3: "wcp_inv ?s3"
    proof (rule ext_inv [OF inv_put_new [OF inv_viewed [OF i1 v2]]])
      show "m_heap s2 (m_next_ref s) = None" "m_next_ref s < m_next_ref s2"
        using v2 h1 a(4) by (simp_all add: table_view_def)
      show "queue_ok (m_next_ref s) ?w" using u by (simp add: unused_def queue_ok_def)
    qed
    have "m_heap ?s3 (m_next_ref s) = Some ?w" by (simp add: put_wcb_def)
    from inv_pending_insert [OF i3 this _ u, of fd] i3 s' show ?thesis by auto
  qed
qed

text \<open>Moving a block from the pending table to the live one.\<close>

definition adopt :: "int \<Rightarrow> wref \<Rightarrow> wcp \<Rightarrow> wcp" where
  "adopt fd r s = s\<lparr> m_wcb_create_pending_map := smap_erase fd (m_wcb_create_pending_map s),
                     m_wcb_map := smap_insert fd r (m_wcb_map s) \<rparr>"

lemma adopt_inv:
  assumes "wcp_inv s" "map_of (m_wcb_create_pending_map s) fd = Some r"
  shows "wcp_inv (adopt fd r s)" "m_heap (adopt fd r s) = m_heap s"
    "\<exists>w. m_heap s r = Some w \<and> w_fd w = fd \<and> unused w"
    "map_of (m_wcb_create_pending_map (adopt fd r s)) fd = None"
proof -
  show w: "\<exists>w. m_heap s r = Some w \<and> w_fd w = fd \<and> unused w"
    using assms by (auto simp: wcp_inv_def dest: smap.entries_look)
  then show "wcp_inv (adopt fd r s)"
    using assms(1) by (auto simp: wcp_inv_def adopt_def intro!: smap.entries_ins smap.entries_del)
qed (simp_all add: adopt_def smap_erase_look)

lemma adopt_put:
  assumes "wcp_inv s" "map_of (m_wcb_create_pending_map s) fd = Some r" "m_heap s r = Some w"
    "queue_ok r w'" "w_fd w' = w_fd w"
  shows "wcp_inv (put_wcb r w' (adopt fd r s))"
proof -
  note a = adopt_inv [OF assms(1,2)]
  show ?thesis using a assms by (intro inv_put_used [of _ r w]) auto
qed

lemma wcp_connect_inv:
  assumes "wcp_connect fd a p s = Some (res, s')" "wcp_inv s"
  shows "wcp_inv s'"
proof (cases "map_of (m_wcb_create_pending_map s) fd")
  case None
  with assms show ?thesis by (auto simp: wcp_connect_def)
next
  case (Some r)
  define s1 where "s1 = snd (so_turnon_nonblocking r s)"
  have v1: "table_view s1 = table_view s" by (simp add: s1_def)
  have i1: "wcp_inv s1" by (rule inv_viewed [OF assms(2) v1])
  have p1: "map_of (m_wcb_create_pending_map s1) fd = Some r" "m_heap s1 = m_heap s"
    using v1 Some by (simp_all add: table_view_def)
  show ?thesis
  proof (cases "fst (so_turnon_nonblocking r s) = OK")
    case False
    with assms(1) Some i1 show ?thesis by (auto simp: wcp_connect_def s1_def split_beta Let_def)
  next
    case True
    have "s1\<lparr> m_wcb_create_pending_map := smap_erase fd (m_wcb_create_pending_map s1),
        m_wcb_map := smap_insert fd r (m_wcb_map s1) \<rparr> = adopt fd r s1" by (simp add: adopt_def)
    with True assms(1) Some have "\<exists>w w' e. m_heap s1 r = Some w \<and>
      wcb_connect (address_of_sockaddr_in a p) w = Some (res, e, w') \<and>
      s' = put_wcb r w' (note_errno e (so_begin_async_read r (adopt fd r s1)))"
      using adopt_inv(2) [OF i1 p1(1)]
      by (auto simp: wcp_connect_def s1_def [symmetric] split_beta Let_def elim!: bind_SomeE)
    then obtain w w' e where h: "m_heap s1 r = Some w"
      and w: "m_heap s1 r = Some w" "wcb_connect (address_of_sockaddr_in a p) w = Some (res, e, w')"
      "s' = put_wcb r w' (note_errno e (so_begin_async_read r (adopt fd r s1)))" by blast
    have c: "core w' = core w" by (rule wcb_calls_core(1) [OF w(2)])
    have "wcp_inv (put_wcb r w' (adopt fd r s1))"
      using wcp_inv_heap [OF i1 h] core_queue_ok [OF c] c by (intro adopt_put [OF i1 p1(1) h]) (auto simp: core_def)
    moreover have "table_view s' = table_view (put_wcb r w' (adopt fd r s1))"
      by (simp add: w(3) table_view_def put_wcb_def note_errno_def set_last_errno_def so_begin_async_read_def split: option.splits)
    ultimately show ?thesis by (rule inv_viewed)
  qed
qed

lemma wcp_listen_inv:
  assumes "wcp_listen fd b s = Some (rt, s')" "wcp_inv s"
  shows "wcp_inv s'"
proof (cases "map_of (m_wcb_create_pending_map s) fd")
  case None
  with assms show ?thesis by (auto simp: wcp_listen_def fail_with_def)
next
  case (Some r)
  define s1 where "s1 = snd (os_call (snd (so_turnon_nonblocking r s)))"
  have v1: "table_view s1 = table_view s" by (simp add: s1_def)
  have i1: "wcp_inv s1" by (rule inv_viewed [OF assms(2) v1])
  have i0: "wcp_inv (snd (so_turnon_nonblocking r s))" by (rule inv_viewed [OF assms(2)]) simp
  have p1: "map_of (m_wcb_create_pending_map s1) fd = Some r" using v1 Some by (simp add: table_view_def)
  from adopt_inv(3) [OF i1 p1] obtain w where w: "m_heap s1 r = Some w" "w_fd w = fd" "unused w" by blast
  have "s' = snd (so_turnon_nonblocking r s) \<or> s' = s1 \<or> (\<exists>e w'. wcb_listen b w = Some (rt, e, w') \<and> rt \<noteq> OK \<and> s' = note_errno e (put_wcb r w' s1)) \<or>
     (\<exists>e w'. wcb_listen b w = Some (OK, e, w') \<and> s' = so_begin_async_read r (adopt fd r (note_errno e (put_wcb r w' s1))))"
    using assms(1) Some w(1)
    by (auto simp: wcp_listen_def s1_def [symmetric] adopt_def split_beta Let_def elim!: bind_SomeE split: if_splits)
  then consider "s' = snd (so_turnon_nonblocking r s)" | "s' = s1"
    | (fail) e w' where "wcb_listen b w = Some (rt, e, w')" "rt \<noteq> OK" "s' = note_errno e (put_wcb r w' s1)"
    | (ok) e w' where "wcb_listen b w = Some (OK, e, w')" "s' = so_begin_async_read r (adopt fd r (note_errno e (put_wcb r w' s1)))"
    by blast
  then show ?thesis
  proof cases
    case fail
    have "w' = w" using fail(1,2) by (auto simp: wcb_listen_def split: if_splits)
    with fail(3) inv_put_core [OF i1 w(1)] show ?thesis by simp
  next
    case ok
    have q: "queue_ok r w'" "w_fd w' = w_fd w"
      using ok(1) w(3) by (auto simp: wcb_listen_def unused_def queue_ok_def split: if_splits)
    have "table_view s' = table_view (put_wcb r w' (adopt fd r s1))"
      by (simp add: ok(2) table_view_def put_wcb_def adopt_def note_errno_def set_last_errno_def so_begin_async_read_def split: option.splits)
    with adopt_put [OF i1 p1 w(1) q] show ?thesis by (rule inv_viewed)
  qed (use i0 i1 in auto)
qed

lemma wcp_calls_inv:
  assumes "wcp_inv s"
  shows "wcp_bind fd a p s = Some (rt, s') \<Longrightarrow> wcp_inv s'"
    and "wcp_shutdown fd f s = Some (rt, s') \<Longrightarrow> wcp_inv s'"
    and "wcp_send fd buf n s = Some (rt, s') \<Longrightarrow> wcp_inv s'"
    and "wcp_recv fd n s = Some (res, s') \<Longrightarrow> wcp_inv s'"
    and "wcp_getsockname fd s = Some (rt, ad, s') \<Longrightarrow> wcp_inv s'"
proof -
  have put: "wcp_inv (put_wcb r w' t)"
    if "m_heap s r = Some w" "core w' = core w" "w_state w' = w_state w" "table_view t = table_view s" for r w w' t
    using inv_put_core [OF inv_viewed [OF assms that(4)]] that view_heap [OF that(4)] by auto
  show "wcp_inv s'" if "wcp_bind fd a p s = Some (rt, s')"
    using that assms
    by (auto simp: wcp_bind_def fail_with_def split_beta Let_def elim!: bind_SomeE split: option.splits if_splits intro!: put)
      (simp_all add: core_def)
  show "wcp_inv s'" if sh: "wcp_shutdown fd f s = Some (rt, s')"
  proof -
    have "w_state w' = w_state w" if "wcb_shutdown f w = Some (c, e, w')" for w c e w'
      using that by (auto simp: wcb_shutdown_def FIN_def push_standby_def Let_def split: if_splits)
    then show ?thesis
      using sh assms
      by (auto simp: wcp_shutdown_def fail_with_def Let_def elim!: bind_SomeE split: option.splits if_splits
          intro!: put dest: wcb_calls_core(2))
  qed
  show "wcp_inv s'" if "wcp_send fd buf n s = Some (rt, s')"
    using that assms
    by (auto simp: wcp_send_def fail_with_def Let_def elim!: bind_SomeE split: option.splits if_splits intro!: put)
      (simp_all add: core_def)
  show "wcp_inv s'" if rc: "wcp_recv fd n s = Some (res, s')"
  proof -
    have "core w' = core w \<and> w_state w' = w_state w" if "wcb_recv n w = Some (x, e, w')" for w x e w'
      using that by (auto simp: wcb_recv_def core_def elim!: bind_SomeE split: if_splits)
    then show ?thesis
      using rc assms by (auto simp: wcp_recv_def Let_def elim!: bind_SomeE split: option.splits intro!: put)
  qed
  show "wcp_inv s'" if "wcp_getsockname fd s = Some (rt, ad, s')"
    using that assms
    by (auto simp: wcp_getsockname_def Let_def elim!: bind_SomeE split: option.splits intro!: put)
      (simp_all add: core_def)
qed

lemma wcp_options_inv:
  assumes "wcp_inv s"
  shows "wcp_getsockopt fd opt s = Some (rt, v, s') \<Longrightarrow> wcp_inv s'"
    and "wcp_setsockopt fd opt val s = Some (rt, s') \<Longrightarrow> wcp_inv s'"
    and "wcp_fcntl_getfl fd s = Some (rt, fl, s') \<Longrightarrow> wcp_inv s'"
    and "wcp_fcntl_setfl fd fl' s = Some (rt, s') \<Longrightarrow> wcp_inv s'"
proof -
  have os: "wcp_inv t" if "os_call s = (c, t)" for c t
    using inv_note(6) [of s] that assms by simp
  show "wcp_inv s'" if "wcp_getsockopt fd opt s = Some (rt, v, s')"
    using that assms os
    by (auto simp: wcp_getsockopt_def split_beta Let_def elim!: bind_SomeE split: option.splits if_splits)
  show "wcp_inv s'" if so: "wcp_setsockopt fd opt val s = Some (rt, s')"
  proof -
    have st: "w_state w' = w_state w" if "set_rcv_buffer_size j w n = Some (c, w') \<or> set_snd_buffer_size j w n = Some (c, w')"
      for j w n c w' using that
      by (auto simp: set_rcv_buffer_size_def set_snd_buffer_size_def Let_def elim!: bind_SomeE split: if_splits)
    have bs: "wcp_inv (put_wcb r w' s)"
      if "m_heap s r = Some w" "set_rcv_buffer_size j w n = Some (c, w') \<or> set_snd_buffer_size j w n = Some (c, w')"
      for r j w n c w'
      using inv_put_core [OF assms that(1) _ st [OF that(2)]] that(2) wcb_calls_core(3,4) by blast
    show ?thesis
      using so assms os
      by (auto simp: wcp_setsockopt_def fail_with_def elim!: bind_SomeE split: option.splits if_splits)
        (erule bs, blast)+
  qed
  show "wcp_inv s'" if "wcp_fcntl_getfl fd s = Some (rt, fl, s')"
    using that assms by (auto simp: wcp_fcntl_getfl_def elim!: bind_SomeE split: option.splits)
  show "wcp_inv s'" if "wcp_fcntl_setfl fd fl' s = Some (rt, s')"
    using that assms
    by (auto simp: wcp_fcntl_setfl_def fail_with_def elim!: bind_SomeE split: option.splits intro!: inv_put_core)
      (simp_all add: core_def)
qed

lemma wcp_accept_inv:
  assumes "wcp_accept fd s = Some (rt, ad, s')" "wcp_inv s"
  shows "wcp_inv s'"
proof -
  have pop: "wcp_inv (put_wcb r (w\<lparr> w_backlogq := q \<rparr>) s)" if "m_heap s r = Some w" "w_backlogq w = x # q" for r w x q
    using wcp_inv_heap [OF assms(2) that(1)] that(2)
    by (intro inv_put [OF assms(2) that(1)]) (auto simp: queue_ok_def evolves_def unused_def)
  show ?thesis
    using assms pop
    by (auto simp: wcp_accept_def Let_def elim!: bind_SomeE split: option.splits if_splits list.splits)
qed

lemma wcp_close_inv:
  assumes "wcp_close fd s = Some (rt, s')" "wcp_inv s"
  shows "wcp_inv s'"
proof -
  have c: "wcp_inv v" if "close_ref r w t = Some (k, v)" "m_heap t r = Some w" "wcp_inv t" for r w t k v
    using close_ref_ok(1) [OF that(1,3,2)] by (rule ext_inv)
  have "wcp_inv (s\<lparr> m_wcb_create_pending_map := smap_erase fd (m_wcb_create_pending_map s) \<rparr>)"
    using assms(2) by (auto simp: wcp_inv_def intro!: smap.entries_del)
  with assms c show ?thesis
    by (auto simp: wcp_close_def fail_with_def Let_def elim!: bind_SomeE split: option.splits)
qed

lemma wpoll_scan_view: "wpoll_scan es n s = Some (keep, outs, s') \<Longrightarrow> table_view s' = table_view s"
proof (induction es arbitrary: n s keep outs)
  case (Cons e es)
  have "table_view (put_watch e we s) = table_view s"
    "table_view ((put_watch e we s)\<lparr> m_event_pending_queue := q \<rparr>) = table_view s" for we q
    by (simp_all add: table_view_def put_watch_def)
  with Cons show ?case
    by (auto simp: Let_def elim!: bind_SomeE split: if_splits nat.splits)
qed simp

lemma wpoll_calls_inv:
  assumes "wcp_inv s"
  shows "wcp_inv (snd (wpoll_create s))" "wcp_inv (snd (wpoll_close h s))"
    and "wpoll_ctl h op evt s = Some (rt, s') \<Longrightarrow> wcp_inv s'"
    and "wpoll_wait h n s = Some (rt, evts, s') \<Longrightarrow> wcp_inv s'"
proof -
  show "wcp_inv (snd (wpoll_create s))" "wcp_inv (snd (wpoll_close h s))"
    by (rule inv_viewed [OF assms]; simp add: wpoll_create_def wpoll_close_def table_view_def fail_with_def set_last_errno_def Let_def)+
  show "wcp_inv s'" if c: "wpoll_ctl h op evt s = Some (rt, s')"
  proof (rule inv_viewed [OF assms])
    show "table_view s' = table_view s"
      using c
      by (auto simp: wpoll_ctl_def wpoll_add_def wpoll_del_def table_view_def fail_with_def set_last_errno_def
          put_watch_def set_wpoll_def Let_def elim!: bind_SomeE split: option.splits wpoll_op.splits if_splits)
  qed
  show "wcp_inv s'" if w: "wpoll_wait h n s = Some (rt, evts, s')"
  proof (rule inv_viewed [OF assms])
    have "table_view (set_wpoll h k t) = table_view t" "table_view (s\<lparr> m_event_pending_queue := q \<rparr>) = table_view s" for k t q
      by (simp_all add: table_view_def set_wpoll_def)
    with w show "table_view s' = table_view s"
      by (auto simp: wpoll_wait_def Let_def elim!: bind_SomeE split: option.splits if_splits dest!: wpoll_scan_view)
  qed
qed

lemma close_all_inv: "close_all rs s = Some s' \<Longrightarrow> wcp_inv s \<Longrightarrow> wcp_inv s'"
proof (induction rs arbitrary: s)
  case (Cons r rs)
  from Cons.prems(1) obtain w rt t where "m_heap s r = Some w" "close_ref r w s = Some (rt, t)"
    "close_all rs (wcb_so_close r E_SOCKET_FORCE_CLOSE t) = Some s'" by (auto elim!: bind_SomeE)
  with Cons.IH Cons.prems(2) close_ref_ok(1) show ?case by (metis ext_inv inv_note(4))
qed simp

lemma stop_inv:
  assumes "stop s = Some s'" "wcp_inv s"
  shows "wcp_inv s'"
proof (cases "m_state s = S_EXIT")
  case False
  with assms(1) obtain t where t: "close_all (map snd (m_wcb_map s)) (s\<lparr> m_state := S_EXIT \<rparr>) = Some t"
    "s' = t\<lparr> m_wcb_map := [], m_wcb_four_tuple_map := [], m_wpoll_map := [] \<rparr>"
    by (auto simp: stop_def on_stop_def elim!: bind_SomeE)
  have "wcp_inv t" using close_all_inv [OF t(1)] inv_viewed [OF assms(2)] by (simp add: table_view_def)
  then show ?thesis by (auto simp: t(2) wcp_inv_def smap.entries_def smap_ok_def)
qed (use assms in \<open>simp add: stop_def\<close>)

lemma run_inv:
  assumes "wcp_run s = Some s'" "wcp_inv s"
  shows "wcp_inv s'"
  using assms execute_op_list_ok wcp_update_ok
  by (auto simp: wcp_run_def execute_ops_def elim!: bind_SomeE split: if_splits)

lemma pump_inv:
  assumes "wcb_pump_packs r s = Some s'" "wcp_inv s"
  shows "wcp_inv s'"
proof -
  from assms(1) obtain w w' where w: "m_heap s r = Some w" "pump_packs w = Some w'" "s' = put_wcb r w' s"
    by (auto simp: wcb_pump_packs_def elim!: bind_SomeE)
  have "w_state w' = w_state w" using w(2) by (auto simp: pump_packs_def Let_def elim!: bind_SomeE split: if_splits)
  with wcb_calls_core(5) [OF w(2)] show ?thesis unfolding w(3) by (intro inv_put_core [OF assms(2) w(1)])
qed

section \<open>The network\<close>

text \<open>Any datagrams, from any sender, arrive at the UDP socket of a block; \<open>rt\<close> is what its next failing recvfrom() reports.\<close>

definition datagrams_arrive :: "wref \<Rightarrow> (address \<times> bytes) list \<Rightarrow> int \<Rightarrow> wcp \<Rightarrow> wcp option" where
  "datagrams_arrive r ms rt s =
     do { w \<leftarrow> m_heap s r;
          Some (put_wcb r (w\<lparr> w_env := (w_env w)\<lparr> env_inbox := env_inbox (w_env w) @ ms, env_recv_rt := rt \<rparr> \<rparr>) s) }"

lemma datagrams_inv:
  assumes "datagrams_arrive r ms rt s = Some s'" "wcp_inv s"
  shows "wcp_inv s'"
proof -
  from assms(1) obtain w where w: "m_heap s r = Some w"
    "s' = put_wcb r (w\<lparr> w_env := (w_env w)\<lparr> env_inbox := env_inbox (w_env w) @ ms, env_recv_rt := rt \<rparr> \<rparr>) s"
    by (auto simp: datagrams_arrive_def elim!: bind_SomeE)
  show ?thesis unfolding w(2) by (intro inv_put_core [OF assms(2) w(1)]) (simp_all add: core_def)
qed

section \<open>Steps\<close>

inductive wcp_step :: "wcp \<Rightarrow> wcp \<Rightarrow> bool" where
  step_socket: "wcp_socket f t p s = Some (rt, s') \<Longrightarrow> wcp_step s s'"
| step_connect: "wcp_connect fd a port s = Some (res, s') \<Longrightarrow> wcp_step s s'"
| step_bind: "wcp_bind fd a port s = Some (rt, s') \<Longrightarrow> wcp_step s s'"
| step_listen: "wcp_listen fd b s = Some (rt, s') \<Longrightarrow> wcp_step s s'"
| step_accept: "wcp_accept fd s = Some (rt, ad, s') \<Longrightarrow> wcp_step s s'"
| step_shutdown: "wcp_shutdown fd how s = Some (rt, s') \<Longrightarrow> wcp_step s s'"
| step_close: "wcp_close fd s = Some (rt, s') \<Longrightarrow> wcp_step s s'"
| step_send: "wcp_send fd buf n s = Some (rt, s') \<Longrightarrow> wcp_step s s'"
| step_recv: "wcp_recv fd n s = Some (rd, s') \<Longrightarrow> wcp_step s s'"
| step_getsockname: "wcp_getsockname fd s = Some (rt, ad, s') \<Longrightarrow> wcp_step s s'"
| step_getsockopt: "wcp_getsockopt fd opt s = Some (rt, v, s') \<Longrightarrow> wcp_step s s'"
| step_setsockopt: "wcp_setsockopt fd opt val s = Some (rt, s') \<Longrightarrow> wcp_step s s'"
| step_getfl: "wcp_fcntl_getfl fd s = Some (rt, fl, s') \<Longrightarrow> wcp_step s s'"
| step_setfl: "wcp_fcntl_setfl fd fl' s = Some (rt, s') \<Longrightarrow> wcp_step s s'"
| step_wpoll_create: "wcp_step s (snd (wpoll_create s))"
| step_wpoll_close: "wcp_step s (snd (wpoll_close h s))"
| step_wpoll_ctl: "wpoll_ctl h op evt s = Some (rt, s') \<Longrightarrow> wcp_step s s'"
| step_wpoll_wait: "wpoll_wait h n s = Some (rt, evts, s') \<Longrightarrow> wcp_step s s'"
| step_network: "datagrams_arrive r ms rt s = Some s' \<Longrightarrow> wcp_step s s'"
| step_datagrams: "wcb_pump_packs r s = Some s' \<Longrightarrow> wcp_step s s'"
| step_socket_error: "wcp_step s (wcb_socket_error code r s)"
| step_run: "wcp_run s = Some s' \<Longrightarrow> wcp_step s s'"
| step_start: "wcp_step s (on_start s)"
| step_stop: "stop s = Some s' \<Longrightarrow> wcp_step s s'"

inductive_cases wcp_stepE: "wcp_step s s'"

lemma wcp_step_inv:
  assumes "wcp_step s s'" "wcp_inv s"
  shows "wcp_inv s'"
  using assms
proof (induction rule: wcp_step.induct)
  case (step_start s)
  then show ?case by (auto simp: on_start_def wcp_inv_def)
qed (auto intro: wcp_socket_inv wcp_connect_inv wcp_calls_inv wcp_listen_inv wcp_accept_inv wcp_close_inv
    wcp_options_inv wpoll_calls_inv datagrams_inv pump_inv run_inv stop_inv simp: wcb_socket_error_def)

text \<open>The manager before its first call: no blocks, empty tables.\<close>

definition initial :: "wcp \<Rightarrow> bool" where
  "initial s \<longleftrightarrow> m_heap s = Map.empty \<and> m_wcb_map s = [] \<and> m_wcb_create_pending_map s = []"

lemma reachable_inv:
  assumes "initial s0" "wcp_step\<^sup>*\<^sup>* s0 s"
  shows "wcp_inv s"
  using assms(2)
proof (induction rule: rtranclp_induct)
  case base
  show ?case using assms(1) by (simp add: initial_def wcp_inv_def smap.entries_def smap_ok_def)
next
  case (step s s')
  show ?case by (rule wcp_step_inv [OF step(2,3)])
qed

end
