(* ===== verification/Wcp_Props.thy ===== *)
theory Wcp_Props
  imports Wcp_Reach Wcb_Sample
begin

text \<open>
  What the manager promises its users: the tables stay consistent in every reachable state, a tick
  drops recycled blocks, reading follows the end-of-file protocol, wpoll_wait never returns more
  events than asked for, and descriptors repeat after 2048 sockets.
\<close>

section \<open>A concrete manager\<close>

text \<open>Before the first call; every call of the operating system succeeds.\<close>

definition sample_wcp :: wcp where
  "sample_wcp = \<lparr> m_os = \<lparr> os_rt = (\<lambda>_. 0), os_errno = (\<lambda>_. 0), os_calls = 0, os_env = (\<lambda>_. sample_env),
       os_local_addr = (\<lambda>_. 1), os_junk = (\<lambda>_. 0), os_new_wcb = sample_wcb \<rparr>,
     m_heap = Map.empty, m_so = (\<lambda>_. \<lparr> so_nonblocking = False, so_async_read = False, so_closed = None \<rparr>),
     m_next_ref = 0, s_wcb_auto_increament_id = 1, m_wpoll_map = [], m_watch_heap = Map.empty, m_next_watch = 0,
     m_event_pending_queue = [], m_state = S_RUN, m_wcb_map = [], m_wcb_create_pending_map = [],
     m_wcb_four_tuple_map = [], m_ops = [], s_wpoll_auto_increament_id = 1, m_errno = 0 \<rparr>"

lemma wcb_init_returns: "\<exists>w'. wcb_init junk w = Some w'"
proof -
  have "\<exists>rb. bytes_ringbuffer_new junk WCP_RCV_WND_DEFAULT = Some rb"
    "\<exists>rb. bytes_ringbuffer_new junk WCP_SND_WND_DEFAULT = Some rb"
    by (rule bytes_ringbuffer_new_ok [of WCP_RCV_WND_DEFAULT junk], simp_all add: WCP_RCV_WND_DEFAULT_def MIN_RING_BUFFER_SIZE_def MAX_RING_BUFFER_SIZE_def)
      (rule bytes_ringbuffer_new_ok [of WCP_SND_WND_DEFAULT junk], simp_all add: WCP_SND_WND_DEFAULT_def MIN_RING_BUFFER_SIZE_def MAX_RING_BUFFER_SIZE_def)
  then show ?thesis by (auto simp: wcb_init_def split_beta)
qed

lemma sample_socket:
  "\<exists>s. wcp_socket AF_INET SOCK_DGRAM IPPROTO_UDP sample_wcp = Some (0x1000000, s) \<and>
     m_wcb_create_pending_map s = [(0x1000000, 0)] \<and> m_wcb_map s = [] \<and> m_state s = S_RUN"
proof -
  obtain w where "new_wcb 0 (snd (os_call (snd (alloc_ref sample_wcp)))) = Some w"
    unfolding new_wcb_def using wcb_init_returns by blast
  moreover have "sint (1 :: u32) smod 2048 + 0xFFFFFF = 0x1000000" by (simp add: signed_modulo_int_def)
  ultimately show ?thesis
    by (simp add: wcp_socket_def sample_wcp_def alloc_ref_def os_call_def put_wcb_def make_wcb_fd_def WCP_FD_MAX_def OK_def)
qed

section \<open>Tables\<close>

lemma execute_op_list_adds:
  "execute_op_list ops s = Some t \<Longrightarrow> wcp_inv s \<Longrightarrow> map_of (m_wcb_map t) fd = Some r \<Longrightarrow>
   map_of (m_wcb_map s) fd = Some r \<or> \<lparr> op_wcb = r, op_op = OP_WATCH \<rparr> \<in> set ops"
proof (induction ops arbitrary: s)
  case (Cons op ops)
  show ?case
  proof (cases "op_op op")
    case OP_NONE
    with Cons.prems show ?thesis by auto
  next
    case OP_WATCH
    with Cons.prems(1) obtain w where w: "m_heap s (op_wcb op) = Some w"
      "execute_op_list ops (so_begin_async_read (op_wcb op)
         (s\<lparr> m_wcb_map := smap_insert (w_fd w) (op_wcb op) (m_wcb_map s) \<rparr>)) = Some t"
      by (auto simp: Let_def elim!: bind_SomeE split: if_splits)
    let ?s = "s\<lparr> m_wcb_map := smap_insert (w_fd w) (op_wcb op) (m_wcb_map s) \<rparr>"
    have "wcp_inv ?s" using Cons.prems(2) w(1) by (auto simp: wcp_inv_def intro: smap.entries_ins)
    then have i: "wcp_inv (so_begin_async_read (op_wcb op) ?s)" by simp
    have ok: "smap_ok (m_wcb_map s)" using Cons.prems(2) by (simp add: wcp_inv_def smap.entries_def)
    have op: "op = \<lparr> op_wcb = op_wcb op, op_op = OP_WATCH \<rparr>" using OP_WATCH by (cases op) simp
    have "map_of (m_wcb_map s) fd = Some r \<or> r = op_wcb op \<or> \<lparr> op_wcb = r, op_op = OP_WATCH \<rparr> \<in> set ops"
      using Cons.IH [OF w(2) i Cons.prems(3)] smap.look_ins [OF ok]
      by (auto simp: so_begin_async_read_def split: if_splits)
    with op show ?thesis by auto
  qed
qed auto

text \<open>
  C8: In every state that calls, callbacks, ticks and the arrival of any datagrams at any of the sockets, as often as the network likes, reach from the initial one, the tables of the manager
  are sorted by descriptor, every entry leads to a block that carries this descriptor, a block
  waiting to be connected has neither left its initial states nor collected connections, and no listener holds more
  connections, pending and established, than its backlog allows.
\<close>

theorem wcp_tables_invariant:
  assumes "initial s0" "wcp_step\<^sup>*\<^sup>* s0 s"
  shows "smap_ok (m_wcb_map s) \<and> smap_ok (m_wcb_create_pending_map s) \<and>
    (\<forall>fd r. map_of (m_wcb_map s) fd = Some r \<longrightarrow> (\<exists>w. m_heap s r = Some w \<and> w_fd w = fd)) \<and>
    (\<forall>fd r. map_of (m_wcb_create_pending_map s) fd = Some r \<longrightarrow>
       (\<exists>w. m_heap s r = Some w \<and> w_fd w = fd \<and> w_state w \<in> {WCB_CLOSED, WCB_RECYCLE} \<and>
          w_backlogq w = [] \<and> w_backloglist_pending w = [])) \<and>
    (\<forall>r w. m_heap s r = Some w \<longrightarrow>
       length (w_backlogq w) + length (w_backloglist_pending w) \<le> unat (w_backlog_size w))"
  using reachable_inv [OF assms] by (auto simp: wcp_inv_def smap.entries_def queue_ok_def unused_def)

theorem wcp_tables_invariant_witness:
  "\<exists>(s :: wcp) w. m_wcb_create_pending_map s = [(0x1000000, 0)] \<and> m_heap s 0 = Some w \<and> w_fd w = 0x1000000 \<and>
     w_state w \<in> {WCB_CLOSED, WCB_RECYCLE}"
proof -
  from sample_socket obtain s where s: "wcp_socket AF_INET SOCK_DGRAM IPPROTO_UDP sample_wcp = Some (0x1000000, s)"
    "m_wcb_create_pending_map s = [(0x1000000, 0)]" by blast
  have "initial sample_wcp" by (simp add: initial_def sample_wcp_def)
  moreover have "wcp_step\<^sup>*\<^sup>* sample_wcp s" using s(1) by (blast intro: step_socket)
  moreover have "map_of (m_wcb_create_pending_map s) 0x1000000 = Some 0" by (simp add: s(2))
  ultimately show ?thesis using wcp_tables_invariant [of sample_wcp s] s(2) by blast
qed

text \<open>
  C9: After a tick of the running manager no table entry leads to a recyclable block, and the tick
  adds no entry but the accepted connections that were waiting to be watched.
\<close>

theorem tick_removes_recycled_blocks:
  assumes "initial s0" "wcp_step\<^sup>*\<^sup>* s0 s" "m_state s = S_RUN" "wcp_run s = Some s'"
  shows "\<forall>fd r. map_of (m_wcb_map s') fd = Some r \<longrightarrow>
    (\<exists>w. m_heap s' r = Some w \<and> w_fd w = fd \<and> w_state w \<noteq> WCB_RECYCLE) \<and>
    (map_of (m_wcb_map s) fd = Some r \<or> \<lparr> op_wcb = r, op_op = OP_WATCH \<rparr> \<in> set (m_ops s))"
proof -
  from assms(3,4) obtain t where t: "execute_op_list (m_ops s) s = Some t" "wcp_update t = Some s'"
    by (auto simp: wcp_run_def execute_ops_def elim!: bind_SomeE)
  have i: "wcp_inv t" by (rule execute_op_list_ok [OF t(1) reachable_inv [OF assms(1,2)]])
  note u = wcp_update_ok [OF t(2) i]
  have "map_of (m_wcb_map s) fd = Some r \<or> \<lparr> op_wcb = r, op_op = OP_WATCH \<rparr> \<in> set (m_ops s)"
    if "map_of (m_wcb_map t) fd = Some r" for fd r
    using execute_op_list_adds [OF t(1) reachable_inv [OF assms(1,2)] that] .
  with u show ?thesis by (fastforce simp: wcp_inv_def smap.entries_def)
qed

theorem tick_removes_recycled_blocks_witness:
  "\<exists>s'. wcp_run sample_wcp = Some s' \<and> (\<forall>fd r. map_of (m_wcb_map s') fd = Some r \<longrightarrow>
     (\<exists>w. m_heap s' r = Some w \<and> w_state w \<noteq> WCB_RECYCLE))"
proof -
  have "initial sample_wcp" "m_state sample_wcp = S_RUN" by (simp_all add: initial_def sample_wcp_def)
  moreover obtain s' where "wcp_run sample_wcp = Some s'"
    by (simp add: wcp_run_def execute_ops_def wcp_update_def sample_wcp_def)
  ultimately show ?thesis using tick_removes_recycled_blocks [of sample_wcp sample_wcp s'] by blast
qed

section \<open>Reading\<close>

text \<open>
  What the reader of a connection may rely on: a byte stream that is consumed in order and, once the
  peer's end has been reached, exactly one read that returns nothing before reads fail.
\<close>

record stream_end =
  se_data :: bytes
  se_fin :: bool
  se_seen :: bool

definition stream_recv :: "nat \<Rightarrow> stream_end \<Rightarrow> (int \<times> bytes) \<times> stream_end" where
  "stream_recv n x =
     (if se_data x \<noteq> [] then ((int (min n (length (se_data x))), take n (se_data x)), x\<lparr> se_data := drop n (se_data x) \<rparr>)
      else if se_fin x then (if se_seen x then ((E_ECONNRESET, []), x) else ((OK, []), x\<lparr> se_seen := True \<rparr>))
      else ((WAWO_NEGATIVE EWOULDBLOCK, []), x))"

fun stream_reads :: "nat list \<Rightarrow> stream_end \<Rightarrow> (int \<times> bytes) list" where
  "stream_reads [] x = []"
| "stream_reads (n # ns) x = (let (r, x) = stream_recv n x in r # stream_reads ns x)"

fun wcb_reads :: "u32 list \<Rightarrow> WCB \<Rightarrow> ((int \<times> bytes) blocking list \<times> WCB) option" where
  "wcb_reads [] w = Some ([], w)"
| "wcb_reads (n # ns) w = do { (r, e, w) \<leftarrow> wcb_recv n w; (rs, w) \<leftarrow> wcb_reads ns w; Some (r # rs, w) }"

definition stream_of :: "WCB \<Rightarrow> stream_end" where
  "stream_of w = \<lparr> se_data = rb_list (w_rb w), se_fin = test_flag (w_r_flag w) READ_REMOTE_FIN_RECEIVED,
     se_seen = test_flag (w_r_flag w) READ_REMOTE_FIN_READ_BY_USER \<rparr>"

text \<open>A block that a user reads: open for reading, without error, non-blocking.\<close>

definition readable :: "WCB \<Rightarrow> bool" where
  "readable w \<longleftrightarrow> rb_inv (w_rb w) \<and> \<not> test_flag (w_r_flag w) READ_LOCAL_READ_SHUTDOWNED \<and>
     \<not> test_flag (w_r_flag w) READ_RECV_ERROR \<and> w_wcb_errno w = 0 \<and> test_flag (w_wcb_option w) WCP_O_NONBLOCK"

lemma seen_flag:
  "test_flag (set_flag f READ_REMOTE_FIN_READ_BY_USER) READ_REMOTE_FIN_READ_BY_USER"
  "test_flag (set_flag f READ_REMOTE_FIN_READ_BY_USER) READ_REMOTE_FIN_RECEIVED = test_flag f READ_REMOTE_FIN_RECEIVED"
  "test_flag (set_flag f READ_REMOTE_FIN_READ_BY_USER) READ_LOCAL_READ_SHUTDOWNED = test_flag f READ_LOCAL_READ_SHUTDOWNED"
  "test_flag (set_flag f READ_REMOTE_FIN_READ_BY_USER) READ_RECV_ERROR = test_flag f READ_RECV_ERROR"
  by (simp_all add: test_flag_def set_flag_def bit.conj_disj_distrib2 or_eq_0_iff READ_REMOTE_FIN_READ_BY_USER_def
      READ_REMOTE_FIN_RECEIVED_def READ_LOCAL_READ_SHUTDOWNED_def READ_RECV_ERROR_def)

lemma sint_small:
  fixes c :: u32
  assumes "unat c < 2 ^ 31"
  shows "sint c = int (unat c)"
proof -
  have u: "uint c = int (unat c)" by simp
  then have "uint c < 2 ^ 31" using assms by (simp only: of_nat_less_numeral_power_cancel_iff)
  moreover have "- (2 ^ 31) \<le> uint c" by (rule order_trans [of _ 0]) simp_all
  ultimately have "signed_take_bit 31 (uint c) = uint c" by (rule signed_take_bit_int_eq_self [rotated])
  with u show ?thesis by (simp add: sint_uint)
qed

lemma wcb_recv_refines:
  assumes "readable w" "0 < n" "unat n < 2 ^ 31"
  shows "\<exists>res e w'. wcb_recv n w = Some (Ret res, e, w') \<and> readable w' \<and>
    stream_recv (unat n) (stream_of w) = (res, stream_of w')"
proof (cases "rb_list (w_rb w) = []")
  case True
  have "rb_count (w_rb w) = 0" using rb_count_list [of "w_rb w"] True assms(1) by (simp add: readable_def word_eq_unat)
  with True assms(1) show ?thesis
    by (simp add: wcb_recv_def readable_def stream_recv_def stream_of_def seen_flag)
next
  case False
  have inv: "rb_inv (w_rb w)" using assms(1) by (simp add: readable_def)
  obtain rb c where r: "rb_read (w_rb w) n True = Some (c, take (unat n) (rb_list (w_rb w)), rb)"
    "unat c = min (unat n) (length (rb_list (w_rb w)))" "rb_inv rb" "rb_list rb = drop (unat n) (rb_list (w_rb w))"
    using rb_read_ok [OF inv, of n True] by (metis (full_types))
  have "sint c = int (unat c)" using r(2) assms(3) by (intro sint_small) simp
  moreover have "0 < c" "0 < rb_count (w_rb w)"
    using r(2) False assms(2) rb_count_list [OF inv] by (auto simp: word_to_nat)
  ultimately show ?thesis using False assms(1) r
    by (simp add: wcb_recv_def readable_def stream_recv_def stream_of_def)
qed

text \<open>
  C10: Reading a connection in any sequence of positive sizes never fails and refines the abstract stream:
  buffered bytes come first and in order, then the end of the stream is reported as 0 exactly once, and
  every further read reports ECONNRESET; before the end, reads on an empty buffer report EWOULDBLOCK.
\<close>

theorem wcb_recv_refines_stream:
  assumes "readable w" "\<forall>n \<in> set ns. 0 < n \<and> unat n < 2 ^ 31"
  shows "\<exists>w'. wcb_reads ns w = Some (map Ret (stream_reads (map unat ns) (stream_of w)), w') \<and> readable w'"
  using assms
proof (induction ns arbitrary: w)
  case (Cons n ns)
  then obtain res e w' where w: "wcb_recv n w = Some (Ret res, e, w')" "readable w'"
    "stream_recv (unat n) (stream_of w) = (res, stream_of w')" using wcb_recv_refines [of w n] by auto
  with Cons.IH [OF w(2)] Cons.prems show ?case by auto
qed simp

definition sample_reader :: WCB where
  "sample_reader = sample_wcb\<lparr> w_rb := sample_sb, w_r_flag := READ_REMOTE_FIN_RECEIVED, w_wcb_option := WCP_O_NONBLOCK \<rparr>"

theorem wcb_recv_refines_stream_witness:
  "\<exists>w'. wcb_reads [2, 2, 2, 2] sample_reader =
     Some ([Ret (2, [1, 2]), Ret (1, [3]), Ret (OK, []), Ret (E_ECONNRESET, [])], w')"
proof -
  have "readable sample_reader"
    by (simp add: readable_def sample_reader_def sample_wcb_def test_flag_def READ_REMOTE_FIN_RECEIVED_def
        READ_LOCAL_READ_SHUTDOWNED_def READ_RECV_ERROR_def WCP_O_NONBLOCK_def)
  moreover have "stream_of sample_reader = \<lparr> se_data = [1, 2, 3], se_fin = True, se_seen = False \<rparr>"
    by (simp add: stream_of_def sample_reader_def sample_wcb_def test_flag_def READ_REMOTE_FIN_RECEIVED_def
        READ_REMOTE_FIN_READ_BY_USER_def)
  ultimately show ?thesis using wcb_recv_refines_stream [of sample_reader "[2, 2, 2, 2]"]
    by (auto simp: stream_recv_def)
qed

section \<open>Events\<close>

abbreviation with_queue :: "wcp \<Rightarrow> wpoll_event_pending list \<Rightarrow> wcp" where
  "with_queue s q \<equiv> s\<lparr> m_event_pending_queue := q \<rparr>"

lemma put_watch_queue [simp]:
  "put_watch e we (with_queue s q) = with_queue (put_watch e we s) q"
  "m_event_pending_queue (put_watch e we s) = m_event_pending_queue s"
  by (simp_all add: put_watch_def)

lemma wpoll_scan_step:
  assumes "m_watch_heap t e = Some we" "m_heap t (we_wcb we) = Some w" "w_state w \<noteq> WCB_RECYCLE"
    "wpoll_in we w = Some i" "wpoll_out we w = Some (out, we')"
    "ev = i OR out OR (if w_wcb_errno w \<noteq> 0 then WPOLLERR else 0)"
    "evt = \<lparr> pe_fd = we_fd we, pe_evts = ev, pe_cookie = we_cookie we \<rparr>"
  shows "wpoll_scan (e # es) k t =
    (if ev = 0 then do { (keep, outs, s) \<leftarrow> wpoll_scan es k (put_watch e we' t); Some (e # keep, outs, s) }
     else case k of
       Suc k' \<Rightarrow> do { (keep, outs, s) \<leftarrow> wpoll_scan es k' (put_watch e we' t); Some (e # keep, evt # outs, s) }
     | 0 \<Rightarrow> do { (keep, outs, s) \<leftarrow> wpoll_scan es 0 (with_queue (put_watch e we' t)
                 (m_event_pending_queue t @ [\<lparr> pend_evt = evt, pend_watch = e \<rparr>]));
                 Some (e # keep, outs, s) })"
  using assms(1-5) unfolding assms(6,7) by (cases k) (simp_all add: Let_def)

text \<open>What the user of a watched block is to be told, said without the order of the code's tests.\<close>

definition readable_now :: "WCB \<Rightarrow> bool" where
  "readable_now w \<longleftrightarrow>
     (if test_flag (w_wcb_flag w) WCB_FLAG_IS_LISTENER then w_backlogq w \<noteq> []
      else rb_count (w_rb w) \<noteq> 0 \<or> test_flag (w_r_flag w) READ_REMOTE_FIN_RECEIVED \<and> \<not> test_flag (w_r_flag w) READ_REMOTE_FIN_READ_BY_USER)"

definition write_broken :: "WCB \<Rightarrow> bool" where
  "write_broken w \<longleftrightarrow> test_flag (w_s_flag w) (WRITE_LOCAL_WRITE_SHUTDOWNED OR WRITE_SEND_ERROR)"

definition writable_now :: "WCB \<Rightarrow> bool" where
  "writable_now w \<longleftrightarrow> \<not> write_broken w \<and> w_state w = WCB_ESTABLISHED \<and> WCP_MDU * 2 < rb_left_capacity (w_sb w)"

definition ready_bits :: "wpoll_watch_event \<Rightarrow> WCB \<Rightarrow> u32" where
  "ready_bits we w =
     (if test_flag (we_evts we) WPOLLIN \<and> readable_now w then WPOLLIN else 0) OR
     (if test_flag (we_evts we) WPOLLOUT \<and> writable_now w then WPOLLOUT else 0) OR
     (if w_wcb_errno w \<noteq> 0 then WPOLLERR else 0)"

definition ready_event :: "wcp \<Rightarrow> nat \<Rightarrow> wpoll_event list" where
  "ready_event s e =
     (case m_watch_heap s e of None \<Rightarrow> []
      | Some we \<Rightarrow> (case m_heap s (we_wcb we) of None \<Rightarrow> []
        | Some w \<Rightarrow> if w_state w = WCB_RECYCLE \<or> ready_bits we w = 0 then []
                    else [\<lparr> pe_fd = we_fd we, pe_evts = ready_bits we w, pe_cookie = we_cookie we \<rparr>]))"

definition ready_events :: "wcp \<Rightarrow> nat list \<Rightarrow> wpoll_event list" where
  "ready_events s es = concat (map (ready_event s) es)"

lemma ready_event_queue [simp]: "ready_event (with_queue s q) = ready_event s"
  by (rule ext) (simp add: ready_event_def cong: option.case_cong)

lemma ready_events_simps [simp]:
  "ready_events s [] = []" "ready_events s (e # es) = ready_event s e @ ready_events s es" "ready_events (with_queue s q) es = ready_events s es"
  by (simp_all add: ready_events_def)

text \<open>An event of a queue is still wanted when its watch has not been taken back.\<close>

definition wanted :: "wcp \<Rightarrow> wpoll_event_pending \<Rightarrow> bool" where
  "wanted s p \<longleftrightarrow> (\<exists>we. m_watch_heap s (pend_watch p) = Some we \<and> we_evts we \<noteq> 0)"

lemma wpoll_drain_wanted:
  "wpoll_drain ps n s = Some (out, rest) \<Longrightarrow>
   out = take n (map pend_evt (filter (wanted s) ps)) \<and> map pend_evt (filter (wanted s) rest) = drop n (map pend_evt (filter (wanted s) ps))"
proof (induction ps n s arbitrary: out rest rule: wpoll_drain.induct)
  case (3 p ps n s)
  from 3(3) obtain we where we: "m_watch_heap s (pend_watch p) = Some we" by (auto elim!: bind_SomeE)
  show ?case
  proof (cases "we_evts we = 0")
    case True
    with 3(2) [OF we] 3(3) we show ?thesis by (simp add: wanted_def)
  next
    case False
    with 3(3) we obtain out' where "wpoll_drain ps n s = Some (out', rest)" "out = pend_evt p # out'" by (auto elim!: bind_SomeE)
    with 3(1) [OF we False] we False show ?thesis by (simp add: wanted_def)
  qed
qed auto

text \<open>The code finds these events: an error that it reports early has left its code in the block.\<close>

lemma wpoll_in_out_ready:
  assumes "wpoll_in we w = Some i" "wpoll_out we w = Some (out, we')"
  shows "i OR out OR (if w_wcb_errno w \<noteq> 0 then WPOLLERR else 0) = ready_bits we w" "ready_bits we' w = ready_bits we w"
    "we_fd we' = we_fd we" "we_cookie we' = we_cookie we" "we_wcb we' = we_wcb we"
proof -
  define broken where "broken = test_flag (w_r_flag w) (READ_RECV_ERROR OR READ_LOCAL_READ_SHUTDOWNED)"
  have i: "i = (if test_flag (we_evts we) WPOLLIN then (if readable_now w then WPOLLIN else 0) OR (if broken then WPOLLERR else 0) else 0)"
    "test_flag (we_evts we) WPOLLIN \<and> broken \<longrightarrow> w_wcb_errno w \<noteq> 0"
    using assms(1) by (auto simp: wpoll_in_def readable_now_def broken_def OK_def Let_def split: if_splits)
  have o: "out = (if test_flag (we_evts we) WPOLLOUT then if write_broken w then WPOLLERR else if writable_now w then WPOLLOUT else 0 else 0)"
    "test_flag (we_evts we) WPOLLOUT \<and> write_broken w \<longrightarrow> w_wcb_errno w \<noteq> 0"
    "we' = (if test_flag (we_evts we) WPOLLOUT \<and> write_broken w then we\<lparr> we_evts := we_evts we AND NOT WPOLLOUT \<rparr> else we)"
    using assms(2) by (auto simp: wpoll_out_def writable_now_def write_broken_def OK_def split: if_splits)
  show "i OR out OR (if w_wcb_errno w \<noteq> 0 then WPOLLERR else 0) = ready_bits we w"
    using i(2) o(2) unfolding i(1) o(1) by (auto simp: ready_bits_def writable_now_def or.assoc or.commute or.left_commute)
  have "test_flag (we_evts we AND NOT WPOLLOUT) WPOLLIN = test_flag (we_evts we) WPOLLIN"
    by (simp add: test_flag_def WPOLLIN_def WPOLLOUT_def and.assoc)
  then show "ready_bits we' w = ready_bits we w" unfolding o(3) by (simp add: ready_bits_def writable_now_def)
  show "we_fd we' = we_fd we" "we_cookie we' = we_cookie we" "we_wcb we' = we_wcb we" by (simp_all add: o(3))
qed

lemma ready_events_put_watch:
  assumes "m_watch_heap s e = Some we" "m_heap s (we_wcb we) = Some w" "wpoll_in we w = Some i" "wpoll_out we w = Some (out, we')"
  shows "ready_events (put_watch e we' s) es = ready_events s es"
proof -
  have "ready_event (put_watch e we' s) x = ready_event s x" for x
    using assms(1,2) wpoll_in_out_ready [OF assms(3,4)] by (simp add: ready_event_def put_watch_def cong: option.case_cong)
  then have "ready_event (put_watch e we' s) = ready_event s" by (rule ext)
  then show ?thesis by (simp add: ready_events_def)
qed

text \<open>A scan hands out the events for which there is room, in order, and queues the others.\<close>

lemma wpoll_scan_ready:
  assumes "wpoll_scan es n s = Some (keep, outs, s')"
  shows "outs = take n (ready_events s es) \<and>
    map pend_evt (m_event_pending_queue s') = map pend_evt (m_event_pending_queue s) @ drop n (ready_events s es)"
  using assms
proof (induction es arbitrary: n s keep outs)
  case (Cons e es)
  obtain we w where h: "m_watch_heap s e = Some we" "m_heap s (we_wcb we) = Some w"
    using Cons.prems by (auto elim!: bind_SomeE)
  show ?case
  proof (cases "w_state w = WCB_RECYCLE")
    case True
    with Cons.prems h have "wpoll_scan es n s = Some (keep, outs, s')" by simp
    from Cons.IH [OF this] h True show ?thesis by (simp add: ready_event_def)
  next
    case False
    with Cons.prems h obtain i out we' where io: "wpoll_in we w = Some i" "wpoll_out we w = Some (out, we')"
      by (auto elim!: bind_SomeE)
    define s1 where "s1 = put_watch e we' s"
    define ev where "ev = i OR out OR (if w_wcb_errno w \<noteq> 0 then WPOLLERR else 0)"
    define evt where "evt = \<lparr> pe_fd = we_fd we, pe_evts = ev, pe_cookie = we_cookie we \<rparr>"
    define late where "late = with_queue s1 (m_event_pending_queue s @ [\<lparr> pend_evt = evt, pend_watch = e \<rparr>])"
    have q1: "m_event_pending_queue s1 = m_event_pending_queue s" by (simp add: s1_def)
    have r1: "ready_events s1 es = ready_events s es" unfolding s1_def by (rule ready_events_put_watch [OF h io])
    have re: "ready_event s e = (if ev = 0 then [] else [evt])"
      using h False wpoll_in_out_ready(1) [OF io] by (simp add: ready_event_def ev_def evt_def)
    from Cons.prems [unfolded wpoll_scan_step [OF h False io ev_def evt_def]] obtain keep' where
      "ev = 0 \<and> wpoll_scan es n s1 = Some (keep', outs, s') \<or>
       ev \<noteq> 0 \<and> n = 0 \<and> wpoll_scan es 0 late = Some (keep', outs, s') \<or>
       (\<exists>n' outs'. ev \<noteq> 0 \<and> n = Suc n' \<and> outs = evt # outs' \<and> wpoll_scan es n' s1 = Some (keep', outs', s'))"
      by (cases n) (auto simp: s1_def [symmetric] late_def [symmetric] simp del: wpoll_scan.simps elim!: bind_SomeE split: if_splits)
    then consider "ev = 0" "wpoll_scan es n s1 = Some (keep', outs, s')"
      | "ev \<noteq> 0" "n = 0" "wpoll_scan es 0 late = Some (keep', outs, s')"
      | n' outs' where "ev \<noteq> 0" "n = Suc n'" "outs = evt # outs'" "wpoll_scan es n' s1 = Some (keep', outs', s')"
      by blast
    then show ?thesis
    proof cases
      case 1
      from Cons.IH [OF 1(2)] 1(1) show ?thesis by (simp add: re r1 q1)
    next
      case 2
      from Cons.IH [OF 2(3)] 2(1,2) show ?thesis by (simp add: re r1 q1 late_def)
    next
      case 3
      from Cons.IH [OF 3(4)] 3(1-3) show ?thesis by (simp add: re r1 q1)
    qed
  qed
qed simp

text \<open>
  C34: A wpoll_wait that returns on a running manager loses no event and invents none. When events left over from an earlier wait are still wanted,
  it returns the first of them, as many as asked for, and leaves the rest queued. Otherwise it returns the first events of
  the watched blocks, in the order of the watch list, and queues all others: a block that is not recycled has an event exactly when it is readable or writable as asked, or
  has an error.
\<close>

theorem wpoll_wait_loses_no_event:
  assumes "wpoll_wait h sz s = Some (rt, evts, s')" "m_state s = S_RUN" "map_of (m_wpoll_map s) h = Some watched"
  shows "let waiting = map pend_evt (filter (wanted s) (m_event_pending_queue s)); ready = ready_events s watched in
    (if waiting \<noteq> [] then evts = take (unat sz) waiting \<and> map pend_evt (filter (wanted s') (m_event_pending_queue s')) = drop (unat sz) waiting
     else evts = take (unat sz) ready \<and> map pend_evt (m_event_pending_queue s') = drop (unat sz) ready) \<and>
    rt = int (length evts) \<and> length evts \<le> unat sz"
proof -
  let ?w = "map pend_evt (filter (wanted s) (m_event_pending_queue s))"
  obtain out rest where d: "wpoll_drain (m_event_pending_queue s) (unat sz) s = Some (out, rest)"
    using assms by (auto simp: wpoll_wait_def elim!: bind_SomeE)
  note dw = wpoll_drain_wanted [OF d]
  show ?thesis
  proof (cases "out = []")
    case False
    then have r: "rt = int (length out)" "evts = out" "s' = with_queue s rest" using assms d by (auto simp: wpoll_wait_def)
    have "wanted s' = wanted s" by (simp add: r(3) wanted_def fun_eq_iff)
    with dw r False show ?thesis by (auto simp: Let_def)
  next
    case True
    with assms d obtain keep t where w: "rest = []" "wpoll_scan watched (unat sz) (with_queue s []) = Some (keep, evts, t)"
      "rt = int (length evts)" "s' = set_wpoll h keep t"
      by (auto simp: wpoll_wait_def Let_def elim!: bind_SomeE split: if_splits)
    have "?w = take (unat sz) ?w @ drop (unat sz) ?w" by simp
    then have "?w = []" using dw True w(1) by (metis append.right_neutral filter.simps(1) list.simps(8))
    moreover have "m_event_pending_queue s' = m_event_pending_queue t" by (simp add: w(4) set_wpoll_def)
    ultimately show ?thesis using wpoll_scan_ready [OF w(2)] w(3) by (simp add: Let_def)
  qed
qed

definition sample_polled :: wcp where
  "sample_polled = sample_wcp\<lparr> m_heap := [0 \<mapsto> sample_reader], m_wpoll_map := [(1, [0, 1])],
     m_watch_heap := [0 \<mapsto> \<lparr> we_fd = 5, we_evts = WPOLLIN, we_cookie = Some 7, we_wcb = 0 \<rparr>,
                      1 \<mapsto> \<lparr> we_fd = 5, we_evts = WPOLLIN, we_cookie = Some 8, we_wcb = 0 \<rparr>] \<rparr>"

theorem wpoll_wait_loses_no_event_witness:
  "\<exists>s'. wpoll_wait 1 1 sample_polled = Some (1, [\<lparr> pe_fd = 5, pe_evts = WPOLLIN, pe_cookie = Some 7 \<rparr>], s') \<and>
     map pend_evt (m_event_pending_queue s') = [\<lparr> pe_fd = 5, pe_evts = WPOLLIN, pe_cookie = Some 8 \<rparr>]"
proof -
  have f: "test_flag READ_REMOTE_FIN_RECEIVED (READ_RECV_ERROR OR READ_LOCAL_READ_SHUTDOWNED) = False"
    "test_flag READ_REMOTE_FIN_RECEIVED READ_REMOTE_FIN_READ_BY_USER = False"
    "test_flag READ_REMOTE_FIN_RECEIVED READ_REMOTE_FIN_RECEIVED" "test_flag WPOLLIN WPOLLIN" "test_flag WPOLLIN WPOLLOUT = False"
    "test_flag SND_CWND_SLOW_START WCB_FLAG_IS_LISTENER = False" "WPOLLIN \<noteq> 0"
    by (simp_all add: test_flag_def WCB_flag_defs WPOLLIN_def WPOLLOUT_def)
  have i: "wpoll_in we sample_reader = Some WPOLLIN" "wpoll_out we sample_reader = Some (0, we)"
    if "we_evts we = WPOLLIN" for we
    by (simp_all add: wpoll_in_def wpoll_out_def that f sample_reader_def sample_wcb_def)
  have w: "w_state sample_reader \<noteq> WCB_RECYCLE" "w_wcb_errno sample_reader = 0"
    by (simp_all add: sample_reader_def sample_wcb_def)
  note defs = sample_polled_def sample_wcp_def put_watch_def
  have scan: "\<exists>k t. wpoll_scan [0, 1] 1 sample_polled = Some (k, [\<lparr> pe_fd = 5, pe_evts = WPOLLIN, pe_cookie = Some 7 \<rparr>], t)"
    by (simp add: defs i w f Let_def)
  then obtain k t where c: "wpoll_scan [0, 1] 1 sample_polled = Some (k, [\<lparr> pe_fd = 5, pe_evts = WPOLLIN, pe_cookie = Some 7 \<rparr>], t)" by blast
  have m: "m_state sample_polled = S_RUN" "map_of (m_wpoll_map sample_polled) 1 = Some [0, 1]"
    "m_event_pending_queue sample_polled = []" "with_queue sample_polled [] = sample_polled" by (simp_all add: defs)
  have r: "wpoll_wait 1 1 sample_polled = Some (1, [\<lparr> pe_fd = 5, pe_evts = WPOLLIN, pe_cookie = Some 7 \<rparr>], set_wpoll 1 k t)"
    using c by (simp add: wpoll_wait_def Let_def m del: wpoll_scan.simps One_nat_def)
  have "ready_bits we sample_reader = WPOLLIN" if "we_evts we = WPOLLIN" for we
    using wpoll_in_out_ready(1) [OF i(1) [OF that] i(2) [OF that]] w(2) by simp
  then have "ready_events sample_polled [0, 1] = [\<lparr> pe_fd = 5, pe_evts = WPOLLIN, pe_cookie = Some 7 \<rparr>, \<lparr> pe_fd = 5, pe_evts = WPOLLIN, pe_cookie = Some 8 \<rparr>]"
    by (simp add: ready_event_def defs w f)
  then show ?thesis using wpoll_wait_loses_no_event [OF r m(1,2)] r by (simp add: m)
qed

section \<open>Descriptors\<close>

text \<open>
  C35: Descriptors repeat after 2048 sockets. When a new socket gets the descriptor of a connection that is
  still open, connect() leaves the table entry of the old connection in place and takes the new
  block out of the pending table: no call reaches the new block any more.
\<close>

theorem reused_descriptor_loses_connection:
  assumes "smap_ok (m_wcb_map s)" "map_of (m_wcb_map s) fd = Some old" "map_of (m_wcb_create_pending_map s) fd = Some r"
    "fst (so_turnon_nonblocking r s) = OK" "wcp_connect fd a p s = Some (res, s')"
    "s_wcb_auto_increament_id t < 2 ^ 31 - 2048"
  shows "fst (make_wcb_fd (t\<lparr> s_wcb_auto_increament_id := s_wcb_auto_increament_id t + 2048 \<rparr>)) = fst (make_wcb_fd t) \<and>
    map_of (m_wcb_map s') fd = Some old \<and> map_of (m_wcb_create_pending_map s') fd = None"
proof -
  let ?i = "s_wcb_auto_increament_id t"
  have i: "unat ?i < 2 ^ 31 - 2048" using assms(6) by (simp add: word_less_nat_alt)
  then have "unat (?i + 2048) = unat ?i + 2048" using unat_add_lem [of ?i 2048] by simp
  with i sint_small [of ?i] sint_small [of "?i + 2048"] have "sint (?i + 2048) = sint ?i + 2048" "0 \<le> sint ?i" by auto
  then have "sint (?i + 2048) smod 2048 = sint ?i smod 2048"
    by (cases "sint ?i = 0") (simp_all add: signed_modulo_int_def)
  moreover define s1 where "s1 = snd (so_turnon_nonblocking r s)"
  then have v: "m_wcb_map s1 = m_wcb_map s" using table_view_turnon [of r s] by (simp add: table_view_def)
  have "map_of (m_wcb_map s') fd = Some old \<and> map_of (m_wcb_create_pending_map s') fd = None"
    using assms(3-5) smap.look_ins [of "m_wcb_map s1" fd r] assms(1,2) v
    by (auto simp: wcp_connect_def s1_def [symmetric] split_beta Let_def put_wcb_def note_errno_def set_last_errno_def
        so_begin_async_read_def smap_erase_look elim!: bind_SomeE split: option.splits)
  ultimately show ?thesis by (simp add: make_wcb_fd_def WCP_FD_MAX_def)
qed

text \<open>An open connection and a new socket with the same descriptor.\<close>

definition sample_reused :: wcp where
  "sample_reused = sample_wcp\<lparr> m_heap := [0 \<mapsto> sample_wcb, 1 \<mapsto> sample_wcb\<lparr> w_state := WCB_CLOSED, w_remote_addr := 0 \<rparr>],
     m_wcb_map := [(5, 0)], m_wcb_create_pending_map := [(5, 1)] \<rparr>"

theorem reused_descriptor_loses_connection_witness:
  "\<exists>res s'. wcp_connect 5 2 3 sample_reused = Some (res, s') \<and> map_of (m_wcb_map s') 5 = Some 0 \<and>
     map_of (m_wcb_create_pending_map s') 5 = None"
proof -
  have h: "smap_ok (m_wcb_map sample_reused)" "map_of (m_wcb_map sample_reused) 5 = Some 0"
    "map_of (m_wcb_create_pending_map sample_reused) 5 = Some 1" "fst (so_turnon_nonblocking 1 sample_reused) = OK"
    "s_wcb_auto_increament_id sample_reused < 2 ^ 31 - 2048"
    by (simp_all add: sample_reused_def sample_wcp_def smap_ok_def so_turnon_nonblocking_def os_call_def OK_def)
  obtain res s' where "wcp_connect 5 2 3 sample_reused = Some (res, s')"
    by (simp add: wcp_connect_def sample_reused_def sample_wcp_def so_turnon_nonblocking_def os_call_def OK_def
        so_begin_async_read_def wcb_connect_def SYN_def sample_wcb_def sample_env_def addr_is_null_def connect_wait_def
        push_standby_def curr_milliseconds_def test_flag_def Let_def)
  with reused_descriptor_loses_connection [OF h(1-4) this h(5)] show ?thesis by blast
qed

end
