(* ===== verification/Wcb_Sent_Props.thy ===== *)
theory Wcb_Sent_Props
  imports Wcb_Update_Props
begin

text \<open>
  What a block has put on the wire: a pack of the sequence space whose sendto() succeeded has a number
  below snd_info.next, and no datagram acknowledges more than rcv_info.next. Both bounds hold through
  check_flights() and check_send().
\<close>

section \<open>The bounds\<close>

definition seq_bound :: "u32 \<Rightarrow> WCP_Header \<Rightarrow> bool" where
  "seq_bound n h \<longleftrightarrow> h_seq h < n \<or> test_flag (h_flag h) WCP_FLAG_SACK \<or> test_flag (h_flag h) WCP_FLAG_KEEP_ALIVE \<or>
     test_flag (h_flag h) WCP_FLAG_KEEP_ALIVE_REPLY"

text \<open>A datagram sent with the code \<open>rt\<close>.\<close>

definition msg_bound :: "u32 \<Rightarrow> u32 \<Rightarrow> int \<Rightarrow> bytes \<Rightarrow> bool" where
  "msg_bound n ack rt m \<longleftrightarrow> (\<forall>h d. WCP_RECEIVED_PACK_FROM_UDPMESSAGE m = Some (h, d) \<longrightarrow>
     h_ack h \<le> ack \<and> (rt = OK \<longrightarrow> seq_bound n h))"

definition sent_fine :: "u32 \<Rightarrow> WCB \<Rightarrow> bool" where
  "sent_fine n w \<longleftrightarrow> (\<forall>i < length (env_sent (w_env w)).
     msg_bound n (ri_next (w_rcv_info w)) (env_send_rt (w_env w) i) (snd (env_sent (w_env w) ! i)))"

definition out_inv :: "WCB \<Rightarrow> bool" where
  "out_inv w \<longleftrightarrow> sent_fine (si_next (w_snd_info w)) w \<and> (\<forall>p \<in> set (w_snd_flights w). wp_seq p < si_next (w_snd_info w))"

lemma sent_fine_mono: "sent_fine n w \<Longrightarrow> n \<le> k \<Longrightarrow> sent_fine k w"
  unfolding sent_fine_def msg_bound_def seq_bound_def by (meson order_less_le_trans)

definition out_view where
  "out_view w = (env_sent (w_env w), env_send_rt (w_env w), ri_next (w_rcv_info w))"

lemma sent_fine_view: "out_view w' = out_view w \<Longrightarrow> sent_fine n w' = sent_fine n w"
  by (simp add: sent_fine_def out_view_def)

text \<open>The members that do not change while packs are sent.\<close>

definition keep_view where
  "keep_view w = (ri_next (w_rcv_info w), si_next (w_snd_info w), si_dsn (w_snd_info w))"

lemma decode_encoded_ack:
  assumes "WCPPACK_TO_UDPMESSAGE h data WCP_MTU = Some m" "WCP_RECEIVED_PACK_FROM_UDPMESSAGE m = Some (h', d')"
  shows "h_ack h' = h_ack h \<and> h_seq h' = h_seq h \<and> h_flag h' = h_flag h"
proof -
  have "data_len data \<le> 1384" using assms(1) wcp_encode_fails [of data h WCP_MTU] by (cases "data_len data \<le> 1384") auto
  then obtain m' where "WCPPACK_TO_UDPMESSAGE h data WCP_MTU = Some m'" "WCP_RECEIVED_PACK_FROM_UDPMESSAGE m' =
     Some (h\<lparr> h_dlen := of_nat (data_len data) \<rparr>, if data_len data = 0 then None else data)" by (rule wcp_decode_encoded)
  with assms show ?thesis by auto
qed

lemma send_packE:
  assumes "send_pack p w = Some (rt, p', w')"
  obtains m where "WCPPACK_TO_UDPMESSAGE (wp_header p') (wp_data p') WCP_MTU = Some m"
    "p' = p\<lparr> wp_header := (wp_header p)\<lparr> h_ack := ri_next (w_rcv_info w), h_wnd := ri_wnd (w_rcv_info w) \<rparr> \<rparr>"
    "w' = w\<lparr> w_env := (w_env w)\<lparr> env_sent := env_sent (w_env w) @ [(w_remote_addr w, m)] \<rparr> \<rparr>"
    "rt = env_send_rt (w_env w) (length (env_sent (w_env w)))"
  using assms
  by (cases "addr_is_null (w_remote_addr w)") (auto simp: send_pack_def inject_to_address_def Let_def elim!: bind_SomeE)

lemma send_pack_fine:
  assumes "send_pack p w = Some (rt, p', w')" "sent_fine n w" "seq_bound n (wp_header p)"
  shows "sent_fine n w'" "keep_view w' = keep_view w" "wp_seq p' = wp_seq p" "h_flag (wp_header p') = h_flag (wp_header p)"
    "w_snd_flights w' = w_snd_flights w"
proof -
  obtain m where m: "WCPPACK_TO_UDPMESSAGE (wp_header p') (wp_data p') WCP_MTU = Some m"
    "p' = p\<lparr> wp_header := (wp_header p)\<lparr> h_ack := ri_next (w_rcv_info w), h_wnd := ri_wnd (w_rcv_info w) \<rparr> \<rparr>"
    "w' = w\<lparr> w_env := (w_env w)\<lparr> env_sent := env_sent (w_env w) @ [(w_remote_addr w, m)] \<rparr> \<rparr>"
    "rt = env_send_rt (w_env w) (length (env_sent (w_env w)))"
    by (rule send_packE [OF assms(1)])
  have hp: "h_ack (wp_header p') = ri_next (w_rcv_info w)" "h_seq (wp_header p') = wp_seq p"
    "h_flag (wp_header p') = h_flag (wp_header p)" by (simp_all add: m(2))
  have "msg_bound n (ri_next (w_rcv_info w)) c m" for c
    unfolding msg_bound_def using decode_encoded_ack [OF m(1)] assms(3) hp by (metis order_refl seq_bound_def)
  then show "sent_fine n w'" using assms(2) by (auto simp: sent_fine_def m(3) nth_append less_Suc_eq)
  show "keep_view w' = keep_view w" "wp_seq p' = wp_seq p" "h_flag (wp_header p') = h_flag (wp_header p)"
    "w_snd_flights w' = w_snd_flights w"
    by (simp_all add: keep_view_def m(2,3))
qed

text \<open>For the pack with the next number, the bound moves when sendto() succeeds and not otherwise.\<close>

lemma send_pack_next:
  assumes "send_pack p w = Some (rt, p', w')" "sent_fine n w" "rt \<noteq> OK"
  shows "sent_fine n w'"
proof -
  obtain m where m: "WCPPACK_TO_UDPMESSAGE (wp_header p') (wp_data p') WCP_MTU = Some m"
    "p' = p\<lparr> wp_header := (wp_header p)\<lparr> h_ack := ri_next (w_rcv_info w), h_wnd := ri_wnd (w_rcv_info w) \<rparr> \<rparr>"
    "w' = w\<lparr> w_env := (w_env w)\<lparr> env_sent := env_sent (w_env w) @ [(w_remote_addr w, m)] \<rparr> \<rparr>"
    "rt = env_send_rt (w_env w) (length (env_sent (w_env w)))"
    by (rule send_packE [OF assms(1)])
  have "h_ack (wp_header p') = ri_next (w_rcv_info w)" by (simp add: m(2))
  then have "msg_bound n (ri_next (w_rcv_info w)) rt m"
    unfolding msg_bound_def using decode_encoded_ack [OF m(1)] assms(3) by (metis order_refl)
  then show ?thesis using assms(2) m(4) by (auto simp: sent_fine_def m(3) nth_append less_Suc_eq)
qed

lemma fine_send_error [simp]:
  "sent_fine n (set_send_error rt w) = sent_fine n w" "keep_view (set_send_error rt w) = keep_view w"
  by (simp_all add: set_send_error_def sent_fine_def keep_view_def)

section \<open>Retransmission\<close>

lemma ack_view_out: "ack_view w' = ack_view w \<Longrightarrow> out_view w' = out_view w \<and> keep_view w' = keep_view w"
  by (simp add: ack_view_def out_view_def keep_view_def)

lemma handle_pack_acked_out:
  "handle_pack_acked p now w = Some w' \<Longrightarrow> out_view w' = out_view w \<and> keep_view w' = keep_view w"
  by (rule ack_view_out) (simp add: handle_pack_acked_def Let_def split: if_splits; clarify; simp)

lemma flights_loop_fine:
  "flights_loop now ps w l m = Some (qs, w', l', m') \<Longrightarrow> sent_fine n w \<Longrightarrow> \<forall>p \<in> set ps. wp_seq p < n \<Longrightarrow>
   sent_fine n w' \<and> keep_view w' = keep_view w \<and> (\<forall>p \<in> set qs. wp_seq p < n)"
proof (induction ps arbitrary: w l m qs w' l' m')
  case (Cons p ps)
  have p: "seq_bound n (wp_header p)" "wp_seq p < n" "\<forall>p \<in> set ps. wp_seq p < n" using Cons.prems(3) by (simp_all add: seq_bound_def)
  show ?case
  proof (cases "test_flag (w_wcb_flag w) SND_UNA_UPDATE \<and> wp_seq p < si_una (w_snd_info w)")
    case True
    with Cons.prems(1) obtain w1 where w1: "handle_pack_acked p now w = Some w1" "flights_loop now ps w1 l m = Some (qs, w', l', m')"
      by (auto elim!: bind_SomeE)
    note v = handle_pack_acked_out [OF w1(1)]
    have "sent_fine n w1" using sent_fine_view [OF conjunct1 [OF v]] Cons.prems(2) by simp
    from Cons.IH [OF w1(2) this p(3)] v show ?thesis by simp
  next
    case False
    define r where "r = retransmit_reason now p w"
    define w1 where "w1 = (if r = 3 \<and> \<not> test_flag (w_wcb_flag w) SND_LOST_DETECTED \<and> wp_seq p > w_snd_lost_biggest_seq w
                    then w\<lparr> w_snd_lost_biggest_seq := wp_seq p \<rparr> else w)"
    define l1 where "l1 = (if r = 3 then l + 1 else l)"
    define m1 where "m1 = (if r = 3 \<and> wp_sent_times p > m then wp_sent_times p else m)"
    have s1: "sent_fine n w1" "keep_view w1 = keep_view w" using Cons.prems(2) by (auto simp: w1_def sent_fine_def keep_view_def)
    show ?thesis
    proof (cases "r > 0")
      case True
      with Cons.prems(1) False obtain rt p2 w2 where s: "send_pack p w1 = Some (rt, p2, w2)"
        "rt \<noteq> OK \<and> qs = p2 # ps \<and> w' = set_send_error rt w2 \<or>
         (\<exists>qs' l'' m''. rt = OK \<and> flights_loop now ps w2 l1 m1 = Some (qs', w', l'', m'') \<and> map wp_seq qs = wp_seq p2 # map wp_seq qs')"
        unfolding flights_loop.simps Let_def r_def [symmetric] w1_def [symmetric] l1_def [symmetric] m1_def [symmetric]
        by (auto elim!: bind_SomeE split: if_splits)
      note f = send_pack_fine [OF s(1) s1(1) p(1)]
      from s(2) show ?thesis
      proof (elim disjE exE conjE)
        fix qs' l'' m'' assume g: "flights_loop now ps w2 l1 m1 = Some (qs', w', l'', m'')" "map wp_seq qs = wp_seq p2 # map wp_seq qs'"
        note i = Cons.IH [OF g(1) f(1) p(3)]
        have "set (map wp_seq qs) = insert (wp_seq p2) (set (map wp_seq qs'))" by (simp add: g(2))
        then have "\<forall>q \<in> set qs. wp_seq q < n" using i f(3) p(2) by (auto simp: image_iff set_eq_iff) metis
        with i f(2) s1(2) show ?thesis by simp
      qed (use f s1 p in auto)
    next
      case no: False
      with Cons.prems(1) False obtain qs' l'' m'' where "flights_loop now ps w1 l1 m1 = Some (qs', w', l'', m'')" "qs = p # qs'"
        unfolding flights_loop.simps Let_def r_def [symmetric] w1_def [symmetric] l1_def [symmetric] m1_def [symmetric]
        by (auto elim!: bind_SomeE split: if_splits)
      with Cons.IH [OF this(1) s1(1) p(3)] s1(2) p(2) show ?thesis by auto
    qed
  qed
qed auto

lemma lost_detected_out:
  "lost_detected now w = Some w' \<Longrightarrow> out_view w' = out_view w \<and> keep_view w' = keep_view w \<and> w_snd_flights w' = w_snd_flights w"
  by (auto simp: lost_detected_def Let_def out_view_def keep_view_def split: if_splits)

lemma check_flights_out:
  assumes "check_flights now w = Some w'" "out_inv w"
  shows "out_inv w'"
proof (cases "\<not> test_flag (w_wcb_flag w) (SND_UNA_UPDATE OR SND_FAST_RECOVERED OR SND_BIGGEST_SACK_UPDATE)
         \<and> now < w_snd_last_rto_timer w + ucast WCP_RTO_CLOCK_GRANULARITY")
  case True
  with assms show ?thesis by (simp add: check_flights_def)
next
  case False
  let ?n = "si_next (w_snd_info w)"
  from assms(1) False obtain qs w1 l m where f: "flights_loop now (w_snd_flights w) (w\<lparr> w_snd_last_rto_timer := now \<rparr>) 0 0 = Some (qs, w1, l, m)"
    by (auto simp: check_flights_def Let_def elim!: bind_SomeE)
  define w2 where "w2 = w1\<lparr> w_snd_flights := qs, w_wcb_flag := clear_flag (w_wcb_flag w1)
                     (SND_BIGGEST_SACK_UPDATE OR SND_UNA_UPDATE OR SND_FAST_RECOVERED) \<rparr>"
  have "w' = w2 \<or> lost_detected now w2 = Some w'"
    using assms(1) False f by (auto simp: check_flights_def Let_def w2_def split: if_splits)
  then have v: "out_view w' = out_view w2" "keep_view w' = keep_view w2" "w_snd_flights w' = w_snd_flights w2"
    using lost_detected_out by auto
  have "sent_fine ?n (w\<lparr> w_snd_last_rto_timer := now \<rparr>)" using assms(2) by (simp add: out_inv_def sent_fine_def)
  from flights_loop_fine [OF f this] have o: "sent_fine ?n w1" "keep_view w1 = keep_view w" "\<forall>p \<in> set qs. wp_seq p < ?n"
    using assms(2) by (simp_all add: out_inv_def keep_view_def)
  have "sent_fine ?n w2" using o(1) by (simp add: w2_def sent_fine_def)
  then have "sent_fine ?n w'" using sent_fine_view [OF v(1)] by simp
  moreover have "si_next (w_snd_info w') = ?n" using v(2) o(2) by (simp add: w2_def keep_view_def)
  moreover have "w_snd_flights w' = qs" using v(3) by (simp add: w2_def)
  ultimately show ?thesis using o(3) by (simp add: out_inv_def)
qed

section \<open>Sending\<close>

lemma send_slots_fine:
  "send_slots k p w = Some (k', q, b, w') \<Longrightarrow> sent_fine n w \<Longrightarrow> seq_bound n (wp_header p) \<Longrightarrow>
   sent_fine n w' \<and> keep_view w' = keep_view w"
proof (induction k arbitrary: p w)
  case (Suc k)
  from Suc.prems(1) obtain rt p1 w1 where s: "send_pack p w = Some (rt, p1, w1)"
    "rt \<noteq> OK \<and> w' = set_send_error rt w1 \<or> rt = OK \<and> send_slots k p1 w1 = Some (k', q, b, w')"
    by (auto elim!: bind_SomeE split: if_splits)
  note f = send_pack_fine [OF s(1) Suc.prems(2,3)]
  have "seq_bound n (wp_header p1)" using Suc.prems(3) f(3,4) by (simp add: seq_bound_def)
  with Suc.IH [OF _ f(1)] s(2) f show ?case by auto
qed auto

definition no_seq :: "WCB_pack \<times> nat \<Rightarrow> bool" where
  "no_seq e \<longleftrightarrow> test_flag (h_flag (wp_header (fst e))) WCP_FLAG_SACK \<or>
     test_flag (h_flag (wp_header (fst e))) WCP_FLAG_KEEP_ALIVE \<or> test_flag (h_flag (wp_header (fst e))) WCP_FLAG_KEEP_ALIVE_REPLY"

lemma send_ignore_fine:
  "send_ignore es w = Some (fs, b, w') \<Longrightarrow> sent_fine n w \<Longrightarrow> \<forall>e \<in> set es. no_seq e \<Longrightarrow>
   sent_fine n w' \<and> keep_view w' = keep_view w"
proof (induction es arbitrary: w)
  case (Cons e es)
  obtain p k where e: "e = (p, k)" by (cases e)
  from Cons.prems(1) obtain k' q ok w1 where s: "send_slots k p w = Some (k', q, ok, w1)"
    "w' = w1 \<or> send_ignore es w1 = Some (fs, b, w')"
    by (auto simp: e elim!: bind_SomeE split: if_splits)
  have "seq_bound n (wp_header p)" using Cons.prems(3) by (auto simp: e no_seq_def seq_bound_def)
  note f = send_slots_fine [OF s(1) Cons.prems(2) this]
  with s(2) Cons.IH [of w1] Cons.prems(3) show ?case by auto
qed auto

lemma send_slots_flights: "send_slots k p w = Some (k', q, b, w') \<Longrightarrow> w_snd_flights w' = w_snd_flights w"
proof (induction k arbitrary: p w)
  case (Suc k)
  then show ?case by (auto elim!: bind_SomeE send_packE split: if_splits simp: set_send_error_def)
qed auto

lemma send_ignore_flights: "send_ignore es w = Some (fs, b, w') \<Longrightarrow> w_snd_flights w' = w_snd_flights w"
proof (induction es arbitrary: w)
  case (Cons e es)
  then show ?case by (cases e) (auto elim!: bind_SomeE split: if_splits dest!: send_slots_flights)
qed auto

text \<open>The packs that wait to be sent, in the numbers from next to dsn.\<close>

definition num_inv :: "WCB_pack list \<Rightarrow> WCB \<Rightarrow> bool" where
  "num_inv ps w \<longleftrightarrow> unat (si_dsn (w_snd_info w)) = unat (si_next (w_snd_info w)) + length ps \<and>
     unat (si_dsn (w_snd_info w)) + length (rb_list (w_sb w)) < 2 ^ 32 \<and> rb_inv (w_sb w) \<and>
     (\<forall>p \<in> set ps. \<not> test_flag (h_flag (wp_header p)) WCP_FLAG_FIN)"

lemma send_next_out:
  assumes "send_pack p w = Some (OK, p', w')" "out_inv w" "wp_seq p = si_next (w_snd_info w)" "num_inv (p # ps) w"
  shows "out_inv (put_in_flight now p' w')" "num_inv ps (put_in_flight now p' w')"
proof -
  let ?n = "si_next (w_snd_info w)"
  have n: "unat (?n + 1) = unat ?n + 1"
    using assms(4) unat_add_lem [of ?n 1] by (auto simp: num_inv_def)
  then have lt: "?n < ?n + 1" by (simp add: word_less_nat_alt)
  obtain m where m: "w' = w\<lparr> w_env := (w_env w)\<lparr> env_sent := env_sent (w_env w) @ [(w_remote_addr w, m)] \<rparr> \<rparr>"
    "p' = p\<lparr> wp_header := (wp_header p)\<lparr> h_ack := ri_next (w_rcv_info w), h_wnd := ri_wnd (w_rcv_info w) \<rparr> \<rparr>"
    by (rule send_packE [OF assms(1)])
  have "sent_fine (?n + 1) w" using assms(2) lt by (auto simp: out_inv_def intro: sent_fine_mono)
  moreover have "seq_bound (?n + 1) (wp_header p)" using assms(3) lt by (simp add: seq_bound_def)
  ultimately have "sent_fine (?n + 1) w'" by (rule send_pack_fine(1) [OF assms(1)])
  then have f: "sent_fine (?n + 1) (put_in_flight now p' w')"
    by (simp add: put_in_flight_def sent_fine_def Let_def)
  have l: "\<forall>q \<in> set (w_snd_flights w). wp_seq q < ?n + 1" using assms(2) lt by (auto simp: out_inv_def)
  show "out_inv (put_in_flight now p' w')"
    using f l assms(3) lt by (simp add: out_inv_def put_in_flight_def Let_def m)
  show "num_inv ps (put_in_flight now p' w')"
    using assms(4) n by (simp add: num_inv_def put_in_flight_def Let_def m)
qed

lemma out_inv_frame:
  "out_view w' = out_view w \<Longrightarrow> w_snd_flights w' = w_snd_flights w \<Longrightarrow> si_next (w_snd_info w') = si_next (w_snd_info w) \<Longrightarrow>
   out_inv w' = out_inv w"
  using sent_fine_view [of w' w] by (simp add: out_inv_def)

lemma send_sending_out:
  "send_sending now ps w = Some (r, qs, w') \<Longrightarrow> out_inv w \<Longrightarrow> num_inv (ps @ st) w \<Longrightarrow>
   out_inv w' \<and> num_inv (qs @ st) w' \<and> w_s_sending_standby w' = w_s_sending_standby w"
proof (induction ps arbitrary: w)
  case (Cons p ps)
  show ?case
  proof (cases "congested p w")
    case True
    with Cons.prems show ?thesis by simp
  next
    case False
    with Cons.prems(1) obtain rt p1 w1 where s: "send_pack p w = Some (rt, p1, w1)" "wp_seq p = si_next (w_snd_info w)"
      by (auto elim!: bind_SomeE split: if_splits)
    obtain m where w1: "w1 = w\<lparr> w_env := (w_env w)\<lparr> env_sent := env_sent (w_env w) @ [(w_remote_addr w, m)] \<rparr> \<rparr>"
      "p1 = p\<lparr> wp_header := (wp_header p)\<lparr> h_ack := ri_next (w_rcv_info w), h_wnd := ri_wnd (w_rcv_info w) \<rparr> \<rparr>"
      by (rule send_packE [OF s(1)])
    have fin: "\<not> test_flag (h_flag (wp_header p1)) WCP_FLAG_FIN" using Cons.prems(3) by (simp add: num_inv_def w1)
    show ?thesis
    proof (cases "rt = OK")
      case True
      note n = send_next_out [OF s(1) [unfolded True] Cons.prems(2) s(2), of "ps @ st" now]
      define w2 where "w2 = put_in_flight now p1 w1"
      have n2: "out_inv w2" "num_inv (ps @ st) w2" "w_s_sending_standby w2 = w_s_sending_standby w"
        using n Cons.prems(3) by (simp_all add: w2_def put_in_flight_def w1 Let_def)
      have "(if test_flag (h_flag (wp_header p1)) WCP_FLAG_SYN then syn_sent w2 else Some w2) \<bind> send_sending now ps = Some (r, qs, w')"
        using Cons.prems(1) False s True fin by (auto simp: w2_def Let_def simp flip: w1(2) elim!: bind_SomeE split: if_splits)
      then obtain w3 where w3: "w3 = w2 \<or> syn_sent w2 = Some w3" "send_sending now ps w3 = Some (r, qs, w')"
        by (auto elim!: bind_SomeE split: if_splits)
      then obtain st' where "w3 = w2\<lparr> w_state := st' \<rparr>" by (cases w2) (auto simp: syn_sent_def split: if_splits)
      then have "out_inv w3" "num_inv (ps @ st) w3" "w_s_sending_standby w3 = w_s_sending_standby w"
        using n2 by (simp_all add: out_inv_def sent_fine_def num_inv_def)
      with Cons.IH [OF w3(2)] show ?thesis by simp
    next
      case no: False
      have q: "qs = p1 # ps" "w' = set_send_error rt w1"
        using Cons.prems(1) False s no by (auto split: if_splits)
      have "sent_fine (si_next (w_snd_info w)) w1"
        using send_pack_next [OF s(1) _ no] Cons.prems(2) by (simp add: out_inv_def)
      moreover have "w_snd_info w' = w_snd_info w" "w_snd_flights w' = w_snd_flights w" "w_sb w' = w_sb w"
        "w_s_sending_standby w' = w_s_sending_standby w" by (simp_all add: q set_send_error_def w1)
      ultimately show ?thesis
        using Cons.prems(2,3) fin by (simp add: q(1) out_inv_def num_inv_def) (simp add: q(2))
    qed
  qed
qed auto

lemma send_fill_out:
  "send_fill fuel k w = Some w' \<Longrightarrow> out_inv w \<Longrightarrow> num_inv (w_snd_sending w) w \<Longrightarrow>
   out_inv w' \<and> num_inv (w_snd_sending w') w' \<and> w_s_sending_standby w' = w_s_sending_standby w"
proof (induction fuel arbitrary: k w)
  case 0
  then show ?case by (auto simp: send_fill.simps [of 0] split: if_splits)
next
  case (Suc fuel)
  show ?case
  proof (cases "rb_count (w_sb w) > 0 \<and> k > 0")
    case False
    with Suc.prems show ?thesis by (auto simp: send_fill.simps [of "Suc fuel"])
  next
    case True
    have inv: "rb_inv (w_sb w)" using Suc.prems(3) by (simp add: num_inv_def)
    have ne: "rb_list (w_sb w) \<noteq> []" using True rb_count_list [OF inv] by (auto simp: word_to_nat)
    obtain sb c where r: "rb_read (w_sb w) WCP_MDU True = Some (c, take (unat WCP_MDU) (rb_list (w_sb w)), sb)"
      "rb_inv sb" "rb_list sb = drop (unat WCP_MDU) (rb_list (w_sb w))"
      using rb_read_ok [OF inv, of WCP_MDU True] by (metis (full_types))
    have l: "length (rb_list sb) < length (rb_list (w_sb w))" using ne by (simp add: r(3))
    let ?p = "new_pack (si_dsn (w_snd_info w)) (WCP_FLAG_DAT OR WCP_FLAG_ACK) (Some (take (unat WCP_MDU) (rb_list (w_sb w))))"
    define w1 where "w1 = w\<lparr> w_sb := sb, w_snd_sending := w_snd_sending w @ [?p],
      w_snd_info := (w_snd_info w)\<lparr> si_dsn := si_dsn (w_snd_info w) + 1 \<rparr> \<rparr>"
    have f: "send_fill fuel (k - c) w1 = Some w'"
      using Suc.prems(1) True r(1) by (auto simp: send_fill.simps [of "Suc fuel"] w1_def Let_def)
    have "unat (si_dsn (w_snd_info w) + 1) = unat (si_dsn (w_snd_info w)) + 1"
      using Suc.prems(3) l unat_add_lem [of "si_dsn (w_snd_info w)" 1] by (auto simp: num_inv_def)
    moreover have "\<not> test_flag (WCP_FLAG_DAT OR WCP_FLAG_ACK) WCP_FLAG_FIN" by (simp add: test_flag_def WCP_FLAG_defs)
    ultimately have "num_inv (w_snd_sending w1) w1"
      using Suc.prems(3) l r(2) by (auto simp: num_inv_def w1_def)
    moreover have "out_inv w1" using Suc.prems(2) by (simp add: w1_def out_inv_def sent_fine_def)
    ultimately have "out_inv w' \<and> num_inv (w_snd_sending w') w' \<and> w_s_sending_standby w' = w_s_sending_standby w1"
      using Suc.IH [OF f] by blast
    then show ?thesis by (simp add: w1_def)
  qed
qed

lemma send_passes_out:
  "send_passes fuel now w = Some w' \<Longrightarrow> out_inv w \<Longrightarrow> num_inv (w_snd_sending w @ w_s_sending_standby w) w \<Longrightarrow>
   out_inv w' \<and> num_inv (w_snd_sending w' @ w_s_sending_standby w') w'"
proof (induction fuel arbitrary: w)
  case (Suc fuel)
  from Suc.prems(1) obtain r rest w1 where s: "send_sending now (w_snd_sending w) w = Some (r, rest, w1)"
    by (auto elim!: bind_SomeE)
  note p = send_sending_out [OF s Suc.prems(2,3)]
  define w2 where "w2 = w1\<lparr> w_snd_sending := rest \<rparr>"
  have p2: "out_inv w2" "num_inv (w_snd_sending w2 @ w_s_sending_standby w2) w2"
    using p by (simp_all add: w2_def out_inv_def sent_fine_def num_inv_def)
  show ?case
  proof (cases "r = Send_return")
    case True
    with Suc.prems(1) s p2 show ?thesis by (auto simp: w2_def)
  next
    case False
    define w3 where "w3 = flush_standby w2"
    have p3: "out_inv w3" "num_inv (w_snd_sending w3) w3" "w_s_sending_standby w3 = []"
      using p2 by (simp_all add: w3_def flush_standby_def out_inv_def sent_fine_def num_inv_def)
    define k where "k = si_cwnd (w_snd_info w3) - w_snd_nflight_bytes w3"
    from Suc.prems(1) s False obtain w4 where w4:
      "(if \<not> test_flag (w_s_flag w3) WRITE_LOCAL_FIN_SENT \<and> k > WCP_MTU
        then send_fill (unat (rb_count (w_sb w3))) k w3 else Some w3) = Some w4"
      "w4 = w' \<or> send_passes fuel now w4 = Some w'"
      by (auto elim!: bind_SomeE simp: Let_def w2_def [symmetric] w3_def [symmetric] k_def [symmetric] split: if_splits)
    have "out_inv w4 \<and> num_inv (w_snd_sending w4) w4 \<and> w_s_sending_standby w4 = []"
      using w4(1) p3 send_fill_out [OF _ p3(1,2)] by (auto split: if_splits)
    with w4(2) Suc.IH [of w4] show ?thesis by auto
  qed
qed simp

lemma check_send_out:
  assumes "check_send now w = Some w'" "out_inv w" "num_inv (w_snd_sending w @ w_s_sending_standby w) w"
    "\<not> test_flag (w_r_flag w) READ_RWND_MORE_THAN_MTU" "\<forall>e \<in> set (w_s_sending_ignore_seq_space w). no_seq e"
    "\<And>fs b w1. send_ignore (w_s_sending_ignore_seq_space w) w = Some (fs, b, w1) \<Longrightarrow> ctl_view w1 = ctl_view w"
  shows "out_inv w'"
proof (cases "test_flag (w_s_flag w) WRITE_SEND_ERROR")
  case True
  with assms show ?thesis by (simp add: check_send_def)
next
  case False
  have fr: "force_rwnd_update now w = w" using assms(4) by (simp add: force_rwnd_update_def)
  from assms(1) False obtain es ok w1 where s: "send_ignore (w_s_sending_ignore_seq_space w) w = Some (es, ok, w1)"
    by (auto simp: check_send_def fr elim!: bind_SomeE)
  have "sent_fine (si_next (w_snd_info w)) w" using assms(2) by (simp add: out_inv_def)
  note f = send_ignore_fine [OF s this assms(5)] and v = assms(6) [OF s]
  define w2 where "w2 = w1\<lparr> w_s_sending_ignore_seq_space := es \<rparr>"
  have o2: "out_inv w2" "num_inv (w_snd_sending w2 @ w_s_sending_standby w2) w2"
    using f v assms(2,3) by (simp_all add: w2_def out_inv_def sent_fine_def num_inv_def ctl_view_def keep_view_def)
  have "w' = w2 \<or> send_passes (send_fuel w2) now w2 = Some w'"
    using assms(1) False s by (auto simp: check_send_def fr w2_def Let_def split: if_splits)
  with o2 send_passes_out [OF _ o2] show ?thesis by blast
qed

end
