(* ===== verification/Wcb_Link.thy ===== *)
theory Wcb_Link
  imports Wcb_Sent_Props Wcb_Ident Wcp_Api Wcb_Sample
begin

text \<open>
  Two connected control blocks and the network between them. Each side writes, reads and ticks when it likes, but no tick
  is due to send a bare window update, which would lose data (see theory Wcb_Ack_Props);
  the network loses, repeats and reorders datagrams as it likes. In these runs, whatever the interleaving, what a
  user has read is a prefix of what the other user has written.
\<close>

section \<open>The system\<close>

text \<open>A side of the connection, with the bytes its user wrote and read so far.\<close>

record peer =
  p_wcb :: WCB
  p_written :: bytes
  p_read :: bytes

text \<open>
  check_send() will not send a bare window update in this tick. Such a pack makes the receiver drop data,
  see theory Wcb_Ack_Props, so the runs considered here are those without one.
\<close>

definition no_window_update :: "u64 \<Rightarrow> WCB \<Rightarrow> bool" where
  "no_window_update now w \<longleftrightarrow>
     (case check_recv now w of None \<Rightarrow> True | Some w1 \<Rightarrow> \<not> test_flag (w_r_flag w1) READ_RWND_MORE_THAN_MTU)"

text \<open>The datagram number \<open>i\<close> that the block sent, when sendto() succeeded.\<close>

definition on_wire :: "WCB \<Rightarrow> nat \<Rightarrow> bool" where
  "on_wire w i \<longleftrightarrow> i < length (env_sent (w_env w)) \<and> env_send_rt (w_env w) i = OK"

definition inbox_of :: "WCB \<Rightarrow> nat list \<Rightarrow> int \<Rightarrow> WCB \<Rightarrow> WCB" where
  "inbox_of other is rt w = w\<lparr> w_env := (w_env w)\<lparr>
     env_inbox := map (\<lambda>i. (w_remote_addr w, snd (env_sent (w_env other) ! i))) is, env_recv_rt := rt \<rparr> \<rparr>"

inductive peer_step :: "peer \<Rightarrow> peer \<Rightarrow> peer \<Rightarrow> bool" for b where
  peer_tick: "wcb_update now (p_wcb a) = Some w \<Longrightarrow> no_window_update now (p_wcb a) \<Longrightarrow>
    peer_step b a (a\<lparr> p_wcb := w \<rparr>)"
| peer_arrive: "\<forall>i \<in> set is. on_wire (p_wcb b) i \<Longrightarrow> pump_packs (inbox_of (p_wcb b) is rt (p_wcb a)) = Some w \<Longrightarrow>
    peer_step b a (a\<lparr> p_wcb := w \<rparr>)"
| peer_write: "rb_write (w_sb (p_wcb a)) buf n = Some (k, sb) \<Longrightarrow> unat n \<le> length buf \<Longrightarrow>
    unat (si_dsn (w_snd_info (p_wcb a))) + length (rb_list sb) < 2 ^ 32 \<Longrightarrow>
    peer_step b a (a\<lparr> p_wcb := (p_wcb a)\<lparr> w_sb := sb \<rparr>, p_written := p_written a @ take (unat k) buf \<rparr>)"
| peer_read: "wcb_recv n (p_wcb a) = Some (Ret (k, d), e, w) \<Longrightarrow>
    peer_step b a (a\<lparr> p_wcb := w, p_read := p_read a @ d \<rparr>)"

inductive link_step :: "peer \<times> peer \<Rightarrow> peer \<times> peer \<Rightarrow> bool" where
  left: "peer_step b a a' \<Longrightarrow> link_step (a, b) (a', b)"
| right: "peer_step a b b' \<Longrightarrow> link_step (a, b) (a, b')"

text \<open>Both sides established and idle, and agreed on the numbers.\<close>

definition idle_side :: "WCB \<Rightarrow> bool" where
  "idle_side w \<longleftrightarrow> est_inv (\<lambda>_. []) w \<and> snd_inv (\<lambda>_. []) w \<and> ignore_clean w \<and> env_sent (w_env w) = [] \<and>
     w_snd_flights w = [] \<and> w_snd_sending w = [] \<and> w_s_sending_standby w = [] \<and> rb_list (w_sb w) = [] \<and> stream w = [] \<and>
     w_rcv_received w = [] \<and> w_received_vec_standby w = []"

definition link_start :: "peer \<times> peer \<Rightarrow> bool" where
  "link_start ab \<longleftrightarrow> (\<forall>(a, b) \<in> {ab, prod.swap ab}. idle_side (p_wcb a) \<and> p_written a = [] \<and> p_read a = [] \<and>
     ri_next (w_rcv_info (p_wcb a)) = si_next (w_snd_info (p_wcb b)))"

section \<open>The invariant\<close>

text \<open>The payloads of the first \<open>n\<close> numbers.\<close>

definition upto :: "(u32 \<Rightarrow> bytes) \<Rightarrow> u32 \<Rightarrow> bytes" where
  "upto seg n = concat (map (\<lambda>i. seg (of_nat i)) [0..<unat n])"

lemma sender_stream_upto: "sender_stream seg w = upto seg (si_dsn (w_snd_info w)) @ rb_list (w_sb w)"
  by (simp add: sender_stream_def upto_def)

lemma upto_cong: "(\<And>s. s < n \<Longrightarrow> seg' s = seg s) \<Longrightarrow> upto seg' n = upto seg n"
proof -
  assume a: "\<And>s. s < n \<Longrightarrow> seg' s = seg s"
  have "seg' (of_nat i) = seg (of_nat i)" if "i < unat n" for i
  proof (rule a)
    have "i < 4294967296" using that unat_less_2p [of n] by linarith
    then have "unat (of_nat i :: u32) = i" by (intro unat_of_nat_nowrap) simp
    then show "of_nat i < n" using that by (simp add: word_less_nat_alt)
  qed
  then show ?thesis unfolding upto_def by (intro arg_cong [of _ _ concat] map_cong) auto
qed

lemma upto_extend:
  assumes "unat (n + of_nat k) = unat n + k"
  shows "upto seg (n + of_nat k) = upto seg n @ concat (map (\<lambda>i. seg (n + of_nat i)) [0..<k])"
proof -
  have "map (\<lambda>i. unat n + i) [0..<k] = [unat n..<unat n + k]"
    using map_add_upt [of "unat n" k] by (simp add: add.commute)
  then have "[0..<unat n + k] = [0..<unat n] @ map (\<lambda>i. unat n + i) [0..<k]"
    using upt_add_eq_append [of 0 "unat n" k] by simp
  then show ?thesis unfolding upto_def assms by (simp add: comp_def)
qed

lemma upto_prefix: "n \<le> m \<Longrightarrow> prefix (upto seg n) (upto seg m)"
proof -
  assume "n \<le> m"
  then obtain k where "unat m = unat n + k" by (metis le_iff_add word_le_nat_alt)
  then have "[0..<unat m] = [0..<unat n] @ [unat n..<unat m]" using upt_add_eq_append [of 0 "unat n" k] by simp
  then show ?thesis unfolding upto_def by (auto simp: prefix_def)
qed

lemma count_numbers:
  assumes "\<forall>i < k. (n :: u32) + of_nat i < m" "n \<le> m"
  shows "unat (n + of_nat k) = unat n + k \<and> n + of_nat k \<le> m"
  using assms(1)
proof (induction k)
  case (Suc k)
  then have lt: "n + of_nat k < m" and i: "unat (n + of_nat k) = unat n + k" by auto
  have "n + of_nat k + 1 \<le> m" using lt by (rule word_suc_le_of_less)
  moreover have "unat (n + of_nat k) + 1 < 4294967296" using lt unat_less_2p [of m] unfolding word_less_nat_alt by linarith
  then have "unat (n + of_nat k + 1) = unat (n + of_nat k) + 1" using unat_add_nowrap [of "n + of_nat k" 1] by simp
  ultimately show ?case using i by (simp add: add.assoc add.commute [of 1])
qed (use assms(2) in simp)

abbreviation up :: "WCB \<Rightarrow> WCB" where
  "up w \<equiv> w\<lparr> w_state := WCB_ESTABLISHED \<rparr>"

definition sender_ok :: "(u32 \<Rightarrow> bytes) \<Rightarrow> peer \<Rightarrow> bool" where
  "sender_ok seg a \<longleftrightarrow> snd_inv seg (p_wcb a) \<and> sent_ok seg (p_wcb a) \<and> ignore_clean (p_wcb a) \<and> out_inv (p_wcb a) \<and>
     unat (si_dsn (w_snd_info (p_wcb a))) + length (rb_list (w_sb (p_wcb a))) < 2 ^ 32 \<and>
     sender_stream seg (p_wcb a) = p_written a"

definition receiver_ok :: "(u32 \<Rightarrow> bytes) \<Rightarrow> u32 \<Rightarrow> peer \<Rightarrow> bool" where
  "receiver_ok seg lim a \<longleftrightarrow> w_state (p_wcb a) \<in> {WCB_ESTABLISHED, WCB_CLOSED, WCB_RECYCLE} \<and> est_inv seg (up (p_wcb a)) \<and>
     p_read a @ stream (p_wcb a) = upto seg (ri_next (w_rcv_info (p_wcb a))) \<and> ri_next (w_rcv_info (p_wcb a)) \<le> lim \<and>
     (\<forall>p \<in> set (w_rcv_received (p_wcb a)). rp_seq p < lim) \<and>
     (\<forall>p \<in> set (w_received_vec_standby (p_wcb a)).
        phase_ok seg (w_remote_addr (p_wcb a)) (si_next (w_snd_info (p_wcb a))) p \<and> (sequenced p \<longrightarrow> rp_seq p < lim))"

definition link_inv :: "peer \<Rightarrow> peer \<Rightarrow> bool" where
  "link_inv a b \<longleftrightarrow> (\<exists>sa sb. sender_ok sa a \<and> receiver_ok sb (si_next (w_snd_info (p_wcb b))) a \<and>
     sender_ok sb b \<and> receiver_ok sa (si_next (w_snd_info (p_wcb a))) b)"

lemma next_le_dsn: "snd_inv seg w \<Longrightarrow> si_next (w_snd_info w) \<le> si_dsn (w_snd_info w)"
  by (simp add: snd_inv_def word_le_nat_alt)

text \<open>The receiver does not notice that the sender hands out more numbers.\<close>

lemma receiver_ok_mono:
  assumes "receiver_ok seg lim b" "\<forall>s < dsn. seg' s = seg s" "lim \<le> dsn" "lim \<le> lim'"
  shows "receiver_ok seg' lim' b"
proof -
  have old: "seg' s = seg s" if "s < lim" for s using assms(2,3) that by auto
  have d: "data_ok seg' r p = data_ok seg r p" if "rp_seq p < lim" for r p using old [OF that] by (simp add: data_ok_def)
  have "est_inv seg' (up (p_wcb b))"
    using assms(1) d by (auto simp: receiver_ok_def est_inv_def reorder_ok_def)
  moreover have "phase_ok seg' r l p" if "phase_ok seg r l p" "sequenced p \<longrightarrow> rp_seq p < lim" for r l p
    using that d by (auto simp: phase_ok_def)
  moreover have "upto seg' (ri_next (w_rcv_info (p_wcb b))) = upto seg (ri_next (w_rcv_info (p_wcb b)))"
    using assms(1) old by (intro upto_cong) (auto simp: receiver_ok_def)
  ultimately show ?thesis using assms(1,4) unfolding receiver_ok_def by (auto intro: order_less_le_trans)
qed

section \<open>Ticks\<close>

abbreviation with_wcb :: "peer \<Rightarrow> WCB \<Rightarrow> peer" where
  "with_wcb a w \<equiv> a\<lparr> p_wcb := w \<rparr>"

lemma sent_fine_ri:
  assumes "sent_fine n w" "env_sent (w_env w') = env_sent (w_env w)" "env_send_rt (w_env w') = env_send_rt (w_env w)"
    "ri_next (w_rcv_info w) \<le> ri_next (w_rcv_info w')"
  shows "sent_fine n w'"
  using assms unfolding sent_fine_def msg_bound_def by (auto intro: order_trans)

lemma up_est [simp]: "w_state w = WCB_ESTABLISHED \<Longrightarrow> up w = w"
  by simp

lemma recv_keeps:
  assumes s: "sender_ok seg a" and r: "receiver_ok rseg lim a" and st: "w_state (p_wcb a) = WCB_ESTABLISHED"
    and c: "check_recv now (p_wcb a) = Some w1"
  shows "sender_ok seg (with_wcb a w1) \<and> receiver_ok rseg lim (with_wcb a w1) \<and> w_state w1 = WCB_ESTABLISHED \<and>
    si_next (w_snd_info w1) = si_next (w_snd_info (p_wcb a)) \<and> si_dsn (w_snd_info w1) = si_dsn (w_snd_info (p_wcb a))"
proof -
  let ?w = "p_wcb a"
  have est: "est_inv rseg ?w" using r st by (simp add: receiver_ok_def)
  have ph: "\<forall>p \<in> set (w_received_vec_standby ?w). phase_ok rseg (w_remote_addr ?w) (si_next (w_snd_info ?w)) p"
    using r by (simp add: receiver_ok_def)
  have una: "si_una (w_snd_info ?w) \<le> si_next (w_snd_info ?w)" using s by (simp add: sender_ok_def snd_inv_def)
  from check_recv_ok [OF est ph una, of now, unfolded c option.inject] obtain n where o: "est_inv rseg w1"
    "ri_next (w_rcv_info w1) = ri_next (w_rcv_info ?w) + of_nat n"
    "stream w1 = stream ?w @ concat (map (\<lambda>i. rseg (ri_next (w_rcv_info ?w) + of_nat i)) [0..<n])"
    "snd_view w1 = snd_view ?w" "si_una (w_snd_info w1) \<le> si_next (w_snd_info ?w)"
    "set (w_snd_flights w1) \<subseteq> set (w_snd_flights ?w)" "ignore_clean ?w \<longrightarrow> ignore_clean w1"
    "set (w_rcv_received w1) \<subseteq> set (w_rcv_received ?w) \<union> set (filter sequenced (w_received_vec_standby ?w))"
    "\<forall>i < n. ri_next (w_rcv_info ?w) + of_nat i \<in> rp_seq ` (set (w_rcv_received ?w) \<union> set (filter sequenced (w_received_vec_standby ?w)))"
    by (elim exE conjE) (hypsubst, rule that; assumption)
  have lim: "\<forall>p \<in> set (w_rcv_received ?w) \<union> set (filter sequenced (w_received_vec_standby ?w)). rp_seq p < lim"
    "ri_next (w_rcv_info ?w) \<le> lim" using r by (auto simp: receiver_ok_def)
  have "\<forall>i < n. ri_next (w_rcv_info ?w) + of_nat i < lim"
  proof (intro allI impI)
    fix i assume "i < n"
    with o(9) have "ri_next (w_rcv_info ?w) + of_nat i \<in> rp_seq ` (set (w_rcv_received ?w) \<union> set (filter sequenced (w_received_vec_standby ?w)))"
      by simp
    then show "ri_next (w_rcv_info ?w) + of_nat i < lim" using lim(1) by (elim imageE) simp
  qed
  note k = count_numbers [OF this lim(2)]
  have "p_read a @ stream w1 = upto rseg (ri_next (w_rcv_info w1))"
    using r o(3) upto_extend [OF conjunct1 [OF k], of rseg] by (simp add: receiver_ok_def o(2))
  moreover have "ri_next (w_rcv_info w1) \<le> lim" using k o(2) by simp
  moreover have "\<forall>p \<in> set (w_rcv_received w1). rp_seq p < lim" using o(8) lim(1) by blast
  moreover have st1: "w_state w1 = WCB_ESTABLISHED" using o(1) by (simp add: est_inv_def)
  ultimately have R: "receiver_ok rseg lim (with_wcb a w1)"
    using o(1) check_recv_core(2) [OF c] by (simp add: receiver_ok_def)
  have v: "env_sent (w_env w1) = env_sent (w_env ?w)" "env_send_rt (w_env w1) = env_send_rt (w_env ?w)"
    "si_next (w_snd_info w1) = si_next (w_snd_info ?w)" "si_dsn (w_snd_info w1) = si_dsn (w_snd_info ?w)" "w_sb w1 = w_sb ?w"
    using o(4) by (simp_all add: snd_view_def)
  have "ri_next (w_rcv_info ?w) \<le> ri_next (w_rcv_info w1)" using k o(2) by (simp add: word_le_nat_alt)
  then have "out_inv w1" using s v o(6) sent_fine_ri [of _ ?w w1] by (auto simp: sender_ok_def out_inv_def)
  moreover have "snd_inv seg w1" using s snd_inv_recv [OF _ o(4,6,5)] by (simp add: sender_ok_def)
  moreover have "sent_ok seg w1" "sender_stream seg w1 = p_written a" "ignore_clean w1"
    using s v o(7) by (simp_all add: sender_ok_def sent_ok_def sender_stream_def)
  ultimately have "sender_ok seg (with_wcb a w1)" using s v by (simp add: sender_ok_def)
  with R st1 v show ?thesis by simp
qed

lemma receiver_ok_tick_view:
  assumes "receiver_ok rseg lim a" "est_inv rseg w'" "tick_view w' = tick_view (p_wcb a)"
    "si_next (w_snd_info (p_wcb a)) \<le> si_next (w_snd_info w')"
  shows "receiver_ok rseg lim (with_wcb a w')"
proof -
  have v: "w_rcv_info w' = w_rcv_info (p_wcb a)" "w_rcv_received w' = w_rcv_received (p_wcb a)" "stream w' = stream (p_wcb a)"
    "w_received_vec_standby w' = w_received_vec_standby (p_wcb a)" "w_remote_addr w' = w_remote_addr (p_wcb a)"
    using assms(3) by (simp_all add: tick_view_def stream_def)
  have st: "w_state w' = WCB_ESTABLISHED" using assms(2) by (simp add: est_inv_def)
  have "phase_ok rseg r (si_next (w_snd_info w')) p" if "phase_ok rseg r (si_next (w_snd_info (p_wcb a))) p" for r p
    using that assms(4) by (auto simp: phase_ok_def)
  then show ?thesis using assms(1,2) st unfolding receiver_ok_def by (simp add: v)
qed

lemma flights_keeps:
  assumes s: "sender_ok seg a" and r: "receiver_ok rseg lim a" and st: "w_state (p_wcb a) = WCB_ESTABLISHED"
    and c: "check_flights now (p_wcb a) = Some w1"
  shows "sender_ok seg (with_wcb a w1) \<and> receiver_ok rseg lim (with_wcb a w1) \<and> w_state w1 = WCB_ESTABLISHED \<and>
    w_r_flag w1 = w_r_flag (p_wcb a) \<and>
    si_next (w_snd_info w1) = si_next (w_snd_info (p_wcb a)) \<and> si_dsn (w_snd_info w1) = si_dsn (w_snd_info (p_wcb a))"
proof -
  let ?w = "p_wcb a"
  have est: "est_inv rseg ?w" and snd: "snd_inv seg ?w" using r s st by (simp_all add: receiver_ok_def sender_ok_def)
  from check_flights_ok [OF est snd, of now] c obtain o: "est_inv rseg w1" "snd_inv seg w1" "sends seg ?w w1"
    "tick_view w1 = tick_view ?w" "queue_view w1 = queue_view ?w" by (metis option.inject)
  have q: "si_next (w_snd_info w1) = si_next (w_snd_info ?w)" "si_dsn (w_snd_info w1) = si_dsn (w_snd_info ?w)" "w_sb w1 = w_sb ?w"
    "w_s_sending_ignore_seq_space w1 = w_s_sending_ignore_seq_space ?w" using o(5) by (simp_all add: queue_view_def)
  have "out_inv w1" using check_flights_out [OF c] s by (simp add: sender_ok_def)
  moreover have "sent_ok seg w1" using sent_ok_sends [OF _ o(3)] s q(2) by (simp add: sender_ok_def)
  ultimately have "sender_ok seg (with_wcb a w1)" using s o(2) q by (simp add: sender_ok_def ignore_clean_def sender_stream_def)
  moreover have "receiver_ok rseg lim (with_wcb a w1)" using receiver_ok_tick_view [OF r o(1,4)] q by simp
  ultimately show ?thesis using o(1,4) q by (simp add: est_inv_def tick_view_def)
qed

lemma send_keeps:
  assumes s: "sender_ok seg a" and r: "receiver_ok rseg lim a" and st: "w_state (p_wcb a) = WCB_ESTABLISHED"
    and rf: "\<not> test_flag (w_r_flag (p_wcb a)) READ_RWND_MORE_THAN_MTU" and c: "check_send now (p_wcb a) = Some w1"
  shows "\<exists>seg'. sender_ok seg' (with_wcb a w1) \<and> receiver_ok rseg lim (with_wcb a w1) \<and>
    (\<forall>s < si_dsn (w_snd_info (p_wcb a)). seg' s = seg s) \<and> si_next (w_snd_info (p_wcb a)) \<le> si_next (w_snd_info w1)"
proof -
  let ?w = "p_wcb a"
  have est: "est_inv rseg ?w" and snd: "snd_inv seg ?w" and cl: "ignore_clean ?w" and out: "out_inv ?w"
    and dsn: "unat (si_dsn (w_snd_info ?w)) + length (rb_list (w_sb ?w)) < 2 ^ 32" and so: "sent_ok seg ?w"
    using r s st by (simp_all add: receiver_ok_def sender_ok_def)
  from check_send_ok [OF est cl snd dsn rf, of now] c obtain seg' where o: "est_inv rseg w1" "ignore_clean w1" "snd_inv seg' w1"
    "\<forall>s < si_dsn (w_snd_info ?w). seg' s = seg s" "sender_stream seg' w1 = sender_stream seg ?w" "sent_ok seg' w1"
    "tick_view w1 = tick_view ?w" "si_next (w_snd_info ?w) \<le> si_next (w_snd_info w1)"
    "unat (si_dsn (w_snd_info w1)) + length (rb_list (w_sb w1)) \<le> unat (si_dsn (w_snd_info ?w)) + length (rb_list (w_sb ?w))"
    using so by auto
  have en: "\<forall>e \<in> set (w_s_sending_ignore_seq_space ?w). entry_ok (fst e)"
    using est cl ignore_entries [of ?w] by (simp add: est_inv_def)
  have ctl: "ctl_view v = ctl_view ?w" if "send_ignore (w_s_sending_ignore_seq_space ?w) ?w = Some (fs, b, v)" for fs b v
    using send_ignore_ok [OF en, of ?w seg] snd that by (auto simp: snd_inv_def)
  have "num_inv (w_snd_sending ?w @ w_s_sending_standby ?w) ?w"
    using snd dsn est by (auto simp: num_inv_def snd_inv_def est_inv_def pack_ok_def clean_flags_def)
  moreover have "\<forall>e \<in> set (w_s_sending_ignore_seq_space ?w). no_seq e" using en by (auto simp: entry_ok_def no_seq_def)
  ultimately have "out_inv w1" using check_send_out [OF c out _ rf] ctl by blast
  then have "sender_ok seg' (with_wcb a w1)" using o s dsn by (simp add: sender_ok_def)
  moreover have "receiver_ok rseg lim (with_wcb a w1)" by (rule receiver_ok_tick_view [OF r o(1,7,8)])
  ultimately show ?thesis using o(4,8) by blast
qed

lemma state_keeps:
  assumes "sender_ok seg a" "receiver_ok rseg lim a" "t \<in> {WCB_ESTABLISHED, WCB_CLOSED, WCB_RECYCLE}"
  shows "sender_ok seg (with_wcb a ((p_wcb a)\<lparr> w_state := t \<rparr>)) \<and> receiver_ok rseg lim (with_wcb a ((p_wcb a)\<lparr> w_state := t \<rparr>))"
proof -
  have "snd_inv seg ((p_wcb a)\<lparr> w_state := t \<rparr>) = snd_inv seg (p_wcb a)" "sent_ok seg ((p_wcb a)\<lparr> w_state := t \<rparr>) = sent_ok seg (p_wcb a)"
    "ignore_clean ((p_wcb a)\<lparr> w_state := t \<rparr>) = ignore_clean (p_wcb a)" "out_inv ((p_wcb a)\<lparr> w_state := t \<rparr>) = out_inv (p_wcb a)"
    "sender_stream seg ((p_wcb a)\<lparr> w_state := t \<rparr>) = sender_stream seg (p_wcb a)"
    "stream ((p_wcb a)\<lparr> w_state := t \<rparr>) = stream (p_wcb a)"
    by (simp_all add: snd_inv_def sent_ok_def ignore_clean_def out_inv_def sent_fine_def sender_stream_def stream_def)
  with assms show ?thesis by (simp add: sender_ok_def receiver_ok_def)
qed

lemma tick_keeps:
  assumes s: "sender_ok seg a" and r: "receiver_ok rseg lim a" and u: "wcb_update now (p_wcb a) = Some w"
    and nw: "no_window_update now (p_wcb a)"
  shows "\<exists>seg'. sender_ok seg' (with_wcb a w) \<and> receiver_ok rseg lim (with_wcb a w) \<and>
    (\<forall>s < si_dsn (w_snd_info (p_wcb a)). seg' s = seg s) \<and> si_next (w_snd_info (p_wcb a)) \<le> si_next (w_snd_info w)"
proof (cases "w_state (p_wcb a) = WCB_ESTABLISHED \<and> w_wcb_errno (p_wcb a) = 0")
  case True
  with u obtain w1 w2 where t: "check_recv now (p_wcb a) = Some w1" "check_flights now w1 = Some w2" "check_send now w2 = Some w"
    by (auto simp: wcb_update_def tick_all_def elim!: bind_SomeE)
  have rf: "\<not> test_flag (w_r_flag w1) READ_RWND_MORE_THAN_MTU" using nw t(1) by (simp add: no_window_update_def)
  note k1 = recv_keeps [OF s r _ t(1)]
  note k2 = flights_keeps [of seg "with_wcb a w1" rseg lim now w2]
  note k3 = send_keeps [of seg "with_wcb a w2" rseg lim now w]
  from k1 k2 k3 True t rf show ?thesis by simp
next
  case False
  have "w_state (p_wcb a) \<in> {WCB_ESTABLISHED, WCB_CLOSED, WCB_RECYCLE}" using r by (simp add: receiver_ok_def)
  with False u have "\<exists>t \<in> {WCB_ESTABLISHED, WCB_CLOSED, WCB_RECYCLE}. w = (p_wcb a)\<lparr> w_state := t \<rparr>"
    by (cases "p_wcb a") (auto simp: wcb_update_def split: if_splits)
  then obtain t where t: "t \<in> {WCB_ESTABLISHED, WCB_CLOSED, WCB_RECYCLE}" "w = (p_wcb a)\<lparr> w_state := t \<rparr>" by blast
  have "si_next (w_snd_info w) = si_next (w_snd_info (p_wcb a))" by (simp add: t(2))
  with state_keeps [OF s r t(1)] show ?thesis unfolding t(2) by (intro exI [of _ seg]) simp
qed

section \<open>Arrivals and calls of the user\<close>

lemma pump_datagrams_in:
  "pump_datagrams ms = Some ps \<Longrightarrow> p \<in> set ps \<Longrightarrow>
   \<exists>fm \<in> set ms. WCP_RECEIVED_PACK_FROM_UDPMESSAGE (snd fm) = Some (rp_header p, rp_data p) \<and> rp_from p = fst fm"
proof (induction ms arbitrary: ps)
  case (Cons fm ms)
  from Cons.prems(1) obtain h d qs where f: "WCP_RECEIVED_PACK_FROM_UDPMESSAGE (snd fm) = Some (h, d)"
    "pump_datagrams ms = Some qs" "ps = \<lparr> rp_header = h, rp_data = d, rp_from = fst fm \<rparr> # qs"
    by (auto elim!: bind_SomeE split: if_splits)
  with Cons.IH [OF f(2)] Cons.prems(2) show ?case by auto
qed simp

text \<open>A datagram on the wire is fit for the data phase of the other side.\<close>

lemma arrived_ok:
  assumes "sender_ok seg b" "receiver_ok rseg lim b" "on_wire (p_wcb b) i"
    "WCP_RECEIVED_PACK_FROM_UDPMESSAGE (snd (env_sent (w_env (p_wcb b)) ! i)) = Some (rp_header p, rp_data p)"
  shows "phase_ok seg (rp_from p) lim p \<and> (sequenced p \<longrightarrow> rp_seq p < si_next (w_snd_info (p_wcb b)))"
proof -
  let ?w = "p_wcb b" and ?m = "snd (env_sent (w_env (p_wcb b)) ! i)"
  have i: "i < length (env_sent (w_env ?w))" "env_send_rt (w_env ?w) i = OK" using assms(3) by (simp_all add: on_wire_def)
  then have "msg_ok seg (si_dsn (w_snd_info ?w)) ?m" using assms(1) by (auto simp: sender_ok_def sent_ok_def)
  moreover have p: "\<lparr> rp_header = rp_header p, rp_data = rp_data p, rp_from = rp_from p \<rparr> = p" by simp
  ultimately have "(test_flag (rp_flag p) WCP_FLAG_SACK \<longrightarrow> sack_ok p) \<and> (sequenced p \<longrightarrow> data_ok seg (rp_from p) p)"
    unfolding msg_ok_def assms(4) by (metis option.inject prod.inject)
  moreover have "msg_bound (si_next (w_snd_info ?w)) (ri_next (w_rcv_info ?w)) OK ?m"
    using assms(1) i by (auto simp: sender_ok_def out_inv_def sent_fine_def)
  then have "h_ack (rp_header p) \<le> ri_next (w_rcv_info ?w) \<and> seq_bound (si_next (w_snd_info ?w)) (rp_header p)"
    using assms(4) by (simp add: msg_bound_def)
  moreover have "ri_next (w_rcv_info ?w) \<le> lim" using assms(2) by (simp add: receiver_ok_def)
  ultimately show ?thesis by (auto simp: phase_ok_def sequenced_def seq_bound_def)
qed

lemma arrive_keeps:
  assumes s: "sender_ok seg a" and r: "receiver_ok rseg (si_next (w_snd_info (p_wcb b))) a"
    and sb: "sender_ok rseg b" and rb: "receiver_ok seg (si_next (w_snd_info (p_wcb a))) b"
    and w: "\<forall>i \<in> set is. on_wire (p_wcb b) i" and c: "pump_packs (inbox_of (p_wcb b) is rt (p_wcb a)) = Some w"
  shows "sender_ok seg (with_wcb a w) \<and> receiver_ok rseg (si_next (w_snd_info (p_wcb b))) (with_wcb a w) \<and>
    w_snd_info w = w_snd_info (p_wcb a)"
proof -
  let ?w = "p_wcb a"
  let ?i = "inbox_of (p_wcb b) is rt ?w"
  from c obtain ps e f where ps: "pump_datagrams (env_inbox (w_env ?i)) = Some ps"
    "w = ?i\<lparr> w_received_vec_standby := w_received_vec_standby ?w @ ps, w_env := (w_env ?i)\<lparr> env_inbox := [] \<rparr>,
        w_wcb_errno := e, w_r_flag := f \<rparr>"
  proof -
    from c obtain ps where ps: "pump_datagrams (env_inbox (w_env ?i)) = Some ps" by (auto simp: pump_packs_def elim!: bind_SomeE)
    have st: "w_received_vec_standby ?i = w_received_vec_standby ?w" by (simp add: inbox_of_def)
    show thesis
    proof (cases "env_recv_rt (w_env ?i) \<noteq> OK \<and> env_recv_rt (w_env ?i) \<noteq> E_SOCKET_RECV_BLOCK")
      case True
      with c ps st show thesis by (intro that [OF ps]) (auto simp: pump_packs_def Let_def)
    next
      case False
      with c ps have eq: "w = ?i\<lparr> w_received_vec_standby := w_received_vec_standby ?w @ ps, w_env := (w_env ?i)\<lparr> env_inbox := [] \<rparr> \<rparr>"
        by (auto simp: pump_packs_def Let_def st)
      show thesis by (rule that [OF ps, of "w_r_flag ?w" "w_wcb_errno ?w"]) (simp add: eq inbox_of_def)
    qed
  qed
  have p: "phase_ok rseg (w_remote_addr ?w) (si_next (w_snd_info ?w)) p \<and> (sequenced p \<longrightarrow> rp_seq p < si_next (w_snd_info (p_wcb b)))"
    if "p \<in> set ps" for p
  proof -
    from pump_datagrams_in [OF ps(1) that] obtain j where "j \<in> set is" "rp_from p = w_remote_addr ?w"
      "WCP_RECEIVED_PACK_FROM_UDPMESSAGE (snd (env_sent (w_env (p_wcb b)) ! j)) = Some (rp_header p, rp_data p)"
      by (auto simp: inbox_of_def)
    with arrived_ok [OF sb rb] w show ?thesis by metis
  qed
  have e: "snd_inv seg w = snd_inv seg ?w" "sent_ok seg w = sent_ok seg ?w" "ignore_clean w = ignore_clean ?w" "out_inv w = out_inv ?w"
    "sender_stream seg w = sender_stream seg ?w" "stream w = stream ?w" "est_inv rseg (up w) = est_inv rseg (up ?w)"
    by (simp_all add: ps(2) inbox_of_def snd_inv_def sent_ok_def ignore_clean_def out_inv_def sent_fine_def sender_stream_def stream_def
        est_inv_def reorder_ok_def ignore_ok_def accounted_def tuned_def)
  have v: "w_state w = w_state ?w" "w_rcv_info w = w_rcv_info ?w" "w_rcv_received w = w_rcv_received ?w" "w_remote_addr w = w_remote_addr ?w"
    "w_snd_info w = w_snd_info ?w" "w_sb w = w_sb ?w" "w_received_vec_standby w = w_received_vec_standby ?w @ ps"
    by (simp_all add: ps(2) inbox_of_def)
  show ?thesis using s r p unfolding sender_ok_def receiver_ok_def by (auto simp: e v)
qed

lemma write_keeps:
  assumes s: "sender_ok seg a" and r: "receiver_ok rseg lim a"
    and c: "rb_write (w_sb (p_wcb a)) buf n = Some (k, sb)" "unat n \<le> length buf"
    and d: "unat (si_dsn (w_snd_info (p_wcb a))) + length (rb_list sb) < 2 ^ 32"
  shows "sender_ok seg (a\<lparr> p_wcb := (p_wcb a)\<lparr> w_sb := sb \<rparr>, p_written := p_written a @ take (unat k) buf \<rparr>) \<and>
    receiver_ok rseg lim (a\<lparr> p_wcb := (p_wcb a)\<lparr> w_sb := sb \<rparr>, p_written := p_written a @ take (unat k) buf \<rparr>)"
proof -
  let ?w = "p_wcb a" and ?v = "(p_wcb a)\<lparr> w_sb := sb \<rparr>"
  have inv: "rb_inv (w_sb ?w)" using r by (simp add: receiver_ok_def est_inv_def)
  have "n \<noteq> 0" using c(1) by (auto simp: rb_write_def)
  from rb_write_ok [OF inv this c(2)] c(1) have b: "rb_inv sb" "rb_list sb = rb_list (w_sb ?w) @ take (unat k) buf"
    by (metis option.inject prod.inject)+
  have "snd_inv seg ?v = snd_inv seg ?w" "sent_ok seg ?v = sent_ok seg ?w" "ignore_clean ?v = ignore_clean ?w" "out_inv ?v = out_inv ?w"
    "stream ?v = stream ?w" "est_inv rseg (up ?w) \<longrightarrow> est_inv rseg (up ?v)"
    by (simp_all add: snd_inv_def sent_ok_def ignore_clean_def out_inv_def sent_fine_def stream_def
        est_inv_def reorder_ok_def ignore_ok_def accounted_def tuned_def b(1))
  with s r d b(2) show ?thesis by (simp add: sender_ok_def receiver_ok_def sender_stream_def)
qed

lemma read_keeps:
  assumes s: "sender_ok seg a" and r: "receiver_ok rseg lim a" and c: "wcb_recv n (p_wcb a) = Some (Ret (k, d), e, w)"
  shows "sender_ok seg (a\<lparr> p_wcb := w, p_read := p_read a @ d \<rparr>) \<and> receiver_ok rseg lim (a\<lparr> p_wcb := w, p_read := p_read a @ d \<rparr>) \<and>
    w_snd_info w = w_snd_info (p_wcb a)"
proof -
  let ?w = "p_wcb a"
  have inv: "rb_inv (w_rb ?w)" using r by (simp add: receiver_ok_def est_inv_def)
  have "(d = [] \<and> w = ?w) \<or> (d = [] \<and> (\<exists>f. w = ?w\<lparr> w_r_flag := f \<rparr>)) \<or>
      (\<exists>rb c. rb_read (w_rb ?w) n True = Some (c, d, rb) \<and> w = ?w\<lparr> w_rb := rb \<rparr>)"
    using c by (auto simp: wcb_recv_def elim!: bind_SomeE split: if_splits)
  then have "\<exists>f rb. w = ?w\<lparr> w_r_flag := f, w_rb := rb \<rparr> \<and> rb_inv rb \<and> rb_list (w_rb ?w) = d @ rb_list rb"
  proof (elim disjE exE conjE)
    assume "d = []" "w = ?w"
    then show ?thesis using inv by (intro exI [of _ "w_r_flag ?w"] exI [of _ "w_rb ?w"]) simp
  next
    fix f assume "d = []" "w = ?w\<lparr> w_r_flag := f \<rparr>"
    then show ?thesis using inv by (intro exI [of _ f] exI [of _ "w_rb ?w"]) simp
  next
    fix rb c assume rd: "rb_read (w_rb ?w) n True = Some (c, d, rb)" "w = ?w\<lparr> w_rb := rb \<rparr>"
    from rb_read_ok [OF inv, of n True] rd(1) have "d = take (unat n) (rb_list (w_rb ?w))" "rb_inv rb"
      "rb_list rb = drop (unat n) (rb_list (w_rb ?w))" by (metis option.inject prod.inject)+
    then show ?thesis using rd(2) by (intro exI [of _ "w_r_flag ?w"] exI [of _ rb]) simp
  qed
  then obtain f rb where w: "w = ?w\<lparr> w_r_flag := f, w_rb := rb \<rparr>" "rb_inv rb" "rb_list (w_rb ?w) = d @ rb_list rb" by blast
  have "snd_inv seg w = snd_inv seg ?w" "sent_ok seg w = sent_ok seg ?w" "ignore_clean w = ignore_clean ?w" "out_inv w = out_inv ?w"
    "sender_stream seg w = sender_stream seg ?w" "est_inv rseg (up ?w) \<longrightarrow> est_inv rseg (up w)" "d @ stream w = stream ?w"
    using w(2,3) by (simp_all add: w(1) snd_inv_def sent_ok_def ignore_clean_def out_inv_def sent_fine_def sender_stream_def stream_def
        est_inv_def reorder_ok_def ignore_ok_def accounted_def tuned_def)
  with s r show ?thesis by (simp add: sender_ok_def receiver_ok_def) (simp add: w(1))
qed

section \<open>Reliable delivery\<close>

lemma peer_step_inv:
  assumes "peer_step b a a'" "link_inv a b"
  shows "link_inv a' b"
proof -
  from assms(2) obtain sa sb where i: "sender_ok sa a" "receiver_ok sb (si_next (w_snd_info (p_wcb b))) a"
    "sender_ok sb b" "receiver_ok sa (si_next (w_snd_info (p_wcb a))) b" unfolding link_inv_def by blast
  have "\<exists>sa'. sender_ok sa' a' \<and> receiver_ok sb (si_next (w_snd_info (p_wcb b))) a' \<and>
    (\<forall>s < si_dsn (w_snd_info (p_wcb a)). sa' s = sa s) \<and> si_next (w_snd_info (p_wcb a)) \<le> si_next (w_snd_info (p_wcb a'))"
    using assms(1)
  proof cases
    case (peer_tick now w)
    with tick_keeps [OF i(1,2)] show ?thesis by simp
  next
    case (peer_arrive "is" rt w)
    with arrive_keeps [OF i] show ?thesis by (intro exI [of _ sa]) simp
  next
    case (peer_write buf n k rb)
    with write_keeps [OF i(1,2)] show ?thesis by (intro exI [of _ sa]) simp
  next
    case (peer_read n k d e w)
    with read_keeps [OF i(1,2)] show ?thesis by (intro exI [of _ sa]) simp
  qed
  then obtain sa' where "sender_ok sa' a'" "receiver_ok sb (si_next (w_snd_info (p_wcb b))) a'"
    "\<forall>s < si_dsn (w_snd_info (p_wcb a)). sa' s = sa s" "si_next (w_snd_info (p_wcb a)) \<le> si_next (w_snd_info (p_wcb a'))" by blast
  moreover from this have "receiver_ok sa' (si_next (w_snd_info (p_wcb a'))) b"
    using receiver_ok_mono [OF i(4)] next_le_dsn i(1) by (auto simp: sender_ok_def)
  ultimately show ?thesis using i(3) unfolding link_inv_def by blast
qed

lemma link_inv_swap: "link_inv a b \<Longrightarrow> link_inv b a"
  unfolding link_inv_def by blast

lemma link_step_inv: "link_step ab ab' \<Longrightarrow> link_inv (fst ab) (snd ab) \<Longrightarrow> link_inv (fst ab') (snd ab')"
proof (induction rule: link_step.induct)
  case (right a b b')
  then show ?case using link_inv_swap [OF peer_step_inv [OF _ link_inv_swap]] by simp
qed (simp add: peer_step_inv)

lemma idle_side_ok:
  assumes "idle_side (p_wcb a)" "p_written a = []" "p_read a = []" "ri_next (w_rcv_info (p_wcb a)) = lim"
  shows "sender_ok (\<lambda>_. []) a" "receiver_ok (\<lambda>_. []) lim a"
proof -
  have "upto (\<lambda>_. []) n = []" for n by (simp add: upto_def)
  then show "receiver_ok (\<lambda>_. []) lim a"
    using assms by (auto simp: idle_side_def receiver_ok_def est_inv_def)
  show "sender_ok (\<lambda>_. []) a"
    using assms(1,2) unat_less_2p [of "si_dsn (w_snd_info (p_wcb a))"]
    by (simp add: idle_side_def sender_ok_def sender_stream_def sent_ok_def out_inv_def sent_fine_def)
qed

lemma link_start_inv: "link_start (a, b) \<Longrightarrow> link_inv a b"
  unfolding link_start_def link_inv_def using idle_side_ok by fastforce

lemma link_reach_inv:
  assumes "link_step\<^sup>*\<^sup>* ab0 ab" "link_start ab0"
  shows "link_inv (fst ab) (snd ab)"
  using assms(1)
proof (induction rule: rtranclp_induct)
  case base
  show ?case using assms(2) link_start_inv [of "fst ab0" "snd ab0"] by simp
next
  case (step ab ab')
  show ?case by (rule link_step_inv [OF step(2,3)])
qed

lemma receiver_prefix:
  assumes "sender_ok seg a" "receiver_ok seg (si_next (w_snd_info (p_wcb a))) b"
  shows "prefix (p_read b @ stream (p_wcb b)) (p_written a)"
proof -
  have "ri_next (w_rcv_info (p_wcb b)) \<le> si_dsn (w_snd_info (p_wcb a))"
    using assms next_le_dsn [of seg "p_wcb a"] by (auto simp: sender_ok_def receiver_ok_def)
  then have "prefix (upto seg (ri_next (w_rcv_info (p_wcb b)))) (upto seg (si_dsn (w_snd_info (p_wcb a))))" by (rule upto_prefix)
  moreover have "p_written a = upto seg (si_dsn (w_snd_info (p_wcb a))) @ rb_list (w_sb (p_wcb a))"
    using assms(1) by (simp add: sender_ok_def sender_stream_upto)
  ultimately show ?thesis using assms(2) by (simp add: receiver_ok_def prefix_prefix)
qed

text \<open>
  C1: End-to-end delivery in the runs without a bare window update. Two connected blocks start idle. In any run of writes, reads and ticks on both sides,
  with a network that loses, repeats and reorders the datagrams that were sent, and in which no tick finds a
  bare window update due (\<open>no_window_update\<close>; the code loses data when it sends one), in which each write leaves sequence numbers for all bytes, what a user has read, followed by what is
  buffered for it, is a prefix of what the other user has written, in both directions.
\<close>

theorem link_delivers_prefix:
  assumes "link_start ab0" "link_step\<^sup>*\<^sup>* ab0 (a, b)"
  shows "prefix (p_read b @ stream (p_wcb b)) (p_written a) \<and> prefix (p_read a @ stream (p_wcb a)) (p_written b)"
  using link_reach_inv [OF assms(2,1)] receiver_prefix unfolding link_inv_def fst_conv snd_conv by blast

text \<open>Two idle sides with small buffers.\<close>

definition sample_peer :: peer where
  "sample_peer = \<lparr> p_wcb = sample_wcb, p_written = [], p_read = [] \<rparr>"

lemma sample_link_start: "link_start (sample_peer, sample_peer)"
  using est_inv_sample [of "\<lambda>_. []" "w_received_vec_standby sample_wcb"]
  by (simp add: link_start_def idle_side_def sample_peer_def)
    (simp add: sample_wcb_def sample_env_def snd_inv_def ignore_clean_def stream_def)

theorem link_delivers_prefix_witness:
  "\<exists>a. link_step\<^sup>*\<^sup>* (sample_peer, sample_peer) (a, sample_peer) \<and> p_written a = [1, 2, 3] \<and>
     prefix (p_read sample_peer @ stream (p_wcb sample_peer)) [1, 2, 3]"
proof -
  have w: "w_sb (p_wcb sample_peer) = sample_rb" by (simp add: sample_peer_def sample_wcb_def)
  obtain sb c where sb: "rb_write sample_rb [1, 2, 3] 3 = Some (c, sb)" "unat c = 3" "rb_list sb = [1, 2, 3]"
    by (rule rb_write_ok [OF sample_rb_ok(1), of 3 "[1, 2, 3]"]) auto
  define a where "a = sample_peer\<lparr> p_wcb := (p_wcb sample_peer)\<lparr> w_sb := sb \<rparr>, p_written := p_written sample_peer @ take (unat c) [1, 2, 3] \<rparr>"
  have "peer_step sample_peer sample_peer a"
    unfolding a_def by (rule peer_write [of _ _ 3]) (use sb w in \<open>simp_all add: sample_peer_def sample_wcb_def\<close>)
  then have "link_step\<^sup>*\<^sup>* (sample_peer, sample_peer) (a, sample_peer)" by (blast intro: left)
  moreover have "p_written a = [1, 2, 3]" by (simp add: a_def sb(2) sample_peer_def)
  ultimately show ?thesis using link_delivers_prefix [OF sample_link_start, of a sample_peer] by auto
qed

section \<open>No assertion fails\<close>





end
