(* ===== verification/Formula.thy ===== *)
theory Formula
  imports Wawo_Prelude
begin

text \<open>
  The arithmetic of include/wawo/math/formula.hpp and the key exchange of include/wawo/security/dh.hpp: modular
  multiplication and exponentiation on 64-bit integers without wider intermediate values, against
  the arithmetic of natural numbers.
\<close>

section \<open>The loops of formula.hpp\<close>

lemma unat_shiftr1: "unat (drop_bit (Suc 0) (b :: u64)) = unat b div 2"
  by (simp add: drop_bit_eq_div unat_div)

text \<open>The while loop of Q_mulmod, with its three variables.\<close>

function mulmod_loop :: "u64 \<Rightarrow> u64 \<Rightarrow> u64 \<Rightarrow> u64 \<Rightarrow> u64" where
  "mulmod_loop rt a b q =
     (if b = 0 then rt
      else let q_a = q - a;
               rt = (if b AND 0x1 \<noteq> 0 then (if rt \<ge> q_a then rt - q_a else rt + a) else rt);
               a = (if a \<ge> q_a then a - q_a else a + a) in
           mulmod_loop rt a (drop_bit 1 b) q)"
  by pat_completeness auto

termination
proof (relation "measure (\<lambda>(rt, a, b, q). unat b)")
  fix rt a b q :: u64
  assume "b \<noteq> 0"
  then have "0 < unat b" by (simp add: unat_gt_0)
  then show "\<And>x xa xb. ((xa, xb, drop_bit 1 b, q), rt, a, b, q) \<in> measure (\<lambda>(rt, a, b, q). unat b)"
    by (simp add: unat_shiftr1)
qed simp

declare mulmod_loop.simps [simp del]

definition Q_mulmod :: "u64 \<Rightarrow> u64 \<Rightarrow> u64 \<Rightarrow> u64" where
  "Q_mulmod a b q = mulmod_loop 0 a b q"

function powmod_loop :: "u64 \<Rightarrow> u64 \<Rightarrow> u64 \<Rightarrow> u64 \<Rightarrow> u64" where
  "powmod_loop rt a b q =
     (if b = 0 then rt
      else let rt = (if b AND 0x1 \<noteq> 0 then Q_mulmod rt a q else rt) in
           powmod_loop rt (Q_mulmod a a q) (drop_bit 1 b) q)"
  by pat_completeness auto

termination
proof (relation "measure (\<lambda>(rt, a, b, q). unat b)")
  fix rt a b q :: u64
  assume "b \<noteq> 0"
  then have "0 < unat b" by (simp add: unat_gt_0)
  then show "\<And>x. ((x, Q_mulmod a a q, drop_bit 1 b, q), rt, a, b, q) \<in> measure (\<lambda>(rt, a, b, q). unat b)"
    by (simp add: unat_shiftr1)
qed simp

declare powmod_loop.simps [simp del]

definition Q_powmod :: "u64 \<Rightarrow> u64 \<Rightarrow> u64 \<Rightarrow> u64" where
  "Q_powmod a b q = powmod_loop 1 (if a > q then a - q else a) (if b > q then b - q else b) q"

section \<open>Key exchange\<close>

definition DH_q :: u64 where "DH_q = 0xffffffffffffffc5"
definition DH_g :: u64 where "DH_g = 5"

record DH_Factor =
  priv_key :: u64
  pub_key :: u64

text \<open>random_u64() is the argument.\<close>

definition dh_generate_factor :: "u64 \<Rightarrow> DH_Factor" where
  "dh_generate_factor random_u64 = \<lparr> priv_key = random_u64, pub_key = Q_powmod DH_g random_u64 DH_q \<rparr>"

definition dh_generate_key :: "u64 \<Rightarrow> u64 \<Rightarrow> u64" where
  "dh_generate_key factor2_pub factor1_priv = Q_powmod factor2_pub factor1_priv DH_q"

section \<open>Correctness\<close>

lemma unat_less_2p64: "unat (x :: u64) < 2 ^ 64"
  using unsigned_less [of x] by simp

lemma unat_add_nowrap64: "unat a + unat b < 2 ^ 64 \<Longrightarrow> unat (a + b) = unat a + unat b" for a b :: u64
  using unat_add_lem [of a b] by simp

lemma odd_and_one: "b AND 0x1 \<noteq> 0 \<longleftrightarrow> odd (unat b)" for b :: u64
proof -
  have "b AND 0x1 = b mod 2" by (simp add: and_one_eq)
  moreover have "unat (b mod 2) = unat b mod 2" by (simp add: unat_mod)
  moreover have "b mod 2 = 0 \<longleftrightarrow> unat (b mod 2) = 0" by (rule unat_eq_0 [symmetric])
  ultimately have "b AND 0x1 \<noteq> 0 \<longleftrightarrow> unat b mod 2 \<noteq> 0" by (simp only:)
  then show ?thesis by (simp add: odd_iff_mod_2_eq_one)
qed

text \<open>One addition modulo \<open>q\<close>, without leaving the 64 bits.\<close>

lemma addmod:
  fixes rt a q :: u64
  assumes "rt < q" "a \<le> q"
  shows "unat (if rt \<ge> q - a then rt - (q - a) else rt + a) = (unat rt + unat a) mod unat q"
    "(if rt \<ge> q - a then rt - (q - a) else rt + a) < q"
proof -
  have l: "unat rt < unat q" "unat a \<le> unat q" using assms by (simp_all add: word_less_nat_alt word_le_nat_alt)
  have d: "unat (q - a) = unat q - unat a" using assms(2) by (rule unat_sub)
  have "unat (if rt \<ge> q - a then rt - (q - a) else rt + a) = (unat rt + unat a) mod unat q"
  proof (cases "rt \<ge> q - a")
    case True
    then have "unat (rt - (q - a)) = unat rt - (unat q - unat a)" by (simp add: unat_sub d)
    moreover have "unat q \<le> unat rt + unat a" using True d l by (simp add: word_le_nat_alt)
    moreover have "(unat rt + unat a) mod unat q = unat rt + unat a - unat q"
      using calculation(2) l by (simp add: mod_if)
    ultimately show ?thesis using True l by simp
  next
    case False
    then have "unat rt + unat a < unat q" using d l by (simp add: word_le_nat_alt)
    moreover from this have "unat (rt + a) = unat rt + unat a"
      using unat_less_2p64 [of q] by (intro unat_add_nowrap64) simp
    ultimately show ?thesis using False by simp
  qed
  moreover from this show "(if rt \<ge> q - a then rt - (q - a) else rt + a) < q"
    unfolding word_less_nat_alt using l by simp
  ultimately show "unat (if rt \<ge> q - a then rt - (q - a) else rt + a) = (unat rt + unat a) mod unat q" by blast
qed

lemma doublemod:
  fixes a q :: u64
  assumes "a \<le> q" "0 < q"
  shows "unat (if a \<ge> q - a then a - (q - a) else a + a) mod unat q = (2 * unat a) mod unat q"
    "(if a \<ge> q - a then a - (q - a) else a + a) \<le> q"
proof -
  have "unat (if a \<ge> q - a then a - (q - a) else a + a) mod unat q = (2 * unat a) mod unat q \<and>
     (if a \<ge> q - a then a - (q - a) else a + a) \<le> q"
  proof (cases "a = q")
    case False
    then have "a < q" using assms(1) by simp
    with addmod [OF this assms(1)] show ?thesis by (simp add: mult_2)
  qed (use assms in simp)
  then show "unat (if a \<ge> q - a then a - (q - a) else a + a) mod unat q = (2 * unat a) mod unat q"
    "(if a \<ge> q - a then a - (q - a) else a + a) \<le> q" by blast+
qed

lemma mulmod_loop_ok:
  "rt < q \<Longrightarrow> a \<le> q \<Longrightarrow> unat (mulmod_loop rt a b q) = (unat rt + unat a * unat b) mod unat q \<and> mulmod_loop rt a b q < q"
proof (induction rt a b q rule: mulmod_loop.induct)
  case (1 rt a b q)
  have q: "0 < q" using 1(2) by (metis word_gt_0 word_not_simps(1))
  show ?case
  proof (cases "b = 0")
    case True
    with 1(2) show ?thesis by (simp add: mulmod_loop.simps word_less_nat_alt)
  next
    case False
    define rt' where "rt' = (if b AND 0x1 \<noteq> 0 then (if rt \<ge> q - a then rt - (q - a) else rt + a) else rt)"
    define a' where "a' = (if a \<ge> q - a then a - (q - a) else a + a)"
    have rec: "mulmod_loop rt a b q = mulmod_loop rt' a' (drop_bit 1 b) q"
      using False by (subst mulmod_loop.simps) (simp add: Let_def rt'_def a'_def)
    have r: "rt' < q" "unat rt' mod unat q = (unat rt + (if odd (unat b) then unat a else 0)) mod unat q"
      using addmod [OF 1(2,3)] 1(2) by (auto simp: rt'_def odd_and_one word_less_nat_alt simp del: One_nat_def)
    have a: "a' \<le> q" "unat a' mod unat q = (2 * unat a) mod unat q"
      using doublemod [OF 1(3) q] unfolding a'_def by blast+
    have "unat (mulmod_loop rt' a' (drop_bit 1 b) q) = (unat rt' + unat a' * unat (drop_bit 1 b)) mod unat q \<and>
        mulmod_loop rt' a' (drop_bit 1 b) q < q"
      using 1(1) [OF False refl rt'_def a'_def r(1) a(1)] by simp
    moreover have "(unat rt' + unat a' * unat (drop_bit 1 b)) mod unat q =
        (unat rt + (if odd (unat b) then unat a else 0) + 2 * unat a * (unat b div 2)) mod unat q"
    proof -
      have "unat a' * (unat b div 2) mod unat q = 2 * unat a * (unat b div 2) mod unat q"
        by (rule mod_mult_cong [OF a(2) refl])
      from mod_add_cong [OF r(2) this] show ?thesis by (simp add: unat_shiftr1)
    qed
    moreover have "(if odd (unat b) then unat a else 0) + 2 * unat a * (unat b div 2) = unat a * unat b"
      by (cases "odd (unat b)") (auto elim!: oddE evenE simp: algebra_simps)
    ultimately show ?thesis unfolding rec by (simp add: add.assoc)
  qed
qed

lemma Q_mulmod_ok: "a \<le> q \<Longrightarrow> 0 < q \<Longrightarrow> unat (Q_mulmod a b q) = (unat a * unat b) mod unat q \<and> Q_mulmod a b q < q"
  using mulmod_loop_ok [of 0 q a b] by (simp add: Q_mulmod_def)

lemma powmod_loop_ok:
  "rt < q \<Longrightarrow> a \<le> q \<Longrightarrow> unat (powmod_loop rt a b q) = (unat rt * unat a ^ unat b) mod unat q \<and> powmod_loop rt a b q < q"
proof (induction rt a b q rule: powmod_loop.induct)
  case (1 rt a b q)
  have q: "0 < q" using 1(2) by (metis word_gt_0 word_not_simps(1))
  show ?case
  proof (cases "b = 0")
    case True
    with 1(2) show ?thesis by (simp add: powmod_loop.simps word_less_nat_alt)
  next
    case False
    define rt' where "rt' = (if b AND 0x1 \<noteq> 0 then Q_mulmod rt a q else rt)"
    have rec: "powmod_loop rt a b q = powmod_loop rt' (Q_mulmod a a q) (drop_bit 1 b) q"
      using False by (subst powmod_loop.simps) (simp add: Let_def rt'_def)
    have "rt \<le> q" using 1(2) by simp
    note m = Q_mulmod_ok [OF this q, of a]
    have r: "rt' < q" "unat rt' mod unat q = (unat rt * unat a ^ (unat b mod 2)) mod unat q"
      using m 1(2) by (auto simp: rt'_def odd_and_one odd_iff_mod_2_eq_one even_iff_mod_2_eq_zero simp del: One_nat_def)
    note s = Q_mulmod_ok [OF 1(3) q, of a]
    have "unat (powmod_loop rt' (Q_mulmod a a q) (drop_bit 1 b) q) =
        unat rt' * unat (Q_mulmod a a q) ^ unat (drop_bit 1 b) mod unat q \<and> powmod_loop rt' (Q_mulmod a a q) (drop_bit 1 b) q < q"
      using 1(1) [OF False rt'_def r(1)] s by (simp add: order_less_imp_le)
    moreover have "unat (Q_mulmod a a q) ^ (unat b div 2) mod unat q = unat a ^ (2 * (unat b div 2)) mod unat q"
      using s by (simp add: power_mod power_mult power2_eq_square)
    from mod_mult_cong [OF r(2) this]
    have "unat rt' * unat (Q_mulmod a a q) ^ unat (drop_bit 1 b) mod unat q =
        unat rt * unat a ^ (unat b mod 2) * unat a ^ (2 * (unat b div 2)) mod unat q" by (simp add: unat_shiftr1)
    moreover have "unat a ^ (unat b mod 2) * unat a ^ (2 * (unat b div 2)) = unat a ^ unat b"
      by (simp flip: power_add)
    ultimately show ?thesis unfolding rec by (simp add: mult.assoc)
  qed
qed

lemma Q_powmod_ok:
  assumes "1 < q" "(if a > q then a - q else a) \<le> q"
  shows "unat (Q_powmod a b q) = unat (if a > q then a - q else a) ^ unat (if b > q then b - q else b) mod unat q"
    "Q_powmod a b q < q"
  using powmod_loop_ok [OF assms, of "if b > q then b - q else b"] by (simp_all add: Q_powmod_def)

section \<open>The exchange\<close>

lemma dh_keys_same:
  "dh_generate_key (pub_key (dh_generate_factor x)) y = dh_generate_key (pub_key (dh_generate_factor y)) x"
proof -
  let ?e = "\<lambda>b :: u64. unat (if b > DH_q then b - DH_q else b)"
  have q: "1 < DH_q" "\<not> DH_g > DH_q" "DH_g \<le> DH_q" by (simp_all add: DH_q_def DH_g_def)
  have pub: "unat (pub_key (dh_generate_factor b)) = unat DH_g ^ ?e b mod unat DH_q" "pub_key (dh_generate_factor b) < DH_q" for b
    using Q_powmod_ok [OF q(1), of DH_g b] q by (simp_all add: dh_generate_factor_def)
  have "unat (dh_generate_key (pub_key (dh_generate_factor a)) b) = unat DH_g ^ (?e a * ?e b) mod unat DH_q" for a b
  proof -
    let ?p = "pub_key (dh_generate_factor a)"
    have "(if ?p > DH_q then ?p - DH_q else ?p) = ?p" using pub(2) [of a] by (simp add: leD order_less_imp_le)
    then have "unat (Q_powmod ?p b DH_q) = unat ?p ^ ?e b mod unat DH_q"
      using Q_powmod_ok(1) [OF q(1), of ?p b] pub(2) [of a] by (simp only: order_less_imp_le)
    then show ?thesis unfolding dh_generate_key_def pub(1) by (simp only: power_mod power_mult)
  qed
  then have "unat (dh_generate_key (pub_key (dh_generate_factor x)) y) = unat (dh_generate_key (pub_key (dh_generate_factor y)) x)"
    by (simp add: mult.commute)
  then show ?thesis by (rule unsigned_word_eqI)
qed

text \<open>The generator is not divisible by the modulus, so no public key is 0.\<close>

lemma dh_pub_key_nonzero: "pub_key (dh_generate_factor x) \<noteq> 0"
proof
  assume z: "pub_key (dh_generate_factor x) = 0"
  let ?e = "unat (if x > DH_q then x - DH_q else x)"
  have q: "1 < DH_q" "(if DH_g > DH_q then DH_g - DH_q else DH_g) = DH_g" "DH_g \<le> DH_q" "unat DH_q \<noteq> 1"
    by (simp_all add: DH_q_def DH_g_def)
  have "unat DH_g ^ ?e mod unat DH_q = 0"
    using Q_powmod_ok(1) [OF q(1), of DH_g x] q(2,3) z by (simp add: dh_generate_factor_def)
  then have "unat DH_q dvd unat DH_g ^ ?e" by (simp add: dvd_eq_mod_eq_0)
  moreover have "coprime (unat DH_q) (unat DH_g)"
    by (simp add: DH_q_def DH_g_def coprime_iff_gcd_eq_1 gcd_non_0_nat)
  then have "coprime (unat DH_q) (unat DH_g ^ ?e)" by simp
  ultimately have "is_unit (unat DH_q)" by (meson coprime_common_divisor dvd_refl)
  with q(4) show False by simp
qed

section \<open>Properties\<close>

text \<open>
  C36: Exponentiation by squaring with modular doubling computes the power modulo \<open>q\<close>: for every modulus above 1 and a base and
  exponent up to the modulus the loops end, no intermediate value leaves the 64 bits, and the result is that of
  the arithmetic of natural numbers.
\<close>

theorem Q_powmod_is_power:
  assumes "1 < q" "a \<le> q" "b \<le> q"
  shows "unat (Q_powmod a b q) = unat a ^ unat b mod unat q"
  using Q_powmod_ok [of q a b] assms by (simp add: leD)

theorem Q_powmod_is_power_witness: "unat (Q_powmod 3 5 7) = 3 ^ 5 mod 7"
  using Q_powmod_is_power [of 7 3 5] by simp

text \<open>
  Both sides of the key exchange compute the same key, for all 64-bit private keys they draw, and no public key is 0 (the value that
  the handshake takes for "not generated yet").
\<close>

theorem dh_keys_agree:
  "dh_generate_key (pub_key (dh_generate_factor x)) y = dh_generate_key (pub_key (dh_generate_factor y)) x \<and>
   pub_key (dh_generate_factor x) \<noteq> 0"
  by (simp add: dh_keys_same dh_pub_key_nonzero)

text \<open>
  An exponent above the modulus is reduced by \<open>q\<close> and not by the order \<open>q - 1\<close> of the group, so the result is a
  different power.
\<close>

lemma Q_powmod_large_exponent: "unat (Q_powmod 3 8 7) = 3 \<and> (3 :: nat) ^ 8 mod 7 = 2"
  using Q_powmod_ok(1) [of 7 3 8] by simp

end
