(* ===== verification/Obfuscate.thy ===== *)
theory Obfuscate
  imports Wawo_Prelude
begin

text \<open>
  include/wawo/security/obfuscate.hpp: the bits of an 8- or 16-bit integer are scattered over the four bytes of a
  32-bit word. Each byte holds a quarter of the bits in its lower five positions, starting at a random
  position that its upper three bits record.
\<close>

section \<open>The loops\<close>

text \<open>
  pbcbc, the bits per byte of the result; the type parameter is the type \<open>UINT_X\<close> of the template. The
  elements of the arrays b and bii are below 5; the loops only read the previous element.
\<close>

definition pbcbc :: "('a::len) itself \<Rightarrow> nat" where
  "pbcbc _ = LENGTH('a) div 4"

definition start_of :: "u32 \<Rightarrow> nat \<Rightarrow> nat" where
  "start_of r k = unat (drop_bit (5 + k * 8) r AND 0x7) mod 5"

definition obfuscate_step :: "('a::len) word \<Rightarrow> u32 \<Rightarrow> nat \<Rightarrow> nat \<times> nat \<times> u32 \<Rightarrow> nat \<times> nat \<times> u32" where
  "obfuscate_step val r_u32 i = (\<lambda>(b, bii, rr).
     let pb = pbcbc TYPE('a);
         (b, bii) = (if i mod pb = 0 then (start_of r_u32 (i div pb), start_of r_u32 (i div pb))
                     else ((b + 1) mod 5, bii));
         bi = (if val AND push_bit i 0x1 \<noteq> 0 then push_bit b 0x1 else 0 :: byte);
         bi = bi OR push_bit 5 (0x7 AND of_nat bii) in
     (b, bii, rr OR push_bit ((i div pb) * 8) (0xFFFFFFFF AND ucast bi)))"

definition obfuscate :: "('a::len) word \<Rightarrow> u32 \<Rightarrow> u32" where
  "obfuscate val r_u32 = snd (snd (fold (obfuscate_step val r_u32) [0..<LENGTH('a)] (0, 0, 0)))"

definition deobfuscate_step :: "u32 \<Rightarrow> nat \<Rightarrow> nat \<times> ('a::len) word \<Rightarrow> nat \<times> 'a word" where
  "deobfuscate_step val i = (\<lambda>(b, r).
     let pb = pbcbc TYPE('a);
         b = (if i mod pb = 0 then start_of val (i div pb) else (b + 1) mod 5) in
     (b, r OR push_bit i (ucast (drop_bit (b + (i div pb) * 8) val AND 0x1))))"

definition deobfuscate :: "u32 \<Rightarrow> ('a::len) word" where
  "deobfuscate val = snd (fold (deobfuscate_step val) [0..<LENGTH('a)] (0, 0))"

definition u8_obfuscate :: "byte \<Rightarrow> u32 \<Rightarrow> u32" where "u8_obfuscate val r_u32 = obfuscate val r_u32"
definition u16_obfuscate :: "u16 \<Rightarrow> u32 \<Rightarrow> u32" where "u16_obfuscate val r_u32 = obfuscate val r_u32"
definition u8_deobfuscate :: "u32 \<Rightarrow> byte" where "u8_deobfuscate val = deobfuscate val"
definition u16_deobfuscate :: "u32 \<Rightarrow> u16" where "u16_deobfuscate val = deobfuscate val"

section \<open>Where the bits go\<close>

text \<open>The position of bit \<open>i\<close> inside its byte.\<close>

definition place :: "nat \<Rightarrow> u32 \<Rightarrow> nat \<Rightarrow> nat" where
  "place pb r i = (start_of r (i div pb) + i mod pb) mod 5"

lemma start_of_less [simp]: "start_of r k < 5"
  by (simp add: start_of_def)

lemma place_less [simp]: "place pb r i < 5"
  by (simp add: place_def)

lemma place_first: "i mod pb = 0 \<Longrightarrow> place pb r i = start_of r (i div pb)"
  by (simp add: place_def)

lemma place_next: "i mod pb \<noteq> 0 \<Longrightarrow> (place pb r (i - 1) + 1) mod 5 = place pb r i \<and> (i - 1) div pb = i div pb"
proof -
  assume a: "i mod pb \<noteq> 0"
  have d: "(i - 1) div pb = i div pb" "(i - 1) mod pb = i mod pb - 1"
    using a by (metis Suc_pred' div_Suc gr0I mod_0 mod_Suc, metis Suc_pred' diff_Suc_1 gr0I mod_0 mod_Suc)
  have "i mod pb = Suc (i mod pb - 1)" using a by simp
  then have "(place pb r (i - 1) + 1) mod 5 = place pb r i" unfolding place_def d by (simp add: mod_simps)
  with d show ?thesis by simp
qed

text \<open>What turn \<open>i\<close> of the loop adds to the result.\<close>

definition part :: "('a::len) word \<Rightarrow> u32 \<Rightarrow> nat \<Rightarrow> u32" where
  "part val r i = push_bit ((i div pbcbc TYPE('a)) * 8)
     (ucast ((if bit val i then push_bit (place (pbcbc TYPE('a)) r i) 1 else 0) OR
             push_bit 5 (of_nat (start_of r (i div pbcbc TYPE('a)))) :: byte))"

lemma and_full [simp]: "0xFFFFFFFF AND (x :: u32) = x"
proof -
  have "(0xFFFFFFFF :: u32) = - 1" by simp
  then show ?thesis by (simp only: and.left_neutral)
qed

lemma and_seven: "s < 5 \<Longrightarrow> 0x7 AND (of_nat s :: byte) = of_nat s"
proof -
  assume "s < 5"
  then have "s = 0 \<or> s = 1 \<or> s = 2 \<or> s = 3 \<or> s = 4" by auto
  then show ?thesis by auto
qed

lemma test_bit_mask: "val AND push_bit i 0x1 \<noteq> 0 \<longleftrightarrow> bit val i" for val :: "'a::len word"
proof -
  have "bit (val AND push_bit i 1) n \<longleftrightarrow> bit val i \<and> n = i" for n
    by (auto simp: bit_and_iff bit_exp_iff dest: bit_imp_le_length)
  then show ?thesis by (metis bit_0_eq bit_eqI bot_apply bot_bool_def)
qed

lemma obfuscate_step_part:
  fixes val :: "'a::len word"
  assumes "(if n mod pbcbc TYPE('a) = 0 then (start_of r (n div pbcbc TYPE('a)), start_of r (n div pbcbc TYPE('a)))
      else ((b + 1) mod 5, bii)) = (place (pbcbc TYPE('a)) r n, start_of r (n div pbcbc TYPE('a)))"
  shows "obfuscate_step val r n (b, bii, rr) =
    (place (pbcbc TYPE('a)) r n, start_of r (n div pbcbc TYPE('a)), rr OR part val r n)"
  unfolding obfuscate_step_def part_def Let_def prod.case assms test_bit_mask and_seven [OF start_of_less] and_full ..

lemma place_turn:
  assumes "n \<noteq> 0 \<longrightarrow> b = place pb r (n - 1) \<and> bii = start_of r ((n - 1) div pb)"
  shows "(if n mod pb = 0 then (start_of r (n div pb), start_of r (n div pb)) else ((b + 1) mod 5, bii)) =
    (place pb r n, start_of r (n div pb))"
proof (cases "n mod pb = 0")
  case False
  then have "n \<noteq> 0" by (metis mod_0)
  with assms False place_next [OF False, of r] show ?thesis by simp
qed (simp add: place_first)

text \<open>The variables after \<open>n\<close> turns.\<close>

lemma obfuscate_turns:
  fixes val :: "'a::len word"
  shows "\<exists>b bii. fold (obfuscate_step val r) [0..<n] (0, 0, 0) = (b, bii, fold (\<lambda>i x. x OR part val r i) [0..<n] 0) \<and>
    (n \<noteq> 0 \<longrightarrow> b = place (pbcbc TYPE('a)) r (n - 1) \<and> bii = start_of r ((n - 1) div pbcbc TYPE('a)))"
proof (induction n)
  case (Suc n)
  then obtain b bii where i: "fold (obfuscate_step val r) [0..<n] (0, 0, 0) = (b, bii, fold (\<lambda>i x. x OR part val r i) [0..<n] 0)"
    "n \<noteq> 0 \<longrightarrow> b = place (pbcbc TYPE('a)) r (n - 1) \<and> bii = start_of r ((n - 1) div pbcbc TYPE('a))" by blast
  show ?case using i(1) obfuscate_step_part [OF place_turn [OF i(2)], of val] by simp
qed simp

lemma bit_or_fold: "bit (fold (\<lambda>i x. x OR f i) is a) m \<longleftrightarrow> bit a m \<or> (\<exists>i \<in> set is. bit (f i :: u32) m)"
  by (induction "is" arbitrary: a) (auto simp: bit_or_iff)

lemma bit_part:
  "bit (part (val :: 'a::len word) r i) m \<longleftrightarrow> m < 32 \<and>
     (let k = (i div pbcbc TYPE('a)) * 8 in k \<le> m \<and> m - k < 8 \<and>
        (bit val i \<and> m - k = place (pbcbc TYPE('a)) r i \<or> 5 \<le> m - k \<and> bit (start_of r (i div pbcbc TYPE('a))) (m - k - 5)))"
  by (auto simp: part_def bit_push_bit_iff bit_ucast_iff bit_or_iff bit_of_nat_iff bit_exp_iff Let_def)

text \<open>The integer types the code uses have four bits or eight for each byte of the result.\<close>

definition quarters :: "('a::len) itself \<Rightarrow> bool" where
  "quarters _ \<longleftrightarrow> LENGTH('a) = 4 * pbcbc TYPE('a) \<and> 0 < pbcbc TYPE('a) \<and> pbcbc TYPE('a) \<le> 5"

lemma bit_obfuscate:
  "bit (obfuscate (val :: 'a::len word) r) m \<longleftrightarrow> (\<exists>i < LENGTH('a). bit (part val r i) m)"
proof -
  obtain b bii where "fold (obfuscate_step val r) [0..<LENGTH('a)] (0, 0, 0) = (b, bii, fold (\<lambda>i x. x OR part val r i) [0..<LENGTH('a)] 0)"
    using obfuscate_turns [of val r "LENGTH('a)"] by blast
  then show ?thesis by (auto simp: obfuscate_def bit_or_fold)
qed

lemma same_byte:
  fixes k l m j :: nat
  assumes "k * 8 \<le> m" "m - k * 8 < 8" "m = j + l * 8" "j < 8"
  shows "k = l" "m - k * 8 = j"
proof -
  show "k = l" using assms by linarith
  then show "m - k * 8 = j" using assms(3) by simp
qed

lemma same_place:
  fixes s a b :: nat
  assumes "(s + a) mod 5 = (s + b) mod 5" "a < 5" "b < 5"
  shows "a = b"
proof (rule ccontr)
  assume "a \<noteq> b"
  then obtain x y where xy: "x < y" "y < 5" "(s + x) mod 5 = (s + y) mod 5" using assms by (metis linorder_neqE_nat)
  then have "5 dvd (s + y) - (s + x)" by (intro mod_eq_dvd_iff_nat [THEN iffD1]) simp_all
  then have "5 dvd y - x" by simp
  with xy(1,2) show False by (auto dest!: dvd_imp_le)
qed

lemma bit_seven: "bit (0x7 :: u32) j \<longleftrightarrow> j < 3"
proof -
  have e: "(0x7 :: u32) = mask 3" by (simp add: mask_eq_exp_minus_1)
  show ?thesis unfolding e bit_mask_iff by auto
qed

lemma obfuscate_data_bit:
  fixes val :: "'a::len word"
  assumes "quarters TYPE('a)" "i < LENGTH('a)"
  shows "bit (obfuscate val r) (place (pbcbc TYPE('a)) r i + (i div pbcbc TYPE('a)) * 8) \<longleftrightarrow> bit val i"
proof -
  let ?pb = "pbcbc TYPE('a)"
  let ?m = "place ?pb r i + (i div ?pb) * 8"
  have pb: "0 < ?pb" "?pb \<le> 5" "i div ?pb < 4"
    using assms by (auto simp: quarters_def less_mult_imp_div_less)
  have p: "place ?pb r i < 8" "place ?pb r i < 5" using place_less [of ?pb r i] by linarith+
  have "bit val i" if "i' < LENGTH('a)" "bit (part val r i') ?m" for i'
  proof -
    have b: "(i' div ?pb) * 8 \<le> ?m" "?m - (i' div ?pb) * 8 < 8"
      "bit val i' \<and> ?m - (i' div ?pb) * 8 = place ?pb r i' \<or> 5 \<le> ?m - (i' div ?pb) * 8"
      using that(2) by (auto simp: bit_part Let_def)
    have d: "i' div ?pb = i div ?pb" "?m - (i' div ?pb) * 8 = place ?pb r i"
      using same_byte [OF b(1,2) refl p(1)] .
    then have v: "bit val i'" "place ?pb r i' = place ?pb r i" using b(3) p(2) by auto
    have l: "i' mod ?pb < 5" "i mod ?pb < 5" using pb(1,2) by (meson mod_less_divisor order_less_le_trans)+
    have "(start_of r (i div ?pb) + i' mod ?pb) mod 5 = (start_of r (i div ?pb) + i mod ?pb) mod 5"
      using v(2) d(1) by (simp add: place_def)
    then have "i' mod ?pb = i mod ?pb" using l by (rule same_place)
    with d(1) have "i' = i" by (metis div_mult_mod_eq)
    with v(1) show ?thesis by simp
  qed
  moreover have "?m < 32" using p(1) pb(3) by linarith
  then have "bit (part val r i) ?m" if "bit val i" using that p(1) by (simp add: bit_part Let_def)
  ultimately show ?thesis using assms(2) unfolding bit_obfuscate by blast
qed

lemma obfuscate_start:
  fixes val :: "'a::len word"
  assumes "quarters TYPE('a)" "k < 4"
  shows "start_of (obfuscate val r) k = start_of r k"
proof -
  let ?pb = "pbcbc TYPE('a)"
  have pb: "0 < ?pb" "k * ?pb < LENGTH('a)" "(k * ?pb) div ?pb = k" using assms by (auto simp: quarters_def)
  have *: "bit (obfuscate val r) (5 + k * 8 + j) \<longleftrightarrow> bit (start_of r k) j" if "j < 3" for j
  proof -
    have "bit (start_of r k) j" if "i < LENGTH('a)" "bit (part val r i) (5 + k * 8 + j)" for i
    proof -
      have b: "(i div ?pb) * 8 \<le> 5 + k * 8 + j" "5 + k * 8 + j - (i div ?pb) * 8 < 8"
        "5 + k * 8 + j - (i div ?pb) * 8 = place ?pb r i \<or> bit (start_of r (i div ?pb)) (5 + k * 8 + j - (i div ?pb) * 8 - 5)"
        using that(2) by (auto simp: bit_part Let_def)
      have "i div ?pb = k" "5 + k * 8 + j - (i div ?pb) * 8 = 5 + j"
        using same_byte [OF b(1,2), of "5 + j" k] \<open>j < 3\<close> by auto
      with b(3) place_less [of ?pb r i] show ?thesis by auto
    qed
    moreover have "bit (part val r (k * ?pb)) (5 + k * 8 + j)" if "bit (start_of r k) j"
      using that pb \<open>j < 3\<close> assms(2) by (simp add: bit_part Let_def)
    ultimately show ?thesis using pb(2) unfolding bit_obfuscate by blast
  qed
  have "drop_bit (5 + k * 8) (obfuscate val r) AND 0x7 = (of_nat (start_of r k) :: u32)"
  proof (rule bit_word_eqI)
    fix j assume "j < LENGTH(32)"
    have "j < 3" if "bit (start_of r k) j"
    proof (rule ccontr)
      assume "\<not> j < 3"
      then have "start_of r k < 2 ^ j"
        using start_of_less [of r k] power_increasing [of 3 j "2 :: nat"] by (simp del: start_of_less)
      with that show False by (simp add: bit_iff_odd)
    qed
    then show "bit (drop_bit (5 + k * 8) (obfuscate val r) AND 0x7) j = bit (of_nat (start_of r k) :: u32) j"
      using * \<open>j < LENGTH(32)\<close> unfolding bit_and_iff bit_seven by (auto simp: bit_drop_bit_eq bit_of_nat_iff)
  qed
  moreover have "unat (of_nat (start_of r k) :: u32) = start_of r k"
    by (rule unat_of_nat_nowrap) (rule less_trans [OF start_of_less], simp)
  ultimately show ?thesis unfolding start_of_def [of "obfuscate val r"] by simp
qed

section \<open>Round trip\<close>

lemma deobfuscate_turns:
  fixes val :: "'a::len word"
  assumes "quarters TYPE('a)" "n \<le> LENGTH('a)"
  shows "\<exists>b x. fold (deobfuscate_step (obfuscate val r)) [0..<n] (0, 0 :: 'a word) = (b, x) \<and>
    (n \<noteq> 0 \<longrightarrow> b = place (pbcbc TYPE('a)) r (n - 1)) \<and> (\<forall>m. bit x m \<longleftrightarrow> m < n \<and> bit val m)"
  using assms(2)
proof (induction n)
  case (Suc n)
  let ?pb = "pbcbc TYPE('a)"
  from Suc obtain b and x :: "'a word" where i: "fold (deobfuscate_step (obfuscate val r)) [0..<n] (0, 0) = (b, x)"
    "n \<noteq> 0 \<longrightarrow> b = place ?pb r (n - 1)" "\<And>m. bit x m \<longleftrightarrow> m < n \<and> bit val m" by auto
  have k: "n div ?pb < 4" using assms(1) Suc.prems by (auto simp: quarters_def less_mult_imp_div_less)
  have b: "(if n mod ?pb = 0 then start_of (obfuscate val r) (n div ?pb) else (b + 1) mod 5) = place ?pb r n"
    using place_turn [of n b ?pb r "start_of r ((n - 1) div ?pb)"] i(2) obfuscate_start [OF assms(1) k, of val r] by (auto split: if_splits)
  let ?y = "push_bit n (ucast (drop_bit (place ?pb r n + (n div ?pb) * 8) (obfuscate val r) AND 0x1)) :: 'a word"
  have "bit ?y m \<longleftrightarrow> m = n \<and> bit (obfuscate val r) (place ?pb r n + (n div ?pb) * 8)" for m
    using Suc.prems by (cases "m = n") (simp_all add: bit_push_bit_iff bit_ucast_iff bit_and_iff bit_drop_bit_eq bit_1_iff)
  then have "bit ?y m \<longleftrightarrow> m = n \<and> bit val m" for m
    using obfuscate_data_bit [OF assms(1), of n val r] Suc.prems by auto
  then have "bit (x OR ?y) m \<longleftrightarrow> m < Suc n \<and> bit val m" for m unfolding bit_or_iff i(3) less_Suc_eq by blast
  moreover have "fold (deobfuscate_step (obfuscate val r)) [0..<Suc n] (0, 0 :: 'a word) = (place ?pb r n, x OR ?y)"
    using i(1) b by (simp add: deobfuscate_step_def Let_def)
  ultimately show ?case by (metis diff_Suc_1)
qed simp

lemma obfuscate_inverse:
  fixes val :: "'a::len word"
  assumes "quarters TYPE('a)"
  shows "deobfuscate (obfuscate val r) = val"
proof -
  from deobfuscate_turns [OF assms le_refl, of val r] obtain b and x :: "'a word" where
    x: "fold (deobfuscate_step (obfuscate val r)) [0..<LENGTH('a)] (0, 0 :: 'a word) = (b, x)"
    "\<And>m. bit x m \<longleftrightarrow> m < LENGTH('a) \<and> bit val m" by blast
  have "x = val" by (rule bit_word_eqI) (simp add: x(2))
  then show ?thesis by (simp add: deobfuscate_def x(1))
qed

lemma quarters_types: "quarters TYPE(8)" "quarters TYPE(16)"
  by (simp_all add: quarters_def pbcbc_def)

text \<open>
  Whatever random word is mixed in, de-obfuscation gives back the 8- or 16-bit integer.
\<close>

theorem obfuscate_roundtrip:
  "u8_deobfuscate (u8_obfuscate a r) = a \<and> u16_deobfuscate (u16_obfuscate b r) = b"
  by (simp add: u8_deobfuscate_def u8_obfuscate_def u16_deobfuscate_def u16_obfuscate_def obfuscate_inverse quarters_types)

end
