(* ===== verification/Tlp_Stream.thy ===== *)
theory Tlp_Stream
  imports Hlen_Packet
begin

text \<open>
  include/wawo/net/tlp/stream.hpp: the transport layer protocol without packet boundaries. encode copies the packet, decode hands
  on the buffered bytes in pieces of at most WAWO_STREAM_PIECE_MAX bytes.
\<close>

definition WAWO_STREAM_PIECE_MAX :: u32 where "WAWO_STREAM_PIECE_MAX = 1024 * 128"

definition stream_encode :: "packet \<Rightarrow> (int \<times> packet) option" where
  "stream_encode inp = do { o' \<leftarrow> packet_copy inp; Some (OK, o') }"

lemma next_index:
  assumes "idx < (n :: u32)" shows "unat idx < unat n" "unat (idx + 1) = unat idx + 1" "unat n - unat (idx + 1) < unat n - unat idx"
proof -
  show lt: "unat idx < unat n" using assms by (simp add: word_less_unat)
  then have "unat idx + unat (1 :: u32) < 2 ^ 32" using unat_less_2p [of n] by (simp del: unat_less_2p)
  then show e: "unat (idx + 1) = unat idx + 1" using unat_add_nowrap [of idx 1] by simp
  then show "unat n - unat (idx + 1) < unat n - unat idx" using lt by simp
qed

text \<open>The do loop; \<open>cbc\<close> is the number of bytes before the loop.\<close>

function stream_loop :: "(nat \<Rightarrow> byte) \<Rightarrow> u32 \<Rightarrow> u32 \<Rightarrow> u32 \<Rightarrow> packet list \<Rightarrow> bytes_ringbuffer \<Rightarrow> (packet list \<times> bytes_ringbuffer) option" where
  "stream_loop junk asize cbc idx arrives buffer =
     do { let ps = (if cbc > WAWO_STREAM_PIECE_MAX then WAWO_STREAM_PIECE_MAX else cbc);
          pack \<leftarrow> packet_new junk ps PACK_INIT_LEFT_CAPACITY;
          (brc, d, buffer) \<leftarrow> rb_read buffer ps True;
          mem \<leftarrow> mem_write (pk_m_buffer pack) (unat (pk_m_read_idx pack)) d;
          wawo_assert (brc \<le> ps);
          pack \<leftarrow> pk_forward_write_index (pack\<lparr> pk_m_buffer := mem \<rparr>) brc;
          wawo_assert (idx < asize);
          if rb_count buffer > 0 \<and> idx + 1 < asize
          then stream_loop junk asize cbc (idx + 1) (arrives @ [pack]) buffer
          else Some (arrives @ [pack], buffer) }"
  by pat_completeness auto

termination
  by (relation "measure (\<lambda>(junk, asize, cbc, idx, arrives, buffer). unat asize - unat idx)") (auto intro: next_index(3))

declare stream_loop.simps [simp del]

definition stream_decode_packets ::
    "(nat \<Rightarrow> byte) \<Rightarrow> bytes_ringbuffer \<Rightarrow> u32 \<Rightarrow> (packet list \<times> int \<times> bytes_ringbuffer) option" where
  "stream_decode_packets junk buffer asize =
     (if rb_count buffer = 0 then Some ([], OK, buffer)
      else do {
        (arrives, buffer) \<leftarrow> stream_loop junk asize (rb_count buffer) 0 [] buffer;
        Some (arrives, if rb_count buffer > 0 then E_TLP_TRY_AGAIN else OK, buffer) })"

section \<open>Pieces\<close>

lemma stream_piece:
  assumes "rb_inv rb" "ps \<le> WAWO_STREAM_PIECE_MAX"
  shows "\<exists>pack brc d rb' mem pack'. packet_new junk ps PACK_INIT_LEFT_CAPACITY = Some pack \<and> rb_read rb ps True = Some (brc, d, rb') \<and>
    mem_write (pk_m_buffer pack) (unat (pk_m_read_idx pack)) d = Some mem \<and> brc \<le> ps \<and>
    pk_forward_write_index (pack\<lparr> pk_m_buffer := mem \<rparr>) brc = Some pack' \<and> pk_inv pack' \<and>
    pk_bytes pack' = take (unat ps) (rb_list rb) \<and> rb_inv rb' \<and> rb_list rb' = drop (unat ps) (rb_list rb)"
proof -
  obtain rb' c where r: "rb_read rb ps True = Some (c, take (unat ps) (rb_list rb), rb')"
    "unat c = min (unat ps) (length (rb_list rb))" "rb_inv rb'"
    "rb_list rb' = (if True then drop (unat ps) (rb_list rb) else rb_list rb)" by (rule rb_read_ok [OF assms(1), of ps True])
  have c: "c \<le> ps" "length (take (unat ps) (rb_list rb)) = unat c" using r(2) by (simp_all add: word_le_unat)
  have "ps \<le> PACK_MAX_RIGHT_CAPACITY" using assms(2) by (simp add: WAWO_STREAM_PIECE_MAX_def PACK_defs word_le_unat)
  from packet_filled [OF this c(2,1), of junk] r c show ?thesis by auto
qed

text \<open>What is stored and what stays in the buffer.\<close>

definition pieces_ok :: "bytes \<Rightarrow> packet list \<Rightarrow> bytes_ringbuffer \<Rightarrow> bool" where
  "pieces_ok bs ps rb \<longleftrightarrow> concat (map pk_bytes ps) @ rb_list rb = bs \<and> list_all pk_inv ps \<and> rb_inv rb \<and>
     list_all (\<lambda>p. pk_bytes p \<noteq> [] \<and> length (pk_bytes p) \<le> 131072) ps"

lemma stream_loop_ok:
  assumes "rb_inv rb" "idx < n" "0 < cbc" "rb_list rb \<noteq> []" "length (rb_list rb) \<le> unat cbc"
  shows "\<exists>ps rb'. stream_loop junk n cbc idx arr rb = Some (arr @ ps, rb') \<and> pieces_ok (rb_list rb) ps rb' \<and>
    (rb_list rb' = [] \<or> length ps = unat n - unat idx)"
  using assms
proof (induction junk n cbc idx arr rb rule: stream_loop.induct)
  case (1 junk n cbc idx arr rb)
  let ?ps = "if cbc > WAWO_STREAM_PIECE_MAX then WAWO_STREAM_PIECE_MAX else cbc"
  have le: "?ps \<le> WAWO_STREAM_PIECE_MAX" by auto
  have ps: "0 < unat ?ps" "unat ?ps \<le> 131072" using 1(4) le
    by (auto simp: WAWO_STREAM_PIECE_MAX_def word_less_unat word_le_unat)
  obtain pack brc d rb1 mem pack' where p: "packet_new junk ?ps PACK_INIT_LEFT_CAPACITY = Some pack"
    "rb_read rb ?ps True = Some (brc, d, rb1)" "mem_write (pk_m_buffer pack) (unat (pk_m_read_idx pack)) d = Some mem" "brc \<le> ?ps"
    "pk_forward_write_index (pack\<lparr> pk_m_buffer := mem \<rparr>) brc = Some pack'" "pk_inv pack'"
    "pk_bytes pack' = take (unat ?ps) (rb_list rb)" "rb_inv rb1" "rb_list rb1 = drop (unat ?ps) (rb_list rb)"
    using stream_piece [OF 1(2) le, of junk] by blast
  note i = next_index [OF 1(3)]
  have cnt: "rb_count rb1 > 0 \<longleftrightarrow> rb_list rb1 \<noteq> []"
    using rb_count_list [OF p(8)] by (metis length_0_conv unat_gt_0 word_neq_0_conv neq0_conv)
  have step: "stream_loop junk n cbc idx arr rb =
      (if rb_list rb1 \<noteq> [] \<and> idx + 1 < n then stream_loop junk n cbc (idx + 1) (arr @ [pack']) rb1 else Some (arr @ [pack'], rb1))"
    using p(1-5) 1(3) cnt by (subst stream_loop.simps) (simp only: Let_def Option.bind.simps prod.case assert_bind if_True)
  have one: "pk_bytes pack' \<noteq> []" "length (pk_bytes pack') \<le> 131072" using p(7) ps 1(5) by auto
  have sp: "pk_bytes pack' @ rb_list rb1 = rb_list rb" using p(7,9) by simp
  show ?case
  proof (cases "rb_list rb1 \<noteq> [] \<and> idx + 1 < n")
    case True
    then have "rb_count rb1 > 0 \<and> idx + 1 < n" using cnt by simp
    note IH = 1(1) [OF refl p(1,2) refl refl p(3) _ p(5) _ this]
    have "length (rb_list rb1) \<le> unat cbc" using 1(6) p(9) by simp
    then obtain qs rb' where q: "stream_loop junk n cbc (idx + 1) (arr @ [pack']) rb1 = Some ((arr @ [pack']) @ qs, rb')"
      "pieces_ok (rb_list rb1) qs rb'" "rb_list rb' = [] \<or> length qs = unat n - unat (idx + 1)"
      using IH p(4,8) 1(3,4) True by auto
    have "pieces_ok (rb_list rb) (pack' # qs) rb'" using q(2) sp one p(6) by (auto simp: pieces_ok_def)
    then show ?thesis using q i step True by (intro exI [of _ "pack' # qs"] exI [of _ rb']) auto
  next
    case False
    have "pieces_ok (rb_list rb) [pack'] rb1" using sp one p(6,8) by (simp add: pieces_ok_def)
    moreover have "rb_list rb1 = [] \<or> unat n - unat idx = 1" using False i by (auto simp: word_less_unat)
    ultimately show ?thesis using step False by (intro exI [of _ "[pack']"] exI [of _ rb1]) auto
  qed
qed

text \<open>
  C39: decode_packets of the stream protocol, called with an array that is not empty, cuts the buffered bytes into pieces without
  losing, adding or reordering any. No piece is empty or longer than WAWO_STREAM_PIECE_MAX; bytes stay behind only when the array
  is full, and exactly then the result is E_TLP_TRY_AGAIN.
\<close>

theorem stream_decode_pieces:
  assumes "rb_inv rb" "0 < n"
  shows "\<exists>arrives ec rb'. stream_decode_packets junk rb n = Some (arrives, ec, rb') \<and> rb_inv rb' \<and>
    concat (map pk_bytes arrives) @ rb_list rb' = rb_list rb \<and>
    list_all (\<lambda>p. pk_bytes p \<noteq> [] \<and> length (pk_bytes p) \<le> unat WAWO_STREAM_PIECE_MAX) arrives \<and>
    ec = (if rb_list rb' = [] then OK else E_TLP_TRY_AGAIN) \<and> (rb_list rb' = [] \<or> length arrives = unat n)"
proof (cases "rb_list rb = []")
  case True
  then have "rb_count rb = 0" using rb_count_list [OF assms(1)] by (simp add: word_eq_unat)
  then show ?thesis using True assms(1) by (simp add: stream_decode_packets_def)
next
  case False
  then have c: "0 < rb_count rb" "rb_count rb \<noteq> 0"
    using rb_count_list [OF assms(1)] by (metis length_0_conv unat_gt_0 word_neq_0_conv neq0_conv)+
  obtain ps rb' where p: "stream_loop junk n (rb_count rb) 0 [] rb = Some ([] @ ps, rb')" "pieces_ok (rb_list rb) ps rb'"
    "rb_list rb' = [] \<or> length ps = unat n - unat (0 :: u32)"
    using stream_loop_ok [OF assms c(1) False, of junk "[]"] rb_count_list [OF assms(1)] by auto
  have "rb_inv rb'" using p(2) by (simp add: pieces_ok_def)
  then have "rb_count rb' > 0 \<longleftrightarrow> rb_list rb' \<noteq> []"
    using rb_count_list [of rb'] by (metis length_0_conv unat_gt_0 word_neq_0_conv neq0_conv)
  with p c(2) show ?thesis
    by (auto simp: stream_decode_packets_def pieces_ok_def WAWO_STREAM_PIECE_MAX_def)
qed

theorem stream_decode_pieces_witness:
  "\<exists>rb arrives ec rb'. bytes_ringbuffer_new (\<lambda>_. 0) 2048 = Some rb \<and>
     stream_decode_packets (\<lambda>_. 0) rb 3 = Some (arrives, ec, rb') \<and> concat (map pk_bytes arrives) @ rb_list rb' = rb_list rb"
proof -
  obtain rb where rb: "bytes_ringbuffer_new (\<lambda>_. 0) 2048 = Some rb" "rb_inv rb"
    by (rule bytes_ringbuffer_new_ok [of 2048 "\<lambda>_. 0"])
      (simp_all add: MIN_RING_BUFFER_SIZE_def MAX_RING_BUFFER_SIZE_def)
  from stream_decode_pieces [OF rb(2), of 3 "\<lambda>_. 0"] rb(1) show ?thesis by auto
qed

end
