(* ===== verification/Dh_Symmetric.thy ===== *)
theory Dh_Symmetric
  imports Symmetric_Encrypt Formula Obfuscate
begin

text \<open>
  include/wawo/net/tlp/dh_symmetric_encrypt.hpp: the protocol that agrees on a key and then encrypts. The record has the members of the
  class; the handshake is the state machine of handshake_packet_arrive. Arrays are lists of their declared length. A thrown exception is
  None, as is a read beyond an array; a store beyond an array while a message arrives is a value of its own, so that the two are told apart. The random numbers, the byte order of the machine and the contents of uninitialised memory are
  arguments (\<open>dh_env\<close>). The obfuscation of the frame type is switched on in the source.
\<close>

section \<open>Frames, contexts and states\<close>

definition F_HANDSHAKE_HELLO :: byte where "F_HANDSHAKE_HELLO = 1"
definition F_HANDSHAKE_HELLO_RESP :: byte where "F_HANDSHAKE_HELLO_RESP = 2"
definition F_HANDSHAKE_OK :: byte where "F_HANDSHAKE_OK = 3"
definition F_HANDSHAKE_ERROR :: byte where "F_HANDSHAKE_ERROR = 5"

text \<open>The enumerations of cipher suites and compression methods; a value read from the wire is any byte.\<close>

definition CS_NONE :: byte where "CS_NONE = 1"
definition CS_XXTEA :: byte where "CS_XXTEA = 2"
definition CS_MAX :: nat where "CS_MAX = 3"
definition C_NONE :: byte where "C_NONE = 1"
definition C_MAX :: nat where "C_MAX = 4"

lemmas dh_consts = F_HANDSHAKE_HELLO_def F_HANDSHAKE_HELLO_RESP_def F_HANDSHAKE_OK_def F_HANDSHAKE_ERROR_def
  CS_NONE_def CS_XXTEA_def CS_MAX_def C_NONE_def C_MAX_def

definition make_cipher_suite :: "byte \<Rightarrow> xxtea option option" where
  "make_cipher_suite i = (if i = CS_XXTEA then do { c \<leftarrow> xxtea_new; Some (Some c) } else Some None)"

record DH_Context =
  ctx_dhfactor :: DH_Factor
  ctx_cipher_count :: byte
  ctx_ciphers :: bytes
  ctx_compress_count :: byte
  ctx_compress :: bytes

datatype DHState = DH_IDLE | DH_HANDSHAKE | DH_DATA_TRANSFER | DH_CHANGE_KEY | DH_ERROR

record dh_symmetric_encrypt =
  dh_sym :: symmetric_encrypt
  m_dhstate :: DHState
  m_context :: DH_Context
  m_cookie :: "DH_Context option"
  m_cookie_size :: u32

text \<open>The constructor clears the context.\<close>

definition dh_context_zero :: DH_Context where
  "dh_context_zero = \<lparr> ctx_dhfactor = \<lparr> priv_key = 0, pub_key = 0 \<rparr>, ctx_cipher_count = 0, ctx_ciphers = replicate CS_MAX 0,
     ctx_compress_count = 0, ctx_compress = replicate C_MAX 0 \<rparr>"

definition dh_symmetric_encrypt_new :: "u32 \<Rightarrow> dh_symmetric_encrypt" where
  "dh_symmetric_encrypt_new garbage = \<lparr> dh_sym = symmetric_encrypt_new garbage, m_dhstate = DH_IDLE, m_context = dh_context_zero,
     m_cookie = None, m_cookie_size = 0 \<rparr>"

text \<open>
  What the environment supplies: the byte order, the contents of fresh memory, the successive results of random_u64() and the first two of
  random_u32() during a call, and the bytes an uninitialised array happens to hold.
\<close>

record dh_env =
  env_le :: bool
  env_junk :: "nat \<Rightarrow> byte"
  env_random_u64 :: "u64 list"
  env_random_u32 :: "u32 \<times> u32"
  env_stack :: byte

section \<open>Operations\<close>

text \<open>sizeof(DH_Context) with the alignment of 64-bit platforms.\<close>

definition sizeof_DH_Context :: u32 where "sizeof_DH_Context = 56"

text \<open>
  The block is allocated with the old value of m_cookie_size, then \<open>size\<close> bytes are copied into it: None when they do not fit. (The bytes
  of a cookie are those of a DH_Context.)
\<close>

definition handshake_assign_cookie :: "DH_Context \<Rightarrow> u32 \<Rightarrow> dh_symmetric_encrypt \<Rightarrow> dh_symmetric_encrypt option" where
  "handshake_assign_cookie cookie asize s =
     (if asize > m_cookie_size s then None
      else Some (s\<lparr> m_cookie := Some cookie, m_cookie_size := asize \<rparr>))"

text \<open>The loop that draws until both parts of the factor differ from 0; None when the given random numbers do not suffice.\<close>

fun draw_factor :: "DH_Factor \<Rightarrow> u64 list \<Rightarrow> DH_Factor option" where
  "draw_factor f rs =
     (if pub_key f = 0 \<or> priv_key f = 0
      then (case rs of [] \<Rightarrow> None | r # rs' \<Rightarrow> draw_factor (dh_generate_factor r) rs')
      else Some f)"

text \<open>A loop that copies the first \<open>n\<close> elements of an array.\<close>

definition copy_array :: "byte \<Rightarrow> bytes \<Rightarrow> bytes option" where
  "copy_array n xs = (if unat n \<le> length xs then Some (take (unat n) xs) else None)"

primrec write_bytes :: "(nat \<Rightarrow> byte) \<Rightarrow> bytes \<Rightarrow> packet \<Rightarrow> packet option" where
  "write_bytes junk [] p = Some p"
| "write_bytes junk (x # xs) p = do { p \<leftarrow> pk_write_T junk p x; write_bytes junk xs p }"

definition handshake_make_hello_packet :: "dh_env \<Rightarrow> dh_symmetric_encrypt \<Rightarrow> (int \<times> packet option \<times> dh_symmetric_encrypt) option" where
  "handshake_make_hello_packet e s =
     do { s \<leftarrow> (case m_cookie s of
                  Some c \<Rightarrow> do { wawo_assert (sizeof_DH_Context = m_cookie_size s); Some (s\<lparr> m_context := c \<rparr>) }
                | None \<Rightarrow> Some (s\<lparr> m_context := (m_context s)\<lparr>
                    ctx_cipher_count := 2, ctx_ciphers := (ctx_ciphers (m_context s))[0 := CS_XXTEA, 1 := CS_NONE],
                    ctx_compress_count := 1, ctx_compress := (ctx_compress (m_context s))[0 := C_NONE] \<rparr> \<rparr>));
          f \<leftarrow> draw_factor (ctx_dhfactor (m_context s)) (env_random_u64 e);
          let s = s\<lparr> m_context := (m_context s)\<lparr> ctx_dhfactor := f \<rparr> \<rparr>;
          ciphers \<leftarrow> copy_array (ctx_cipher_count (m_context s)) (ctx_ciphers (m_context s));
          compress \<leftarrow> copy_array (ctx_compress_count (m_context s)) (ctx_compress (m_context s));
          p \<leftarrow> packet_default (env_junk e);
          p \<leftarrow> pk_write_T (env_junk e) p (u8_obfuscate F_HANDSHAKE_HELLO (fst (env_random_u32 e)));
          p \<leftarrow> pk_write_T (env_junk e) p (pub_key f);
          p \<leftarrow> pk_write_T (env_junk e) p (ctx_cipher_count (m_context s));
          p \<leftarrow> write_bytes (env_junk e) ciphers p;
          p \<leftarrow> pk_write_T (env_junk e) p (ctx_compress_count (m_context s));
          p \<leftarrow> write_bytes (env_junk e) compress p;
          (rt, hlength_hello) \<leftarrow> hlen_encode (env_junk e) p;
          Some (E_TLP_HANDSHAKING, hlength_hello, s\<lparr> m_dhstate := DH_HANDSHAKE \<rparr>) }"

text \<open>
  What a step may do besides throwing: store a byte outside an array (at which index, which byte), which is undefined behaviour and ends the
  model, or return.
\<close>

type_synonym 'a stored = "(nat \<times> byte) + 'a"

text \<open>A loop that reads \<open>n\<close> bytes into an array, from index \<open>i\<close> on.\<close>

primrec read_array :: "nat \<Rightarrow> nat \<Rightarrow> bytes \<Rightarrow> packet \<Rightarrow> (bytes \<times> packet) stored option" where
  "read_array 0 i arr p = Some (Inr (arr, p))"
| "read_array (Suc n) i arr p =
     do { (v, p) \<leftarrow> pk_read_T p;
          if i < length arr then read_array n (i + 1) (arr[i := v]) p else Some (Inl (i, v)) }"

text \<open>The key of the exchange becomes the key of the cipher: eight bytes, the most significant first.\<close>

definition key_cipher :: "xxtea \<Rightarrow> u64 \<Rightarrow> u64 \<Rightarrow> xxtea option" where
  "key_cipher c pub priv = xx_set_key c (write_u64 (dh_generate_key pub priv))"

definition HOK_MESSAGE :: bytes where
  "HOK_MESSAGE = map (\<lambda>c. of_nat (of_char c)) ''MESSAGE''"

text \<open>The encrypted message in its frame, or the error code of the cipher.\<close>

definition make_ok_packet :: "dh_env \<Rightarrow> xxtea \<Rightarrow> u32 \<Rightarrow> (int + packet) option" where
  "make_ok_packet e c r_u32 =
     do { message \<leftarrow> packet_default (env_junk e);
          message \<leftarrow> pk_write (env_junk e) message HOK_MESSAGE (of_nat (length HOK_MESSAGE));
          (encrt, encrypted_message) \<leftarrow> xx_encrypt (env_le e) (env_junk e) c message;
          if encrt \<noteq> OK then Some (Inl encrt)
          else do {
            em \<leftarrow> encrypted_message;
            em \<leftarrow> pk_write_left_T (env_junk e) em (u8_obfuscate F_HANDSHAKE_OK r_u32);
            (rt, hlength_encrypted_message) \<leftarrow> hlen_encode (env_junk e) em;
            p \<leftarrow> hlength_encrypted_message;
            Some (Inr p) } }"

definition set_dhstate :: "DHState \<Rightarrow> dh_symmetric_encrypt \<Rightarrow> dh_symmetric_encrypt" where
  "set_dhstate st s = s\<lparr> m_dhstate := st \<rparr>"

definition dh_set_cipher :: "xxtea \<Rightarrow> dh_symmetric_encrypt \<Rightarrow> dh_symmetric_encrypt" where
  "dh_set_cipher c s = s\<lparr> dh_sym := set_cipher (Some c) (dh_sym s) \<rparr>"

type_synonym arrive_result = "int \<times> packet option \<times> dh_symmetric_encrypt"

text \<open>F_HANDSHAKE_HELLO: choose the first cipher offered, generate the key, answer with the own public key and the encrypted message.\<close>

definition arrive_hello_answer :: "dh_env \<Rightarrow> dh_symmetric_encrypt \<Rightarrow> u64 \<Rightarrow> byte \<Rightarrow> byte \<Rightarrow> arrive_result option" where
  "arrive_hello_answer e s hello_pub_key cipher_id compress_id =
     do { f \<leftarrow> draw_factor (ctx_dhfactor (m_context s)) (env_random_u64 e);
          let s = s\<lparr> m_context := (m_context s)\<lparr> ctx_dhfactor := f \<rparr> \<rparr>;
          cipher \<leftarrow> make_cipher_suite cipher_id;
          case cipher of
            None \<Rightarrow> Some (E_TLP_UNKNOWN_CIPHER, None, s)
          | Some c \<Rightarrow> do {
              c \<leftarrow> key_cipher c hello_pub_key (priv_key f);
              let s = dh_set_cipher c s;
              p \<leftarrow> packet_default (env_junk e);
              p \<leftarrow> pk_write_T (env_junk e) p (u8_obfuscate F_HANDSHAKE_HELLO_RESP (fst (env_random_u32 e)));
              p \<leftarrow> pk_write_T (env_junk e) p (pub_key f);
              p \<leftarrow> pk_write_T (env_junk e) p cipher_id;
              p \<leftarrow> pk_write_T (env_junk e) p compress_id;
              (rt, OOO) \<leftarrow> hlen_encode (env_junk e) p;
              ok \<leftarrow> make_ok_packet e c (snd (env_random_u32 e));
              case ok of
                Inl encrt \<Rightarrow> Some (encrt, None, s)
              | Inr hlength_encrypted_message \<Rightarrow> do {
                  OOO \<leftarrow> OOO;
                  d \<leftarrow> pk_content hlength_encrypted_message;
                  OOO \<leftarrow> pk_write (env_junk e) OOO d (of_nat (length d));
                  Some (E_TLP_HANDSHAKING, Some OOO, s) } } }"

definition arrive_hello :: "dh_env \<Rightarrow> dh_symmetric_encrypt \<Rightarrow> packet \<Rightarrow> arrive_result stored option" where
  "arrive_hello e s inp =
     do { wawo_assert (m_dhstate s = DH_IDLE);
          let s = set_dhstate DH_HANDSHAKE s;
          (hello_pub_key, inp) \<leftarrow> pk_read_T inp;
          (cipher_count, inp) \<leftarrow> pk_read_T inp;
          len \<leftarrow> pk_len inp;
          if \<not> len > ucast (cipher_count :: byte) then Some (Inr (E_TLP_INVALID_PACKET, None, s))
          else do {
            r \<leftarrow> read_array (unat cipher_count) 0 (replicate CS_MAX (env_stack e)) inp;
            case r of
              Inl wild \<Rightarrow> Some (Inl wild)
            | Inr (ciphers, inp) \<Rightarrow> do {
                (compress_count, inp) \<leftarrow> pk_read_T inp;
                len \<leftarrow> pk_len inp;
                if \<not> len \<ge> ucast (compress_count :: byte) then Some (Inr (E_TLP_INVALID_PACKET, None, s))
                else do {
                  r \<leftarrow> read_array (unat compress_count) 0 (replicate C_MAX (env_stack e)) inp;
                  case r of
                    Inl wild \<Rightarrow> Some (Inl wild)
                  | Inr (compress, inp) \<Rightarrow> do {
                      len \<leftarrow> pk_len inp;
                      wawo_assert (len = 0);
                      if len \<noteq> 0 then Some (Inr (E_TLP_INVALID_PACKET, None, s))
                      else map_option Inr (arrive_hello_answer e s hello_pub_key (ciphers ! 0) (compress ! 0)) } } } } }"

text \<open>F_HANDSHAKE_HELLO_RESP: generate the key and send the encrypted message.\<close>

definition arrive_hello_resp :: "dh_env \<Rightarrow> dh_symmetric_encrypt \<Rightarrow> packet \<Rightarrow> arrive_result option" where
  "arrive_hello_resp e s inp =
     do { wawo_assert (m_dhstate s = DH_HANDSHAKE);
          len \<leftarrow> pk_len inp;
          if \<not> len \<ge> 10 then Some (E_TLP_INVALID_PACKET, None, s)
          else do {
            (resp_pub_key, inp) \<leftarrow> pk_read_T inp;
            (resp_cipher, inp) \<leftarrow> pk_read_T inp;
            (resp_compress, inp) \<leftarrow> (pk_read_T inp :: (byte \<times> packet) option);
            len \<leftarrow> pk_len inp;
            wawo_assert (len = 0);
            if len \<noteq> 0 then Some (E_TLP_INVALID_PACKET, None, s)
            else do {
              cipher \<leftarrow> make_cipher_suite resp_cipher;
              case cipher of
                None \<Rightarrow> Some (E_TLP_UNKNOWN_CIPHER, None, s)
              | Some c \<Rightarrow> do {
                  wawo_assert (priv_key (ctx_dhfactor (m_context s)) \<noteq> 0);
                  c \<leftarrow> key_cipher c resp_pub_key (priv_key (ctx_dhfactor (m_context s)));
                  let s = dh_set_cipher c s;
                  ok \<leftarrow> make_ok_packet e c (fst (env_random_u32 e));
                  case ok of
                    Inl encrt \<Rightarrow> Some (encrt, None, s)
                  | Inr hlength_encrypted_message \<Rightarrow> Some (E_TLP_HANDSHAKING, Some hlength_encrypted_message, s) } } } }"

text \<open>
  F_HANDSHAKE_OK: the decrypted text has to be the message. strncmp compares seven bytes at \<open>begin()\<close>, also when the text is shorter.
\<close>

definition arrive_ok :: "dh_env \<Rightarrow> dh_symmetric_encrypt \<Rightarrow> packet \<Rightarrow> arrive_result option" where
  "arrive_ok e s inp =
     do { wawo_assert (m_dhstate s = DH_HANDSHAKE);
          c \<leftarrow> se_m_cipher (dh_sym s);
          (decryptrt, message) \<leftarrow> xx_decrypt (env_le e) (env_junk e) c inp;
          if decryptrt \<noteq> OK then Some (decryptrt, None, s)
          else do {
            m \<leftarrow> message;
            d \<leftarrow> mem_read (pk_m_buffer m) (unat (pk_m_read_idx m)) (length HOK_MESSAGE);
            if d = HOK_MESSAGE then Some (E_TLP_HANDSHAKE_DONE, None, set_dhstate DH_DATA_TRANSFER s)
            else Some (E_TLP_HANDSHAKE_MESSAGE_CHECK_FAILED, None, s) } }"

definition handshake_packet_arrive :: "dh_env \<Rightarrow> dh_symmetric_encrypt \<Rightarrow> packet \<Rightarrow> arrive_result stored option" where
  "handshake_packet_arrive e s inp =
     do { wawo_assert (m_dhstate s \<noteq> DH_DATA_TRANSFER);
          len \<leftarrow> pk_len inp;
          if \<not> len > 4 then Some (Inr (E_TLP_INVALID_PACKET, None, s))
          else do {
            (v, inp) \<leftarrow> pk_read_T inp;
            let dh_frame = u8_deobfuscate v;
            if dh_frame = F_HANDSHAKE_HELLO then arrive_hello e s inp
            else if dh_frame = F_HANDSHAKE_HELLO_RESP then map_option Inr (arrive_hello_resp e s inp)
            else if dh_frame = F_HANDSHAKE_OK then map_option Inr (arrive_ok e s inp)
            else Some (Inr (E_TLP_INVALID_PACKET, None, s)) } }"

text \<open>Callers are modelled for the runs without a store outside an array.\<close>

definition in_bounds :: "'a stored option \<Rightarrow> 'a option" where
  "in_bounds r = do { x \<leftarrow> r; case x of Inl wild \<Rightarrow> None | Inr a \<Rightarrow> Some a }"

lemma in_bounds_simps [simp]:
  "in_bounds None = None" "in_bounds (Some (Inr a)) = Some a" "in_bounds (Some (Inl w)) = None" "in_bounds (map_option Inr q) = q"
  by (simp_all add: in_bounds_def) (cases q; simp)

definition handshake_handshaking :: "dh_symmetric_encrypt \<Rightarrow> bool" where
  "handshake_handshaking s \<longleftrightarrow> m_dhstate s = DH_HANDSHAKE"

definition handshake_done :: "dh_symmetric_encrypt \<Rightarrow> bool" where
  "handshake_done s \<longleftrightarrow> m_dhstate s = DH_DATA_TRANSFER"

definition dh_encode :: "dh_env \<Rightarrow> dh_symmetric_encrypt \<Rightarrow> packet \<Rightarrow> (int \<times> packet option) option" where
  "dh_encode e s inp =
     (if m_dhstate s \<noteq> DH_DATA_TRANSFER then Some (E_TLP_INVALID_STATE, None)
      else sym_encode (env_le e) (env_junk e) (dh_sym s) inp)"

text \<open>
  decode_packets: the packets handed on, the error code (\<open>ec_in\<close>, what the variable held before, in the states that are not implemented), the
  packet to send back, the protocol and the buffer.
\<close>

definition dh_decode_packets ::
    "dh_env \<Rightarrow> dh_symmetric_encrypt \<Rightarrow> bytes_ringbuffer \<Rightarrow> u32 \<Rightarrow> int \<Rightarrow>
     (packet list \<times> int \<times> packet option \<times> dh_symmetric_encrypt \<times> bytes_ringbuffer) option" where
  "dh_decode_packets e s buffer asize ec_in =
     (case m_dhstate s of
        DH_DATA_TRANSFER \<Rightarrow> do {
          wawo_assert (asize > 0);
          (arrives, ec_o, sym, buffer) \<leftarrow> sym_decode_packets (env_le e) (env_junk e) (dh_sym s) buffer asize;
          Some (arrives, ec_o, None, s\<lparr> dh_sym := sym \<rparr>, buffer) }
      | DH_CHANGE_KEY \<Rightarrow> Some ([], ec_in, None, s, buffer)
      | DH_ERROR \<Rightarrow> Some ([], ec_in, None, s, buffer)
      | _ \<Rightarrow> do {
          (arrives, ec_o, h, buffer) \<leftarrow> hlen_decode_packets (env_junk e) (se_hlen (dh_sym s)) buffer 1;
          let s = s\<lparr> dh_sym := (dh_sym s)\<lparr> se_hlen := h \<rparr> \<rparr>;
          if length arrives = 1 then do {
            (ec_o, handshakeout, s) \<leftarrow> in_bounds (handshake_packet_arrive e s (arrives ! 0));
            Some ([], ec_o, handshakeout, s, buffer) }
          else Some ([], ec_o, None, s, buffer) })"

section \<open>An exchange between two endpoints\<close>

text \<open>Bytes that arrive are written to the receiver's buffer; each side decodes what it has.\<close>

definition put_bytes :: "bytes \<Rightarrow> bytes_ringbuffer \<Rightarrow> bytes_ringbuffer option" where
  "put_bytes d rb = do { (k, rb) \<leftarrow> rb_write rb d (of_nat (length d)); Some rb }"

definition dh_exchange ::
    "dh_env \<Rightarrow> dh_env \<Rightarrow> dh_symmetric_encrypt \<Rightarrow> dh_symmetric_encrypt \<Rightarrow> bytes_ringbuffer \<Rightarrow> bytes_ringbuffer \<Rightarrow>
     (int list \<times> dh_symmetric_encrypt \<times> dh_symmetric_encrypt \<times> bytes_ringbuffer \<times> bytes_ringbuffer) option" where
  "dh_exchange ea eb a b rba rbb =
     do { (ec0, hello, a) \<leftarrow> handshake_make_hello_packet ea a;
          p \<leftarrow> hello;
          rbb \<leftarrow> put_bytes (pk_bytes p) rbb;
          (arr, ec1, out, b, rbb) \<leftarrow> dh_decode_packets eb b rbb 1 OK;
          p \<leftarrow> out;
          rba \<leftarrow> put_bytes (pk_bytes p) rba;
          (arr, ec2, out, a, rba) \<leftarrow> dh_decode_packets ea a rba 1 OK;
          p \<leftarrow> out;
          (arr, ec3, out, a, rba) \<leftarrow> dh_decode_packets ea a rba 1 OK;
          rbb \<leftarrow> put_bytes (pk_bytes p) rbb;
          (arr, ec4, out, b, rbb) \<leftarrow> dh_decode_packets eb b rbb 1 OK;
          Some ([ec0, ec1, ec2, ec3, ec4], a, b, rba, rbb) }"

end
