(* ===== verification/Dh_Handshake.thy ===== *)
theory Dh_Handshake
  imports Dh_Symmetric Packet_Typed
begin

text \<open>
  The handshake of dh_symmetric_encrypt.hpp completes: the messages one side writes are those the other side reads, and both end in the state
  DH_DATA_TRANSFER with ciphers that have the same key. The second part shows what the parser of the first message does with
  messages that the source does not expect.
\<close>

section \<open>Building packets\<close>

text \<open>A packet that has taken \<open>d\<close> so far and has much room left; a chain of writes goes from one such packet to the next.\<close>

definition built :: "bytes \<Rightarrow> packet \<Rightarrow> bool" where
  "built d p \<longleftrightarrow> pk_inv p \<and> pk_bytes p = d \<and> 16769152 \<le> pk_right_room p + length d \<and> 128 \<le> pk_left_room p"

lemma built_default: "\<exists>p. packet_default junk = Some p \<and> built [] p"
  using packet_default_ok [of junk] by (auto simp: built_def)

lemma built_write_T:
  assumes "built d p" "length d \<le> 1000" "sizeof TYPE('a::len) \<le> 8" "LENGTH('a) < 4096"
  shows "\<exists>p'. pk_write_T junk p (t :: 'a word) = Some p' \<and> built (d @ write_impl t) p'"
proof -
  have "sizeof TYPE('a) \<le> pk_right_room p" using assms(1-3) by (simp add: built_def)
  with pk_write_T_ok [of p, where 'a = 'a and t = t and junk = junk] assms show ?thesis by (auto simp: built_def)
qed

lemma built_write:
  assumes "built d p" "length d \<le> 1000" "length x \<le> 1000"
  shows "\<exists>p'. pk_write junk p x (of_nat (length x)) = Some p' \<and> built (d @ x) p'"
proof -
  have n: "unat (of_nat (length x) :: u32) = length x" using assms(3) by (intro unat_of_nat_nowrap) simp
  have "length x \<le> pk_right_room p" using assms by (simp add: built_def)
  with pk_write_ok [of p "of_nat (length x)" x junk] n assms(1) show ?thesis by (auto simp: built_def)
qed

lemma built_write_bytes:
  "built d p \<Longrightarrow> length d + length xs \<le> 1000 \<Longrightarrow> \<exists>p'. write_bytes junk xs p = Some p' \<and> built (d @ xs) p'"
proof (induction xs arbitrary: d p)
  case (Cons x xs)
  obtain q where "pk_write_T junk p x = Some q" "built (d @ [x]) q"
    using built_write_T [OF Cons.prems(1), where t = x and junk = junk] Cons.prems(2) by auto
  with Cons.IH [of "d @ [x]" q] Cons.prems(2) show ?case by auto
qed simp

lemma built_encode:
  assumes "built d p" "d \<noteq> []" "length d \<le> 1000"
  shows "\<exists>q. hlen_encode junk p = Some (OK, Some q) \<and> pk_inv q \<and> pk_bytes q = hl_frame d \<and> 16000000 \<le> pk_right_room q"
  using hlen_encode_ok [of p junk] assms by (auto simp: built_def)

section \<open>The messages\<close>

definition hello_msg :: "u32 \<Rightarrow> u64 \<Rightarrow> bytes" where
  "hello_msg r pub = write_impl (u8_obfuscate F_HANDSHAKE_HELLO r) @ write_impl pub @ [2, CS_XXTEA, CS_NONE, 1, C_NONE]"

definition resp_msg :: "u32 \<Rightarrow> u64 \<Rightarrow> bytes" where
  "resp_msg r pub = write_impl (u8_obfuscate F_HANDSHAKE_HELLO_RESP r) @ write_impl pub @ [CS_XXTEA, C_NONE]"

lemma draw_factor_ok:
  assumes "\<exists>r \<in> set rs. r \<noteq> 0" "pub_key f = 0 \<or> priv_key f = 0"
  shows "\<exists>r. r \<noteq> 0 \<and> draw_factor f rs = Some (dh_generate_factor r)"
  using assms
proof (induction rs arbitrary: f)
  case (Cons r rs)
  have p: "priv_key (dh_generate_factor r) = r" by (simp add: dh_generate_factor_def)
  show ?case
  proof (cases "r = 0")
    case True
    then show ?thesis using Cons.IH [of "dh_generate_factor r"] Cons.prems p by simp
  next
    case False
    then show ?thesis using Cons.prems(2) dh_pub_key_nonzero [of r] p by (intro exI [of _ r]) simp
  qed
qed simp

lemma make_hello_ok:
  assumes "\<exists>r \<in> set (env_random_u64 e). r \<noteq> 0"
  shows "\<exists>x p s. x \<noteq> 0 \<and> handshake_make_hello_packet e (dh_symmetric_encrypt_new g) = Some (E_TLP_HANDSHAKING, Some p, s) \<and>
    pk_bytes p = hl_frame (hello_msg (fst (env_random_u32 e)) (pub_key (dh_generate_factor x))) \<and>
    m_dhstate s = DH_HANDSHAKE \<and> ctx_dhfactor (m_context s) = dh_generate_factor x \<and> dh_sym s = symmetric_encrypt_new g"
proof -
  let ?j = "env_junk e" and ?s = "dh_symmetric_encrypt_new g"
  obtain x where x: "x \<noteq> 0" "draw_factor \<lparr> priv_key = 0, pub_key = 0 \<rparr> (env_random_u64 e) = Some (dh_generate_factor x)"
    using draw_factor_ok [OF assms, of "\<lparr> priv_key = 0, pub_key = 0 \<rparr>"] by auto
  let ?w1 = "write_impl (u8_obfuscate F_HANDSHAKE_HELLO (fst (env_random_u32 e)))"
  let ?w2 = "write_impl (pub_key (dh_generate_factor x))"
  obtain p0 where p0: "packet_default ?j = Some p0" "built [] p0" using built_default by blast
  obtain p1 where p1: "pk_write_T ?j p0 (u8_obfuscate F_HANDSHAKE_HELLO (fst (env_random_u32 e))) = Some p1" "built ([] @ ?w1) p1"
    using built_write_T [OF p0(2)] by force
  obtain p2 where p2: "pk_write_T ?j p1 (pub_key (dh_generate_factor x)) = Some p2" "built (([] @ ?w1) @ ?w2) p2"
    using built_write_T [OF p1(2)] by force
  obtain p3 where p3: "pk_write_T ?j p2 (2 :: byte) = Some p3" "built ((([] @ ?w1) @ ?w2) @ [2]) p3"
    using built_write_T [OF p2(2), where t = "2 :: byte"] by force
  obtain p4 where p4: "write_bytes ?j [CS_XXTEA, CS_NONE] p3 = Some p4" "built (((([] @ ?w1) @ ?w2) @ [2]) @ [CS_XXTEA, CS_NONE]) p4"
    using built_write_bytes [OF p3(2)] by force
  obtain p5 where p5: "pk_write_T ?j p4 (1 :: byte) = Some p5" "built ((((([] @ ?w1) @ ?w2) @ [2]) @ [CS_XXTEA, CS_NONE]) @ [1]) p5"
    using built_write_T [OF p4(2), where t = "1 :: byte"] by force
  obtain p6 where p6: "write_bytes ?j [C_NONE] p5 = Some p6" "built (((((([] @ ?w1) @ ?w2) @ [2]) @ [CS_XXTEA, CS_NONE]) @ [1]) @ [C_NONE]) p6"
    using built_write_bytes [OF p5(2)] by force
  obtain p where p: "hlen_encode ?j p6 = Some (OK, Some p)"
    "pk_bytes p = hl_frame (hello_msg (fst (env_random_u32 e)) (pub_key (dh_generate_factor x)))"
    using built_encode [OF p6(2), of ?j] by (auto simp: hello_msg_def)
  let ?c = "(m_context ?s)\<lparr> ctx_cipher_count := 2, ctx_ciphers := [CS_XXTEA, CS_NONE, 0], ctx_compress_count := 1,
    ctx_compress := [C_NONE, 0, 0, 0], ctx_dhfactor := dh_generate_factor x \<rparr>"
  have a: "copy_array 2 [CS_XXTEA, CS_NONE, 0] = Some [CS_XXTEA, CS_NONE]" "copy_array 1 [C_NONE, 0, 0, 0] = Some [C_NONE]"
    by (simp_all add: copy_array_def)
  have r: "replicate CS_MAX 0 = [0, 0, 0 :: byte]" "replicate C_MAX 0 = [0, 0, 0, 0 :: byte]"
    by (simp_all add: dh_consts numeral_eq_Suc)
  have "handshake_make_hello_packet e ?s = Some (E_TLP_HANDSHAKING, Some p, ?s\<lparr> m_context := ?c, m_dhstate := DH_HANDSHAKE \<rparr>)"
    using x(2) p0(1) p1(1) p2(1) p3(1) p4(1) p5(1) p6(1) p(1) a
    by (simp add: handshake_make_hello_packet_def dh_symmetric_encrypt_new_def dh_context_zero_def r Let_def del: draw_factor.simps write_bytes.simps)
  with x(1) p(2) show ?thesis by (intro exI conjI) (assumption, assumption, assumption, simp_all add: dh_symmetric_encrypt_new_def)
qed

section \<open>The key and the test message\<close>

definition cipher_key :: "u64 \<Rightarrow> xxtea" where
  "cipher_key k = \<lparr> xx_m_key = write_u64 k @ replicate 8 (of_nat (of_char CHR ''z'')) \<rparr>"

lemma cipher_key_nonempty [simp]: "xx_m_key (cipher_key k) \<noteq> []"
  by (simp add: cipher_key_def)

lemma key_cipher_ok: "key_cipher c pub priv = Some (cipher_key (dh_generate_key pub priv))"
proof -
  have "length (write_u64 k) = 8" for k by (simp add: write_u64_def)
  then show ?thesis by (cases c) (simp add: key_cipher_def xx_set_key_def set_key_def cipher_key_def)
qed

lemma make_cipher_suite_ok: "\<exists>c. make_cipher_suite CS_XXTEA = Some (Some c)"
  by (simp add: make_cipher_suite_def xxtea_new_def set_key_def)

lemma length_HOK: "length HOK_MESSAGE = 7" "HOK_MESSAGE \<noteq> []"
  by (simp_all add: HOK_MESSAGE_def)

text \<open>What F_HANDSHAKE_OK carries: any holder of the key decrypts it to the message.\<close>

definition ok_text :: "xxtea \<Rightarrow> bytes \<Rightarrow> bool" where
  "ok_text c m \<longleftrightarrow> m \<noteq> [] \<and> length m \<le> 14 \<and>
     (\<forall>le junk q. pk_inv q \<and> pk_bytes q = m \<longrightarrow> (\<exists>t. xx_decrypt le junk c q = Some (OK, Some t) \<and> pk_inv t \<and> pk_bytes t = HOK_MESSAGE))"

definition ok_msg :: "u32 \<Rightarrow> bytes \<Rightarrow> bytes" where
  "ok_msg r m = write_impl (u8_obfuscate F_HANDSHAKE_OK r) @ m"

lemma make_ok_packet_ok:
  assumes "xx_m_key c \<noteq> []"
  shows "\<exists>m p. ok_text c m \<and> make_ok_packet e c r = Some (Inr p) \<and> pk_inv p \<and> pk_bytes p = hl_frame (ok_msg r m)"
proof -
  let ?j = "env_junk e"
  obtain p0 where p0: "packet_default ?j = Some p0" "built [] p0" using built_default by blast
  obtain p1 where p1: "pk_write ?j p0 HOK_MESSAGE (of_nat (length HOK_MESSAGE)) = Some p1" "built HOK_MESSAGE p1"
    using built_write [OF p0(2), of HOK_MESSAGE ?j] length_HOK by auto
  have b: "pk_inv p1" "pk_bytes p1 \<noteq> []" "length (pk_bytes p1) \<le> 16769144" "pk_bytes p1 = HOK_MESSAGE"
    using p1(2) length_HOK by (simp_all add: built_def)
  note law = xxc.cipher_law [OF assms b(1-3)]
  obtain q where q: "xx_encrypt (env_le e) ?j c p1 = Some (OK, Some q)" "pk_inv q" "pk_bytes q \<noteq> []" "128 \<le> pk_left_room q"
    "length (pk_bytes q) \<le> 14" using law [of "env_le e" ?j "env_le e" ?j] b(4) length_HOK by auto
  have t: "ok_text c (pk_bytes q)"
    unfolding ok_text_def
  proof (intro conjI allI impI)
    fix le junk q' assume "pk_inv q' \<and> pk_bytes q' = pk_bytes q"
    with law [of "env_le e" ?j le junk] q(1) b(4) show "\<exists>t. xx_decrypt le junk c q' = Some (OK, Some t) \<and> pk_inv t \<and> pk_bytes t = HOK_MESSAGE"
      by auto
  qed (use q in auto)
  obtain q1 where q1: "pk_write_left_T ?j q (u8_obfuscate F_HANDSHAKE_OK r) = Some q1" "pk_inv q1"
    "pk_bytes q1 = ok_msg r (pk_bytes q)" "pk_left_room q \<le> pk_left_room q1 + 4"
    using pk_write_left_T_ok [OF q(2), where t = "u8_obfuscate F_HANDSHAKE_OK r" and junk = ?j] q(4) by (auto simp: ok_msg_def)
  have "pk_bytes q1 \<noteq> []" "4 \<le> pk_left_room q1" using q1(3,4) q(3,4) by (simp_all add: ok_msg_def)
  then obtain p where p: "hlen_encode ?j q1 = Some (OK, Some p)" "pk_inv p" "pk_bytes p = hl_frame (ok_msg r (pk_bytes q))"
    using hlen_encode_ok [OF q1(2), of ?j] q1(3) by auto
  have "make_ok_packet e c r = Some (Inr p)" using p0(1) p1(1) q(1) q1(1) p(1) by (simp add: make_ok_packet_def)
  with t p show ?thesis by blast
qed

section \<open>The steps\<close>

lemma deobfuscate_frame [simp]: "u8_deobfuscate (u8_obfuscate f r) = f"
  by (simp add: u8_deobfuscate_def u8_obfuscate_def obfuscate_inverse quarters_types)

lemma arrive_frame:
  assumes "pk_inv p" "pk_bytes p = write_impl (u8_obfuscate f r) @ d" "d \<noteq> []" "m_dhstate s \<noteq> DH_DATA_TRANSFER"
  shows "\<exists>inp. pk_inv inp \<and> pk_bytes inp = d \<and> handshake_packet_arrive e s p =
    (if f = F_HANDSHAKE_HELLO then arrive_hello e s inp
     else if f = F_HANDSHAKE_HELLO_RESP then map_option Inr (arrive_hello_resp e s inp)
     else if f = F_HANDSHAKE_OK then map_option Inr (arrive_ok e s inp) else Some (Inr (E_TLP_INVALID_PACKET, None, s)))"
proof -
  obtain inp where i: "pk_read_T p = Some (u8_obfuscate f r, inp)" "pk_inv inp" "pk_bytes inp = d"
    using pk_read_T_ok [OF assms(1,2)] by auto
  have "4 < unat (of_nat (length (pk_bytes p)) :: u32)"
    unfolding unat_of_nat_length [OF assms(1)] using assms(2,3) by simp
  then have "(4 :: u32) < of_nat (length (pk_bytes p))" by (simp add: word_less_unat)
  with i assms(1,4) show ?thesis by (intro exI [of _ inp]) (simp add: handshake_packet_arrive_def pk_len_of_nat Let_def)
qed

lemma arrive_ok_ok:
  assumes "m_dhstate s = DH_HANDSHAKE" "se_m_cipher (dh_sym s) = Some c" "ok_text c m" "pk_inv inp" "pk_bytes inp = m"
  shows "arrive_ok e s inp = Some (E_TLP_HANDSHAKE_DONE, None, set_dhstate DH_DATA_TRANSFER s)"
proof -
  obtain t where t: "xx_decrypt (env_le e) (env_junk e) c inp = Some (OK, Some t)" "pk_inv t" "pk_bytes t = HOK_MESSAGE"
    using assms(3-5) unfolding ok_text_def by blast
  have "unat (of_nat (length (pk_bytes t)) :: u32) = length HOK_MESSAGE" using unat_of_nat_length [OF t(2)] t(3) by simp
  then have "mem_read (pk_m_buffer t) (unat (pk_m_read_idx t)) (length HOK_MESSAGE) = Some HOK_MESSAGE"
    using pk_content_ok [OF t(2)] t(3) by (simp add: pk_content_def pk_len_of_nat [OF t(2)])
  with t(1) assms(1,2) show ?thesis by (simp add: arrive_ok_def)
qed

lemma arrive_hello_resp_ok:
  assumes "m_dhstate s = DH_HANDSHAKE" "priv_key (ctx_dhfactor (m_context s)) = x" "x \<noteq> 0"
    "pk_inv inp" "pk_bytes inp = write_impl pub @ [CS_XXTEA, C_NONE]"
  defines "c \<equiv> cipher_key (dh_generate_key pub x)"
  shows "\<exists>m p. ok_text c m \<and> pk_bytes p = hl_frame (ok_msg (fst (env_random_u32 e)) m) \<and>
    arrive_hello_resp e s inp = Some (E_TLP_HANDSHAKING, Some p, dh_set_cipher c s)"
proof -
  obtain i1 where i1: "pk_read_T inp = Some (pub, i1)" "pk_inv i1" "pk_bytes i1 = write_impl CS_XXTEA @ [C_NONE]"
    using pk_read_T_ok [OF assms(4,5)] by auto
  obtain i2 where i2: "pk_read_T i1 = Some (CS_XXTEA, i2)" "pk_inv i2" "pk_bytes i2 = write_impl C_NONE @ []"
    using pk_read_T_ok [OF i1(2,3)] by auto
  obtain i3 where i3: "pk_read_T i2 = Some (C_NONE, i3)" "pk_inv i3" "pk_bytes i3 = []"
    using pk_read_T_ok [OF i2(2,3)] by auto
  have l: "(10 :: u32) \<le> of_nat (length (pk_bytes inp))" unfolding assms(5) by simp
  obtain c0 where c0: "make_cipher_suite CS_XXTEA = Some (Some c0)" using make_cipher_suite_ok by blast
  obtain m p where m: "ok_text c m" "make_ok_packet e c (fst (env_random_u32 e)) = Some (Inr p)" "pk_inv p"
    "pk_bytes p = hl_frame (ok_msg (fst (env_random_u32 e)) m)"
    using make_ok_packet_ok [of c e "fst (env_random_u32 e)"] by (auto simp: c_def)
  have "arrive_hello_resp e s inp = Some (E_TLP_HANDSHAKING, Some p, dh_set_cipher c s)"
    using assms(1-3) l i1(1) i2(1) i3(1) c0 m(2) pk_len_of_nat [OF assms(4)] pk_len_of_nat [OF i3(2)] i3(3)
    by (simp add: arrive_hello_resp_def key_cipher_ok Let_def c_def)
  with m show ?thesis by blast
qed

lemma arrive_hello_answer_ok:
  assumes "\<exists>r \<in> set (env_random_u64 e). r \<noteq> 0" "ctx_dhfactor (m_context s) = \<lparr> priv_key = 0, pub_key = 0 \<rparr>"
  shows "\<exists>y m p s'. y \<noteq> 0 \<and> ok_text (cipher_key (dh_generate_key pub y)) m \<and>
    arrive_hello_answer e s pub CS_XXTEA C_NONE = Some (E_TLP_HANDSHAKING, Some p, s') \<and>
    pk_bytes p = hl_frame (resp_msg (fst (env_random_u32 e)) (pub_key (dh_generate_factor y))) @ hl_frame (ok_msg (snd (env_random_u32 e)) m) \<and>
    m_dhstate s' = m_dhstate s \<and> dh_sym s' = (dh_sym s)\<lparr> se_m_cipher := Some (cipher_key (dh_generate_key pub y)) \<rparr>"
proof -
  let ?j = "env_junk e" and ?r = "u8_obfuscate F_HANDSHAKE_HELLO_RESP (fst (env_random_u32 e))"
  obtain y where y: "y \<noteq> 0" "draw_factor (ctx_dhfactor (m_context s)) (env_random_u64 e) = Some (dh_generate_factor y)"
    using draw_factor_ok [OF assms(1), of "ctx_dhfactor (m_context s)"] assms(2) by auto
  let ?c = "cipher_key (dh_generate_key pub y)" and ?s = "s\<lparr> m_context := (m_context s)\<lparr> ctx_dhfactor := dh_generate_factor y \<rparr> \<rparr>"
  have priv: "priv_key (dh_generate_factor y) = y" by (simp add: dh_generate_factor_def)
  obtain c0 where c0: "make_cipher_suite CS_XXTEA = Some (Some c0)" using make_cipher_suite_ok by blast
  obtain p0 where p0: "packet_default ?j = Some p0" "built [] p0" using built_default by blast
  obtain p1 where p1: "pk_write_T ?j p0 ?r = Some p1" "built ([] @ write_impl ?r) p1" using built_write_T [OF p0(2)] by force
  obtain p2 where p2: "pk_write_T ?j p1 (pub_key (dh_generate_factor y)) = Some p2"
    "built (([] @ write_impl ?r) @ write_impl (pub_key (dh_generate_factor y))) p2" using built_write_T [OF p1(2)] by force
  obtain p3 where p3: "pk_write_T ?j p2 CS_XXTEA = Some p3"
    "built ((([] @ write_impl ?r) @ write_impl (pub_key (dh_generate_factor y))) @ [CS_XXTEA]) p3"
    using built_write_T [OF p2(2), where t = CS_XXTEA] by force
  obtain p4 where p4: "pk_write_T ?j p3 C_NONE = Some p4"
    "built (((([] @ write_impl ?r) @ write_impl (pub_key (dh_generate_factor y))) @ [CS_XXTEA]) @ [C_NONE]) p4"
    using built_write_T [OF p3(2), where t = C_NONE] by force
  obtain p5 where p5: "hlen_encode ?j p4 = Some (OK, Some p5)" "pk_inv p5" "16000000 \<le> pk_right_room p5"
    "pk_bytes p5 = hl_frame (resp_msg (fst (env_random_u32 e)) (pub_key (dh_generate_factor y)))"
    using built_encode [OF p4(2), of ?j] by (auto simp: resp_msg_def)
  obtain m q where m: "ok_text ?c m" "make_ok_packet e ?c (snd (env_random_u32 e)) = Some (Inr q)" "pk_inv q"
    "pk_bytes q = hl_frame (ok_msg (snd (env_random_u32 e)) m)"
    using make_ok_packet_ok [of ?c e "snd (env_random_u32 e)"] by auto
  have len: "length (pk_bytes q) \<le> 1000" using m(1,4) by (simp add: hl_frame_def ok_msg_def ok_text_def)
  obtain p where p: "pk_write ?j p5 (pk_bytes q) (of_nat (length (pk_bytes q))) = Some p" "pk_bytes p = pk_bytes p5 @ pk_bytes q"
    using pk_write_ok [OF p5(2), of "of_nat (length (pk_bytes q))" "pk_bytes q" ?j] unat_of_nat_length [OF m(3)] len p5(3) by auto
  have "arrive_hello_answer e s pub CS_XXTEA C_NONE = Some (E_TLP_HANDSHAKING, Some p, dh_set_cipher ?c ?s)"
    using y(2) priv c0 p0(1) p1(1) p2(1) p3(1) p4(1) p5(1) m(2) p(1) pk_content_ok [OF m(3)]
    by (simp add: arrive_hello_answer_def key_cipher_ok Let_def del: draw_factor.simps)
  with y(1) m(1) p(2) p5(4) m(4) show ?thesis
    by (intro exI [of _ y] exI [of _ m] exI [of _ p] exI conjI) (assumption, assumption, assumption, simp_all add: dh_set_cipher_def set_cipher_def)
qed

lemma arrive_hello_ok:
  assumes "m_dhstate s = DH_IDLE" "pk_inv inp" "pk_bytes inp = write_impl pub @ [2, CS_XXTEA, CS_NONE, 1, C_NONE]"
  shows "arrive_hello e s inp = map_option Inr (arrive_hello_answer e (set_dhstate DH_HANDSHAKE s) pub CS_XXTEA C_NONE)"
proof -
  obtain i1 where i1: "pk_read_T inp = Some (pub, i1)" "pk_inv i1" "pk_bytes i1 = write_impl (2 :: byte) @ [CS_XXTEA, CS_NONE, 1, C_NONE]"
    using pk_read_T_ok [OF assms(2,3)] by auto
  obtain i2 where i2: "pk_read_T i1 = Some (2 :: byte, i2)" "pk_inv i2" "pk_bytes i2 = write_impl CS_XXTEA @ [CS_NONE, 1, C_NONE]"
    using pk_read_T_ok [OF i1(2,3)] by auto
  obtain i3 where i3: "pk_read_T i2 = Some (CS_XXTEA, i3)" "pk_inv i3" "pk_bytes i3 = write_impl CS_NONE @ [1, C_NONE]"
    using pk_read_T_ok [OF i2(2,3)] by auto
  obtain i4 where i4: "pk_read_T i3 = Some (CS_NONE, i4)" "pk_inv i4" "pk_bytes i4 = write_impl (1 :: byte) @ [C_NONE]"
    using pk_read_T_ok [OF i3(2,3)] by auto
  obtain i5 where i5: "pk_read_T i4 = Some (1 :: byte, i5)" "pk_inv i5" "pk_bytes i5 = write_impl C_NONE @ []"
    using pk_read_T_ok [OF i4(2,3)] by auto
  obtain i6 where i6: "pk_read_T i5 = Some (C_NONE, i6)" "pk_inv i6" "pk_bytes i6 = []"
    using pk_read_T_ok [OF i5(2,3)] by auto
  have r: "replicate CS_MAX v = [v, v, v]" "replicate C_MAX v = [v, v, v, v]" for v :: byte by (simp_all add: dh_consts numeral_eq_Suc)
  have two: "unat (2 :: byte) = Suc (Suc 0)" by simp
  have "read_array (unat (2 :: byte)) 0 (replicate CS_MAX (env_stack e)) i2 = Some (Inr ([CS_XXTEA, CS_NONE, env_stack e], i4))"
    unfolding two using i3(1) i4(1) by (simp add: r)
  moreover have "read_array (unat (1 :: byte)) 0 (replicate C_MAX (env_stack e)) i5 = Some (Inr ([C_NONE, env_stack e, env_stack e, env_stack e], i6))"
    using i6(1) by (simp add: r)
  moreover have "pk_len i2 = Some 4" "pk_len i5 = Some 1" "pk_len i6 = Some 0"
    using pk_len_of_nat [OF i2(2)] pk_len_of_nat [OF i5(2)] pk_len_of_nat [OF i6(2)] i2(3) i5(3) i6(3) by simp_all
  ultimately show ?thesis
    using assms(1) i1(1) i2(1) i5(1) by (simp add: arrive_hello_def Let_def del: read_array.simps)
qed

section \<open>Frames in the buffer\<close>

lemma decode_first:
  assumes "rb_inv rb" "rb_list rb = hl_wire h (m # ms)" "hl_fits h (m # ms)" "msgs_ok (unat (rb_capacity rb)) (m # ms)"
  shows "\<exists>p ec h' rb'. hlen_decode_packets junk h rb 1 = Some ([p], ec, h', rb') \<and> pk_inv p \<and> pk_bytes p = m \<and>
    rb_inv rb' \<and> rb_capacity rb' = rb_capacity rb \<and> rb_list rb' = hl_wire h' ms \<and> hl_fits h' ms"
proof -
  have w: "rb_list rb @ [] = hl_wire h (m # ms)" using assms(2) by simp
  obtain ms1 ms2 ec h' bs where f: "hlen_parse (unat (rb_capacity rb)) 1 h (rb_list rb) = Some (ms1, ec, h', bs)"
    "m # ms = ms1 @ ms2" "bs @ [] = hl_wire h' ms2" "hl_fits h' ms2" "length ms1 \<le> 1"
    "ec = OK \<and> ([] = [] \<longrightarrow> ms2 = []) \<or> ec = E_TLP_TRY_AGAIN \<and> length ms1 = 1"
    using parse_wire [OF w assms(3,4), of 1] unfolding parse_fine_def by blast
  have ms: "ms1 = [m]" "ms2 = ms" using f(2,5,6) by (cases ms1; auto)+
  obtain ps rb' where r: "hlen_loop junk 1 (h, rb, [], OK) = Some (h', rb', ps, ec)" "map pk_bytes ps = ms1" "list_all pk_inv ps"
    "rb_inv rb'" "rb_list rb' = bs" "rb_capacity rb' = rb_capacity rb"
    using hlen_loop_parse [OF assms(1), of "[]" 1 junk h] f(1) by (auto simp: loop_ok_def)
  obtain p where "ps = [p]" using r(2) ms(1) by (cases ps) auto
  with r f(3,4) ms show ?thesis by (auto simp: hlen_decode_packets_def)
qed

lemma dh_decode_handshake:
  assumes "rb_inv rb" "rb_list rb = hl_wire (se_hlen (dh_sym s)) (m # ms)" "hl_fits (se_hlen (dh_sym s)) (m # ms)"
    "msgs_ok (unat (rb_capacity rb)) (m # ms)" "m_dhstate s = DH_IDLE \<or> m_dhstate s = DH_HANDSHAKE"
  shows "\<exists>p h rb'. pk_inv p \<and> pk_bytes p = m \<and> rb_inv rb' \<and> rb_capacity rb' = rb_capacity rb \<and> rb_list rb' = hl_wire h ms \<and> hl_fits h ms \<and>
    dh_decode_packets e s rb n ec = do { (ec_o, out, s) \<leftarrow> in_bounds (handshake_packet_arrive e (s\<lparr> dh_sym := (dh_sym s)\<lparr> se_hlen := h \<rparr> \<rparr>) p);
      Some ([], ec_o, out, s, rb') }"
proof -
  obtain p ec' h rb' where d: "hlen_decode_packets (env_junk e) (se_hlen (dh_sym s)) rb 1 = Some ([p], ec', h, rb')" "pk_inv p" "pk_bytes p = m"
    "rb_inv rb'" "rb_capacity rb' = rb_capacity rb" "rb_list rb' = hl_wire h ms" "hl_fits h ms"
    using decode_first [OF assms(1-4), of "env_junk e"] by blast
  then show ?thesis using assms(5)
    by (intro exI [of _ p] exI [of _ h] exI [of _ rb']) (auto simp: dh_decode_packets_def Let_def)
qed

lemma put_bytes_ok:
  assumes "rb_inv rb" "rb_list rb = []" "2048 \<le> unat (rb_capacity rb)" "length d \<le> 2048" "d \<noteq> []"
  shows "\<exists>rb'. put_bytes d rb = Some rb' \<and> rb_inv rb' \<and> rb_list rb' = d \<and> rb_capacity rb' = rb_capacity rb"
proof -
  have n: "unat (of_nat (length d) :: u32) = length d" using assms(4) by (intro unat_of_nat_nowrap) simp
  then have z: "(of_nat (length d) :: u32) \<noteq> 0" using assms(5) by (metis length_0_conv unat_0)
  have le: "unat (of_nat (length d) :: u32) \<le> length d" using n by simp
  obtain rb' k where "rb_write rb d (of_nat (length d)) = Some (k, rb')" "rb_inv rb'"
    "unat k = min (unat (of_nat (length d) :: u32)) (unat (rb_left_capacity rb))" "rb_list rb' = rb_list rb @ take (unat k) d"
    "rb_m_capacity rb' = rb_m_capacity rb" by (rule rb_write_ok [OF assms(1) z le])
  then show ?thesis using assms n rb_left_capacity_list [OF assms(1)] by (auto simp: put_bytes_def rb_capacity_def)
qed

section \<open>The exchange\<close>

lemma msg_lengths:
  "length (hello_msg r pub) = 17" "length (resp_msg r pub) = 14" "length (ok_msg r m) = 4 + length m" "length (hl_frame d) = 4 + length d"
  by (simp_all add: hello_msg_def resp_msg_def ok_msg_def hl_frame_def)

lemma msg_nonempty [simp]: "hello_msg r pub \<noteq> []" "resp_msg r pub \<noteq> []" "ok_msg r m \<noteq> []" "hl_frame d \<noteq> []"
  using msg_lengths(1) [of r pub] msg_lengths(2) [of r pub] msg_lengths(3) [of r m] msg_lengths(4) [of d] by auto

text \<open>A side that has nothing half read.\<close>

definition at_rest :: "dh_symmetric_encrypt \<Rightarrow> bytes_ringbuffer \<Rightarrow> bool" where
  "at_rest s rb \<longleftrightarrow> m_parse_state (se_hlen (dh_sym s)) = S_READ_LEN \<and> rb_inv rb \<and> rb_list rb = [] \<and> 2048 \<le> unat (rb_capacity rb)"

lemma receive_frames:
  assumes "at_rest s rb" "list_all (\<lambda>m'. m' \<noteq> [] \<and> length m' \<le> 100) (m # ms)" "length (concat (map hl_frame (m # ms))) \<le> 2048"
    "m_dhstate s = DH_IDLE \<or> m_dhstate s = DH_HANDSHAKE"
  shows "\<exists>rb1 p h rb2. put_bytes (concat (map hl_frame (m # ms))) rb = Some rb1 \<and> pk_inv p \<and> pk_bytes p = m \<and>
    rb_inv rb2 \<and> rb_capacity rb2 = rb_capacity rb \<and> rb_list rb2 = hl_wire h ms \<and> hl_fits h ms \<and>
    dh_decode_packets e s rb1 n ec = do { (ec_o, out, s) \<leftarrow> in_bounds (handshake_packet_arrive e (s\<lparr> dh_sym := (dh_sym s)\<lparr> se_hlen := h \<rparr> \<rparr>) p);
      Some ([], ec_o, out, s, rb2) }"
proof -
  let ?d = "concat (map hl_frame (m # ms))"
  have rb: "rb_inv rb" "rb_list rb = []" "2048 \<le> unat (rb_capacity rb)" using assms(1) by (simp_all add: at_rest_def)
  obtain rb1 where rb1: "put_bytes ?d rb = Some rb1" "rb_inv rb1" "rb_list rb1 = ?d" "rb_capacity rb1 = rb_capacity rb"
    using put_bytes_ok [OF rb assms(3)] by auto
  have f: "rb_list rb1 = hl_wire (se_hlen (dh_sym s)) (m # ms)" "hl_fits (se_hlen (dh_sym s)) (m # ms)"
    using assms(1) rb1(3) by (simp_all add: at_rest_def hl_wire_def hl_fits_def)
  have "length m' \<le> unat (rb_capacity rb1) \<and> length m' \<le> 16777216" if "m' \<in> set (m # ms)" for m'
    using assms(2) that rb(3) rb1(4) by (auto simp: list_all_iff)
  then have "msgs_ok (unat (rb_capacity rb1)) (m # ms)" using assms(2) unfolding msgs_ok_def list_all_iff by blast
  from dh_decode_handshake [OF rb1(2) f this assms(4), of e n ec] rb1(1,4) show ?thesis by metis
qed

lemma wire_empty: "hl_fits h [] \<Longrightarrow> m_parse_state h = S_READ_LEN \<and> hl_wire h [] = []"
  by (cases "m_parse_state h") (simp_all add: hl_fits_def hl_wire_def)

lemma server_hello:
  assumes "at_rest b rb" "m_dhstate b = DH_IDLE" "ctx_dhfactor (m_context b) = \<lparr> priv_key = 0, pub_key = 0 \<rparr>"
    "\<exists>r \<in> set (env_random_u64 e). r \<noteq> 0"
  shows "\<exists>rb1 y m p b' rb2. put_bytes (hl_frame (hello_msg r pub)) rb = Some rb1 \<and>
    dh_decode_packets e b rb1 n ec = Some ([], E_TLP_HANDSHAKING, Some p, b', rb2) \<and> y \<noteq> 0 \<and>
    ok_text (cipher_key (dh_generate_key pub y)) m \<and>
    pk_bytes p = hl_frame (resp_msg (fst (env_random_u32 e)) (pub_key (dh_generate_factor y))) @ hl_frame (ok_msg (snd (env_random_u32 e)) m) \<and>
    at_rest b' rb2 \<and> m_dhstate b' = DH_HANDSHAKE \<and> se_m_cipher (dh_sym b') = Some (cipher_key (dh_generate_key pub y))"
proof -
  obtain rb1 q h rb2 where q: "put_bytes (hl_frame (hello_msg r pub)) rb = Some rb1" "pk_inv q" "pk_bytes q = hello_msg r pub" "rb_inv rb2"
    "rb_capacity rb2 = rb_capacity rb" "rb_list rb2 = hl_wire h []" "hl_fits h []"
    "dh_decode_packets e b rb1 n ec = do { (ec_o, out, s) \<leftarrow> in_bounds (handshake_packet_arrive e (b\<lparr> dh_sym := (dh_sym b)\<lparr> se_hlen := h \<rparr> \<rparr>) q);
      Some ([], ec_o, out, s, rb2) }"
    using receive_frames [OF assms(1), of "hello_msg r pub" "[]" e n ec] assms(2) by (auto simp: msg_lengths)
  let ?b = "b\<lparr> dh_sym := (dh_sym b)\<lparr> se_hlen := h \<rparr> \<rparr>"
  have hb: "m_dhstate ?b = DH_IDLE" using assms(2) by simp
  obtain inp where i: "pk_inv inp" "pk_bytes inp = write_impl pub @ [2, CS_XXTEA, CS_NONE, 1, C_NONE]" "handshake_packet_arrive e ?b q = arrive_hello e ?b inp"
    using arrive_frame [OF q(2) q(3) [unfolded hello_msg_def], of ?b e] hb by auto
  obtain y m p s' where a: "y \<noteq> 0" "ok_text (cipher_key (dh_generate_key pub y)) m"
    "arrive_hello_answer e (set_dhstate DH_HANDSHAKE ?b) pub CS_XXTEA C_NONE = Some (E_TLP_HANDSHAKING, Some p, s')"
    "pk_bytes p = hl_frame (resp_msg (fst (env_random_u32 e)) (pub_key (dh_generate_factor y))) @ hl_frame (ok_msg (snd (env_random_u32 e)) m)"
    "m_dhstate s' = m_dhstate (set_dhstate DH_HANDSHAKE ?b)"
    "dh_sym s' = (dh_sym (set_dhstate DH_HANDSHAKE ?b))\<lparr> se_m_cipher := Some (cipher_key (dh_generate_key pub y)) \<rparr>"
    using arrive_hello_answer_ok [OF assms(4), of "set_dhstate DH_HANDSHAKE ?b" pub] assms(3) by (auto simp: set_dhstate_def)
  have "dh_decode_packets e b rb1 n ec = Some ([], E_TLP_HANDSHAKING, Some p, s', rb2)"
    using q(8) i(3) arrive_hello_ok [OF hb i(1,2), of e] a(3) by simp
  moreover have "at_rest s' rb2" using q(4-7) assms(1) a(6) wire_empty [of h] by (simp add: at_rest_def set_dhstate_def)
  moreover have "m_dhstate s' = DH_HANDSHAKE" "se_m_cipher (dh_sym s') = Some (cipher_key (dh_generate_key pub y))"
    using a(5,6) by (simp_all add: set_dhstate_def)
  ultimately show ?thesis using q(1) a(1,2,4) by blast
qed

lemma client_resp:
  assumes "at_rest a rb" "m_dhstate a = DH_HANDSHAKE" "priv_key (ctx_dhfactor (m_context a)) = x" "x \<noteq> 0" "ok_text (cipher_key (dh_generate_key pub x)) m"
  defines "c \<equiv> cipher_key (dh_generate_key pub x)"
  shows "\<exists>rb1 m' p a1 rb2 a2 rb3. put_bytes (hl_frame (resp_msg r pub) @ hl_frame (ok_msg r' m)) rb = Some rb1 \<and>
    dh_decode_packets e a rb1 n ec = Some ([], E_TLP_HANDSHAKING, Some p, a1, rb2) \<and> ok_text c m' \<and>
    pk_bytes p = hl_frame (ok_msg (fst (env_random_u32 e)) m') \<and>
    dh_decode_packets e a1 rb2 n' ec' = Some ([], E_TLP_HANDSHAKE_DONE, None, a2, rb3) \<and>
    at_rest a2 rb3 \<and> handshake_done a2 \<and> se_m_cipher (dh_sym a2) = Some c"
proof -
  have ml: "length m \<le> 14" "m \<noteq> []" using assms(5) by (simp_all add: ok_text_def)
  obtain rb1 q h rb2 where q: "put_bytes (hl_frame (resp_msg r pub) @ hl_frame (ok_msg r' m)) rb = Some rb1" "pk_inv q" "pk_bytes q = resp_msg r pub" "rb_inv rb2"
    "rb_capacity rb2 = rb_capacity rb" "rb_list rb2 = hl_wire h [ok_msg r' m]" "hl_fits h [ok_msg r' m]"
    "dh_decode_packets e a rb1 n ec = do { (ec_o, out, s) \<leftarrow> in_bounds (handshake_packet_arrive e (a\<lparr> dh_sym := (dh_sym a)\<lparr> se_hlen := h \<rparr> \<rparr>) q);
      Some ([], ec_o, out, s, rb2) }"
    using receive_frames [OF assms(1), of "resp_msg r pub" "[ok_msg r' m]" e n ec] assms(2) ml by (auto simp: msg_lengths)
  let ?a = "a\<lparr> dh_sym := (dh_sym a)\<lparr> se_hlen := h \<rparr> \<rparr>" and ?c = "cipher_key (dh_generate_key pub x)"
  have st: "m_dhstate ?a = DH_HANDSHAKE" "priv_key (ctx_dhfactor (m_context ?a)) = x" using assms(2,3) by simp_all
  obtain inp where i: "pk_inv inp" "pk_bytes inp = write_impl pub @ [CS_XXTEA, C_NONE]" "handshake_packet_arrive e ?a q = map_option Inr (arrive_hello_resp e ?a inp)"
    using arrive_frame [OF q(2) q(3) [unfolded resp_msg_def], of ?a e] st(1) by (auto simp: dh_consts)
  obtain m' p where p: "ok_text ?c m'" "pk_bytes p = hl_frame (ok_msg (fst (env_random_u32 e)) m')"
    "arrive_hello_resp e ?a inp = Some (E_TLP_HANDSHAKING, Some p, dh_set_cipher ?c ?a)"
    using arrive_hello_resp_ok [OF st assms(4) i(1,2), of e] by blast
  let ?a1 = "dh_set_cipher ?c ?a"
  have d1: "dh_decode_packets e a rb1 n ec = Some ([], E_TLP_HANDSHAKING, Some p, ?a1, rb2)" using q(8) i(3) p(3) by simp
  have s1: "m_dhstate ?a1 = DH_HANDSHAKE" "se_hlen (dh_sym ?a1) = h" "se_m_cipher (dh_sym ?a1) = Some ?c"
    using st(1) by (simp_all add: dh_set_cipher_def set_cipher_def)
  have ok: "msgs_ok (unat (rb_capacity rb2)) [ok_msg r' m]" using assms(1) q(5) ml by (simp add: at_rest_def msg_lengths)
  obtain q' h' rb3 where q': "pk_inv q'" "pk_bytes q' = ok_msg r' m" "rb_inv rb3" "rb_capacity rb3 = rb_capacity rb2" "rb_list rb3 = hl_wire h' []"
    "hl_fits h' []" "dh_decode_packets e ?a1 rb2 n' ec' =
      do { (ec_o, out, s) \<leftarrow> in_bounds (handshake_packet_arrive e (?a1\<lparr> dh_sym := (dh_sym ?a1)\<lparr> se_hlen := h' \<rparr> \<rparr>) q'); Some ([], ec_o, out, s, rb3) }"
    using dh_decode_handshake [OF q(4), of ?a1 "ok_msg r' m" "[]" e n' ec'] q(6,7) s1 ok by auto
  let ?a2 = "?a1\<lparr> dh_sym := (dh_sym ?a1)\<lparr> se_hlen := h' \<rparr> \<rparr>"
  have s2: "m_dhstate ?a2 = DH_HANDSHAKE" "se_m_cipher (dh_sym ?a2) = Some ?c" using s1 by simp_all
  obtain inp' where i': "pk_inv inp'" "pk_bytes inp' = m" "handshake_packet_arrive e ?a2 q' = map_option Inr (arrive_ok e ?a2 inp')"
    using arrive_frame [OF q'(1) q'(2) [unfolded ok_msg_def] ml(2), of ?a2 e] s2(1) by (auto simp: dh_consts)
  have d2: "dh_decode_packets e ?a1 rb2 n' ec' = Some ([], E_TLP_HANDSHAKE_DONE, None, set_dhstate DH_DATA_TRANSFER ?a2, rb3)"
    using q'(7) i'(3) arrive_ok_ok [OF s2 assms(5) i'(1,2), of e] by simp
  have "at_rest (set_dhstate DH_DATA_TRANSFER ?a2) rb3" using q'(3-6) q(5) assms(1) wire_empty [of h'] by (simp add: at_rest_def set_dhstate_def)
  moreover have "handshake_done (set_dhstate DH_DATA_TRANSFER ?a2)" "se_m_cipher (dh_sym (set_dhstate DH_DATA_TRANSFER ?a2)) = Some ?c"
    using s2 by (simp_all add: handshake_done_def set_dhstate_def)
  ultimately show ?thesis using q(1) d1 d2 p(1,2) unfolding c_def by blast
qed

lemma server_ok:
  assumes "at_rest b rb" "m_dhstate b = DH_HANDSHAKE" "se_m_cipher (dh_sym b) = Some c" "ok_text c m"
  shows "\<exists>rb1 b' rb2. put_bytes (hl_frame (ok_msg r m)) rb = Some rb1 \<and>
    dh_decode_packets e b rb1 n ec = Some ([], E_TLP_HANDSHAKE_DONE, None, b', rb2) \<and>
    at_rest b' rb2 \<and> handshake_done b' \<and> se_m_cipher (dh_sym b') = Some c"
proof -
  have ml: "length m \<le> 14" "m \<noteq> []" using assms(4) by (simp_all add: ok_text_def)
  obtain rb1 q h rb2 where q: "put_bytes (hl_frame (ok_msg r m)) rb = Some rb1" "pk_inv q" "pk_bytes q = ok_msg r m" "rb_inv rb2"
    "rb_capacity rb2 = rb_capacity rb" "rb_list rb2 = hl_wire h []" "hl_fits h []"
    "dh_decode_packets e b rb1 n ec = do { (ec_o, out, s) \<leftarrow> in_bounds (handshake_packet_arrive e (b\<lparr> dh_sym := (dh_sym b)\<lparr> se_hlen := h \<rparr> \<rparr>) q);
      Some ([], ec_o, out, s, rb2) }"
    using receive_frames [OF assms(1), of "ok_msg r m" "[]" e n ec] assms(2) ml by (auto simp: msg_lengths)
  let ?b = "b\<lparr> dh_sym := (dh_sym b)\<lparr> se_hlen := h \<rparr> \<rparr>"
  have s: "m_dhstate ?b = DH_HANDSHAKE" "se_m_cipher (dh_sym ?b) = Some c" using assms(2,3) by simp_all
  obtain inp where i: "pk_inv inp" "pk_bytes inp = m" "handshake_packet_arrive e ?b q = map_option Inr (arrive_ok e ?b inp)"
    using arrive_frame [OF q(2) q(3) [unfolded ok_msg_def] ml(2), of ?b e] s(1) by (auto simp: dh_consts)
  have "dh_decode_packets e b rb1 n ec = Some ([], E_TLP_HANDSHAKE_DONE, None, set_dhstate DH_DATA_TRANSFER ?b, rb2)"
    using q(8) i(3) arrive_ok_ok [OF s assms(4) i(1,2), of e] by simp
  moreover have "at_rest (set_dhstate DH_DATA_TRANSFER ?b) rb2" using q(4-7) assms(1) wire_empty [of h] by (simp add: at_rest_def set_dhstate_def)
  moreover have "handshake_done (set_dhstate DH_DATA_TRANSFER ?b)" "se_m_cipher (dh_sym (set_dhstate DH_DATA_TRANSFER ?b)) = Some c"
    using s by (simp_all add: handshake_done_def set_dhstate_def)
  ultimately show ?thesis using q(1) by blast
qed

section \<open>Properties\<close>

text \<open>
  C11: The key exchange completes. Two fresh endpoints, on machines of any byte order, that exchange hello, response with test message, and
  test message, report "handshaking" after the first steps and "handshake done" at the end; no step throws, both are in the state in which data is
  transferred, with ciphers of the same key, and nothing is left in the buffers. The hypothesis says that each side's random number generator
  eventually yields a number other than 0, without which its loop does not end.
\<close>

theorem dh_handshake_completes:
  assumes "\<exists>r \<in> set (env_random_u64 ea). r \<noteq> 0" "\<exists>r \<in> set (env_random_u64 eb). r \<noteq> 0"
    "bytes_ringbuffer_new ja ca = Some rba" "bytes_ringbuffer_new jb cb = Some rbb"
  shows "\<exists>a b rba' rbb' c.
    dh_exchange ea eb (dh_symmetric_encrypt_new ga) (dh_symmetric_encrypt_new gb) rba rbb =
      Some ([E_TLP_HANDSHAKING, E_TLP_HANDSHAKING, E_TLP_HANDSHAKING, E_TLP_HANDSHAKE_DONE, E_TLP_HANDSHAKE_DONE], a, b, rba', rbb') \<and>
    handshake_done a \<and> handshake_done b \<and> se_m_cipher (dh_sym a) = Some c \<and> se_m_cipher (dh_sym b) = Some c \<and> xx_m_key c \<noteq> [] \<and>
    rb_list rba' = [] \<and> rb_list rbb' = []"
proof -
  let ?a = "dh_symmetric_encrypt_new ga" and ?b = "dh_symmetric_encrypt_new gb"
  have rest: "at_rest (dh_symmetric_encrypt_new g) rb" if "bytes_ringbuffer_new j c = Some rb" for g j c rb
  proof -
    have "MIN_RING_BUFFER_SIZE \<le> c" "c \<le> MAX_RING_BUFFER_SIZE"
      using that bytes_ringbuffer_new_fails [of c j] by (metis not_less option.discI)+
    then obtain rb' where "bytes_ringbuffer_new j c = Some rb'" "rb_inv rb'" "rb_list rb' = []" "rb_capacity rb' = c"
      by (rule bytes_ringbuffer_new_ok)
    with that \<open>MIN_RING_BUFFER_SIZE \<le> c\<close> show ?thesis
      by (simp add: at_rest_def dh_symmetric_encrypt_new_def symmetric_encrypt_new_def hlen_packet_new_def word_le_unat MIN_RING_BUFFER_SIZE_def)
  qed
  obtain x p a where a: "x \<noteq> 0" "handshake_make_hello_packet ea ?a = Some (E_TLP_HANDSHAKING, Some p, a)"
    "pk_bytes p = hl_frame (hello_msg (fst (env_random_u32 ea)) (pub_key (dh_generate_factor x)))"
    "m_dhstate a = DH_HANDSHAKE" "ctx_dhfactor (m_context a) = dh_generate_factor x" "dh_sym a = symmetric_encrypt_new ga"
    using make_hello_ok [OF assms(1), of ga] by blast
  have ra: "at_rest a rba" "priv_key (ctx_dhfactor (m_context a)) = x"
    using rest [OF assms(3), of ga] a(5,6) by (simp_all add: at_rest_def dh_symmetric_encrypt_new_def dh_generate_factor_def)
  let ?px = "pub_key (dh_generate_factor x)"
  have fb: "m_dhstate ?b = DH_IDLE" "ctx_dhfactor (m_context ?b) = \<lparr> priv_key = 0, pub_key = 0 \<rparr>"
    by (simp_all add: dh_symmetric_encrypt_new_def dh_context_zero_def)
  obtain rb1 y m q b rb2 where b: "put_bytes (pk_bytes p) rbb = Some rb1"
    "dh_decode_packets eb ?b rb1 1 OK = Some ([], E_TLP_HANDSHAKING, Some q, b, rb2)" "y \<noteq> 0" "ok_text (cipher_key (dh_generate_key ?px y)) m"
    "pk_bytes q = hl_frame (resp_msg (fst (env_random_u32 eb)) (pub_key (dh_generate_factor y))) @ hl_frame (ok_msg (snd (env_random_u32 eb)) m)"
    "at_rest b rb2" "m_dhstate b = DH_HANDSHAKE" "se_m_cipher (dh_sym b) = Some (cipher_key (dh_generate_key ?px y))"
    using server_hello [OF rest [OF assms(4)] fb assms(2)] unfolding a(3) by blast
  have key: "dh_generate_key (pub_key (dh_generate_factor y)) x = dh_generate_key ?px y" by (rule dh_keys_same)
  obtain rb3 m' q' a1 rb4 a2 rb5 where c: "put_bytes (pk_bytes q) rba = Some rb3"
    "dh_decode_packets ea a rb3 1 OK = Some ([], E_TLP_HANDSHAKING, Some q', a1, rb4)" "ok_text (cipher_key (dh_generate_key ?px y)) m'"
    "pk_bytes q' = hl_frame (ok_msg (fst (env_random_u32 ea)) m')"
    "dh_decode_packets ea a1 rb4 1 OK = Some ([], E_TLP_HANDSHAKE_DONE, None, a2, rb5)"
    "at_rest a2 rb5" "handshake_done a2" "se_m_cipher (dh_sym a2) = Some (cipher_key (dh_generate_key ?px y))"
    using client_resp [OF ra(1) a(4) ra(2) a(1), where pub = "pub_key (dh_generate_factor y)" and m = m and r = "fst (env_random_u32 eb)"
        and r' = "snd (env_random_u32 eb)" and e = ea and n = 1 and ec = OK and n' = 1 and ec' = OK, unfolded key, OF b(4)]
    unfolding b(5) by blast
  obtain rb6 b2 rb7 where d: "put_bytes (pk_bytes q') rb2 = Some rb6"
    "dh_decode_packets eb b rb6 1 OK = Some ([], E_TLP_HANDSHAKE_DONE, None, b2, rb7)"
    "at_rest b2 rb7" "handshake_done b2" "se_m_cipher (dh_sym b2) = Some (cipher_key (dh_generate_key ?px y))"
    using server_ok [OF b(6,7,8) c(3)] unfolding c(4) by blast
  have "dh_exchange ea eb ?a ?b rba rbb =
      Some ([E_TLP_HANDSHAKING, E_TLP_HANDSHAKING, E_TLP_HANDSHAKING, E_TLP_HANDSHAKE_DONE, E_TLP_HANDSHAKE_DONE], a2, b2, rb5, rb7)"
    using a(2) b(1,2) c(1,2,5) d(1,2) by (simp add: dh_exchange_def)
  moreover have "rb_list rb5 = []" "rb_list rb7 = []" using c(6) d(3) by (simp_all add: at_rest_def)
  ultimately show ?thesis using c(7,8) d(4,5) cipher_key_nonempty by blast
qed

definition sample_dh_env :: dh_env where
  "sample_dh_env = \<lparr> env_le = True, env_junk = (\<lambda>_. 0), env_random_u64 = [0, 77], env_random_u32 = (3, 4), env_stack = 9 \<rparr>"

theorem dh_handshake_completes_witness:
  "\<exists>rba a b rba' rbb' c. bytes_ringbuffer_new (\<lambda>_. 0) 2048 = Some rba \<and>
    dh_exchange sample_dh_env (sample_dh_env\<lparr> env_le := False \<rparr>) (dh_symmetric_encrypt_new 1) (dh_symmetric_encrypt_new 2) rba rba =
      Some ([E_TLP_HANDSHAKING, E_TLP_HANDSHAKING, E_TLP_HANDSHAKING, E_TLP_HANDSHAKE_DONE, E_TLP_HANDSHAKE_DONE], a, b, rba', rbb') \<and>
    se_m_cipher (dh_sym a) = Some c \<and> se_m_cipher (dh_sym b) = Some c"
proof -
  obtain rb where rb: "bytes_ringbuffer_new (\<lambda>_. 0) 2048 = Some rb"
    by (rule bytes_ringbuffer_new_ok [of 2048 "\<lambda>_. 0"]) (simp_all add: MIN_RING_BUFFER_SIZE_def MAX_RING_BUFFER_SIZE_def)
  have "\<exists>r \<in> set (env_random_u64 sample_dh_env). r \<noteq> 0" "\<exists>r \<in> set (env_random_u64 (sample_dh_env\<lparr> env_le := False \<rparr>)). r \<noteq> 0"
    by (simp_all add: sample_dh_env_def)
  from dh_handshake_completes [OF this rb rb, of 1 2] rb show ?thesis by blast
qed

text \<open>
  C40: A peer can make the endpoint write outside an array: the number of cipher suites in the first message is checked against the length of
  the message but not against the three elements of the array they are read into. Nothing throws before the fourth suite is stored at index 3.
\<close>

theorem hello_overflows_cipher_array:
  assumes "m_dhstate s = DH_IDLE" "pk_inv p" "3 < length cs" "length cs < 256"
    "pk_bytes p = write_impl (u8_obfuscate F_HANDSHAKE_HELLO r) @ write_impl (pub :: u64) @ of_nat (length cs) # cs @ rest" "rest \<noteq> []"
  shows "handshake_packet_arrive e s p = Some (Inl (CS_MAX, cs ! CS_MAX))"
proof -
  have r: "read_array n i arr q = Some (Inl (length arr, pk_bytes q ! (length arr - i)))"
    if "pk_inv q" "i \<le> length arr" "length arr - i < n" "n \<le> length (pk_bytes q)" for n i arr and q :: packet
    using that
  proof (induction n arbitrary: i arr q)
    case (Suc n)
    then obtain v vs where v: "pk_bytes q = write_impl (v :: byte) @ vs" by (cases "pk_bytes q") auto
    obtain q' where q': "pk_read_T q = Some (v, q')" "pk_inv q'" "pk_bytes q' = vs" using pk_read_T_ok [OF Suc.prems(1) v] by auto
    show ?case
    proof (cases "i < length arr")
      case True
      then have "pk_bytes q ! (length arr - i) = vs ! (length arr - Suc i)" by (simp add: v nth_Cons')
      with Suc q' v True show ?thesis by simp
    next
      case False
      with Suc.prems q' v show ?thesis by simp
    qed
  qed simp
  obtain inp where i: "pk_inv inp" "pk_bytes inp = write_impl pub @ of_nat (length cs) # cs @ rest"
    "handshake_packet_arrive e s p = arrive_hello e s inp"
    using arrive_frame [OF assms(2,5), of s e] assms(1) by auto
  obtain i1 where i1: "pk_read_T inp = Some (pub, i1)" "pk_inv i1" "pk_bytes i1 = write_impl (of_nat (length cs) :: byte) @ cs @ rest"
    using pk_read_T_ok [OF i(1,2)] by auto
  obtain i2 where i2: "pk_read_T i1 = Some (of_nat (length cs) :: byte, i2)" "pk_inv i2" "pk_bytes i2 = cs @ rest"
    using pk_read_T_ok [OF i1(2,3)] by auto
  have n: "unat (of_nat (length cs) :: byte) = length cs" using assms(4) by (intro unat_of_nat_nowrap) simp
  have "unat (ucast (of_nat (length cs) :: byte) :: u32) = length cs" using unat_ucast_up [where 'a = 8 and 'b = 32] n by simp
  then have "ucast (of_nat (length cs) :: byte) < (of_nat (length (pk_bytes i2)) :: u32)"
    unfolding word_less_unat unat_of_nat_length [OF i2(2)] using i2(3) assms(6) by simp
  moreover have "read_array (length cs) 0 (replicate CS_MAX (env_stack e)) i2 = Some (Inl (CS_MAX, cs ! CS_MAX))"
    using r [OF i2(2), of 0 "replicate CS_MAX (env_stack e)" "length cs"] i2(3) assms(3) by (simp add: dh_consts nth_append)
  ultimately show ?thesis
    using i(3) assms(1) i1(1) i2(1) n by (simp add: arrive_hello_def pk_len_of_nat [OF i2(2)] Let_def)
qed

theorem hello_overflows_cipher_array_witness:
  "\<exists>p. pk_bytes p = write_impl (u8_obfuscate F_HANDSHAKE_HELLO 5) @ write_impl (6 :: u64) @ 4 # [2, 2, 2, 2] @ [1, 1] \<and>
     handshake_packet_arrive sample_dh_env (dh_symmetric_encrypt_new 0) p = Some (Inl (3, 2))"
proof -
  let ?d = "write_impl (u8_obfuscate F_HANDSHAKE_HELLO 5) @ write_impl (6 :: u64) @ 4 # [2, 2, 2, 2] @ [1, 1]"
  obtain p where p: "pk_inv p" "pk_bytes p = ?d" using packet_of_ok [of ?d "\<lambda>_. 0"] by auto
  have "m_dhstate (dh_symmetric_encrypt_new 0) = DH_IDLE" by (simp add: dh_symmetric_encrypt_new_def)
  from hello_overflows_cipher_array [OF this p(1), of "[2, 2, 2, 2]" 5 6 "[1, 1]" sample_dh_env] p(2) CS_MAX_def
  have "handshake_packet_arrive sample_dh_env (dh_symmetric_encrypt_new 0) p = Some (Inl (3, 2))" by simp
  with p(2) show ?thesis by blast
qed

end
