(* ===== verification/Spec2Isabelle.thy ===== *)
theory Spec2Isabelle
  imports Shared_Mutex Ros_Props Mux_Close Socket_Pair Observer Packet Wcb_Ack_Props Wcp_Props Wcb_Link Formula Xxtea Obfuscate Hlen_Link Tlp_Stream Dh_Handshake
begin

text \<open>
  A verification library for wawo, a C++ networking library. The parts that carry its own logic are
  a reliable transport over UDP (wcp), the byte containers it is built on, the transport layer
  protocols (tlp) that cut a byte stream into packets, encrypt them and exchange keys, the sockets that run a
  tlp over a kernel stream or over wcp, the observer that tells sockets what the kernel has for them, and the peers on top: one carries many
  streams over one socket, another matches responses to requests.

  \<^bold>\<open>Conventions.\<close> One theory per component, with the definitions in the order of the code and under its names
  (a prefix, as in rb_ or pk_, marks the class of a method). Structs and classes are records, enums datatypes or
  constants. Integers keep their width: u8_t to u64_t are words, and +, - and comparisons are those of the machine.
  A thrown wawo::exception (WAWO_ASSERT and WAWO_CONDITION_CHECK throw in release builds too), an access outside a
  block of memory and a dereferenced null pointer are the value None; return codes and error parameters are values. Every memcpy is
  checked against its block, so that a theorem which says that an operation returns Some also says that it stays inside
  its buffers. Memory from malloc holds arbitrary bytes (\<open>junk\<close>), and allocation succeeds. Clocks, random numbers and the answers of
  the kernel are arguments: theorems hold for all of them. Locks are left out: each model function is one critical
  section of the code; a call that would wait returns \<open>Block\<close>.

  \<^bold>\<open>Containers.\<close> \<open>Bytes_Helper\<close> is include/wawo/bytes_helper.hpp, the big-endian codec: it is a bijection between integers
  and byte strings. \<open>Bytes_Ringbuffer\<close> is bytes_ringbuffer.hpp: the locale \<open>byte_fifo\<close> states what its clients rely
  on, and the interpretation on the class shows that it is a bounded queue. \<open>Packet\<close> is packet.hpp, a buffer
  writeable at both ends (locale \<open>byte_buffer\<close>); its extension loops are functions with termination proofs.

  \<^bold>\<open>wcp.\<close> \<open>Wcp_Pack\<close> has the packs, datagrams and addresses of include/wawo/net/wcp.hpp; \<open>Wcb\<close>, \<open>Wcb_Recv\<close>, \<open>Wcb_Send\<close>
  and \<open>Wcb_Update\<close> the control block of src/net/wcp.cpp: construction, check_recv, check_flights, check_send, the state machine
  of update(), and connect, shutdown and close. \<open>Wcb_Recv_Props\<close>, \<open>Wcb_Ack_Props\<close>, \<open>Wcb_Send_Props\<close> and \<open>Wcb_Sent_Props\<close> show that a tick
  delivers received packs exactly in order, acknowledges every one, keeps the account of packs in flight, and neither loses nor
  reorders bytes to send; the loops over fuel in check_send get as many passes as there are packs and bytes
  (\<open>send_fuel\<close>), which is shown to be enough. \<open>Wcb_Update_Props\<close> has the transitions of the state machine, \<open>Wcb_Ident\<close> what a tick leaves
  alone. \<open>Wcb_Link\<close> joins two control blocks by a network that loses, duplicates and reorders datagrams: as long as no bare window update is due, what one user reads is a prefix of what the
  other wrote, and no tick throws (\<open>Wcb_Ack_Props\<close> shows that a bare window update loses data). \<open>Wcp_Manager\<close> and \<open>Wcp_Api\<close> are class wcp: its tables, the ticker, the listeners, the
  socket-like calls and wpoll; \<open>Sorted_Table\<close> is std::map (locale \<open>table\<close>). \<open>Wcp_Manager_Props\<close> and \<open>Wcp_Reach\<close> prove the invariant of the tables
  over all sequences of calls, ticks and arriving datagrams, \<open>Wcp_Props\<close> the resulting properties, \<open>Wcb_Sample\<close> has the states the witnesses use.

  \<^bold>\<open>Security.\<close> \<open>Formula\<close> is math/formula.hpp and security/dh.hpp: the modular arithmetic equals that of the natural numbers,
  and both sides of an exchange get the same key. \<open>Xxtea\<close> is security/xxtea.hpp: the rounds are inverse to each other,
  and decryption undoes encryption also between machines of different byte order, up to the length at which 32 bits overflow. \<open>Obfuscate\<close> is
  security/obfuscate.hpp.

  \<^bold>\<open>Transport layer protocols.\<close> \<open>Hlen_Packet\<close> is tlp/hlen_packet.hpp: the parser over the ring buffer is a \<open>partial_function\<close> that is shown to compute a
  function on byte lists, for all inputs, and to throw in a turn of its own where it does not return. \<open>Hlen_Link\<close> cuts the stream into arbitrary portions. \<open>Tlp_Stream\<close> is tlp/stream.hpp.
  \<open>Symmetric_Encrypt\<close> is the class xxtea and tlp/symmetric_encrypt.hpp; the interface cipher_abstract is the locale \<open>packet_cipher\<close>.
  \<open>Dh_Symmetric\<close> is tlp/dh_symmetric_encrypt.hpp, the handshake; \<open>Dh_Handshake\<close> shows that it completes, and that a peer can make it store outside an array. The loop that draws a key
  consumes a list of random numbers; any list with a number other than 0 is long enough.

  \<^bold>\<open>Sockets.\<close> \<open>Socket_Sys\<close> has the wrappers of src/net/socket_base.cpp around the system calls, whose answers are lists of data;
  \<open>Socket_Base\<close> the class socket_base with its flags, options and effects on the observer (a log); \<open>Socket\<close> and \<open>Socket_Life\<close> are src/net/socket.cpp:
  send, receive and the asynchronous handlers, then close, shutdown, connect, flush and the handshake. The locale \<open>byte_transport\<close> of \<open>Socket_Send_Props\<close> says what a socket
  relies on of the layer below; it is interpreted on the wrappers (qualifier \<open>tcp\<close>). \<open>Socket_Output\<close> shows that whatever is sent leaves in order,
  \<open>Socket_Recv_Props\<close> that the reading side hands on the frames it is owed, and \<open>Socket_Pair\<close> joins two sockets: the packets that arrive are
  a prefix of those sent, and no handler throws. \<open>Observer\<close> is observer_abstract.hpp, observer_impl/epoll.hpp and socket_observer.hpp: an event of the kernel reaches exactly the callbacks that
  are registered for it, as long as the kernel refuses no unwatch(); urgent data makes it throw.

  \<^bold>\<open>The multiplexing peer.\<close> \<open>Mux_Stream\<close> is a stream (peer/message/mux_cargo.hpp and src/net/peer/message/mux_cargo.cpp), \<open>Mux_Cargo\<close> the peer
  (peer/mux_cargo.hpp). The socket below is a record of operations. \<open>Packet_Typed\<close> has the integers written into packets. \<open>Mux_Flow\<close> states the socket as
  the locale \<open>packet_channel\<close> and shows what a flush sends; \<open>Mux_Pair\<close> has two peers, their users and the packets under way, and an invariant for each
  stream; \<open>Mux_Socket\<close> interprets the locale on the sockets of the model and concludes that streams deliver while none is closed. \<open>Mux_Close\<close> has the life of a
  stream, the end of all streams when the socket is closed, and the bytes the first flush drops. The loops of the peer are \<open>partial_function\<close>s and shown to return.

  \<^bold>\<open>Requests and responses.\<close> \<open>Ros\<close> is peer/message/ros.hpp and peer/ros.hpp. \<open>Ros_Props\<close> shows that a response comes back to the callback of its request, on the
  sockets of the model, and that every request is answered once, on any socket.

  \<^bold>\<open>Threads.\<close> \<open>Shared_Mutex\<close> is thread/impl/shared_mutex.hpp with the threads that use it: steps are the stretches between waits, and the properties hold for every
  interleaving of fewer than \<open>2 ^ 32\<close> threads.

  \<^bold>\<open>Not modelled.\<close> The select and wpoll observers, which repeat the epoll one over other system calls; threads, conditions, tickers and the simple mutexes,
  signals, environment and logging, which wrap the operating system; smart pointers and singletons, since the models hold values; the dispatch of
  events to listener objects, a log here; the cargo and http peers and the nodes that create and find peers; string.hpp. Where a call takes several locks one after the other
  (request() of ros), what other threads do in between; the bound of 16 MB on the acknowledgements collected in one tick. The http
  parser and the stack walker under 3rd are third-party code.
\<close>

end
